(* ===== verification/Pyfloat.thy ===== *)
theory Pyfloat
  imports Prelude
begin

text \<open>
  Python's \<open>float\<close>.  A value is a finite number, an infinity or a NaN; a finite
  result past the largest double overflows to the infinity of its sign.  Finite results
  are kept as exact reals: the rounding of the 53-bit significand, signed zeros and
  underflow are not modelled.  Comparisons are IEEE's, so every comparison with a NaN is
  false and \<open>feq\<close>, not HOL's equality, is the code's \<open>==\<close>.
\<close>

datatype flt = Fin real | PInf | MInf | NaN

definition flt_limit :: real where
  \<comment> \<open>the least magnitude that rounds to an infinity: the largest double is
     \<open>2^1024 - 2^971\<close>\<close>
  "flt_limit = 2 ^ 1024 - 2 ^ 970"

definition fval :: "real \<Rightarrow> flt" where
  "fval r = (if \<bar>r\<bar> < flt_limit then Fin r else if 0 < r then PInf else MInf)"

section \<open>Arithmetic\<close>

fun fsign :: "flt \<Rightarrow> real" where
  "fsign (Fin r) = sgn r"
| "fsign PInf = 1"
| "fsign MInf = -1"
| "fsign NaN = 0"

definition finf :: "real \<Rightarrow> flt" where
  \<comment> \<open>the infinity of a sign, NaN for none (\<open>0 * inf\<close>)\<close>
  "finf s = (if 0 < s then PInf else if s < 0 then MInf else NaN)"

fun fneg :: "flt \<Rightarrow> flt" where
  "fneg (Fin r) = Fin (- r)"
| "fneg PInf = MInf"
| "fneg MInf = PInf"
| "fneg NaN = NaN"

fun fadd :: "flt \<Rightarrow> flt \<Rightarrow> flt" where
  "fadd (Fin a) (Fin b) = fval (a + b)"
| "fadd NaN _ = NaN"
| "fadd _ NaN = NaN"
| "fadd (Fin _) y = y"
| "fadd x (Fin _) = x"
| "fadd PInf PInf = PInf"
| "fadd MInf MInf = MInf"
| "fadd PInf MInf = NaN"
| "fadd MInf PInf = NaN"

fun fmul :: "flt \<Rightarrow> flt \<Rightarrow> flt" where
  "fmul (Fin a) (Fin b) = fval (a * b)"
| "fmul NaN _ = NaN"
| "fmul _ NaN = NaN"
| "fmul x y = finf (fsign x * fsign y)"

fun fdiv :: "flt \<Rightarrow> flt \<Rightarrow> flt" where
  \<comment> \<open>Python raises on a zero divisor; every division of the modelled code has a divisor
     its guards keep from zero\<close>
  "fdiv NaN _ = NaN"
| "fdiv _ NaN = NaN"
| "fdiv (Fin a) (Fin b) = (if b = 0 then NaN else fval (a / b))"
| "fdiv (Fin _) _ = Fin 0"
| "fdiv x (Fin b) = finf (fsign x * (if b < 0 then -1 else 1))"
| "fdiv _ _ = NaN"

definition fabs :: "flt \<Rightarrow> flt" where
  "fabs x = (case x of Fin r \<Rightarrow> Fin \<bar>r\<bar> | PInf \<Rightarrow> PInf | MInf \<Rightarrow> PInf | NaN \<Rightarrow> NaN)"

instantiation flt :: "{zero, one, plus, minus, uminus, times, inverse}"
begin
definition "0 = Fin 0"
definition "1 = Fin 1"
definition "x + y = fadd x y"
definition "- x = fneg x"
definition "x - y = fadd x (fneg y)"
definition "x * y = fmul x y"
definition "inverse x = fdiv (Fin 1) x"
definition "divide x y = fdiv x y"
instance ..
end

section \<open>Comparison\<close>

fun fle :: "flt \<Rightarrow> flt \<Rightarrow> bool" where
  "fle NaN _ = False"
| "fle _ NaN = False"
| "fle (Fin a) (Fin b) = (a \<le> b)"
| "fle MInf _ = True"
| "fle _ PInf = True"
| "fle _ _ = False"

definition feq :: "flt \<Rightarrow> flt \<Rightarrow> bool" where
  "feq x y \<longleftrightarrow> x = y \<and> x \<noteq> NaN"

instantiation flt :: ord
begin
definition "x \<le> y \<longleftrightarrow> fle x y"
definition "x < y \<longleftrightarrow> fle x y \<and> x \<noteq> y"
instance ..
end

definition fmin :: "flt \<Rightarrow> flt \<Rightarrow> flt" where
  \<comment> \<open>Python's \<open>min(a, b)\<close>: the first unless the second is less\<close>
  "fmin a b = (if b < a then b else a)"

definition fmax :: "flt \<Rightarrow> flt \<Rightarrow> flt" where
  "fmax a b = (if a < b then b else a)"

definition is_fin :: "flt \<Rightarrow> bool" where
  "is_fin x \<longleftrightarrow> (case x of Fin _ \<Rightarrow> True | _ \<Rightarrow> False)"

definition is_inf :: "flt \<Rightarrow> bool" where
  "is_inf x \<longleftrightarrow> x = PInf \<or> x = MInf"

fun real_of :: "flt \<Rightarrow> real" where
  \<comment> \<open>the number a finite value is\<close>
  "real_of (Fin r) = r"
| "real_of _ = 0"

section \<open>Conversions and functions of the standard library\<close>

definition fint :: "int \<Rightarrow> flt" where
  "fint i = fval (of_int i)"

definition round_even :: "real \<Rightarrow> int" where
  \<comment> \<open>Python's \<open>round(x)\<close>: to the nearest integer, a half to the even one\<close>
  "round_even x =
     (let f = \<lfloor>x\<rfloor>; d = x - of_int f
      in if d < 1 / 2 then f else if 1 / 2 < d then f + 1 else if even f then f else f + 1)"

definition trunc_int :: "real \<Rightarrow> int" where
  \<comment> \<open>Python's \<open>int(x)\<close>: towards zero\<close>
  "trunc_int x = (if 0 \<le> x then \<lfloor>x\<rfloor> else \<lceil>x\<rceil>)"

definition fsin :: "flt \<Rightarrow> flt" where
  \<comment> \<open>\<open>math.sin\<close>; the callers refuse an infinite angle, on which it raises\<close>
  "fsin x = (case x of Fin r \<Rightarrow> Fin (sin r) | _ \<Rightarrow> NaN)"

definition fcos :: "flt \<Rightarrow> flt" where
  "fcos x = (case x of Fin r \<Rightarrow> Fin (cos r) | _ \<Rightarrow> NaN)"

type_synonym point = "flt \<times> flt \<times> flt"

definition fdist :: "point \<Rightarrow> point \<Rightarrow> flt" where
  \<comment> \<open>\<open>math.dist\<close>, which scales and so overflows only when the distance does\<close>
  "fdist p q =
     (case (p, q) of
        ((px, py, pz), (qx, qy, qz)) \<Rightarrow>
          (case (px - qx, py - qy, pz - qz) of
             (Fin x, Fin y, Fin z) \<Rightarrow> fval (sqrt (x\<^sup>2 + y\<^sup>2 + z\<^sup>2))
           | (dx, dy, dz) \<Rightarrow> if is_inf dx \<or> is_inf dy \<or> is_inf dz then PInf else NaN))"

section \<open>Lemmas\<close>

lemma is_fin_simps [simp]:
  "is_fin (Fin r)" "\<not> is_fin PInf" "\<not> is_fin MInf" "\<not> is_fin NaN"
  by (simp_all add: is_fin_def)

lemma is_finE: "is_fin x \<Longrightarrow> (\<And>r. x = Fin r \<Longrightarrow> P) \<Longrightarrow> P"
  by (cases x) auto

lemma is_fin_iff: "is_fin x \<longleftrightarrow> (\<exists>r. x = Fin r)"
  by (cases x) auto

lemma flt_limit_big: "10 ^ 308 < flt_limit"
  by (simp add: flt_limit_def)

lemma flt_limit_pos [simp]: "0 < flt_limit"
  using flt_limit_big by (rule less_trans [rotated]) simp

lemma fval_Fin [simp]: "fval r = Fin s \<longleftrightarrow> s = r \<and> \<bar>r\<bar> < flt_limit"
  by (auto simp: fval_def)

lemma fval_small: "\<bar>r\<bar> \<le> 10 ^ 308 \<Longrightarrow> fval r = Fin r"
  using flt_limit_big by (simp add: fval_def)

lemma fval_0 [simp]: "fval 0 = Fin 0"
  by (simp add: fval_def)

lemma fval_not_NaN [simp]: "fval r \<noteq> NaN"
  by (simp add: fval_def)

lemma finf_not_Fin [simp]: "finf s \<noteq> Fin r"
  by (simp add: finf_def)

text \<open>A finite sum, difference or product has finite operands: the infinities and NaN
  propagate.\<close>

lemma fadd_Fin: "fadd x y = Fin r \<longleftrightarrow> (\<exists>a b. x = Fin a \<and> y = Fin b \<and> fval (a + b) = Fin r)"
  by (cases x; cases y) auto

lemma fmul_Fin: "fmul x y = Fin r \<longleftrightarrow> (\<exists>a b. x = Fin a \<and> y = Fin b \<and> fval (a * b) = Fin r)"
  by (cases x; cases y) auto

lemma fneg_Fin [simp]: "fneg x = Fin r \<longleftrightarrow> x = Fin (- r)"
  by (cases x) auto

lemma plus_Fin: "x + y = Fin r \<longleftrightarrow> (\<exists>a b. x = Fin a \<and> y = Fin b \<and> r = a + b \<and> \<bar>a + b\<bar> < flt_limit)"
  by (auto simp: plus_flt_def fadd_Fin)

lemma times_Fin: "x * y = Fin r \<longleftrightarrow> (\<exists>a b. x = Fin a \<and> y = Fin b \<and> r = a * b \<and> \<bar>a * b\<bar> < flt_limit)"
  by (auto simp: times_flt_def fmul_Fin)

lemma minus_Fin: "x - y = Fin r \<longleftrightarrow> (\<exists>a b. x = Fin a \<and> y = Fin b \<and> r = a - b \<and> \<bar>a - b\<bar> < flt_limit)"
  by (auto simp: minus_flt_def fadd_Fin)

lemma uminus_Fin [simp]: "- Fin a = Fin (- a)"
  by (simp add: uminus_flt_def)

lemma flt_ops_Fin:
  "Fin a + Fin b = fval (a + b)" "Fin a - Fin b = fval (a - b)" "Fin a * Fin b = fval (a * b)"
  "b \<noteq> 0 \<Longrightarrow> Fin a / Fin b = fval (a / b)"
  by (simp_all add: plus_flt_def minus_flt_def times_flt_def divide_flt_def)

lemma flt_less_Fin [simp]: "Fin a < Fin b \<longleftrightarrow> a < b"
  by (auto simp: less_flt_def)

lemma flt_le_Fin [simp]: "Fin a \<le> Fin b \<longleftrightarrow> a \<le> b"
  by (simp add: less_eq_flt_def)

lemma flt_nan [simp]:
  "\<not> NaN < x" "\<not> x < NaN" "\<not> NaN \<le> x" "\<not> x \<le> NaN"
  by (cases x; simp add: less_flt_def less_eq_flt_def)+

lemma feq_Fin [simp]: "feq (Fin a) (Fin b) \<longleftrightarrow> a = b"
  by (simp add: feq_def)

lemma feq_imp_eq: "feq x y \<Longrightarrow> x = y"
  by (simp add: feq_def)

lemma feq_sym: "feq x y \<longleftrightarrow> feq y x"
  by (auto simp: feq_def)

lemma fabs_Fin [simp]: "fabs (Fin r) = Fin \<bar>r\<bar>"
  by (simp add: fabs_def)

lemma round_even_of_int [simp]: "round_even (of_int i) = i"
  by (simp add: round_even_def)

text \<open>Rounding is to nearest.\<close>

lemma round_even_near: "\<bar>of_int (round_even x) - x\<bar> \<le> 1 / 2"
proof -
  let ?d = "x - of_int \<lfloor>x\<rfloor>"
  have "0 \<le> ?d" "?d < 1"
    by linarith+
  then show ?thesis
    by (auto simp: round_even_def Let_def abs_if; linarith)
qed

end
