(* ===== verification/Pystring.thy ===== *)
theory Pystring
  imports Pyfloat
begin

text \<open>
  What the deck readers use of Python's \<open>str\<close> and of \<open>float(token)\<close>.  A string is a
  list of characters read as code points below 256; letters are the ASCII ones (a deck is
  ASCII text), white space and line boundaries are Python's own for that range.
\<close>

section \<open>Characters\<close>

abbreviation code :: "char \<Rightarrow> nat" where
  "code c \<equiv> of_char c"

definition is_space :: "char \<Rightarrow> bool" where
  "is_space c \<longleftrightarrow>
     (let n = code c in 9 \<le> n \<and> n \<le> 13 \<or> 28 \<le> n \<and> n \<le> 32 \<or> n = 133 \<or> n = 160)"

definition is_line_end :: "char \<Rightarrow> bool" where
  \<comment> \<open>the boundaries of \<open>str.splitlines\<close>; a carriage return and the newline after it
     are one\<close>
  "is_line_end c \<longleftrightarrow>
     (let n = code c in 10 \<le> n \<and> n \<le> 13 \<or> 28 \<le> n \<and> n \<le> 30 \<or> n = 133)"

definition is_upper :: "char \<Rightarrow> bool" where
  "is_upper c \<longleftrightarrow> 65 \<le> code c \<and> code c \<le> 90"

definition is_lower :: "char \<Rightarrow> bool" where
  "is_lower c \<longleftrightarrow> 97 \<le> code c \<and> code c \<le> 122"

definition is_alpha :: "char \<Rightarrow> bool" where
  "is_alpha c \<longleftrightarrow> is_upper c \<or> is_lower c"

definition is_digit :: "char \<Rightarrow> bool" where
  "is_digit c \<longleftrightarrow> 48 \<le> code c \<and> code c \<le> 57"

definition digit_val :: "char \<Rightarrow> nat" where
  "digit_val c = code c - 48"

definition to_upper :: "char \<Rightarrow> char" where
  "to_upper c = (if is_lower c then char_of (code c - 32) else c)"

definition to_lower :: "char \<Rightarrow> char" where
  "to_lower c = (if is_upper c then char_of (code c + 32) else c)"

section \<open>Strings\<close>

definition upper :: "string \<Rightarrow> string" where
  "upper s = map to_upper s"

definition lower :: "string \<Rightarrow> string" where
  "lower s = map to_lower s"

definition isalpha :: "string \<Rightarrow> bool" where
  "isalpha s \<longleftrightarrow> s \<noteq> [] \<and> list_all is_alpha s"

definition replace_char :: "char \<Rightarrow> char \<Rightarrow> string \<Rightarrow> string" where
  "replace_char a b s = map (\<lambda>c. if c = a then b else c) s"

definition strip :: "string \<Rightarrow> string" where
  "strip s = rev (dropWhile is_space (rev (dropWhile is_space s)))"

definition rstrip_nl :: "string \<Rightarrow> string" where
  \<comment> \<open>\<open>s.rstrip('\n')\<close>\<close>
  "rstrip_nl s = rev (dropWhile (\<lambda>c. code c = 10) (rev s))"

function split_ws :: "string \<Rightarrow> string list" where
  \<comment> \<open>\<open>s.split()\<close>: the maximal runs of characters that are no white space\<close>
  "split_ws s =
     (case dropWhile is_space s of
        [] \<Rightarrow> []
      | c # cs \<Rightarrow>
          (c # takeWhile (\<lambda>d. \<not> is_space d) cs) # split_ws (dropWhile (\<lambda>d. \<not> is_space d) cs))"
  by pat_completeness auto
termination
proof (relation "measure length")
  show "wf (measure length)" by simp
next
  fix s c cs
  assume "dropWhile is_space s = c # cs"
  then have "length (c # cs) \<le> length s"
    by (metis length_dropWhile_le)
  moreover have "length (dropWhile (\<lambda>d. \<not> is_space d) cs) \<le> length cs"
    by (rule length_dropWhile_le)
  ultimately show "(dropWhile (\<lambda>d. \<not> is_space d) cs, s) \<in> measure length"
    by simp
qed

declare split_ws.simps [simp del]

fun split_lines_from :: "string \<Rightarrow> string \<Rightarrow> string list" where
  \<comment> \<open>the line read so far, in reverse, and what is left\<close>
  "split_lines_from acc [] = (if acc = [] then [] else [rev acc])"
| "split_lines_from acc (c # cs) =
     (if code c = 13 \<and> (case cs of d # _ \<Rightarrow> code d = 10 | [] \<Rightarrow> False)
      then rev acc # split_lines_from [] (tl cs)
      else if is_line_end c then rev acc # split_lines_from [] cs
      else split_lines_from (c # acc) cs)"

definition splitlines :: "string \<Rightarrow> string list" where
  "splitlines s = split_lines_from [] s"

section \<open>\<open>float(token)\<close>\<close>

fun read_digits :: "nat \<Rightarrow> nat \<Rightarrow> string \<Rightarrow> nat \<times> nat \<times> string" where
  \<comment> \<open>a digit part: the value and the count of the digits read so far, and what is left; an
     underscore may stand between two digits\<close>
  "read_digits v n [] = (v, n, [])"
| "read_digits v n (c # cs) =
     (if is_digit c then read_digits (10 * v + digit_val c) (Suc n) cs
      else if c = CHR ''_'' \<and> 0 < n \<and> (case cs of d # _ \<Rightarrow> is_digit d | [] \<Rightarrow> False)
      then read_digits v n cs
      else (v, n, c # cs))"

fun read_sign :: "string \<Rightarrow> bool \<times> string" where
  "read_sign [] = (False, [])"
| "read_sign (c # cs) =
     (if c = CHR ''-'' then (True, cs) else if c = CHR ''+'' then (False, cs) else (False, c # cs))"

definition read_exponent :: "string \<Rightarrow> int option" where
  \<comment> \<open>what follows the mantissa: nothing, or an exponent that ends the token\<close>
  "read_exponent s =
     (case s of
        [] \<Rightarrow> Some 0
      | c # cs \<Rightarrow>
          if c \<noteq> CHR ''e'' \<and> c \<noteq> CHR ''E'' then None
          else (case read_sign cs of (neg, ds) \<Rightarrow>
                 (case read_digits 0 0 ds of (v, n, rest) \<Rightarrow>
                    if n = 0 \<or> rest \<noteq> [] then None
                    else Some (if neg then - int v else int v))))"

definition scale10 :: "nat \<Rightarrow> int \<Rightarrow> real" where
  "scale10 m e = (if 0 \<le> e then of_nat m * 10 ^ nat e else of_nat m / 10 ^ nat (- e))"

definition read_number :: "string \<Rightarrow> real option" where
  "read_number s =
     (case read_digits 0 0 s of (v1, n1, rest) \<Rightarrow>
        (case (case rest of
                 c # cs \<Rightarrow> if c = CHR ''.'' then read_digits v1 0 cs else (v1, 0, rest)
               | [] \<Rightarrow> (v1, 0, [])) of (v2, n2, rest') \<Rightarrow>
           if n1 + n2 = 0 then None
           else map_option (\<lambda>e. scale10 v2 (e - int n2)) (read_exponent rest')))"

definition py_float :: "string \<Rightarrow> flt option" where
  \<comment> \<open>\<open>float(s)\<close> of a string with no white space around it; None is its ValueError\<close>
  "py_float s =
     (case read_sign s of (neg, body) \<Rightarrow>
        (if lower body = ''inf'' \<or> lower body = ''infinity''
         then Some (if neg then MInf else PInf)
         else if lower body = ''nan'' then Some NaN
         else map_option (\<lambda>r. fval (if neg then - r else r)) (read_number body)))"

section \<open>Lemmas\<close>

lemma split_ws_Nil [simp]: "split_ws [] = []"
  by (simp add: split_ws.simps)

lemma split_ws_space: "is_space c \<Longrightarrow> split_ws (c # cs) = split_ws cs"
  by (simp add: split_ws.simps [of "c # cs"] split_ws.simps [of cs])

text \<open>A token followed by a separator is split off.\<close>

lemma split_ws_token:
  assumes "t \<noteq> []" "list_all (\<lambda>c. \<not> is_space c) t" "rest = [] \<or> is_space (hd rest)"
  shows "split_ws (t @ rest) = t # split_ws rest"
proof -
  obtain c cs where t: "t = c # cs"
    using assms(1) by (cases t) auto
  have all: "\<And>d. d \<in> set cs \<Longrightarrow> \<not> is_space d" and c: "\<not> is_space c"
    using assms(2) t by (auto simp: list_all_iff)
  have "takeWhile (\<lambda>d. \<not> is_space d) (cs @ rest) = cs"
    using all assms(3) by (cases rest) (auto simp: takeWhile_append)
  moreover have "dropWhile (\<lambda>d. \<not> is_space d) (cs @ rest) = rest"
    using all assms(3) by (cases rest) (auto simp: dropWhile_append)
  ultimately show ?thesis
    using c t by (simp add: split_ws.simps [of "c # cs @ rest"])
qed

text \<open>Every token is nonempty and free of white space.\<close>

lemma split_ws_tokens:
  "t \<in> set (split_ws s) \<Longrightarrow> t \<noteq> [] \<and> list_all (\<lambda>c. \<not> is_space c) t"
proof (induction s rule: split_ws.induct)
  case (1 s)
  show ?case
  proof (cases "dropWhile is_space s")
    case Nil
    with "1.prems" show ?thesis by (simp add: split_ws.simps [of s])
  next
    case (Cons c cs)
    then have c: "\<not> is_space c"
      by (metis dropWhile_eq_Cons_conv)
    have first: "list_all (\<lambda>d. \<not> is_space d) (c # takeWhile (\<lambda>d. \<not> is_space d) cs)"
      using c by (simp add: list_all_iff) (metis set_takeWhileD)
    from "1.prems" Cons consider
      "t = c # takeWhile (\<lambda>d. \<not> is_space d) cs" |
      "t \<in> set (split_ws (dropWhile (\<lambda>d. \<not> is_space d) cs))"
      by (auto simp: split_ws.simps [of s])
    then show ?thesis
    proof cases
      case 1
      with first show ?thesis by blast
    next
      case 2
      then show ?thesis by (rule "1.IH" [OF Cons])
    qed
  qed
qed

lemma split_lines_no_end:
  "list_all (\<lambda>c. \<not> is_line_end c) s \<Longrightarrow> split_lines_from acc (s @ rest) = split_lines_from (rev s @ acc) rest"
proof (induction s arbitrary: acc)
  case (Cons c cs)
  then have e: "\<not> is_line_end c" and cs: "list_all (\<lambda>c. \<not> is_line_end c) cs"
    by simp_all
  from e have c: "code c \<noteq> 13"
    by (auto simp: is_line_end_def Let_def)
  show ?case
    using Cons.IH [OF cs, of "c # acc"] by (simp add: c e)
qed simp

text \<open>Lines written with a newline each come back.\<close>

lemma splitlines_newline:
  assumes "list_all (\<lambda>c. \<not> is_line_end c) s" and "code nl = 10"
  shows "splitlines (s @ nl # rest) = s # splitlines rest"
proof -
  have "is_line_end nl"
    using assms(2) by (simp add: is_line_end_def)
  then show ?thesis
    using assms by (simp add: splitlines_def split_lines_no_end)
qed

lemma code_to_upper: "is_lower c \<Longrightarrow> code (to_upper c) = code c - 32"
  by (auto simp: to_upper_def is_lower_def of_char_of intro: mod_less)

lemma is_upper_to_upper: "is_alpha c \<Longrightarrow> is_upper (to_upper c)"
proof (cases "is_lower c")
  case True
  then show ?thesis
    using code_to_upper [OF True] by (auto simp: is_upper_def is_lower_def)
next
  case False
  assume "is_alpha c"
  with False show ?thesis by (simp add: is_alpha_def to_upper_def)
qed

lemma isalpha_upper: "isalpha s \<Longrightarrow> list_all is_upper (upper s)"
  by (auto simp: isalpha_def upper_def list_all_iff is_upper_to_upper)

lemma length_upper [simp]: "length (upper s) = length s"
  by (simp add: upper_def)

lemma upper_not_lower: "is_upper c \<Longrightarrow> \<not> is_lower c"
  by (auto simp: is_upper_def is_lower_def)

lemma is_alpha_upper: "is_upper c \<Longrightarrow> is_alpha c"
  by (simp add: is_alpha_def)

lemma upper_upper: "list_all is_upper s \<Longrightarrow> upper s = s"
  by (induction s) (auto simp: upper_def to_upper_def dest: upper_not_lower)

lemma upper_alpha_iff: "is_alpha (to_upper c) \<longleftrightarrow> is_alpha c"
proof (cases "is_lower c")
  case True
  then show ?thesis
    using is_upper_to_upper [of c] by (auto simp: is_alpha_def)
next
  case False
  then show ?thesis by (simp add: to_upper_def)
qed

lemma isalpha_upper_iff [simp]: "isalpha (upper s) \<longleftrightarrow> isalpha s"
  by (auto simp: isalpha_def upper_def list_all_iff upper_alpha_iff)

lemma alpha_not_space: "is_alpha c \<Longrightarrow> \<not> is_space c"
  by (auto simp: is_alpha_def is_upper_def is_lower_def is_space_def Let_def)

lemma digit_not_space: "is_digit c \<Longrightarrow> \<not> is_space c"
  by (auto simp: is_digit_def is_space_def Let_def)

lemma line_end_space: "is_line_end c \<Longrightarrow> is_space c"
  by (auto simp: is_line_end_def is_space_def Let_def)

lemma read_digits_append:
  assumes "list_all is_digit ds"
    and "rest = [] \<or> (\<not> is_digit (hd rest) \<and> hd rest \<noteq> CHR ''_'')"
  shows "read_digits v n (ds @ rest) =
    (foldl (\<lambda>a d. 10 * a + digit_val d) v ds, n + length ds, rest)"
  using assms
proof (induction ds arbitrary: v n)
  case Nil
  then show ?case by (cases rest) auto
qed auto

end
