(* ===== verification/Errors.thy ===== *)
theory Errors
  imports Pystring
begin

text \<open>
  The exceptions of the modelled code.  A \<open>DeckError\<close> carries one \<open>refusal\<close> per
  sentence the readers refuse with, applied to the values the sentence prints, so a refusal
  is compared by what it says and not by its English.  The other exceptions are the
  interpreter's own, where the code lets one through.
\<close>

datatype dialect = Nec2 | Nec4 | Nec5

text \<open>Refusals of a card line or of a wire a card made (\<open>deck/_cards.py\<close>).\<close>

datatype card_refusal =
    MnemonicShort string
  | NonNumeric string string
  | FieldNaN string nat
  | FieldInfinite string nat
  | GwFieldNotFinite nat
  | GwTooManySegments int
  | WireNotFinite string int
  | WireTooFar string int
  | InfiniteAngle string

text \<open>Refusals of a geometry card or an address (\<open>deck/_nec2_geometry.py\<close>).\<close>

datatype geometry_refusal =
    SegmentCount int
  | TaperedWire
  | GaSegmentCount int
  | GaRadius flt
  | GaNoLength flt flt
  | GaSweep flt flt dialect
  | GaWireRadius flt dialect
  | GhSegmentCount int
  | GhSpacing
  | GhLength
  | GhRadii flt flt flt flt
  | GhWireRadius flt
  | NoWireHasTag int
  | GsFactor flt
  | SymmetryPlane string
  | StructureCount int
  | SegmentOutOfRange int int

text \<open>Refusals of a load or sheath card (\<open>deck/_nec2.py\<close>).\<close>

datatype load_refusal =
    LdOutsideCell nat int int
  | LdType int
  | LdTooManySegments nat
  | LdSegmentTwice
  | Ld23Negative int string flt flt flt
  | Ld23PartialWire int
  | Ld5Permeability flt
  | Ld5PartialWire
  | IsAfterExecute
  | IsConductiveSheath
  | IsSymmetricCell
  | IsPartialWire
  | IsRadius
  | MaterialChanges

text \<open>The front end's other refusals (\<open>deck/_nec2.py\<close>).\<close>

datatype deck_refusal =
    RefusedByName string
  | DirectiveInfinite string string
  | GnTrailer string
  | GnRadialScreen int int
  | GnType int
  | ExType int
  | NetworkInterposed string string
  | NetworkSegment string int int
  | TlZeroImpedance
  | RpMode int
  | RpNoSecondMedium int
  | NearSpherical string int
  | NearReflectionCoefficient string
  | MpNotInteger nat flt
  | UnrecognisedCard string
  | NoExCard
  | GroundContact int flt

text \<open>What the NEC-4.2 front end adds (\<open>deck/_nec4.py\<close>).\<close>

datatype nec4_refusal =
    Gh4SegmentCount int
  | Gh4NoTurns
  | Gh4HelixRadius flt flt
  | Gh4WireRadius flt flt
  | CwSegmentCount int
  | CwWireRadius flt
  | CwKind flt
  | CwNoSpan
  | CwAtEnd flt
  | CwOnLine
  | CwNoFit flt flt flt
  | Ge4Flag int
  | Ge4Second int
  | Near4Coordinates string int
  | Ld4Capacitance int flt
  | Gn4RadialScreen int
  | Gn4Permittivity int flt
  | Ex4Element
  | Ex4Type int
  | Ex4TwoKinds int int int int
  | Ex4ZeroCurrent int int

datatype refusal =
    CardR card_refusal
  | GeometryR geometry_refusal
  | LoadR load_refusal
  | DeckR deck_refusal
  | Nec4R nec4_refusal

datatype pyexn =
    DeckError refusal
  | IndexError
  | ValueError
  | OverflowError
  | ZeroDivisionError
  | KeyError
  | AssertionError
  | StopIteration
  | Diverges \<comment> \<open>a loop of the model ran out of fuel\<close>

abbreviation card_error :: "card_refusal \<Rightarrow> pyexn" where
  "card_error r \<equiv> DeckError (CardR r)"

abbreviation geometry_error :: "geometry_refusal \<Rightarrow> pyexn" where
  "geometry_error r \<equiv> DeckError (GeometryR r)"

abbreviation load_error :: "load_refusal \<Rightarrow> pyexn" where
  "load_error r \<equiv> DeckError (LoadR r)"

abbreviation deck_error :: "deck_refusal \<Rightarrow> pyexn" where
  "deck_error r \<equiv> DeckError (DeckR r)"

abbreviation nec4_error :: "nec4_refusal \<Rightarrow> pyexn" where
  "nec4_error r \<equiv> DeckError (Nec4R r)"

end
