(* ===== verification/Cards.thy ===== *)
theory Cards
  imports Errors
begin

text \<open>
  \<open>src/src/momwire/deck/_cards.py\<close>: a deck line as a card, and the checks every reader
  asks of a card.  A card's fields are numbers read by position, a field the card did not
  write reading as zero.
\<close>

record card =
  mnemonic :: string
  vals :: "flt list"
  raw :: string
  trailer :: "string option"

definition card_f :: "card \<Rightarrow> nat \<Rightarrow> flt" where
  "card_f c k = (if k < length (vals c) then vals c ! k else Fin 0)"

definition card_i :: "card \<Rightarrow> nat \<Rightarrow> pyexn + int" where
  "card_i c k =
     (case card_f c k of
        NaN \<Rightarrow> Inl (card_error (FieldNaN (mnemonic c) (k + 1)))
      | PInf \<Rightarrow> Inl (card_error (FieldInfinite (mnemonic c) (k + 1)))
      | MInf \<Rightarrow> Inl (card_error (FieldInfinite (mnemonic c) (k + 1)))
      | Fin r \<Rightarrow> Inr (round_even r))"

definition card_text :: "card \<Rightarrow> string" where
  "card_text c = drop 2 (raw c)"

definition max_wire_segments :: int where
  "max_wire_segments = 10000000"

definition gw_field_refusal :: "card \<Rightarrow> pyexn + refusal option" where
  "gw_field_refusal c =
     (case index_of (\<lambda>v. \<not> is_fin v) (take 9 (vals c)) of
        Some k \<Rightarrow> Inr (Some (CardR (GwFieldNotFinite (k + 1))))
      | None \<Rightarrow>
          bindE (card_i c 1) (\<lambda>n.
            if n > max_wire_segments
            then bindE (card_i c 0) (\<lambda>tag. Inr (Some (CardR (GwTooManySegments tag))))
            else Inr None))"

definition max_coordinate :: flt where
  "max_coordinate = Fin (10 ^ 299)"

fun coords :: "point \<Rightarrow> flt list" where
  "coords (x, y, z) = [x, y, z]"

definition wire_geometry_refusal ::
  "string \<Rightarrow> int \<Rightarrow> point list \<Rightarrow> flt \<Rightarrow> refusal option" where
  "wire_geometry_refusal m tag points radius =
     (let cs = concat (map coords points);
          all_finite = is_fin radius \<and> list_all is_fin cs;
          far = list_ex (\<lambda>c. is_fin c \<and> max_coordinate < fabs c) cs
      in if \<not> all_finite then Some (CardR (WireNotFinite m tag))
         else if far then Some (CardR (WireTooFar m tag))
         else None)"

definition infinite_angle_refusal :: "string \<Rightarrow> refusal" where
  "infinite_angle_refusal m = CardR (InfiniteAngle m)"

definition to_float :: "string \<Rightarrow> flt option" where
  \<comment> \<open>a numeric field, Fortran's \<open>D\<close> exponents included\<close>
  "to_float token =
     py_float (replace_char CHR ''d'' CHR ''e'' (replace_char CHR ''D'' CHR ''E'' token))"

definition fused_field_start :: string where
  "fused_field_start = ''0123456789.+-''"

definition unfuse :: "string list \<Rightarrow> string list" where
  \<comment> \<open>a mnemonic glued to its first field splits where the third character starts a
     number\<close>
  "unfuse tokens =
     (case tokens of
        [] \<Rightarrow> []
      | head # rest \<Rightarrow>
          if length head > 2 \<and> isalpha (take 2 head) \<and> head ! 2 \<in> set fused_field_start
          then take 2 head # drop 2 head # rest
          else tokens)"

fun read_fields :: "string \<Rightarrow> string list \<Rightarrow> pyexn + flt list" where
  "read_fields stripped [] = Inr []"
| "read_fields stripped (t # ts) =
     (case to_float t of
        None \<Rightarrow> Inl (card_error (NonNumeric t stripped))
      | Some v \<Rightarrow> bindE (read_fields stripped ts) (\<lambda>vs. Inr (v # vs)))"

definition parse_card :: "string \<Rightarrow> pyexn + card option" where
  "parse_card line =
     (let stripped = strip line in
      if stripped = [] then Inr None
      else case unfuse (split_ws (replace_char CHR '','' CHR '' '' stripped)) of
        [] \<Rightarrow> Inl IndexError
      | head # flds \<Rightarrow>
          (let m = upper head in
           if length m \<noteq> 2 \<or> \<not> isalpha m then Inl (card_error (MnemonicShort stripped))
           else if m = ''CM'' \<or> m = ''CE''
           then Inr (Some \<lparr>mnemonic = m, vals = [], raw = rstrip_nl line, trailer = None\<rparr>)
           else
             (let named = m = ''GN'' \<and> flds \<noteq> [] \<and> to_float (last flds) = None;
                  trail = (if named then Some (last flds) else None);
                  nums = (if named then butlast flds else flds)
              in bindE (read_fields stripped nums) (\<lambda>vs.
                   Inr (Some \<lparr>mnemonic = m, vals = vs, raw = rstrip_nl line,
                              trailer = trail\<rparr>)))))"

definition tokenize_step :: "card list \<Rightarrow> string \<Rightarrow> pyexn + card list" where
  "tokenize_step cards line =
     bindE (parse_card line) (\<lambda>c. Inr (case c of None \<Rightarrow> cards | Some c' \<Rightarrow> cards @ [c']))"

definition tokenize :: "string \<Rightarrow> pyexn + card list" where
  "tokenize deck = foldE tokenize_step [] (splitlines deck)"

section \<open>Fields\<close>

lemma card_i_eq_Inr: "card_i c k = Inr i \<longleftrightarrow> (\<exists>r. card_f c k = Fin r \<and> i = round_even r)"
  by (auto simp: card_i_def split: flt.splits)

lemma card_i_fin: "is_fin (card_f c k) \<Longrightarrow> \<exists>i. card_i c k = Inr i"
  by (auto simp: card_i_def split: flt.splits)

lemma card_f_beyond: "length (vals c) \<le> k \<Longrightarrow> card_f c k = Fin 0"
  by (simp add: card_f_def)

lemma card_i_beyond: "length (vals c) \<le> k \<Longrightarrow> card_i c k = Inr 0"
  using round_even_of_int [of 0] by (simp add: card_i_def card_f_beyond)

lemma take_fields_fin:
  "list_all is_fin (take n (vals c)) \<longleftrightarrow> (\<forall>k < n. is_fin (card_f c k))"
  by (auto simp: list_all_length card_f_def)

text \<open>The check on a GW never raises, and passes exactly the cards with nine finite fields
  and a segment count within the limit.\<close>

lemma gw_field_refusal_total: "\<exists>why. gw_field_refusal c = Inr why"
proof (cases "index_of (\<lambda>v. \<not> is_fin v) (take 9 (vals c))")
  case None
  then have fin: "\<forall>k < 9. is_fin (card_f c k)"
    by (simp add: index_of_None flip: take_fields_fin list_all_iff)
  then obtain n tag where "card_i c 1 = Inr n" "card_i c 0 = Inr tag"
    using card_i_fin [of c 0] card_i_fin [of c 1] by auto
  with None show ?thesis
    by (simp add: gw_field_refusal_def)
qed (simp add: gw_field_refusal_def)

lemma gw_field_refusal_None:
  "gw_field_refusal c = Inr None \<longleftrightarrow>
     (\<forall>k < 9. is_fin (card_f c k)) \<and> (\<exists>n \<le> max_wire_segments. card_i c 1 = Inr n)"
proof (cases "index_of (\<lambda>v. \<not> is_fin v) (take 9 (vals c))")
  case None
  then have "\<forall>k < 9. is_fin (card_f c k)"
    by (simp add: index_of_None flip: take_fields_fin list_all_iff)
  then obtain n tag where "card_i c 1 = Inr n" "card_i c 0 = Inr tag"
    using card_i_fin [of c 0] card_i_fin [of c 1] by auto
  with None \<open>\<forall>k < 9. is_fin (card_f c k)\<close> show ?thesis
    by (auto simp: gw_field_refusal_def)
next
  case (Some k)
  then have "\<not> list_all is_fin (take 9 (vals c))"
    using index_of_None [of "\<lambda>v. \<not> is_fin v" "take 9 (vals c)"] by (auto simp: list_all_iff)
  with Some show ?thesis
    unfolding take_fields_fin by (simp add: gw_field_refusal_def)
qed

text \<open>A wire passes when its radius and coordinates are finite and within the limit.\<close>

definition coordinate_limit :: real where
  "coordinate_limit = 10 ^ 299"

definition near_point :: "point \<Rightarrow> bool" where
  "near_point p \<longleftrightarrow> (\<forall>c \<in> set (coords p). \<exists>r. c = Fin r \<and> \<bar>r\<bar> \<le> coordinate_limit)"

lemma near_coordinate:
  "is_fin c \<and> \<not> (is_fin c \<and> max_coordinate < fabs c) \<longleftrightarrow> (\<exists>r. c = Fin r \<and> \<bar>r\<bar> \<le> coordinate_limit)"
  by (cases c) (auto simp: max_coordinate_def coordinate_limit_def not_less)

lemma wire_geometry_refusal_None:
  "wire_geometry_refusal m tag ps r = None \<longleftrightarrow> is_fin r \<and> (\<forall>p \<in> set ps. near_point p)"
proof -
  have "wire_geometry_refusal m tag ps r = None \<longleftrightarrow>
      is_fin r \<and> (\<forall>c \<in> set (concat (map coords ps)).
        is_fin c \<and> \<not> (is_fin c \<and> max_coordinate < fabs c))"
    unfolding wire_geometry_refusal_def Let_def list_all_iff list_ex_iff by (auto split: if_splits)
  then show ?thesis
    unfolding near_coordinate near_point_def by simp
qed

section \<open>Card lines\<close>

lemma read_fields_length: "read_fields s ts = Inr vs \<Longrightarrow> length vs = length ts"
  by (induction ts arbitrary: vs) (auto simp: okE split: option.splits)

lemma read_fields_ok: "list_all2 (\<lambda>t v. to_float t = Some v) ts vs \<Longrightarrow> read_fields s ts = Inr vs"
  by (induction ts vs rule: list_all2_induct) auto

lemma parse_card_shape:
  assumes "parse_card line = Inr (Some c)"
  shows "length (mnemonic c) = 2 \<and> list_all is_upper (mnemonic c) \<and>
    raw c = rstrip_nl line \<and> (trailer c \<noteq> None \<longrightarrow> mnemonic c = ''GN'') \<and>
    (mnemonic c \<in> {''CM'', ''CE''} \<longrightarrow> vals c = [])"
proof -
  obtain head flds where tokens:
    "unfuse (split_ws (replace_char CHR '','' CHR '' '' (strip line))) = head # flds"
    using assms by (auto simp: parse_card_def Let_def split: list.splits if_splits)
  with assms have m: "length (upper head) = 2" "isalpha (upper head)"
    by (auto simp: parse_card_def Let_def split: if_splits)
  then have "list_all is_upper (upper head)"
    using isalpha_upper [of "head"] by simp
  with assms tokens m show ?thesis
    by (auto simp: parse_card_def Let_def okE split: if_splits)
qed

lemma parse_card_blank: "parse_card line = Inr None \<longleftrightarrow> strip line = []"
  by (auto simp: parse_card_def Let_def okE split: list.splits if_splits)

lemma tokenize_nonblank:
  "foldE tokenize_step cs lines = Inr cards \<Longrightarrow>
     \<exists>new. cards = cs @ new \<and>
       list_all2 (\<lambda>l c. parse_card l = Inr (Some c)) (filter (\<lambda>l. strip l \<noteq> []) lines) new"
proof (induction lines arbitrary: cs)
  case (Cons l ls)
  then obtain cs' where step: "tokenize_step cs l = Inr cs'"
    and more: "foldE tokenize_step cs' ls = Inr cards"
    by (auto simp: bindE_eq_Inr)
  from step obtain o' where o': "parse_card l = Inr o'"
    and cs': "cs' = (case o' of None \<Rightarrow> cs | Some c \<Rightarrow> cs @ [c])"
    by (auto simp: bindE_eq_Inr tokenize_step_def)
  note rest = more [unfolded cs']
  show ?case
  proof (cases o')
    case None
    with o' have "strip l = []" by (simp add: parse_card_blank)
    with Cons.IH [OF rest] None show ?thesis by simp
  next
    case (Some c)
    with o' have "strip l \<noteq> []" using parse_card_blank [of l] by auto
    moreover obtain new where "cards = (cs @ [c]) @ new"
      "list_all2 (\<lambda>l c. parse_card l = Inr (Some c)) (filter (\<lambda>l. strip l \<noteq> []) ls) new"
      using Cons.IH [OF rest] Some by auto
    ultimately show ?thesis
      using o' Some by (intro exI [of _ "c # new"]) simp
  qed
qed simp

end
