(* ===== verification/Geometry.thy ===== *)
theory Geometry
  imports Cards
begin

text \<open>
  \<open>src/src/momwire/deck/_nec2_geometry.py\<close>, first part: the geometry cards as functions
  on the list of straight wires, the symmetric cell a \<open>GX\<close> or \<open>GR\<close> declares, and the
  loop of \<open>build_geometry\<close> over the deck's geometry cards.  The code rewrites wire
  records in place; a builder here returns the list as the card leaves it.
\<close>

record flat_wire =
  fw_tag :: int
  fw_n_seg :: int
  fw_p1 :: point
  fw_p2 :: point
  fw_radius :: flt

record symmetry =
  sy_cell_wires :: nat
  sy_cell_segments :: int

type_synonym builder = "card \<Rightarrow> flat_wire list \<Rightarrow> pyexn + flat_wire list"

definition flat_length :: "flat_wire \<Rightarrow> flt" where
  "flat_length w = fdist (fw_p1 w) (fw_p2 w)"

definition deg :: flt where
  "deg = Fin (pi / 180)"

section \<open>GW, GA, GH: cards that add wires\<close>

definition gw :: builder where
  "gw c ws =
     bindE (card_i c 0) (\<lambda>tag. bindE (card_i c 1) (\<lambda>n_seg.
     bindE (guardE (n_seg < 1) (geometry_error (SegmentCount n_seg))) (\<lambda>_.
     bindE (guardE (card_f c 8 \<le> Fin 0) (geometry_error TaperedWire)) (\<lambda>_.
       Inr (ws @ [\<lparr>fw_tag = tag, fw_n_seg = n_seg,
                   fw_p1 = (card_f c 2, card_f c 3, card_f c 4),
                   fw_p2 = (card_f c 5, card_f c 6, card_f c 7),
                   fw_radius = card_f c 8\<rparr>])))))"

fun ga_sweep_limit :: "dialect \<Rightarrow> flt" where
  "ga_sweep_limit Nec2 = Fin (36000001 / 100000)"
| "ga_sweep_limit Nec4 = Fin 360"
| "ga_sweep_limit Nec5 = Fin (36000001 / 100000)"

definition arc_vertices :: "card \<Rightarrow> dialect \<Rightarrow> pyexn + point list" where
  "arc_vertices c dia =
     bindE (card_i c 1) (\<lambda>n_seg.
     let radius = card_f c 2; first = card_f c 3; last_ang = card_f c 4 in
     bindE (guardE (n_seg < 1) (geometry_error (GaSegmentCount n_seg))) (\<lambda>_.
     bindE (guardE (radius \<le> Fin 0) (geometry_error (GaRadius radius))) (\<lambda>_.
     bindE (guardE (feq first last_ang) (geometry_error (GaNoLength first last_ang))) (\<lambda>_.
     bindE (guardE (ga_sweep_limit dia \<le> fabs (last_ang - first))
                   (geometry_error (GaSweep first last_ang dia))) (\<lambda>_.
     bindE (guardE (card_f c 5 \<le> Fin 0)
                   (geometry_error (GaWireRadius (card_f c 5) dia))) (\<lambda>_.
       let step = (last_ang - first) * deg / fint n_seg; start = first * deg in
       Inr (map (\<lambda>k. (radius * fcos (start + fint k * step), Fin 0,
                       radius * fsin (start + fint k * step))) [0..n_seg])))))))"

definition chords :: "int \<Rightarrow> flt \<Rightarrow> point list \<Rightarrow> flat_wire list" where
  \<comment> \<open>one one-segment wire per pair of neighbouring vertices\<close>
  "chords tag radius vs =
     map (\<lambda>(a, b). \<lparr>fw_tag = tag, fw_n_seg = 1, fw_p1 = a, fw_p2 = b, fw_radius = radius\<rparr>)
       (zip vs (tl vs))"

definition ga :: builder where
  "ga c ws =
     bindE (arc_vertices c Nec2) (\<lambda>vs.
     bindE (card_i c 0) (\<lambda>tag. Inr (ws @ chords tag (card_f c 5) vs)))"

fun running_sum :: "nat \<Rightarrow> flt \<Rightarrow> flt \<Rightarrow> flt list" where
  "running_sum 0 z d = [z]"
| "running_sum (Suc n) z d = z # running_sum n (z + d) d"

definition helix_point :: "card \<Rightarrow> flt \<Rightarrow> pyexn + point" where
  \<comment> \<open>the body of \<open>nec2_helix_vertices\<close>'s loop: the vertex at height \<open>zk\<close>\<close>
  "helix_point c zk =
     (let s = card_f c 2; hl = card_f c 3; a1 = card_f c 4; b1 = card_f c 5;
          a2 = card_f c 6; b2 = card_f c 7; angle = Fin (2 * pi) * zk / s
      in if is_inf angle then Inl (DeckError (infinite_angle_refusal (mnemonic c)))
         else let
           b_end = (if feq b2 (Fin 0) then a2 else b2);
           xy = (if feq a2 a1
                 then (a1 * fcos angle, (if feq b1 (Fin 0) then a1 else b1) * fsin angle)
                 else ((a1 + (a2 - a1) * zk / fabs hl) * fcos angle,
                       (b1 + (b_end - b1) * zk / fabs hl) * fsin angle))
         in Inr (if Fin 0 < hl then (fst xy, snd xy, zk) else (snd xy, fst xy, zk)))"

definition nec2_helix_vertices :: "card \<Rightarrow> pyexn + point list" where
  "nec2_helix_vertices c =
     bindE (card_i c 1) (\<lambda>n_seg.
     let s = card_f c 2; hl = card_f c 3; a1 = card_f c 4; b1 = card_f c 5;
         a2 = card_f c 6; b2 = card_f c 7 in
     bindE (guardE (n_seg < 1) (geometry_error (GhSegmentCount n_seg))) (\<lambda>_.
     bindE (guardE (feq s (Fin 0)) (geometry_error GhSpacing)) (\<lambda>_.
     bindE (guardE (feq hl (Fin 0)) (geometry_error GhLength)) (\<lambda>_.
     bindE (guardE (fmin (fmin (fmin a1 b1) a2) b2 < Fin 0 \<or>
                    feq a1 (Fin 0) \<and> feq a2 (Fin 0))
                   (geometry_error (GhRadii a1 b1 a2 b2))) (\<lambda>_.
     bindE (guardE (card_f c 8 \<le> Fin 0) (geometry_error (GhWireRadius (card_f c 8)))) (\<lambda>_.
       mapE (helix_point c) (running_sum (nat n_seg) (Fin 0) (fabs hl / fint n_seg))))))))"

definition gh :: builder where
  "gh c ws =
     bindE (nec2_helix_vertices c) (\<lambda>vs.
     bindE (card_i c 0) (\<lambda>tag. Inr (ws @ chords tag (card_f c 8) vs)))"

section \<open>GM, GS: moving and scaling\<close>

definition first_wire_with_tag :: "flat_wire list \<Rightarrow> int \<Rightarrow> pyexn + nat" where
  "first_wire_with_tag ws tag =
     (if tag \<le> 0 then Inr 0
      else case index_of (\<lambda>w. fw_tag w = tag) ws of
        None \<Rightarrow> Inl (geometry_error (NoWireHasTag tag))
      | Some i \<Rightarrow> Inr i)"

definition rotate_point :: "flt \<Rightarrow> flt \<Rightarrow> flt \<Rightarrow> point \<Rightarrow> point \<Rightarrow> point" where
  \<comment> \<open>about X, then Y, then Z, then a translation: the closure \<open>xf\<close> of \<open>gm_transform\<close>\<close>
  "rotate_point rox roy roz shift p =
     (let sps = fsin rox; cps = fcos rox; sth = fsin roy; cth = fcos roy;
          sph = fsin roz; cph = fcos roz
      in case (p, shift) of ((x, y, z), (xs, ys, zs)) \<Rightarrow>
        (x * (cph * cth) + y * (cph * sth * sps - sph * cps)
           + z * (cph * sth * cps + sph * sps) + xs,
         x * (sph * cth) + y * (sph * sth * sps + cph * cps)
           + z * (sph * sth * cps - cph * sps) + ys,
         x * (- sth) + y * (cth * sps) + z * (cth * cps) + zs))"

definition gm_transform :: "card \<Rightarrow> pyexn + (point \<Rightarrow> point)" where
  "gm_transform c =
     (let rox = card_f c 2 * deg; roy = card_f c 3 * deg; roz = card_f c 4 * deg
      in if is_inf rox \<or> is_inf roy \<or> is_inf roz
         then Inl (DeckError (infinite_angle_refusal (mnemonic c)))
         else Inr (rotate_point rox roy roz (card_f c 5, card_f c 6, card_f c 7)))"

definition move_wire :: "(point \<Rightarrow> point) \<Rightarrow> flat_wire \<Rightarrow> flat_wire" where
  "move_wire xf w = w\<lparr>fw_p1 := xf (fw_p1 w), fw_p2 := xf (fw_p2 w)\<rparr>"

definition image_wire :: "(point \<Rightarrow> point) \<Rightarrow> int \<Rightarrow> flat_wire \<Rightarrow> flat_wire" where
  \<comment> \<open>a copy under \<open>xf\<close>, its tag raised; a wire tagged 0 keeps tag 0\<close>
  "image_wire xf itgi w =
     \<lparr>fw_tag = (if fw_tag w \<noteq> 0 then fw_tag w + itgi else 0), fw_n_seg = fw_n_seg w,
      fw_p1 = xf (fw_p1 w), fw_p2 = xf (fw_p2 w), fw_radius = fw_radius w\<rparr>"

fun copies :: "nat \<Rightarrow> (flat_wire \<Rightarrow> flat_wire) \<Rightarrow> flat_wire list \<Rightarrow> flat_wire list" where
  \<comment> \<open>each repetition transforms the previous copy\<close>
  "copies 0 f block = []"
| "copies (Suc n) f block = map f block @ copies n f (map f block)"

definition its_of :: "card \<Rightarrow> int" where
  \<comment> \<open>\<open>int(card.f(8) + 0.5)\<close>\<close>
  "its_of c = trunc_int (real_of (card_f c 8 + Fin (1 / 2)))"

definition gm :: builder where
  "gm c ws =
     bindE (card_i c 0) (\<lambda>itgi. bindE (card_i c 1) (\<lambda>nrpt.
     bindE (card_i c 8) (\<lambda>_. bindE (gm_transform c) (\<lambda>xf.
     bindE (first_wire_with_tag ws (its_of c)) (\<lambda>i1.
       Inr (if nrpt = 0 then take i1 ws @ map (move_wire xf) (drop i1 ws)
            else ws @ copies (nat nrpt) (image_wire xf itgi) (drop i1 ws)))))))"

definition scale_point :: "flt \<Rightarrow> point \<Rightarrow> point" where
  "scale_point k p = (case p of (x, y, z) \<Rightarrow> (x * k, y * k, z * k))"

definition gs :: builder where
  "gs c ws =
     bindE (card_i c 0) (\<lambda>lo. bindE (card_i c 1) (\<lambda>hi.
     let factor = card_f c 2; ranged = 0 < lo \<and> lo \<le> hi in
     bindE (guardE (factor \<le> Fin 0) (geometry_error (GsFactor factor))) (\<lambda>_.
       Inr (map (\<lambda>w. if ranged \<and> \<not> (lo \<le> fw_tag w \<and> fw_tag w \<le> hi) then w
                     else w\<lparr>fw_p1 := scale_point factor (fw_p1 w),
                            fw_p2 := scale_point factor (fw_p2 w),
                            fw_radius := fw_radius w * factor\<rparr>) ws))))"

section \<open>GX, GR: symmetric structures\<close>

definition planes :: "card \<Rightarrow> pyexn + (nat \<times> int \<times> string) list" where
  "planes c =
     bindE (card_i c 1) (\<lambda>code.
       Inr [(2, code mod 10, ''Z=0''), (1, (code div 10) mod 10, ''Y=0''),
            (0, (code div 100) mod 10, ''X=0'')])"

fun axis_get :: "nat \<Rightarrow> point \<Rightarrow> flt" where
  "axis_get k (x, y, z) = (if k = 0 then x else if k = 1 then y else z)"

fun axis_neg :: "nat \<Rightarrow> point \<Rightarrow> point" where
  "axis_neg k (x, y, z) =
     (if k = 0 then (- x, y, z) else if k = 1 then (x, - y, z) else (x, y, - z))"

definition on_plane :: "nat \<Rightarrow> flat_wire \<Rightarrow> bool" where
  \<comment> \<open>the wire lies in the plane or crosses it\<close>
  "on_plane axis w =
     (let e1 = axis_get axis (fw_p1 w); e2 = axis_get axis (fw_p2 w)
      in fabs e1 + fabs e2 \<le> Fin (1 / 10 ^ 5) \<or> e1 * e2 < Fin (- (1 / 10 ^ 6)))"

definition reflect :: "nat \<Rightarrow> int \<Rightarrow> string \<Rightarrow> flat_wire list \<Rightarrow> pyexn + flat_wire list" where
  "reflect axis iti plane ws =
     (if list_ex (on_plane axis) ws then Inl (geometry_error (SymmetryPlane plane))
      else Inr (ws @ map (image_wire (axis_neg axis) iti) ws))"

definition gx_step ::
  "flat_wire list \<times> int \<Rightarrow> nat \<times> int \<times> string \<Rightarrow> pyexn + flat_wire list \<times> int" where
  "gx_step st pl =
     (case (st, pl) of ((ws, iti), (axis, flag, plane)) \<Rightarrow>
        if flag \<noteq> 0 then bindE (reflect axis iti plane ws) (\<lambda>ws'. Inr (ws', iti * 2))
        else Inr (ws, iti))"

definition gx :: builder where
  "gx c ws =
     bindE (card_i c 0) (\<lambda>iti. bindE (planes c) (\<lambda>ps.
     bindE (foldE gx_step (ws, iti) ps) (\<lambda>st. Inr (fst st))))"

definition spin_point :: "flt \<Rightarrow> flt \<Rightarrow> point \<Rightarrow> point" where
  "spin_point cs ss p = (case p of (x, y, z) \<Rightarrow> (x * cs - y * ss, x * ss + y * cs, z))"

definition gr :: builder where
  "gr c ws =
     bindE (card_i c 0) (\<lambda>itg. bindE (card_i c 1) (\<lambda>nop.
     bindE (guardE (nop < 1) (geometry_error (StructureCount nop))) (\<lambda>_.
       let sam = Fin (2 * pi) / fint nop in
       Inr (ws @ copies (nat (nop - 1)) (image_wire (spin_point (fcos sam) (fsin sam)) itg) ws))))"

definition geometry_builders :: "string \<Rightarrow> builder option" where
  "geometry_builders m =
     (if m = ''GW'' then Some gw else if m = ''GA'' then Some ga else if m = ''GH'' then Some gh
      else if m = ''GM'' then Some gm else if m = ''GS'' then Some gs else if m = ''GX'' then Some gx
      else if m = ''GR'' then Some gr else None)"

section \<open>The symmetric cell and the loop over the geometry cards\<close>

definition symmetry_after ::
  "card \<Rightarrow> flat_wire list \<Rightarrow> nat \<times> int \<Rightarrow> symmetry option \<Rightarrow> pyexn + symmetry option" where
  "symmetry_after c ws before cell =
     (let m = mnemonic c;
          whole = \<lparr>sy_cell_wires = fst before, sy_cell_segments = snd before\<rparr> in
      if m = ''GX'' then
        bindE (planes c) (\<lambda>ps.
          Inr (if list_ex (\<lambda>(_, flag, _). flag \<noteq> 0) ps then Some whole else None))
      else if m = ''GR'' then Inr (Some whole)
      else if m = ''GS'' then Inr cell
      else if m \<in> {''GW'', ''GA'', ''GH'', ''CW''} then Inr None
      else bindE (card_i c 1) (\<lambda>nrpt.
        if nrpt \<noteq> 0 then Inr None
        else bindE (first_wire_with_tag ws (its_of c)) (\<lambda>i1.
          Inr (if i1 \<noteq> 0 then None else cell))))"

definition total_segments :: "flat_wire list \<Rightarrow> int" where
  "total_segments ws = sum_by fw_n_seg ws"

record geometry_state =
  ge_wires :: "flat_wire list"
  ge_flag :: bool
  ge_interpolates :: bool
  ge_symmetry :: "symmetry option"

definition wire_check :: "string \<Rightarrow> flat_wire \<Rightarrow> pyexn option" where
  "wire_check m w =
     map_option DeckError (wire_geometry_refusal m (fw_tag w) [fw_p1 w, fw_p2 w] (fw_radius w))"

definition geometry_step ::
  "(string \<Rightarrow> builder option) \<Rightarrow> geometry_state \<Rightarrow> card \<Rightarrow> pyexn + geometry_state" where
  "geometry_step builders st c =
     (if mnemonic c = ''GE'' then
        bindE (card_i c 0) (\<lambda>flag. Inr (st\<lparr>ge_flag := flag \<noteq> 0, ge_interpolates := 0 < flag\<rparr>))
      else case builders (mnemonic c) of
        None \<Rightarrow> Inl KeyError
      | Some build \<Rightarrow>
          bindE (build c (ge_wires st)) (\<lambda>ws.
          bindE (firstE (wire_check (mnemonic c)) ws) (\<lambda>_.
          bindE (symmetry_after c ws
                  (length (ge_wires st), total_segments (ge_wires st)) (ge_symmetry st)) (\<lambda>cell.
            Inr (st\<lparr>ge_wires := ws, ge_symmetry := cell\<rparr>)))))"

definition build_wires :: "(string \<Rightarrow> builder option) \<Rightarrow> card list \<Rightarrow> pyexn + geometry_state" where
  "build_wires builders cards =
     foldE (geometry_step builders)
       \<lparr>ge_wires = [], ge_flag = False, ge_interpolates = False, ge_symmetry = None\<rparr> cards"

end
