(* ===== verification/Geometry_Laws.thy ===== *)
theory Geometry_Laws
  imports Geometry
begin

text \<open>
  What every geometry card keeps of the structure, stated as the interface
  \<open>geometry_reader\<close> a dialect's table of builders must meet, the invariants of
  \<open>build_geometry\<close>'s loop proved from it once, and the proof that the nec2 dialect's
  builders meet it.
\<close>

section \<open>Repeated lists\<close>

definition times_list :: "nat \<Rightarrow> 'a list \<Rightarrow> 'a list" where
  "times_list k xs = concat (replicate k xs)"

lemma times_list_0 [simp]: "times_list 0 xs = []"
  by (simp add: times_list_def)

lemma times_list_Suc [simp]: "times_list (Suc k) xs = xs @ times_list k xs"
  by (simp add: times_list_def)

lemma times_list_add: "times_list (m + n) xs = times_list m xs @ times_list n xs"
  by (induction m) auto

lemma times_list_mult: "times_list m (times_list n xs) = times_list (m * n) xs"
  by (induction m) (auto simp: times_list_add)

lemma length_times_list [simp]: "length (times_list k xs) = k * length xs"
  by (induction k) auto

lemma times_list_nth: "i < length xs \<Longrightarrow> k < m \<Longrightarrow> times_list m xs ! (i + k * length xs) = xs ! i"
proof (induction k arbitrary: m)
  case 0
  then show ?case by (cases m) (auto simp: nth_append)
next
  case (Suc k)
  then obtain m' where "m = Suc m'" "k < m'" by (cases m) auto
  with Suc.IH [of m'] Suc.prems show ?case
    by (simp add: nth_append)
qed

lemma set_times_list: "set (times_list k xs) \<subseteq> set xs"
  by (induction k) auto

section \<open>Segment counts under the builders\<close>

abbreviation segs :: "flat_wire list \<Rightarrow> int list" where
  "segs ws \<equiv> map fw_n_seg ws"

lemma n_seg_image_wire [simp]: "fw_n_seg (image_wire xf t w) = fw_n_seg w"
  by (simp add: image_wire_def)

lemma n_seg_move_wire [simp]: "fw_n_seg (move_wire xf w) = fw_n_seg w"
  by (simp add: move_wire_def)

lemma segs_copies [simp]:
  "segs (copies n (image_wire xf t) b) = times_list n (segs b)"
proof (induction n arbitrary: b)
  case (Suc n)
  have same: "segs (map (image_wire xf t) b) = segs b" by simp
  show ?case
    using Suc.IH [of "map (image_wire xf t) b"] unfolding same by simp
qed simp

lemma copies_length: "length (copies n f b) = n * length b"
  by (induction n arbitrary: b) auto

lemma gx_step_segs:
  assumes "gx_step (ws, iti) pl = Inr (ws', iti')"
  shows "segs ws' = (if fst (snd pl) \<noteq> 0 then times_list 2 (segs ws) else segs ws)"
  using assms
  by (auto simp: gx_step_def reflect_def numeral_2_eq_2 okE split: if_splits prod.splits)

definition n_fired :: "(nat \<times> int \<times> string) list \<Rightarrow> nat" where
  "n_fired ps = length (filter (\<lambda>pl. fst (snd pl) \<noteq> 0) ps)"

lemma gx_fold_segs:
  "foldE gx_step (ws, iti) ps = Inr (ws', iti') \<Longrightarrow>
     segs ws' = times_list (2 ^ n_fired ps) (segs ws)"
proof (induction ps arbitrary: ws iti)
  case Nil
  then show ?case by (simp add: n_fired_def)
next
  case (Cons pl ps)
  then obtain ws1 iti1 where step: "gx_step (ws, iti) pl = Inr (ws1, iti1)"
    and rest: "foldE gx_step (ws1, iti1) ps = Inr (ws', iti')"
    by (auto simp: bindE_eq_Inr)
  show ?case
    unfolding Cons.IH [OF rest] gx_step_segs [OF step]
    by (simp add: n_fired_def times_list_mult mult.commute)
qed

lemma gx_segs:
  assumes "gx c ws = Inr ws'" "planes c = Inr ps"
  shows "segs ws' = times_list (2 ^ n_fired ps) (segs ws)"
proof -
  from assms obtain iti iti' where "foldE gx_step (ws, iti) ps = Inr (ws', iti')"
    by (auto simp: gx_def okE)
  then show ?thesis by (rule gx_fold_segs)
qed

lemma gr_segs:
  assumes "gr c ws = Inr ws'"
  shows "\<exists>nop \<ge> 1. card_i c 1 = Inr nop \<and> segs ws' = times_list (nat nop) (segs ws)"
proof -
  from assms obtain itg nop xf where nop: "card_i c 1 = Inr nop" "1 \<le> nop"
    and ws': "ws' = ws @ copies (nat (nop - 1)) (image_wire xf itg) ws"
    by (auto simp: gr_def okE Let_def not_less)
  then have "nat nop = Suc (nat (nop - 1))" by simp
  with nop ws' show ?thesis by auto
qed

lemma gm_segs:
  assumes "gm c ws = Inr ws'"
  obtains nrpt i1 where "card_i c 1 = Inr nrpt" "first_wire_with_tag ws (its_of c) = Inr i1"
    "segs ws' = segs ws @ times_list (nat nrpt) (segs (drop i1 ws))"
proof -
  from assms obtain itgi nrpt xf i1 where g: "card_i c 1 = Inr nrpt"
      "first_wire_with_tag ws (its_of c) = Inr i1"
    and ws': "ws' = (if nrpt = 0 then take i1 ws @ map (move_wire xf) (drop i1 ws)
            else ws @ copies (nat nrpt) (image_wire xf itgi) (drop i1 ws))"
    by (auto simp: gm_def okE)
  have "segs (take i1 ws @ map (move_wire xf) (drop i1 ws)) = segs (take i1 ws) @ segs (drop i1 ws)"
    by simp
  also have "\<dots> = segs ws"
    by (simp flip: map_append)
  finally show thesis
    using g ws' that by auto
qed

lemma gs_segs: "gs c ws = Inr ws' \<Longrightarrow> segs ws' = segs ws"
  by (auto simp: gs_def okE Let_def)

lemma segs_chords: "segs (chords tag r vs) = replicate (length vs - 1) 1"
  by (simp add: chords_def case_prod_beta comp_def map_replicate_const)

section \<open>The interface of a dialect's geometry builders\<close>

definition segments_ok :: "flat_wire list \<Rightarrow> bool" where
  "segments_ok ws \<longleftrightarrow> (\<forall>w \<in> set ws. 1 \<le> fw_n_seg w)"

definition cell_ok :: "flat_wire list \<Rightarrow> symmetry option \<Rightarrow> bool" where
  \<comment> \<open>the structure is a whole number of copies of its cell, segment count by segment
     count, and the cell is its first \<open>cell_wires\<close> wires\<close>
  "cell_ok ws s \<longleftrightarrow>
     (case s of None \<Rightarrow> True
      | Some y \<Rightarrow> sy_cell_wires y \<le> length ws \<and>
          sy_cell_segments y = total_segments (take (sy_cell_wires y) ws) \<and>
          (\<exists>k \<ge> 1. segs ws = times_list k (segs (take (sy_cell_wires y) ws))))"

lemma segments_ok_segs: "segments_ok ws \<longleftrightarrow> (\<forall>n \<in> set (segs ws). 1 \<le> n)"
  by (simp add: segments_ok_def)

lemma total_segments_segs: "total_segments ws = sum_list (segs ws)"
  by (simp add: total_segments_def sum_by_def)

lemma cell_ok_same_segs:
  assumes "segs ws' = segs ws" "cell_ok ws s"
  shows "cell_ok ws' s"
proof -
  have "length ws' = length ws"
    using assms(1) by (metis length_map)
  moreover have "\<And>n. segs (take n ws') = segs (take n ws)"
    using assms(1) by (simp flip: take_map)
  ultimately show ?thesis
    using assms by (simp add: cell_ok_def total_segments_segs split: option.splits)
qed

lemma cell_ok_whole:
  assumes "segs ws' = times_list k (segs ws)" "1 \<le> k"
  shows "cell_ok ws' (Some \<lparr>sy_cell_wires = length ws, sy_cell_segments = total_segments ws\<rparr>)"
proof -
  have "length ws' = k * length ws"
    using assms(1) by (metis length_map length_times_list)
  then have len: "length ws \<le> length ws'"
    using assms(2) by simp
  obtain k' where k: "k = Suc k'"
    using assms(2) by (cases k) auto
  have "segs (take (length ws) ws') = take (length ws) (segs ws')"
    by (simp add: take_map)
  also have "\<dots> = segs ws"
    using assms(1) k by simp
  finally have "segs (take (length ws) ws') = segs ws" .
  with assms len show ?thesis
    by (auto simp: cell_ok_def total_segments_segs)
qed

locale geometry_reader =
  fixes builders :: "string \<Rightarrow> builder option"
  assumes build_segments_ok:
      "\<lbrakk>builders (mnemonic c) = Some b; b c ws = Inr ws'; segments_ok ws\<rbrakk> \<Longrightarrow> segments_ok ws'"
    and build_cell_ok:
      "\<lbrakk>builders (mnemonic c) = Some b; b c ws = Inr ws'; cell_ok ws s;
        symmetry_after c ws' (length ws, total_segments ws) s = Inr s'\<rbrakk> \<Longrightarrow> cell_ok ws' s'"
begin

definition geometry_inv :: "geometry_state \<Rightarrow> bool" where
  "geometry_inv st \<longleftrightarrow>
     segments_ok (ge_wires st) \<and> cell_ok (ge_wires st) (ge_symmetry st) \<and>
     (\<forall>w \<in> set (ge_wires st). is_fin (fw_radius w) \<and> near_point (fw_p1 w) \<and> near_point (fw_p2 w))"

lemma geometry_step_inv:
  assumes "geometry_step builders st c = Inr st'" "geometry_inv st"
  shows "geometry_inv st'"
proof (cases "mnemonic c = ''GE''")
  case True
  with assms show ?thesis
    by (auto simp: geometry_step_def geometry_inv_def okE)
next
  case False
  with assms(1) obtain b ws s where b: "builders (mnemonic c) = Some b"
      "b c (ge_wires st) = Inr ws"
    and checked: "firstE (wire_check (mnemonic c)) ws = Inr ()"
    and s: "symmetry_after c ws (length (ge_wires st), total_segments (ge_wires st))
              (ge_symmetry st) = Inr s"
    and st': "st' = st\<lparr>ge_wires := ws, ge_symmetry := s\<rparr>"
    by (auto simp: geometry_step_def okE split: option.splits)
  have "\<forall>w \<in> set ws. is_fin (fw_radius w) \<and> near_point (fw_p1 w) \<and> near_point (fw_p2 w)"
    using checked by (simp add: firstE_eq_Inr wire_check_def wire_geometry_refusal_None)
  moreover have "segments_ok ws"
    using build_segments_ok [OF b] assms(2) by (simp add: geometry_inv_def)
  moreover have "cell_ok ws s"
    using build_cell_ok [OF b _ s] assms(2) by (simp add: geometry_inv_def)
  ultimately show ?thesis
    using st' by (simp add: geometry_inv_def)
qed

lemma build_wires_inv:
  assumes "build_wires builders cards = Inr st"
  shows "geometry_inv st"
  using assms [unfolded build_wires_def]
proof (rule foldE_invariant [where P = geometry_inv])
  show "geometry_inv \<lparr>ge_wires = [], ge_flag = False, ge_interpolates = False, ge_symmetry = None\<rparr>"
    by (simp add: geometry_inv_def segments_ok_def cell_ok_def)
qed (rule geometry_step_inv)

end

section \<open>The nec2 dialect's builders meet the interface\<close>

lemma segments_ok_append_chords:
  "segments_ok ws \<Longrightarrow> segments_ok (ws @ chords tag r vs)"
  unfolding segments_ok_segs map_append segs_chords by auto

lemma nec2_segments_ok:
  assumes "geometry_builders m = Some b" "b c ws = Inr ws'" "segments_ok ws"
  shows "segments_ok ws'"
proof -
  have repeated: "segments_ok ws'" if "set (segs ws') \<subseteq> set (segs ws)"
    using that assms(3) by (auto simp: segments_ok_segs)
  from assms(1) consider "b = gw" | "b = ga" | "b = gh" | "b = gm" | "b = gs" | "b = gx" | "b = gr"
    by (auto simp: geometry_builders_def split: if_splits)
  then show ?thesis
  proof cases
    case 1
    then show ?thesis
      using assms by (auto simp: gw_def okE segments_ok_def)
  next
    case 2
    then show ?thesis
      using assms by (auto simp: ga_def okE intro: segments_ok_append_chords)
  next
    case 3
    then show ?thesis
      using assms by (auto simp: gh_def okE intro: segments_ok_append_chords)
  next
    case 4
    then obtain nrpt i1 where
      "segs ws' = segs ws @ times_list (nat nrpt) (segs (drop i1 ws))"
      using assms(2) gm_segs by blast
    moreover have "set (times_list (nat nrpt) (segs (drop i1 ws))) \<subseteq> set (segs ws)"
      using set_times_list [of "nat nrpt" "segs (drop i1 ws)"] by (auto dest: in_set_dropD)
    ultimately show ?thesis
      by (intro repeated) auto
  next
    case 5
    then show ?thesis
      using assms(2) gs_segs by (intro repeated) simp
  next
    case 6
    then obtain ps where "planes c = Inr ps"
      using assms(2) by (auto simp: gx_def okE)
    with 6 assms(2) have "segs ws' = times_list (2 ^ n_fired ps) (segs ws)"
      by (auto intro: gx_segs)
    then show ?thesis
      by (intro repeated) (simp only: set_times_list)
  next
    case 7
    then obtain nop where "segs ws' = times_list (nat nop) (segs ws)"
      using assms(2) gr_segs by blast
    then show ?thesis
      by (intro repeated) (simp only: set_times_list)
  qed
qed

lemma symmetry_after_GM:
  assumes "mnemonic c = ''GM''" "symmetry_after c ws' before s = Inr s'" "s' \<noteq> None"
  shows "s' = s \<and> card_i c 1 = Inr 0"
  using assms by (auto simp: symmetry_after_def Let_def okE split: if_splits)

lemma nec2_cell_ok:
  assumes "geometry_builders (mnemonic c) = Some b" "b c ws = Inr ws'" "cell_ok ws s"
    and "symmetry_after c ws' (length ws, total_segments ws) s = Inr s'"
  shows "cell_ok ws' s'"
proof (cases s')
  case None
  then show ?thesis by (simp add: cell_ok_def)
next
  case (Some y)
  from assms(1) consider (wire) "mnemonic c \<in> {''GW'', ''GA'', ''GH''}"
    | (gm) "mnemonic c = ''GM''" "b = gm" | (gs) "mnemonic c = ''GS''" "b = gs"
    | (gx) "mnemonic c = ''GX''" "b = gx" | (gr) "mnemonic c = ''GR''" "b = gr"
    by (auto simp: geometry_builders_def split: if_splits)
  then show ?thesis
  proof cases
    case wire
    then have "symmetry_after c ws' (length ws, total_segments ws) s = Inr None"
      by (auto simp: symmetry_after_def)
    with assms(4) Some show ?thesis by simp
  next
    case gm
    obtain nrpt i1 where nrpt: "card_i c 1 = Inr nrpt"
      and segs: "segs ws' = segs ws @ times_list (nat nrpt) (segs (drop i1 ws))"
      using assms(2) gm(2) gm_segs by blast
    have "s' = s" "nrpt = 0"
      using symmetry_after_GM [OF gm(1) assms(4)] Some nrpt by auto
    with segs assms(3) show ?thesis
      by (auto intro: cell_ok_same_segs)
  next
    case gs
    then have "s' = s"
      using assms(4) by (simp add: symmetry_after_def)
    then show ?thesis
      using cell_ok_same_segs [OF gs_segs assms(3)] gs(2) assms(2) by simp
  next
    case gx
    then obtain ps where ps: "planes c = Inr ps"
      using assms(2) by (auto simp: gx_def okE)
    with gx(1) assms(4) Some have
      "s' = Some \<lparr>sy_cell_wires = length ws, sy_cell_segments = total_segments ws\<rparr>"
      by (auto simp: symmetry_after_def Let_def split: if_splits)
    with gx(2) assms(2) ps show ?thesis
      by (auto intro: cell_ok_whole dest: gx_segs)
  next
    case gr
    then have "s' = Some \<lparr>sy_cell_wires = length ws, sy_cell_segments = total_segments ws\<rparr>"
      using assms(4) by (simp add: symmetry_after_def)
    moreover obtain nop where "1 \<le> nop" "segs ws' = times_list (nat nop) (segs ws)"
      using gr_segs assms(2) gr(2) by blast
    ultimately show ?thesis
      by (auto intro: cell_ok_whole)
  qed
qed

interpretation nec2_reader: geometry_reader geometry_builders
  by unfold_locales (rule nec2_segments_ok, assumption+, rule nec2_cell_ok)

end
