(* ===== verification/Deck_Model.thy ===== *)
theory Deck_Model
  imports Cards
begin

text \<open>
  \<open>src/src/momwire/deck/model.py\<close>: the dialect-neutral deck model every reader fills,
  with the checks its records make when they are built, and the lumped and per-metre RLC
  records of \<open>src/src/momwire/_wire_loading.py\<close> it carries.
\<close>

type_synonym cplx = "flt \<times> flt"
  \<comment> \<open>a Python \<open>complex\<close>: its real and imaginary parts\<close>

section \<open>Materials and loads\<close>

record distributed_rlc =
  drlc_kind :: string
  drlc_r :: flt
  drlc_l :: flt
  drlc_c :: flt

definition mk_distributed_rlc :: "string \<Rightarrow> flt \<Rightarrow> flt \<Rightarrow> flt \<Rightarrow> pyexn + distributed_rlc" where
  "mk_distributed_rlc kind r l c =
     (if kind \<notin> {''series'', ''parallel''} then Inl ValueError
      else if r < Fin 0 \<or> l < Fin 0 \<or> c < Fin 0 then Inl ValueError
      else if kind = ''parallel'' \<and> feq r (Fin 0) \<and> feq l (Fin 0) \<and> feq c (Fin 0)
      then Inl ValueError
      else Inr \<lparr>drlc_kind = kind, drlc_r = r, drlc_l = l, drlc_c = c\<rparr>)"

record wire_material =
  wm_conductivity :: "flt option"
  wm_insulation_radius :: "flt option"
  wm_insulation_eps_r :: "flt option"
  wm_distributed_rlc :: "distributed_rlc option"
  wm_loss_tangent :: "flt option"

definition mk_wire_material :: "wire_material \<Rightarrow> pyexn + wire_material" where
  "mk_wire_material m =
     (if wm_loss_tangent m \<noteq> None \<and> wm_insulation_radius m = None then Inl ValueError
      else Inr m)"

record load_spec =
  ls_kind :: string
  ls_r :: flt
  ls_l :: flt
  ls_c :: flt
  ls_x :: flt

definition load_spec_eq :: "load_spec \<Rightarrow> load_spec \<Rightarrow> bool" where
  \<comment> \<open>the record's \<open>==\<close>: field by field, exact\<close>
  "load_spec_eq s t \<longleftrightarrow>
     ls_kind s = ls_kind t \<and> feq (ls_r s) (ls_r t) \<and> feq (ls_l s) (ls_l t) \<and>
     feq (ls_c s) (ls_c t) \<and> feq (ls_x s) (ls_x t)"

text \<open>
  The impedance of an R/L/C triple of finite elements.  \<open>ZInf\<close> is the open circuit, which
  the code spells \<open>complex('inf')\<close> or reaches as \<open>1 / 0\<close> with numpy's warning off.
\<close>

datatype zval = ZFin complex | ZInf

definition rlc_impedance :: "string \<Rightarrow> real \<Rightarrow> real \<Rightarrow> real \<Rightarrow> real \<Rightarrow> pyexn + zval" where
  "rlc_impedance kind r l c \<omega> =
     (if kind = ''series''
      then Inr (ZFin (complex_of_real r
             + (if l \<noteq> 0 then \<i> * complex_of_real (\<omega> * l) else 0)
             + (if c \<noteq> 0 then 1 / (\<i> * complex_of_real (\<omega> * c)) else 0)))
      else if kind = ''parallel''
      then (let y = (if r \<noteq> 0 then complex_of_real (1 / r) else 0)
                  + (if l \<noteq> 0 then 1 / (\<i> * complex_of_real (\<omega> * l)) else 0)
                  + (if c \<noteq> 0 then \<i> * complex_of_real (\<omega> * c) else 0)
            in Inr (if y = 0 then ZInf else ZFin (1 / y)))
      else Inl ValueError)"

definition load_impedance :: "load_spec \<Rightarrow> real \<Rightarrow> pyexn + zval" where
  \<comment> \<open>\<open>LoadSpec.impedance\<close>, of finite elements\<close>
  "load_impedance s freq_hz =
     (let \<omega> = 2 * pi * freq_hz;
          r = real_of (ls_r s); l = real_of (ls_l s); c = real_of (ls_c s)
      in if ls_kind s = ''fixed'' then Inr (ZFin (Complex r (real_of (ls_x s))))
         else if ls_kind s = ''series'' \<or> ls_kind s = ''parallel''
         then if r = 0 \<and> l = 0 \<and> c = 0
              then Inr (if ls_kind s = ''parallel'' then ZInf else ZFin 0)
              else rlc_impedance (ls_kind s) r l c \<omega>
         else Inl ValueError)"

section \<open>Wires\<close>

record deck_wire =
  dw_vertices :: "point list"
  dw_radius :: flt
  dw_edge_elements :: "int list"
  dw_material :: "wire_material option"

definition mk_deck_wire :: "deck_wire \<Rightarrow> pyexn + deck_wire" where
  "mk_deck_wire w =
     (if length (dw_vertices w) < 2 then Inl ValueError
      else if length (dw_edge_elements w) \<noteq> length (dw_vertices w) - 1 then Inl ValueError
      else if dw_radius w \<le> Fin 0 then Inl ValueError
      else Inr w)"

definition edge_lengths :: "deck_wire \<Rightarrow> flt list" where
  "edge_lengths w = map2 fdist (butlast (dw_vertices w)) (tl (dw_vertices w))"

definition wire_length :: "deck_wire \<Rightarrow> flt" where
  "wire_length w = foldl (+) (Fin 0) (edge_lengths w)"

definition n_elements :: "deck_wire \<Rightarrow> int" where
  "n_elements w = sum_list (dw_edge_elements w)"

definition lerp :: "point \<Rightarrow> point \<Rightarrow> flt \<Rightarrow> point" where
  \<comment> \<open>\<open>tuple(a + (b - a) * t for a, b in zip(p, q))\<close>\<close>
  "lerp p q t =
     (case (p, q) of ((px, py, pz), (qx, qy, qz)) \<Rightarrow>
        (px + (qx - px) * t, py + (qy - py) * t, pz + (qz - pz) * t))"

fun point_at_from :: "(point \<times> point \<times> flt) list \<Rightarrow> flt \<Rightarrow> pyexn + point" where
  "point_at_from [] remaining = Inl AssertionError"
| "point_at_from ((a, b, len) # rest) remaining =
     (if remaining \<le> len \<or> rest = []
      then Inr (lerp a b (if feq len (Fin 0) then Fin 0
                          else fmax (Fin 0) (fmin (Fin 1) (remaining / len))))
      else point_at_from rest (remaining - len))"

definition point_at :: "deck_wire \<Rightarrow> flt \<Rightarrow> pyexn + point" where
  "point_at w arclength =
     point_at_from
       (zip (butlast (dw_vertices w)) (zip (tl (dw_vertices w)) (edge_lengths w))) arclength"

section \<open>The environment and the requests\<close>

record second_medium =
  sm_eps_r :: flt
  sm_sigma :: flt
  sm_edge_distance :: flt
  sm_height :: flt

datatype ground = NoGround | Pec | FiniteGround string flt flt

record environment =
  env_ground :: ground
  env_ground_z :: flt
  env_second_medium :: "second_medium option"

record far_field_request =
  ff_mode :: int
  ff_n_theta :: int
  ff_n_phi :: int
  ff_theta0 :: flt
  ff_phi0 :: flt
  ff_d_theta :: flt
  ff_d_phi :: flt
  ff_range :: flt

record near_field_request =
  nf_magnetic :: bool
  nf_counts :: "int \<times> int \<times> int"
  nf_origin :: point
  nf_step :: point
  nf_coordinates :: int

datatype request = FarField far_field_request | NearField near_field_request

record print_control =
  pc_suppressed :: bool
  pc_elements :: "(nat \<times> int) list option"

record execute_group =
  eg_frequencies :: "flt list"
  eg_voltages :: "cplx list"
  eg_request :: "request option"
  eg_print_control :: "print_control option"
  eg_extended_kernel :: bool
  eg_multiprocessing :: "(int \<times> int) option"
  eg_refilled :: bool
  eg_refilled_partial :: bool
  eg_environment :: environment
  eg_loads :: "nat list option"

record network_card =
  nc_kind :: string
  nc_end_a :: "nat \<times> flt"
  nc_end_b :: "nat \<times> flt"
  nc_address_a :: "int \<times> int"
  nc_address_b :: "int \<times> int"
  nc_payload :: "flt list"
  nc_first_group :: nat

record deck_model =
  dm_wires :: "deck_wire list"
  dm_feeds :: "(nat \<times> flt \<times> cplx) list"
  dm_node_gaps :: "(nat \<times> nat \<times> cplx) list"
  dm_loads :: "(nat \<times> flt \<times> load_spec) list"
  dm_ground :: ground
  dm_ground_z :: flt
  dm_second_medium :: "second_medium option"
  dm_ground_plane_flag :: bool
  dm_ground_plane_interpolates :: bool
  dm_groups :: "execute_group option list"
  dm_comments :: "string list"
  dm_quiet :: bool
  dm_reduced_field :: "int option"
  dm_deferred :: "string list"
  dm_networks :: "network_card list"
  dm_current_feeds :: "nat list"
  dm_extended_kernel_default :: bool
  dm_junction_rule :: string

definition model_environment :: "deck_model \<Rightarrow> environment" where
  "model_environment m =
     \<lparr>env_ground = dm_ground m, env_ground_z = dm_ground_z m,
      env_second_medium = dm_second_medium m\<rparr>"

definition model_frequencies :: "deck_model \<Rightarrow> flt list list" where
  "model_frequencies m =
     map (\<lambda>g. case g of None \<Rightarrow> [] | Some g' \<Rightarrow> eg_frequencies g') (dm_groups m)"

definition model_requests :: "deck_model \<Rightarrow> request option list" where
  "model_requests m = map (\<lambda>g. Option.bind g eg_request) (dm_groups m)"

section \<open>Lemmas\<close>

lemma load_spec_eq_imp: "load_spec_eq s t \<Longrightarrow> s = t"
  by (cases s; cases t) (auto simp: load_spec_eq_def dest: feq_imp_eq)

lemma mk_wire_material_ok: "mk_wire_material m = Inr m' \<Longrightarrow> m' = m"
  by (auto simp: mk_wire_material_def split: if_splits)

lemma mk_deck_wire_ok: "mk_deck_wire w = Inr w' \<Longrightarrow> w' = w"
  by (auto simp: mk_deck_wire_def split: if_splits)

text \<open>A wire of two vertices and positive radius is always accepted.\<close>

lemma mk_deck_wire_straight:
  "dw_vertices w = [p, q] \<Longrightarrow> dw_edge_elements w = [n] \<Longrightarrow> \<not> dw_radius w \<le> Fin 0 \<Longrightarrow>
    mk_deck_wire w = Inr w"
  by (simp add: mk_deck_wire_def)

lemma edge_lengths_length: "length (edge_lengths w) = length (dw_vertices w) - 1"
  by (simp add: edge_lengths_def)

text \<open>An RLC triple of non-negative elements is passive.\<close>

lemma Re_inverse_nonneg: "0 \<le> Re y \<Longrightarrow> 0 \<le> Re (1 / y)"
  by (simp add: Re_divide power2_eq_square)

lemma rlc_passive:
  assumes "0 \<le> r" and "rlc_impedance kind r l c \<omega> = Inr (ZFin z)"
  shows "0 \<le> Re z"
proof (cases "kind = ''series''")
  case True
  then show ?thesis
    using assms by (auto simp: rlc_impedance_def Re_divide)
next
  case False
  then have par: "kind = ''parallel''"
    using assms(2) by (auto simp: rlc_impedance_def split: if_splits)
  define y where "y = (if r \<noteq> 0 then complex_of_real (1 / r) else 0)
      + (if l \<noteq> 0 then 1 / (\<i> * complex_of_real (\<omega> * l)) else 0)
      + (if c \<noteq> 0 then \<i> * complex_of_real (\<omega> * c) else 0)"
  have "0 \<le> Re y"
    using assms(1) by (simp add: y_def Re_divide)
  moreover have "z = 1 / y"
    using assms(2) par by (auto simp: rlc_impedance_def Let_def y_def split: if_splits)
  ultimately show ?thesis
    by (simp add: Re_inverse_nonneg)
qed

text \<open>A point along a wire always exists: a wire has an edge.\<close>

lemma point_at_from_total: "es \<noteq> [] \<Longrightarrow> \<exists>p. point_at_from es s = Inr p"
  by (induction es s rule: point_at_from.induct) (auto simp del: split_paired_Ex)

lemma point_at_total:
  assumes "mk_deck_wire w = Inr w"
  shows "\<exists>p. point_at w s = Inr p"
proof -
  obtain p q ps where "dw_vertices w = p # q # ps"
    using assms by (cases "dw_vertices w"; cases "tl (dw_vertices w)")
      (auto simp: mk_deck_wire_def split: if_splits)
  then show ?thesis
    unfolding point_at_def by (intro point_at_from_total) (simp add: edge_lengths_def)
qed

end
