(* ===== verification/Connections.thy ===== *)
theory Connections
  imports Geometry_Laws Deck_Model
begin

text \<open>
  \<open>src/src/momwire/deck/_nec2_geometry.py\<close>, second part: the two connection passes
  (\<open>snap_connections\<close>, \<open>junction_cuts\<close>) and the splitting of each wire at its cuts
  (\<open>shatter\<close>).  Dictionaries keyed by grid cell or node are functions from the key to the
  list, or set, the code keeps there.
\<close>

definition smin :: flt where
  "smin = Fin (1 / 1000)"

definition node_eps :: flt where
  "node_eps = Fin (1 / 10 ^ 9)"

definition boundary :: "flat_wire \<Rightarrow> int \<Rightarrow> point" where
  \<comment> \<open>the point after \<open>k\<close> of the wire's segments\<close>
  "boundary w k = lerp (fw_p1 w) (fw_p2 w) (fint k / fint (fw_n_seg w))"

section \<open>snap\_connections\<close>

definition l1 :: "point \<Rightarrow> point \<Rightarrow> flt" where
  "l1 a b =
     (case (a, b) of ((ax, ay, az), (bx, by', bz)) \<Rightarrow>
        fabs (ax - bx) + fabs (ay - by') + fabs (az - bz))"

definition segment_length :: "flat_wire \<Rightarrow> flt" where
  "segment_length w = flat_length w / fint (fw_n_seg w)"

definition end_points :: "flat_wire list \<Rightarrow> point list" where
  \<comment> \<open>\<open>pts\<close>: two per wire, at \<open>2 * wire + end\<close>\<close>
  "end_points ws = concat (map (\<lambda>w. [fw_p1 w, fw_p2 w]) ws)"

definition end_seg_lens :: "flat_wire list \<Rightarrow> flt list" where
  "end_seg_lens ws = concat (map (\<lambda>w. [segment_length w, segment_length w]) ws)"

fun ffloor :: "flt \<Rightarrow> pyexn + int" where
  \<comment> \<open>\<open>math.floor\<close>, which raises on an infinity or a NaN\<close>
  "ffloor (Fin r) = Inr \<lfloor>r\<rfloor>"
| "ffloor NaN = Inl ValueError"
| "ffloor _ = Inl OverflowError"

type_synonym cell = "int \<times> int \<times> int"

definition cell_of :: "flt \<Rightarrow> point \<Rightarrow> pyexn + cell" where
  "cell_of tol p =
     (case p of (x, y, z) \<Rightarrow>
        bindE (ffloor (x / tol)) (\<lambda>cx. bindE (ffloor (y / tol)) (\<lambda>cy.
        bindE (ffloor (z / tol)) (\<lambda>cz. Inr (cx, cy, cz)))))"

definition grid_of :: "cell list \<Rightarrow> cell \<Rightarrow> nat list" where
  \<comment> \<open>\<open>grid.setdefault(cell(p), []).append(k)\<close> over \<open>enumerate\<close>\<close>
  "grid_of cells =
     foldl (\<lambda>g (k, c). g(c := g c @ [k])) (\<lambda>_. []) (zip [0..<length cells] cells)"

definition neighborhood :: "(cell \<Rightarrow> nat list) \<Rightarrow> cell \<Rightarrow> nat list" where
  "neighborhood grid c =
     (case c of (cx, cy, cz) \<Rightarrow>
        concat (map (\<lambda>dx. concat (map (\<lambda>dy. concat (map (\<lambda>dz.
          grid (cx + dx, cy + dy, cz + dz)) [-1, 0, 1])) [-1, 0, 1])) [-1, 0, 1]))"

fun uf_find :: "nat \<Rightarrow> nat list \<Rightarrow> nat \<Rightarrow> (nat list \<times> nat) option" where
  \<comment> \<open>\<open>find\<close>, with path halving; the first argument is fuel\<close>
  "uf_find 0 parent x = None"
| "uf_find (Suc n) parent x =
     (if parent ! x = x then Some (parent, x)
      else let parent' = parent[x := parent ! (parent ! x)]
           in uf_find n parent' (parent' ! x))"

definition find_root :: "nat list \<Rightarrow> nat \<Rightarrow> pyexn + nat list \<times> nat" where
  "find_root parent x =
     (case uf_find (Suc (length parent)) parent x of None \<Rightarrow> Inl Diverges | Some r \<Rightarrow> Inr r)"

definition uf_link :: "nat list \<Rightarrow> nat \<times> nat \<Rightarrow> pyexn + nat list" where
  \<comment> \<open>\<open>parent[find(j)] = find(k)\<close>: the right side first\<close>
  "uf_link parent kj =
     bindE (find_root parent (fst kj)) (\<lambda>(parent1, rk).
     bindE (find_root parent1 (snd kj)) (\<lambda>(parent2, rj). Inr (parent2[rj := rk])))"

definition close_ends :: "point list \<Rightarrow> flt list \<Rightarrow> nat \<Rightarrow> nat \<Rightarrow> bool" where
  "close_ends pts lens k j \<longleftrightarrow> l1 (pts ! k) (pts ! j) \<le> smin * fmin (lens ! k) (lens ! j)"

definition links :: "point list \<Rightarrow> flt list \<Rightarrow> cell list \<Rightarrow> (nat \<times> nat) list" where
  \<comment> \<open>the unions of pass 1, in the order the two loops make them\<close>
  "links pts lens cells =
     concat (map (\<lambda>k. map (\<lambda>j. (k, j))
       (filter (\<lambda>j. k < j \<and> close_ends pts lens k j) (neighborhood (grid_of cells) (cells ! k))))
       [0..<length pts])"

definition set_end :: "flat_wire list \<Rightarrow> nat \<Rightarrow> point \<Rightarrow> flat_wire list" where
  "set_end ws k p =
     (let i = k div 2; w = ws ! i
      in ws[i := if k mod 2 = 0 then w\<lparr>fw_p1 := p\<rparr> else w\<lparr>fw_p2 := p\<rparr>])"

record snap_state =
  sn_parent :: "nat list"
  sn_wires :: "flat_wire list"
  sn_pts :: "point list"

definition snap_root :: "snap_state \<Rightarrow> nat \<Rightarrow> pyexn + snap_state" where
  \<comment> \<open>the loop that rewrites every end onto its cluster's root\<close>
  "snap_root s k =
     bindE (find_root (sn_parent s) k) (\<lambda>(parent, root).
       if root \<noteq> k
       then Inr \<lparr>sn_parent = parent, sn_wires = set_end (sn_wires s) k (sn_pts s ! root),
                 sn_pts = (sn_pts s)[k := sn_pts s ! root]\<rparr>
       else Inr (s\<lparr>sn_parent := parent\<rparr>))"

definition interior_boundaries :: "flat_wire list \<Rightarrow> (nat \<times> point) list" where
  "interior_boundaries ws =
     concat (map (\<lambda>(i, w). map (\<lambda>k. (i, boundary w k)) [1..fw_n_seg w - 1])
       (zip [0..<length ws] ws))"

definition point_eq :: "point \<Rightarrow> point \<Rightarrow> bool" where
  "point_eq p q \<longleftrightarrow> list_all2 feq (coords p) (coords q)"

definition best_step ::
  "(nat \<times> point) list \<Rightarrow> flt list \<Rightarrow> nat \<Rightarrow> point \<Rightarrow> (flt \<times> point) option \<Rightarrow> nat \<Rightarrow>
    (flt \<times> point) option" where
  "best_step bs lens k p best j =
     (let (bw, b) = bs ! j; d = l1 p b in
      if bw = k div 2 \<or> point_eq b p then best
      else if d \<le> smin * fmin (lens ! k) (lens ! (2 * bw)) \<and>
              (case best of None \<Rightarrow> True | Some (d0, _) \<Rightarrow> d < d0)
      then Some (d, b) else best)"

definition snap_boundary ::
  "flt \<Rightarrow> (nat \<times> point) list \<Rightarrow> (cell \<Rightarrow> nat list) \<Rightarrow> flt list \<Rightarrow> point list \<Rightarrow>
    flat_wire list \<Rightarrow> nat \<Rightarrow> pyexn + flat_wire list" where
  "snap_boundary tol bs grid lens pts ws k =
     bindE (cell_of tol (pts ! k)) (\<lambda>c.
       case foldl (best_step bs lens k (pts ! k)) None (neighborhood grid c) of
         None \<Rightarrow> Inr ws
       | Some (d, b) \<Rightarrow> Inr (set_end ws k b))"

definition snap_tolerance :: "flat_wire list \<Rightarrow> flt" where
  \<comment> \<open>\<open>max_tol\<close>: the widest tolerance any pair of ends can have, the grid's cell size\<close>
  "snap_tolerance ws =
     (case end_seg_lens ws of [] \<Rightarrow> Fin 0 | l # ls \<Rightarrow> smin * foldl fmax l ls)"

definition snap_ends :: "flt \<Rightarrow> flat_wire list \<Rightarrow> pyexn + snap_state" where
  \<comment> \<open>pass 1: the ends clustered, and every end rewritten onto its cluster's root\<close>
  "snap_ends tol ws =
     (let pts = end_points ws; lens = end_seg_lens ws in
      bindE (mapE (cell_of tol) pts) (\<lambda>cells.
      bindE (foldE uf_link [0..<length pts] (links pts lens cells)) (\<lambda>parent.
        foldE snap_root \<lparr>sn_parent = parent, sn_wires = ws, sn_pts = pts\<rparr> [0..<length pts])))"

definition snap_onto_boundaries ::
  "flt \<Rightarrow> flt list \<Rightarrow> snap_state \<Rightarrow> pyexn + flat_wire list" where
  \<comment> \<open>pass 2: what is left of the ends, onto other wires' interior boundaries\<close>
  "snap_onto_boundaries tol lens s =
     (let bs = interior_boundaries (sn_wires s) in
      bindE (mapE (\<lambda>b. cell_of tol (snd b)) bs) (\<lambda>bcells.
        foldE (snap_boundary tol bs (grid_of bcells) lens (sn_pts s)) (sn_wires s)
          [0..<length (sn_pts s)]))"

definition snap_connections :: "flat_wire list \<Rightarrow> pyexn + flat_wire list" where
  "snap_connections ws =
     (let tol = snap_tolerance ws in
      if end_points ws = [] then Inr ws
      else if tol \<le> Fin 0 then Inr ws
      else bindE (snap_ends tol ws) (snap_onto_boundaries tol (end_seg_lens ws)))"

section \<open>junction\_cuts\<close>

fun fround :: "flt \<Rightarrow> pyexn + int" where
  "fround (Fin r) = Inr (round_even r)"
| "fround NaN = Inl ValueError"
| "fround _ = Inl OverflowError"

definition node_key :: "point \<Rightarrow> pyexn + cell" where
  "node_key p =
     (case p of (x, y, z) \<Rightarrow>
        bindE (fround (x / node_eps)) (\<lambda>kx. bindE (fround (y / node_eps)) (\<lambda>ky.
        bindE (fround (z / node_eps)) (\<lambda>kz. Inr (kx, ky, kz)))))"

definition node_owners :: "cell list list \<Rightarrow> cell \<Rightarrow> nat set" where
  "node_owners keys =
     foldl (\<lambda>ow (i, ks). foldl (\<lambda>ow q. ow(q := insert i (ow q))) ow ks) (\<lambda>_. {})
       (zip [0..<length keys] keys)"

definition shared_boundaries :: "cell list list \<Rightarrow> flat_wire list \<Rightarrow> nat \<Rightarrow> int list" where
  \<comment> \<open>the interior boundaries of wire \<open>i\<close> that more than one wire owns\<close>
  "shared_boundaries keys ws i =
     filter (\<lambda>k. card (node_owners keys (keys ! i ! nat k)) > 1) [1..fw_n_seg (ws ! i) - 1]"

definition junction_cuts :: "flat_wire list \<Rightarrow> pyexn + (nat \<rightharpoonup> int set)" where
  "junction_cuts ws =
     bindE (mapE (\<lambda>w. mapE (\<lambda>k. node_key (boundary w k)) [0..fw_n_seg w]) ws) (\<lambda>keys.
       Inr (\<lambda>i. if i < length ws \<and> shared_boundaries keys ws i \<noteq> []
                then Some (set (shared_boundaries keys ws i)) else None))"

section \<open>shatter\<close>

record piece =
  pi_wire :: nat
  pi_first_seg :: int
  pi_n_seg :: int
  pi_p1 :: point
  pi_p2 :: point

definition piece_length :: "piece \<Rightarrow> flt" where
  "piece_length p = fdist (pi_p1 p) (pi_p2 p)"

fun cut_pieces :: "nat \<Rightarrow> flat_wire \<Rightarrow> int \<Rightarrow> int list \<Rightarrow> piece list" where
  "cut_pieces i w prev [] = []"
| "cut_pieces i w prev (b # bs) =
     \<lparr>pi_wire = i, pi_first_seg = prev, pi_n_seg = b - prev,
      pi_p1 = boundary w prev, pi_p2 = boundary w b\<rparr> # cut_pieces i w b bs"

definition wire_pieces :: "nat \<Rightarrow> flat_wire \<Rightarrow> int set option \<Rightarrow> piece list" where
  "wire_pieces i w cutset =
     (case cutset of
        None \<Rightarrow> [\<lparr>pi_wire = i, pi_first_seg = 0, pi_n_seg = fw_n_seg w,
                  pi_p1 = fw_p1 w, pi_p2 = fw_p2 w\<rparr>]
      | Some cs \<Rightarrow>
          if cs = {} then [\<lparr>pi_wire = i, pi_first_seg = 0, pi_n_seg = fw_n_seg w,
                            pi_p1 = fw_p1 w, pi_p2 = fw_p2 w\<rparr>]
          else cut_pieces i w 0 (sorted_list_of_set cs @ [fw_n_seg w]))"

definition shatter_step ::
  "(nat \<rightharpoonup> int set) \<Rightarrow> piece list \<times> nat list list \<Rightarrow> nat \<times> flat_wire \<Rightarrow>
    piece list \<times> nat list list" where
  "shatter_step cuts acc iw =
     (let new = wire_pieces (fst iw) (snd iw) (cuts (fst iw)); n = length (fst acc)
      in (fst acc @ new, snd acc @ [[n..<n + length new]]))"

definition shatter :: "flat_wire list \<Rightarrow> (nat \<rightharpoonup> int set) \<Rightarrow> piece list \<times> nat list list" where
  "shatter ws cuts = foldl (shatter_step cuts) ([], []) (zip [0..<length ws] ws)"

section \<open>build\_geometry\<close>

record nec2_structure =
  st_wires :: "flat_wire list"
  st_cuts :: "nat \<rightharpoonup> int set"
  st_pieces :: "piece list"
  st_pieces_of_wire :: "nat list list"
  st_ground_plane_flag :: bool
  st_ground_plane_interpolates :: bool
  st_symmetry :: "symmetry option"

definition build_geometry :: "(string \<Rightarrow> builder option) \<Rightarrow> card list \<Rightarrow> pyexn + nec2_structure" where
  "build_geometry builders cards =
     bindE (build_wires builders cards) (\<lambda>st.
     bindE (snap_connections (ge_wires st)) (\<lambda>ws.
     bindE (junction_cuts ws) (\<lambda>cuts.
       let (pieces, of_wire) = shatter ws cuts in
       Inr \<lparr>st_wires = ws, st_cuts = cuts, st_pieces = pieces, st_pieces_of_wire = of_wire,
            st_ground_plane_flag = ge_flag st,
            st_ground_plane_interpolates = ge_interpolates st,
            st_symmetry = ge_symmetry st\<rparr>)))"

end
