(* ===== verification/Structure.thy ===== *)
theory Structure
  imports Connections "HOL-Library.Product_Lexorder"
begin

text \<open>
  \<open>src/src/momwire/deck/_nec2_geometry.py\<close>, third part: \<open>Nec2Structure\<close>, the resolver
  from a deck's \<open>(tag, segment)\<close> addresses to the model's wires, and the rule that
  replicates a load over the copies of a symmetric cell.  A model wire's index is a piece's
  index; a flat wire's index is its position in the structure's list.
\<close>

definition n_segments :: "nec2_structure \<Rightarrow> int" where
  "n_segments s = total_segments (st_wires s)"

fun locate_from :: "flat_wire list \<Rightarrow> nat \<Rightarrow> int \<Rightarrow> int \<Rightarrow> int \<Rightarrow> (nat \<times> int) option" where
  \<comment> \<open>the loop of \<open>locate\<close>: the wires left, the index of the first, the tag, the segment
     and the segments passed so far\<close>
  "locate_from [] i tag seg acc = None"
| "locate_from (w # ws) i tag seg acc =
     (if tag \<noteq> 0 \<and> fw_tag w \<noteq> tag then locate_from ws (Suc i) tag seg acc
      else if seg \<le> acc + fw_n_seg w then Some (i, seg - acc)
      else locate_from ws (Suc i) tag seg (acc + fw_n_seg w))"

definition locate :: "nec2_structure \<Rightarrow> int \<Rightarrow> int \<Rightarrow> pyexn + nat \<times> int" where
  "locate s tag seg =
     (let seg' = max seg 1 in
      case locate_from (st_wires s) 0 tag seg' 0 of
        None \<Rightarrow> Inl (geometry_error (SegmentOutOfRange seg' tag))
      | Some r \<Rightarrow> Inr r)"

fun find_piece :: "piece list \<Rightarrow> nat list \<Rightarrow> int \<Rightarrow> pyexn + nat \<times> int" where
  "find_piece ps [] local = Inl AssertionError"
| "find_piece ps (i # is) local =
     (let p = ps ! i in
      if pi_first_seg p < local \<and> local \<le> pi_first_seg p + pi_n_seg p
      then Inr (i, local - pi_first_seg p - 1)
      else find_piece ps is local)"

definition element_of :: "nec2_structure \<Rightarrow> nat \<Rightarrow> int \<Rightarrow> pyexn + nat \<times> int" where
  "element_of s wire local = find_piece (st_pieces s) (st_pieces_of_wire s ! wire) local"

definition element :: "nec2_structure \<Rightarrow> int \<Rightarrow> int \<Rightarrow> pyexn + nat \<times> int" where
  "element s tag seg = bindE (locate s tag seg) (\<lambda>(wire, local). element_of s wire local)"

definition resolve_of :: "nec2_structure \<Rightarrow> nat \<Rightarrow> int \<Rightarrow> pyexn + nat \<times> flt" where
  "resolve_of s wire local =
     bindE (element_of s wire local) (\<lambda>(i, e).
       let p = st_pieces s ! i in
       Inr (i, Fin (of_int e + 1 / 2) * piece_length p / fint (pi_n_seg p)))"

definition resolve :: "nec2_structure \<Rightarrow> int \<Rightarrow> int \<Rightarrow> pyexn + nat \<times> flt" where
  "resolve s tag seg = bindE (locate s tag seg) (\<lambda>(wire, local). resolve_of s wire local)"

definition wire_of_segment_range ::
  "nec2_structure \<Rightarrow> int \<Rightarrow> int \<Rightarrow> int \<Rightarrow> pyexn + (nat \<times> int) list" where
  "wire_of_segment_range s tag first last_seg =
     (let lo = (if last_seg < first then last_seg else first);
          hi = (if last_seg < first then first else last_seg)
      in mapE (element s tag) [max lo 1..hi])"

definition wire_segments :: "flat_wire list \<Rightarrow> (nat \<times> int) list" where
  \<comment> \<open>every segment of the structure, as (wire, local segment)\<close>
  "wire_segments ws =
     concat (map (\<lambda>(i, w). map (\<lambda>k. (i, k)) [1..fw_n_seg w]) (zip [0..<length ws] ws))"

definition ld_segment_range ::
  "nec2_structure \<Rightarrow> int \<Rightarrow> int \<Rightarrow> int \<Rightarrow> pyexn + (nat \<times> int) list" where
  "ld_segment_range s tag first last_seg =
     (if tag = 0 \<and> first = 0 then Inr (wire_segments (st_wires s))
      else if first = 0 then
        (let pairs = filter (\<lambda>(i, k). fw_tag (st_wires s ! i) = tag) (wire_segments (st_wires s))
         in if pairs = [] then Inl (geometry_error (NoWireHasTag tag)) else Inr pairs)
      else mapE (locate s tag) [first..max last_seg first])"

definition under_the_cell_rule ::
  "nec2_structure \<Rightarrow> (nat \<times> int) list \<Rightarrow> pyexn + (nat \<times> int) list \<times> (nat \<times> int) list" where
  "under_the_cell_rule s pairs =
     (case st_symmetry s of
        None \<Rightarrow> Inr (pairs, [])
      | Some y \<Rightarrow>
          (let cell = sy_cell_wires y in
           if cell = 0 then Inl ZeroDivisionError
           else let n = length (st_wires s) div cell;
                    applied = dedup (concat (map (\<lambda>(wire, seg).
                      map (\<lambda>k. (wire + k * cell, seg)) [0..<n])
                      (filter (\<lambda>(wire, seg). wire < cell) pairs)))
                in Inr (sort applied, filter (\<lambda>p. p \<notin> set applied) pairs)))"

section \<open>Pieces\<close>

text \<open>A wire's pieces, in order, are consecutive runs of its segments: the first starts at
  segment 0, each starts where the one before ends, and the last ends at the wire's last.\<close>

fun consecutive :: "int \<Rightarrow> piece list \<Rightarrow> int \<Rightarrow> bool" where
  "consecutive a [] b \<longleftrightarrow> a = b"
| "consecutive a (p # ps) b \<longleftrightarrow>
     pi_first_seg p = a \<and> 1 \<le> pi_n_seg p \<and> consecutive (a + pi_n_seg p) ps b"

lemma cut_pieces_consecutive:
  "sorted_wrt (<) (prev # bs) \<Longrightarrow> consecutive prev (cut_pieces i w prev bs) (last (prev # bs))"
  by (induction bs arbitrary: prev) auto

lemma cut_pieces_wire: "p \<in> set (cut_pieces i w prev bs) \<Longrightarrow> pi_wire p = i"
  by (induction bs arbitrary: prev) auto

definition cut_ok :: "flat_wire \<Rightarrow> int set option \<Rightarrow> bool" where
  \<comment> \<open>a cut set holds interior boundaries of its wire\<close>
  "cut_ok w cutset \<longleftrightarrow> (case cutset of None \<Rightarrow> True | Some cs \<Rightarrow> cs \<subseteq> {1..<fw_n_seg w})"

lemma wire_pieces_consecutive:
  assumes "1 \<le> fw_n_seg w" "cut_ok w cutset"
  shows "consecutive 0 (wire_pieces i w cutset) (fw_n_seg w)"
proof (cases "cutset = None \<or> cutset = Some {}")
  case True
  with assms(1) show ?thesis
    by (auto simp: wire_pieces_def)
next
  case False
  then obtain cs where some: "cutset = Some cs" "cs \<noteq> {}"
    by (cases cutset) simp_all
  moreover have "cs \<subseteq> {1..<fw_n_seg w}"
    using assms(2) some(1) by (simp add: cut_ok_def)
  ultimately have cs: "cutset = Some cs" "cs \<noteq> {}" "cs \<subseteq> {1..<fw_n_seg w}"
    by blast+
  from cs(3) have fin: "finite cs"
    by (rule finite_subset) simp
  let ?bs = "sorted_list_of_set cs @ [fw_n_seg w]"
  have mem: "1 \<le> x \<and> x < fw_n_seg w" if "x \<in> set (sorted_list_of_set cs)" for x
    using that cs(3) fin by auto
  have sorted: "sorted_wrt (<) (sorted_list_of_set cs)"
    by (rule strict_sorted_list_of_set)
  have "sorted_wrt (<) ?bs"
    using sorted mem by (simp add: sorted_wrt_append)
  moreover have "\<forall>x \<in> set ?bs. 0 < x"
    using mem assms(1) by force
  ultimately have "sorted_wrt (<) (0 # ?bs)"
    by simp
  then show ?thesis
    using cut_pieces_consecutive [of 0 ?bs i w] cs by (simp add: wire_pieces_def)
qed

lemma wire_pieces_wire: "p \<in> set (wire_pieces i w cutset) \<Longrightarrow> pi_wire p = i"
  by (auto simp: wire_pieces_def split: option.splits if_splits dest: cut_pieces_wire)

lemma consecutive_sum: "consecutive a ps b \<Longrightarrow> a + sum_by pi_n_seg ps = b"
  by (induction ps arbitrary: a) (auto simp flip: add.assoc)

lemma consecutive_le: "consecutive a ps b \<Longrightarrow> a \<le> b"
  by (induction ps arbitrary: a) force+

text \<open>A segment of the wire lies in exactly one piece: the search finds it.\<close>

lemma find_piece_consecutive:
  assumes "consecutive a (map ((!) ps) is) b" "a < l" "l \<le> b"
  shows "\<exists>i \<in> set is. find_piece ps is l = Inr (i, l - pi_first_seg (ps ! i) - 1) \<and>
    pi_first_seg (ps ! i) < l \<and> l \<le> pi_first_seg (ps ! i) + pi_n_seg (ps ! i)"
  using assms
proof (induction "is" arbitrary: a)
  case (Cons i "is")
  show ?case
  proof (cases "l \<le> pi_first_seg (ps ! i) + pi_n_seg (ps ! i)")
    case True
    with Cons.prems show ?thesis by (simp add: Let_def)
  next
    case False
    with Cons.prems have rest: "consecutive (a + pi_n_seg (ps ! i)) (map ((!) ps) is) b"
      "a + pi_n_seg (ps ! i) < l" by simp_all
    obtain j where "j \<in> set is" "find_piece ps is l = Inr (j, l - pi_first_seg (ps ! j) - 1)"
      "pi_first_seg (ps ! j) < l" "l \<le> pi_first_seg (ps ! j) + pi_n_seg (ps ! j)"
      using Cons.IH [OF rest Cons.prems(3)] by blast
    with False show ?thesis by (auto simp: Let_def)
  qed
qed simp

section \<open>shatter\<close>

definition shattered :: "flat_wire list \<Rightarrow> (nat \<rightharpoonup> int set) \<Rightarrow> piece list \<Rightarrow> nat list list \<Rightarrow> bool" where
  \<comment> \<open>the pieces are the wires' pieces in order, and each wire's index list names its own\<close>
  "shattered ws cuts ps of_wire \<longleftrightarrow>
     length of_wire = length ws \<and> concat of_wire = [0..<length ps] \<and>
     (\<forall>i < length ws. map ((!) ps) (of_wire ! i) = wire_pieces i (ws ! i) (cuts i))"

lemma shatter_step_shattered:
  assumes "shattered ws cuts ps of_wire"
    and "shatter_step cuts (ps, of_wire) (length ws, w) = (ps', of_wire')"
  shows "shattered (ws @ [w]) cuts ps' of_wire'"
proof -
  let ?new = "wire_pieces (length ws) w (cuts (length ws))"
  have ps': "ps' = ps @ ?new" and of': "of_wire' = of_wire @ [[length ps..<length ps + length ?new]]"
    using assms(2) by (auto simp: shatter_step_def Let_def)
  have old: "set (of_wire ! i) \<subseteq> {..<length ps}" if "i < length ws" for i
  proof -
    have "of_wire ! i \<in> set of_wire"
      using that assms(1) by (simp add: shattered_def)
    then have "set (of_wire ! i) \<subseteq> set (concat of_wire)"
      by (auto simp del: set_concat simp: set_concat)
    also have "set (concat of_wire) = {..<length ps}"
      using assms(1) by (simp only: shattered_def set_upt atLeast0LessThan)
    finally show ?thesis .
  qed
  have "map ((!) ps') (of_wire' ! i) = wire_pieces i ((ws @ [w]) ! i) (cuts i)"
    if "i < length (ws @ [w])" for i
  proof (cases "i = length ws")
    case True
    moreover have "map ((!) (ps @ ?new)) [length ps..<length ps + length ?new] = ?new"
      by (rule nth_equalityI) (auto simp: nth_append)
    ultimately show ?thesis
      using assms(1) ps' of' by (simp add: shattered_def nth_append)
  next
    case False
    with that have i: "i < length ws" by simp
    then have "map ((!) ps') (of_wire ! i) = map ((!) ps) (of_wire ! i)"
      using old [OF i] ps' by (auto simp: nth_append)
    with i assms(1) of' show ?thesis
      by (simp add: shattered_def nth_append)
  qed
  moreover have "concat of_wire' = [0..<length ps']"
    using assms(1) ps' of' by (simp add: shattered_def upt_add_eq_append [symmetric])
  ultimately show ?thesis
    using assms(1) of' by (simp add: shattered_def)
qed

lemma shatter_shattered:
  assumes "shatter ws cuts = (ps, of_wire)"
  shows "shattered ws cuts ps of_wire"
  using assms
proof (induction ws arbitrary: ps of_wire rule: rev_induct)
  case Nil
  then show ?case by (simp add: shatter_def shattered_def)
next
  case (snoc w ws)
  obtain ps0 of0 where s: "shatter ws cuts = (ps0, of0)" by fastforce
  have zip: "zip [0..<length (ws @ [w])] (ws @ [w]) = zip [0..<length ws] ws @ [(length ws, w)]"
    by simp
  have step: "shatter_step cuts (ps0, of0) (length ws, w) = (ps, of_wire)"
    using snoc.prems s unfolding shatter_def zip by simp
  show ?case
    using shatter_step_shattered [OF snoc.IH [OF s] step] .
qed

end
