(* ===== verification/Nec2_Parser.thy ===== *)
theory Nec2_Parser
  imports Structure "HOL-Library.AList"
begin

text \<open>
  \<open>src/src/momwire/deck/_nec2.py\<close>, first part: the state of the deck's state machine
  (\<open>_Nec2Parser\<close>), and the cards that set the environment, the drive, the frequency and
  the print options.

  The parser is an extensible record, so a dialect that adds state to it (a subclass)
  extends the record.  The cached geometry (\<open>_structure\<close>) is part of the state.
\<close>

section \<open>The card vocabulary\<close>

definition geometry_cards :: "string list" where
  "geometry_cards = [''GW'', ''GA'', ''GH'', ''GM'', ''GS'', ''GX'', ''GR'', ''GE'']"

definition execute_cards :: "string list" where
  "execute_cards = [''XQ'', ''RP'', ''NE'', ''NH'']"

definition arming_cards :: "string list" where
  "arming_cards = [''EX'', ''FR'', ''LD'', ''GN'', ''EK'', ''TL'', ''NT'']"

definition operator_cards :: "string list" where
  "operator_cards = [''GN'', ''EK'', ''LD'']"

definition terminators :: "string list" where
  "terminators = [''NX'', ''EN'']"

definition default_frequency_mhz :: flt where
  "default_frequency_mhz = Fin (2998 / 10)"

definition ld_expand_max :: nat where
  "ld_expand_max = 8"

definition refused_by_name :: "string list" where
  \<comment> \<open>the keys of \<open>_REFUSED_BY_NAME\<close>; the sentence is the key's own\<close>
  "refused_by_name =
     [''GC'', ''GF'', ''SY'', ''SP'', ''SM'', ''SC'', ''KH'', ''CP'', ''PL'', ''WG'', ''ZO'']"

definition network_cards :: "string list" where
  "network_cards = [''TL'', ''NT'']"

definition network_transparent :: "string list" where
  "network_transparent = [''PT'', ''PQ'', ''MP'']"

definition ld_run_transparent :: "string list" where
  "ld_run_transparent = [''PT'', ''PQ'', ''MP'', ''CM'', ''CE'']"

definition rp_modes :: "int list" where
  "rp_modes = [0, 2, 3]"

fun directive_from :: "string \<Rightarrow> string list \<Rightarrow> pyexn + int option" where
  "directive_from key (token # v # rest) =
     (if upper token = key
      then (case py_float v of
              None \<Rightarrow> Inr None
            | Some NaN \<Rightarrow> Inr None
            | Some (Fin r) \<Rightarrow> Inr (Some (trunc_int r))
            | Some _ \<Rightarrow> Inl (deck_error (DirectiveInfinite key v)))
      else directive_from key (v # rest))"
| "directive_from key _ = Inr None"

definition directive :: "string \<Rightarrow> string \<Rightarrow> pyexn + int option" where
  "directive body key = directive_from key (split_ws body)"

section \<open>The state\<close>

type_synonym material_state =
  "flt option \<times> (nat \<times> flt) list \<times> distributed_rlc option \<times> (nat \<times> distributed_rlc) list"

record pending_group =
  pg_sources :: "(int \<times> int \<times> cplx) list"
  pg_frequencies :: "flt list"
  pg_request :: "request option"
  pg_print_control :: "print_control option"
  pg_extended_kernel :: bool
  pg_multiprocessing :: "(int \<times> int) option"
  pg_environment :: environment
  pg_refilled :: bool
  pg_refilled_partial :: bool
  pg_loads :: "nat list"
  pg_materials :: material_state

record parser =
  ps_comments :: "string list"
  ps_quiet :: bool
  ps_reduced_field :: "int option"
  ps_geometry_cards :: "card list"
  ps_structure :: "nec2_structure option"
  ps_groups :: "pending_group option list"
  ps_armed :: bool
  ps_executed :: nat
  ps_fresh_fr :: bool
  ps_print_control :: "print_control option"
  ps_multiprocessing :: "(int \<times> int) option"
  ps_saw_ex :: bool
  ps_operator_dirty :: bool
  ps_sources :: "(int \<times> int \<times> cplx) list"
  ps_sources_stale :: bool
  ps_frequencies :: "flt list"
  ps_ground :: ground
  ps_second_medium :: "second_medium option"
  ps_extended_kernel :: bool
  ps_networks :: "network_card list"
  ps_network_destroyer :: "string option"
  ps_load_log :: "(nat \<times> flt \<times> load_spec) list"
  ps_live :: "nat list"
  ps_loaded :: "(nat \<times> int) set"
  ps_load_spec_at :: "nat \<times> int \<rightharpoonup> load_spec"
  ps_ld_run_open :: bool
  ps_global_conductivity :: "flt option"
  ps_wire_conductivity :: "(nat \<times> flt) list" \<comment> \<open>a dict, in insertion order\<close>
  ps_wire_insulation :: "nat \<rightharpoonup> flt \<times> flt"
  ps_global_distributed :: "distributed_rlc option"
  ps_wire_distributed :: "(nat \<times> distributed_rlc) list" \<comment> \<open>a dict, in insertion order\<close>

definition init_parser :: parser where
  "init_parser =
     \<lparr>ps_comments = [], ps_quiet = False, ps_reduced_field = None,
      ps_geometry_cards = [], ps_structure = None, ps_groups = [],
      ps_armed = True, ps_executed = 0, ps_fresh_fr = False, ps_print_control = None,
      ps_multiprocessing = None, ps_saw_ex = False, ps_operator_dirty = False,
      ps_sources = [], ps_sources_stale = False, ps_frequencies = [default_frequency_mhz],
      ps_ground = NoGround, ps_second_medium = None, ps_extended_kernel = False,
      ps_networks = [], ps_network_destroyer = None, ps_load_log = [], ps_live = [],
      ps_loaded = {}, ps_load_spec_at = Map.empty, ps_ld_run_open = False,
      ps_global_conductivity = None, ps_wire_conductivity = [],
      ps_wire_insulation = Map.empty, ps_global_distributed = None,
      ps_wire_distributed = []\<rparr>"

section \<open>Geometry\<close>

definition the_structure ::
  "(string \<Rightarrow> builder option) \<Rightarrow> 'a parser_scheme \<Rightarrow> pyexn + nec2_structure \<times> 'a parser_scheme" where
  \<comment> \<open>the property \<open>structure\<close>: built on first use and kept\<close>
  "the_structure builders p =
     (case ps_structure p of
        Some s \<Rightarrow> Inr (s, p)
      | None \<Rightarrow> bindE (build_geometry builders (ps_geometry_cards p)) (\<lambda>s.
                  Inr (s, p\<lparr>ps_structure := Some s\<rparr>)))"

definition geometry_card ::
  "(string \<Rightarrow> builder option) \<Rightarrow> card \<Rightarrow> 'a parser_scheme \<Rightarrow> pyexn + 'a parser_scheme" where
  "geometry_card builders c p =
     (let p' = p\<lparr>ps_geometry_cards := ps_geometry_cards p @ [c], ps_structure := None\<rparr> in
      if mnemonic c = ''GE'' then bindE (the_structure builders p') (\<lambda>(_, p''). Inr p'')
      else Inr p')"

section \<open>GN, GD\<close>

definition gn_card :: "card \<Rightarrow> 'a parser_scheme \<Rightarrow> pyexn + 'a parser_scheme" where
  "gn_card c p =
     (case trailer c of
        Some t \<Rightarrow> Inl (deck_error (GnTrailer t))
      | None \<Rightarrow>
     bindE (card_i c 0) (\<lambda>code. bindE (card_i c 1) (\<lambda>nradl.
     bindE (guardE ((code = 0 \<or> code = 2) \<and> nradl \<noteq> 0)
                   (deck_error (GnRadialScreen code nradl))) (\<lambda>_.
     bindE (if code = -1 then Inr NoGround
            else if code = 1 then Inr Pec
            else if code = 0 then Inr (FiniteGround ''finite-fast'' (card_f c 4) (card_f c 5))
            else if code = 2 then Inr (FiniteGround ''finite'' (card_f c 4) (card_f c 5))
            else Inl (deck_error (GnType code))) (\<lambda>g.
       let p' = p\<lparr>ps_ground := g\<rparr> in
       Inr (if nradl = 0
            then p'\<lparr>ps_second_medium :=
                   Some \<lparr>sm_eps_r = card_f c 6, sm_sigma = card_f c 7,
                         sm_edge_distance = card_f c 8, sm_height = card_f c 9\<rparr>\<rparr>
            else p'))))))"

definition gd_card :: "card \<Rightarrow> 'a parser_scheme \<Rightarrow> pyexn + 'a parser_scheme" where
  "gd_card c p =
     Inr (p\<lparr>ps_second_medium :=
       Some \<lparr>sm_eps_r = card_f c 4, sm_sigma = card_f c 5,
             sm_edge_distance = card_f c 6, sm_height = card_f c 7\<rparr>\<rparr>)"

section \<open>FR, EX, EK\<close>

definition fpow :: "flt \<Rightarrow> nat \<Rightarrow> pyexn + flt" where
  \<comment> \<open>\<open>x ** i\<close> of a positive \<open>x\<close>: an overflow raises\<close>
  "fpow x i =
     (case x of
        Fin r \<Rightarrow> if \<bar>r ^ i\<bar> < flt_limit then Inr (Fin (r ^ i)) else Inl OverflowError
      | _ \<Rightarrow> Inr (if i = 0 then Fin 1 else x))"

definition fr_card :: "card \<Rightarrow> 'a parser_scheme \<Rightarrow> pyexn + 'a parser_scheme" where
  "fr_card c p =
     bindE (card_i c 0) (\<lambda>sweep. bindE (card_i c 1) (\<lambda>n0.
       let n = nat (max n0 1); start = card_f c 4; step = card_f c 5 in
       bindE (if sweep = 0 then Inr (map (\<lambda>i. start + fint (int i) * step) [0..<n])
              else mapE (\<lambda>i. if Fin 0 < step then bindE (fpow step i) (\<lambda>q. Inr (start * q))
                              else Inr start) [0..<n])
         (\<lambda>fs. Inr (p\<lparr>ps_frequencies := fs, ps_fresh_fr := True\<rparr>))))"

definition ex_card :: "card \<Rightarrow> 'a parser_scheme \<Rightarrow> pyexn + 'a parser_scheme" where
  "ex_card c p =
     bindE (card_i c 0) (\<lambda>ex_type.
     bindE (guardE (ex_type \<noteq> 0) (deck_error (ExType ex_type))) (\<lambda>_.
     bindE (card_i c 1) (\<lambda>tag. bindE (card_i c 2) (\<lambda>seg.
       let v = (card_f c 4, card_f c 5);
           volts = (if feq (fst v) (Fin 0) \<and> feq (snd v) (Fin 0) then (Fin 1, Fin 0) else v);
           kept = (if ps_sources_stale p then [] else ps_sources p)
       in Inr (p\<lparr>ps_saw_ex := True, ps_sources_stale := False,
                ps_sources := kept @ [(tag, seg, volts)]\<rparr>)))))"

definition ek_card :: "card \<Rightarrow> 'a parser_scheme \<Rightarrow> pyexn + 'a parser_scheme" where
  "ek_card c p = bindE (card_i c 0) (\<lambda>k. Inr (p\<lparr>ps_extended_kernel := k \<noteq> -1\<rparr>))"

section \<open>TL, NT\<close>

definition network_end_check :: "card \<Rightarrow> int \<times> int \<Rightarrow> pyexn option" where
  "network_end_check c e =
     (case e of (tag, seg) \<Rightarrow>
        if seg < 1 then Some (deck_error (NetworkSegment (mnemonic c) seg tag)) else None)"

definition network ::
  "(string \<Rightarrow> builder option) \<Rightarrow> card \<Rightarrow> 'a parser_scheme \<Rightarrow> pyexn + 'a parser_scheme" where
  "network builders c p =
     (case ps_network_destroyer p of
        Some d \<Rightarrow> Inl (deck_error (NetworkInterposed (mnemonic c) d))
      | None \<Rightarrow>
     bindE (card_i c 0) (\<lambda>tag_a. bindE (card_i c 1) (\<lambda>seg_a.
     bindE (card_i c 2) (\<lambda>tag_b. bindE (card_i c 3) (\<lambda>seg_b.
     bindE (firstE (network_end_check c) [(tag_a, seg_a), (tag_b, seg_b)]) (\<lambda>_.
     bindE (guardE (mnemonic c = ''TL'' \<and> feq (card_f c 4) (Fin 0))
                   (deck_error TlZeroImpedance)) (\<lambda>_.
     bindE (the_structure builders p) (\<lambda>(s, p').
     bindE (resolve s tag_a seg_a) (\<lambda>end_a. bindE (resolve s tag_b seg_b) (\<lambda>end_b.
       Inr (p'\<lparr>ps_networks := ps_networks p' @
         [\<lparr>nc_kind = mnemonic c, nc_end_a = end_a, nc_end_b = end_b,
           nc_address_a = (tag_a, seg_a), nc_address_b = (tag_b, seg_b),
           nc_payload = map (card_f c) [4..<10],
           nc_first_group = length (ps_groups p')\<rparr>]\<rparr>)))))))))))"

section \<open>The requests\<close>

definition far_field :: "card \<Rightarrow> 'a parser_scheme \<Rightarrow> pyexn + far_field_request" where
  "far_field c p =
     bindE (card_i c 0) (\<lambda>mode.
     bindE (guardE (mode \<notin> set rp_modes) (deck_error (RpMode mode))) (\<lambda>_.
     bindE (guardE (mode \<noteq> 0 \<and> ps_ground p \<noteq> NoGround \<and>
                    (case ps_second_medium p of
                       None \<Rightarrow> True
                     | Some m \<Rightarrow> feq (sm_eps_r m) (Fin 0) \<and> feq (sm_sigma m) (Fin 0)))
                   (deck_error (RpNoSecondMedium mode))) (\<lambda>_.
     bindE (card_i c 1) (\<lambda>nt. bindE (card_i c 2) (\<lambda>np.
       Inr \<lparr>ff_mode = mode, ff_n_theta = max nt 1, ff_n_phi = max np 1,
            ff_theta0 = card_f c 4, ff_phi0 = card_f c 5, ff_d_theta = card_f c 6,
            ff_d_phi = card_f c 7, ff_range = card_f c 8\<rparr>)))))"

definition near_coordinates :: "card \<Rightarrow> pyexn + int" where
  "near_coordinates c =
     bindE (card_i c 0) (\<lambda>k.
     bindE (guardE (k \<noteq> 0) (deck_error (NearSpherical (mnemonic c) k))) (\<lambda>_. Inr 0))"

definition finite_fast :: "ground \<Rightarrow> bool" where
  "finite_fast g = (case g of FiniteGround kind _ _ \<Rightarrow> kind = ''finite-fast'' | _ \<Rightarrow> False)"

definition near_field ::
  "(card \<Rightarrow> pyexn + int) \<Rightarrow> card \<Rightarrow> 'a parser_scheme \<Rightarrow> pyexn + near_field_request" where
  "near_field coordinates c p =
     bindE (coordinates c) (\<lambda>system.
     bindE (guardE (finite_fast (ps_ground p))
                   (deck_error (NearReflectionCoefficient (mnemonic c)))) (\<lambda>_.
     bindE (card_i c 1) (\<lambda>n1. bindE (card_i c 2) (\<lambda>n2. bindE (card_i c 3) (\<lambda>n3.
       Inr \<lparr>nf_magnetic = (mnemonic c = ''NH''), nf_counts = (max n1 1, max n2 1, max n3 1),
            nf_origin = (card_f c 4, card_f c 5, card_f c 6),
            nf_step = (card_f c 7, card_f c 8, card_f c 9), nf_coordinates = system\<rparr>)))))"

definition print_control_card ::
  "(string \<Rightarrow> builder option) \<Rightarrow> card \<Rightarrow> 'a parser_scheme \<Rightarrow> pyexn + print_control \<times> 'a parser_scheme" where
  "print_control_card builders c p =
     bindE (card_i c 0) (\<lambda>flag.
       if flag = -1 then Inr (\<lparr>pc_suppressed = True, pc_elements = None\<rparr>, p)
       else bindE (card_i c 1) (\<lambda>tag. bindE (card_i c 2) (\<lambda>first. bindE (card_i c 3) (\<lambda>last_seg.
         if flag = 0 \<and> (first \<noteq> 0 \<or> last_seg \<noteq> 0)
         then bindE (the_structure builders p) (\<lambda>(s, p').
              bindE (wire_of_segment_range s tag first last_seg) (\<lambda>es.
                Inr (\<lparr>pc_suppressed = False, pc_elements = Some es\<rparr>, p')))
         else Inr (\<lparr>pc_suppressed = False, pc_elements = None\<rparr>, p)))))"

definition pq :: "card \<Rightarrow> pyexn + unit" where
  "pq c = bindE (mapE (card_i c) [0, 1, 2, 3]) (\<lambda>_. Inr ())"

definition mp_field :: "card \<Rightarrow> nat \<Rightarrow> pyexn + int" where
  "mp_field c k =
     bindE (card_i c k) (\<lambda>i.
     bindE (guardE (\<not> feq (card_f c k) (fint i)) (deck_error (MpNotInteger (k + 1) (card_f c k))))
       (\<lambda>_. Inr i))"

definition multiprocessing_card :: "card \<Rightarrow> pyexn + int \<times> int" where
  "multiprocessing_card c = bindE (mp_field c 0) (\<lambda>a. bindE (mp_field c 1) (\<lambda>b. Inr (a, b)))"

end
