(* ===== verification/Nec2_Loads.thy ===== *)
theory Nec2_Loads
  imports Nec2_Parser
begin

text \<open>
  \<open>src/src/momwire/deck/_nec2.py\<close>, second part: the load cards \<open>LD\<close> and the
  insulation card \<open>IS\<close>, with the dialect's half of the cell rule.  A NaN compares equal to
  itself where the code compares a stored value with the same stored value (Python's
  tuples test identity first), and to nothing elsewhere.
\<close>

section \<open>Lumped loads\<close>

definition lumped_spec :: "int \<Rightarrow> card \<Rightarrow> load_spec option" where
  \<comment> \<open>\<open>_load_spec\<close>: None for a zero-valued card\<close>
  "lumped_spec ldtyp c =
     (if ldtyp = 0 \<or> ldtyp = 1 then
        (let r = card_f c 4; l = card_f c 5; cap = card_f c 6 in
         if feq r (Fin 0) \<and> feq l (Fin 0) \<and> feq cap (Fin 0) then None
         else Some \<lparr>ls_kind = (if ldtyp = 0 then ''series'' else ''parallel''),
                    ls_r = r, ls_l = l, ls_c = cap, ls_x = Fin 0\<rparr>)
      else
        (let r = card_f c 4; x = card_f c 5 in
         if feq r (Fin 0) \<and> feq x (Fin 0) then None
         else Some \<lparr>ls_kind = ''fixed'', ls_r = r, ls_l = Fin 0, ls_c = Fin 0, ls_x = x\<rparr>))"

fun restates_the_replication ::
  "nec2_structure \<Rightarrow> (nat \<times> int \<rightharpoonup> load_spec) \<Rightarrow> (nat \<times> int) list \<Rightarrow> load_spec \<Rightarrow> pyexn + bool" where
  "restates_the_replication s held [] spec = Inr True"
| "restates_the_replication s held ((wire, seg) # rest) spec =
     bindE (element_of s wire seg) (\<lambda>key.
       case held key of
         None \<Rightarrow> Inr False
       | Some there \<Rightarrow> if load_spec_eq there spec then restates_the_replication s held rest spec
                       else Inr False)"

definition cell_rule ::
  "nec2_structure \<Rightarrow> (nat \<times> int \<rightharpoonup> load_spec) \<Rightarrow> (nat \<times> int) list \<Rightarrow> load_spec option
    \<Rightarrow> pyexn + (nat \<times> int) list" where
  "cell_rule s held pairs spec =
     bindE (under_the_cell_rule s pairs) (\<lambda>(applied, dropped).
       if dropped = [] then Inr applied
       else bindE (case spec of None \<Rightarrow> Inr False
                   | Some sp \<Rightarrow> restates_the_replication s held dropped sp) (\<lambda>restated.
         if restated then Inr applied
         else case st_symmetry s of
           None \<Rightarrow> Inl AssertionError
         | Some y \<Rightarrow> Inl (load_error (LdOutsideCell (length dropped) (sy_cell_segments y)
                                       (n_segments s)))))"

definition load_entry_eq :: "nat \<times> flt \<times> load_spec \<Rightarrow> nat \<times> flt \<times> load_spec \<Rightarrow> bool" where
  "load_entry_eq e f \<longleftrightarrow>
     fst e = fst f \<and> feq (fst (snd e)) (fst (snd f)) \<and> load_spec_eq (snd (snd e)) (snd (snd f))"

definition log_entry :: "nat \<times> flt \<times> load_spec \<Rightarrow> 'a parser_scheme \<Rightarrow> 'a parser_scheme" where
  \<comment> \<open>put a load in force, reusing the log's entry for it\<close>
  "log_entry e p =
     (case index_of (load_entry_eq e) (ps_load_log p) of
        Some i \<Rightarrow> p\<lparr>ps_live := ps_live p @ [i]\<rparr>
      | None \<Rightarrow> p\<lparr>ps_load_log := ps_load_log p @ [e],
                  ps_live := ps_live p @ [length (ps_load_log p)]\<rparr>)"

definition ld_segment ::
  "nec2_structure \<Rightarrow> load_spec \<Rightarrow> (nat \<times> int) set \<times> 'a parser_scheme \<Rightarrow> nat \<times> int
    \<Rightarrow> pyexn + (nat \<times> int) set \<times> 'a parser_scheme" where
  \<comment> \<open>the body of \<open>_ld\<close>'s loop: the elements this card has reached, and the parser\<close>
  "ld_segment s spec st ws =
     (case (st, ws) of ((this_card, p), (wire, seg)) \<Rightarrow>
       bindE (element_of s wire seg) (\<lambda>key.
       bindE (guardE (key \<in> this_card) (load_error LdSegmentTwice)) (\<lambda>_.
         let p1 = (if key \<in> ps_loaded p
                   then p\<lparr>ps_load_spec_at := (ps_load_spec_at p)(key := None)\<rparr>
                   else p\<lparr>ps_loaded := insert key (ps_loaded p),
                          ps_load_spec_at := (ps_load_spec_at p)(key \<mapsto> spec)\<rparr>)
         in bindE (resolve_of s wire seg) (\<lambda>(_, arclength).
              Inr (insert key this_card, log_entry (fst key, arclength, spec) p1)))))"

definition discard_loads :: "'a parser_scheme \<Rightarrow> 'a parser_scheme" where
  "discard_loads p =
     p\<lparr>ps_live := [], ps_loaded := {}, ps_load_spec_at := Map.empty,
       ps_global_conductivity := None, ps_wire_conductivity := [],
       ps_global_distributed := None, ps_wire_distributed := []\<rparr>"

section \<open>Wire materials\<close>

definition by_wire :: "(nat \<times> int) list \<Rightarrow> (nat \<times> int set) list" where
  \<comment> \<open>the segments named of each wire, wires in order of first mention\<close>
  "by_wire pairs =
     map (\<lambda>i. (i, set (map snd (filter (\<lambda>(j, _). j = i) pairs)))) (dedup (map fst pairs))"

definition partial_wire :: "nec2_structure \<Rightarrow> pyexn \<Rightarrow> nat \<times> int set \<Rightarrow> pyexn option" where
  "partial_wire s e ws =
     (case ws of (wire, segs_named) \<Rightarrow>
        if segs_named \<noteq> set [1..fw_n_seg (st_wires s ! wire)] then Some e else None)"

definition ld23 ::
  "(string \<Rightarrow> builder option) \<Rightarrow> int \<Rightarrow> int \<Rightarrow> int \<Rightarrow> int \<Rightarrow> card \<Rightarrow> 'a parser_scheme
    \<Rightarrow> pyexn + 'a parser_scheme" where
  "ld23 builders ldtyp tag first last_seg c p =
     (let r = card_f c 4; l = card_f c 5; cap = card_f c 6 in
      bindE (guardE (r < Fin 0 \<or> l < Fin 0 \<or> cap < Fin 0)
        (load_error (Ld23Negative ldtyp
           (if r < Fin 0 then ''resistance'' else if l < Fin 0 then ''inductance''
            else ''capacitance'') r l cap))) (\<lambda>_.
      if feq r (Fin 0) \<and> feq l (Fin 0) \<and> feq cap (Fin 0) then Inr p
      else
      bindE (mk_distributed_rlc (if ldtyp = 2 then ''series'' else ''parallel'') r l cap) (\<lambda>spec.
      if tag = 0 \<and> first = 0 then Inr (p\<lparr>ps_global_distributed := Some spec\<rparr>)
      else
      bindE (the_structure builders p) (\<lambda>(s, p').
      bindE (ld_segment_range s tag first last_seg) (\<lambda>range.
      bindE (cell_rule s (ps_load_spec_at p') range None) (\<lambda>pairs.
      bindE (firstE (partial_wire s (load_error (Ld23PartialWire ldtyp))) (by_wire pairs)) (\<lambda>_.
        Inr (p'\<lparr>ps_wire_distributed :=
          foldl (\<lambda>d (i, _). AList.update i spec d) (ps_wire_distributed p') (by_wire pairs)\<rparr>))))))))"

definition ld5 ::
  "(string \<Rightarrow> builder option) \<Rightarrow> int \<Rightarrow> int \<Rightarrow> int \<Rightarrow> flt \<Rightarrow> flt \<Rightarrow> 'a parser_scheme
    \<Rightarrow> pyexn + 'a parser_scheme" where
  "ld5 builders tag first last_seg sigma mu p =
     bindE (guardE (\<not> feq mu (Fin 0) \<and> \<not> feq mu (Fin 1)) (load_error (Ld5Permeability mu))) (\<lambda>_.
     if tag = 0 \<and> first = 0 then Inr (p\<lparr>ps_global_conductivity := Some sigma\<rparr>)
     else
     bindE (the_structure builders p) (\<lambda>(s, p').
     bindE (ld_segment_range s tag first last_seg) (\<lambda>range.
     bindE (cell_rule s (ps_load_spec_at p') range None) (\<lambda>pairs.
     bindE (firstE (partial_wire s (load_error Ld5PartialWire)) (by_wire pairs)) (\<lambda>_.
       Inr (p'\<lparr>ps_wire_conductivity :=
         foldl (\<lambda>d (i, _). AList.update i sigma d) (ps_wire_conductivity p') (by_wire pairs)\<rparr>))))))"

section \<open>LD\<close>

definition ld_card ::
  "(string \<Rightarrow> builder option) \<Rightarrow> card \<Rightarrow> 'a parser_scheme \<Rightarrow> pyexn + 'a parser_scheme" where
  "ld_card builders c p =
     bindE (card_i c 0) (\<lambda>ldtyp.
     if ldtyp = -1 then Inr (discard_loads p)
     else
     bindE (guardE (ldtyp \<notin> {0, 1, 2, 3, 4, 5}) (load_error (LdType ldtyp))) (\<lambda>_.
     bindE (card_i c 1) (\<lambda>tag. bindE (card_i c 2) (\<lambda>first. bindE (card_i c 3) (\<lambda>last_seg.
     if ldtyp = 2 \<or> ldtyp = 3 then ld23 builders ldtyp tag first last_seg c p
     else if ldtyp = 5 then ld5 builders tag first last_seg (card_f c 4) (card_f c 5) p
     else
     bindE (the_structure builders p) (\<lambda>(s, p').
     bindE (ld_segment_range s tag first last_seg) (\<lambda>pairs.
     bindE (guardE (length pairs > ld_expand_max) (load_error (LdTooManySegments (length pairs)))) (\<lambda>_.
     case lumped_spec ldtyp c of
       None \<Rightarrow> Inr p'
     | Some spec \<Rightarrow>
         bindE (cell_rule s (ps_load_spec_at p') pairs (Some spec)) (\<lambda>reached.
         bindE (foldE (ld_segment s spec) ({}, p') reached) (\<lambda>(_, p''). Inr p''))))))))))"

section \<open>IS\<close>

definition is_radius_check :: "nec2_structure \<Rightarrow> flt \<Rightarrow> nat \<times> int set \<Rightarrow> pyexn option" where
  "is_radius_check s radius ws =
     (if radius \<le> fw_radius (st_wires s ! fst ws) then Some (load_error IsRadius) else None)"

definition is_card ::
  "(string \<Rightarrow> builder option) \<Rightarrow> card \<Rightarrow> 'a parser_scheme \<Rightarrow> pyexn + 'a parser_scheme" where
  "is_card builders c p =
     bindE (guardE (ps_executed p \<noteq> 0) (load_error IsAfterExecute)) (\<lambda>_.
     bindE (card_i c 1) (\<lambda>tag. bindE (card_i c 2) (\<lambda>first. bindE (card_i c 3) (\<lambda>last_seg.
     let eps_r = card_f c 4; sigma = card_f c 5; radius = card_f c 6 in
     bindE (guardE (\<not> feq sigma (Fin 0)) (load_error IsConductiveSheath)) (\<lambda>_.
     if radius \<le> Fin 0 \<or> eps_r \<le> Fin 1 then Inr p
     else
     bindE (the_structure builders p) (\<lambda>(s, p').
     bindE (guardE (st_symmetry s \<noteq> None) (load_error IsSymmetricCell)) (\<lambda>_.
     bindE (ld_segment_range s tag first last_seg) (\<lambda>pairs.
     bindE (firstE (partial_wire s (load_error IsPartialWire)) (by_wire pairs)) (\<lambda>_.
     bindE (firstE (is_radius_check s radius) (by_wire pairs)) (\<lambda>_.
       Inr (p'\<lparr>ps_wire_insulation :=
         foldl (\<lambda>m (i, _). m(i \<mapsto> (radius, eps_r))) (ps_wire_insulation p') (by_wire pairs)\<rparr>)))))))))))"

end
