(* ===== verification/Nec2.thy ===== *)
theory Nec2
  imports Nec2_Loads
begin

text \<open>
  \<open>src/src/momwire/deck/_nec2.py\<close>, third part: the execute cards, the loop over the
  deck's lines, and the model.  What a dialect overrides (class attributes and methods of
  \<open>_Nec2Parser\<close>) is the record \<open>hooks\<close>, the first argument of what calls it.
\<close>

record 'a hooks =
  hk_geometry_mnemonics :: "string list"
  hk_refused_by_name :: "string list"
  hk_builders :: "string \<Rightarrow> builder option"
  hk_ld_run_transparent :: "string list"
  hk_near_coordinates :: "card \<Rightarrow> pyexn + int"
  hk_unarmed_execute :: "card \<Rightarrow> 'a parser_scheme \<Rightarrow> pyexn + unit"
  hk_geometry :: "card \<Rightarrow> 'a parser_scheme \<Rightarrow> pyexn + 'a parser_scheme"
  hk_gn :: "card \<Rightarrow> 'a parser_scheme \<Rightarrow> pyexn + 'a parser_scheme"
  hk_ex :: "card \<Rightarrow> 'a parser_scheme \<Rightarrow> pyexn + 'a parser_scheme"
  hk_ek :: "card \<Rightarrow> 'a parser_scheme \<Rightarrow> pyexn + 'a parser_scheme"
  hk_ld :: "card \<Rightarrow> 'a parser_scheme \<Rightarrow> pyexn + 'a parser_scheme"

definition unarmed_execute :: "card \<Rightarrow> 'a parser_scheme \<Rightarrow> pyexn + unit" where
  "unarmed_execute c p = Inr ()"

definition nec2_hooks :: "'a hooks" where
  "nec2_hooks =
     \<lparr>hk_geometry_mnemonics = geometry_cards, hk_refused_by_name = refused_by_name,
      hk_builders = geometry_builders, hk_ld_run_transparent = ld_run_transparent,
      hk_near_coordinates = near_coordinates, hk_unarmed_execute = unarmed_execute,
      hk_geometry = geometry_card geometry_builders, hk_gn = gn_card, hk_ex = ex_card,
      hk_ek = ek_card, hk_ld = ld_card geometry_builders\<rparr>"

section \<open>Execution\<close>

definition material_state :: "'a parser_scheme \<Rightarrow> material_state" where
  "material_state p =
     (ps_global_conductivity p, sort_key fst (ps_wire_conductivity p),
      ps_global_distributed p, sort_key fst (ps_wire_distributed p))"

definition pending :: "request option \<Rightarrow> 'a parser_scheme \<Rightarrow> pending_group" where
  \<comment> \<open>the group an execute card runs\<close>
  "pending req p =
     (let refilled = ps_fresh_fr p \<or> ps_executed p = 0 in
      \<lparr>pg_sources = ps_sources p,
       pg_frequencies = (if ps_fresh_fr p then ps_frequencies p
                         else drop (length (ps_frequencies p) - 1) (ps_frequencies p)),
       pg_request = req, pg_print_control = ps_print_control p,
       pg_extended_kernel = ps_extended_kernel p, pg_multiprocessing = ps_multiprocessing p,
       pg_environment = \<lparr>env_ground = ps_ground p, env_ground_z = Fin 0,
                         env_second_medium = ps_second_medium p\<rparr>,
       pg_refilled = refilled, pg_refilled_partial = (ps_operator_dirty p \<and> \<not> refilled),
       pg_loads = ps_live p, pg_materials = material_state p\<rparr>)"

definition execute :: "'a hooks \<Rightarrow> card \<Rightarrow> 'a parser_scheme \<Rightarrow> pyexn + 'a parser_scheme" where
  "execute h c p =
     (if \<not> ps_armed p \<and> ps_executed p \<noteq> 0
      then bindE (hk_unarmed_execute h c p) (\<lambda>_. Inr (p\<lparr>ps_groups := ps_groups p @ [None]\<rparr>))
      else
      bindE (if mnemonic c = ''RP''
             then bindE (far_field c p) (\<lambda>r. Inr (Some (FarField r)))
             else if mnemonic c = ''NE'' \<or> mnemonic c = ''NH''
             then bindE (near_field (hk_near_coordinates h) c p) (\<lambda>r. Inr (Some (NearField r)))
             else Inr None) (\<lambda>req.
        Inr (p\<lparr>ps_groups := ps_groups p @ [Some (pending req p)],
               ps_executed := ps_executed p + 1, ps_fresh_fr := False,
               ps_operator_dirty := False, ps_armed := False, ps_sources_stale := True\<rparr>)))"

section \<open>One card\<close>

definition ld_run_step :: "'a hooks \<Rightarrow> card \<Rightarrow> 'a parser_scheme \<Rightarrow> 'a parser_scheme" where
  "ld_run_step h c p =
     (if mnemonic c = ''LD''
      then (if ps_ld_run_open p then p else discard_loads p)\<lparr>ps_ld_run_open := True\<rparr>
      else if mnemonic c \<notin> set (hk_ld_run_transparent h) then p\<lparr>ps_ld_run_open := False\<rparr>
      else p)"

definition comment_card :: "card \<Rightarrow> 'a parser_scheme \<Rightarrow> pyexn + 'a parser_scheme" where
  "comment_card c p =
     (let body = card_text c; p1 = p\<lparr>ps_comments := ps_comments p @ [body]\<rparr> in
      bindE (directive body ''QQ'') (\<lambda>qq.
      let p2 = (case qq of Some n \<Rightarrow> if n > 0 then p1\<lparr>ps_quiet := True\<rparr> else p1 | None \<Rightarrow> p1) in
      bindE (directive body ''FF'') (\<lambda>ff.
        Inr (case ff of Some n \<Rightarrow> p2\<lparr>ps_reduced_field := Some n\<rparr> | None \<Rightarrow> p2))))"

definition arm_step :: "card \<Rightarrow> 'a parser_scheme \<Rightarrow> 'a parser_scheme" where
  "arm_step c p =
     (if mnemonic c \<in> set arming_cards
      then (let p' = p\<lparr>ps_armed := True\<rparr> in
            if mnemonic c \<in> set operator_cards \<and> ps_executed p \<noteq> 0
            then p'\<lparr>ps_operator_dirty := True\<rparr> else p')
      else p)"

definition destroyer_step :: "card \<Rightarrow> 'a parser_scheme \<Rightarrow> 'a parser_scheme" where
  "destroyer_step c p =
     (if ps_networks p \<noteq> [] \<and> mnemonic c \<notin> set network_transparent \<and>
         ps_network_destroyer p = None
      then p\<lparr>ps_network_destroyer := Some (mnemonic c)\<rparr> else p)"

definition dispatch :: "'a hooks \<Rightarrow> card \<Rightarrow> 'a parser_scheme \<Rightarrow> pyexn + 'a parser_scheme" where
  "dispatch h c p =
     (let m = mnemonic c in
      if m \<in> set (hk_geometry_mnemonics h) then hk_geometry h c p
      else if m = ''GN'' then hk_gn h c p
      else if m = ''GD'' then gd_card c p
      else if m = ''FR'' then fr_card c p
      else if m = ''EX'' then hk_ex h c p
      else if m = ''LD'' then hk_ld h c p
      else if m = ''IS'' then is_card (hk_builders h) c p
      else if m = ''EK'' then hk_ek h c p
      else if m = ''PT'' then bindE (print_control_card (hk_builders h) c p) (\<lambda>(pc, p').
                               Inr (p'\<lparr>ps_print_control := Some pc\<rparr>))
      else if m = ''PQ'' then bindE (pq c) (\<lambda>_. Inr p)
      else if m = ''MP'' then bindE (multiprocessing_card c) (\<lambda>mp.
                               Inr (p\<lparr>ps_multiprocessing := Some mp\<rparr>))
      else if m \<in> set execute_cards then execute h c p
      else Inl (deck_error (UnrecognisedCard m)))"

definition read_card :: "'a hooks \<Rightarrow> card \<Rightarrow> 'a parser_scheme \<Rightarrow> pyexn + 'a parser_scheme" where
  "read_card h c p0 =
     (let p1 = ld_run_step h c p0; m = mnemonic c in
      if m = ''CM'' \<or> m = ''CE'' then comment_card c p1
      else if m \<in> set (hk_refused_by_name h) then Inl (deck_error (RefusedByName m))
      else let p2 = arm_step c p1 in
      if m \<in> set network_cards then network (hk_builders h) c p2
      else let p3 = destroyer_step c p2 in
      bindE (if m = ''GW'' then gw_field_refusal c else Inr None) (\<lambda>why.
      case why of
        Some r \<Rightarrow> Inl (DeckError r)
      | None \<Rightarrow> dispatch h c p3))"

section \<open>The loop\<close>

definition named_refusal :: "'a hooks \<Rightarrow> string \<Rightarrow> pyexn option" where
  "named_refusal h line =
     (case split_ws (replace_char CHR '','' CHR '' '' (strip line)) of
        [] \<Rightarrow> None
      | head # _ \<Rightarrow> if upper head \<in> set (hk_refused_by_name h)
                    then Some (deck_error (RefusedByName (upper head))) else None)"

fun feed_lines :: "'a hooks \<Rightarrow> string list \<Rightarrow> 'a parser_scheme \<Rightarrow> pyexn + 'a parser_scheme" where
  "feed_lines h [] p = Inr p"
| "feed_lines h (line # rest) p =
     (case named_refusal h line of
        Some e \<Rightarrow> Inl e
      | None \<Rightarrow> bindE (parse_card line) (\<lambda>o'.
          case o' of
            None \<Rightarrow> feed_lines h rest p
          | Some c \<Rightarrow> if mnemonic c \<in> set terminators then Inr p
                      else bindE (read_card h c p) (feed_lines h rest)))"

definition feed :: "'a hooks \<Rightarrow> string \<Rightarrow> 'a parser_scheme \<Rightarrow> pyexn + 'a parser_scheme" where
  "feed h deck p =
     bindE (feed_lines h (splitlines deck) p) (\<lambda>p'.
     bindE (the_structure (hk_builders h) p') (\<lambda>(_, p''). Inr p''))"

section \<open>The model\<close>

definition material_for ::
  "nec2_structure \<Rightarrow> (nat \<rightharpoonup> flt \<times> flt) \<Rightarrow> nat \<Rightarrow> material_state \<Rightarrow> pyexn + wire_material option" where
  "material_for s insulations wire st =
     (case st of (global_conductivity, wire_conductivity, global_distributed, wire_distributed) \<Rightarrow>
      let conductivity = (case map_of wire_conductivity wire of
                            Some v \<Rightarrow> Some v | None \<Rightarrow> global_conductivity);
          insulation = insulations wire;
          distributed = (case map_of wire_distributed wire of
                           Some v \<Rightarrow> Some v | None \<Rightarrow> global_distributed)
      in bindE (case distributed of
                  None \<Rightarrow> Inr None
                | Some d \<Rightarrow>
                    if \<not> feq (drlc_c d) (Fin 0)
                    then (let w = st_wires s ! wire; len = flat_length w / fint (fw_n_seg w) in
                          bindE (mk_distributed_rlc (drlc_kind d) (drlc_r d) (drlc_l d)
                                   (drlc_c d * len * len)) (\<lambda>d'. Inr (Some d')))
                    else Inr (Some d)) (\<lambda>dist.
         if conductivity = None \<and> insulation = None \<and> dist = None then Inr None
         else bindE (mk_wire_material
                \<lparr>wm_conductivity = conductivity,
                 wm_insulation_radius = map_option fst insulation,
                 wm_insulation_eps_r = map_option snd insulation,
                 wm_distributed_rlc = dist, wm_loss_tangent = None\<rparr>) (\<lambda>m. Inr (Some m))))"

definition place_of :: "nat list \<Rightarrow> nat \<rightharpoonup> nat" where
  "place_of used i = index_of (\<lambda>j. j = i) used"

definition lookupE :: "('k \<rightharpoonup> 'v) \<Rightarrow> 'k \<Rightarrow> pyexn + 'v" where
  "lookupE m k = (case m k of None \<Rightarrow> Inl KeyError | Some v \<Rightarrow> Inr v)"

definition loads_and_materials ::
  "'a parser_scheme \<Rightarrow> pyexn + (nat \<times> flt \<times> load_spec) list \<times> nat list \<times> material_state" where
  \<comment> \<open>the load union, the log indices it is of (in order: the dict \<open>place\<close>), and the
     materials\<close>
  "loads_and_materials p =
     (let ran = List.map_filter id (ps_groups p);
          used = sort (remdups (if ran = [] then ps_live p else concat (map pg_loads ran)));
          states = (if ran = [] then [material_state p] else map pg_materials ran)
      in bindE (guardE (list_ex (\<lambda>st. st \<noteq> hd states) (tl states)) (load_error MaterialChanges))
           (\<lambda>_. Inr (map ((!) (ps_load_log p)) used, used, hd states)))"

record feed_union =
  fu_order :: "(int \<times> int) list"
  fu_resolved :: "(nat \<times> flt) list"
  fu_volts :: "cplx list"

definition feed_source ::
  "nec2_structure \<Rightarrow> feed_union \<Rightarrow> int \<times> int \<times> cplx \<Rightarrow> pyexn + feed_union" where
  \<comment> \<open>the body of the first loop of \<open>_feeds_and_groups\<close>\<close>
  "feed_source s u src =
     (case src of (tag, seg, volts) \<Rightarrow>
        if (tag, seg) \<in> set (fu_order u) then Inr u
        else bindE (resolve s tag seg) (\<lambda>r.
          Inr \<lparr>fu_order = fu_order u @ [(tag, seg)], fu_resolved = fu_resolved u @ [r],
               fu_volts = fu_volts u @ [volts]\<rparr>))"

definition all_sources :: "'a parser_scheme \<Rightarrow> (int \<times> int \<times> cplx) list" where
  "all_sources p = concat (map pg_sources (List.map_filter id (ps_groups p)))"

definition voltage_step ::
  "(int \<times> int) list \<Rightarrow> cplx list \<Rightarrow> int \<times> int \<times> cplx \<Rightarrow> pyexn + cplx list" where
  "voltage_step order vs src =
     (case src of (tag, seg, volts) \<Rightarrow>
        bindE (lookupE (\<lambda>k. index_of (\<lambda>j. j = k) order) (tag, seg)) (\<lambda>i. Inr (vs[i := volts])))"

definition final_group ::
  "(int \<times> int) list \<Rightarrow> nat list \<Rightarrow> pending_group option \<Rightarrow> pyexn + execute_group option" where
  "final_group order used g =
     (case g of
        None \<Rightarrow> Inr None
      | Some pg \<Rightarrow>
          bindE (foldE (voltage_step order) (replicate (length order) (Fin 0, Fin 0))
                   (pg_sources pg)) (\<lambda>vs.
          bindE (mapE (lookupE (place_of used)) (pg_loads pg)) (\<lambda>ls.
            Inr (Some \<lparr>eg_frequencies = pg_frequencies pg, eg_voltages = vs,
              eg_request = pg_request pg, eg_print_control = pg_print_control pg,
              eg_extended_kernel = pg_extended_kernel pg,
              eg_multiprocessing = pg_multiprocessing pg, eg_refilled = pg_refilled pg,
              eg_refilled_partial = pg_refilled_partial pg,
              eg_environment = pg_environment pg, eg_loads = Some (sort ls)\<rparr>))))"

definition feeds_and_groups ::
  "nec2_structure \<Rightarrow> nat list \<Rightarrow> 'a parser_scheme
    \<Rightarrow> pyexn + (nat \<times> flt \<times> cplx) list \<times> execute_group option list" where
  "feeds_and_groups s used p =
     bindE (foldE (feed_source s) \<lparr>fu_order = [], fu_resolved = [], fu_volts = []\<rparr>
              (all_sources p)) (\<lambda>u.
     bindE (mapE (final_group (fu_order u) used) (ps_groups p)) (\<lambda>groups.
       Inr (map (\<lambda>((wire, a), v). (wire, a, v)) (zip (fu_resolved u) (fu_volts u)), groups)))"

definition z_of :: "point \<Rightarrow> flt" where
  "z_of p = snd (snd p)"

definition contact_tolerance :: "flat_wire \<Rightarrow> flt" where
  "contact_tolerance w = smin * (flat_length w / fint (fw_n_seg w))"

definition meeting_ends :: "flat_wire list \<Rightarrow> point \<Rightarrow> flt \<Rightarrow> (flt \<times> flt) list" where
  \<comment> \<open>per wire end at the point, the wire's tolerance and the height of its other end\<close>
  "meeting_ends ws pt tol =
     concat (map (\<lambda>w. let tol_w = fmax tol (contact_tolerance w) in
       map (\<lambda>(_, other). (tol_w, z_of other))
         (filter (\<lambda>(e, _). list_all (\<lambda>k. fabs (axis_get k e - axis_get k pt) \<le> tol_w) [0, 1, 2])
            [(fw_p1 w, fw_p2 w), (fw_p2 w, fw_p1 w)])) ws)"

definition crossing_junction_at :: "flat_wire list \<Rightarrow> point \<Rightarrow> flt \<Rightarrow> bool" where
  "crossing_junction_at ws pt tol \<longleftrightarrow>
     list_ex (\<lambda>(t, z). t < z) (meeting_ends ws pt tol) \<and>
     list_ex (\<lambda>(t, z). \<not> t < z \<and> z < - t) (meeting_ends ws pt tol)"

definition contact_refusal :: "flat_wire list \<Rightarrow> flat_wire \<times> point \<Rightarrow> pyexn option" where
  "contact_refusal ws wp =
     (case wp of (w, pt) \<Rightarrow>
        let tol = contact_tolerance w in
        if fabs (z_of pt) \<le> tol \<and> \<not> crossing_junction_at ws pt tol
        then Some (deck_error (GroundContact (fw_tag w) (z_of pt))) else None)"

definition grounded :: "execute_group option list \<Rightarrow> 'a parser_scheme \<Rightarrow> bool" where
  "grounded groups p \<longleftrightarrow>
     list_ex (\<lambda>g. case g of None \<Rightarrow> False | Some g' \<Rightarrow> env_ground (eg_environment g') \<noteq> NoGround)
       groups \<or>
     groups = [] \<and> ps_ground p \<noteq> NoGround"

definition model_wire ::
  "nec2_structure \<Rightarrow> (nat \<rightharpoonup> flt \<times> flt) \<Rightarrow> material_state \<Rightarrow> piece \<Rightarrow> pyexn + deck_wire" where
  "model_wire s insulations materials pc =
     bindE (material_for s insulations (pi_wire pc) materials) (\<lambda>m.
       mk_deck_wire \<lparr>dw_vertices = [pi_p1 pc, pi_p2 pc],
         dw_radius = fw_radius (st_wires s ! pi_wire pc),
         dw_edge_elements = [pi_n_seg pc], dw_material = m\<rparr>)"

definition model :: "'a hooks \<Rightarrow> 'a parser_scheme \<Rightarrow> pyexn + deck_model" where
  "model h p0 =
     bindE (guardE (\<not> ps_saw_ex p0) (deck_error NoExCard)) (\<lambda>_.
     bindE (the_structure (hk_builders h) p0) (\<lambda>(s, p).
     bindE (loads_and_materials p) (\<lambda>(loads, used, materials).
     bindE (mapE (model_wire s (ps_wire_insulation p) materials) (st_pieces s)) (\<lambda>wires.
     bindE (feeds_and_groups s used p) (\<lambda>(feeds, groups).
     bindE (if st_ground_plane_flag s \<and> \<not> st_ground_plane_interpolates s \<and> grounded groups p
            then firstE (contact_refusal (st_wires s))
                   (concat (map (\<lambda>w. [(w, fw_p1 w), (w, fw_p2 w)]) (st_wires s)))
            else Inr ()) (\<lambda>_.
       Inr \<lparr>dm_wires = wires, dm_feeds = feeds, dm_node_gaps = [], dm_loads = loads,
            dm_ground = ps_ground p, dm_ground_z = Fin 0,
            dm_second_medium = ps_second_medium p,
            dm_ground_plane_flag = st_ground_plane_flag s,
            dm_ground_plane_interpolates = st_ground_plane_interpolates s,
            dm_groups = groups, dm_comments = ps_comments p, dm_quiet = ps_quiet p,
            dm_reduced_field = ps_reduced_field p, dm_deferred = [],
            dm_networks = ps_networks p, dm_current_feeds = [],
            dm_extended_kernel_default = False, dm_junction_rule = ''nec2''\<rparr>))))))"

definition parse_nec2 :: "string \<Rightarrow> pyexn + deck_model" where
  "parse_nec2 deck =
     bindE (feed nec2_hooks deck init_parser) (\<lambda>p. model nec2_hooks p)"

end
