(* ===== verification/Union_Find.thy ===== *)
theory Union_Find
  imports Connections
begin

text \<open>
  The union-find of \<open>snap_connections\<close>: the interface \<open>clusters\<close> its client relies
  on (a find that returns a representative and changes none, a union that merges two
  classes), the client's lemma that the classes after a list of unions are those of the
  least equivalence containing it, and the proof that the code's array with path halving
  meets the interface, with fuel that never runs out.
\<close>

section \<open>The interface\<close>

definition link_rel :: "(nat \<times> nat) list \<Rightarrow> (nat \<times> nat) set" where
  "link_rel ls = (set ls \<union> (set ls)\<inverse>)\<^sup>*"

lemma link_rel_sym: "(x, y) \<in> link_rel ls \<Longrightarrow> (y, x) \<in> link_rel ls"
proof -
  have "sym (link_rel ls)"
    unfolding link_rel_def by (intro sym_rtrancl sym_Un_converse)
  then show "(x, y) \<in> link_rel ls \<Longrightarrow> (y, x) \<in> link_rel ls"
    by (rule symD)
qed

lemma link_rel_trans: "(x, y) \<in> link_rel ls \<Longrightarrow> (y, z) \<in> link_rel ls \<Longrightarrow> (x, z) \<in> link_rel ls"
  unfolding link_rel_def by (rule rtrancl_trans)

lemma link_rel_refl [simp]: "(x, x) \<in> link_rel ls"
  by (simp add: link_rel_def)

lemma link_rel_link: "(x, y) \<in> set ls \<Longrightarrow> (x, y) \<in> link_rel ls"
  by (auto simp: link_rel_def)

lemma link_rel_mono: "set ls \<subseteq> set ms \<Longrightarrow> link_rel ls \<subseteq> link_rel ms"
  unfolding link_rel_def by (intro rtrancl_mono) auto

locale clusters =
  fixes ok :: "nat \<Rightarrow> 'p \<Rightarrow> bool"
    and rep :: "'p \<Rightarrow> nat \<Rightarrow> nat"
    and link :: "'p \<Rightarrow> nat \<times> nat \<Rightarrow> pyexn + 'p"
  assumes link_ok:
    "\<lbrakk>ok n p; k < n; j < n\<rbrakk> \<Longrightarrow> \<exists>p'. link p (k, j) = Inr p' \<and> ok n p' \<and>
       (\<forall>x < n. rep p' x = (if rep p x = rep p j then rep p k else rep p x))"
begin

lemma links_ok:
  assumes "ok n p" "set ls \<subseteq> {..<n} \<times> {..<n}"
  shows "\<exists>p'. foldE link p ls = Inr p' \<and> ok n p' \<and>
    (\<forall>x < n. \<forall>y < n. rep p x = rep p y \<longrightarrow> rep p' x = rep p' y) \<and>
    (\<forall>(k, j) \<in> set ls. rep p' k = rep p' j)"
  using assms
proof (induction ls arbitrary: p)
  case (Cons kj ls)
  obtain k j where kj: "kj = (k, j)" "k < n" "j < n"
    using Cons.prems(2) by (cases kj) auto
  obtain p1 where p1: "link p kj = Inr p1" "ok n p1"
    and rep1: "\<forall>x < n. rep p1 x = (if rep p x = rep p j then rep p k else rep p x)"
    using link_ok [OF Cons.prems(1) kj(2,3)] kj(1) by auto
  obtain p' where p': "foldE link p1 ls = Inr p'" "ok n p'"
    and keep: "\<forall>x < n. \<forall>y < n. rep p1 x = rep p1 y \<longrightarrow> rep p' x = rep p' y"
    and linked: "\<forall>(k, j) \<in> set ls. rep p' k = rep p' j"
    using Cons.IH [OF p1(2)] Cons.prems(2) by auto
  have "rep p1 k = rep p1 j"
    using rep1 kj by simp
  with keep kj have kj_linked: "rep p' k = rep p' j" by blast
  have all: "\<forall>(k, j) \<in> set (kj # ls). rep p' k = rep p' j"
    unfolding list.set ball_simps kj(1) prod.case using kj_linked linked by (rule conjI)
  have "rep p1 x = rep p1 y" if "x < n" "y < n" "rep p x = rep p y" for x y
    using rep1 that by simp
  with keep have "\<forall>x < n. \<forall>y < n. rep p x = rep p y \<longrightarrow> rep p' x = rep p' y"
    by blast
  moreover have "foldE link p (kj # ls) = Inr p'"
    using p1(1) p'(1) by simp
  ultimately show ?case
    using p'(2) all by (intro exI [of _ p'] conjI)
qed simp

lemma links_least:
  assumes "ok n p" "set ls \<subseteq> {..<n} \<times> {..<n}" "foldE link p ls = Inr p'"
    and "x < n" "y < n" "rep p' x = rep p' y"
    and "\<And>x y. x < n \<Longrightarrow> y < n \<Longrightarrow> rep p x = rep p y \<Longrightarrow> (x, y) \<in> link_rel done"
  shows "(x, y) \<in> link_rel (done @ ls)"
  using assms
proof (induction ls arbitrary: p "done")
  case Nil
  then show ?case by simp
next
  case (Cons kj ls)
  obtain k j where kj: "kj = (k, j)" "k < n" "j < n"
    using Cons.prems(2) by (cases kj) auto
  obtain p1 where p1: "link p kj = Inr p1" "ok n p1"
    and rep1: "\<forall>x < n. rep p1 x = (if rep p x = rep p j then rep p k else rep p x)"
    using link_ok [OF Cons.prems(1) kj(2,3)] kj(1) by auto
  have old: "(a, b) \<in> link_rel (done @ [kj])"
    if "a < n" "b < n" "rep p a = rep p b" for a b
    using link_rel_mono [of "done" "done @ [kj]"] Cons.prems(7) [OF that] by auto
  have kj_in: "(k, j) \<in> link_rel (done @ [kj])"
    using kj(1) by (intro link_rel_link) simp
  have new: "(a, b) \<in> link_rel (done @ [kj])"
    if "a < n" "b < n" "rep p1 a = rep p1 b" for a b
  proof -
    have "(c, if rep p c = rep p j then k else c) \<in> link_rel (done @ [kj])" if "c < n" for c
      using old [OF that kj(3)] link_rel_sym [OF kj_in] link_rel_trans by auto
    from this [OF \<open>a < n\<close>] this [OF \<open>b < n\<close>]
    show ?thesis
      using that rep1 old [of "if rep p a = rep p j then k else a" "if rep p b = rep p j then k else b"]
        kj(2) by (auto split: if_splits intro: link_rel_trans link_rel_sym)
  qed
  have "(x, y) \<in> link_rel ((done @ [kj]) @ ls)"
    by (rule Cons.IH [OF p1(2)]) (use Cons.prems p1(1) new in auto)
  then show ?case by simp
qed

end

section \<open>The array with path halving\<close>

definition uf_edges :: "nat list \<Rightarrow> (nat \<times> nat) set" where
  \<comment> \<open>(parent, child)\<close>
  "uf_edges p = {(p ! x, x) | x. x < length p \<and> p ! x \<noteq> x}"

definition uf_ok :: "nat \<Rightarrow> nat list \<Rightarrow> bool" where
  "uf_ok n p \<longleftrightarrow> length p = n \<and> (\<forall>x < n. p ! x < n) \<and> acyclic (uf_edges p)"

definition uf_rank :: "nat list \<Rightarrow> nat \<Rightarrow> nat" where
  "uf_rank p x = card {y. (y, x) \<in> (uf_edges p)\<^sup>+}"

lemma uf_edges_bound: "uf_ok n p \<Longrightarrow> uf_edges p \<subseteq> {..<n} \<times> {..<n}"
  by (auto simp: uf_edges_def uf_ok_def)

lemma uf_anc_subset: "uf_ok n p \<Longrightarrow> {y. (y, x) \<in> (uf_edges p)\<^sup>+} \<subseteq> {..<n} - {x}"
  using trancl_subset_Sigma [OF uf_edges_bound] by (fastforce simp: uf_ok_def acyclic_def)

lemma uf_rank_less_n:
  assumes "uf_ok n p" "x < n"
  shows "uf_rank p x < n"
proof -
  have "uf_rank p x \<le> card ({..<n} - {x})"
    unfolding uf_rank_def using uf_anc_subset [OF assms(1)] by (intro card_mono) auto
  with assms(2) show ?thesis by simp
qed

lemma uf_rank_edge:
  assumes "uf_ok n p" "(y, x) \<in> (uf_edges p)\<^sup>+"
  shows "uf_rank p y < uf_rank p x"
  unfolding uf_rank_def
proof (rule psubset_card_mono)
  show "finite {z. (z, x) \<in> (uf_edges p)\<^sup>+}"
    using uf_anc_subset [OF assms(1)] by (rule finite_subset) simp
  have "y \<notin> {z. (z, y) \<in> (uf_edges p)\<^sup>+}"
    using assms(1) by (auto simp: uf_ok_def acyclic_def)
  with assms(2) show "{z. (z, y) \<in> (uf_edges p)\<^sup>+} \<subset> {z. (z, x) \<in> (uf_edges p)\<^sup>+}"
    by (auto intro: trancl_trans)
qed

lemma uf_rank_mono:
  assumes "uf_ok n p" "uf_edges q \<subseteq> (uf_edges p)\<^sup>+"
  shows "uf_rank q x \<le> uf_rank p x"
proof -
  have "(uf_edges q)\<^sup>+ \<subseteq> (uf_edges p)\<^sup>+"
    using trancl_mono_subset [OF assms(2)] by simp
  then show ?thesis
    unfolding uf_rank_def using finite_subset [OF uf_anc_subset [OF assms(1)]]
    by (intro card_mono) auto
qed

text \<open>The representative of a node: its ancestor past every proper one.\<close>

definition uf_rep :: "nat list \<Rightarrow> nat \<Rightarrow> nat" where
  "uf_rep p x = ((!) p ^^ length p) x"

lemma uf_climb:
  assumes "uf_ok n p" "x < n"
  shows "((!) p ^^ k) x < n \<and>
    (p ! (((!) p ^^ k) x) = ((!) p ^^ k) x \<or> uf_rank p (((!) p ^^ k) x) + k \<le> uf_rank p x)"
proof (induction k)
  case 0
  then show ?case using assms(2) by simp
next
  case (Suc k)
  let ?y = "((!) p ^^ k) x"
  have y: "?y < n" "p ! ?y < n"
    using Suc.IH assms(1) by (auto simp: uf_ok_def)
  show ?case
  proof (cases "p ! ?y = ?y")
    case True
    with y show ?thesis by simp
  next
    case False
    then have "(p ! ?y, ?y) \<in> uf_edges p"
      using y assms(1) by (auto simp: uf_edges_def uf_ok_def)
    then have "uf_rank p (p ! ?y) < uf_rank p ?y"
      using uf_rank_edge [OF assms(1)] by blast
    with Suc.IH False y show ?thesis by simp
  qed
qed

lemma uf_rep_less: "uf_ok n p \<Longrightarrow> x < n \<Longrightarrow> uf_rep p x < n"
  using uf_climb by (simp add: uf_rep_def)

lemma uf_rep_root: "uf_ok n p \<Longrightarrow> x < n \<Longrightarrow> p ! uf_rep p x = uf_rep p x"
  using uf_climb [of n p x "length p"] uf_rank_less_n [of n p x]
  by (auto simp: uf_rep_def uf_ok_def)

lemma uf_rep_of_root: "p ! r = r \<Longrightarrow> uf_rep p r = r"
proof -
  assume "p ! r = r"
  then have "((!) p ^^ k) r = r" for k by (induction k) simp_all
  then show ?thesis by (simp add: uf_rep_def)
qed

lemma uf_rep_parent: "uf_ok n p \<Longrightarrow> x < n \<Longrightarrow> uf_rep p (p ! x) = uf_rep p x"
  using uf_rep_root [of n p x] by (simp add: uf_rep_def flip: funpow_swap1)

definition labels :: "nat \<Rightarrow> nat list \<Rightarrow> (nat \<Rightarrow> 'b) \<Rightarrow> bool" where
  \<comment> \<open>\<open>g\<close> is constant along every parent link\<close>
  "labels n p g \<longleftrightarrow> (\<forall>x < n. g (p ! x) = g x)"

lemma labels_rep: "uf_ok n p \<Longrightarrow> labels n p (uf_rep p)"
  by (simp add: labels_def uf_rep_parent)

lemma labels_climb:
  assumes "uf_ok n p" "labels n p g" "x < n"
  shows "g (((!) p ^^ k) x) = g x"
proof (induction k)
  case (Suc k)
  have "((!) p ^^ k) x < n"
    using uf_climb [OF assms(1,3)] by blast
  with Suc assms(2) show ?case by (simp add: labels_def)
qed simp

lemma uf_rep_unique:
  assumes "uf_ok n p" "labels n p g" "\<And>r. r < n \<Longrightarrow> p ! r = r \<Longrightarrow> g r = r" "x < n"
  shows "uf_rep p x = g x"
  using labels_climb [OF assms(1,2,4), of "length p"] assms(3) [OF uf_rep_less uf_rep_root]
    assms(1,4) by (simp add: uf_rep_def)

subsection \<open>find\<close>

definition halve :: "nat list \<Rightarrow> nat \<Rightarrow> nat list" where
  "halve p x = p[x := p ! (p ! x)]"

lemma uf_find_Suc:
  "uf_find (Suc f) p x =
    (if p ! x = x then Some (p, x) else uf_find f (halve p x) (halve p x ! x))"
  by (simp add: halve_def Let_def)

lemma halve_nth: "x < length p \<Longrightarrow> halve p x ! y = (if y = x then p ! (p ! x) else p ! y)"
  by (simp add: halve_def)

lemma grandparent:
  assumes "uf_ok n p" "x < n" "p ! x \<noteq> x"
  shows "(p ! (p ! x), x) \<in> (uf_edges p)\<^sup>+"
proof -
  have e: "(p ! x, x) \<in> uf_edges p" and px: "p ! x < n"
    using assms by (auto simp: uf_edges_def uf_ok_def)
  show ?thesis
  proof (cases "p ! (p ! x) = p ! x")
    case False
    then have "(p ! (p ! x), p ! x) \<in> uf_edges p"
      using px assms(1) by (auto simp: uf_edges_def uf_ok_def)
    with e show ?thesis by (auto intro: trancl_trans)
  qed (use e in auto)
qed

lemma halve_edges:
  assumes "uf_ok n p" "x < n" "p ! x \<noteq> x"
  shows "uf_edges (halve p x) \<subseteq> (uf_edges p)\<^sup>+"
proof
  fix e
  assume e: "e \<in> uf_edges (halve p x)"
  have len: "x < length p"
    using assms by (simp add: uf_ok_def)
  from e obtain y where y: "e = (halve p x ! y, y)" "y < length (halve p x)" "halve p x ! y \<noteq> y"
    by (auto simp: uf_edges_def)
  show "e \<in> (uf_edges p)\<^sup>+"
  proof (cases "y = x")
    case True
    with y(1) show ?thesis
      using grandparent [OF assms] by (simp add: halve_nth [OF len])
  next
    case False
    with y have "e \<in> uf_edges p"
      by (auto simp: uf_edges_def halve_nth [OF len]) (simp add: halve_def)
    then show ?thesis by (rule r_into_trancl')
  qed
qed

lemma halve_ok:
  assumes "uf_ok n p" "x < n" "p ! x \<noteq> x"
  shows "uf_ok n (halve p x)"
proof -
  have "acyclic ((uf_edges p)\<^sup>+)"
    using assms(1) by (simp add: uf_ok_def acyclic_def)
  then have "acyclic (uf_edges (halve p x))"
    using halve_edges [OF assms] by (rule acyclic_subset)
  with assms show ?thesis
    by (auto simp: uf_ok_def halve_def nth_list_update)
qed

lemma halve_root:
  assumes "uf_ok n p" "x < n" "p ! x \<noteq> x"
  shows "halve p x ! y = y \<longleftrightarrow> p ! y = y"
proof -
  have "p ! (p ! x) \<noteq> x"
    using grandparent [OF assms] assms(1) by (auto simp: uf_ok_def acyclic_def)
  with assms show ?thesis
    by (auto simp: halve_nth uf_ok_def)
qed

lemma halve_labels:
  "uf_ok n p \<Longrightarrow> x < n \<Longrightarrow> labels n p g \<Longrightarrow> labels n (halve p x) g"
  by (auto simp: labels_def halve_nth uf_ok_def)

lemma uf_find_ok:
  assumes "uf_ok n p" "x < n" "uf_rank p x < f"
  shows "\<exists>p' r. uf_find f p x = Some (p', r) \<and> uf_ok n p' \<and> r < n \<and> p ! r = r \<and>
    (\<forall>y. p' ! y = y \<longleftrightarrow> p ! y = y) \<and> (\<forall>g :: nat \<Rightarrow> nat. labels n p g \<longrightarrow> labels n p' g \<and> g r = g x)"
  using assms
proof (induction f arbitrary: p x)
  case (Suc f)
  show ?case
  proof (cases "p ! x = x")
    case True
    with Suc.prems show ?thesis by simp
  next
    case False
    let ?q = "halve p x" and ?y = "halve p x ! x"
    have y: "?y = p ! (p ! x)" "?y < n"
      using Suc.prems by (auto simp: uf_ok_def halve_nth)
    have "uf_rank ?q ?y \<le> uf_rank p ?y"
      using uf_rank_mono [OF Suc.prems(1) halve_edges [OF Suc.prems(1,2) False]] .
    also have "\<dots> < uf_rank p x"
      using uf_rank_edge [OF Suc.prems(1) grandparent [OF Suc.prems(1,2) False]] y(1) by simp
    finally have "uf_rank ?q ?y < f"
      using Suc.prems(3) by simp
    from Suc.IH [OF halve_ok [OF Suc.prems(1,2) False] y(2) this]
    obtain p' r where IH: "uf_find f ?q ?y = Some (p', r)" "uf_ok n p'" "r < n" "?q ! r = r"
      "\<forall>y. p' ! y = y \<longleftrightarrow> ?q ! y = y"
      "\<forall>g :: nat \<Rightarrow> nat. labels n ?q g \<longrightarrow> labels n p' g \<and> g r = g ?y"
      by blast
    have "g ?y = g x" if "labels n p g" for g :: "nat \<Rightarrow> nat"
      using that Suc.prems y(1) by (simp add: labels_def uf_ok_def)
    then have lab: "\<forall>g :: nat \<Rightarrow> nat. labels n p g \<longrightarrow> labels n p' g \<and> g r = g x"
      using IH(6) halve_labels [OF Suc.prems(1,2)] by metis
    have "uf_find (Suc f) p x = Some (p', r)" "p ! r = r" "\<forall>y. p' ! y = y \<longleftrightarrow> p ! y = y"
      using IH False halve_root [OF Suc.prems(1,2) False] by (simp_all add: uf_find_Suc del: uf_find.simps)
    then show ?thesis
      using lab IH(2,3) by blast
  qed
qed simp

lemma find_root_ok:
  assumes "uf_ok n p" "x < n"
  obtains p' where "find_root p x = Inr (p', uf_rep p x)" "uf_ok n p'"
    "\<And>y. y < n \<Longrightarrow> uf_rep p' y = uf_rep p y"
proof -
  have "uf_rank p x < Suc (length p)"
    using uf_rank_less_n [OF assms] assms(1) by (simp add: uf_ok_def)
  from uf_find_ok [OF assms this] obtain p' r where
    find: "uf_find (Suc (length p)) p x = Some (p', r)" and ok: "uf_ok n p'" and r: "p ! r = r"
    and roots: "\<And>y. p' ! y = y \<longleftrightarrow> p ! y = y"
    and lab: "\<And>g :: nat \<Rightarrow> nat. labels n p g \<Longrightarrow> labels n p' g \<and> g r = g x"
    by blast
  have "uf_rep p r = uf_rep p x" "labels n p' (uf_rep p)"
    using lab [OF labels_rep [OF assms(1)]] by auto
  then have "uf_rep p x = r"
    using uf_rep_of_root [OF r] by simp
  moreover have "uf_rep p' y = uf_rep p y" if "y < n" for y
    using uf_rep_unique [OF ok \<open>labels n p' (uf_rep p)\<close> _ that] roots uf_rep_of_root by simp
  ultimately show thesis
    using find ok that by (simp add: find_root_def del: uf_find.simps)
qed

subsection \<open>union\<close>

lemma relink_ok:
  assumes "uf_ok n p" "rk < n" "rj < n" "p ! rk = rk" "p ! rj = rj"
  shows "uf_ok n (p[rj := rk])"
    and "x < n \<Longrightarrow> uf_rep (p[rj := rk]) x = (if uf_rep p x = rj then rk else uf_rep p x)"
proof -
  let ?q = "p[rj := rk]"
  have len: "length p = n"
    using assms(1) by (simp add: uf_ok_def)
  have nth: "?q ! y = (if y = rj then rk else p ! y)" for y
    using assms(3) len by (simp add: nth_list_update)
  have "acyclic (uf_edges ?q)"
  proof (cases "rk = rj")
    case True
    then have "?q = p" using assms(5) by (metis list_update_id)
    then show ?thesis using assms(1) by (simp add: uf_ok_def)
  next
    case False
    have "(rj, rk) \<notin> (uf_edges p)\<^sup>*"
    proof
      assume "(rj, rk) \<in> (uf_edges p)\<^sup>*"
      then show False
        using False assms(4) by (cases rule: rtranclE) (auto simp: uf_edges_def)
    qed
    then have "acyclic (insert (rk, rj) (uf_edges p))"
      using assms(1) by (simp add: acyclic_insert uf_ok_def)
    moreover have "uf_edges ?q \<subseteq> insert (rk, rj) (uf_edges p)"
      by (auto simp: uf_edges_def nth split: if_splits)
    ultimately show ?thesis by (rule acyclic_subset)
  qed
  with assms len show ok: "uf_ok n ?q"
    by (auto simp: uf_ok_def nth)
  let ?g = "\<lambda>x. if uf_rep p x = rj then rk else uf_rep p x"
  have "labels n ?q ?g"
    using assms uf_rep_parent [OF assms(1)] uf_rep_of_root [of p rk] uf_rep_of_root [of p rj]
    by (auto simp: labels_def nth)
  moreover have "?g r = r" if "r < n" "?q ! r = r" for r
    using that uf_rep_of_root [of p r] uf_rep_of_root [of p rj] assms(5) nth
    by (auto split: if_splits)
  ultimately show "x < n \<Longrightarrow> uf_rep ?q x = ?g x"
    using uf_rep_unique [OF ok] by blast
qed

lemma uf_link_ok:
  assumes "uf_ok n p" "k < n" "j < n"
  shows "\<exists>p'. uf_link p (k, j) = Inr p' \<and> uf_ok n p' \<and>
    (\<forall>x < n. uf_rep p' x = (if uf_rep p x = uf_rep p j then uf_rep p k else uf_rep p x))"
proof -
  obtain p1 where p1: "find_root p k = Inr (p1, uf_rep p k)" "uf_ok n p1"
    and rep1: "\<And>y. y < n \<Longrightarrow> uf_rep p1 y = uf_rep p y"
    using find_root_ok [OF assms(1,2)] by blast
  obtain p2 where p2: "find_root p1 j = Inr (p2, uf_rep p1 j)" "uf_ok n p2"
    and rep2: "\<And>y. y < n \<Longrightarrow> uf_rep p2 y = uf_rep p1 y"
    using find_root_ok [OF p1(2) assms(3)] by blast
  have roots: "p2 ! uf_rep p k = uf_rep p k" "p2 ! uf_rep p j = uf_rep p j"
    using uf_rep_root [OF p2(2)] assms rep1 rep2 by metis+
  have less: "uf_rep p k < n" "uf_rep p j < n"
    using uf_rep_less [OF assms(1)] assms by auto
  show ?thesis
    using relink_ok [OF p2(2) less roots] p1(1) p2(1) rep1 rep2 assms
    by (simp add: uf_link_def)
qed

lemma uf_init: "uf_ok n [0..<n]"
proof -
  have "uf_edges [0..<n] = {}"
    by (auto simp: uf_edges_def)
  then show ?thesis
    by (simp add: uf_ok_def acyclic_def)
qed

interpretation uf: clusters uf_ok uf_rep uf_link
  by unfold_locales (rule uf_link_ok)

lemma uf_rep_init: "x < n \<Longrightarrow> uf_rep [0..<n] x = x"
  by (intro uf_rep_of_root) simp

text \<open>Clustering a list of pairs never runs out of fuel, and two nodes get one
  representative exactly when the pairs connect them.\<close>

lemma links_cluster:
  assumes "set ls \<subseteq> {..<n} \<times> {..<n}"
  obtains p where "foldE uf_link [0..<n] ls = Inr p" "uf_ok n p"
    "\<And>x y. x < n \<Longrightarrow> y < n \<Longrightarrow> uf_rep p x = uf_rep p y \<longleftrightarrow> (x, y) \<in> link_rel ls"
proof -
  obtain p where p: "foldE uf_link [0..<n] ls = Inr p" "uf_ok n p"
    and linked: "\<forall>(k, j) \<in> set ls. uf_rep p k = uf_rep p j"
    using uf.links_ok [OF uf_init assms] by blast
  have "uf_rep p x = uf_rep p y" if "(x, y) \<in> link_rel ls" for x y
    using that unfolding link_rel_def
    by (induction rule: rtrancl_induct) (use linked in \<open>auto split: prod.splits\<close>)
  moreover have "(x, y) \<in> link_rel ls" if "x < n" "y < n" "uf_rep p x = uf_rep p y" for x y
  proof -
    have "(x, y) \<in> link_rel ([] @ ls)"
      by (rule uf.links_least [OF uf_init assms p(1) that]) (simp add: uf_rep_init)
    then show ?thesis by simp
  qed
  ultimately show thesis
    using p that by blast
qed

end
