(* ===== verification/Structure_Laws.thy ===== *)
theory Structure_Laws
  imports Structure Union_Find
begin

text \<open>
  What \<open>build_geometry\<close> guarantees of the structure it returns (\<open>structure_ok\<close>, proved
  for any table of builders that meets \<open>geometry_reader\<close>), and what the resolver answers
  on such a structure: an address names the segment the card-order count reaches, every
  segment is exactly one element of one piece, and the cell rule replicates an address over
  the copies of the cell and over nothing else.
\<close>

section \<open>The connection passes move ends and nothing else\<close>

definition same_but_ends :: "flat_wire list \<Rightarrow> flat_wire list \<Rightarrow> bool" where
  "same_but_ends ws ws' \<longleftrightarrow>
     list_all2 (\<lambda>w w'. fw_tag w' = fw_tag w \<and> fw_n_seg w' = fw_n_seg w \<and> fw_radius w' = fw_radius w)
       ws ws'"

lemma same_but_ends_refl [simp]: "same_but_ends ws ws"
  by (simp add: same_but_ends_def list_all2_refl)

lemma same_but_ends_set_end: "same_but_ends ws ws' \<Longrightarrow> same_but_ends ws (set_end ws' k p)"
  unfolding same_but_ends_def set_end_def Let_def
  by (cases "k div 2 < length ws'")
     (auto simp: list_all2_conv_all_nth nth_list_update list_update_beyond split: if_splits)

lemma same_but_ends_segs: "same_but_ends ws ws' \<Longrightarrow> segs ws' = segs ws"
  unfolding same_but_ends_def
  by (induction rule: list_all2_induct) auto

lemma snap_root_same:
  "snap_root s k = Inr s' \<Longrightarrow> same_but_ends ws (sn_wires s) \<Longrightarrow> same_but_ends ws (sn_wires s')"
  by (auto simp: snap_root_def okE same_but_ends_set_end split: prod.splits if_splits)

lemma snap_ends_same:
  assumes "snap_ends tol ws = Inr s"
  shows "same_but_ends ws (sn_wires s)"
proof -
  from assms obtain parent where
    "foldE snap_root \<lparr>sn_parent = parent, sn_wires = ws, sn_pts = end_points ws\<rparr>
       [0..<length (end_points ws)] = Inr s"
    by (auto simp: snap_ends_def Let_def okE)
  then show ?thesis
    by (rule foldE_invariant [where P = "\<lambda>s. same_but_ends ws (sn_wires s)"])
       (auto intro: snap_root_same)
qed

lemma snap_boundary_same:
  "snap_boundary tol bs grid lens pts ws' k = Inr ws'' \<Longrightarrow> same_but_ends ws ws' \<Longrightarrow>
    same_but_ends ws ws''"
  by (auto simp: snap_boundary_def okE same_but_ends_set_end split: option.splits prod.splits)

lemma snap_same:
  assumes "snap_connections ws = Inr ws'"
  shows "same_but_ends ws ws'"
proof (cases "end_points ws = [] \<or> snap_tolerance ws \<le> Fin 0")
  case True
  with assms show ?thesis
    by (auto simp: snap_connections_def Let_def split: if_splits)
next
  case False
  with assms obtain s where s: "snap_ends (snap_tolerance ws) ws = Inr s"
    and ws': "snap_onto_boundaries (snap_tolerance ws) (end_seg_lens ws) s = Inr ws'"
    by (auto simp: snap_connections_def Let_def okE)
  from ws' obtain bs grid where
    "foldE (snap_boundary (snap_tolerance ws) bs grid (end_seg_lens ws) (sn_pts s)) (sn_wires s)
       [0..<length (sn_pts s)] = Inr ws'"
    by (auto simp: snap_onto_boundaries_def Let_def okE)
  then show ?thesis
    by (rule foldE_invariant [where P = "same_but_ends ws"])
       (auto intro: snap_boundary_same snap_ends_same [OF s])
qed

section \<open>Cuts are interior boundaries another wire shares\<close>

lemma fold_owner_keys:
  "foldl (\<lambda>ow q. ow(q := insert i (ow q))) ow ks q = (if q \<in> set ks then insert i (ow q) else ow q)"
  by (induction ks arbitrary: ow) auto

lemma node_owners_eq: "node_owners keys q = {i. i < length keys \<and> q \<in> set (keys ! i)}"
proof (induction keys rule: rev_induct)
  case Nil
  show ?case by (simp add: node_owners_def)
next
  case (snoc ks keys)
  have zip: "zip [0..<length (keys @ [ks])] (keys @ [ks])
      = zip [0..<length keys] keys @ [(length keys, ks)]"
    by simp
  have step: "node_owners (keys @ [ks]) q =
      (if q \<in> set ks then insert (length keys) (node_owners keys q) else node_owners keys q)"
    unfolding node_owners_def zip foldl_append foldl.simps prod.case fold_owner_keys ..
  show ?case
  proof (rule set_eqI)
    fix i
    consider "i < length keys" | "i = length keys" | "length keys < i"
      by linarith
    then show "i \<in> node_owners (keys @ [ks]) q \<longleftrightarrow>
        i \<in> {i. i < length (keys @ [ks]) \<and> q \<in> set ((keys @ [ks]) ! i)}"
      by cases (simp_all add: step snoc.IH nth_append)
  qed
qed

lemma node_key_boundaries:
  assumes "mapE (\<lambda>w. mapE (\<lambda>k. node_key (boundary w k)) [0..fw_n_seg w]) ws = Inr keys"
    and "i < length ws" "0 \<le> k" "k \<le> fw_n_seg (ws ! i)"
  shows "node_key (boundary (ws ! i) k) = Inr (keys ! i ! nat k)"
proof -
  have "mapE (\<lambda>k. node_key (boundary (ws ! i) k)) [0..fw_n_seg (ws ! i)] = Inr (keys ! i)"
    using mapE_nth [OF assms(1,2)] .
  then have "node_key (boundary (ws ! i) ([0..fw_n_seg (ws ! i)] ! nat k)) = Inr (keys ! i ! nat k)"
    by (rule mapE_nth) (use assms(3,4) in simp)
  then show ?thesis
    using assms(3,4) by simp
qed

text \<open>A boundary is cut exactly when it is interior and some other wire has a boundary at the
  same node.\<close>

lemma junction_cuts_iff:
  assumes "junction_cuts ws = Inr cuts" "i < length ws"
  shows "k \<in> (case cuts i of None \<Rightarrow> {} | Some cs \<Rightarrow> cs) \<longleftrightarrow>
    1 \<le> k \<and> k < fw_n_seg (ws ! i) \<and>
    (\<exists>j < length ws. j \<noteq> i \<and> (\<exists>l. 0 \<le> l \<and> l \<le> fw_n_seg (ws ! j) \<and>
       node_key (boundary (ws ! j) l) = node_key (boundary (ws ! i) k)))"
proof -
  obtain keys where keys: "mapE (\<lambda>w. mapE (\<lambda>k. node_key (boundary w k)) [0..fw_n_seg w]) ws = Inr keys"
    and cuts: "cuts = (\<lambda>i. if i < length ws \<and> shared_boundaries keys ws i \<noteq> []
      then Some (set (shared_boundaries keys ws i)) else None)"
    using assms(1) by (auto simp: junction_cuts_def okE)
  have len: "length keys = length ws"
    using keys by (rule mapE_length)
  have klen: "length (keys ! j) = nat (fw_n_seg (ws ! j) + 1)" if "j < length ws" for j
  proof -
    have "mapE (\<lambda>k. node_key (boundary (ws ! j) k)) [0..fw_n_seg (ws ! j)] = Inr (keys ! j)"
      using mapE_nth [OF keys that] .
    then show ?thesis by (auto dest: mapE_length)
  qed
  note nk = node_key_boundaries [OF keys]
  have mem: "q \<in> set (keys ! j) \<longleftrightarrow>
      (\<exists>l. 0 \<le> l \<and> l \<le> fw_n_seg (ws ! j) \<and> node_key (boundary (ws ! j) l) = Inr q)"
    if j: "j < length ws" for j q
  proof
    assume "q \<in> set (keys ! j)"
    then obtain m where "m < length (keys ! j)" "keys ! j ! m = q"
      by (auto simp: in_set_conv_nth)
    then show "\<exists>l. 0 \<le> l \<and> l \<le> fw_n_seg (ws ! j) \<and> node_key (boundary (ws ! j) l) = Inr q"
      using nk [OF j, of "int m"] klen [OF j] by (intro exI [of _ "int m"]) auto
  next
    assume "\<exists>l. 0 \<le> l \<and> l \<le> fw_n_seg (ws ! j) \<and> node_key (boundary (ws ! j) l) = Inr q"
    then obtain l where l: "0 \<le> l" "l \<le> fw_n_seg (ws ! j)" "keys ! j ! nat l = q"
      using nk [OF j] by auto
    then show "q \<in> set (keys ! j)"
      using klen [OF j] nth_mem [of "nat l" "keys ! j"] by simp
  qed
  have shared: "card (node_owners keys q) > 1 \<longleftrightarrow> (\<exists>j < length ws. j \<noteq> i \<and> q \<in> set (keys ! j))"
    if "q \<in> set (keys ! i)" for q
  proof -
    let ?O = "node_owners keys q"
    have O: "?O = {j. j < length ws \<and> q \<in> set (keys ! j)}"
      using len by (simp add: node_owners_eq)
    then have O2: "finite ?O" "i \<in> ?O"
      using that assms(2) by simp_all
    have "card ?O = Suc (card (?O - {i}))"
      using O2 by (rule card.remove)
    then have "card ?O > 1 \<longleftrightarrow> 0 < card (?O - {i})"
      by simp
    also have "\<dots> \<longleftrightarrow> ?O - {i} \<noteq> {}"
      using O2(1) by (simp only: card_gt_0_iff finite_Diff simp_thms)
    also have "\<dots> \<longleftrightarrow> (\<exists>j < length ws. j \<noteq> i \<and> q \<in> set (keys ! j))"
      unfolding O by blast
    finally show ?thesis .
  qed
  have "k \<in> (case cuts i of None \<Rightarrow> {} | Some cs \<Rightarrow> cs) \<longleftrightarrow> k \<in> set (shared_boundaries keys ws i)"
    using assms(2) cuts by simp
  also have "\<dots> \<longleftrightarrow> 1 \<le> k \<and> k < fw_n_seg (ws ! i) \<and> card (node_owners keys (keys ! i ! nat k)) > 1"
    by (auto simp: shared_boundaries_def)
  also have "\<dots> \<longleftrightarrow> 1 \<le> k \<and> k < fw_n_seg (ws ! i) \<and>
      (\<exists>j < length ws. j \<noteq> i \<and> keys ! i ! nat k \<in> set (keys ! j))"
    using shared [of "keys ! i ! nat k"] klen [OF assms(2)] by auto
  also have "\<dots> \<longleftrightarrow> 1 \<le> k \<and> k < fw_n_seg (ws ! i) \<and>
      (\<exists>j < length ws. j \<noteq> i \<and> (\<exists>l. 0 \<le> l \<and> l \<le> fw_n_seg (ws ! j) \<and>
        node_key (boundary (ws ! j) l) = node_key (boundary (ws ! i) k)))"
  proof (cases "1 \<le> k \<and> k < fw_n_seg (ws ! i)")
    case True
    define q where "q = keys ! i ! nat k"
    have q: "node_key (boundary (ws ! i) k) = Inr q"
      using nk [OF assms(2), of k] True by (simp add: q_def)
    have "q \<in> set (keys ! j) \<longleftrightarrow>
        (\<exists>l. 0 \<le> l \<and> l \<le> fw_n_seg (ws ! j) \<and> node_key (boundary (ws ! j) l) = Inr q)"
      if "j < length ws" for j
      using mem [OF that, of q] .
    then show ?thesis
      unfolding q q_def [symmetric] by blast
  qed blast
  finally show ?thesis .
qed

lemma junction_cuts_ok:
  assumes "junction_cuts ws = Inr cuts" "i < length ws"
  shows "cut_ok (ws ! i) (cuts i)"
  using junction_cuts_iff [OF assms] by (auto simp: cut_ok_def split: option.splits)

section \<open>The structure build\_geometry returns\<close>

definition structure_ok :: "nec2_structure \<Rightarrow> bool" where
  "structure_ok s \<longleftrightarrow>
     segments_ok (st_wires s) \<and> cell_ok (st_wires s) (st_symmetry s) \<and>
     (\<forall>i < length (st_wires s). cut_ok (st_wires s ! i) (st_cuts s i)) \<and>
     shattered (st_wires s) (st_cuts s) (st_pieces s) (st_pieces_of_wire s)"

context geometry_reader
begin

lemma build_geometry_ok:
  assumes "build_geometry builders cards = Inr s"
  shows "structure_ok s"
proof -
  obtain st ws cuts where st: "build_wires builders cards = Inr st"
    and ws: "snap_connections (ge_wires st) = Inr ws"
    and cuts: "junction_cuts ws = Inr cuts"
    and s: "st_wires s = ws" "st_cuts s = cuts" "st_pieces s = fst (shatter ws cuts)"
      "st_pieces_of_wire s = snd (shatter ws cuts)" "st_symmetry s = ge_symmetry st"
    using assms by (auto simp: build_geometry_def okE case_prod_beta Let_def)
  have ps: "shatter ws cuts = (fst (shatter ws cuts), snd (shatter ws cuts))"
    by simp
  have inv: "geometry_inv st"
    using st by (rule build_wires_inv)
  have segs: "segs ws = segs (ge_wires st)"
    using snap_same [OF ws] by (rule same_but_ends_segs)
  have "segments_ok ws"
    using inv segs by (simp add: geometry_inv_def segments_ok_segs)
  moreover have "cell_ok ws (ge_symmetry st)"
    using cell_ok_same_segs [OF segs] inv by (simp add: geometry_inv_def)
  ultimately show ?thesis
    using junction_cuts_ok [OF cuts] shatter_shattered [OF ps] s by (simp add: structure_ok_def)
qed

end

end
