(* ===== verification/Addressing.thy ===== *)
theory Addressing
  imports Structure_Laws
begin

text \<open>
  The resolver on a well-formed structure: \<open>locate\<close> against the list of segments a tag
  addresses, \<open>element_of\<close> as a bijection between segments and elements of pieces,
  \<open>resolve\<close> as the segment's centre, and the cell rule.
\<close>

section \<open>Segments of the structure\<close>

lemma in_wire_segments:
  "(i, k) \<in> set (wire_segments ws) \<longleftrightarrow> i < length ws \<and> 1 \<le> k \<and> k \<le> fw_n_seg (ws ! i)"
  by (force simp: wire_segments_def set_zip)

fun segments_from :: "nat \<Rightarrow> flat_wire list \<Rightarrow> (nat \<times> int) list" where
  "segments_from i [] = []"
| "segments_from i (w # ws) = map (\<lambda>k. (i, k)) [1..fw_n_seg w] @ segments_from (Suc i) ws"

lemma segments_from_snoc:
  "segments_from i (ws @ [w]) =
    segments_from i ws @ map (\<lambda>k. (i + length ws, k)) [1..fw_n_seg w]"
  by (induction ws arbitrary: i) auto

lemma wire_segments_from: "wire_segments ws = segments_from 0 ws"
  by (induction ws rule: rev_induct) (simp_all add: wire_segments_def segments_from_snoc)

lemma length_segments_from:
  "segments_ok ws \<Longrightarrow> int (length (segments_from i ws)) = total_segments ws"
  by (induction ws arbitrary: i) (auto simp: segments_ok_def total_segments_def)

definition tagged :: "flat_wire list \<Rightarrow> int \<Rightarrow> (nat \<times> int) list" where
  \<comment> \<open>the segments a tag counts over, in card order: its own wires', or every wire's for
     tag 0\<close>
  "tagged ws tag = filter (\<lambda>(i, k). tag = 0 \<or> fw_tag (ws ! i) = tag) (wire_segments ws)"

fun tagged_from :: "nat \<Rightarrow> flat_wire list \<Rightarrow> int \<Rightarrow> (nat \<times> int) list" where
  "tagged_from i [] tag = []"
| "tagged_from i (w # ws) tag =
     (if tag = 0 \<or> fw_tag w = tag then map (\<lambda>k. (i, k)) [1..fw_n_seg w] else [])
       @ tagged_from (Suc i) ws tag"

lemma tagged_from_snoc:
  "tagged_from i (ws @ [w]) tag = tagged_from i ws tag @
    (if tag = 0 \<or> fw_tag w = tag then map (\<lambda>k. (i + length ws, k)) [1..fw_n_seg w] else [])"
  by (induction ws arbitrary: i) auto

lemma tagged_eq_from: "tagged ws tag = tagged_from 0 ws tag"
proof (induction ws rule: rev_induct)
  case Nil
  then show ?case by (simp add: tagged_def wire_segments_def)
next
  case (snoc w ws)
  have "filter (\<lambda>(i, k). tag = 0 \<or> fw_tag ((ws @ [w]) ! i) = tag) (wire_segments ws) = tagged ws tag"
    unfolding tagged_def by (rule filter_cong [OF refl]) (auto simp: in_wire_segments nth_append)
  then show ?case
    unfolding tagged_def tagged_from_snoc snoc.IH [unfolded tagged_def, symmetric]
    by (simp add: wire_segments_from segments_from_snoc filter_map comp_def)
qed

section \<open>locate\<close>

lemma locate_from_tagged:
  assumes "segments_ok ws" "acc < seg"
  shows "locate_from ws i tag seg acc =
    (let n = nat (seg - acc - 1); l = tagged_from i ws tag
     in if n < length l then Some (l ! n) else None)"
  using assms
proof (induction ws arbitrary: i acc)
  case (Cons w ws)
  have n: "1 \<le> fw_n_seg w" and ok: "segments_ok ws"
    using Cons.prems(1) by (auto simp: segments_ok_def)
  consider (skip) "tag \<noteq> 0 \<and> fw_tag w \<noteq> tag"
    | (here) "\<not> (tag \<noteq> 0 \<and> fw_tag w \<noteq> tag)" "seg \<le> acc + fw_n_seg w"
    | (later) "\<not> (tag \<noteq> 0 \<and> fw_tag w \<noteq> tag)" "acc + fw_n_seg w < seg"
    by linarith
  then show ?case
  proof cases
    case skip
    then show ?thesis using Cons.IH [OF ok Cons.prems(2)] by simp
  next
    case here
    then have "nat (seg - acc - 1) < nat (fw_n_seg w)"
      using Cons.prems(2) by simp
    with here Cons.prems(2) show ?thesis
      by (auto simp: Let_def nth_append)
  next
    case later
    have "nat (seg - acc - 1) = nat (fw_n_seg w) + nat (seg - (acc + fw_n_seg w) - 1)"
      using later(2) n by simp
    with later Cons.IH [OF ok later(2)] show ?thesis
      by (auto simp: Let_def nth_append)
  qed
qed simp

lemma locate_tagged:
  assumes "structure_ok s"
  shows "locate s tag seg =
    (let l = tagged (st_wires s) tag in
     if max seg 1 \<le> int (length l) then Inr (l ! nat (max seg 1 - 1))
     else Inl (geometry_error (SegmentOutOfRange (max seg 1) tag)))"
proof -
  have "segments_ok (st_wires s)"
    using assms by (simp add: structure_ok_def)
  then show ?thesis
    using locate_from_tagged [of "st_wires s" 0 "max seg 1" 0 tag]
    by (auto simp: locate_def tagged_eq_from Let_def)
qed

lemma locate_valid:
  assumes "structure_ok s" "locate s tag seg = Inr r"
  shows "r \<in> set (tagged (st_wires s) tag)"
proof -
  have n: "max seg 1 \<le> int (length (tagged (st_wires s) tag))"
    and r: "r = tagged (st_wires s) tag ! nat (max seg 1 - 1)"
    using assms(2) unfolding locate_tagged [OF assms(1)] by (auto simp: Let_def split: if_splits)
  have "nat (max seg 1 - 1) < length (tagged (st_wires s) tag)"
    using n by linarith
  then show ?thesis
    unfolding r by (rule nth_mem)
qed

lemma tagged_subset: "set (tagged ws tag) \<subseteq> set (wire_segments ws)"
  by (auto simp: tagged_def)

lemma ld_segment_range_valid:
  assumes "structure_ok s" "ld_segment_range s tag first last_seg = Inr pairs"
  shows "set pairs \<subseteq> set (wire_segments (st_wires s))"
proof (cases "first = 0")
  case True
  with assms(2) show ?thesis
    by (auto simp: ld_segment_range_def Let_def split: if_splits)
next
  case False
  then have "list_all2 (\<lambda>k r. locate s tag k = Inr r) [first..max last_seg first] pairs"
    using assms(2) by (simp add: ld_segment_range_def mapE_eq_Inr)
  then show ?thesis
    using locate_valid [OF assms(1)] tagged_subset
    by (fastforce simp: list_all2_conv_all_nth in_set_conv_nth)
qed

section \<open>element\_of\<close>

lemma consecutive_member:
  "consecutive a ps b \<Longrightarrow> p \<in> set ps \<Longrightarrow> a \<le> pi_first_seg p \<and> 1 \<le> pi_n_seg p"
  by (induction ps arbitrary: a) force+

lemma consecutive_upper: "consecutive a ps b \<Longrightarrow> p \<in> set ps \<Longrightarrow> pi_first_seg p + pi_n_seg p \<le> b"
  by (induction ps arbitrary: a) (auto dest: consecutive_le)

lemma find_piece_member:
  assumes "consecutive a (map ((!) ps) is) b" "j \<in> set is"
    and "pi_first_seg (ps ! j) < l" "l \<le> pi_first_seg (ps ! j) + pi_n_seg (ps ! j)"
  shows "find_piece ps is l = Inr (j, l - pi_first_seg (ps ! j) - 1)"
  using assms
proof (induction "is" arbitrary: a)
  case (Cons i "is")
  show ?case
  proof (cases "j = i")
    case True
    with Cons.prems show ?thesis by (simp add: Let_def)
  next
    case False
    with Cons.prems have j: "j \<in> set is"
      and rest: "consecutive (a + pi_n_seg (ps ! i)) (map ((!) ps) is) b" by auto
    have "a + pi_n_seg (ps ! i) \<le> pi_first_seg (ps ! j)"
      using consecutive_member [OF rest] j by simp
    with Cons.prems Cons.IH [OF rest j] show ?thesis
      by (auto simp: Let_def)
  qed
qed simp

lemma pieces_of_wire:
  assumes "structure_ok s" "i < length (st_wires s)"
  shows "consecutive 0 (map ((!) (st_pieces s)) (st_pieces_of_wire s ! i)) (fw_n_seg (st_wires s ! i))"
    and "j \<in> set (st_pieces_of_wire s ! i) \<Longrightarrow> j < length (st_pieces s) \<and> pi_wire (st_pieces s ! j) = i"
proof -
  have sh: "shattered (st_wires s) (st_cuts s) (st_pieces s) (st_pieces_of_wire s)"
    and n: "1 \<le> fw_n_seg (st_wires s ! i)" and c: "cut_ok (st_wires s ! i) (st_cuts s i)"
    using assms by (auto simp: structure_ok_def segments_ok_def)
  have map: "map ((!) (st_pieces s)) (st_pieces_of_wire s ! i) =
      wire_pieces i (st_wires s ! i) (st_cuts s i)"
    using sh assms(2) by (simp add: shattered_def)
  show "consecutive 0 (map ((!) (st_pieces s)) (st_pieces_of_wire s ! i)) (fw_n_seg (st_wires s ! i))"
    unfolding map using n c by (rule wire_pieces_consecutive)
  assume j: "j \<in> set (st_pieces_of_wire s ! i)"
  then have "st_pieces s ! j \<in> set (wire_pieces i (st_wires s ! i) (st_cuts s i))"
    using map by (metis image_eqI list.set_map)
  then have "pi_wire (st_pieces s ! j) = i"
    by (rule wire_pieces_wire)
  moreover have "st_pieces_of_wire s ! i \<in> set (st_pieces_of_wire s)"
    using sh assms(2) by (simp add: shattered_def)
  then have "j \<in> set (concat (st_pieces_of_wire s))"
    using j by auto
  then have "j < length (st_pieces s)"
    using sh by (simp only: shattered_def) simp
  ultimately show "j < length (st_pieces s) \<and> pi_wire (st_pieces s ! j) = i" by blast
qed

lemma piece_owner:
  assumes "structure_ok s" "j < length (st_pieces s)"
  shows "pi_wire (st_pieces s ! j) < length (st_wires s) \<and>
    j \<in> set (st_pieces_of_wire s ! pi_wire (st_pieces s ! j))"
proof -
  have sh: "shattered (st_wires s) (st_cuts s) (st_pieces s) (st_pieces_of_wire s)"
    using assms(1) by (simp add: structure_ok_def)
  then have "j \<in> set (concat (st_pieces_of_wire s))"
    using assms(2) by (simp only: shattered_def) simp
  then obtain js where "js \<in> set (st_pieces_of_wire s)" "j \<in> set js"
    by auto
  then obtain i where "i < length (st_pieces_of_wire s)" "j \<in> set (st_pieces_of_wire s ! i)"
    by (metis in_set_conv_nth)
  moreover from this have "i < length (st_wires s)"
    using sh by (simp add: shattered_def)
  ultimately show ?thesis
    using pieces_of_wire(2) [OF assms(1)] by auto
qed

lemma element_of_valid:
  assumes "structure_ok s" "(i, k) \<in> set (wire_segments (st_wires s))"
  obtains j e where "element_of s i k = Inr (j, e)" "j < length (st_pieces s)"
    "0 \<le> e" "e < pi_n_seg (st_pieces s ! j)"
    "pi_wire (st_pieces s ! j) = i" "k = pi_first_seg (st_pieces s ! j) + e + 1"
proof -
  have i: "i < length (st_wires s)" "0 < k" "k \<le> fw_n_seg (st_wires s ! i)"
    using assms(2) by (simp_all add: in_wire_segments)
  obtain j where j: "j \<in> set (st_pieces_of_wire s ! i)"
    "element_of s i k = Inr (j, k - pi_first_seg (st_pieces s ! j) - 1)"
    "pi_first_seg (st_pieces s ! j) < k"
    "k \<le> pi_first_seg (st_pieces s ! j) + pi_n_seg (st_pieces s ! j)"
    using find_piece_consecutive [OF pieces_of_wire(1) [OF assms(1) i(1)] i(2,3)]
    by (auto simp: element_of_def)
  then show thesis
    using pieces_of_wire(2) [OF assms(1) i(1) j(1)] by (intro that) auto
qed

lemma element_of_piece:
  assumes "structure_ok s" "j < length (st_pieces s)" "0 \<le> e" "e < pi_n_seg (st_pieces s ! j)"
  shows "element_of s (pi_wire (st_pieces s ! j)) (pi_first_seg (st_pieces s ! j) + e + 1) = Inr (j, e)"
    and "(pi_wire (st_pieces s ! j), pi_first_seg (st_pieces s ! j) + e + 1)
      \<in> set (wire_segments (st_wires s))"
proof -
  let ?p = "st_pieces s ! j"
  have own: "pi_wire ?p < length (st_wires s)" "j \<in> set (st_pieces_of_wire s ! pi_wire ?p)"
    using piece_owner [OF assms(1,2)] by auto
  note cons = pieces_of_wire(1) [OF assms(1) own(1)]
  show "element_of s (pi_wire ?p) (pi_first_seg ?p + e + 1) = Inr (j, e)"
    using find_piece_member [OF cons own(2), of "pi_first_seg ?p + e + 1"] assms(3,4)
    by (simp add: element_of_def)
  have "?p \<in> set (map ((!) (st_pieces s)) (st_pieces_of_wire s ! pi_wire ?p))"
    using own(2) by simp
  then have "0 \<le> pi_first_seg ?p \<and> pi_first_seg ?p + pi_n_seg ?p \<le> fw_n_seg (st_wires s ! pi_wire ?p)"
    using consecutive_upper [OF cons] consecutive_member [OF cons] by blast
  with own(1) assms(3,4) show "(pi_wire ?p, pi_first_seg ?p + e + 1) \<in> set (wire_segments (st_wires s))"
    by (simp add: in_wire_segments)
qed

lemma sum_map_nth: "sum_by f (map ((!) xs) [0..<length xs]) = sum_by f xs"
  by (simp add: map_nth)

text \<open>The pieces carry the structure's segments, none lost and none doubled.\<close>

lemma pieces_total:
  assumes "structure_ok s"
  shows "sum_by pi_n_seg (st_pieces s) = n_segments s"
proof -
  let ?ps = "st_pieces s" and ?of = "st_pieces_of_wire s" and ?ws = "st_wires s"
  have sh: "shattered ?ws (st_cuts s) ?ps ?of"
    using assms by (simp add: structure_ok_def)
  have wire: "sum_by pi_n_seg (map ((!) ?ps) (?of ! i)) = fw_n_seg (?ws ! i)" if "i < length ?ws" for i
    using consecutive_sum [OF pieces_of_wire(1) [OF assms that]] by simp
  have prefix: "sum_by pi_n_seg (map ((!) ?ps) (concat (take n ?of))) = sum_by fw_n_seg (take n ?ws)"
    if "n \<le> length ?ws" for n
    using that
  proof (induction n)
    case (Suc n)
    then have n: "n < length ?ws" "n < length ?of"
      using sh by (auto simp: shattered_def)
    then show ?case
      using Suc wire [OF n(1)] by (simp add: take_Suc_conv_app_nth)
  qed simp
  have "concat ?of = [0..<length ?ps]" "length ?of = length ?ws"
    using sh by (simp_all only: shattered_def)
  then show ?thesis
    using prefix [of "length ?ws"] by (simp add: sum_map_nth n_segments_def total_segments_def)
qed

section \<open>resolve\<close>

text \<open>A finite arclength is the centre of its segment, strictly inside the piece.\<close>

lemma divide_Fin: "x / Fin b = Fin a \<Longrightarrow> b \<noteq> 0 \<Longrightarrow> \<exists>m. x = Fin m \<and> a = m / b"
  by (cases x) (auto simp: divide_flt_def)

lemma resolve_of_centre:
  assumes "structure_ok s" "(i, k) \<in> set (wire_segments (st_wires s))"
    and "resolve_of s i k = Inr (j, Fin a)" "is_fin (fint (pi_n_seg (st_pieces s ! j)))"
  shows "\<exists>e len. element_of s i k = Inr (j, e) \<and> piece_length (st_pieces s ! j) = Fin len \<and>
    a = (of_int e + 1 / 2) * len / of_int (pi_n_seg (st_pieces s ! j)) \<and>
    (0 < len \<longrightarrow> 0 < a \<and> a < len)"
proof -
  let ?n = "pi_n_seg (st_pieces s ! j)"
  obtain e where e: "element_of s i k = Inr (j, e)"
    and a: "Fin (of_int e + 1 / 2) * piece_length (st_pieces s ! j) / fint ?n = Fin a"
    using assms(3) by (auto simp: resolve_of_def okE Let_def)
  have bounds: "0 \<le> e" "e < ?n"
    using element_of_valid [OF assms(1,2)] e by force+
  have "fint ?n = Fin (of_int ?n)"
    using assms(4) by (simp add: fint_def is_fin_iff)
  then obtain m where "Fin (of_int e + 1 / 2) * piece_length (st_pieces s ! j) = Fin m"
    "a = m / of_int ?n"
    using divide_Fin a bounds by fastforce
  then obtain len where len: "piece_length (st_pieces s ! j) = Fin len"
    and a: "a = (of_int e + 1 / 2) * len / of_int ?n"
    by (auto simp: times_Fin)
  have "a < len \<and> 0 < a" if "0 < len"
  proof -
    have "real_of_int e + 1 / 2 < of_int ?n"
      using bounds by linarith
    then have "(of_int e + 1 / 2) * len < of_int ?n * len"
      using that by simp
    then show ?thesis
      using a bounds that by (simp add: divide_less_eq mult.commute)
  qed
  then show ?thesis
    using e len a by blast
qed

section \<open>The cell rule\<close>

lemma cell_rule_applied:
  assumes "structure_ok s" "st_symmetry s = Some y" "sy_cell_wires y \<noteq> 0"
    and "under_the_cell_rule s pairs = Inr (applied, dropped)"
  shows "set applied = {(w, k). w < length (st_wires s) \<and> (w mod sy_cell_wires y, k) \<in> set pairs}"
    and "distinct applied" "sorted applied"
    and "dropped = filter (\<lambda>p. p \<notin> set applied) pairs"
proof -
  let ?c = "sy_cell_wires y" and ?ws = "st_wires s"
  let ?list = "concat (map (\<lambda>(wire, seg). map (\<lambda>k. (wire + k * ?c, seg)) [0..<length ?ws div ?c])
    (filter (\<lambda>(wire, seg). wire < ?c) pairs))"
  have applied: "applied = sort (dedup ?list)" and dropped: "dropped = filter (\<lambda>p. p \<notin> set (dedup ?list)) pairs"
    using assms(2-4) by (auto simp: under_the_cell_rule_def Let_def)
  have "cell_ok ?ws (Some y)"
    using assms(1,2) by (simp add: structure_ok_def)
  then obtain m where "?c \<le> length ?ws" "segs ?ws = times_list m (segs (take ?c ?ws))"
    by (auto simp: cell_ok_def)
  then have len: "length ?ws = m * ?c"
    by (metis length_map length_take length_times_list min.absorb2)
  have mem: "(w, k) \<in> set ?list \<longleftrightarrow> w < length ?ws \<and> (w mod ?c, k) \<in> set pairs" for w k
  proof
    assume "(w, k) \<in> set ?list"
    then obtain w0 n where "(w0, k) \<in> set pairs" "w0 < ?c" "n < m" "w = w0 + n * ?c"
      using len assms(3) by auto
    moreover have "w0 + n * ?c < m * ?c"
    proof -
      have "Suc n * ?c \<le> m * ?c"
        using \<open>n < m\<close> by (intro mult_le_mono1) simp
      with \<open>w0 < ?c\<close> show ?thesis by simp
    qed
    ultimately show "w < length ?ws \<and> (w mod ?c, k) \<in> set pairs"
      using len by simp
  next
    assume w: "w < length ?ws \<and> (w mod ?c, k) \<in> set pairs"
    then have q: "w div ?c \<in> set [0..<length ?ws div ?c]"
      using len assms(3) by (simp add: less_mult_imp_div_less)
    have p: "(w mod ?c, k) \<in> set (filter (\<lambda>(wire, seg). wire < ?c) pairs)"
      using w assms(3) by simp
    have "(w, k) = (\<lambda>q. (w mod ?c + q * ?c, k)) (w div ?c)"
      by simp
    then have "(w, k) \<in> set (map (\<lambda>q. (w mod ?c + q * ?c, k)) [0..<length ?ws div ?c])"
      using q unfolding set_map by (rule image_eqI)
    with p show "(w, k) \<in> set ?list"
      unfolding set_concat set_map by (intro UN_I [OF imageI [OF p]]) simp
  qed
  have "set applied = set ?list"
    by (simp add: applied)
  also have "\<dots> = {(w, k). w < length ?ws \<and> (w mod ?c, k) \<in> set pairs}"
    by (intro set_eqI) (simp only: mem split_paired_all mem_Collect_eq prod.case)
  finally show "set applied = {(w, k). w < length ?ws \<and> (w mod ?c, k) \<in> set pairs}" .
  show "distinct applied" "sorted applied"
    by (simp_all add: applied)
  show "dropped = filter (\<lambda>p. p \<notin> set applied) pairs"
    by (simp add: applied dropped)
qed

text \<open>The copies of a cell have its segment counts, so the rule addresses real segments.\<close>

lemma cell_copy_segs:
  assumes "structure_ok s" "st_symmetry s = Some y" "w < length (st_wires s)" "sy_cell_wires y \<noteq> 0"
  shows "fw_n_seg (st_wires s ! w) = fw_n_seg (st_wires s ! (w mod sy_cell_wires y))"
proof -
  let ?c = "sy_cell_wires y" and ?ws = "st_wires s"
  obtain m where m: "?c \<le> length ?ws" "segs ?ws = times_list m (segs (take ?c ?ws))"
    using assms(1,2) by (auto simp: structure_ok_def cell_ok_def)
  then have len: "length ?ws = m * ?c"
    by (metis length_map length_take length_times_list min.absorb2)
  then have "w div ?c < m"
    using assms(3,4) by (simp add: less_mult_imp_div_less)
  moreover have lt: "w mod ?c < length (segs (take ?c ?ws))"
    using assms(4) m(1) by simp
  ultimately have "segs ?ws ! (w mod ?c + w div ?c * length (segs (take ?c ?ws))) = segs (take ?c ?ws) ! (w mod ?c)"
    using times_list_nth m(2) by metis
  moreover have "w mod ?c < length ?ws"
    using lt m(1) by simp
  ultimately show ?thesis
    using assms(3,4) m(1) by (simp add: min_absorb2)
qed

lemma cell_rule_valid:
  assumes "structure_ok s" "set pairs \<subseteq> set (wire_segments (st_wires s))"
    and "under_the_cell_rule s pairs = Inr (applied, dropped)"
  shows "set applied \<subseteq> set (wire_segments (st_wires s))"
proof (cases "st_symmetry s")
  case None
  with assms show ?thesis by (simp add: under_the_cell_rule_def)
next
  case (Some y)
  then have c: "sy_cell_wires y \<noteq> 0"
    using assms(3) by (auto simp: under_the_cell_rule_def Let_def split: if_splits)
  note applied = cell_rule_applied(1) [OF assms(1) Some c assms(3)]
  show ?thesis
  proof
    fix r assume r: "r \<in> set applied"
    obtain w k where wk: "r = (w, k)" by (cases r)
    with r have w: "w < length (st_wires s)" "(w mod sy_cell_wires y, k) \<in> set pairs"
      unfolding applied by simp_all
    then have "(w mod sy_cell_wires y, k) \<in> set (wire_segments (st_wires s))"
      using assms(2) by blast
    then show "r \<in> set (wire_segments (st_wires s))"
      using w(1) cell_copy_segs [OF assms(1) Some w(1) c] by (simp add: wk in_wire_segments)
  qed
qed

end
