(* ===== verification/Escapes.thy ===== *)
theory Escapes
  imports Addressing
begin

text \<open>
  Which exceptions can leave the code.  An \<open>internal\<close> exception is one no input should be
  able to raise: a failed assertion, a missing key, a loop that does not end.  \<open>clean\<close> code
  raises none, and the lemmas of \<open>clean\<close> show it of the geometry and the resolver.
\<close>

definition internal :: "pyexn \<Rightarrow> bool" where
  "internal e \<longleftrightarrow> e = KeyError \<or> e = AssertionError \<or> e = StopIteration \<or> e = Diverges"

definition clean :: "pyexn + 'a \<Rightarrow> bool" where
  "clean m \<longleftrightarrow> (case m of Inl e \<Rightarrow> \<not> internal e | Inr _ \<Rightarrow> True)"

named_theorems clean_rules \<open>code that raises no internal exception\<close>

lemma internal_simps [simp]:
  "\<not> internal (DeckError r)" "\<not> internal IndexError" "\<not> internal ValueError"
  "\<not> internal OverflowError" "\<not> internal ZeroDivisionError"
  by (simp_all add: internal_def)

lemma clean_Inr [simp]: "clean (Inr x)"
  by (simp add: clean_def)

lemma clean_Inl [simp]: "clean (Inl e) \<longleftrightarrow> \<not> internal e"
  by (simp add: clean_def)

lemma clean_bind [clean_rules]: "clean m \<Longrightarrow> (\<And>x. m = Inr x \<Longrightarrow> clean (f x)) \<Longrightarrow> clean (bindE m f)"
  by (cases m) auto

lemma clean_guard [simp]: "clean (guardE b e) \<longleftrightarrow> (b \<longrightarrow> \<not> internal e)"
  by (simp add: guardE_def)

lemma clean_if [clean_rules]: "(b \<Longrightarrow> clean m) \<Longrightarrow> (\<not> b \<Longrightarrow> clean n) \<Longrightarrow> clean (if b then m else n)"
  by simp

lemma clean_foldE:
  assumes "P s" and "\<And>s x. x \<in> set xs \<Longrightarrow> P s \<Longrightarrow> clean (f s x)"
    and "\<And>s x t. x \<in> set xs \<Longrightarrow> P s \<Longrightarrow> f s x = Inr t \<Longrightarrow> P t"
  shows "clean (foldE f s xs)"
  using assms
proof (induction xs arbitrary: s)
  case (Cons x xs)
  show ?case
    unfolding foldE.simps
  proof (rule clean_bind)
    show "clean (f s x)"
      using Cons.prems(1,2) by simp
  next
    fix t assume "f s x = Inr t"
    then have "P t"
      using Cons.prems(1) Cons.prems(3) [of x s t] by simp
    then show "clean (foldE f t xs)"
      by (rule Cons.IH) (meson Cons.prems(2,3) list.set_intros(2))+
  qed
qed simp

lemma clean_foldE_all: "(\<And>s x. x \<in> set xs \<Longrightarrow> clean (f s x)) \<Longrightarrow> clean (foldE f s xs)"
  by (rule clean_foldE [where P = "\<lambda>_. True"]) auto

lemma clean_mapE [clean_rules]: "(\<And>x. x \<in> set xs \<Longrightarrow> clean (f x)) \<Longrightarrow> clean (mapE f xs)"
  by (induction xs) (auto intro!: clean_bind)

lemma clean_firstE [clean_rules]:
  "(\<And>x e. x \<in> set xs \<Longrightarrow> f x = Some e \<Longrightarrow> \<not> internal e) \<Longrightarrow> clean (firstE f xs)"
  by (induction xs) (auto split: option.split)

section \<open>Cards\<close>

lemma clean_card_i [clean_rules, simp]: "clean (card_i c k)"
  by (simp add: card_i_def split: flt.split)

lemma clean_read_fields [clean_rules]: "clean (read_fields s ts)"
  by (induction ts) (auto intro!: clean_bind split: option.split)

lemma clean_parse_card [clean_rules]: "clean (parse_card l)"
  unfolding parse_card_def Let_def
  by (auto intro!: clean_rules split: list.split)

lemma clean_gw_field_refusal [clean_rules]: "clean (gw_field_refusal c)"
  using gw_field_refusal_total [of c] by auto

section \<open>Geometry\<close>

lemma clean_arc_vertices [clean_rules]: "clean (arc_vertices c d)"
  unfolding arc_vertices_def Let_def by (intro clean_rules) auto

lemma clean_helix_vertices [clean_rules]: "clean (nec2_helix_vertices c)"
  unfolding nec2_helix_vertices_def Let_def helix_point_def by (intro clean_rules) auto

lemma clean_first_wire [clean_rules]: "clean (first_wire_with_tag ws t)"
  by (simp add: first_wire_with_tag_def split: option.split)

lemma clean_gm_transform [clean_rules]: "clean (gm_transform c)"
  by (simp add: gm_transform_def Let_def)

lemma clean_planes [clean_rules]: "clean (planes c)"
  unfolding planes_def by (intro clean_rules) auto

lemma clean_gx_step: "clean (gx_step st pl)"
  by (cases st; cases pl) (auto simp: gx_step_def reflect_def intro!: clean_rules)

lemma clean_gx_fold [clean_rules]: "clean (foldE gx_step st ps)"
  by (rule clean_foldE_all) (rule clean_gx_step)

definition clean_builders :: "(string \<Rightarrow> builder option) \<Rightarrow> bool" where
  "clean_builders builders \<longleftrightarrow> (\<forall>m b c ws. builders m = Some b \<longrightarrow> clean (b c ws))"

lemma clean_gw: "clean (gw c ws)"
  unfolding gw_def by (intro clean_rules) auto

lemma clean_ga: "clean (ga c ws)"
  unfolding ga_def by (intro clean_rules) auto

lemma clean_gh: "clean (gh c ws)"
  unfolding gh_def by (intro clean_rules) auto

lemma clean_gm: "clean (gm c ws)"
  unfolding gm_def by (intro clean_rules) auto

lemma clean_gs: "clean (gs c ws)"
  unfolding gs_def Let_def by (intro clean_rules) auto

lemma clean_gx: "clean (gx c ws)"
  unfolding gx_def by (intro clean_rules) auto

lemma clean_gr: "clean (gr c ws)"
  unfolding gr_def Let_def by (intro clean_rules) auto

lemma clean_geometry_builders: "clean_builders geometry_builders"
  by (auto simp: clean_builders_def geometry_builders_def clean_gw clean_ga clean_gh clean_gm
      clean_gs clean_gx clean_gr split: if_splits)

lemma clean_symmetry_after [clean_rules]: "clean (symmetry_after c ws b cell)"
  unfolding symmetry_after_def Let_def by (auto intro!: clean_rules)

lemma clean_build_wires [clean_rules]:
  assumes "clean_builders builders"
    and "\<forall>c \<in> set cards. mnemonic c = ''GE'' \<or> builders (mnemonic c) \<noteq> None"
  shows "clean (build_wires builders cards)"
  unfolding build_wires_def
proof (rule clean_foldE_all)
  fix st c assume c: "c \<in> set cards"
  show "clean (geometry_step builders st c)"
  proof (cases "mnemonic c = ''GE''")
    case True
    then show ?thesis
      unfolding geometry_step_def by (auto intro!: clean_rules)
  next
    case False
    then obtain b where b: "builders (mnemonic c) = Some b"
      using assms(2) c by auto
    then have "clean (b c (ge_wires st))"
      using assms(1) by (simp add: clean_builders_def)
    with False b show ?thesis
      unfolding geometry_step_def
      by (auto simp: wire_check_def intro!: clean_rules)
  qed
qed

end
