(* ===== verification/Snap_Laws.thy ===== *)
theory Snap_Laws
  imports Escapes
begin

text \<open>
  \<open>snap_connections\<close>: the grid finds every end within tolerance, so pass 1 puts two ends on
  one point exactly when a chain of ends within tolerance joins them, and the union-find
  behind it never runs out of fuel.
\<close>

section \<open>The grid\<close>

lemma grid_of_set: "set (grid_of cells c) = {k. k < length cells \<and> cells ! k = c}"
proof (induction cells rule: rev_induct)
  case Nil
  show ?case by (simp add: grid_of_def)
next
  case (snoc x xs)
  have zip: "zip [0..<length (xs @ [x])] (xs @ [x]) = zip [0..<length xs] xs @ [(length xs, x)]"
    by simp
  have step: "grid_of (xs @ [x]) c = (if c = x then grid_of xs c @ [length xs] else grid_of xs c)"
    unfolding grid_of_def zip foldl_append foldl.simps prod.case by (cases "c = x") (simp_all only: fun_upd_apply if_True if_False)
  have "k \<in> set (grid_of (xs @ [x]) c) \<longleftrightarrow> k \<in> set (grid_of xs c) \<or> c = x \<and> k = length xs" for k
    by (auto simp: step)
  then have mem: "k \<in> set (grid_of (xs @ [x]) c) \<longleftrightarrow> (k < length xs \<and> xs ! k = c) \<or> c = x \<and> k = length xs" for k
    unfolding snoc.IH mem_Collect_eq .
  show ?case
  proof (rule set_eqI)
    fix k
    show "k \<in> set (grid_of (xs @ [x]) c) \<longleftrightarrow> k \<in> {k. k < length (xs @ [x]) \<and> (xs @ [x]) ! k = c}"
      unfolding mem by (cases "k < length xs") (auto simp: nth_append)
  qed
qed

definition near_cells :: "cell \<Rightarrow> cell \<Rightarrow> bool" where
  "near_cells a b \<longleftrightarrow>
     \<bar>fst a - fst b\<bar> \<le> 1 \<and> \<bar>fst (snd a) - fst (snd b)\<bar> \<le> 1 \<and> \<bar>snd (snd a) - snd (snd b)\<bar> \<le> 1"

lemma step_offsets: "d \<in> set [-1, 0, 1 :: int] \<longleftrightarrow> \<bar>d\<bar> \<le> 1"
  by auto

lemma mem_concat_map: "k \<in> set (concat (map f xs)) \<longleftrightarrow> (\<exists>x \<in> set xs. k \<in> set (f x))"
  by simp

lemma neighborhood_set:
  "k \<in> set (neighborhood grid c) \<longleftrightarrow> (\<exists>b. near_cells b c \<and> k \<in> set (grid b))"
proof -
  obtain x y z where c: "c = (x, y, z)" by (cases c)
  have mem: "k \<in> set (neighborhood grid c) \<longleftrightarrow>
      (\<exists>dx \<in> set [-1, 0, 1]. \<exists>dy \<in> set [-1, 0, 1]. \<exists>dz \<in> set [-1, 0, 1].
        k \<in> set (grid (x + dx, y + dy, z + dz)))"
    unfolding c neighborhood_def prod.case mem_concat_map ..
  show ?thesis
  proof
    assume "k \<in> set (neighborhood grid c)"
    then obtain dx dy dz where "\<bar>dx\<bar> \<le> 1" "\<bar>dy\<bar> \<le> 1" "\<bar>dz\<bar> \<le> 1" "k \<in> set (grid (x + dx, y + dy, z + dz))"
      unfolding mem Bex_def step_offsets by blast
    then show "\<exists>b. near_cells b c \<and> k \<in> set (grid b)"
      by (intro exI [of _ "(x + dx, y + dy, z + dz)"]) (simp add: near_cells_def c)
  next
    assume "\<exists>b. near_cells b c \<and> k \<in> set (grid b)"
    then obtain a b d where b: "near_cells (a, b, d) c" "k \<in> set (grid (a, b, d))"
      by auto
    then have "\<bar>a - x\<bar> \<le> 1" "\<bar>b - y\<bar> \<le> 1" "\<bar>d - z\<bar> \<le> 1"
      "k \<in> set (grid (x + (a - x), y + (b - y), z + (d - z)))"
      by (simp_all add: near_cells_def c)
    then show "k \<in> set (neighborhood grid c)"
      unfolding mem Bex_def step_offsets by blast
  qed
qed

lemma cell_of_near:
  assumes "cell_of (Fin t) p = Inr a" "cell_of (Fin t) q = Inr b" "0 < t"
    and "l1 p q = Fin d" "d \<le> t"
  shows "near_cells a b"
proof -
  obtain px py pz qx qy qz where p: "p = (px, py, pz)" and q: "q = (qx, qy, qz)"
    by (cases p; cases q)
  have floor: "\<bar>\<lfloor>x / t\<rfloor> - \<lfloor>y / t\<rfloor>\<bar> \<le> 1" if "\<bar>x - y\<bar> \<le> t" for x y
  proof -
    have "\<bar>x / t - y / t\<bar> \<le> 1"
      using that assms(3) by (simp add: diff_divide_distrib [symmetric] abs_div)
    then show ?thesis by linarith
  qed
  have quot: "\<exists>r. x = Fin r \<and> i = \<lfloor>r / t\<rfloor>" if "ffloor (x / Fin t) = Inr i" for x i
    using that assms(3) by (cases x) (auto simp: divide_flt_def fval_def finf_def split: if_splits)
  from assms(1) p obtain a1 a2 a3 where a: "a = (a1, a2, a3)"
    "ffloor (px / Fin t) = Inr a1" "ffloor (py / Fin t) = Inr a2" "ffloor (pz / Fin t) = Inr a3"
    by (auto simp: cell_of_def okE)
  from assms(2) q obtain b1 b2 b3 where b: "b = (b1, b2, b3)"
    "ffloor (qx / Fin t) = Inr b1" "ffloor (qy / Fin t) = Inr b2" "ffloor (qz / Fin t) = Inr b3"
    by (auto simp: cell_of_def okE)
  obtain p1 p2 p3 q1 q2 q3 where r: "px = Fin p1" "py = Fin p2" "pz = Fin p3"
    "qx = Fin q1" "qy = Fin q2" "qz = Fin q3"
    using quot a b by metis
  have "\<bar>p1 - q1\<bar> + \<bar>p2 - q2\<bar> + \<bar>p3 - q3\<bar> = d"
    using assms(4) unfolding p q l1_def r
    by (auto simp: plus_Fin minus_flt_def fabs_def fval_def split: if_splits flt.splits)
  then have "\<bar>p1 - q1\<bar> \<le> t" "\<bar>p2 - q2\<bar> \<le> t" "\<bar>p3 - q3\<bar> \<le> t"
    using assms(5) by linarith+
  then show ?thesis
    unfolding near_cells_def a(1) b(1) fst_conv snd_conv
    using quot [OF a(2)] quot [OF a(3)] quot [OF a(4)] quot [OF b(2)] quot [OF b(3)] quot [OF b(4)] r floor
    by auto
qed

section \<open>Pass 1\<close>

lemma links_bound:
  "length cells = length pts \<Longrightarrow> set (links pts lens cells) \<subseteq> {..<length pts} \<times> {..<length pts}"
  by (auto simp: links_def neighborhood_set grid_of_set)

text \<open>The widest tolerance of any pair is the grid's cell size.\<close>

lemma foldl_fmax:
  assumes "list_all is_fin (a # xs)"
  shows "\<exists>m. foldl fmax a xs = Fin m \<and> Fin m \<in> set (a # xs) \<and>
    (\<forall>x. a = Fin x \<or> Fin x \<in> set xs \<longrightarrow> x \<le> m)"
  using assms
proof (induction xs arbitrary: a)
  case Nil
  then show ?case by (auto elim!: is_finE)
next
  case (Cons y ys)
  obtain r q where r: "a = Fin r" "y = Fin q"
    using Cons.prems by (auto elim!: is_finE)
  have "fmax a y = Fin (max r q)"
    using r by (simp add: fmax_def max_def)
  moreover obtain m where "foldl fmax (Fin (max r q)) ys = Fin m" "Fin m \<in> set (Fin (max r q) # ys)"
    "\<forall>x. Fin (max r q) = Fin x \<or> Fin x \<in> set ys \<longrightarrow> x \<le> m"
    using Cons.IH [of "Fin (max r q)"] Cons.prems by auto
  ultimately show ?case
    using r by (auto simp: max_def split: if_splits intro: order_trans)
qed

definition span :: real where
  \<comment> \<open>the largest difference of two coordinates within the limit\<close>
  "span = 2 * coordinate_limit"

lemma fval_span: "\<bar>u\<bar> \<le> 3 * span \<Longrightarrow> fval u = Fin u"
proof (rule fval_small)
  assume "\<bar>u\<bar> \<le> 3 * span"
  moreover have "3 * span \<le> 10 ^ 308"
    by (simp add: span_def coordinate_limit_def)
  ultimately show "\<bar>u\<bar> \<le> 10 ^ 308" by linarith
qed

lemma near_points:
  assumes "near_point p" "near_point q"
  obtains x y z a b c where "p = (Fin x, Fin y, Fin z)" "q = (Fin a, Fin b, Fin c)"
    "\<bar>x - a\<bar> \<le> span" "\<bar>y - b\<bar> \<le> span" "\<bar>z - c\<bar> \<le> span"
    "Fin x - Fin a = Fin (x - a)" "Fin y - Fin b = Fin (y - b)" "Fin z - Fin c = Fin (z - c)"
proof -
  obtain x y z where p: "p = (Fin x, Fin y, Fin z)" "\<bar>x\<bar> \<le> coordinate_limit" "\<bar>y\<bar> \<le> coordinate_limit" "\<bar>z\<bar> \<le> coordinate_limit"
    using assms(1) by (cases p) (auto simp: near_point_def)
  obtain a b c where q: "q = (Fin a, Fin b, Fin c)" "\<bar>a\<bar> \<le> coordinate_limit" "\<bar>b\<bar> \<le> coordinate_limit" "\<bar>c\<bar> \<le> coordinate_limit"
    using assms(2) by (cases q) (auto simp: near_point_def)
  have d: "\<bar>x - a\<bar> \<le> span" "\<bar>y - b\<bar> \<le> span" "\<bar>z - c\<bar> \<le> span"
    unfolding span_def using p(2-) q(2-) by linarith+
  then have "\<bar>x - a\<bar> \<le> 3 * span" "\<bar>y - b\<bar> \<le> 3 * span" "\<bar>z - c\<bar> \<le> 3 * span"
    by linarith+
  then have "Fin x - Fin a = Fin (x - a)" "Fin y - Fin b = Fin (y - b)" "Fin z - Fin c = Fin (z - c)"
    by (simp_all only: flt_ops_Fin fval_span)
  with p(1) q(1) d show thesis
    by (rule that)
qed

lemma span_sqrt: 
  assumes "\<bar>x\<bar> \<le> span" "\<bar>y\<bar> \<le> span" "\<bar>z\<bar> \<le> span"
  shows "sqrt (x\<^sup>2 + y\<^sup>2 + z\<^sup>2) \<le> 3 * span"
proof (rule real_le_lsqrt)
  have K: "0 \<le> span" by (simp add: span_def coordinate_limit_def)
  then show "0 \<le> 3 * span" by simp
  have "x\<^sup>2 \<le> span\<^sup>2" "y\<^sup>2 \<le> span\<^sup>2" "z\<^sup>2 \<le> span\<^sup>2"
    using assms K by (simp_all add: abs_le_square_iff [symmetric])
  moreover have "0 \<le> span\<^sup>2" "(3 * span)\<^sup>2 = 9 * span\<^sup>2"
    by (simp_all add: power_mult_distrib)
  ultimately show "x\<^sup>2 + y\<^sup>2 + z\<^sup>2 \<le> (3 * span)\<^sup>2"
    by linarith
qed

lemma near_dist:
  assumes "near_point p" "near_point q"
  shows "is_fin (fdist p q)"
proof -
  obtain x y z a b c where p: "p = (Fin x, Fin y, Fin z)" and q: "q = (Fin a, Fin b, Fin c)"
    and d: "\<bar>x - a\<bar> \<le> span" "\<bar>y - b\<bar> \<le> span" "\<bar>z - c\<bar> \<le> span"
    and fin: "Fin x - Fin a = Fin (x - a)" "Fin y - Fin b = Fin (y - b)" "Fin z - Fin c = Fin (z - c)"
    using near_points [OF assms] by metis
  have "fval (sqrt ((x - a)\<^sup>2 + (y - b)\<^sup>2 + (z - c)\<^sup>2)) = Fin (sqrt ((x - a)\<^sup>2 + (y - b)\<^sup>2 + (z - c)\<^sup>2))"
    using span_sqrt [OF d] by (intro fval_span) simp
  then show ?thesis
    unfolding p q fdist_def prod.case fin flt.case by (simp only: is_fin_simps)
qed

lemma near_l1:
  assumes "near_point p" "near_point q"
  shows "\<exists>d. l1 p q = Fin d"
proof -
  obtain x y z a b c where p: "p = (Fin x, Fin y, Fin z)" and q: "q = (Fin a, Fin b, Fin c)"
    and d: "\<bar>x - a\<bar> \<le> span" "\<bar>y - b\<bar> \<le> span" "\<bar>z - c\<bar> \<le> span"
    and fin: "Fin x - Fin a = Fin (x - a)" "Fin y - Fin b = Fin (y - b)" "Fin z - Fin c = Fin (z - c)"
    using near_points [OF assms] by metis
  have "Fin \<bar>x - a\<bar> + Fin \<bar>y - b\<bar> = Fin (\<bar>x - a\<bar> + \<bar>y - b\<bar>)"
    unfolding flt_ops_Fin using d by (intro fval_span) linarith
  moreover have "Fin (\<bar>x - a\<bar> + \<bar>y - b\<bar>) + Fin \<bar>z - c\<bar> = Fin (\<bar>x - a\<bar> + \<bar>y - b\<bar> + \<bar>z - c\<bar>)"
    unfolding flt_ops_Fin using d by (intro fval_span) linarith
  ultimately have "Fin \<bar>x - a\<bar> + Fin \<bar>y - b\<bar> + Fin \<bar>z - c\<bar> = Fin (\<bar>x - a\<bar> + \<bar>y - b\<bar> + \<bar>z - c\<bar>)"
    by (simp only:)
  then show ?thesis
    unfolding p q l1_def prod.case fin fabs_Fin by blast
qed

lemma near_segment_length:
  assumes "near_point (fw_p1 w)" "near_point (fw_p2 w)" "1 \<le> fw_n_seg w"
  shows "\<exists>d. segment_length w = Fin d \<and> 0 \<le> d \<and> d < flt_limit"
proof -
  obtain d where d: "flat_length w = Fin d"
    using near_dist [OF assms(1,2)] by (auto simp: flat_length_def elim: is_finE)
  then have d2: "0 \<le> d" "d < flt_limit"
    by (auto simp: flat_length_def fdist_def split: prod.splits flt.splits if_splits)
  consider "fint (fw_n_seg w) = PInf" | n where "fint (fw_n_seg w) = Fin n" "1 \<le> n"
    using assms(3) by (cases "real_of_int (fw_n_seg w) < flt_limit") (auto simp: fint_def fval_def)
  then show ?thesis
  proof cases
    case 1
    then show ?thesis by (simp add: segment_length_def d divide_flt_def)
  next
    case 2
    then have "d / n \<le> d / 1"
      using d2(1) by (intro divide_left_mono) simp_all
    then have "0 \<le> d / n" "d / n < flt_limit"
      using d2 2(2) by simp_all
    then show ?thesis
      using 2 by (simp add: segment_length_def d divide_flt_def fval_def)
  qed
qed

text \<open>Two ends within tolerance of each other are linked, and only those.\<close>

definition close_pairs :: "flat_wire list \<Rightarrow> (nat \<times> nat) set" where
  "close_pairs ws =
     {(k, j). k < j \<and> j < length (end_points ws) \<and> close_ends (end_points ws) (end_seg_lens ws) k j}"

definition joined :: "flat_wire list \<Rightarrow> nat \<Rightarrow> nat \<Rightarrow> bool" where
  \<comment> \<open>a chain of ends within tolerance leads from one to the other\<close>
  "joined ws k j \<longleftrightarrow> (k, j) \<in> (close_pairs ws \<union> (close_pairs ws)\<inverse>)\<^sup>*"

lemma length_end_points: "length (end_points ws) = 2 * length ws"
  by (induction ws) (simp_all add: end_points_def)

lemma length_end_seg_lens: "length (end_seg_lens ws) = 2 * length ws"
  by (induction ws) (simp_all add: end_seg_lens_def)

lemma end_points_nth:
  "k < 2 * length ws \<Longrightarrow>
    end_points ws ! k = (if even k then fw_p1 (ws ! (k div 2)) else fw_p2 (ws ! (k div 2)))"
proof (induction ws arbitrary: k)
  case (Cons w ws)
  consider "k = 0" | "k = 1" | j where "k = Suc (Suc j)"
    by (metis One_nat_def not0_implies_Suc)
  then show ?case
  proof cases
    case 3
    then show ?thesis
      using Cons.IH [of j] Cons.prems by (simp add: end_points_def)
  qed (simp_all add: end_points_def)
qed simp

definition near_wires :: "flat_wire list \<Rightarrow> bool" where
  \<comment> \<open>what every wire that passes \<open>wire_check\<close> is\<close>
  "near_wires ws \<longleftrightarrow> (\<forall>w \<in> set ws. near_point (fw_p1 w) \<and> near_point (fw_p2 w) \<and> 1 \<le> fw_n_seg w)"

lemma near_seg_lens:
  assumes "near_wires ws" "l \<in> set (end_seg_lens ws)"
  shows "\<exists>d. l = Fin d \<and> 0 \<le> d \<and> d < flt_limit"
  using assms near_segment_length by (auto simp: near_wires_def end_seg_lens_def)

lemma smin_times: "0 \<le> d \<Longrightarrow> d < flt_limit \<Longrightarrow> smin * Fin d = Fin (d / 1000)"
  by (simp add: smin_def flt_ops_Fin fval_def)

lemma snap_tolerance_bound:
  assumes "near_wires ws" "ws \<noteq> []"
  shows "\<exists>t. snap_tolerance ws = Fin t \<and>
    (\<forall>k j d. k < length (end_points ws) \<longrightarrow> j < length (end_points ws) \<longrightarrow>
      Fin d \<le> smin * fmin (end_seg_lens ws ! k) (end_seg_lens ws ! j) \<longrightarrow> d \<le> t)"
proof -
  obtain l ls where l: "end_seg_lens ws = l # ls"
    using assms(2) length_end_seg_lens [of ws] by (cases "end_seg_lens ws") auto
  have fin: "list_all is_fin (end_seg_lens ws)"
    using near_seg_lens [OF assms(1)] by (fastforce simp: list_all_iff)
  obtain m where m: "foldl fmax l ls = Fin m" "Fin m \<in> set (end_seg_lens ws)"
    and max: "\<And>x. Fin x \<in> set (end_seg_lens ws) \<Longrightarrow> x \<le> m"
    using foldl_fmax [of l ls] fin l by auto
  have t: "snap_tolerance ws = Fin (m / 1000)"
    using near_seg_lens [OF assms(1) m(2)] by (auto simp: snap_tolerance_def l m(1) smin_times)
  have "d \<le> m / 1000"
    if kj: "k < length (end_points ws)" "j < length (end_points ws)"
      and le: "Fin d \<le> smin * fmin (end_seg_lens ws ! k) (end_seg_lens ws ! j)" for k j d
  proof -
    have mem: "end_seg_lens ws ! k \<in> set (end_seg_lens ws)" "end_seg_lens ws ! j \<in> set (end_seg_lens ws)"
      using kj by (simp_all add: length_end_points length_end_seg_lens)
    obtain a where a: "end_seg_lens ws ! k = Fin a" "0 \<le> a" "a < flt_limit"
      using near_seg_lens [OF assms(1) mem(1)] by blast
    obtain b where b: "end_seg_lens ws ! j = Fin b" "0 \<le> b" "b < flt_limit"
      using near_seg_lens [OF assms(1) mem(2)] by blast
    have "fmin (Fin a) (Fin b) = Fin (min a b)"
      by (simp add: fmin_def min_def)
    then have "d \<le> min a b / 1000"
      using le a b by (simp add: smin_times)
    moreover have "a \<le> m"
      using max mem(1) a(1) by metis
    ultimately show ?thesis by linarith
  qed
  with t show ?thesis by blast
qed

lemma close_distance:
  assumes "near_wires ws" "k < length (end_points ws)" "j < length (end_points ws)"
    and "close_ends (end_points ws) (end_seg_lens ws) k j" "snap_tolerance ws = Fin t"
  shows "\<exists>d. l1 (end_points ws ! k) (end_points ws ! j) = Fin d \<and> d \<le> t"
proof -
  let ?p = "end_points ws ! k" and ?q = "end_points ws ! j"
  have ws: "ws \<noteq> []"
    using assms(2) by (auto simp: end_points_def)
  have near: "near_point ?p" "near_point ?q"
    using assms(1-3) by (auto simp: end_points_nth length_end_points near_wires_def)
  then obtain d where "l1 ?p ?q = Fin d"
    using near_l1 by blast
  then show ?thesis
    using snap_tolerance_bound [OF assms(1) ws] assms(2-5) unfolding close_ends_def by auto
qed


lemma close_neighbour:
  assumes "near_wires ws" "mapE (cell_of (snap_tolerance ws)) (end_points ws) = Inr cells"
    and "Fin 0 < snap_tolerance ws" "(k, j) \<in> close_pairs ws"
  shows "j \<in> set (neighborhood (grid_of cells) (cells ! k))"
proof -
  have kj: "k < length (end_points ws)" "j < length (end_points ws)"
    and close: "close_ends (end_points ws) (end_seg_lens ws) k j"
    using assms(4) by (auto simp: close_pairs_def)
  have "ws \<noteq> []"
    using kj(1) by (auto simp: end_points_def)
  then obtain t where t: "snap_tolerance ws = Fin t"
    using snap_tolerance_bound [OF assms(1)] by blast
  obtain d where d: "l1 (end_points ws ! k) (end_points ws ! j) = Fin d" "d \<le> t"
    using close_distance [OF assms(1) kj close t] by blast
  have "near_cells (cells ! k) (cells ! j)"
    using mapE_nth [OF assms(2) kj(1)] mapE_nth [OF assms(2) kj(2)] assms(3) d
    unfolding t by (intro cell_of_near) simp_all
  then have "near_cells (cells ! j) (cells ! k)"
    unfolding near_cells_def by (simp add: abs_minus_commute)
  moreover have "j \<in> set (grid_of cells (cells ! j))"
    using kj(2) mapE_length [OF assms(2)] by (simp add: grid_of_set)
  ultimately show ?thesis
    unfolding neighborhood_set by blast
qed

lemma links_close_pairs:
  assumes "near_wires ws" "mapE (cell_of (snap_tolerance ws)) (end_points ws) = Inr cells"
    and "Fin 0 < snap_tolerance ws"
  shows "set (links (end_points ws) (end_seg_lens ws) cells) = close_pairs ws"
proof -
  let ?L = "links (end_points ws) (end_seg_lens ws) cells"
  have bound: "j < length (end_points ws)" if "j \<in> set (neighborhood (grid_of cells) c)" for j c
    using that mapE_length [OF assms(2)] by (auto simp: neighborhood_set grid_of_set)
  have link: "(k, j) \<in> set ?L \<longleftrightarrow>
      k < length (end_points ws) \<and> k < j \<and> close_ends (end_points ws) (end_seg_lens ws) k j \<and>
      j \<in> set (neighborhood (grid_of cells) (cells ! k))" for k j
    by (auto simp: links_def)
  have "(k, j) \<in> set ?L \<longleftrightarrow> (k, j) \<in> close_pairs ws" for k j
  proof (cases "(k, j) \<in> close_pairs ws")
    case True
    then have "k < j" "j < length (end_points ws)" "close_ends (end_points ws) (end_seg_lens ws) k j"
      by (simp_all add: close_pairs_def)
    with True close_neighbour [OF assms True] show ?thesis
      unfolding link by simp
  next
    case False
    then show ?thesis
      unfolding link using bound [of j "cells ! k"] by (auto simp: close_pairs_def)
  qed
  then show ?thesis
    by (intro set_eqI) (metis surj_pair)
qed

lemma set_end_points:
  assumes "k < 2 * length ws"
  shows "end_points (set_end ws k p) = (end_points ws)[k := p]"
proof (rule nth_equalityI)
  have len: "length (set_end ws k p) = length ws"
    by (simp add: set_end_def Let_def)
  then show "length (end_points (set_end ws k p)) = length ((end_points ws)[k := p])"
    by (simp add: length_end_points)
  fix i assume "i < length (end_points (set_end ws k p))"
  then have i: "i < 2 * length ws"
    by (simp add: length_end_points len)
  show "end_points (set_end ws k p) ! i = (end_points ws)[k := p] ! i"
  proof (cases "i = k")
    case True
    then show ?thesis
      using i assms
      by (simp add: end_points_nth len length_end_points set_end_def Let_def even_iff_mod_2_eq_zero)
  next
    case False
    then consider "k div 2 \<noteq> i div 2" | "i mod 2 \<noteq> k mod 2"
      by (metis mod_mult_div_eq)
    then show ?thesis
      using i assms False
      by cases (auto simp: end_points_nth len length_end_points nth_list_update set_end_def Let_def
          even_iff_mod_2_eq_zero)
  qed
qed

definition snapped :: "flat_wire list \<Rightarrow> nat list \<Rightarrow> nat \<Rightarrow> snap_state \<Rightarrow> bool" where
  \<comment> \<open>the first \<open>m\<close> ends rewritten onto their roots\<close>
  "snapped ws parent m s \<longleftrightarrow>
     uf_ok (length (end_points ws)) (sn_parent s) \<and>
     (\<forall>y < length (end_points ws). uf_rep (sn_parent s) y = uf_rep parent y) \<and>
     length (sn_wires s) = length ws \<and> end_points (sn_wires s) = sn_pts s \<and>
     (\<forall>i < length (end_points ws). sn_pts s ! i =
        end_points ws ! (if i < m then uf_rep parent i else i))"

lemma snap_root_snapped:
  assumes "uf_ok (length (end_points ws)) parent" "snapped ws parent m s" "m < length (end_points ws)"
  shows "\<exists>s'. snap_root s m = Inr s' \<and> snapped ws parent (Suc m) s'"
proof -
  let ?n = "length (end_points ws)"
  have s: "uf_ok ?n (sn_parent s)" "\<And>y. y < ?n \<Longrightarrow> uf_rep (sn_parent s) y = uf_rep parent y"
    "length (sn_wires s) = length ws" "end_points (sn_wires s) = sn_pts s"
    "\<And>i. i < ?n \<Longrightarrow> sn_pts s ! i = end_points ws ! (if i < m then uf_rep parent i else i)"
    using assms(2) by (simp_all only: snapped_def)
  have len: "length (sn_pts s) = ?n"
    using s(3,4) length_end_points by metis
  let ?r = "uf_rep parent m"
  obtain p' where p': "find_root (sn_parent s) m = Inr (p', ?r)" "uf_ok ?n p'"
    "\<And>y. y < ?n \<Longrightarrow> uf_rep p' y = uf_rep parent y"
    using find_root_ok [OF s(1) assms(3)] s(2) assms(3) by metis
  have r: "?r < ?n" "uf_rep parent ?r = ?r"
    using uf_rep_less [OF assms(1,3)] uf_rep_root [OF assms(1,3)] uf_rep_of_root by auto
  have at_root: "sn_pts s ! ?r = end_points ws ! ?r"
    using s(5) [OF r(1)] r(2) by simp
  show ?thesis
  proof (cases "?r = m")
    case True
    then have "snap_root s m = Inr (s\<lparr>sn_parent := p'\<rparr>)"
      using p'(1) by (simp add: snap_root_def)
    moreover have "sn_pts s ! i = end_points ws ! (if i < Suc m then uf_rep parent i else i)"
      if "i < ?n" for i
      using s(5) [OF that] True by (auto simp: less_Suc_eq)
    ultimately show ?thesis
      using p' s(3,4) by (simp add: snapped_def)
  next
    case False
    let ?s = "\<lparr>sn_parent = p', sn_wires = set_end (sn_wires s) m (sn_pts s ! ?r),
      sn_pts = (sn_pts s)[m := sn_pts s ! ?r]\<rparr>"
    have "snap_root s m = Inr ?s"
      using p'(1) False by (simp add: snap_root_def)
    moreover have "(sn_pts s)[m := sn_pts s ! ?r] ! i =
        end_points ws ! (if i < Suc m then uf_rep parent i else i)" if "i < ?n" for i
      using s(5) [OF that] at_root len that by (auto simp: nth_list_update less_Suc_eq)
    moreover have "end_points (set_end (sn_wires s) m (sn_pts s ! ?r)) = (sn_pts s)[m := sn_pts s ! ?r]"
      using assms(3) s(3,4) by (simp add: set_end_points length_end_points)
    moreover have "length (set_end (sn_wires s) m (sn_pts s ! ?r)) = length ws"
      using s(3) by (simp add: set_end_def Let_def)
    ultimately show ?thesis
      using p' by (simp add: snapped_def)
  qed
qed

lemma snap_roots:
  assumes "uf_ok (length (end_points ws)) parent" "m \<le> length (end_points ws)"
  shows "\<exists>s. foldE snap_root \<lparr>sn_parent = parent, sn_wires = ws, sn_pts = end_points ws\<rparr> [0..<m] = Inr s
    \<and> snapped ws parent m s"
  using assms(2)
proof (induction m)
  case 0
  then show ?case
    using assms(1) by (simp add: snapped_def)
next
  case (Suc m)
  then obtain s where s:
    "foldE snap_root \<lparr>sn_parent = parent, sn_wires = ws, sn_pts = end_points ws\<rparr> [0..<m] = Inr s"
    "snapped ws parent m s" by auto
  with snap_root_snapped [OF assms(1) s(2)] Suc.prems show ?case
    by (auto simp: foldE_append)
qed

text \<open>Pass 1 fails only where the grid does, and puts two ends on one point when a chain of
  close ends joins them; the point is an end of the chain's.\<close>

lemma snap_ends_clusters:
  assumes "near_wires ws" "Fin 0 < snap_tolerance ws"
    and "mapE (cell_of (snap_tolerance ws)) (end_points ws) = Inr cells"
  shows "\<exists>s rep. snap_ends (snap_tolerance ws) ws = Inr s \<and> end_points (sn_wires s) = sn_pts s \<and>
    (\<forall>k < length (end_points ws). rep k < length (end_points ws) \<and> joined ws k (rep k) \<and>
       sn_pts s ! k = end_points ws ! rep k) \<and>
    (\<forall>k < length (end_points ws). \<forall>j < length (end_points ws). joined ws k j \<longrightarrow> rep k = rep j)"
proof -
  let ?n = "length (end_points ws)" and ?ls = "links (end_points ws) (end_seg_lens ws) cells"
  have links: "set ?ls = close_pairs ws"
    using links_close_pairs [OF assms(1,3,2)] .
  then have rel: "(k, j) \<in> link_rel ?ls \<longleftrightarrow> joined ws k j" for k j
    by (simp only: link_rel_def joined_def)
  have bound: "set ?ls \<subseteq> {..<?n} \<times> {..<?n}"
    using links_bound [OF mapE_length [OF assms(3)]] .
  obtain p where p: "foldE uf_link [0..<?n] ?ls = Inr p" "uf_ok ?n p"
    "\<And>x y. x < ?n \<Longrightarrow> y < ?n \<Longrightarrow> uf_rep p x = uf_rep p y \<longleftrightarrow> (x, y) \<in> link_rel ?ls"
    using links_cluster [OF bound] by blast
  obtain s where s: "foldE snap_root \<lparr>sn_parent = p, sn_wires = ws, sn_pts = end_points ws\<rparr> [0..<?n] = Inr s"
    "snapped ws p ?n s"
    using snap_roots [OF p(2)] by blast
  have "snap_ends (snap_tolerance ws) ws = Inr s"
    using assms(3) p(1) s(1) by (simp add: snap_ends_def Let_def)
  moreover have "uf_rep p k < ?n" "joined ws k (uf_rep p k)" if "k < ?n" for k
  proof -
    show r: "uf_rep p k < ?n"
      using uf_rep_less [OF p(2) that] .
    have "uf_rep p k = uf_rep p (uf_rep p k)"
      using uf_rep_of_root [OF uf_rep_root [OF p(2) that]] by simp
    then show "joined ws k (uf_rep p k)"
      using p(3) [OF that r] rel by simp
  qed
  moreover have "uf_rep p k = uf_rep p j" if "k < ?n" "j < ?n" "joined ws k j" for k j
    using p(3) that rel by simp
  ultimately show ?thesis
    using s(2) by (intro exI [of _ s] exI [of _ "uf_rep p"]) (simp add: snapped_def)
qed

section \<open>No internal exceptions\<close>

lemma clean_ffloor [clean_rules]: "clean (ffloor x)"
  by (cases x) simp_all

lemma clean_fround [clean_rules]: "clean (fround x)"
  by (cases x) simp_all

lemma clean_cell_of [clean_rules]: "clean (cell_of t p)"
  by (cases p) (auto simp: cell_of_def intro!: clean_rules)

lemma clean_node_key [clean_rules]: "clean (node_key p)"
  by (cases p) (auto simp: node_key_def intro!: clean_rules)

lemma clean_snap_ends: "clean (snap_ends tol ws)"
proof (cases "mapE (cell_of tol) (end_points ws)")
  case (Inl e)
  moreover have "clean (mapE (cell_of tol) (end_points ws))"
    by (intro clean_rules)
  ultimately show ?thesis
    by (simp add: snap_ends_def Let_def)
next
  case (Inr cells)
  let ?ls = "links (end_points ws) (end_seg_lens ws) cells"
  obtain p where p: "foldE uf_link [0..<length (end_points ws)] ?ls = Inr p"
    "uf_ok (length (end_points ws)) p"
    using links_cluster [OF links_bound [OF mapE_length [OF Inr]]] by blast
  then show ?thesis
    using snap_roots [OF p(2) order_refl] Inr by (auto simp: snap_ends_def Let_def)
qed

lemma clean_snap_boundary: "clean (snap_boundary tol bs g lens pts ws k)"
  unfolding snap_boundary_def by (intro clean_rules) (auto split: option.split)

lemma clean_snap_connections [clean_rules]: "clean (snap_connections ws)"
  unfolding snap_connections_def snap_onto_boundaries_def Let_def
  by (auto intro!: clean_rules clean_snap_ends clean_foldE_all clean_snap_boundary)

lemma clean_junction_cuts [clean_rules]: "clean (junction_cuts ws)"
  unfolding junction_cuts_def by (intro clean_rules) auto

lemma clean_build_geometry:
  assumes "clean_builders builders"
    and "\<forall>c \<in> set cards. mnemonic c = ''GE'' \<or> builders (mnemonic c) \<noteq> None"
  shows "clean (build_geometry builders cards)"
  unfolding build_geometry_def
  by (intro clean_rules assms) (auto split: prod.split)

end
