(* ===== verification/Nec2_Laws.thy ===== *)
theory Nec2_Laws
  imports Nec2 Snap_Laws
begin

text \<open>
  The invariant of the deck state machine (\<open>parser_ok\<close>) and the interface a dialect's hooks
  meet (\<open>deck_dialect\<close>): under it every card keeps the invariant and no card raises an
  internal exception.
\<close>

section \<open>Steps that keep a property\<close>

definition ok_result :: "('a \<Rightarrow> bool) \<Rightarrow> pyexn + 'a \<Rightarrow> bool" where
  \<comment> \<open>the property holds of the result, or an exception that is not internal is raised\<close>
  "ok_result P m \<longleftrightarrow> (case m of Inl e \<Rightarrow> \<not> internal e | Inr x \<Rightarrow> P x)"

named_theorems okr \<open>composition of steps that keep a property\<close>

lemma ok_result_Inr [simp]: "ok_result P (Inr x) \<longleftrightarrow> P x"
  by (simp add: ok_result_def)

lemma ok_result_Inl [simp]: "ok_result P (Inl e) \<longleftrightarrow> \<not> internal e"
  by (simp add: ok_result_def)

lemma ok_result_value:
  "clean m \<Longrightarrow> (\<And>x. m = Inr x \<Longrightarrow> ok_result P (f x)) \<Longrightarrow> ok_result P (bindE m f)"
  by (cases m) auto

lemma ok_result_bind:
  "ok_result Q m \<Longrightarrow> (\<And>x. m = Inr x \<Longrightarrow> Q x \<Longrightarrow> ok_result P (f x)) \<Longrightarrow> ok_result P (bindE m f)"
  by (cases m) auto

lemma ok_result_if [okr]:
  "(b \<Longrightarrow> ok_result P m) \<Longrightarrow> (\<not> b \<Longrightarrow> ok_result P n) \<Longrightarrow> ok_result P (if b then m else n)"
  by simp

lemma ok_result_guard [okr]:
  "(b \<Longrightarrow> \<not> internal e) \<Longrightarrow> (\<not> b \<Longrightarrow> ok_result P (f ())) \<Longrightarrow> ok_result P (bindE (guardE b e) f)"
  by (cases b) auto

lemma ok_result_card_i [okr]:
  "(\<And>i. card_i c k = Inr i \<Longrightarrow> ok_result P (f i)) \<Longrightarrow> ok_result P (bindE (card_i c k) f)"
  by (rule ok_result_value) (rule clean_card_i)

lemma ok_result_clean: "ok_result P m \<Longrightarrow> clean m"
  by (cases m) auto

lemma ok_result_mono: "ok_result P m \<Longrightarrow> (\<And>x. P x \<Longrightarrow> Q x) \<Longrightarrow> ok_result Q m"
  by (cases m) auto

lemma ok_result_foldE:
  "P s \<Longrightarrow> (\<And>s x. x \<in> set xs \<Longrightarrow> P s \<Longrightarrow> ok_result P (f s x)) \<Longrightarrow> ok_result P (foldE f s xs)"
  by (induction xs arbitrary: s) (auto intro!: ok_result_bind)

section \<open>The invariant\<close>

definition loads_ok :: "'a parser_scheme \<Rightarrow> bool" where
  \<comment> \<open>the loads in force, now and at every execute card, are entries of the log\<close>
  "loads_ok p \<longleftrightarrow>
     set (ps_live p) \<subseteq> {..<length (ps_load_log p)} \<and>
     (\<forall>g. Some g \<in> set (ps_groups p) \<longrightarrow> set (pg_loads g) \<subseteq> {..<length (ps_load_log p)}) \<and>
     dom (ps_load_spec_at p) \<subseteq> ps_loaded p \<and>
     distinct (map fst (ps_wire_conductivity p)) \<and> distinct (map fst (ps_wire_distributed p))"

definition groups_ok :: "'a parser_scheme \<Rightarrow> bool" where
  "groups_ok p \<longleftrightarrow>
     ps_executed p = length (filter (\<lambda>g. g \<noteq> None) (ps_groups p)) \<and>
     (ps_groups p \<noteq> [] \<longrightarrow> hd (ps_groups p) \<noteq> None) \<and>
     (\<not> ps_armed p \<or> ps_sources_stale p \<or> ps_operator_dirty p \<longrightarrow> ps_executed p \<noteq> 0) \<and>
     ps_frequencies p \<noteq> [] \<and>
     (ps_sources p \<noteq> [] \<longrightarrow> ps_saw_ex p) \<and>
     (\<forall>g. Some g \<in> set (ps_groups p) \<longrightarrow> pg_frequencies g \<noteq> [] \<and>
        (pg_sources g \<noteq> [] \<longrightarrow> ps_saw_ex p)) \<and>
     (\<forall>n \<in> set (ps_networks p). nc_first_group n \<le> length (ps_groups p))"

definition geometry_ok :: "(string \<Rightarrow> builder option) \<Rightarrow> 'a parser_scheme \<Rightarrow> bool" where
  \<comment> \<open>the cached structure is the one the cards read so far make\<close>
  "geometry_ok builders p \<longleftrightarrow>
     (\<forall>c \<in> set (ps_geometry_cards p). mnemonic c = ''GE'' \<or> builders (mnemonic c) \<noteq> None) \<and>
     (\<forall>s. ps_structure p = Some s \<longrightarrow> build_geometry builders (ps_geometry_cards p) = Inr s)"

definition parser_ok :: "(string \<Rightarrow> builder option) \<Rightarrow> 'a parser_scheme \<Rightarrow> bool" where
  "parser_ok builders p \<longleftrightarrow> loads_ok p \<and> groups_ok p \<and> geometry_ok builders p"

lemma init_parser_ok: "parser_ok builders init_parser"
  by (simp add: parser_ok_def loads_ok_def groups_ok_def geometry_ok_def init_parser_def)

definition handler_ok ::
  "(string \<Rightarrow> builder option) \<Rightarrow> (card \<Rightarrow> 'a parser_scheme \<Rightarrow> pyexn + 'a parser_scheme) \<Rightarrow> bool" where
  "handler_ok builders f \<longleftrightarrow>
     (\<forall>c p. parser_ok builders p \<longrightarrow> ok_result (parser_ok builders) (f c p))"

text \<open>Fields a part of the invariant does not read.\<close>

lemma loads_ok_frame [simp]:
  "loads_ok (p\<lparr>ps_comments := x_comments\<rparr>) = loads_ok p"
  "loads_ok (p\<lparr>ps_quiet := x_quiet\<rparr>) = loads_ok p"
  "loads_ok (p\<lparr>ps_reduced_field := x_reduced_field\<rparr>) = loads_ok p"
  "loads_ok (p\<lparr>ps_geometry_cards := x_geometry_cards\<rparr>) = loads_ok p"
  "loads_ok (p\<lparr>ps_structure := x_structure\<rparr>) = loads_ok p"
  "loads_ok (p\<lparr>ps_armed := x_armed\<rparr>) = loads_ok p"
  "loads_ok (p\<lparr>ps_executed := x_executed\<rparr>) = loads_ok p"
  "loads_ok (p\<lparr>ps_fresh_fr := x_fresh_fr\<rparr>) = loads_ok p"
  "loads_ok (p\<lparr>ps_print_control := x_print_control\<rparr>) = loads_ok p"
  "loads_ok (p\<lparr>ps_multiprocessing := x_multiprocessing\<rparr>) = loads_ok p"
  "loads_ok (p\<lparr>ps_saw_ex := x_saw_ex\<rparr>) = loads_ok p"
  "loads_ok (p\<lparr>ps_operator_dirty := x_operator_dirty\<rparr>) = loads_ok p"
  "loads_ok (p\<lparr>ps_sources := x_sources\<rparr>) = loads_ok p"
  "loads_ok (p\<lparr>ps_sources_stale := x_sources_stale\<rparr>) = loads_ok p"
  "loads_ok (p\<lparr>ps_frequencies := x_frequencies\<rparr>) = loads_ok p"
  "loads_ok (p\<lparr>ps_ground := x_ground\<rparr>) = loads_ok p"
  "loads_ok (p\<lparr>ps_second_medium := x_second_medium\<rparr>) = loads_ok p"
  "loads_ok (p\<lparr>ps_extended_kernel := x_extended_kernel\<rparr>) = loads_ok p"
  "loads_ok (p\<lparr>ps_networks := x_networks\<rparr>) = loads_ok p"
  "loads_ok (p\<lparr>ps_network_destroyer := x_network_destroyer\<rparr>) = loads_ok p"
  "loads_ok (p\<lparr>ps_ld_run_open := x_ld_run_open\<rparr>) = loads_ok p"
  "loads_ok (p\<lparr>ps_global_conductivity := x_global_conductivity\<rparr>) = loads_ok p"
  "loads_ok (p\<lparr>ps_wire_insulation := x_wire_insulation\<rparr>) = loads_ok p"
  "loads_ok (p\<lparr>ps_global_distributed := x_global_distributed\<rparr>) = loads_ok p"
  by (simp_all add: loads_ok_def)

lemma groups_ok_frame [simp]:
  "groups_ok (p\<lparr>ps_comments := x_comments\<rparr>) = groups_ok p"
  "groups_ok (p\<lparr>ps_quiet := x_quiet\<rparr>) = groups_ok p"
  "groups_ok (p\<lparr>ps_reduced_field := x_reduced_field\<rparr>) = groups_ok p"
  "groups_ok (p\<lparr>ps_geometry_cards := x_geometry_cards\<rparr>) = groups_ok p"
  "groups_ok (p\<lparr>ps_structure := x_structure\<rparr>) = groups_ok p"
  "groups_ok (p\<lparr>ps_fresh_fr := x_fresh_fr\<rparr>) = groups_ok p"
  "groups_ok (p\<lparr>ps_print_control := x_print_control\<rparr>) = groups_ok p"
  "groups_ok (p\<lparr>ps_multiprocessing := x_multiprocessing\<rparr>) = groups_ok p"
  "groups_ok (p\<lparr>ps_ground := x_ground\<rparr>) = groups_ok p"
  "groups_ok (p\<lparr>ps_second_medium := x_second_medium\<rparr>) = groups_ok p"
  "groups_ok (p\<lparr>ps_extended_kernel := x_extended_kernel\<rparr>) = groups_ok p"
  "groups_ok (p\<lparr>ps_network_destroyer := x_network_destroyer\<rparr>) = groups_ok p"
  "groups_ok (p\<lparr>ps_load_log := x_load_log\<rparr>) = groups_ok p"
  "groups_ok (p\<lparr>ps_live := x_live\<rparr>) = groups_ok p"
  "groups_ok (p\<lparr>ps_loaded := x_loaded\<rparr>) = groups_ok p"
  "groups_ok (p\<lparr>ps_load_spec_at := x_load_spec_at\<rparr>) = groups_ok p"
  "groups_ok (p\<lparr>ps_ld_run_open := x_ld_run_open\<rparr>) = groups_ok p"
  "groups_ok (p\<lparr>ps_global_conductivity := x_global_conductivity\<rparr>) = groups_ok p"
  "groups_ok (p\<lparr>ps_wire_conductivity := x_wire_conductivity\<rparr>) = groups_ok p"
  "groups_ok (p\<lparr>ps_wire_insulation := x_wire_insulation\<rparr>) = groups_ok p"
  "groups_ok (p\<lparr>ps_global_distributed := x_global_distributed\<rparr>) = groups_ok p"
  "groups_ok (p\<lparr>ps_wire_distributed := x_wire_distributed\<rparr>) = groups_ok p"
  by (simp_all add: groups_ok_def)

lemma geometry_ok_frame [simp]:
  "geometry_ok builders (p\<lparr>ps_comments := x_comments\<rparr>) = geometry_ok builders p"
  "geometry_ok builders (p\<lparr>ps_quiet := x_quiet\<rparr>) = geometry_ok builders p"
  "geometry_ok builders (p\<lparr>ps_reduced_field := x_reduced_field\<rparr>) = geometry_ok builders p"
  "geometry_ok builders (p\<lparr>ps_groups := x_groups\<rparr>) = geometry_ok builders p"
  "geometry_ok builders (p\<lparr>ps_armed := x_armed\<rparr>) = geometry_ok builders p"
  "geometry_ok builders (p\<lparr>ps_executed := x_executed\<rparr>) = geometry_ok builders p"
  "geometry_ok builders (p\<lparr>ps_fresh_fr := x_fresh_fr\<rparr>) = geometry_ok builders p"
  "geometry_ok builders (p\<lparr>ps_print_control := x_print_control\<rparr>) = geometry_ok builders p"
  "geometry_ok builders (p\<lparr>ps_multiprocessing := x_multiprocessing\<rparr>) = geometry_ok builders p"
  "geometry_ok builders (p\<lparr>ps_saw_ex := x_saw_ex\<rparr>) = geometry_ok builders p"
  "geometry_ok builders (p\<lparr>ps_operator_dirty := x_operator_dirty\<rparr>) = geometry_ok builders p"
  "geometry_ok builders (p\<lparr>ps_sources := x_sources\<rparr>) = geometry_ok builders p"
  "geometry_ok builders (p\<lparr>ps_sources_stale := x_sources_stale\<rparr>) = geometry_ok builders p"
  "geometry_ok builders (p\<lparr>ps_frequencies := x_frequencies\<rparr>) = geometry_ok builders p"
  "geometry_ok builders (p\<lparr>ps_ground := x_ground\<rparr>) = geometry_ok builders p"
  "geometry_ok builders (p\<lparr>ps_second_medium := x_second_medium\<rparr>) = geometry_ok builders p"
  "geometry_ok builders (p\<lparr>ps_extended_kernel := x_extended_kernel\<rparr>) = geometry_ok builders p"
  "geometry_ok builders (p\<lparr>ps_networks := x_networks\<rparr>) = geometry_ok builders p"
  "geometry_ok builders (p\<lparr>ps_network_destroyer := x_network_destroyer\<rparr>) = geometry_ok builders p"
  "geometry_ok builders (p\<lparr>ps_load_log := x_load_log\<rparr>) = geometry_ok builders p"
  "geometry_ok builders (p\<lparr>ps_live := x_live\<rparr>) = geometry_ok builders p"
  "geometry_ok builders (p\<lparr>ps_loaded := x_loaded\<rparr>) = geometry_ok builders p"
  "geometry_ok builders (p\<lparr>ps_load_spec_at := x_load_spec_at\<rparr>) = geometry_ok builders p"
  "geometry_ok builders (p\<lparr>ps_ld_run_open := x_ld_run_open\<rparr>) = geometry_ok builders p"
  "geometry_ok builders (p\<lparr>ps_global_conductivity := x_global_conductivity\<rparr>) = geometry_ok builders p"
  "geometry_ok builders (p\<lparr>ps_wire_conductivity := x_wire_conductivity\<rparr>) = geometry_ok builders p"
  "geometry_ok builders (p\<lparr>ps_wire_insulation := x_wire_insulation\<rparr>) = geometry_ok builders p"
  "geometry_ok builders (p\<lparr>ps_global_distributed := x_global_distributed\<rparr>) = geometry_ok builders p"
  "geometry_ok builders (p\<lparr>ps_wire_distributed := x_wire_distributed\<rparr>) = geometry_ok builders p"
  by (simp_all add: geometry_ok_def)

lemma parser_ok_frame [simp]:
  "parser_ok builders (p\<lparr>ps_comments := x_comments\<rparr>) = parser_ok builders p"
  "parser_ok builders (p\<lparr>ps_quiet := x_quiet\<rparr>) = parser_ok builders p"
  "parser_ok builders (p\<lparr>ps_reduced_field := x_reduced_field\<rparr>) = parser_ok builders p"
  "parser_ok builders (p\<lparr>ps_fresh_fr := x_fresh_fr\<rparr>) = parser_ok builders p"
  "parser_ok builders (p\<lparr>ps_print_control := x_print_control\<rparr>) = parser_ok builders p"
  "parser_ok builders (p\<lparr>ps_multiprocessing := x_multiprocessing\<rparr>) = parser_ok builders p"
  "parser_ok builders (p\<lparr>ps_ground := x_ground\<rparr>) = parser_ok builders p"
  "parser_ok builders (p\<lparr>ps_second_medium := x_second_medium\<rparr>) = parser_ok builders p"
  "parser_ok builders (p\<lparr>ps_extended_kernel := x_extended_kernel\<rparr>) = parser_ok builders p"
  "parser_ok builders (p\<lparr>ps_network_destroyer := x_network_destroyer\<rparr>) = parser_ok builders p"
  "parser_ok builders (p\<lparr>ps_ld_run_open := x_ld_run_open\<rparr>) = parser_ok builders p"
  "parser_ok builders (p\<lparr>ps_global_conductivity := x_global_conductivity\<rparr>) = parser_ok builders p"
  "parser_ok builders (p\<lparr>ps_wire_insulation := x_wire_insulation\<rparr>) = parser_ok builders p"
  "parser_ok builders (p\<lparr>ps_global_distributed := x_global_distributed\<rparr>) = parser_ok builders p"
  by (simp_all add: parser_ok_def)

section \<open>Handlers of the environment and the drive\<close>

lemma gn_card_ok: "handler_ok builders gn_card"
proof -
  have "clean (if code = -1 then Inr NoGround
      else if code = 1 then Inr Pec
      else if code = 0 then Inr (FiniteGround ''finite-fast'' e s)
      else if code = 2 then Inr (FiniteGround ''finite'' e s)
      else Inl (deck_error (GnType code)))" for code :: int and e s
    by simp
  then show ?thesis
    unfolding handler_ok_def gn_card_def Let_def
    by (auto split: option.split intro!: okr ok_result_value)
qed

lemma gd_card_ok: "handler_ok builders gd_card"
  by (simp add: handler_ok_def gd_card_def)

lemma clean_fpow [clean_rules]: "clean (fpow x i)"
  by (simp add: fpow_def split: flt.split)

lemma parser_ok_frequencies: "parser_ok builders p \<Longrightarrow> fs \<noteq> [] \<Longrightarrow>
    parser_ok builders (p\<lparr>ps_frequencies := fs\<rparr>)"
  by (auto simp: parser_ok_def loads_ok_def groups_ok_def geometry_ok_def)

lemma fr_card_ok: "handler_ok builders fr_card"
  unfolding handler_ok_def fr_card_def Let_def
proof (intro allI impI okr ok_result_value)
  fix c :: card and p :: "'a parser_scheme" and sweep n0
  let ?fs = "if sweep = 0 then Inr (map (\<lambda>i. card_f c 4 + fint (int i) * card_f c 5) [0..<nat (max n0 1)])
    else mapE (\<lambda>i. if Fin 0 < card_f c 5 then bindE (fpow (card_f c 5) i) (\<lambda>q. Inr (card_f c 4 * q))
      else Inr (card_f c 4)) [0..<nat (max n0 1)]"
  show "clean ?fs"
    by (intro clean_rules) auto
  fix fs assume "parser_ok builders p" "?fs = Inr fs"
  moreover from this have "length fs = nat (max n0 1)"
    by (cases "sweep = 0") (auto dest: mapE_length)
  ultimately show "ok_result (parser_ok builders) (Inr (p\<lparr>ps_frequencies := fs, ps_fresh_fr := True\<rparr>))"
    by (auto intro!: parser_ok_frequencies)
qed

lemma ex_card_ok: "handler_ok builders ex_card"
proof -
  have "parser_ok builders (p\<lparr>ps_saw_ex := True, ps_sources_stale := False, ps_sources := srcs\<rparr>)"
    if "parser_ok builders p" for p :: "'a parser_scheme" and srcs
    using that by (auto simp: parser_ok_def loads_ok_def groups_ok_def geometry_ok_def)
  then show ?thesis
    unfolding handler_ok_def ex_card_def Let_def by (auto intro!: okr)
qed

lemma ek_card_ok: "handler_ok builders ek_card"
  unfolding handler_ok_def ek_card_def by (auto intro!: okr)

section \<open>Cards that need the structure\<close>

context geometry_reader
begin

lemma the_structure_ok:
  assumes "clean_builders builders" "parser_ok builders p"
  shows "ok_result (\<lambda>(s, p'). structure_ok s \<and> parser_ok builders p' \<and>
    p' = p\<lparr>ps_structure := Some s\<rparr>) (the_structure builders p)"
proof (cases "ps_structure p")
  case None
  have "clean (build_geometry builders (ps_geometry_cards p))"
    using assms by (intro clean_build_geometry) (auto simp: parser_ok_def geometry_ok_def)
  moreover have "parser_ok builders (p\<lparr>ps_structure := Some s\<rparr>)"
    if "build_geometry builders (ps_geometry_cards p) = Inr s" for s
    using assms(2) that by (auto simp: parser_ok_def loads_ok_def groups_ok_def geometry_ok_def)
  ultimately show ?thesis
    using None build_geometry_ok by (auto simp: the_structure_def intro!: ok_result_value)
next
  case (Some s)
  then have "build_geometry builders (ps_geometry_cards p) = Inr s"
    using assms(2) by (simp add: parser_ok_def geometry_ok_def)
  with Some assms(2) show ?thesis
    using build_geometry_ok by (simp add: the_structure_def)
qed

end

lemma clean_locate [clean_rules]: "clean (locate s tag seg)"
  by (simp add: locate_def Let_def split: option.split)

lemma clean_ld_segment_range [clean_rules]: "clean (ld_segment_range s tag a b)"
  unfolding ld_segment_range_def Let_def by (intro clean_rules) auto

lemma clean_element_of:
  "structure_ok s \<Longrightarrow> (i, k) \<in> set (wire_segments (st_wires s)) \<Longrightarrow> clean (element_of s i k)"
  by (erule element_of_valid) auto

lemma clean_resolve_of:
  "structure_ok s \<Longrightarrow> (i, k) \<in> set (wire_segments (st_wires s)) \<Longrightarrow> clean (resolve_of s i k)"
  unfolding resolve_of_def by (intro clean_bind clean_element_of) (auto simp: Let_def)

lemma locate_segment:
  "structure_ok s \<Longrightarrow> locate s tag seg = Inr r \<Longrightarrow> r \<in> set (wire_segments (st_wires s))"
  using locate_valid tagged_subset by blast

lemma clean_resolve: "structure_ok s \<Longrightarrow> clean (resolve s tag seg)"
  unfolding resolve_def
  by (intro clean_rules) (auto intro: clean_resolve_of locate_segment)

lemma clean_element: "structure_ok s \<Longrightarrow> clean (element s tag seg)"
  unfolding element_def
  by (intro clean_rules) (auto intro: clean_element_of locate_segment)

lemma clean_under_the_cell_rule [clean_rules]: "clean (under_the_cell_rule s pairs)"
  by (simp add: under_the_cell_rule_def Let_def split: option.split)

lemma dropped_subset:
  "under_the_cell_rule s pairs = Inr (applied, dropped) \<Longrightarrow> set dropped \<subseteq> set pairs"
  by (auto simp: under_the_cell_rule_def Let_def split: option.splits if_splits)

lemma no_symmetry_no_drop:
  "st_symmetry s = None \<Longrightarrow> under_the_cell_rule s pairs = Inr (applied, dropped) \<Longrightarrow> dropped = []"
  by (simp add: under_the_cell_rule_def)

lemma clean_restates:
  "structure_ok s \<Longrightarrow> set pairs \<subseteq> set (wire_segments (st_wires s)) \<Longrightarrow>
    clean (restates_the_replication s held pairs spec)"
  by (induction s held pairs spec rule: restates_the_replication.induct)
     (auto intro!: clean_bind clean_element_of split: option.split)

lemma cell_rule_ok:
  assumes "structure_ok s" "set pairs \<subseteq> set (wire_segments (st_wires s))"
  shows "ok_result (\<lambda>applied. set applied \<subseteq> set (wire_segments (st_wires s)))
    (cell_rule s held pairs spec)"
  unfolding cell_rule_def
proof (rule ok_result_value [OF clean_under_the_cell_rule], clarify)
  fix applied dropped assume r: "under_the_cell_rule s pairs = Inr (applied, dropped)"
  have valid: "set applied \<subseteq> set (wire_segments (st_wires s))"
    using cell_rule_valid [OF assms r] .
  have "clean (case spec of None \<Rightarrow> Inr False | Some sp \<Rightarrow> restates_the_replication s held dropped sp)"
    using clean_restates [OF assms(1)] dropped_subset [OF r] assms(2) by (auto split: option.split)
  moreover have "dropped \<noteq> [] \<Longrightarrow> st_symmetry s \<noteq> None"
    using no_symmetry_no_drop [OF _ r] by blast
  ultimately show "ok_result (\<lambda>applied. set applied \<subseteq> set (wire_segments (st_wires s)))
    (if dropped = [] then Inr applied
     else bindE (case spec of None \<Rightarrow> Inr False | Some sp \<Rightarrow> restates_the_replication s held dropped sp)
       (\<lambda>restated. if restated then Inr applied
         else case st_symmetry s of None \<Rightarrow> Inl AssertionError
         | Some y \<Rightarrow> Inl (load_error (LdOutsideCell (length dropped) (sy_cell_segments y) (n_segments s)))))"
    using valid by (auto intro!: ok_result_if ok_result_value split: option.split)
qed


section \<open>LD, IS, TL, NT, PT\<close>

lemma log_entry_ok: "parser_ok builders p \<Longrightarrow> parser_ok builders (log_entry e p)"
proof -
  assume ok: "parser_ok builders p"
  have bound: "i < length (ps_load_log p)" if "index_of (load_entry_eq e) (ps_load_log p) = Some i" for i
    using index_of_Some [OF that] by simp
  have "loads_ok (log_entry e p)"
    using ok bound unfolding parser_ok_def loads_ok_def log_entry_def
    by (force split: option.split)
  with ok show ?thesis
    by (simp add: parser_ok_def log_entry_def split: option.splits)
qed

lemma discard_loads_ok: "parser_ok builders p \<Longrightarrow> parser_ok builders (discard_loads p)"
proof -
  assume ok: "parser_ok builders p"
  then have "loads_ok (discard_loads p)"
    by (simp add: parser_ok_def loads_ok_def discard_loads_def)
  with ok show ?thesis
    by (simp add: parser_ok_def discard_loads_def)
qed

lemma load_keys_ok:
  assumes "parser_ok builders p"
  shows "key \<in> ps_loaded p \<Longrightarrow>
      parser_ok builders (p\<lparr>ps_load_spec_at := (ps_load_spec_at p)(key := None)\<rparr>)"
    and "parser_ok builders (p\<lparr>ps_loaded := insert key (ps_loaded p),
             ps_load_spec_at := (ps_load_spec_at p)(key \<mapsto> spec)\<rparr>)"
  using assms by (auto simp: parser_ok_def loads_ok_def)

lemma ld_segment_ok:
  assumes "structure_ok s" "parser_ok builders (snd st)" "ws \<in> set (wire_segments (st_wires s))"
  shows "ok_result (\<lambda>st. parser_ok builders (snd st)) (ld_segment s spec st ws)"
proof -
  obtain this_card p wire seg where eq: "st = (this_card, p)" "ws = (wire, seg)"
    by (cases st; cases ws)
  show ?thesis
    unfolding ld_segment_def eq prod.case Let_def
    using assms eq
    by (intro ok_result_value okr clean_element_of clean_resolve_of)
       (auto intro!: log_entry_ok load_keys_ok)
qed


lemma update_distinct:
  "distinct (map fst d) \<Longrightarrow> distinct (map fst (foldl (\<lambda>d (i, _). AList.update i v d) d keys))"
  by (induction keys arbitrary: d) (auto simp: distinct_update)

lemma clean_partial_wire:
  "\<not> internal e \<Longrightarrow> clean (firstE (partial_wire s e) xs)"
  by (rule clean_firstE) (auto simp: partial_wire_def split: prod.splits if_splits)

lemma clean_is_radius_check: "clean (firstE (is_radius_check s r) xs)"
  by (rule clean_firstE) (auto simp: is_radius_check_def split: if_splits)

lemma clean_mk_distributed_rlc: "clean (mk_distributed_rlc k r l c)"
  by (simp add: mk_distributed_rlc_def)

lemma distributed_update_ok:
  "parser_ok builders p \<Longrightarrow> parser_ok builders
    (p\<lparr>ps_wire_distributed := foldl (\<lambda>d (i, _). AList.update i v d) (ps_wire_distributed p) xs\<rparr>)"
  by (simp add: parser_ok_def) (simp add: loads_ok_def update_distinct)

lemma conductivity_update_ok:
  "parser_ok builders p \<Longrightarrow> parser_ok builders
    (p\<lparr>ps_wire_conductivity := foldl (\<lambda>d (i, _). AList.update i v d) (ps_wire_conductivity p) xs\<rparr>)"
  by (simp add: parser_ok_def) (simp add: loads_ok_def update_distinct)

context geometry_reader
begin

lemma with_structure [okr]:
  assumes "clean_builders builders" "parser_ok builders p"
    and "\<And>s p'. structure_ok s \<Longrightarrow> parser_ok builders p' \<Longrightarrow> ok_result P (f (s, p'))"
  shows "ok_result P (bindE (the_structure builders p) f)"
  by (rule ok_result_bind [OF the_structure_ok [OF assms(1,2)]]) (auto intro: assms(3))

lemma whole_wires_ok:
  assumes "structure_ok s" "\<not> internal e" "\<And>pairs. P (g pairs)"
  shows "ok_result P (bindE (ld_segment_range s tag a b) (\<lambda>range.
    bindE (cell_rule s held range None) (\<lambda>pairs.
    bindE (firstE (partial_wire s e) (by_wire pairs)) (\<lambda>_. Inr (g pairs)))))"
proof (rule ok_result_value [OF clean_ld_segment_range])
  fix range assume "ld_segment_range s tag a b = Inr range"
  then have "ok_result (\<lambda>_. True) (cell_rule s held range None)"
    by (intro ok_result_mono [OF cell_rule_ok [OF assms(1) ld_segment_range_valid [OF assms(1)]]]) simp_all
  then show "ok_result P (bindE (cell_rule s held range None) (\<lambda>pairs.
      bindE (firstE (partial_wire s e) (by_wire pairs)) (\<lambda>_. Inr (g pairs))))"
    by (rule ok_result_bind) (auto intro!: ok_result_value [OF clean_partial_wire] simp: assms)
qed

lemma ld23_ok:
  assumes "clean_builders builders" "parser_ok builders p"
  shows "ok_result (parser_ok builders) (ld23 builders t tag a b c p)"
  unfolding ld23_def Let_def
  by (intro okr ok_result_value [OF clean_mk_distributed_rlc] assms)
     (auto simp: assms(2) intro!: whole_wires_ok distributed_update_ok)

lemma ld5_ok:
  assumes "clean_builders builders" "parser_ok builders p"
  shows "ok_result (parser_ok builders) (ld5 builders tag a b sigma mu p)"
  unfolding ld5_def
  by (intro okr assms)
     (auto simp: assms(2) intro!: whole_wires_ok conductivity_update_ok)

lemma ld_card_ok: 
  assumes "clean_builders builders" "parser_ok builders p"
  shows "ok_result (parser_ok builders) (ld_card builders c p)"
proof -
  have lumped: "ok_result (parser_ok builders) (bindE (cell_rule s (ps_load_spec_at p') pairs (Some spec))
      (\<lambda>reached. bindE (foldE (ld_segment s spec) ({}, p') reached) (\<lambda>(_, p''). Inr p'')))"
    if "structure_ok s" "parser_ok builders p'" "ld_segment_range s tag a b = Inr pairs"
    for s p' pairs spec tag a b
  proof (rule ok_result_bind [OF cell_rule_ok [OF that(1) ld_segment_range_valid [OF that(1,3)]]])
    fix reached assume "set reached \<subseteq> set (wire_segments (st_wires s))"
    then have "ok_result (\<lambda>st. parser_ok builders (snd st)) (foldE (ld_segment s spec) ({}, p') reached)"
      using that(1,2) by (intro ok_result_foldE ld_segment_ok) auto
    then show "ok_result (parser_ok builders)
        (bindE (foldE (ld_segment s spec) ({}, p') reached) (\<lambda>(_, p''). Inr p''))"
      by (rule ok_result_bind) auto
  qed
  show ?thesis
    unfolding ld_card_def
    by (intro okr assms ok_result_value [OF clean_ld_segment_range] ld23_ok ld5_ok)
       (auto simp: assms(2) discard_loads_ok split: option.split
          intro!: okr ok_result_value [OF clean_ld_segment_range] lumped)
qed

lemma insulation_ok:
  assumes "clean_builders builders" "parser_ok builders p"
  shows "ok_result (parser_ok builders) (is_card builders c p)"
  unfolding is_card_def Let_def
  by (intro okr assms)
     (auto simp: assms(2) intro!: okr ok_result_value [OF clean_ld_segment_range]
        ok_result_value [OF clean_partial_wire] ok_result_value [OF clean_is_radius_check])

lemma network_ok:
  assumes "clean_builders builders" "parser_ok builders p"
  shows "ok_result (parser_ok builders) (network builders c p)"
proof -
  have ends: "clean (firstE (network_end_check c) xs)" for xs
    by (rule clean_firstE) (auto simp: network_end_check_def split: if_splits)
  have net: "parser_ok builders (p'\<lparr>ps_networks := ps_networks p' @ [n]\<rparr>)"
    if "parser_ok builders p'" "nc_first_group n = length (ps_groups p')" for p' n
    using that by (simp add: parser_ok_def) (auto simp: groups_ok_def)
  show ?thesis
    unfolding network_def
    by (cases "ps_network_destroyer p")
       (auto intro!: okr assms ok_result_value [OF ends] ok_result_value [OF clean_resolve] net
          simp del: firstE.simps upt_rec_numeral)
qed

lemma print_control_ok:
  assumes "clean_builders builders" "parser_ok builders p"
  shows "ok_result (\<lambda>(_, p'). parser_ok builders p') (print_control_card builders c p)"
proof -
  have range: "clean (wire_of_segment_range s tag a b)" if "structure_ok s" for s tag a b
    using clean_element [OF that] by (simp add: wire_of_segment_range_def Let_def clean_mapE)
  show ?thesis
    unfolding print_control_card_def
    by (auto intro!: okr assms ok_result_value [OF range] simp: assms(2))
qed

end

section \<open>The interface of a dialect\<close>

locale deck_dialect = geometry_reader "hk_builders h" for h :: "'a hooks" +
  assumes builders_clean: "clean_builders (hk_builders h)"
    and geometry_known: "m \<in> set (hk_geometry_mnemonics h) \<Longrightarrow> m = ''GE'' \<or> hk_builders h m \<noteq> None"
    and geometry_hook: "mnemonic c \<in> set (hk_geometry_mnemonics h) \<Longrightarrow> parser_ok (hk_builders h) p \<Longrightarrow>
      ok_result (parser_ok (hk_builders h)) (hk_geometry h c p)"
    and gn_hook: "handler_ok (hk_builders h) (hk_gn h)"
    and ex_hook: "handler_ok (hk_builders h) (hk_ex h)"
    and ek_hook: "handler_ok (hk_builders h) (hk_ek h)"
    and ld_hook: "handler_ok (hk_builders h) (hk_ld h)"
    and near_hook: "clean (hk_near_coordinates h c)"
    and unarmed_hook: "parser_ok (hk_builders h) p \<Longrightarrow> clean (hk_unarmed_execute h c p)"
begin

lemma execute_ok:
  assumes "parser_ok (hk_builders h) p"
  shows "ok_result (parser_ok (hk_builders h)) (execute h c p)"
proof -
  have skip: "parser_ok (hk_builders h) (p\<lparr>ps_groups := ps_groups p @ [None]\<rparr>)"
    if "\<not> ps_armed p" "ps_executed p \<noteq> 0"
    using assms that by (auto simp: parser_ok_def loads_ok_def groups_ok_def geometry_ok_def hd_append)
  have run: "parser_ok (hk_builders h)
      (p\<lparr>ps_groups := ps_groups p @ [Some (pending req p)], ps_executed := ps_executed p + 1,
        ps_fresh_fr := False, ps_operator_dirty := False, ps_armed := False, ps_sources_stale := True\<rparr>)"
    for req
  proof -
    have p: "loads_ok p" "groups_ok p" "geometry_ok (hk_builders h) p"
      using assms by (simp_all add: parser_ok_def)
    then have "ps_frequencies p \<noteq> []"
      by (simp add: groups_ok_def)
    then have freq: "ps_frequencies p \<noteq> []"
      "drop (length (ps_frequencies p) - 1) (ps_frequencies p) \<noteq> []"
      by (cases "ps_frequencies p" rule: rev_cases; simp)+
    let ?p = "p\<lparr>ps_groups := ps_groups p @ [Some (pending req p)]\<rparr>"
    have "pg_loads (pending req p) = ps_live p" "pg_frequencies (pending req p) \<noteq> []"
      "pg_sources (pending req p) = ps_sources p"
      using freq by (simp_all add: pending_def Let_def)
    then have "loads_ok ?p"
      "groups_ok (?p\<lparr>ps_executed := ps_executed p + 1, ps_fresh_fr := False, ps_operator_dirty := False,
        ps_armed := False, ps_sources_stale := True\<rparr>)"
      using p(1,2) by (auto simp: loads_ok_def groups_ok_def hd_append)
    with p(3) show ?thesis
      by (simp add: parser_ok_def)
  qed
  have "clean (far_field c p)"
    unfolding far_field_def by (intro clean_rules) auto
  moreover have "clean (near_field (hk_near_coordinates h) c p)"
    unfolding near_field_def by (intro clean_rules near_hook) auto
  ultimately have "clean (if mnemonic c = ''RP'' then bindE (far_field c p) (\<lambda>r. Inr (Some (FarField r)))
      else if mnemonic c = ''NE'' \<or> mnemonic c = ''NH''
      then bindE (near_field (hk_near_coordinates h) c p) (\<lambda>r. Inr (Some (NearField r)))
      else Inr None)"
    by (auto intro!: clean_rules)
  then show ?thesis
    unfolding execute_def
    using skip run unarmed_hook [OF assms] by (auto intro!: okr ok_result_value)
qed

lemma dispatch_ok:
  assumes "parser_ok (hk_builders h) p"
  shows "ok_result (parser_ok (hk_builders h)) (dispatch h c p)"
proof -
  have handler: "ok_result (parser_ok (hk_builders h)) (f c p)" if "handler_ok (hk_builders h) f" for f
    using that assms by (simp add: handler_ok_def)
  have mp: "clean (multiprocessing_card c)"
    unfolding multiprocessing_card_def mp_field_def by (intro clean_rules) auto
  have pq: "clean (pq c)"
    unfolding pq_def by (intro clean_rules) auto
  show ?thesis
    unfolding dispatch_def Let_def
    using assms
    by (intro okr handler [OF gn_hook] handler [OF ex_hook] handler [OF ek_hook] handler [OF ld_hook]
        handler [OF gd_card_ok] handler [OF fr_card_ok] geometry_hook insulation_ok execute_ok builders_clean
        ok_result_bind [OF print_control_ok] ok_result_value [OF mp] ok_result_value [OF pq])
       (simp_all split: prod.splits)
qed

lemma clean_directive: "clean (directive_from k ts)"
  by (induction k ts rule: directive_from.induct) (auto split: option.split flt.split)

lemma comment_card_ok:
  assumes "parser_ok (hk_builders h) p"
  shows "ok_result (parser_ok (hk_builders h)) (comment_card c p)"
  unfolding comment_card_def directive_def Let_def
  using assms by (auto intro!: ok_result_value [OF clean_directive] split: option.split)

lemma ld_run_step_ok: "parser_ok (hk_builders h) p \<Longrightarrow> parser_ok (hk_builders h) (ld_run_step h c p)"
  using discard_loads_ok by (auto simp: ld_run_step_def)

lemma arm_step_ok: "parser_ok (hk_builders h) p \<Longrightarrow> parser_ok (hk_builders h) (arm_step c p)"
  by (auto simp: arm_step_def Let_def parser_ok_def groups_ok_def)

lemma destroyer_step_ok: "parser_ok (hk_builders h) p \<Longrightarrow> parser_ok (hk_builders h) (destroyer_step c p)"
  by (simp add: destroyer_step_def)

lemma read_card_ok:
  assumes "parser_ok (hk_builders h) p"
  shows "ok_result (parser_ok (hk_builders h)) (read_card h c p)"
proof -
  have ok1: "parser_ok (hk_builders h) (ld_run_step h c p)"
    using assms by (rule ld_run_step_ok)
  then have ok2: "parser_ok (hk_builders h) (arm_step c (ld_run_step h c p))"
    by (rule arm_step_ok)
  then have ok3: "parser_ok (hk_builders h) (destroyer_step c (arm_step c (ld_run_step h c p)))"
    by (rule destroyer_step_ok)
  have "clean (if mnemonic c = ''GW'' then gw_field_refusal c else Inr None)"
    by (auto intro: clean_gw_field_refusal)
  then show ?thesis
    unfolding read_card_def Let_def
    by (intro okr comment_card_ok [OF ok1] network_ok [OF builders_clean ok2] ok_result_value)
       (auto intro: dispatch_ok [OF ok3] split: option.split)
qed

lemma read_cards_ok:
  "parser_ok (hk_builders h) p \<Longrightarrow> ok_result (parser_ok (hk_builders h)) (foldE (\<lambda>p c. read_card h c p) p cs)"
  by (rule ok_result_foldE) (auto intro: read_card_ok)

lemma feed_lines_ok:
  "parser_ok (hk_builders h) p \<Longrightarrow> ok_result (parser_ok (hk_builders h)) (feed_lines h ls p)"
proof (induction ls arbitrary: p)
  case (Cons l ls)
  then show ?case
    by (auto simp: named_refusal_def split: option.split list.split
        intro!: ok_result_value [OF clean_parse_card] ok_result_bind [OF read_card_ok])
qed simp

lemma feed_ok:
  "parser_ok (hk_builders h) p \<Longrightarrow> ok_result (parser_ok (hk_builders h)) (feed h deck p)"
  unfolding feed_def
  by (rule ok_result_bind [OF feed_lines_ok]) (auto intro!: okr builders_clean)

end

lemma geometry_card_ok:
  assumes "clean_builders builders" "geometry_reader builders"
    and "mnemonic c = ''GE'' \<or> builders (mnemonic c) \<noteq> None" "parser_ok builders p"
  shows "ok_result (parser_ok builders) (geometry_card builders c p)"
proof -
  have "parser_ok builders (p\<lparr>ps_geometry_cards := ps_geometry_cards p @ [c], ps_structure := None\<rparr>)"
    using assms(3,4) by (simp add: parser_ok_def) (simp add: geometry_ok_def)
  then show ?thesis
    unfolding geometry_card_def Let_def
    by (auto intro!: okr geometry_reader.with_structure [OF assms(2)] assms(1))
qed

lemma nec2_geometry_known:
  "m \<in> set geometry_cards \<Longrightarrow> m = ''GE'' \<or> geometry_builders m \<noteq> None"
  by (auto simp: geometry_cards_def geometry_builders_def)

interpretation nec2: deck_dialect nec2_hooks
proof (intro deck_dialect.intro deck_dialect_axioms.intro)
  show "geometry_reader (hk_builders nec2_hooks)"
    using nec2_reader.geometry_reader_axioms by (simp add: nec2_hooks_def)
  show "clean_builders (hk_builders nec2_hooks)"
    by (simp add: nec2_hooks_def clean_geometry_builders)
  show "m = ''GE'' \<or> hk_builders nec2_hooks m \<noteq> None"
    if "m \<in> set (hk_geometry_mnemonics nec2_hooks)" for m
    using that nec2_geometry_known by (simp add: nec2_hooks_def)
  show "ok_result (parser_ok (hk_builders nec2_hooks)) (hk_geometry nec2_hooks c p)"
    if "mnemonic c \<in> set (hk_geometry_mnemonics nec2_hooks)" "parser_ok (hk_builders nec2_hooks) p"
    for c and p :: "'a parser_scheme"
    using geometry_card_ok [OF clean_geometry_builders nec2_reader.geometry_reader_axioms
        nec2_geometry_known, of c p] that by (simp add: nec2_hooks_def)
  show "handler_ok (hk_builders nec2_hooks) (hk_gn nec2_hooks)"
    by (simp add: nec2_hooks_def gn_card_ok)
  show "handler_ok (hk_builders nec2_hooks) (hk_ex nec2_hooks)"
    by (simp add: nec2_hooks_def ex_card_ok)
  show "handler_ok (hk_builders nec2_hooks) (hk_ek nec2_hooks)"
    by (simp add: nec2_hooks_def ek_card_ok)
  show "handler_ok (hk_builders nec2_hooks) (hk_ld nec2_hooks)"
    by (simp add: nec2_hooks_def handler_ok_def nec2_reader.ld_card_ok clean_geometry_builders)
  show "clean (hk_near_coordinates nec2_hooks c)" for c
    unfolding nec2_hooks_def near_coordinates_def hooks.simps by (intro clean_rules) auto
  show "clean (hk_unarmed_execute nec2_hooks c p)" for c and p :: "'a parser_scheme"
    by (simp add: nec2_hooks_def unarmed_execute_def)
qed

end
