(* ===== verification/Runs.thy ===== *)
theory Runs
  imports Nec2_Laws
begin

text \<open>
  What a sequence of cards does to the runs: which execute cards run and which of those
  refill, as a function of the mnemonics alone (\<open>runs_from\<close>), and which EX cards drive the
  structure (\<open>driving\<close>).  A dialect whose handlers leave the run state alone
  (\<open>deck_runs\<close>) refines both.
\<close>

section \<open>Which execute cards run\<close>

definition run_of :: "bool \<Rightarrow> string list \<Rightarrow> (bool \<times> bool) option" where
  \<comment> \<open>what an execute card does, from whether one was read before and the cards since:
     nothing, or a run that refills wholly or partly\<close>
  "run_of started since =
     (if \<not> started then Some (True, False)
      else if set since \<inter> set arming_cards = {} then None
      else Some (''FR'' \<in> set since,
                 ''FR'' \<notin> set since \<and> set since \<inter> set operator_cards \<noteq> {}))"

fun runs_from :: "bool \<Rightarrow> string list \<Rightarrow> string list \<Rightarrow> (bool \<times> bool) option list" where
  "runs_from started since [] = []"
| "runs_from started since (m # ms) =
     (if m \<in> set execute_cards then run_of started since # runs_from True [] ms
      else runs_from started (m # since) ms)"

type_synonym drive_state =
  "bool \<times> nat \<times> bool \<times> bool \<times> pending_group option list \<times> (int \<times> int \<times> cplx) list \<times> bool \<times>
    network_card list \<times> string option"

definition drive_state :: "'a parser_scheme \<Rightarrow> drive_state" where
  \<comment> \<open>the part of the state that decides what runs, with which sources and networks\<close>
  "drive_state p =
     (ps_armed p, ps_executed p, ps_fresh_fr p, ps_operator_dirty p, ps_groups p,
      ps_sources p, ps_sources_stale p, ps_networks p, ps_network_destroyer p)"

lemma drive_state_frame [simp]:
  "drive_state (p\<lparr>ps_comments := x_comments\<rparr>) = drive_state p"
  "drive_state (p\<lparr>ps_quiet := x_quiet\<rparr>) = drive_state p"
  "drive_state (p\<lparr>ps_reduced_field := x_reduced_field\<rparr>) = drive_state p"
  "drive_state (p\<lparr>ps_geometry_cards := x_geometry_cards\<rparr>) = drive_state p"
  "drive_state (p\<lparr>ps_structure := x_structure\<rparr>) = drive_state p"
  "drive_state (p\<lparr>ps_print_control := x_print_control\<rparr>) = drive_state p"
  "drive_state (p\<lparr>ps_multiprocessing := x_multiprocessing\<rparr>) = drive_state p"
  "drive_state (p\<lparr>ps_saw_ex := x_saw_ex\<rparr>) = drive_state p"
  "drive_state (p\<lparr>ps_frequencies := x_frequencies\<rparr>) = drive_state p"
  "drive_state (p\<lparr>ps_ground := x_ground\<rparr>) = drive_state p"
  "drive_state (p\<lparr>ps_second_medium := x_second_medium\<rparr>) = drive_state p"
  "drive_state (p\<lparr>ps_extended_kernel := x_extended_kernel\<rparr>) = drive_state p"
  "drive_state (p\<lparr>ps_load_log := x_load_log\<rparr>) = drive_state p"
  "drive_state (p\<lparr>ps_live := x_live\<rparr>) = drive_state p"
  "drive_state (p\<lparr>ps_loaded := x_loaded\<rparr>) = drive_state p"
  "drive_state (p\<lparr>ps_load_spec_at := x_load_spec_at\<rparr>) = drive_state p"
  "drive_state (p\<lparr>ps_ld_run_open := x_ld_run_open\<rparr>) = drive_state p"
  "drive_state (p\<lparr>ps_global_conductivity := x_global_conductivity\<rparr>) = drive_state p"
  "drive_state (p\<lparr>ps_wire_conductivity := x_wire_conductivity\<rparr>) = drive_state p"
  "drive_state (p\<lparr>ps_wire_insulation := x_wire_insulation\<rparr>) = drive_state p"
  "drive_state (p\<lparr>ps_global_distributed := x_global_distributed\<rparr>) = drive_state p"
  "drive_state (p\<lparr>ps_wire_distributed := x_wire_distributed\<rparr>) = drive_state p"
  by (simp_all add: drive_state_def)

definition keeps_drive :: "(card \<Rightarrow> 'a parser_scheme \<Rightarrow> pyexn + 'a parser_scheme) \<Rightarrow> bool" where
  "keeps_drive f \<longleftrightarrow> (\<forall>c p p'. f c p = Inr p' \<longrightarrow> drive_state p' = drive_state p)"

lemma the_structure_drive:
  "the_structure b p = Inr (s, p') \<Longrightarrow> drive_state p' = drive_state p"
  by (auto simp: the_structure_def okE split: option.splits)

lemma log_entry_drive [simp]: "drive_state (log_entry e p) = drive_state p"
  by (simp add: log_entry_def split: option.split)

lemma discard_loads_drive [simp]: "drive_state (discard_loads p) = drive_state p"
  by (simp add: discard_loads_def)

lemma ld_segment_drive:
  "ld_segment s spec st ws = Inr st' \<Longrightarrow> drive_state (snd st') = drive_state (snd st)"
  by (cases st; cases ws) (auto simp: ld_segment_def Let_def okE split: prod.splits)

lemma ld_segments_drive:
  "foldE (ld_segment s spec) st pairs = Inr st' \<Longrightarrow> drive_state (snd st') = drive_state (snd st)"
  by (rule foldE_invariant [where P = "\<lambda>x. drive_state (snd x) = drive_state (snd st)"])
     (auto dest: ld_segment_drive)

lemma geometry_card_drive: "keeps_drive (geometry_card b)"
  by (auto simp: keeps_drive_def geometry_card_def Let_def okE dest!: the_structure_drive
      split: if_splits)

definition leaves_drive :: "drive_state \<Rightarrow> pyexn + 'a parser_scheme \<Rightarrow> bool" where
  "leaves_drive d m \<longleftrightarrow> (\<forall>p'. m = Inr p' \<longrightarrow> drive_state p' = d)"

lemma leaves_drive_simps [simp]:
  "leaves_drive d (Inl e)" "leaves_drive d (Inr p) \<longleftrightarrow> drive_state p = d"
  by (simp_all add: leaves_drive_def)

lemma leaves_drive_bind: "(\<And>x. leaves_drive d (f x)) \<Longrightarrow> leaves_drive d (bindE m f)"
  by (cases m) auto

lemma gn_card_drive: "keeps_drive gn_card"
proof -
  have "leaves_drive (drive_state p) (gn_card c p)" for c and p :: "'a parser_scheme"
    unfolding gn_card_def Let_def
    by (cases "trailer c") (auto intro!: leaves_drive_bind)
  then show ?thesis
    by (simp add: keeps_drive_def leaves_drive_def)
qed

lemma gd_card_drive: "keeps_drive gd_card"
  by (auto simp: keeps_drive_def gd_card_def)

lemma ek_card_drive: "keeps_drive ek_card"
  by (auto simp: keeps_drive_def ek_card_def okE)

lemma ld23_drive: "ld23 b t tag x y c p = Inr p' \<Longrightarrow> drive_state p' = drive_state p"
  by (auto simp: ld23_def Let_def okE split: if_splits dest!: the_structure_drive)

lemma ld5_drive: "ld5 b tag x y s m p = Inr p' \<Longrightarrow> drive_state p' = drive_state p"
  by (auto simp: ld5_def okE split: if_splits dest!: the_structure_drive)

lemma ld_card_drive: "keeps_drive (ld_card b)"
  unfolding keeps_drive_def ld_card_def
  by (auto simp: okE split: if_splits option.splits
      dest!: the_structure_drive ld23_drive ld5_drive ld_segments_drive)

lemma is_card_drive: "keeps_drive (is_card b)"
  unfolding keeps_drive_def is_card_def Let_def
  by (auto simp: okE split: if_splits dest!: the_structure_drive)

lemma print_control_drive:
  "print_control_card b c p = Inr (pc, p') \<Longrightarrow> drive_state p' = drive_state p"
  unfolding print_control_card_def
  by (auto simp: okE split: if_splits dest!: the_structure_drive)


definition comment_cards :: "string list" where
  "comment_cards = [''CM'', ''CE'']"

definition refill_of :: "pending_group option \<Rightarrow> (bool \<times> bool) option" where
  "refill_of g = map_option (\<lambda>pg. (pg_refilled pg, pg_refilled_partial pg)) g"

definition since_ok :: "bool \<Rightarrow> string list \<Rightarrow> 'a parser_scheme \<Rightarrow> bool" where
  \<comment> \<open>the run state after the given cards since the last execute card\<close>
  "since_ok started since p \<longleftrightarrow>
     (ps_executed p \<noteq> 0 \<longleftrightarrow> started) \<and>
     (started \<longrightarrow>
        (ps_armed p \<longleftrightarrow> set since \<inter> set arming_cards \<noteq> {}) \<and>
        (ps_fresh_fr p \<longleftrightarrow> ''FR'' \<in> set since) \<and>
        (ps_operator_dirty p \<longleftrightarrow> set since \<inter> set operator_cards \<noteq> {})) \<and>
     (\<not> started \<longrightarrow> \<not> ps_operator_dirty p)"

section \<open>Which EX cards drive\<close>

definition executes :: "card \<Rightarrow> bool" where
  "executes c \<longleftrightarrow> mnemonic c \<in> set execute_cards"

definition excites :: "card \<Rightarrow> bool" where
  "excites c \<longleftrightarrow> mnemonic c = ''EX''"

fun blocks :: "card list \<Rightarrow> card list list" where
  \<comment> \<open>the cards between execute cards\<close>
  "blocks [] = [[]]"
| "blocks (c # cs) =
     (if executes c then [] # blocks cs
      else case blocks cs of [] \<Rightarrow> [[c]] | b # bs \<Rightarrow> (c # b) # bs)"

definition driving :: "card list \<Rightarrow> card list" where
  \<comment> \<open>the EX cards of the last block that has one\<close>
  "driving cards =
     (let drives = filter (\<lambda>b. b \<noteq> []) (map (filter excites) (blocks cards))
      in if drives = [] then [] else last drives)"

lemma blocks_not_Nil: "blocks cs \<noteq> []"
  by (induction cs) (auto split: list.split)

lemma set_blocks: "b \<in> set (blocks cs) \<Longrightarrow> set b \<subseteq> set cs"
proof (induction cs arbitrary: b)
  case (Cons c cs)
  have "\<forall>b \<in> set (blocks cs). set b \<subseteq> set cs"
    using Cons.IH by blast
  with Cons.prems show ?case
    by (cases "blocks cs") (auto split: if_splits)
qed simp

lemma driving_subset: "set (driving cs) \<subseteq> {c \<in> set cs. excites c}"
proof -
  let ?drives = "filter (\<lambda>b. b \<noteq> []) (map (filter excites) (blocks cs))"
  have "set (last ?drives) \<subseteq> {c \<in> set cs. excites c}" if "?drives \<noteq> []"
  proof -
    have "last ?drives \<in> set ?drives"
      using that by (rule last_in_set)
    then show ?thesis
      using set_blocks [of _ cs] by fastforce
  qed
  then show ?thesis
    by (auto simp: driving_def Let_def)
qed

lemma blocks_snoc:
  "blocks (cs @ [c]) = (if executes c then blocks cs @ [[]]
     else butlast (blocks cs) @ [last (blocks cs) @ [c]])"
  using blocks_not_Nil by (induction cs) (auto split: list.split)

lemma drives_snoc:
  "driving (cs @ [c]) =
     (if executes c \<or> \<not> excites c then driving cs else filter excites (last (blocks cs)) @ [c])"
proof -
  have "blocks cs = butlast (blocks cs) @ [last (blocks cs)]"
    using blocks_not_Nil by simp
  then obtain bs b where b: "blocks cs = bs @ [b]" by blast
  then show ?thesis
    by (auto simp: driving_def blocks_snoc Let_def)
qed

lemma executes_not_excites: "executes c \<Longrightarrow> \<not> excites c"
  by (auto simp: executes_def excites_def execute_cards_def)

section \<open>The interface\<close>

definition ex_entry :: "card \<Rightarrow> int \<times> int \<times> cplx" where
  \<comment> \<open>the source an EX card adds\<close>
  "ex_entry c =
     (projr (card_i c 1), projr (card_i c 2),
      if feq (card_f c 4) (Fin 0) \<and> feq (card_f c 5) (Fin 0) then (Fin 1, Fin 0)
      else (card_f c 4, card_f c 5))"

definition other_cards :: "string list" where
  \<comment> \<open>the cards no dialect reads as geometry\<close>
  "other_cards = execute_cards @ arming_cards @ [''GD'', ''IS'', ''PT'', ''PQ'', ''MP'']"

definition drive_ok :: "card list \<Rightarrow> 'a parser_scheme \<Rightarrow> bool" where
  "drive_ok cards p \<longleftrightarrow>
     ps_sources p = map ex_entry (driving cards) \<and>
     (ps_sources_stale p \<longrightarrow> filter excites (last (blocks cards)) = []) \<and>
     (\<not> ps_sources_stale p \<longrightarrow> driving cards = filter excites (last (blocks cards))) \<and>
     (ps_executed p \<noteq> 0 \<and> \<not> ps_sources_stale p \<longrightarrow> ps_armed p)"

locale deck_runs = deck_dialect h for h :: "'a hooks" +
  assumes geometry_drive: "keeps_drive (hk_geometry h)"
    and gn_drive: "keeps_drive (hk_gn h)"
    and ek_drive: "keeps_drive (hk_ek h)"
    and ld_drive: "keeps_drive (hk_ld h)"
    and ex_drive: "hk_ex h c p = Inr p' \<Longrightarrow> drive_state p' = drive_state
      (p\<lparr>ps_sources_stale := False,
         ps_sources := (if ps_sources_stale p then [] else ps_sources p) @ [ex_entry c]\<rparr>)"
    and not_geometry: "set (hk_geometry_mnemonics h) \<inter> set other_cards = {}"
begin

lemma other_not_geometry: "m \<in> set other_cards \<Longrightarrow> m \<notin> set (hk_geometry_mnemonics h)"
  using not_geometry by blast

lemma dispatch_quiet:
  assumes "dispatch h c p = Inr p'" "mnemonic c \<notin> set execute_cards" "mnemonic c \<noteq> ''FR''" "mnemonic c \<noteq> ''EX''"
  shows "drive_state p' = drive_state p"
proof -
  have d: "leaves_drive (drive_state p) (f c p)" if "keeps_drive f" for f
    using that by (simp add: keeps_drive_def leaves_drive_def)
  have "leaves_drive (drive_state p) (dispatch h c p)"
    unfolding dispatch_def Let_def
    using assms(2-4) d [OF geometry_drive] d [OF gn_drive] d [OF gd_card_drive] d [OF ek_drive]
      d [OF ld_drive] d [OF is_card_drive]
    by (auto simp: leaves_drive_def okE dest: print_control_drive)
  then show ?thesis
    using assms(1) by (simp add: leaves_drive_def)
qed

lemma dispatch_FR:
  assumes "dispatch h c p = Inr p'" "mnemonic c = ''FR''"
  shows "drive_state p' = drive_state (p\<lparr>ps_fresh_fr := True\<rparr>)"
proof -
  have "fr_card c p = Inr p'"
    using assms other_not_geometry [of "''FR''"]
    by (simp add: dispatch_def Let_def other_cards_def arming_cards_def)
  then show ?thesis
    by (auto simp: fr_card_def okE Let_def drive_state_def)
qed

lemma dispatch_EX:
  assumes "dispatch h c p = Inr p'" "mnemonic c = ''EX''"
  shows "drive_state p' = drive_state (p\<lparr>ps_sources_stale := False,
    ps_sources := (if ps_sources_stale p then [] else ps_sources p) @ [ex_entry c]\<rparr>)"
proof -
  have "hk_ex h c p = Inr p'"
    using assms other_not_geometry [of "''EX''"]
    by (simp add: dispatch_def Let_def other_cards_def arming_cards_def)
  then show ?thesis by (rule ex_drive)
qed

lemma dispatch_execute:
  assumes "dispatch h c p = Inr p'" "mnemonic c \<in> set execute_cards"
  shows "\<exists>req. drive_state p' = drive_state
    (if \<not> ps_armed p \<and> ps_executed p \<noteq> 0 then p\<lparr>ps_groups := ps_groups p @ [None]\<rparr>
     else p\<lparr>ps_groups := ps_groups p @ [Some (pending req p)], ps_executed := ps_executed p + 1,
            ps_fresh_fr := False, ps_operator_dirty := False, ps_armed := False,
            ps_sources_stale := True\<rparr>)"
proof -
  have "mnemonic c \<notin> set (hk_geometry_mnemonics h)"
    using other_not_geometry assms(2) by (simp add: other_cards_def)
  moreover have "mnemonic c \<notin> {''GN'', ''GD'', ''FR'', ''EX'', ''LD'', ''IS'', ''EK'', ''PT'', ''PQ'', ''MP''}"
    using assms(2) by (auto simp: execute_cards_def)
  ultimately have "execute h c p = Inr p'"
    using assms by (simp add: dispatch_def Let_def)
  then show ?thesis
    by (cases "\<not> ps_armed p \<and> ps_executed p \<noteq> 0")
       (auto simp: execute_def okE simp del: split_paired_Ex)
qed

text \<open>One card, by the kind of its mnemonic.\<close>

lemma drive_fields:
  assumes "drive_state p = drive_state q"
  shows "ps_armed p = ps_armed q" "ps_executed p = ps_executed q" "ps_fresh_fr p = ps_fresh_fr q"
    "ps_operator_dirty p = ps_operator_dirty q" "ps_groups p = ps_groups q"
    "ps_sources p = ps_sources q" "ps_sources_stale p = ps_sources_stale q"
    "ps_networks p = ps_networks q" "ps_network_destroyer p = ps_network_destroyer q"
  using assms by (simp_all add: drive_state_def)

lemma ld_run_step_drive: "drive_state (ld_run_step h c p) = drive_state p"
  by (simp add: ld_run_step_def)

lemma arm_step_drive:
  "drive_state (arm_step c p) = drive_state (p\<lparr>ps_armed := ps_armed p \<or> mnemonic c \<in> set arming_cards,
    ps_operator_dirty := ps_operator_dirty p \<or> mnemonic c \<in> set operator_cards \<and> ps_executed p \<noteq> 0\<rparr>)"
  by (auto simp: arm_step_def Let_def drive_state_def operator_cards_def arming_cards_def)

lemma destroyer_step_drive:
  "drive_state (destroyer_step c p) = drive_state (p\<lparr>ps_network_destroyer :=
     if ps_networks p \<noteq> [] \<and> mnemonic c \<notin> set network_transparent \<and> ps_network_destroyer p = None
     then Some (mnemonic c) else ps_network_destroyer p\<rparr>)"
  by (auto simp: destroyer_step_def drive_state_def)

lemma comment_card_drive: "comment_card c p = Inr p' \<Longrightarrow> drive_state p' = drive_state p"
  by (auto simp: comment_card_def Let_def okE split: option.splits)

lemma network_drive:
  assumes "network b c p = Inr p'"
  shows "ps_network_destroyer p = None \<and> (\<exists>n. drive_state p' = drive_state (p\<lparr>ps_networks := ps_networks p @ [n]\<rparr>))"
proof (cases "ps_network_destroyer p")
  case None
  then obtain s p1 n where "the_structure b p = Inr (s, p1)" "p' = p1\<lparr>ps_networks := ps_networks p1 @ [n]\<rparr>"
    using assms by (auto simp: network_def okE simp del: split_paired_Ex upt_rec_numeral)
  then have "drive_state p' = drive_state (p\<lparr>ps_networks := ps_networks p @ [n]\<rparr>)"
    using the_structure_drive [of b p s p1] by (simp add: drive_state_def)
  with None show ?thesis by blast
next
  case (Some d)
  with assms show ?thesis by (simp add: network_def)
qed

lemma read_card_cases:
  assumes "read_card h c p = Inr p'"
  obtains (comment) "mnemonic c \<in> set comment_cards" "drive_state p' = drive_state p"
  | (network) p1 :: "'a parser_scheme" and n where "mnemonic c \<in> set network_cards" "drive_state p1 = drive_state (arm_step c p)"
      "ps_network_destroyer p = None" "drive_state p' = drive_state (p1\<lparr>ps_networks := ps_networks p @ [n]\<rparr>)"
  | (other) p1 :: "'a parser_scheme" where "mnemonic c \<notin> set comment_cards" "mnemonic c \<notin> set network_cards"
      "drive_state p1 = drive_state (destroyer_step c (arm_step c p))" "dispatch h c p1 = Inr p'"
proof -
  let ?q = "ld_run_step h c p"
  note q = drive_fields [OF ld_run_step_drive [of c p]]
  have arm: "drive_state (arm_step c ?q) = drive_state (arm_step c p)"
    unfolding arm_step_drive using q by (simp add: drive_state_def)
  have destroy: "drive_state (destroyer_step c (arm_step c ?q)) = drive_state (destroyer_step c (arm_step c p))"
    unfolding destroyer_step_drive using drive_fields [OF arm] by (simp add: drive_state_def)
  consider (comment) "mnemonic c \<in> set comment_cards"
    | (network) "mnemonic c \<notin> set comment_cards" "mnemonic c \<in> set network_cards"
    | (other) "mnemonic c \<notin> set comment_cards" "mnemonic c \<notin> set network_cards"
    by blast
  then show thesis
  proof cases
    case comment
    then have "comment_card c ?q = Inr p'"
      using assms by (auto simp: read_card_def Let_def comment_cards_def)
    then show thesis
      using that(1) [OF comment] comment_card_drive ld_run_step_drive by metis
  next
    case network
    then have "network (hk_builders h) c (arm_step c ?q) = Inr p'"
      using assms by (auto simp: read_card_def Let_def comment_cards_def split: if_splits)
    then obtain n where n: "ps_network_destroyer (arm_step c ?q) = None"
      "drive_state p' = drive_state ((arm_step c ?q)\<lparr>ps_networks := ps_networks (arm_step c ?q) @ [n]\<rparr>)"
      using network_drive by blast
    have "ps_network_destroyer (arm_step c ?q) = ps_network_destroyer p" "ps_networks (arm_step c ?q) = ps_networks p"
      using arm arm_step_drive [of c p] by (simp_all add: drive_state_def)
    with n show thesis
      using that(2) [OF network(2) arm] by simp
  next
    case other
    then have "dispatch h c (destroyer_step c (arm_step c ?q)) = Inr p'"
      using assms by (auto simp: read_card_def Let_def comment_cards_def okE split: if_splits option.splits)
    then show thesis
      using that(3) [OF other destroy] by blast
  qed
qed

lemma read_card_plain:
  assumes "read_card h c p = Inr p'" "mnemonic c \<notin> set execute_cards"
  shows "ps_groups p' = ps_groups p \<and> ps_executed p' = ps_executed p \<and>
    ps_armed p' = (ps_armed p \<or> mnemonic c \<in> set arming_cards) \<and>
    ps_fresh_fr p' = (ps_fresh_fr p \<or> mnemonic c = ''FR'') \<and>
    ps_operator_dirty p' =
      (ps_operator_dirty p \<or> mnemonic c \<in> set operator_cards \<and> ps_executed p \<noteq> 0) \<and>
    ps_sources_stale p' = (ps_sources_stale p \<and> mnemonic c \<noteq> ''EX'') \<and>
    ps_sources p' = (if mnemonic c = ''EX''
      then (if ps_sources_stale p then [] else ps_sources p) @ [ex_entry c] else ps_sources p)"
  using assms(1)
proof (cases rule: read_card_cases)
  case comment
  then show ?thesis
    using drive_fields [OF comment(2)]
    by (auto simp: comment_cards_def arming_cards_def operator_cards_def)
next
  case (network p1 n)
  note arm = network(2) [unfolded arm_step_drive]
  have "mnemonic c \<noteq> ''FR''" "mnemonic c \<noteq> ''EX''"
    using network(1) by (auto simp: network_cards_def)
  then show ?thesis
    using drive_fields [OF arm] drive_fields [OF network(4)] by simp
next
  case (other p1)
  note p1 = drive_fields [OF other(3) [unfolded destroyer_step_drive]]
    and arm = drive_fields [OF arm_step_drive [of c p]]
  consider "mnemonic c = ''FR''" | "mnemonic c = ''EX''" | "mnemonic c \<noteq> ''FR''" "mnemonic c \<noteq> ''EX''"
    by blast
  then show ?thesis
  proof cases
    case 1
    then show ?thesis
      using drive_fields [OF dispatch_FR [OF other(4) 1]] p1 arm by simp
  next
    case 2
    then show ?thesis
      using drive_fields [OF dispatch_EX [OF other(4) 2]] p1 arm by simp
  next
    case 3
    then show ?thesis
      using drive_fields [OF dispatch_quiet [OF other(4) assms(2) 3]] p1 arm by simp
  qed
qed

lemma read_card_execute:
  assumes "read_card h c p = Inr p'" "mnemonic c \<in> set execute_cards"
  shows "(if \<not> ps_armed p \<and> ps_executed p \<noteq> 0
     then ps_groups p' = ps_groups p @ [None] \<and> ps_executed p' = ps_executed p \<and> \<not> ps_armed p' \<and>
       ps_fresh_fr p' = ps_fresh_fr p \<and> ps_operator_dirty p' = ps_operator_dirty p \<and>
       ps_sources_stale p' = ps_sources_stale p
     else (\<exists>g. ps_groups p' = ps_groups p @ [Some g] \<and> pg_sources g = ps_sources p \<and>
         pg_refilled g = (ps_fresh_fr p \<or> ps_executed p = 0) \<and>
         pg_refilled_partial g = (ps_operator_dirty p \<and> \<not> (ps_fresh_fr p \<or> ps_executed p = 0))) \<and>
       ps_executed p' = ps_executed p + 1 \<and> \<not> ps_armed p' \<and> \<not> ps_fresh_fr p' \<and>
       \<not> ps_operator_dirty p' \<and> ps_sources_stale p') \<and> ps_sources p' = ps_sources p"
  using assms(1)
proof (cases rule: read_card_cases)
  case comment
  with assms(2) show ?thesis
    by (auto simp: comment_cards_def execute_cards_def)
next
  case (network p1 n)
  with assms(2) show ?thesis
    by (auto simp: network_cards_def execute_cards_def)
next
  case (other p1)
  have "mnemonic c \<notin> set arming_cards" "mnemonic c \<notin> set operator_cards"
    using assms(2) by (auto simp: execute_cards_def arming_cards_def operator_cards_def)
  then have p1: "ps_armed p1 = ps_armed p" "ps_executed p1 = ps_executed p" "ps_fresh_fr p1 = ps_fresh_fr p"
    "ps_operator_dirty p1 = ps_operator_dirty p" "ps_groups p1 = ps_groups p" "ps_sources p1 = ps_sources p"
    "ps_sources_stale p1 = ps_sources_stale p"
    using drive_fields [OF other(3) [unfolded destroyer_step_drive]] drive_fields [OF arm_step_drive [of c p]]
    by simp_all
  obtain req where "drive_state p' = drive_state
    (if \<not> ps_armed p1 \<and> ps_executed p1 \<noteq> 0 then p1\<lparr>ps_groups := ps_groups p1 @ [None]\<rparr>
     else p1\<lparr>ps_groups := ps_groups p1 @ [Some (pending req p1)], ps_executed := ps_executed p1 + 1,
            ps_fresh_fr := False, ps_operator_dirty := False, ps_armed := False,
            ps_sources_stale := True\<rparr>)"
    using dispatch_execute [OF other(4) assms(2)] by blast
  from drive_fields [OF this] p1 show ?thesis
    by (auto simp: pending_def Let_def)
qed

section \<open>Runs\<close>

lemma read_cards_runs:
  assumes "foldE (\<lambda>p c. read_card h c p) p cards = Inr p'" "since_ok started since p"
  shows "map refill_of (ps_groups p') = map refill_of (ps_groups p) @ runs_from started since (map mnemonic cards)"
  using assms
proof (induction cards arbitrary: p started since)
  case (Cons c cs)
  obtain p1 where p1: "read_card h c p = Inr p1" and rest: "foldE (\<lambda>p c. read_card h c p) p1 cs = Inr p'"
    using Cons.prems(1) by (auto simp: okE)
  have ok: "ps_executed p \<noteq> 0 \<longleftrightarrow> started"
    "started \<Longrightarrow> ps_armed p \<longleftrightarrow> set since \<inter> set arming_cards \<noteq> {}"
    "started \<Longrightarrow> ps_fresh_fr p \<longleftrightarrow> ''FR'' \<in> set since"
    "started \<Longrightarrow> ps_operator_dirty p \<longleftrightarrow> set since \<inter> set operator_cards \<noteq> {}"
    "\<not> started \<Longrightarrow> \<not> ps_operator_dirty p"
    using Cons.prems(2) by (auto simp: since_ok_def)
  show ?case
  proof (cases "mnemonic c \<in> set execute_cards")
    case True
    note ex = read_card_execute [OF p1 True]
    have fr: "''FR'' \<in> set since \<Longrightarrow> set since \<inter> set arming_cards \<noteq> {}"
      by (auto simp: arming_cards_def)
    have "map refill_of (ps_groups p1) = map refill_of (ps_groups p) @ [run_of started since]"
      using ex ok by (cases started) (auto simp: refill_of_def run_of_def split: if_splits)
    moreover have "since_ok True [] p1"
    proof (cases "\<not> ps_armed p \<and> ps_executed p \<noteq> 0")
      case True
      then have none: "set since \<inter> set arming_cards = {}"
        using ok by blast
      moreover have "set operator_cards \<subseteq> set arming_cards"
        by (auto simp: operator_cards_def arming_cards_def)
      ultimately have "set since \<inter> set operator_cards = {}" "''FR'' \<notin> set since"
        using fr by blast+
      with True ex ok show ?thesis
        by (simp add: since_ok_def)
    next
      case False
      with ex show ?thesis
        by (simp add: since_ok_def)
    qed
    ultimately show ?thesis
      using Cons.IH [OF rest] True by simp
  next
    case False
    note plain = read_card_plain [OF p1 False]
    have "since_ok started (mnemonic c # since) p1"
      using plain ok by (auto simp: since_ok_def)
    with Cons.IH [OF rest] plain False show ?thesis by simp
  qed
qed simp

section \<open>Sources\<close>

lemma read_card_drive_ok:
  assumes "drive_ok cs p" "read_card h c p = Inr p'"
  shows "drive_ok (cs @ [c]) p'"
proof (cases "executes c")
  case True
  then have m: "mnemonic c \<in> set execute_cards" and ex: "\<not> excites c"
    using executes_not_excites by (auto simp: executes_def)
  note ex_card = read_card_execute [OF assms(2) m]
  have "ps_sources_stale p'"
    using ex_card assms(1) by (auto simp: drive_ok_def split: if_splits)
  with ex_card assms(1) True ex show ?thesis
    by (simp add: drive_ok_def drives_snoc blocks_snoc)
next
  case False
  then have m: "mnemonic c \<notin> set execute_cards"
    by (simp add: executes_def)
  note plain = read_card_plain [OF assms(2) m]
  show ?thesis
  proof (cases "excites c")
    case True
    then have "mnemonic c = ''EX''" "mnemonic c \<in> set arming_cards"
      by (auto simp: excites_def arming_cards_def)
    with plain assms(1) False True show ?thesis
      by (cases "ps_sources_stale p") (simp_all add: drive_ok_def drives_snoc blocks_snoc)
  next
    case no: False
    then have "mnemonic c \<noteq> ''EX''"
      by (simp add: excites_def)
    with plain assms(1) False no show ?thesis
      by (auto simp: drive_ok_def drives_snoc blocks_snoc)
  qed
qed

lemma read_cards_drive_ok:
  assumes "foldE (\<lambda>p c. read_card h c p) p cards = Inr p'"
    and "ps_sources p = []" "\<not> ps_sources_stale p" "ps_executed p = 0"
  shows "drive_ok cards p'"
  using assms(1)
proof (induction cards arbitrary: p' rule: rev_induct)
  case Nil
  with assms(2-4) show ?case
    by (auto simp: drive_ok_def driving_def)
next
  case (snoc c cs)
  then show ?case
    using read_card_drive_ok by (auto simp: foldE_append okE)
qed

text \<open>Every run is driven by the EX cards of some point of the deck.\<close>

lemma group_sources:
  assumes "foldE (\<lambda>p c. read_card h c p) p cards = Inr p'" "Some g \<in> set (ps_groups p')"
    and "ps_groups p = []" "ps_sources p = []" "\<not> ps_sources_stale p" "ps_executed p = 0"
  shows "\<exists>pre post. cards = pre @ post \<and> pg_sources g = map ex_entry (driving pre)"
  using assms(1,2)
proof (induction cards arbitrary: p' rule: rev_induct)
  case Nil
  with assms(3) show ?case by simp
next
  case (snoc c cs)
  then obtain q where q: "foldE (\<lambda>p c. read_card h c p) p cs = Inr q" "read_card h c q = Inr p'"
    by (auto simp: foldE_append okE)
  have old: ?case if "Some g \<in> set (ps_groups q)"
    using snoc.IH [OF q(1) that] by force
  show ?case
  proof (cases "mnemonic c \<in> set execute_cards")
    case True
    have "ps_sources q = map ex_entry (driving cs)"
      using read_cards_drive_ok [OF q(1) assms(4-6)] by (simp add: drive_ok_def)
    then show ?thesis
      using read_card_execute [OF q(2) True] snoc.prems(2) old by (fastforce split: if_splits)
  next
    case False
    then show ?thesis
      using read_card_plain [OF q(2)] snoc.prems(2) old by simp
  qed
qed

section \<open>Networks\<close>

lemma read_card_network:
  assumes "read_card h c p = Inr p'"
  shows "if mnemonic c \<in> set network_cards
    then ps_network_destroyer p = None \<and> ps_network_destroyer p' = None \<and> ps_networks p' \<noteq> []
    else ps_networks p' = ps_networks p \<and> ps_network_destroyer p' =
      (if ps_networks p \<noteq> [] \<and> mnemonic c \<notin> set (network_transparent @ comment_cards) \<and>
          ps_network_destroyer p = None
       then Some (mnemonic c) else ps_network_destroyer p)"
  using assms
proof (cases rule: read_card_cases)
  case comment
  then have "mnemonic c \<notin> set network_cards"
    by (auto simp: comment_cards_def network_cards_def)
  with comment show ?thesis
    using drive_fields [OF comment(2)] by simp
next
  case (network p1 n)
  then show ?thesis
    using drive_fields [OF network(2) [unfolded arm_step_drive]] drive_fields [OF network(4)] by simp
next
  case (other p1)
  have "ps_networks p' = ps_networks p1 \<and> ps_network_destroyer p' = ps_network_destroyer p1"
  proof (cases "mnemonic c \<in> set execute_cards")
    case True
    then obtain req where "drive_state p' = drive_state
      (if \<not> ps_armed p1 \<and> ps_executed p1 \<noteq> 0 then p1\<lparr>ps_groups := ps_groups p1 @ [None]\<rparr>
       else p1\<lparr>ps_groups := ps_groups p1 @ [Some (pending req p1)], ps_executed := ps_executed p1 + 1,
            ps_fresh_fr := False, ps_operator_dirty := False, ps_armed := False,
            ps_sources_stale := True\<rparr>)"
      using dispatch_execute [OF other(4)] by blast
    from drive_fields [OF this] show ?thesis by simp
  next
    case False
    consider "mnemonic c = ''FR''" | "mnemonic c = ''EX''" | "mnemonic c \<noteq> ''FR''" "mnemonic c \<noteq> ''EX''"
      by blast
    then show ?thesis
      using drive_fields [OF dispatch_FR [OF other(4)]] drive_fields [OF dispatch_EX [OF other(4)]]
        drive_fields [OF dispatch_quiet [OF other(4) False]] by cases auto
  qed
  with other(1,2) show ?thesis
    using drive_fields [OF other(3) [unfolded destroyer_step_drive]] drive_fields [OF arm_step_drive [of c p]]
    by simp
qed

lemma destroyed_stays:
  assumes "foldE (\<lambda>p c. read_card h c p) p cards = Inr p'" "ps_network_destroyer p \<noteq> None"
  shows "ps_network_destroyer p' \<noteq> None \<and> (\<forall>c \<in> set cards. mnemonic c \<notin> set network_cards)"
  using assms
proof (induction cards arbitrary: p)
  case (Cons c cs)
  then obtain p1 where p1: "read_card h c p = Inr p1" "foldE (\<lambda>p c. read_card h c p) p1 cs = Inr p'"
    by (auto simp: okE)
  have "mnemonic c \<notin> set network_cards" "ps_network_destroyer p1 \<noteq> None"
    using read_card_network [OF p1(1)] Cons.prems(2) by (auto split: if_splits)
  with Cons.IH [OF p1(2)] show ?case by simp
qed simp

lemma networks_stay:
  assumes "foldE (\<lambda>p c. read_card h c p) p cards = Inr p'" "ps_networks p \<noteq> []"
  shows "ps_networks p' \<noteq> []"
  using assms
  by (rule foldE_invariant) (use read_card_network in \<open>fastforce split: if_splits\<close>)

lemma networks_contiguous:
  assumes "foldE (\<lambda>p c. read_card h c p) p (pre @ n1 # mid @ n2 # post) = Inr p'"
    and "mnemonic n1 \<in> set network_cards" "mnemonic n2 \<in> set network_cards" "c \<in> set mid"
  shows "mnemonic c \<in> set (network_cards @ network_transparent @ comment_cards)"
proof (rule ccontr)
  assume bad: "mnemonic c \<notin> set (network_cards @ network_transparent @ comment_cards)"
  obtain m1 m2 where mid: "mid = m1 @ c # m2"
    using assms(4) by (metis split_list)
  obtain p1 p2 p3 p4 where p1: "read_card h n1 p1 = Inr p2"
    and p3: "foldE (\<lambda>p c. read_card h c p) p2 m1 = Inr p3" "read_card h c p3 = Inr p4"
    and rest: "foldE (\<lambda>p c. read_card h c p) p4 (m2 @ n2 # post) = Inr p'"
    using assms(1) mid by (auto simp: foldE_append okE)
  have "ps_networks p2 \<noteq> []"
    using read_card_network [OF p1] assms(2) by simp
  then have "ps_networks p3 \<noteq> []"
    using networks_stay [OF p3(1)] by blast
  then have "ps_network_destroyer p4 \<noteq> None"
    using read_card_network [OF p3(2)] bad by (auto split: if_splits)
  from destroyed_stays [OF rest this] assms(3) show False by simp
qed

end

lemma nec2_ex_drive:
  "ex_card c p = Inr p' \<Longrightarrow> drive_state p' = drive_state
    (p\<lparr>ps_sources_stale := False, ps_sources := (if ps_sources_stale p then [] else ps_sources p) @ [ex_entry c]\<rparr>)"
  by (auto simp: ex_card_def ex_entry_def okE Let_def drive_state_def)

interpretation nec2_runs: deck_runs nec2_hooks
proof (intro deck_runs.intro deck_runs_axioms.intro)
  show "deck_dialect nec2_hooks"
    by (rule nec2.deck_dialect_axioms)
  show "set (hk_geometry_mnemonics nec2_hooks) \<inter> set other_cards = {}"
    by (simp add: nec2_hooks_def geometry_cards_def other_cards_def execute_cards_def arming_cards_def)
  show "drive_state p' = drive_state (p\<lparr>ps_sources_stale := False,
      ps_sources := (if ps_sources_stale p then [] else ps_sources p) @ [ex_entry c]\<rparr>)"
    if "hk_ex nec2_hooks c p = Inr p'" for c and p p' :: "'a parser_scheme"
    using that by (intro nec2_ex_drive) (simp add: nec2_hooks_def)
qed (simp_all add: nec2_hooks_def geometry_card_drive gn_card_drive ek_card_drive ld_card_drive)

end
