(* ===== verification/Load_Laws.thy ===== *)
theory Load_Laws
  imports Runs
begin

text \<open>
  What an \<open>LD\<close> card puts in force: one load per segment the cell rule reaches, at the
  segment's centre, on top of what its own run of LD cards had put there and of nothing else.
\<close>

section \<open>The loads in force\<close>

definition in_force :: "'a parser_scheme \<Rightarrow> (nat \<times> flt \<times> load_spec) list" where
  "in_force p = map ((!) (ps_load_log p)) (ps_live p)"

lemma load_entry_eq_imp: "load_entry_eq e f \<Longrightarrow> f = e"
  by (cases e; cases f) (auto simp: load_entry_eq_def dest: feq_imp_eq load_spec_eq_imp)

lemma log_entry_in_force:
  assumes "set (ps_live p) \<subseteq> {..<length (ps_load_log p)}"
  shows "in_force (log_entry e p) = in_force p @ [e]"
    and "set (ps_live (log_entry e p)) \<subseteq> {..<length (ps_load_log (log_entry e p))}"
proof -
  have old: "map ((!) (ps_load_log p @ [e])) (ps_live p) = map ((!) (ps_load_log p)) (ps_live p)"
    using assms by (auto simp: nth_append)
  have "in_force (log_entry e p) = in_force p @ [e] \<and>
      set (ps_live (log_entry e p)) \<subseteq> {..<length (ps_load_log (log_entry e p))}"
  proof (cases "index_of (load_entry_eq e) (ps_load_log p)")
    case None
    with old assms show ?thesis
      by (auto simp: log_entry_def in_force_def)
  next
    case (Some i)
    then have i: "i < length (ps_load_log p)" "load_entry_eq e (ps_load_log p ! i)"
      using index_of_Some [OF Some] by auto
    then have "ps_load_log p ! i = e"
      using load_entry_eq_imp by blast
    with Some i(1) assms show ?thesis
      by (simp add: log_entry_def in_force_def)
  qed
  then show "in_force (log_entry e p) = in_force p @ [e]"
    and "set (ps_live (log_entry e p)) \<subseteq> {..<length (ps_load_log (log_entry e p))}"
    by simp_all
qed

definition load_at :: "nec2_structure \<Rightarrow> load_spec \<Rightarrow> nat \<times> int \<Rightarrow> nat \<times> flt \<times> load_spec \<Rightarrow> bool" where
  \<comment> \<open>the entry is the load \<open>spec\<close> at the centre of the segment\<close>
  "load_at s spec ws e \<longleftrightarrow>
     resolve_of s (fst ws) (snd ws) = Inr (fst e, fst (snd e)) \<and> snd (snd e) = spec"

lemma resolve_element: "resolve_of s i k = Inr (j, a) \<Longrightarrow> \<exists>el. element_of s i k = Inr (j, el)"
  by (auto simp: resolve_of_def okE Let_def)

lemma in_force_frame [simp]:
  "in_force (p\<lparr>ps_loaded := x\<rparr>) = in_force p" "in_force (p\<lparr>ps_load_spec_at := y\<rparr>) = in_force p"
  by (simp_all add: in_force_def)

lemma ld_segment_in_force:
  assumes "ld_segment s spec (tc, p) ws = Inr (tc', p')"
    and "set (ps_live p) \<subseteq> {..<length (ps_load_log p)}"
  shows "\<exists>e key. in_force p' = in_force p @ [e] \<and> load_at s spec ws e \<and>
    set (ps_live p') \<subseteq> {..<length (ps_load_log p')} \<and>
    element_of s (fst ws) (snd ws) = Inr key \<and> key \<notin> tc \<and> tc' = insert key tc"
proof -
  obtain wire seg where ws: "ws = (wire, seg)" by (cases ws)
  obtain key j a p1 where key: "element_of s wire seg = Inr key" "key \<notin> tc"
    and a: "resolve_of s wire seg = Inr (j, a)"
    and p1: "p1 = (if key \<in> ps_loaded p then p\<lparr>ps_load_spec_at := (ps_load_spec_at p)(key := None)\<rparr>
       else p\<lparr>ps_loaded := insert key (ps_loaded p), ps_load_spec_at := (ps_load_spec_at p)(key \<mapsto> spec)\<rparr>)"
    and res: "tc' = insert key tc" "p' = log_entry (fst key, a, spec) p1"
    using assms(1) by (auto simp: ld_segment_def ws okE Let_def simp del: split_paired_Ex)
  have "set (ps_live p1) \<subseteq> {..<length (ps_load_log p1)}" "in_force p1 = in_force p"
    using assms(2) by (simp_all add: p1)
  moreover have "fst key = j"
    using resolve_element [OF a] key(1) by auto
  ultimately show ?thesis
    using log_entry_in_force [of p1 "(fst key, a, spec)"] a key res by (simp add: ws load_at_def)
qed

lemma ld_segments_in_force:
  assumes "foldE (ld_segment s spec) (tc, p) pairs = Inr (tc', p')"
    and "set (ps_live p) \<subseteq> {..<length (ps_load_log p)}"
  shows "\<exists>es keys. in_force p' = in_force p @ es \<and> list_all2 (load_at s spec) pairs es \<and>
    list_all2 (\<lambda>(w, k) key. element_of s w k = Inr key) pairs keys \<and>
    distinct keys \<and> set keys \<inter> tc = {}"
  using assms
proof (induction pairs arbitrary: tc p)
  case Nil
  then show ?case by simp
next
  case (Cons ws pairs)
  obtain tc1 p1 where step: "ld_segment s spec (tc, p) ws = Inr (tc1, p1)"
    and rest: "foldE (ld_segment s spec) (tc1, p1) pairs = Inr (tc', p')"
    using Cons.prems(1) by (auto simp: okE)
  obtain e key where e: "in_force p1 = in_force p @ [e]" "load_at s spec ws e"
    "set (ps_live p1) \<subseteq> {..<length (ps_load_log p1)}"
    "element_of s (fst ws) (snd ws) = Inr key" "key \<notin> tc" "tc1 = insert key tc"
    using ld_segment_in_force [OF step Cons.prems(2)] by blast
  obtain es keys where "in_force p' = in_force p1 @ es" "list_all2 (load_at s spec) pairs es"
    "list_all2 (\<lambda>(w, k) key. element_of s w k = Inr key) pairs keys"
    "distinct keys" "set keys \<inter> tc1 = {}"
    using Cons.IH [OF rest e(3)] by blast
  with e show ?case
    by (intro exI [of _ "e # es"] exI [of _ "key # keys"]) auto
qed

section \<open>The card\<close>

lemma ld_card_lumped:
  assumes "ld_card builders c p = Inr p'" "card_i c 0 = Inr t" "t \<in> {0, 1, 4}"
    and "lumped_spec t c = Some spec" "loads_ok p"
  shows "\<exists>s p0 tag a b pairs reached es keys.
    the_structure builders p = Inr (s, p0) \<and>
    card_i c 1 = Inr tag \<and> card_i c 2 = Inr a \<and> card_i c 3 = Inr b \<and>
    ld_segment_range s tag a b = Inr pairs \<and> length pairs \<le> ld_expand_max \<and>
    cell_rule s (ps_load_spec_at p) pairs (Some spec) = Inr reached \<and>
    in_force p' = in_force p @ es \<and> list_all2 (load_at s spec) reached es \<and>
    list_all2 (\<lambda>(w, k) key. element_of s w k = Inr key) reached keys \<and> distinct keys"
proof -
  have t: "t \<noteq> -1" "t \<in> {0, 1, 2, 3, 4, 5}" "\<not> (t = 2 \<or> t = 3)" "t \<noteq> 5"
    using assms(3) by auto
  obtain tag a b s p0 pairs reached tc where
    f: "card_i c 1 = Inr tag" "card_i c 2 = Inr a" "card_i c 3 = Inr b"
    and s: "the_structure builders p = Inr (s, p0)"
    and pairs: "ld_segment_range s tag a b = Inr pairs" "\<not> ld_expand_max < length pairs"
    and reached: "cell_rule s (ps_load_spec_at p0) pairs (Some spec) = Inr reached"
    and fold: "foldE (ld_segment s spec) ({}, p0) reached = Inr (tc, p')"
    using assms(1,2,4) t unfolding ld_card_def
    by (simp add: okE) (blast elim: )
  have p0: "p0 = p\<lparr>ps_structure := Some s\<rparr> \<or> p0 = p"
    using s by (auto simp: the_structure_def okE split: option.splits)
  then have eq: "ps_load_spec_at p0 = ps_load_spec_at p" "in_force p0 = in_force p"
    "set (ps_live p0) \<subseteq> {..<length (ps_load_log p0)}"
    using assms(5) by (auto simp: in_force_def loads_ok_def)
  from ld_segments_in_force [OF fold eq(3)] show ?thesis
    using f s pairs reached eq(1,2) by (metis not_less)
qed


section \<open>LD runs\<close>

type_synonym load_state =
  "(nat \<times> flt \<times> load_spec) list \<times> nat list \<times> (nat \<times> int \<rightharpoonup> load_spec) \<times> flt option \<times> (nat \<times> flt) list \<times>
    distributed_rlc option \<times> (nat \<times> distributed_rlc) list"

definition load_state :: "'a parser_scheme \<Rightarrow> load_state" where
  "load_state p =
     (ps_load_log p, ps_live p, ps_load_spec_at p, ps_global_conductivity p, ps_wire_conductivity p,
      ps_global_distributed p, ps_wire_distributed p)"

lemma in_force_load_state: "load_state p = load_state q \<Longrightarrow> in_force p = in_force q"
  by (simp add: load_state_def in_force_def)

lemma load_state_frame [simp]:
  "load_state (p\<lparr>ps_comments := x_comments\<rparr>) = load_state p"
  "load_state (p\<lparr>ps_quiet := x_quiet\<rparr>) = load_state p"
  "load_state (p\<lparr>ps_reduced_field := x_reduced_field\<rparr>) = load_state p"
  "load_state (p\<lparr>ps_geometry_cards := x_geometry_cards\<rparr>) = load_state p"
  "load_state (p\<lparr>ps_structure := x_structure\<rparr>) = load_state p"
  "load_state (p\<lparr>ps_groups := x_groups\<rparr>) = load_state p"
  "load_state (p\<lparr>ps_armed := x_armed\<rparr>) = load_state p"
  "load_state (p\<lparr>ps_executed := x_executed\<rparr>) = load_state p"
  "load_state (p\<lparr>ps_fresh_fr := x_fresh_fr\<rparr>) = load_state p"
  "load_state (p\<lparr>ps_print_control := x_print_control\<rparr>) = load_state p"
  "load_state (p\<lparr>ps_multiprocessing := x_multiprocessing\<rparr>) = load_state p"
  "load_state (p\<lparr>ps_saw_ex := x_saw_ex\<rparr>) = load_state p"
  "load_state (p\<lparr>ps_operator_dirty := x_operator_dirty\<rparr>) = load_state p"
  "load_state (p\<lparr>ps_sources := x_sources\<rparr>) = load_state p"
  "load_state (p\<lparr>ps_sources_stale := x_sources_stale\<rparr>) = load_state p"
  "load_state (p\<lparr>ps_frequencies := x_frequencies\<rparr>) = load_state p"
  "load_state (p\<lparr>ps_ground := x_ground\<rparr>) = load_state p"
  "load_state (p\<lparr>ps_second_medium := x_second_medium\<rparr>) = load_state p"
  "load_state (p\<lparr>ps_extended_kernel := x_extended_kernel\<rparr>) = load_state p"
  "load_state (p\<lparr>ps_networks := x_networks\<rparr>) = load_state p"
  "load_state (p\<lparr>ps_network_destroyer := x_network_destroyer\<rparr>) = load_state p"
  "load_state (p\<lparr>ps_loaded := x_loaded\<rparr>) = load_state p"
  "load_state (p\<lparr>ps_wire_insulation := x_wire_insulation\<rparr>) = load_state p"
  by (simp_all add: load_state_def)

definition run_start :: "'a parser_scheme \<Rightarrow> 'a parser_scheme" where
  \<comment> \<open>what an LD card starts from: its run's loads, or none when it opens a run\<close>
  "run_start p = (if ps_ld_run_open p then p else discard_loads p)"

lemma nec2_read_LD:
  assumes "read_card nec2_hooks c p = Inr p'" "mnemonic c = ''LD''"
  obtains q where "ld_card geometry_builders c q = Inr p'" "load_state q = load_state (run_start p)"
    "ps_structure q = ps_structure p" "ps_geometry_cards q = ps_geometry_cards p"
    "ps_load_log q = ps_load_log p" "ps_groups q = ps_groups p" "ps_ld_run_open q" "loads_ok p \<Longrightarrow> loads_ok q"
proof -
  define q where "q = destroyer_step c (arm_step c (ld_run_step nec2_hooks c p))"
  have "dispatch nec2_hooks c q = Inr p'"
    using assms by (simp add: read_card_def Let_def q_def nec2_hooks_def refused_by_name_def network_cards_def)
  then have "ld_card geometry_builders c q = Inr p'"
    using assms(2) by (simp add: dispatch_def Let_def nec2_hooks_def geometry_cards_def)
  moreover have "load_state q = load_state (run_start p)" "ps_structure q = ps_structure p"
    "ps_geometry_cards q = ps_geometry_cards p" "ps_load_log q = ps_load_log p" "ps_groups q = ps_groups p"
    "ps_ld_run_open q"
    by (simp_all add: q_def destroyer_step_def arm_step_def ld_run_step_def Let_def assms(2) run_start_def
        discard_loads_def load_state_def)
  moreover have "loads_ok q" if "loads_ok p"
    using that discard_loads_ok [of _ p]
    by (simp add: q_def destroyer_step_def arm_step_def ld_run_step_def Let_def assms(2) discard_loads_def loads_ok_def)
  ultimately show thesis
    by (rule that)
qed

text \<open>No other card touches the loads: the run an LD card opens replaces what was there.\<close>

definition leaves_loads :: "load_state \<Rightarrow> bool \<Rightarrow> pyexn + 'a parser_scheme \<Rightarrow> bool" where
  "leaves_loads st op m \<longleftrightarrow> (\<forall>p'. m = Inr p' \<longrightarrow> load_state p' = st \<and> ps_ld_run_open p' = op)"

lemma leaves_loads_simps [simp]:
  "leaves_loads st op (Inl e)"
  "leaves_loads st op (Inr p) \<longleftrightarrow> load_state p = st \<and> ps_ld_run_open p = op"
  by (simp_all add: leaves_loads_def)

lemma leaves_loads_value: "(\<And>x. leaves_loads st op (f x)) \<Longrightarrow> leaves_loads st op (bindE m f)"
  by (cases m) auto

lemma leaves_loads_structure:
  "(\<And>s p'. load_state p' = load_state p \<Longrightarrow> ps_ld_run_open p' = ps_ld_run_open p \<Longrightarrow>
      leaves_loads st op (f (s, p'))) \<Longrightarrow>
    leaves_loads st op (bindE (the_structure b p) f)"
  by (cases "ps_structure p"; cases "build_geometry b (ps_geometry_cards p)")
     (auto simp: the_structure_def)

abbreviation quiet_loads :: "'a parser_scheme \<Rightarrow> pyexn + 'a parser_scheme \<Rightarrow> bool" where
  "quiet_loads p \<equiv> leaves_loads (load_state p) (ps_ld_run_open p)"

lemma geometry_card_loads: "quiet_loads p (geometry_card b c p)"
  by (auto simp: geometry_card_def Let_def intro!: leaves_loads_structure)

lemma gn_card_loads: "quiet_loads p (gn_card c p)"
  unfolding gn_card_def Let_def by (cases "trailer c") (auto intro!: leaves_loads_value)

lemma fr_card_loads: "quiet_loads p (fr_card c p)"
  unfolding fr_card_def Let_def by (intro leaves_loads_value) simp

lemma ex_card_loads: "quiet_loads p (ex_card c p)"
  unfolding ex_card_def Let_def by (intro leaves_loads_value) simp

lemma ek_card_loads: "quiet_loads p (ek_card c p)"
  unfolding ek_card_def by (intro leaves_loads_value) simp

lemma is_card_loads: "quiet_loads p (is_card b c p)"
  unfolding is_card_def Let_def
  by (auto intro!: leaves_loads_value leaves_loads_structure)

lemma network_loads: "quiet_loads p (network b c p)"
  unfolding network_def
  by (cases "ps_network_destroyer p")
     (auto intro!: leaves_loads_value leaves_loads_structure simp del: upt_rec_numeral firstE.simps)

lemma the_structure_loads:
  "the_structure b p = Inr (s, p') \<Longrightarrow> load_state p' = load_state p \<and> ps_ld_run_open p' = ps_ld_run_open p"
  by (auto simp: the_structure_def okE split: option.splits)

lemma print_control_card_loads:
  "print_control_card b c p = Inr (pc, p') \<Longrightarrow>
    load_state p' = load_state p \<and> ps_ld_run_open p' = ps_ld_run_open p"
  unfolding print_control_card_def
  by (auto simp: okE split: if_splits dest!: the_structure_loads)

lemma print_control_loads:
  "quiet_loads p (bindE (print_control_card b c p) (\<lambda>(pc, p'). Inr (p'\<lparr>ps_print_control := Some pc\<rparr>)))"
  by (cases "print_control_card b c p") (auto dest: print_control_card_loads)

lemma execute_loads: "quiet_loads p (execute h c p)"
  unfolding execute_def by (auto intro!: leaves_loads_value)

lemma comment_card_loads: "quiet_loads p (comment_card c p)"
  unfolding comment_card_def Let_def by (intro leaves_loads_value) (simp split: option.split)

lemma nec2_dispatch_loads:
  "mnemonic c \<noteq> ''LD'' \<Longrightarrow> quiet_loads p (dispatch nec2_hooks c p)"
  unfolding dispatch_def Let_def
  by (simp add: nec2_hooks_def geometry_card_loads gn_card_loads fr_card_loads ex_card_loads ek_card_loads
      is_card_loads print_control_loads gd_card_def leaves_loads_value)
     (auto intro: execute_loads)

lemma nec2_read_card_loads:
  assumes "read_card nec2_hooks c p = Inr p'" "mnemonic c \<noteq> ''LD''"
  shows "load_state p' = load_state p \<and>
    ps_ld_run_open p' = (ps_ld_run_open p \<and> mnemonic c \<in> set ld_run_transparent)"
proof -
  define p1 where "p1 = ld_run_step nec2_hooks c p"
  have p1: "load_state p1 = load_state p"
    "ps_ld_run_open p1 = (ps_ld_run_open p \<and> mnemonic c \<in> set ld_run_transparent)"
    using assms(2) by (auto simp: p1_def ld_run_step_def nec2_hooks_def load_state_def)
  have arm: "load_state (arm_step c p1) = load_state p1" "ps_ld_run_open (arm_step c p1) = ps_ld_run_open p1"
    by (simp_all add: arm_step_def Let_def)
  have destroy: "load_state (destroyer_step c (arm_step c p1)) = load_state p1"
    "ps_ld_run_open (destroyer_step c (arm_step c p1)) = ps_ld_run_open p1"
    by (simp_all add: destroyer_step_def arm)
  have "quiet_loads p1 (read_card nec2_hooks c p)"
    unfolding read_card_def Let_def p1_def [symmetric]
    using comment_card_loads [of p1 c] network_loads [of "arm_step c p1" "hk_builders nec2_hooks" c]
      nec2_dispatch_loads [OF assms(2), of "destroyer_step c (arm_step c p1)"]
    by (auto simp: arm destroy intro!: leaves_loads_value split: option.split)
  with assms(1) p1 show ?thesis
    by (simp add: leaves_loads_def)
qed

lemma nec2_run_closed:
  assumes "foldE (\<lambda>p c. read_card nec2_hooks c p) p (x # ts) = Inr p'"
    and "mnemonic x \<noteq> ''LD''" "mnemonic x \<notin> set ld_run_transparent" "\<forall>t \<in> set ts. mnemonic t \<noteq> ''LD''"
  shows "\<not> ps_ld_run_open p' \<and> load_state p' = load_state p"
proof -
  obtain p1 where p1: "read_card nec2_hooks x p = Inr p1"
    and rest: "foldE (\<lambda>p c. read_card nec2_hooks c p) p1 ts = Inr p'"
    using assms(1) by (auto simp: okE)
  have "\<not> ps_ld_run_open p1 \<and> load_state p1 = load_state p"
    using nec2_read_card_loads [OF p1 assms(2)] assms(3) by simp
  with rest show ?thesis
    by (rule foldE_invariant) (use nec2_read_card_loads assms(4) in auto)
qed

end
