(* ===== verification/Model_Laws.thy ===== *)
theory Model_Laws
  imports Nec2_Laws
begin

text \<open>
  The second pass (\<open>model\<close>): the union of the loads and of the feeds, and the groups over
  them.  Every index a group carries is in range, and the pass raises no internal exception.
\<close>

section \<open>The load union\<close>

definition ran_groups :: "'a parser_scheme \<Rightarrow> pending_group list" where
  "ran_groups p = List.map_filter id (ps_groups p)"

lemma ran_groups_iff: "g \<in> set (ran_groups p) \<longleftrightarrow> Some g \<in> set (ps_groups p)"
  by (force simp: ran_groups_def List.map_filter_def)

definition used_loads :: "'a parser_scheme \<Rightarrow> nat set" where
  \<comment> \<open>the log entries in force at some execute card, or now where there is none\<close>
  "used_loads p = (if ran_groups p = [] then set (ps_live p) else \<Union> (set (map (set \<circ> pg_loads) (ran_groups p))))"

lemma loads_and_materials_eq:
  "loads_and_materials p = Inr (loads, used, mats) \<longleftrightarrow>
     used = sorted_list_of_set (used_loads p) \<and> loads = map ((!) (ps_load_log p)) used \<and>
     mats = hd (if ran_groups p = [] then [material_state p] else map pg_materials (ran_groups p)) \<and>
     (\<forall>g \<in> set (ran_groups p). pg_materials g = mats)"
proof -
  let ?used = "sort (remdups (if ran_groups p = [] then ps_live p else concat (map pg_loads (ran_groups p))))"
  let ?states = "if ran_groups p = [] then [material_state p] else map pg_materials (ran_groups p)"
  have used: "?used = sorted_list_of_set (used_loads p)"
    by (rule sorted_distinct_set_unique) (auto simp: used_loads_def)
  have same: "\<not> list_ex (\<lambda>st. st \<noteq> hd ?states) (tl ?states) \<longleftrightarrow>
      (\<forall>g \<in> set (ran_groups p). pg_materials g = hd ?states)"
    by (cases "ran_groups p") (auto simp: list_ex_iff)
  show ?thesis
    unfolding loads_and_materials_def ran_groups_def [symmetric] Let_def
    using same used by (auto simp: okE)
qed

lemma finite_used_loads [simp]: "finite (used_loads p)"
  by (auto simp: used_loads_def)

lemma used_loads_bound: "loads_ok p \<Longrightarrow> used_loads p \<subseteq> {..<length (ps_load_log p)}"
proof -
  assume ok: "loads_ok p"
  then have "set (pg_loads g) \<subseteq> {..<length (ps_load_log p)}" if "g \<in> set (ran_groups p)" for g
    using that by (simp add: loads_ok_def ran_groups_iff)
  with ok show ?thesis
    by (auto simp: used_loads_def loads_ok_def)
qed

lemma clean_loads_and_materials: "clean (loads_and_materials p)"
  unfolding loads_and_materials_def Let_def by (intro clean_rules) auto

lemma place_of_used:
  assumes "i \<in> set used"
  shows "\<exists>k. place_of used i = Some k \<and> k < length used \<and> used ! k = i"
  using assms index_of_None [of "\<lambda>j. j = i" used] index_of_Some [of "\<lambda>j. j = i" used]
  by (cases "place_of used i") (auto simp: place_of_def)

lemma places_ok:
  assumes "set ls \<subseteq> set used"
  shows "\<exists>ks. mapE (lookupE (place_of used)) ls = Inr ks \<and> length ks = length ls \<and>
    map ((!) used) ks = ls \<and> set ks \<subseteq> {..<length used}"
  using assms
proof (induction ls)
  case (Cons l ls)
  then obtain ks where ks: "mapE (lookupE (place_of used)) ls = Inr ks" "length ks = length ls"
    "map ((!) used) ks = ls" "set ks \<subseteq> {..<length used}"
    by auto
  obtain k where "place_of used l = Some k" "k < length used" "used ! k = l"
    using place_of_used [of l used] Cons.prems by auto
  with ks show ?case
    by (intro exI [of _ "k # ks"]) (simp add: lookupE_def [of _ l])
qed simp

section \<open>The feed union\<close>

definition feed_key :: "int \<times> int \<times> cplx \<Rightarrow> int \<times> int" where
  "feed_key src = (fst src, fst (snd src))"

definition feeds_inv :: "nec2_structure \<Rightarrow> (int \<times> int \<times> cplx) list \<Rightarrow> feed_union \<Rightarrow> bool" where
  \<comment> \<open>the addresses met so far, each once and in order of first mention, with where each
     resolves and the voltage it was first driven with\<close>
  "feeds_inv s srcs u \<longleftrightarrow>
     fu_order u = dedup (map feed_key srcs) \<and>
     list_all2 (\<lambda>(tag, seg) r. resolve s tag seg = Inr r) (fu_order u) (fu_resolved u) \<and>
     length (fu_volts u) = length (fu_order u)"

lemma feed_source_inv:
  assumes "feeds_inv s srcs u" "feed_source s u src = Inr u'"
  shows "feeds_inv s (srcs @ [src]) u'"
proof -
  obtain tag seg volts where src: "src = (tag, seg, volts)" by (cases src)
  have key: "feed_key src = (tag, seg)"
    by (simp add: feed_key_def src)
  show ?thesis
  proof (cases "(tag, seg) \<in> set (fu_order u)")
    case True
    then have "u' = u"
      using assms(2) by (simp add: src feed_source_def)
    with True assms(1) show ?thesis
      unfolding feeds_inv_def by (auto simp: dedup_snoc key)
  next
    case False
    with assms(2) src obtain r where "resolve s tag seg = Inr r"
      "u' = \<lparr>fu_order = fu_order u @ [(tag, seg)], fu_resolved = fu_resolved u @ [r],
             fu_volts = fu_volts u @ [volts]\<rparr>"
      by (auto simp: feed_source_def okE)
    with assms(1) False show ?thesis
      unfolding feeds_inv_def by (auto simp: dedup_snoc key intro!: list_all2_appendI)
  qed
qed

lemma feed_sources_inv:
  assumes "foldE (feed_source s) \<lparr>fu_order = [], fu_resolved = [], fu_volts = []\<rparr> srcs = Inr u"
  shows "feeds_inv s srcs u"
  using assms
proof (induction srcs arbitrary: u rule: rev_induct)
  case Nil
  then show ?case by (auto simp: feeds_inv_def dedup_def)
next
  case (snoc src srcs)
  then obtain u0 where "foldE (feed_source s) \<lparr>fu_order = [], fu_resolved = [], fu_volts = []\<rparr> srcs = Inr u0"
    "feed_source s u0 src = Inr u"
    by (auto simp: foldE_append okE)
  with snoc.IH feed_source_inv show ?case by blast
qed

lemma clean_feed_sources:
  "structure_ok s \<Longrightarrow> clean (foldE (feed_source s) u srcs)"
  by (rule clean_foldE_all)
     (auto simp: feed_source_def intro!: clean_bind clean_resolve split: prod.split)

definition voltages_of :: "(int \<times> int) list \<Rightarrow> (int \<times> int \<times> cplx) list \<Rightarrow> cplx list" where
  \<comment> \<open>the last voltage the sources give each address, zero where they name it not\<close>
  "voltages_of order srcs =
     map (\<lambda>key. case index_of (\<lambda>src. feed_key src = key) (rev srcs) of
                  None \<Rightarrow> (Fin 0, Fin 0) | Some i \<Rightarrow> snd (snd (rev srcs ! i))) order"

lemma voltages_of_snoc:
  assumes "distinct order" "i < length order" "order ! i = feed_key src"
  shows "voltages_of order (srcs @ [src]) = (voltages_of order srcs)[i := snd (snd src)]"
proof (rule nth_equalityI)
  fix j assume "j < length (voltages_of order (srcs @ [src]))"
  then have j: "j < length order" by (simp add: voltages_of_def)
  then show "voltages_of order (srcs @ [src]) ! j = (voltages_of order srcs)[i := snd (snd src)] ! j"
    using assms nth_eq_iff_index_eq [OF assms(1) j assms(2)]
    by (cases "j = i") (auto simp: voltages_of_def split: option.split)
qed (simp add: voltages_of_def)

lemma voltage_steps:
  assumes "distinct order" "set (map feed_key srcs) \<subseteq> set order"
  shows "foldE (voltage_step order) (replicate (length order) (Fin 0, Fin 0)) srcs
    = Inr (voltages_of order srcs)"
  using assms(2)
proof (induction srcs rule: rev_induct)
  case Nil
  then show ?case
    by (simp add: voltages_of_def map_replicate_const)
next
  case (snoc src srcs)
  have mem: "feed_key src \<in> set order"
    using snoc.prems by simp
  then obtain i where i: "index_of (\<lambda>j. j = feed_key src) order = Some i"
    using index_of_None [of "\<lambda>j. j = feed_key src" order] by (cases "index_of (\<lambda>j. j = feed_key src) order") auto
  then have "i < length order" "order ! i = feed_key src"
    using index_of_Some [OF i] by auto
  then have "voltages_of order (srcs @ [src]) = (voltages_of order srcs)[i := snd (snd src)]"
    using voltages_of_snoc [OF assms(1)] by simp
  with snoc i show ?case
    by (cases src) (simp add: foldE_append voltage_step_def lookupE_def feed_key_def)
qed

section \<open>The groups\<close>

lemma final_group_ok:
  assumes "distinct order" "set (map feed_key (pg_sources g)) \<subseteq> set order" "set (pg_loads g) \<subseteq> set used"
  shows "\<exists>eg ls. final_group order used (Some g) = Inr (Some eg) \<and>
    eg_voltages eg = voltages_of order (pg_sources g) \<and>
    eg_loads eg = Some ls \<and> sorted ls \<and> set ls \<subseteq> {..<length used} \<and>
    (nth used) ` set ls = set (pg_loads g) \<and>
    eg_frequencies eg = pg_frequencies g \<and> eg_request eg = pg_request g \<and>
    eg_environment eg = pg_environment g \<and> eg_extended_kernel eg = pg_extended_kernel g"
proof -
  obtain ks where "mapE (lookupE (place_of used)) (pg_loads g) = Inr ks"
    "map ((!) used) ks = pg_loads g" "set ks \<subseteq> {..<length used}"
    using places_ok [OF assms(3)] by blast
  moreover from this have "(nth used) ` set ks = set (pg_loads g)"
    by (metis list.set_map)
  ultimately show ?thesis
    using voltage_steps [OF assms(1,2)] by (simp add: final_group_def)
qed


lemma mapE_exists: "(\<And>x. x \<in> set xs \<Longrightarrow> \<exists>y. f x = Inr y) \<Longrightarrow> \<exists>ys. mapE f xs = Inr ys"
  by (induction xs) (simp, fastforce)

lemma final_groups:
  assumes "distinct order" "\<And>g. Some g \<in> set pgs \<Longrightarrow> set (map feed_key (pg_sources g)) \<subseteq> set order"
    and "\<And>g. Some g \<in> set pgs \<Longrightarrow> set (pg_loads g) \<subseteq> set used"
  shows "\<exists>egs. mapE (final_group order used) pgs = Inr egs"
proof (rule mapE_exists)
  fix g assume g: "g \<in> set pgs"
  show "\<exists>eg. final_group order used g = Inr eg"
  proof (cases g)
    case None
    then show ?thesis by (simp add: final_group_def)
  next
    case (Some pg)
    with g have "Some pg \<in> set pgs" by simp
    then show ?thesis
      using final_group_ok [OF assms(1) assms(2,3)] Some by blast
  qed
qed

text \<open>What the second pass makes of the groups: each that ran carries one voltage per feed and
  in-range load indices that name its own loads; each that did not stays None.\<close>

definition group_of :: "(int \<times> int) list \<Rightarrow> nat list \<Rightarrow> pending_group option \<Rightarrow> execute_group option \<Rightarrow> bool" where
  "group_of order used g eg \<longleftrightarrow>
     (case (g, eg) of
        (None, None) \<Rightarrow> True
      | (Some pg, Some e) \<Rightarrow>
          eg_voltages e = voltages_of order (pg_sources pg) \<and>
          (\<exists>ls. eg_loads e = Some ls \<and> sorted ls \<and> set ls \<subseteq> {..<length used} \<and>
             (nth used) ` set ls = set (pg_loads pg)) \<and>
          eg_frequencies e = pg_frequencies pg \<and> eg_request e = pg_request pg \<and>
          eg_environment e = pg_environment pg \<and> eg_extended_kernel e = pg_extended_kernel pg
      | _ \<Rightarrow> False)"

lemma final_group_of:
  assumes "final_group order used g = Inr eg" "distinct order"
    and "\<And>pg. g = Some pg \<Longrightarrow> set (map feed_key (pg_sources pg)) \<subseteq> set order \<and> set (pg_loads pg) \<subseteq> set used"
  shows "group_of order used g eg"
proof (cases g)
  case None
  with assms(1) show ?thesis by (simp add: final_group_def group_of_def)
next
  case (Some pg)
  then show ?thesis
    using final_group_ok [OF assms(2), of pg used] assms(1,3) by (auto simp: group_of_def)
qed

lemma feeds_and_groups_ok:
  assumes "feeds_and_groups s used p = Inr (feeds, groups)"
    and "\<And>g. Some g \<in> set (ps_groups p) \<Longrightarrow> set (pg_loads g) \<subseteq> set used"
  shows "\<exists>order. order = dedup (map feed_key (all_sources p)) \<and>
    list_all2 (\<lambda>(tag, seg) (wire, a, v). resolve s tag seg = Inr (wire, a)) order feeds \<and>
    list_all2 (group_of order used) (ps_groups p) groups"
proof -
  obtain u where u: "foldE (feed_source s) \<lparr>fu_order = [], fu_resolved = [], fu_volts = []\<rparr> (all_sources p) = Inr u"
    and groups: "mapE (final_group (fu_order u) used) (ps_groups p) = Inr groups"
    and feeds: "feeds = map (\<lambda>((wire, a), v). (wire, a, v)) (zip (fu_resolved u) (fu_volts u))"
    using assms(1) by (auto simp: feeds_and_groups_def okE)
  have inv: "feeds_inv s (all_sources p) u"
    using feed_sources_inv [OF u] .
  then have order: "fu_order u = dedup (map feed_key (all_sources p))" "distinct (fu_order u)"
    by (simp_all add: feeds_inv_def)
  have srcs: "set (map feed_key (pg_sources g)) \<subseteq> set (fu_order u)" if "Some g \<in> set (ps_groups p)" for g
    using that ran_groups_iff [of g p]
    unfolding order set_dedup all_sources_def ran_groups_def by auto
  have "list_all2 (\<lambda>(tag, seg) (wire, a, v). resolve s tag seg = Inr (wire, a)) (fu_order u) feeds"
    using inv unfolding feeds_inv_def feeds list_all2_conv_all_nth by (auto split: prod.splits)
  moreover have "list_all2 (group_of (fu_order u) used) (ps_groups p) groups"
    unfolding list_all2_conv_all_nth
  proof (intro conjI allI impI)
    show "length (ps_groups p) = length groups"
      using mapE_length [OF groups] by simp
    fix i assume i: "i < length (ps_groups p)"
    then have "final_group (fu_order u) used (ps_groups p ! i) = Inr (groups ! i)"
      using mapE_nth [OF groups] by blast
    then show "group_of (fu_order u) used (ps_groups p ! i) (groups ! i)"
    proof (rule final_group_of [OF _ order(2)])
      fix pg assume "ps_groups p ! i = Some pg"
      then have "Some pg \<in> set (ps_groups p)"
        using i by (metis nth_mem)
      then show "set (map feed_key (pg_sources pg)) \<subseteq> set (fu_order u) \<and> set (pg_loads pg) \<subseteq> set used"
        using srcs assms(2) by blast
    qed
  qed
  ultimately show ?thesis
    using order(1) by blast
qed

section \<open>The model\<close>

lemma clean_feeds_and_groups:
  assumes "structure_ok s" "\<And>g. Some g \<in> set (ps_groups p) \<Longrightarrow> set (pg_loads g) \<subseteq> set used"
  shows "clean (feeds_and_groups s used p)"
  unfolding feeds_and_groups_def
proof (rule clean_bind [OF clean_feed_sources [OF assms(1)]])
  fix u assume u: "foldE (feed_source s) \<lparr>fu_order = [], fu_resolved = [], fu_volts = []\<rparr> (all_sources p) = Inr u"
  have order: "fu_order u = dedup (map feed_key (all_sources p))"
    using feed_sources_inv [OF u] by (simp add: feeds_inv_def)
  have "set (map feed_key (pg_sources g)) \<subseteq> set (fu_order u)" if "Some g \<in> set (ps_groups p)" for g
    using that ran_groups_iff [of g p]
    unfolding order set_dedup all_sources_def ran_groups_def by auto
  then obtain egs where "mapE (final_group (fu_order u) used) (ps_groups p) = Inr egs"
    using final_groups [of "fu_order u" "ps_groups p" used] assms(2) order by auto
  then show "clean (bindE (mapE (final_group (fu_order u) used) (ps_groups p)) (\<lambda>groups.
      Inr (map (\<lambda>((wire, a), v). (wire, a, v)) (zip (fu_resolved u) (fu_volts u)), groups)))"
    by simp
qed

lemma clean_model_wire: "clean (model_wire s ins mats pc)"
proof -
  have "clean (material_for s ins w mats)" for w
    unfolding material_for_def Let_def
    by (cases mats) (auto simp: mk_wire_material_def intro!: clean_bind clean_mk_distributed_rlc
        split: option.split)
  then show ?thesis
    unfolding model_wire_def by (rule clean_bind) (simp add: mk_deck_wire_def)
qed

lemma group_loads_used:
  "Some g \<in> set (ps_groups p) \<Longrightarrow> set (pg_loads g) \<subseteq> used_loads p"
  by (auto simp: used_loads_def ran_groups_iff [symmetric])

context deck_dialect
begin

lemma clean_model:
  assumes "parser_ok (hk_builders h) p"
  shows "clean (model h p)"
  unfolding model_def
proof (intro clean_bind, goal_cases)
  case 1
  show ?case by simp
next
  case 2
  show ?case
    using the_structure_ok [OF builders_clean assms] by (rule ok_result_clean)
next
  case (3 u sp)
  obtain s p' where sp: "sp = (s, p')" by (cases sp)
  have ok: "structure_ok s" "parser_ok (hk_builders h) p'"
    using the_structure_ok [OF builders_clean assms] 3 sp by (auto simp: ok_result_def)
  show ?case
    unfolding sp prod.case
  proof (rule clean_bind [OF clean_loads_and_materials], clarify)
    fix loads used mats1 mats2 mats3 mats4
    assume lm: "loads_and_materials p' = Inr (loads, used, mats1, mats2, mats3, mats4)"
    have used: "set used = used_loads p'"
      using lm unfolding loads_and_materials_eq by simp
    have groups: "clean (feeds_and_groups s used p')"
      using clean_feeds_and_groups [OF ok(1)] group_loads_used used by metis
    have contact: "clean (firstE (contact_refusal ws) xs)" for ws xs
      by (rule clean_firstE) (auto simp: contact_refusal_def Let_def split: if_splits)
    show "clean (bindE (mapE (model_wire s (ps_wire_insulation p') (mats1, mats2, mats3, mats4)) (st_pieces s)) (\<lambda>wires.
        bindE (feeds_and_groups s used p') (\<lambda>(feeds, groups).
        bindE (if st_ground_plane_flag s \<and> \<not> st_ground_plane_interpolates s \<and> grounded groups p'
            then firstE (contact_refusal (st_wires s))
                   (concat (map (\<lambda>w. [(w, fw_p1 w), (w, fw_p2 w)]) (st_wires s)))
            else Inr ()) (\<lambda>_.
       Inr \<lparr>dm_wires = wires, dm_feeds = feeds, dm_node_gaps = [], dm_loads = loads,
            dm_ground = ps_ground p', dm_ground_z = Fin 0,
            dm_second_medium = ps_second_medium p',
            dm_ground_plane_flag = st_ground_plane_flag s,
            dm_ground_plane_interpolates = st_ground_plane_interpolates s,
            dm_groups = groups, dm_comments = ps_comments p', dm_quiet = ps_quiet p',
            dm_reduced_field = ps_reduced_field p', dm_deferred = [],
            dm_networks = ps_networks p', dm_current_feeds = [],
            dm_extended_kernel_default = False, dm_junction_rule = ''nec2''\<rparr>))))"
      by (intro clean_bind clean_mapE clean_model_wire groups)
         (auto intro!: clean_bind clean_if contact split: prod.split)
  qed
qed

end

end
