(* ===== verification/Deck_Reading.thy ===== *)
theory Deck_Reading
  imports Load_Laws Model_Laws
begin

text \<open>
  From the deck's lines to its cards: reading the lines is reading the cards that stand
  before the first terminator, one by one.
\<close>

fun deck_cards :: "string list \<Rightarrow> card list" where
  \<comment> \<open>the cards up to the first terminator\<close>
  "deck_cards [] = []"
| "deck_cards (l # ls) =
     (case parse_card l of
        Inr (Some c) \<Rightarrow> if mnemonic c \<in> set terminators then [] else c # deck_cards ls
      | _ \<Rightarrow> deck_cards ls)"

abbreviation read_cards :: "'a hooks \<Rightarrow> 'a parser_scheme \<Rightarrow> card list \<Rightarrow> pyexn + 'a parser_scheme" where
  "read_cards h p cards \<equiv> foldE (\<lambda>p c. read_card h c p) p cards"

lemma feed_lines_cards:
  "feed_lines h ls p = Inr p' \<Longrightarrow> read_cards h p (deck_cards ls) = Inr p'"
  by (induction ls arbitrary: p) (auto simp: okE split: option.splits if_splits sum.splits)

lemma the_structure_Inr:
  assumes "the_structure b p = Inr (s, p')" "geometry_ok b p"
  shows "p' = p\<lparr>ps_structure := Some s\<rparr>" "build_geometry b (ps_geometry_cards p) = Inr s"
  using assms by (auto simp: the_structure_def okE geometry_ok_def split: option.splits)

lemma model_Inr:
  assumes "model h p = Inr m" "ps_structure p = Some s"
  obtains loads used mats wires feeds groups where
    "ps_saw_ex p" "loads_and_materials p = Inr (loads, used, mats)"
    "mapE (model_wire s (ps_wire_insulation p) mats) (st_pieces s) = Inr wires"
    "feeds_and_groups s used p = Inr (feeds, groups)"
    "st_ground_plane_flag s \<and> \<not> st_ground_plane_interpolates s \<and> grounded groups p \<longrightarrow>
      firstE (contact_refusal (st_wires s))
        (concat (map (\<lambda>w. [(w, fw_p1 w), (w, fw_p2 w)]) (st_wires s))) = Inr ()"
    "dm_wires m = wires" "dm_feeds m = feeds" "dm_loads m = loads" "dm_groups m = groups"
    "dm_networks m = ps_networks p" "dm_ground m = ps_ground p"
    "dm_ground_plane_flag m = st_ground_plane_flag s"
    "dm_ground_plane_interpolates m = st_ground_plane_interpolates s"
    "dm_comments m = ps_comments p"
proof -
  have s: "the_structure (hk_builders h) p = Inr (s, p)"
    using assms(2) by (simp add: the_structure_def)
  show thesis
    using assms(1) unfolding model_def
    by (auto simp: s okE split: if_splits intro!: that)
qed

text \<open>Both passes together, for any dialect: the state the cards leave, the structure, and what
  the model keeps of them.\<close>

context deck_dialect
begin

lemma feed_model:
  assumes "feed h deck p0 = Inr p" "model h p = Inr m" "parser_ok (hk_builders h) p0"
  obtains q s used mats where
    "read_cards h p0 (deck_cards (splitlines deck)) = Inr q"
    "p = q\<lparr>ps_structure := Some s\<rparr>" "parser_ok (hk_builders h) p" "structure_ok s"
    "build_geometry (hk_builders h) (ps_geometry_cards q) = Inr s"
    "ps_saw_ex p" "loads_and_materials p = Inr (dm_loads m, used, mats)"
    "mapE (model_wire s (ps_wire_insulation p) mats) (st_pieces s) = Inr (dm_wires m)"
    "feeds_and_groups s used p = Inr (dm_feeds m, dm_groups m)"
    "st_ground_plane_flag s \<and> \<not> st_ground_plane_interpolates s \<and> grounded (dm_groups m) p \<longrightarrow>
      firstE (contact_refusal (st_wires s))
        (concat (map (\<lambda>w. [(w, fw_p1 w), (w, fw_p2 w)]) (st_wires s))) = Inr ()"
    "dm_networks m = ps_networks p" "dm_ground m = ps_ground p"
    "dm_ground_plane_flag m = st_ground_plane_flag s"
    "dm_ground_plane_interpolates m = st_ground_plane_interpolates s"
    "dm_comments m = ps_comments p"
proof -
  obtain q s where q: "feed_lines h (splitlines deck) p0 = Inr q"
    and s: "the_structure (hk_builders h) q = Inr (s, p)"
    using assms(1) by (auto simp: feed_def okE)
  have okq: "parser_ok (hk_builders h) q"
    using feed_lines_ok [OF assms(3), of "splitlines deck"] q by simp
  have okp: "parser_ok (hk_builders h) p"
    using feed_ok [OF assms(3), of deck] assms(1) by simp
  have st: "p = q\<lparr>ps_structure := Some s\<rparr>" "build_geometry (hk_builders h) (ps_geometry_cards q) = Inr s"
    using the_structure_Inr [OF s] okq by (simp_all add: parser_ok_def)
  have "ps_structure p = Some s"
    by (simp add: st(1))
  with assms(2) show thesis
    by (rule model_Inr)
       (rule that [OF feed_lines_cards [OF q] st(1) okp build_geometry_ok [OF st(2)] st(2)]; simp)
qed

end

lemma parse_nec2_model:
  assumes "parse_nec2 deck = Inr m"
  obtains q p s used mats where
    "read_cards nec2_hooks init_parser (deck_cards (splitlines deck)) = Inr q"
    "p = q\<lparr>ps_structure := Some s\<rparr>" "parser_ok geometry_builders p" "structure_ok s"
    "build_geometry geometry_builders (ps_geometry_cards q) = Inr s"
    "ps_saw_ex p" "loads_and_materials p = Inr (dm_loads m, used, mats)"
    "mapE (model_wire s (ps_wire_insulation p) mats) (st_pieces s) = Inr (dm_wires m)"
    "feeds_and_groups s used p = Inr (dm_feeds m, dm_groups m)"
    "st_ground_plane_flag s \<and> \<not> st_ground_plane_interpolates s \<and> grounded (dm_groups m) p \<longrightarrow>
      firstE (contact_refusal (st_wires s))
        (concat (map (\<lambda>w. [(w, fw_p1 w), (w, fw_p2 w)]) (st_wires s))) = Inr ()"
    "dm_networks m = ps_networks p" "dm_ground m = ps_ground p"
    "dm_ground_plane_flag m = st_ground_plane_flag s"
    "dm_ground_plane_interpolates m = st_ground_plane_interpolates s"
    "dm_comments m = ps_comments p"
proof -
  have b: "hk_builders nec2_hooks = geometry_builders"
    by (simp add: nec2_hooks_def)
  obtain p where "feed nec2_hooks deck init_parser = Inr p" "model nec2_hooks p = Inr m"
    using assms by (auto simp: parse_nec2_def okE)
  from nec2.feed_model [OF this init_parser_ok, of thesis, unfolded b] that show thesis
    by blast
qed

text \<open>The model's groups run and refill as the parser's do.\<close>

lemma groups_refills:
  assumes "feeds_and_groups s used p = Inr (feeds, groups)"
  shows "map (map_option (\<lambda>g. (eg_refilled g, eg_refilled_partial g))) groups = map refill_of (ps_groups p)"
proof -
  have one: "map_option (\<lambda>g. (eg_refilled g, eg_refilled_partial g)) eg = refill_of pg"
    if "final_group order used pg = Inr eg" for order pg eg
    using that by (auto simp: final_group_def refill_of_def okE split: option.splits)
  obtain order where "mapE (final_group order used) (ps_groups p) = Inr groups"
    using assms by (auto simp: feeds_and_groups_def okE)
  then have "list_all2 (\<lambda>pg eg. final_group order used pg = Inr eg) (ps_groups p) groups"
    by (simp add: mapE_eq_Inr)
  then show ?thesis
    by (induction rule: list_all2_induct) (simp_all add: one)
qed

text \<open>The mnemonics the reader accepts.\<close>

definition readable :: "string list" where
  "readable = geometry_cards @ execute_cards @ network_cards @ comment_cards @
     [''GN'', ''GD'', ''FR'', ''EX'', ''LD'', ''IS'', ''EK'', ''PT'', ''PQ'', ''MP'']"

lemma read_card_readable: "read_card nec2_hooks c p = Inr p' \<Longrightarrow> mnemonic c \<in> set readable"
proof (rule ccontr)
  assume r: "read_card nec2_hooks c p = Inr p'" and "mnemonic c \<notin> set readable"
  then have "dispatch nec2_hooks c q = Inl (deck_error (UnrecognisedCard (mnemonic c)))"
    "mnemonic c \<noteq> ''CM''" "mnemonic c \<noteq> ''CE''" "mnemonic c \<notin> set network_cards" for q :: "'a parser_scheme"
    unfolding dispatch_def Let_def
    by (simp_all add: nec2_hooks_def readable_def comment_cards_def)
  with r show False
    by (auto simp: read_card_def Let_def okE split: if_splits option.splits)
qed

lemma read_cards_split:
  assumes "read_cards h p (pre @ c # post) = Inr p'"
  obtains q q' where "read_cards h p pre = Inr q" "read_card h c q = Inr q'" "read_cards h q' post = Inr p'"
  using assms that by (auto simp: foldE_append okE)

section \<open>The geometry cards and the EX cards\<close>

definition marks :: "'a parser_scheme \<Rightarrow> bool \<times> card list" where
  "marks p = (ps_saw_ex p, ps_geometry_cards p)"

definition leaves_marks :: "bool \<times> card list \<Rightarrow> pyexn + 'a parser_scheme \<Rightarrow> bool" where
  "leaves_marks v m \<longleftrightarrow> (\<forall>p'. m = Inr p' \<longrightarrow> marks p' = v)"

lemma leaves_marks_simps [simp]:
  "leaves_marks v (Inl e)" "leaves_marks v (Inr p) \<longleftrightarrow> marks p = v"
  by (simp_all add: leaves_marks_def)

lemma leaves_marks_bind: "(\<And>x. m = Inr x \<Longrightarrow> leaves_marks v (f x)) \<Longrightarrow> leaves_marks v (bindE m f)"
  by (cases m) auto

lemma marks_frame [simp]:
  "marks (p\<lparr>ps_comments := x_comments\<rparr>) = marks p"
  "marks (p\<lparr>ps_quiet := x_quiet\<rparr>) = marks p"
  "marks (p\<lparr>ps_reduced_field := x_reduced_field\<rparr>) = marks p"
  "marks (p\<lparr>ps_structure := x_structure\<rparr>) = marks p"
  "marks (p\<lparr>ps_groups := x_groups\<rparr>) = marks p"
  "marks (p\<lparr>ps_armed := x_armed\<rparr>) = marks p"
  "marks (p\<lparr>ps_executed := x_executed\<rparr>) = marks p"
  "marks (p\<lparr>ps_fresh_fr := x_fresh_fr\<rparr>) = marks p"
  "marks (p\<lparr>ps_print_control := x_print_control\<rparr>) = marks p"
  "marks (p\<lparr>ps_multiprocessing := x_multiprocessing\<rparr>) = marks p"
  "marks (p\<lparr>ps_operator_dirty := x_operator_dirty\<rparr>) = marks p"
  "marks (p\<lparr>ps_sources_stale := x_sources_stale\<rparr>) = marks p"
  "marks (p\<lparr>ps_frequencies := x_frequencies\<rparr>) = marks p"
  "marks (p\<lparr>ps_ground := x_ground\<rparr>) = marks p"
  "marks (p\<lparr>ps_second_medium := x_second_medium\<rparr>) = marks p"
  "marks (p\<lparr>ps_extended_kernel := x_extended_kernel\<rparr>) = marks p"
  "marks (p\<lparr>ps_networks := x_networks\<rparr>) = marks p"
  "marks (p\<lparr>ps_network_destroyer := x_network_destroyer\<rparr>) = marks p"
  "marks (p\<lparr>ps_load_log := x_load_log\<rparr>) = marks p"
  "marks (p\<lparr>ps_live := x_live\<rparr>) = marks p"
  "marks (p\<lparr>ps_loaded := x_loaded\<rparr>) = marks p"
  "marks (p\<lparr>ps_load_spec_at := x_load_spec_at\<rparr>) = marks p"
  "marks (p\<lparr>ps_ld_run_open := x_ld_run_open\<rparr>) = marks p"
  "marks (p\<lparr>ps_global_conductivity := x_global_conductivity\<rparr>) = marks p"
  "marks (p\<lparr>ps_wire_conductivity := x_wire_conductivity\<rparr>) = marks p"
  "marks (p\<lparr>ps_wire_insulation := x_wire_insulation\<rparr>) = marks p"
  "marks (p\<lparr>ps_global_distributed := x_global_distributed\<rparr>) = marks p"
  "marks (p\<lparr>ps_wire_distributed := x_wire_distributed\<rparr>) = marks p"
  by (simp_all add: marks_def)

lemma structure_marks: "the_structure b p = Inr (s, p') \<Longrightarrow> marks p' = marks p"
  by (auto simp: the_structure_def okE split: option.splits)

lemma log_entry_marks [simp]: "marks (log_entry e p) = marks p"
  by (simp add: log_entry_def split: option.split)

lemma discard_loads_marks [simp]: "marks (discard_loads p) = marks p"
  by (simp add: discard_loads_def)

lemma ld_segments_marks:
  "foldE (ld_segment s spec) st pairs = Inr st' \<Longrightarrow> marks (snd st') = marks (snd st)"
proof (rule foldE_invariant [where P = "\<lambda>x. marks (snd x) = marks (snd st)"])
  show "marks (snd y) = marks (snd st)"
    if "ld_segment s spec x ws = Inr y" "marks (snd x) = marks (snd st)" for x ws y
    using that by (cases x; cases ws) (auto simp: ld_segment_def Let_def okE split: if_splits)
qed auto

lemma handlers_marks:
  "leaves_marks (marks p) (gn_card c p)" "leaves_marks (marks p) (fr_card c p)"
  "leaves_marks (marks p) (ek_card c p)" "leaves_marks (marks p) (is_card b c p)"
  "leaves_marks (marks p) (execute h c p)" "leaves_marks (marks p) (comment_card c p)"
  "leaves_marks (marks p) (gd_card c p)"
  unfolding gn_card_def fr_card_def ek_card_def is_card_def execute_def comment_card_def gd_card_def Let_def
  by (auto intro!: leaves_marks_bind dest!: structure_marks split: option.split)

lemma network_marks: "leaves_marks (marks p) (network b c p)"
  unfolding network_def
  by (cases "ps_network_destroyer p")
     (auto intro!: leaves_marks_bind dest: structure_marks simp del: upt_rec_numeral firstE.simps)

lemma print_marks: "print_control_card b c p = Inr (pc, p') \<Longrightarrow> marks p' = marks p"
  by (auto simp: print_control_card_def okE dest!: structure_marks split: if_splits)

lemma ld_card_marks: "leaves_marks (marks p) (ld_card b c p)"
  unfolding ld_card_def ld23_def ld5_def Let_def
  by (auto intro!: leaves_marks_bind dest!: structure_marks ld_segments_marks split: option.split)

lemma ex_card_marks: "leaves_marks (True, ps_geometry_cards p) (ex_card c p)"
  unfolding ex_card_def Let_def by (auto intro!: leaves_marks_bind simp: marks_def)

lemma geometry_card_marks:
  "leaves_marks (ps_saw_ex p, ps_geometry_cards p @ [c]) (geometry_card b c p)"
  unfolding geometry_card_def Let_def
  by (auto intro!: leaves_marks_bind dest!: structure_marks simp: marks_def)

definition marked :: "card \<Rightarrow> bool \<times> card list \<Rightarrow> bool \<times> card list" where
  "marked c v = (fst v \<or> mnemonic c = ''EX'',
     if mnemonic c \<in> set geometry_cards then snd v @ [c] else snd v)"

lemma dispatch_marks: "leaves_marks (marked c (marks p)) (dispatch nec2_hooks c p)"
proof -
  consider "mnemonic c \<in> set geometry_cards" | "mnemonic c = ''EX''"
    | "mnemonic c \<notin> set geometry_cards" "mnemonic c \<noteq> ''EX''" by blast
  then show ?thesis
  proof cases
    case 1
    then have "mnemonic c \<noteq> ''EX''" by (auto simp: geometry_cards_def)
    with 1 show ?thesis
      using geometry_card_marks [of p c geometry_builders]
      by (simp add: dispatch_def Let_def nec2_hooks_def marked_def marks_def)
  next
    case 2
    then show ?thesis
      using ex_card_marks [of p c]
      by (simp add: dispatch_def Let_def nec2_hooks_def marked_def marks_def geometry_cards_def)
  next
    case 3
    then have "marked c (marks p) = marks p"
      by (simp add: marked_def marks_def)
    with 3 show ?thesis
      unfolding dispatch_def Let_def
      by (auto simp: nec2_hooks_def handlers_marks ld_card_marks intro!: leaves_marks_bind dest: print_marks)
  qed
qed

lemma read_card_marks:
  assumes "read_card nec2_hooks c p = Inr p'"
  shows "marks p' = marked c (marks p)"
proof -
  have steps: "marks (ld_run_step nec2_hooks c p) = marks p" "marks (arm_step c q) = marks q"
    "marks (destroyer_step c q) = marks q" for q :: "'a parser_scheme"
    by (simp_all add: ld_run_step_def arm_step_def destroyer_step_def Let_def)
  have quiet: "mnemonic c = ''CM'' \<or> mnemonic c = ''CE'' \<or> mnemonic c \<in> set network_cards \<Longrightarrow>
      marked c (marks p) = marks p"
    by (auto simp: marked_def geometry_cards_def network_cards_def)
  have "leaves_marks (marked c (marks p)) (read_card nec2_hooks c p)"
    unfolding read_card_def Let_def
    using handlers_marks(6) [of "ld_run_step nec2_hooks c p" c] quiet
      network_marks [of "arm_step c (ld_run_step nec2_hooks c p)" "hk_builders nec2_hooks" c]
      dispatch_marks [of c "destroyer_step c (arm_step c (ld_run_step nec2_hooks c p))"]
    by (auto simp: steps intro!: leaves_marks_bind split: option.split)
  then show ?thesis
    using assms by (simp add: leaves_marks_def)
qed

text \<open>The structure is the one the geometry cards make, and a deck is excited when it has an
  EX card.\<close>

lemma read_cards_marks:
  assumes "read_cards nec2_hooks p cs = Inr p'"
  shows "ps_saw_ex p' \<longleftrightarrow> ps_saw_ex p \<or> (\<exists>c \<in> set cs. mnemonic c = ''EX'')"
    and "ps_geometry_cards p' = ps_geometry_cards p @ filter (\<lambda>c. mnemonic c \<in> set geometry_cards) cs"
proof -
  have "marks p' = (fst (marks p) \<or> (\<exists>c \<in> set cs. mnemonic c = ''EX''),
      snd (marks p) @ filter (\<lambda>c. mnemonic c \<in> set geometry_cards) cs)"
    using assms
  proof (induction cs arbitrary: p)
    case (Cons c cs)
    then obtain p1 where "read_card nec2_hooks c p = Inr p1" "read_cards nec2_hooks p1 cs = Inr p'"
      by (auto simp: okE)
    with Cons.IH [of p1] read_card_marks [of c p p1] show ?case
      by (auto simp: marked_def)
  qed (simp add: marks_def)
  then show "ps_saw_ex p' \<longleftrightarrow> ps_saw_ex p \<or> (\<exists>c \<in> set cs. mnemonic c = ''EX'')"
    and "ps_geometry_cards p' = ps_geometry_cards p @ filter (\<lambda>c. mnemonic c \<in> set geometry_cards) cs"
    by (simp_all add: marks_def)
qed

definition deck_structure :: "string \<Rightarrow> pyexn + nec2_structure" where
  \<comment> \<open>the structure the geometry cards of a deck make\<close>
  "deck_structure deck = build_geometry geometry_builders
     (filter (\<lambda>c. mnemonic c \<in> set geometry_cards) (deck_cards (splitlines deck)))"

lemma deck_structure_read:
  assumes "read_cards nec2_hooks init_parser (deck_cards (splitlines deck)) = Inr (q :: parser)"
    and "build_geometry geometry_builders (ps_geometry_cards q) = Inr s"
  shows "deck_structure deck = Inr s"
  using assms(2) read_cards_marks(2) [OF assms(1)] by (simp add: deck_structure_def init_parser_def)

text \<open>The model's wires are the pieces, one element count each.\<close>

lemma model_wires:
  assumes "mapE (model_wire s ins mats) (st_pieces s) = Inr ws" and "structure_ok s"
  shows "list_all2 (\<lambda>pc w. dw_vertices w = [pi_p1 pc, pi_p2 pc] \<and> dw_edge_elements w = [pi_n_seg pc] \<and>
      dw_radius w = fw_radius (st_wires s ! pi_wire pc)) (st_pieces s) ws \<and>
    sum_list (map n_elements ws) = n_segments s"
proof -
  from assms(1) have "list_all2 (\<lambda>pc w. model_wire s ins mats pc = Inr w) (st_pieces s) ws"
    by (simp add: mapE_eq_Inr)
  then have wires: "list_all2 (\<lambda>pc w. dw_vertices w = [pi_p1 pc, pi_p2 pc] \<and> dw_edge_elements w = [pi_n_seg pc] \<and>
      dw_radius w = fw_radius (st_wires s ! pi_wire pc)) (st_pieces s) ws"
    by (rule list_all2_mono) (auto simp: model_wire_def okE dest!: mk_deck_wire_ok)
  then have "sum_list (map n_elements ws) = sum_by pi_n_seg (st_pieces s)"
    by (induction rule: list_all2_induct) (simp_all add: n_elements_def sum_by_def)
  with wires assms(2) pieces_total show ?thesis by auto
qed

lemma parse_nec2_structure:
  assumes "parse_nec2 deck = Inr m"
  obtains p :: parser and s used mats where "deck_structure deck = Inr s" "structure_ok s"
    "loads_and_materials p = Inr (dm_loads m, used, mats)"
    "mapE (model_wire s (ps_wire_insulation p) mats) (st_pieces s) = Inr (dm_wires m)"
    "feeds_and_groups s used p = Inr (dm_feeds m, dm_groups m)"
    "st_ground_plane_flag s \<and> \<not> st_ground_plane_interpolates s \<and> grounded (dm_groups m) p \<longrightarrow>
      firstE (contact_refusal (st_wires s))
        (concat (map (\<lambda>w. [(w, fw_p1 w), (w, fw_p2 w)]) (st_wires s))) = Inr ()"
    "dm_ground m = ps_ground p" "dm_ground_plane_flag m = st_ground_plane_flag s"
    "dm_ground_plane_interpolates m = st_ground_plane_interpolates s"
proof -
  obtain q p :: parser and s used mats where
    q: "read_cards nec2_hooks init_parser (deck_cards (splitlines deck)) = Inr q"
      "build_geometry geometry_builders (ps_geometry_cards q) = Inr s" "structure_ok s"
    and m: "loads_and_materials p = Inr (dm_loads m, used, mats)"
      "mapE (model_wire s (ps_wire_insulation p) mats) (st_pieces s) = Inr (dm_wires m)"
      "feeds_and_groups s used p = Inr (dm_feeds m, dm_groups m)"
      "st_ground_plane_flag s \<and> \<not> st_ground_plane_interpolates s \<and> grounded (dm_groups m) p \<longrightarrow>
        firstE (contact_refusal (st_wires s))
          (concat (map (\<lambda>w. [(w, fw_p1 w), (w, fw_p2 w)]) (st_wires s))) = Inr ()"
      "dm_ground m = ps_ground p" "dm_ground_plane_flag m = st_ground_plane_flag s"
      "dm_ground_plane_interpolates m = st_ground_plane_interpolates s"
    using assms by (rule parse_nec2_model)
  from that [OF deck_structure_read [OF q(1,2)] q(3) m] show thesis by blast
qed

section \<open>LD cards\<close>

lemma read_LD_in_force:
  assumes "read_card nec2_hooks c p = Inr (p' :: parser)" "mnemonic c = ''LD''"
    and "card_i c 0 = Inr t" "t \<in> {0, 1, 4}" "lumped_spec t c = Some spec" "parser_ok geometry_builders p"
  shows "\<exists>s tag a b pairs reached es keys. build_geometry geometry_builders (ps_geometry_cards p) = Inr s \<and>
    card_i c 1 = Inr tag \<and> card_i c 2 = Inr a \<and> card_i c 3 = Inr b \<and>
    ld_segment_range s tag a b = Inr pairs \<and> length pairs \<le> 8 \<and>
    cell_rule s (ps_load_spec_at (run_start p)) pairs (Some spec) = Inr reached \<and>
    in_force p' = (if ps_ld_run_open p then in_force p else []) @ es \<and>
    list_all2 (load_at s spec) reached es \<and>
    list_all2 (\<lambda>(w, k) key. element_of s w k = Inr key) reached keys \<and> distinct keys"
proof -
  obtain q where q: "ld_card geometry_builders c q = Inr p'" "load_state q = load_state (run_start p)"
    "ps_structure q = ps_structure p" "ps_geometry_cards q = ps_geometry_cards p"
    "loads_ok p \<Longrightarrow> loads_ok q"
    using nec2_read_LD [OF assms(1,2)] by metis
  have "loads_ok q"
    using q(5) assms(6) by (simp add: parser_ok_def)
  from ld_card_lumped [OF q(1) assms(3-5) this] obtain s p0 tag a b pairs reached es keys where
    r: "the_structure geometry_builders q = Inr (s, p0)" "card_i c 1 = Inr tag" "card_i c 2 = Inr a"
      "card_i c 3 = Inr b" "ld_segment_range s tag a b = Inr pairs" "length pairs \<le> ld_expand_max"
      "cell_rule s (ps_load_spec_at q) pairs (Some spec) = Inr reached" "in_force p' = in_force q @ es"
      "list_all2 (load_at s spec) reached es"
      "list_all2 (\<lambda>(w, k) key. element_of s w k = Inr key) reached keys" "distinct keys"
    by blast
  have start: "in_force q = (if ps_ld_run_open p then in_force p else [])"
    using in_force_load_state [OF q(2)] by (simp add: run_start_def discard_loads_def in_force_def)
  have spec: "ps_load_spec_at q = ps_load_spec_at (run_start p)"
    using q(2) by (simp add: load_state_def)
  have "geometry_ok geometry_builders q"
    using assms(6) q(3,4) by (simp add: parser_ok_def geometry_ok_def)
  then have "build_geometry geometry_builders (ps_geometry_cards p) = Inr s"
    using the_structure_Inr(2) [OF r(1)] q(4) by simp
  then show ?thesis
    using r start spec by (intro exI [of _ s] exI [of _ tag] exI [of _ a] exI [of _ b] exI [of _ pairs]
        exI [of _ reached] exI [of _ es] exI [of _ keys]) (simp add: ld_expand_max_def)
qed

section \<open>Terminators\<close>

lemma feed_lines_terminated:
  assumes "parse_card l = Inr (Some c)" "mnemonic c \<in> set terminators"
  shows "feed_lines h (ls @ l # rest) p = feed_lines h (ls @ [l]) p"
proof (induction ls arbitrary: p)
  case Nil
  then show ?case
    using assms by (simp split: option.split)
next
  case (Cons k ls)
  then show ?case
    by (simp split: option.split) (auto intro!: bindE_cong split: option.split)
qed

lemma splitlines_lines:
  assumes "\<forall>l \<in> set ls. list_all (\<lambda>c. \<not> is_line_end c) l"
  shows "splitlines (concat (map (\<lambda>l. l @ [CHR 0x0A]) ls)) = ls"
  using assms
proof (induction ls)
  case Nil
  then show ?case by (simp add: splitlines_def)
next
  case (Cons l ls)
  then show ?case
    using splitlines_newline [of l "CHR 0x0A"] by simp
qed

end
