(* ===== verification/Example_Deck.thy ===== *)
theory Example_Deck
  imports Load_Laws Model_Laws
begin

text \<open>
  A small deck, read step by step: a three-segment vertical wire, a load, a source in its
  middle and one run.  The properties' witnesses evaluate it.
\<close>

lemma fval_literal: "\<bar>r\<bar> \<le> 10000000000 \<Longrightarrow> fval r = Fin r"
proof (rule fval_small)
  assume "\<bar>r\<bar> \<le> 10000000000"
  moreover have "(10 :: real) ^ 10 \<le> 10 ^ 308"
    by (rule power_increasing) simp_all
  ultimately show "\<bar>r\<bar> \<le> 10 ^ 308" by simp
qed

lemmas eval_char =
  is_space_def is_line_end_def is_upper_def is_lower_def is_alpha_def is_digit_def digit_val_def
  to_upper_def to_lower_def

lemmas eval_text =
  eval_char upper_def lower_def isalpha_def replace_char_def strip_def rstrip_nl_def split_ws.simps

lemmas eval_number = py_float_def read_number_def read_exponent_def scale10_def fval_literal

lemmas eval_card = parse_card_def unfuse_def to_float_def fused_field_start_def

section \<open>The cards\<close>

definition plain_card :: "string \<Rightarrow> real list \<Rightarrow> string \<Rightarrow> card" where
  "plain_card m vs line = \<lparr>mnemonic = m, vals = map Fin vs, raw = line, trailer = None\<rparr>"

definition gw_line :: string where
  "gw_line = ''GW 1 3 0 0 1 0 0 4 .01''"

definition gw_example :: card where
  "gw_example = plain_card ''GW'' [1, 3, 0, 0, 1, 0, 0, 4, 1 / 100] gw_line"

definition ge_example :: card where
  "ge_example = plain_card ''GE'' [-1] ''GE -1''"

definition gn_example :: card where
  "gn_example = plain_card ''GN'' [1] ''GN 1''"

definition ld_example :: card where
  "ld_example = plain_card ''LD'' [4, 1, 2, 2, 50] ''LD 4 1 2 2 50''"

definition ex_example :: card where
  "ex_example = plain_card ''EX'' [0, 1, 2, 0, 1] ''EX 0 1 2 0 1''"

definition xq_example :: card where
  "xq_example = plain_card ''XQ'' [] ''XQ''"

lemmas example_cards = gw_example_def ge_example_def gn_example_def ld_example_def ex_example_def xq_example_def plain_card_def

lemma parse_gw: "parse_card gw_line = Inr (Some gw_example)"
  by (simp add: gw_line_def example_cards eval_text eval_number eval_card)

lemma parse_ge: "parse_card ''GE -1'' = Inr (Some ge_example)"
  by (simp add: Let_def example_cards eval_text eval_number eval_card)

lemma parse_gn: "parse_card ''GN 1'' = Inr (Some gn_example)"
  by (simp add: example_cards eval_text eval_number eval_card)

lemma parse_ld: "parse_card ''LD 4 1 2 2 50'' = Inr (Some ld_example)"
  by (simp add: example_cards eval_text eval_number eval_card)

lemma parse_ex: "parse_card ''EX 0 1 2 0 1'' = Inr (Some ex_example)"
  by (simp add: example_cards eval_text eval_number eval_card)

lemma parse_xq: "parse_card ''XQ'' = Inr (Some xq_example)"
  by (simp add: Let_def example_cards eval_text eval_number eval_card)

lemma field_of_plain [simp]:
  "card_f (plain_card m vs l) k = (if k < length vs then Fin (vs ! k) else Fin 0)"
  by (simp add: plain_card_def card_f_def)

lemma mnemonic_plain [simp]: "mnemonic (plain_card m vs l) = m" "trailer (plain_card m vs l) = None"
  by (simp_all add: plain_card_def)

lemma round_even_numeral [simp]:
  "round_even 0 = 0" "round_even 1 = 1" "round_even (numeral n) = numeral n" "round_even (- 1) = - 1"
  using round_even_of_int [of 0] round_even_of_int [of 1] round_even_of_int [of "numeral n"]
    round_even_of_int [of "- 1"] by simp_all

lemma int_of_plain:
  "card_i (plain_card m vs l) k = Inr (if k < length vs then round_even (vs ! k) else 0)"
  by (simp add: card_i_def)

section \<open>The structure\<close>

definition example_wire :: flat_wire where
  "example_wire = \<lparr>fw_tag = 1, fw_n_seg = 3, fw_p1 = (Fin 0, Fin 0, Fin 1),
     fw_p2 = (Fin 0, Fin 0, Fin 4), fw_radius = Fin (1 / 100)\<rparr>"

definition example_structure :: nec2_structure where
  "example_structure = \<lparr>st_wires = [example_wire], st_cuts = Map.empty,
     st_pieces = [\<lparr>pi_wire = 0, pi_first_seg = 0, pi_n_seg = 3, pi_p1 = (Fin 0, Fin 0, Fin 1),
                   pi_p2 = (Fin 0, Fin 0, Fin 4)\<rparr>],
     st_pieces_of_wire = [[0]], st_ground_plane_flag = True,
     st_ground_plane_interpolates = False, st_symmetry = None\<rparr>"

lemma example_build_wires:
  "build_wires geometry_builders [gw_example, ge_example] =
     Inr \<lparr>ge_wires = [example_wire], ge_flag = True, ge_interpolates = False, ge_symmetry = None\<rparr>"
  by (simp add: build_wires_def geometry_step_def gw_example_def ge_example_def geometry_builders_def
      gw_def int_of_plain wire_check_def wire_geometry_refusal_def symmetry_after_def example_wire_def
      max_coordinate_def)

lemma small_quotient: "b \<noteq> 0 \<Longrightarrow> \<bar>a / b\<bar> \<le> 10000000000 \<Longrightarrow> Fin a / Fin b = Fin (a / b)"
  by (simp add: flt_ops_Fin fval_literal)

lemma small_difference: "\<bar>a - b\<bar> \<le> 10000000000 \<Longrightarrow> Fin a - Fin b = Fin (a - b)"
  by (simp only: flt_ops_Fin fval_literal)

lemma example_length: "flat_length example_wire = Fin 3"
proof -
  have "sqrt ((0 - 0)\<^sup>2 + (0 - 0)\<^sup>2 + (1 - 4)\<^sup>2) = 3"
    by (rule real_sqrt_unique) simp_all
  moreover have "Fin 0 - Fin 0 = Fin (0 - 0)" "Fin 1 - Fin 4 = Fin (1 - 4)"
    by (rule small_difference; simp)+
  moreover have "fval 3 = Fin 3"
    by (rule fval_literal) simp
  ultimately show ?thesis
    by (simp only: flat_length_def example_wire_def fdist_def flat_wire.simps prod.case flt.case)
qed

lemma no_links:
  assumes "\<And>k j. k < j \<Longrightarrow> j < length pts \<Longrightarrow> \<not> close_ends pts lens k j" "length cells = length pts"
  shows "links pts lens cells = []"
proof -
  have False if "kj \<in> set (links pts lens cells)" for kj
  proof -
    have "snd kj < length pts"
      using links_bound [OF assms(2), of lens] that by (cases kj) auto
    moreover have "fst kj < snd kj" "close_ends pts lens (fst kj) (snd kj)"
      using that by (auto simp: links_def)
    ultimately show False
      using assms(1) by blast
  qed
  then show ?thesis
    by (cases "links pts lens cells") auto
qed

lemma own_boundaries:
  assumes "\<forall>j \<in> set js. fst (bs ! j) = k div 2"
  shows "foldl (best_step bs lens k p) None js = None"
  using assms by (induction js) (simp_all add: best_step_def case_prod_beta Let_def)

lemma example_ends: "end_points [example_wire] = [(Fin 0, Fin 0, Fin 1), (Fin 0, Fin 0, Fin 4)]"
  by (simp add: end_points_def example_wire_def)

lemma upto_example: "[1..2 :: int] = [1, 2]" "[0..3 :: int] = [0, 1, 2, 3]" "[1..3 :: int] = [1, 2, 3]"
  by (simp_all add: upto_rec1)

lemma example_lens: "end_seg_lens [example_wire] = [Fin 1, Fin 1]"
proof -
  have "fint 3 = Fin 3" "Fin 3 / Fin 3 = Fin 1"
    using small_quotient [of 3 3] by (simp_all add: fint_def fval_literal)
  then have "segment_length example_wire = Fin 1"
    using example_length by (simp add: segment_length_def example_wire_def)
  then show ?thesis
    by (simp add: end_seg_lens_def)
qed

lemma example_tolerance: "snap_tolerance [example_wire] = Fin (1 / 1000)"
  by (simp add: snap_tolerance_def example_lens smin_def fmax_def flt_ops_Fin fval_literal)

lemma example_cells:
  "cell_of (Fin (1 / 1000)) (Fin 0, Fin 0, Fin z) = Inr (0, 0, \<lfloor>z * 1000\<rfloor>)" if "\<bar>z\<bar> \<le> 4"
proof -
  have "fval (z * 1000) = Fin (z * 1000)"
    by (rule fval_literal) (use that in \<open>simp add: abs_mult\<close>)
  moreover have "Fin 0 / Fin (1 / 1000) = Fin 0" "Fin z / Fin (1 / 1000) = fval (z * 1000)"
    by (simp_all add: flt_ops_Fin)
  ultimately show ?thesis
    by (simp only: cell_of_def prod.case ffloor.simps bindE_Inr floor_zero)
qed

lemma example_snap_ends:
  "snap_ends (Fin (1 / 1000)) [example_wire] =
     Inr \<lparr>sn_parent = [0, 1], sn_wires = [example_wire], sn_pts = end_points [example_wire]\<rparr>"
proof -
  have far: "\<not> close_ends (end_points [example_wire]) (end_seg_lens [example_wire]) k j"
    if "k < j" "j < length (end_points [example_wire])" for k j
  proof -
    have "k = 0" "j = 1"
      using that by (auto simp: example_ends)
    then show ?thesis
      by (simp add: close_ends_def example_ends example_lens l1_def smin_def fmin_def flt_ops_Fin fval_literal)
  qed
  have cells: "mapE (cell_of (Fin (1 / 1000))) (end_points [example_wire]) = Inr [(0, 0, 1000), (0, 0, 4000)]"
    by (simp add: example_ends example_cells)
  have "links (end_points [example_wire]) (end_seg_lens [example_wire]) [(0, 0, 1000), (0, 0, 4000)] = []"
    by (rule no_links [OF far]) (simp_all add: example_ends)
  with cells show ?thesis
    by (simp add: snap_ends_def Let_def example_ends upt_conv_Cons snap_root_def find_root_def)
qed

lemma example_snap: "snap_connections [example_wire] = Inr [example_wire]"
proof -
  let ?bs = "interior_boundaries [example_wire]"
  have bs: "?bs = [(0, (Fin 0, Fin 0, Fin 2)), (0, (Fin 0, Fin 0, Fin 3))]"
    by (simp add: interior_boundaries_def example_wire_def boundary_def lerp_def fint_def fval_literal upto_example
        flt_ops_Fin)
  have own: "snap_boundary (Fin (1 / 1000)) ?bs (grid_of [(0, 0, 2000), (0, 0, 3000)]) lens
      (end_points [example_wire]) ws k = Inr ws" if "k < 2" for k lens ws
  proof -
    consider "k = 0" | "k = 1"
      using less_2_cases [OF \<open>k < 2\<close>] by auto
    then obtain z where z: "end_points [example_wire] ! k = (Fin 0, Fin 0, Fin z)" "\<bar>z\<bar> \<le> 4"
      by cases (auto simp: example_ends)
    have "fst (?bs ! j) = k div 2" if "j \<in> set (neighborhood (grid_of [(0, 0, 2000), (0, 0, 3000)]) c)" for j c
    proof -
      have "j < 2"
        using that by (auto simp: neighborhood_set grid_of_set)
      then have "fst (?bs ! j) = 0"
        by (auto simp: bs less_2_cases_iff)
      then show ?thesis
        using \<open>k < 2\<close> by simp
    qed
    then show ?thesis
      using z by (simp add: snap_boundary_def example_cells own_boundaries)
  qed
  have bcells: "mapE (\<lambda>b. cell_of (Fin (1 / 1000)) (snd b)) ?bs = Inr [(0, 0, 2000), (0, 0, 3000)]"
    by (simp add: bs example_cells)
  show ?thesis
    using own [of 0] own [of 1] bcells
    by (simp add: snap_connections_def Let_def example_tolerance example_snap_ends
        snap_onto_boundaries_def example_ends upt_conv_Cons)
qed

lemma single_wire_shares_nothing: "length keys = 1 \<Longrightarrow> shared_boundaries keys ws i = []"
proof -
  assume "length keys = 1"
  then have "node_owners keys q \<subseteq> {0}" for q
    by (auto simp: node_owners_eq)
  then have "\<not> card (node_owners keys q) > 1" for q
    using card_mono [of "{0}" "node_owners keys q"] by (simp add: not_less)
  then show ?thesis
    by (simp add: shared_boundaries_def)
qed

lemma example_cuts: "junction_cuts [example_wire] = Inr Map.empty"
proof -
  have "mapE (\<lambda>k. node_key (boundary example_wire k)) [0..fw_n_seg example_wire] =
      Inr [(0, 0, 1000000000), (0, 0, 2000000000), (0, 0, 3000000000), (0, 0, 4000000000)]"
    by (simp add: example_wire_def boundary_def lerp_def fint_def fval_literal upto_example flt_ops_Fin
        node_key_def node_eps_def)
  then show ?thesis
    by (auto simp: junction_cuts_def single_wire_shares_nothing)
qed

lemma example_geometry: "build_geometry geometry_builders [gw_example, ge_example] = Inr example_structure"
  by (simp add: build_geometry_def example_build_wires example_snap example_cuts shatter_def shatter_step_def
      wire_pieces_def example_structure_def)
     (simp add: example_wire_def)

section \<open>Reading the cards\<close>

definition after_gw :: parser where
  "after_gw = init_parser\<lparr>ps_geometry_cards := [gw_example]\<rparr>"

definition after_ge :: parser where
  "after_ge = init_parser\<lparr>ps_geometry_cards := [gw_example, ge_example],
     ps_structure := Some example_structure\<rparr>"

definition load_example :: load_spec where
  "load_example = \<lparr>ls_kind = ''fixed'', ls_r = Fin 50, ls_l = Fin 0, ls_c = Fin 0, ls_x = Fin 0\<rparr>"

definition after_gn :: parser where
  "after_gn = after_ge\<lparr>ps_ground := Pec, ps_second_medium :=
     Some \<lparr>sm_eps_r = Fin 0, sm_sigma = Fin 0, sm_edge_distance = Fin 0, sm_height = Fin 0\<rparr>\<rparr>"

definition after_ld :: parser where
  "after_ld = after_gn\<lparr>ps_load_log := [(0, Fin (3 / 2), load_example)], ps_live := [0],
     ps_loaded := {(0, 1)}, ps_load_spec_at := [(0, 1) \<mapsto> load_example], ps_ld_run_open := True\<rparr>"

definition after_ex :: parser where
  "after_ex = after_ld\<lparr>ps_ld_run_open := False, ps_saw_ex := True,
     ps_sources := [(1, 2, (Fin 1, Fin 0))]\<rparr>"

definition group_example :: pending_group where
  "group_example = \<lparr>pg_sources = [(1, 2, (Fin 1, Fin 0))], pg_frequencies = [default_frequency_mhz],
     pg_request = None, pg_print_control = None, pg_extended_kernel = False,
     pg_multiprocessing = None,
     pg_environment = \<lparr>env_ground = Pec, env_ground_z = Fin 0, env_second_medium =
       Some \<lparr>sm_eps_r = Fin 0, sm_sigma = Fin 0, sm_edge_distance = Fin 0, sm_height = Fin 0\<rparr>\<rparr>,
     pg_refilled = True, pg_refilled_partial = False, pg_loads = [0],
     pg_materials = (None, [], None, [])\<rparr>"

definition after_xq :: parser where
  "after_xq = after_ex\<lparr>ps_groups := [Some group_example], ps_executed := 1, ps_armed := False,
     ps_sources_stale := True\<rparr>"

definition prepared :: "card \<Rightarrow> 'a parser_scheme \<Rightarrow> 'a parser_scheme" where
  \<comment> \<open>the state a card's own handler sees\<close>
  "prepared c p = destroyer_step c (arm_step c (ld_run_step nec2_hooks c p))"

lemma nec2_read:
  assumes "mnemonic c \<notin> set (comment_cards @ refused_by_name @ network_cards)" "mnemonic c \<noteq> ''GW''"
  shows "read_card nec2_hooks c p = dispatch nec2_hooks c (prepared c p)"
  using assms by (simp add: read_card_def Let_def prepared_def comment_cards_def nec2_hooks_def)

lemma nec2_dispatch:
  "mnemonic c \<in> set geometry_cards \<Longrightarrow> dispatch nec2_hooks c p = geometry_card geometry_builders c p"
  "mnemonic c = ''GN'' \<Longrightarrow> dispatch nec2_hooks c p = gn_card c p"
  "mnemonic c = ''LD'' \<Longrightarrow> dispatch nec2_hooks c p = ld_card geometry_builders c p"
  "mnemonic c = ''EX'' \<Longrightarrow> dispatch nec2_hooks c p = ex_card c p"
  "mnemonic c = ''XQ'' \<Longrightarrow> dispatch nec2_hooks c p = execute nec2_hooks c p"
  by (simp_all add: dispatch_def Let_def nec2_hooks_def geometry_cards_def execute_cards_def)

lemma prepared_before_networks:
  assumes "ps_networks p = []" "ps_executed p = 0"
  shows "prepared c p = (if mnemonic c \<in> set arming_cards
    then (ld_run_step nec2_hooks c p)\<lparr>ps_armed := True\<rparr> else ld_run_step nec2_hooks c p)"
proof -
  have "ps_networks (ld_run_step nec2_hooks c p) = []" "ps_executed (ld_run_step nec2_hooks c p) = 0"
    using assms by (simp_all add: ld_run_step_def discard_loads_def)
  then show ?thesis
    by (simp add: prepared_def destroyer_step_def arm_step_def Let_def)
qed

lemma gw_fields: "gw_field_refusal gw_example = Inr None"
proof -
  have "index_of (\<lambda>v. \<not> is_fin v) (take 9 (vals gw_example)) = None"
    by (simp add: gw_example_def plain_card_def)
  moreover have "card_i gw_example 1 = Inr 3"
    by (simp add: gw_example_def int_of_plain)
  ultimately show ?thesis
    by (simp add: gw_field_refusal_def max_wire_segments_def)
qed

lemma read_gw: "read_card nec2_hooks gw_example init_parser = Inr after_gw"
proof -
  have m: "mnemonic gw_example = ''GW''" by (simp add: gw_example_def)
  have "read_card nec2_hooks gw_example init_parser = dispatch nec2_hooks gw_example (prepared gw_example init_parser)"
    using gw_fields by (simp add: read_card_def Let_def prepared_def m nec2_hooks_def refused_by_name_def network_cards_def)
  moreover have "prepared gw_example init_parser = init_parser"
    by (subst prepared_before_networks) (simp_all add: m init_parser_def ld_run_step_def arming_cards_def nec2_hooks_def ld_run_transparent_def)
  ultimately show ?thesis
    by (simp add: nec2_dispatch m geometry_cards_def geometry_card_def after_gw_def)
       (simp add: init_parser_def)
qed


lemma ready_states [simp]:
  "ps_networks init_parser = []" "ps_executed init_parser = 0"
  "ps_networks after_gw = []" "ps_executed after_gw = 0"
  "ps_networks after_ge = []" "ps_executed after_ge = 0"
  "ps_networks after_gn = []" "ps_executed after_gn = 0"
  "ps_networks after_ld = []" "ps_executed after_ld = 0"
  "ps_networks after_ex = []" "ps_executed after_ex = 0"
  by (simp_all add: init_parser_def after_gw_def after_ge_def after_gn_def after_ld_def after_ex_def)

lemma read_other:
  assumes "mnemonic c \<in> {''GE'', ''GN'', ''LD'', ''EX'', ''XQ''}" "ps_networks p = []" "ps_executed p = 0"
  shows "read_card nec2_hooks c p = dispatch nec2_hooks c (if mnemonic c \<in> set arming_cards
    then (ld_run_step nec2_hooks c p)\<lparr>ps_armed := True\<rparr> else ld_run_step nec2_hooks c p)"
  using assms(1)
  by (subst prepared_before_networks [symmetric, OF assms(2,3)], intro nec2_read)
     (auto simp: comment_cards_def refused_by_name_def network_cards_def)

lemma read_ge: "read_card nec2_hooks ge_example after_gw = Inr after_ge"
proof -
  have m: "mnemonic ge_example = ''GE''" by (simp add: ge_example_def)
  have "ld_run_step nec2_hooks ge_example after_gw = after_gw"
    by (simp add: ld_run_step_def m nec2_hooks_def ld_run_transparent_def after_gw_def init_parser_def)
  then have "read_card nec2_hooks ge_example after_gw = geometry_card geometry_builders ge_example after_gw"
    by (simp add: read_other m arming_cards_def nec2_dispatch geometry_cards_def)
  also have "\<dots> = Inr after_ge"
    by (simp add: geometry_card_def Let_def m the_structure_def after_gw_def example_geometry after_ge_def)
  finally show ?thesis .
qed

lemma example_segments: "wire_segments [example_wire] = [(0, 1), (0, 2), (0, 3)]"
  by (simp add: wire_segments_def example_wire_def upto_example)

lemma example_locate: "locate example_structure 1 2 = Inr (0, 2)"
  by (simp add: locate_def example_structure_def example_wire_def Let_def)

lemma example_element: "element_of example_structure 0 2 = Inr (0, 1)"
  by (simp add: element_of_def example_structure_def Let_def)

lemma example_resolve_of: "resolve_of example_structure 0 2 = Inr (0, Fin (3 / 2))"
proof -
  have "piece_length (st_pieces example_structure ! 0) = Fin 3"
    using example_length by (simp add: piece_length_def example_structure_def flat_length_def example_wire_def)
  moreover have "pi_n_seg (st_pieces example_structure ! 0) = 3"
    by (simp add: example_structure_def)
  moreover have "fint 3 = Fin 3"
    by (simp add: fint_def fval_literal)
  ultimately show ?thesis
    by (simp add: resolve_of_def example_element Let_def flt_ops_Fin fval_literal)
qed

lemma example_resolve: "resolve example_structure 1 2 = Inr (0, Fin (3 / 2))"
  by (simp add: resolve_def example_locate example_resolve_of)

lemma example_no_symmetry: "st_symmetry example_structure = None"
  by (simp add: example_structure_def)

lemma example_range: "ld_segment_range example_structure 1 2 2 = Inr [(0, 2)]"
  by (simp add: ld_segment_range_def example_locate upto_rec1)

lemma example_cell_rule: "cell_rule example_structure held pairs spec = Inr pairs"
  by (simp add: cell_rule_def under_the_cell_rule_def example_no_symmetry)

lemma example_spec: "lumped_spec 4 ld_example = Some load_example"
  by (simp add: lumped_spec_def Let_def ld_example_def load_example_def feq_def)

lemma run_opens: "ld_run_step nec2_hooks c after_gn = after_gn\<lparr>ps_ld_run_open := mnemonic c = ''LD''\<rparr>"
  by (simp add: ld_run_step_def nec2_hooks_def after_gn_def after_ge_def init_parser_def discard_loads_def)

lemma read_gn: "read_card nec2_hooks gn_example after_ge = Inr after_gn"
proof -
  have m: "mnemonic gn_example = ''GN''" "trailer gn_example = None" by (simp_all add: gn_example_def)
  have fs: "card_i gn_example 0 = Inr 1" "card_i gn_example (Suc 0) = Inr 0"
    "card_f gn_example 6 = Fin 0" "card_f gn_example 7 = Fin 0" "card_f gn_example 8 = Fin 0" "card_f gn_example 9 = Fin 0"
    by (simp_all add: gn_example_def int_of_plain)
  have "ld_run_step nec2_hooks gn_example after_ge = after_ge"
    by (simp add: ld_run_step_def m nec2_hooks_def ld_run_transparent_def after_ge_def init_parser_def)
  moreover have "after_ge\<lparr>ps_armed := True\<rparr> = after_ge"
    by (simp add: after_ge_def init_parser_def)
  ultimately have "read_card nec2_hooks gn_example after_ge = gn_card gn_example after_ge"
    by (simp add: read_other m arming_cards_def nec2_dispatch)
  also have "\<dots> = Inr after_gn"
    by (simp add: gn_card_def m fs Let_def after_gn_def)
  finally show ?thesis .
qed

lemma read_ld: "read_card nec2_hooks ld_example after_gn = Inr after_ld"
proof -
  have m: "mnemonic ld_example = ''LD''" by (simp add: ld_example_def)
  have fs: "card_i ld_example 0 = Inr 4" "card_i ld_example (Suc 0) = Inr 1" "card_i ld_example 2 = Inr 2"
    "card_i ld_example 3 = Inr 2"
    by (simp_all add: ld_example_def int_of_plain)
  let ?p = "after_gn\<lparr>ps_ld_run_open := True, ps_armed := True\<rparr>"
  have s: "the_structure geometry_builders ?p = Inr (example_structure, ?p)"
    by (simp add: the_structure_def after_gn_def after_ge_def)
  have "read_card nec2_hooks ld_example after_gn = ld_card geometry_builders ld_example ?p"
    by (simp add: read_other m arming_cards_def nec2_dispatch run_opens)
  also have "\<dots> = Inr after_ld"
    by (simp add: ld_card_def fs s example_range ld_expand_max_def example_spec example_cell_rule ld_segment_def
        example_element example_resolve_of log_entry_def)
       (simp add: after_gn_def after_ge_def after_ld_def init_parser_def)
  finally show ?thesis .
qed

lemma read_ex: "read_card nec2_hooks ex_example after_ld = Inr after_ex"
proof -
  have m: "mnemonic ex_example = ''EX''" by (simp add: ex_example_def)
  have fs: "card_i ex_example 0 = Inr 0" "card_i ex_example (Suc 0) = Inr 1" "card_i ex_example 2 = Inr 2"
    "card_f ex_example 4 = Fin 1" "card_f ex_example 5 = Fin 0"
    by (simp_all add: ex_example_def int_of_plain)
  have "ld_run_step nec2_hooks ex_example after_ld = after_ld\<lparr>ps_ld_run_open := False\<rparr>"
    by (simp add: ld_run_step_def m nec2_hooks_def ld_run_transparent_def)
  then have "read_card nec2_hooks ex_example after_ld =
      ex_card ex_example (after_ld\<lparr>ps_ld_run_open := False, ps_armed := True\<rparr>)"
    by (simp add: read_other m arming_cards_def nec2_dispatch)
  also have "\<dots> = Inr after_ex"
    by (simp add: ex_card_def fs feq_def after_ex_def Let_def)
       (simp add: after_ld_def after_gn_def after_ge_def init_parser_def)
  finally show ?thesis .
qed

lemma read_xq: "read_card nec2_hooks xq_example after_ex = Inr after_xq"
proof -
  have m: "mnemonic xq_example = ''XQ''" by (simp add: xq_example_def)
  have "ld_run_step nec2_hooks xq_example after_ex = after_ex"
    by (simp add: ld_run_step_def m nec2_hooks_def ld_run_transparent_def after_ex_def)
  then have "read_card nec2_hooks xq_example after_ex = execute nec2_hooks xq_example after_ex"
    by (simp add: read_other m arming_cards_def nec2_dispatch)
  also have "\<dots> = Inr after_xq"
    by (simp add: execute_def m pending_def Let_def material_state_def after_ex_def after_ld_def after_gn_def after_ge_def
        init_parser_def after_xq_def group_example_def)
  finally show ?thesis .
qed

lemma example_reads:
  "foldE (\<lambda>p c. read_card nec2_hooks c p) init_parser
     [gw_example, ge_example, gn_example, ld_example, ex_example, xq_example] = Inr after_xq"
  by (simp add: read_gw read_ge read_gn read_ld read_ex read_xq)

section \<open>The deck\<close>

definition example_lines :: "string list" where
  "example_lines = [gw_line, ''GE -1'', ''GN 1'', ''LD 4 1 2 2 50'', ''EX 0 1 2 0 1'', ''XQ'', ''EN'']"

lemma line_names:
  "named_refusal nec2_hooks gw_line = None" "named_refusal nec2_hooks ''GE -1'' = None" "named_refusal nec2_hooks ''GN 1'' = None"
  "named_refusal nec2_hooks ''LD 4 1 2 2 50'' = None" "named_refusal nec2_hooks ''EX 0 1 2 0 1'' = None"
  "named_refusal nec2_hooks ''XQ'' = None" "named_refusal nec2_hooks ''EN'' = None"
  by (simp_all add: named_refusal_def gw_line_def eval_text nec2_hooks_def refused_by_name_def)

lemma parse_en: "\<exists>c. parse_card ''EN'' = Inr (Some c) \<and> mnemonic c = ''EN''"
  by (simp add: Let_def example_cards eval_text eval_number eval_card)

lemma feed_example: "feed_lines nec2_hooks example_lines init_parser = Inr after_xq"
proof -
  obtain en where "parse_card ''EN'' = Inr (Some en)" "mnemonic en = ''EN''"
    using parse_en by blast
  then show ?thesis
    by (simp add: example_lines_def line_names parse_gw parse_ge parse_gn parse_ld parse_ex parse_xq read_gw read_ge
        read_gn read_ld read_ex read_xq terminators_def)
       (simp add: gw_example_def ge_example_def gn_example_def ld_example_def ex_example_def xq_example_def)
qed

definition example_deck :: string where
  "example_deck = concat (map (\<lambda>l. l @ [CHR 0x0A]) example_lines)"

lemma example_splitlines: "splitlines example_deck = example_lines"
  by (simp add: example_deck_def example_lines_def gw_line_def splitlines_def eval_text)

lemma example_structure_kept: "the_structure b after_xq = Inr (example_structure, after_xq)"
  by (simp add: the_structure_def after_xq_def after_ex_def after_ld_def after_gn_def after_ge_def)

lemma example_feed: "feed nec2_hooks example_deck init_parser = Inr after_xq"
  by (simp add: feed_def example_splitlines feed_example example_structure_kept)

definition example_group :: execute_group where
  "example_group = \<lparr>eg_frequencies = [default_frequency_mhz], eg_voltages = [(Fin 1, Fin 0)],
     eg_request = None, eg_print_control = None, eg_extended_kernel = False,
     eg_multiprocessing = None, eg_refilled = True, eg_refilled_partial = False,
     eg_environment = \<lparr>env_ground = Pec, env_ground_z = Fin 0, env_second_medium =
       Some \<lparr>sm_eps_r = Fin 0, sm_sigma = Fin 0, sm_edge_distance = Fin 0, sm_height = Fin 0\<rparr>\<rparr>,
     eg_loads = Some [0]\<rparr>"

definition example_model :: deck_model where
  "example_model = \<lparr>dm_wires = [\<lparr>dw_vertices = [(Fin 0, Fin 0, Fin 1), (Fin 0, Fin 0, Fin 4)],
       dw_radius = Fin (1 / 100), dw_edge_elements = [3], dw_material = None\<rparr>],
     dm_feeds = [(0, Fin (3 / 2), (Fin 1, Fin 0))], dm_node_gaps = [],
     dm_loads = [(0, Fin (3 / 2), load_example)], dm_ground = Pec, dm_ground_z = Fin 0,
     dm_second_medium = Some \<lparr>sm_eps_r = Fin 0, sm_sigma = Fin 0, sm_edge_distance = Fin 0, sm_height = Fin 0\<rparr>,
     dm_ground_plane_flag = True, dm_ground_plane_interpolates = False,
     dm_groups = [Some example_group], dm_comments = [], dm_quiet = False, dm_reduced_field = None,
     dm_deferred = [], dm_networks = [], dm_current_feeds = [], dm_extended_kernel_default = False,
     dm_junction_rule = ''nec2''\<rparr>"

lemmas after_defs = after_xq_def after_ex_def after_ld_def after_gn_def after_ge_def init_parser_def

lemma example_loads:
  "loads_and_materials after_xq = Inr ([(0, Fin (3 / 2), load_example)], [0], (None, [], None, []))"
  by (simp add: loads_and_materials_def List.map_filter_def after_defs group_example_def)

lemma example_wires:
  "mapE (model_wire example_structure Map.empty (None, [], None, [])) (st_pieces example_structure) =
     Inr (dm_wires example_model)"
  by (simp add: example_structure_def model_wire_def material_for_def mk_deck_wire_def example_model_def
      example_wire_def)

lemma example_feeds:
  "feeds_and_groups example_structure [0] after_xq = Inr (dm_feeds example_model, dm_groups example_model)"
  by (simp add: feeds_and_groups_def all_sources_def List.map_filter_def after_defs group_example_def
      feed_source_def example_resolve final_group_def voltage_step_def lookupE_def place_of_def example_model_def
      example_group_def)

lemma example_contact:
  "contact_refusal [example_wire] (example_wire, fw_p1 example_wire) = None"
  "contact_refusal [example_wire] (example_wire, fw_p2 example_wire) = None"
proof -
  have "fint (fw_n_seg example_wire) = Fin 3"
    by (simp add: example_wire_def fint_def fval_literal)
  then have "contact_tolerance example_wire = Fin (1 / 1000)"
    by (simp add: contact_tolerance_def example_length smin_def flt_ops_Fin fval_literal)
  moreover have "z_of (fw_p1 example_wire) = Fin 1" "z_of (fw_p2 example_wire) = Fin 4"
    by (simp_all add: example_wire_def z_of_def)
  ultimately show "contact_refusal [example_wire] (example_wire, fw_p1 example_wire) = None"
    "contact_refusal [example_wire] (example_wire, fw_p2 example_wire) = None"
    by (simp_all add: contact_refusal_def Let_def)
qed

lemma example_models: "model nec2_hooks after_xq = Inr example_model"
proof -
  have "ps_saw_ex after_xq" "ps_wire_insulation after_xq = Map.empty"
    "st_wires example_structure = [example_wire]"
    by (simp_all add: after_defs example_structure_def)
  then show ?thesis
    by (simp add: model_def example_structure_kept example_loads example_wires example_feeds example_contact)
       (simp add: example_model_def after_defs example_structure_def)
qed

lemma example_parse: "parse_nec2 example_deck = Inr example_model"
  by (simp add: parse_nec2_def example_feed example_models)

end
