(* ===== verification/Deck_Properties.thy ===== *)
theory Deck_Properties
  imports Deck_Reading Example_Deck
begin

text \<open>
  The properties of the deck reader, from the text of a deck to its model.  The witnesses
  read the deck of \<open>Example_Deck\<close>.
\<close>

lemma example_deck_cards:
  "deck_cards (splitlines example_deck) = [gw_example, ge_example, gn_example, ld_example, ex_example, xq_example]"
proof -
  obtain en where "parse_card ''EN'' = Inr (Some en)" "mnemonic en = ''EN''"
    using parse_en by blast
  then show ?thesis
    by (simp add: example_splitlines example_lines_def parse_gw parse_ge parse_gn parse_ld parse_ex parse_xq terminators_def)
       (simp add: gw_example_def ge_example_def gn_example_def ld_example_def ex_example_def xq_example_def)
qed

text \<open>C1: whatever the text, reading a deck never fails an assertion, never looks up a missing key
  and never loops for ever.\<close>

theorem parse_nec2_no_internal:
  "parse_nec2 deck \<noteq> Inl KeyError \<and> parse_nec2 deck \<noteq> Inl AssertionError \<and>
   parse_nec2 deck \<noteq> Inl Diverges"
proof -
  have "clean (parse_nec2 deck)"
    unfolding parse_nec2_def
    using nec2.feed_ok [OF init_parser_ok, of deck] by (intro clean_bind nec2.clean_model) (auto intro: ok_result_clean)
  then show ?thesis
    by (auto simp: clean_def internal_def)
qed

text \<open>C3: which execute cards run, and which of those refill the matrix wholly or in part, is
  what their place among the mnemonics says: a card that is not the first runs only when some
  card since the last one arms it, and refills wholly only after an FR.\<close>

theorem parse_nec2_runs:
  assumes "parse_nec2 deck = Inr m"
  shows "map (map_option (\<lambda>g. (eg_refilled g, eg_refilled_partial g))) (dm_groups m) =
    runs_from False [] (map mnemonic (deck_cards (splitlines deck)))"
proof -
  obtain q p s used where q: "read_cards nec2_hooks init_parser (deck_cards (splitlines deck)) = Inr q"
    and p: "p = q\<lparr>ps_structure := Some s\<rparr>"
    and g: "feeds_and_groups s used p = Inr (dm_feeds m, dm_groups m)"
    using assms by (rule parse_nec2_model)
  have "map (map_option (\<lambda>g. (eg_refilled g, eg_refilled_partial g))) (dm_groups m) =
      map refill_of (ps_groups p)"
    using g by (rule groups_refills)
  also have "\<dots> = runs_from False [] (map mnemonic (deck_cards (splitlines deck)))"
    using nec2_runs.read_cards_runs [OF q, of False "[]"] p by (simp add: since_ok_def init_parser_def)
  finally show ?thesis .
qed

theorem parse_nec2_runs_witness:
  "map (map_option (\<lambda>g. (eg_refilled g, eg_refilled_partial g))) (dm_groups example_model) =
    runs_from False [] (map mnemonic (deck_cards (splitlines example_deck))) \<and>
   runs_from False [] (map mnemonic (deck_cards (splitlines example_deck))) = [Some (True, False)]"
  using parse_nec2_runs [OF example_parse]
  by (simp add: example_model_def example_group_def)

lemma example_cards_kinds [simp]:
  "mnemonic gw_example = ''GW''" "mnemonic ge_example = ''GE''" "mnemonic gn_example = ''GN''" "mnemonic ld_example = ''LD''"
  "mnemonic ex_example = ''EX''" "mnemonic xq_example = ''XQ''"
  by (simp_all add: gw_example_def ge_example_def gn_example_def ld_example_def ex_example_def xq_example_def)

lemma example_deck_structure: "deck_structure example_deck = Inr example_structure"
  by (simp add: deck_structure_def example_deck_cards geometry_cards_def example_geometry)

text \<open>C2: the model is well formed: every run carries one voltage per feed, at least one
  frequency, and a sorted list of indices into the model's loads; the first execute card
  always runs; every feed stands on one of the model's wires; and each wire is one straight
  piece, together as many elements as the structure has segments that the deck's geometry
  cards make.\<close>

theorem parse_nec2_wellformed:
  assumes "parse_nec2 deck = Inr m"
  shows "(\<forall>g. Some g \<in> set (dm_groups m) \<longrightarrow>
      length (eg_voltages g) = length (dm_feeds m) \<and> eg_frequencies g \<noteq> [] \<and>
      (\<exists>ls. eg_loads g = Some ls \<and> sorted ls \<and> set ls \<subseteq> {..<length (dm_loads m)})) \<and>
    (dm_groups m \<noteq> [] \<longrightarrow> hd (dm_groups m) \<noteq> None) \<and>
    (\<forall>(wire, a, v) \<in> set (dm_feeds m). wire < length (dm_wires m)) \<and>
    (\<forall>w \<in> set (dm_wires m). length (dw_vertices w) = 2 \<and> length (dw_edge_elements w) = 1) \<and>
    (\<exists>s. deck_structure deck = Inr s \<and> sum_list (map n_elements (dm_wires m)) = n_segments s)"
proof -
  obtain q p :: parser and s used mats where
    q: "read_cards nec2_hooks init_parser (deck_cards (splitlines deck)) = Inr q"
      "build_geometry geometry_builders (ps_geometry_cards q) = Inr s"
    and p: "p = q\<lparr>ps_structure := Some s\<rparr>" "parser_ok geometry_builders p" "structure_ok s"
    and lm: "loads_and_materials p = Inr (dm_loads m, used, mats)"
    and w: "mapE (model_wire s (ps_wire_insulation p) mats) (st_pieces s) = Inr (dm_wires m)"
    and g: "feeds_and_groups s used p = Inr (dm_feeds m, dm_groups m)"
    using assms by (rule parse_nec2_model)
  have used: "set used = used_loads p" "length (dm_loads m) = length used"
    using lm by (cases mats, simp_all add: loads_and_materials_eq)+
  have "set (pg_loads pg) \<subseteq> set used" if "Some pg \<in> set (ps_groups p)" for pg
    using group_loads_used [OF that] used(1) by blast
  from feeds_and_groups_ok [OF g this] obtain order where
    order: "list_all2 (\<lambda>(tag, seg) (wire, a, v). resolve s tag seg = Inr (wire, a)) order (dm_feeds m)"
    and groups: "list_all2 (group_of order used) (ps_groups p) (dm_groups m)"
    by blast
  have ok: "groups_ok p"
    using p(2) by (simp add: parser_ok_def)
  have "length (eg_voltages e) = length (dm_feeds m) \<and> eg_frequencies e \<noteq> [] \<and>
      (\<exists>ls. eg_loads e = Some ls \<and> sorted ls \<and> set ls \<subseteq> {..<length (dm_loads m)})"
    if e: "Some e \<in> set (dm_groups m)" for e
  proof -
    obtain i where i: "i < length (dm_groups m)" "dm_groups m ! i = Some e"
      using e by (auto simp: in_set_conv_nth)
    then have "group_of order used (ps_groups p ! i) (Some e)" "i < length (ps_groups p)"
      using groups by (auto simp: list_all2_conv_all_nth)
    then obtain pg where pg: "Some pg \<in> set (ps_groups p)" "group_of order used (Some pg) (Some e)"
      by (cases "ps_groups p ! i") (auto simp: group_of_def in_set_conv_nth)
    then have "pg_frequencies pg \<noteq> []"
      using ok by (auto simp: groups_ok_def)
    with pg(2) used(2) list_all2_lengthD [OF order] show ?thesis
      by (auto simp: group_of_def voltages_of_def)
  qed
  moreover have "hd (dm_groups m) \<noteq> None" if "dm_groups m \<noteq> []"
    using groups ok that by (cases "ps_groups p"; cases "dm_groups m")
      (auto simp: groups_ok_def group_of_def split: option.splits)
  moreover have "wire < length (dm_wires m)" if feed: "(wire, a, v) \<in> set (dm_feeds m)" for wire a v
  proof -
    obtain tag seg where "resolve s tag seg = Inr (wire, a)"
      using order feed by (fastforce simp: list_all2_conv_all_nth in_set_conv_nth)
    then obtain i k e where "locate s tag seg = Inr (i, k)" "element_of s i k = Inr (wire, e)"
      by (auto simp: resolve_def resolve_of_def okE Let_def)
    then have "wire < length (st_pieces s)"
      using element_of_valid [OF p(3), of i k] locate_segment [OF p(3)] by force
    then show ?thesis
      using mapE_length [OF w] by simp
  qed
  moreover have "length (dw_vertices dw) = 2 \<and> length (dw_edge_elements dw) = 1" if dw: "dw \<in> set (dm_wires m)" for dw
    using model_wires [OF w p(3)] dw by (auto simp: list_all2_conv_all_nth in_set_conv_nth)
  moreover have "deck_structure deck = Inr s" "sum_list (map n_elements (dm_wires m)) = n_segments s"
    using deck_structure_read [OF q] model_wires [OF w p(3)] by simp_all
  ultimately show ?thesis
    by auto
qed

theorem parse_nec2_wellformed_witness:
  "length (eg_voltages example_group) = length (dm_feeds example_model)"
  using parse_nec2_wellformed [OF example_parse] by (simp add: example_model_def)

lemma read_cards_groups:
  assumes "read_cards nec2_hooks p cs = Inr p'"
  shows "\<exists>gs. ps_groups p' = ps_groups p @ gs \<and> length gs = length (filter executes cs)"
  using assms
proof (induction cs arbitrary: p)
  case (Cons c cs)
  then obtain p1 gs where p1: "read_card nec2_hooks c p = Inr p1"
    and gs: "ps_groups p' = ps_groups p1 @ gs" "length gs = length (filter executes cs)"
    by (auto simp: okE) blast
  show ?case
  proof (cases "executes c")
    case True
    then have "mnemonic c \<in> set execute_cards" by (simp add: executes_def)
    from nec2_runs.read_card_execute [OF p1 this] gs True show ?thesis
      by (cases "\<not> ps_armed p \<and> ps_executed p \<noteq> 0") auto
  next
    case False
    then have "mnemonic c \<notin> set execute_cards" by (simp add: executes_def)
    from nec2_runs.read_card_plain [OF p1 this] gs False show ?thesis by simp
  qed
qed simp

lemma run_sources:
  assumes "read_cards nec2_hooks init_parser (pre @ c # post) = Inr p" "executes c"
    and "ps_groups p ! length (filter executes pre) = Some g"
  shows "pg_sources g = map ex_entry (driving pre)"
proof -
  obtain q q' where q: "read_cards nec2_hooks init_parser pre = Inr q" "read_card nec2_hooks c q = Inr q'"
    and post: "read_cards nec2_hooks q' post = Inr p"
    using assms(1) by (rule read_cards_split)
  have src: "ps_sources q = map ex_entry (driving pre)"
    using nec2_runs.read_cards_drive_ok [OF q(1)] by (simp add: drive_ok_def init_parser_def)
  obtain gs where gs: "ps_groups p = ps_groups q' @ gs"
    using read_cards_groups [OF post] by blast
  obtain gs' where gs': "ps_groups q = gs'" "length gs' = length (filter executes pre)"
    using read_cards_groups [OF q(1)] by (auto simp: init_parser_def)
  have "mnemonic c \<in> set execute_cards"
    using assms(2) by (simp add: executes_def)
  from nec2_runs.read_card_execute [OF q(2) this] show ?thesis
    using gs gs' assms(3) src
    by (cases "\<not> ps_armed q \<and> ps_executed q \<noteq> 0") (auto simp: nth_append)
qed

text \<open>C4: a run is driven by the EX cards of the last block of cards, between execute cards, that
  has one.  The ports of the model are a list of addresses, none twice and each named by an EX card;
  the feeds are where these resolve to on the structure of the deck, in the same order; and the
  voltages of a run, in that order again, are what those EX cards give each address, and zero
  elsewhere.\<close>

theorem parse_nec2_sources:
  assumes "parse_nec2 deck = Inr m"
  shows "\<exists>s order. deck_structure deck = Inr s \<and> distinct order \<and>
    list_all2 (\<lambda>(tag, seg) (wire, a, v). resolve s tag seg = Inr (wire, a)) order (dm_feeds m) \<and>
    (\<forall>address \<in> set order. \<exists>pre post. deck_cards (splitlines deck) = pre @ post \<and>
       address \<in> set (map (feed_key \<circ> ex_entry) (driving pre))) \<and>
    (\<forall>pre c post g. deck_cards (splitlines deck) = pre @ c # post \<and> executes c \<and>
       dm_groups m ! length (filter executes pre) = Some g \<longrightarrow>
       set (map (feed_key \<circ> ex_entry) (driving pre)) \<subseteq> set order \<and>
       eg_voltages g = voltages_of order (map ex_entry (driving pre)))"
proof -
  obtain q p :: parser and s used mats where
    q: "read_cards nec2_hooks init_parser (deck_cards (splitlines deck)) = Inr q"
      "build_geometry geometry_builders (ps_geometry_cards q) = Inr s"
    and p: "p = q\<lparr>ps_structure := Some s\<rparr>"
    and lm: "loads_and_materials p = Inr (dm_loads m, used, mats)"
    and g: "feeds_and_groups s used p = Inr (dm_feeds m, dm_groups m)"
    using assms by (rule parse_nec2_model)
  have used: "set used = used_loads p"
    using lm by (cases mats, simp add: loads_and_materials_eq)
  have "set (pg_loads pg) \<subseteq> set used" if "Some pg \<in> set (ps_groups p)" for pg
    using group_loads_used [OF that] used by blast
  from feeds_and_groups_ok [OF g this] obtain order where
    order: "order = dedup (map feed_key (all_sources p))"
    and feeds: "list_all2 (\<lambda>(tag, seg) (wire, a, v). resolve s tag seg = Inr (wire, a)) order (dm_feeds m)"
    and groups: "list_all2 (group_of order used) (ps_groups p) (dm_groups m)"
    by blast
  have named: "\<exists>pre post. deck_cards (splitlines deck) = pre @ post \<and>
      address \<in> set (map (feed_key \<circ> ex_entry) (driving pre))" if port: "address \<in> set order" for address
  proof -
    obtain pg src where pg: "Some pg \<in> set (ps_groups p)" "src \<in> set (pg_sources pg)" "address = feed_key src"
      using port ran_groups_iff [of _ p] by (auto simp: order all_sources_def ran_groups_def)
    then have "Some pg \<in> set (ps_groups q)"
      by (simp add: p)
    from nec2_runs.group_sources [OF q(1) this] obtain pre post where
      "deck_cards (splitlines deck) = pre @ post" "pg_sources pg = map ex_entry (driving pre)"
      by (auto simp: init_parser_def)
    with pg(2,3) show ?thesis
      by (intro exI [of _ pre] exI [of _ post]) auto
  qed
  have driven: "set (map (feed_key \<circ> ex_entry) (driving pre)) \<subseteq> set order \<and>
      eg_voltages e = voltages_of order (map ex_entry (driving pre))"
    if split: "deck_cards (splitlines deck) = pre @ c # post" "executes c"
      "dm_groups m ! length (filter executes pre) = Some e" for pre c post e
  proof -
    have "length (ps_groups p) = length (filter executes (pre @ c # post))"
      using read_cards_groups [OF q(1)] p split(1) by (auto simp: init_parser_def)
    then have i: "length (filter executes pre) < length (ps_groups p)"
      using split(2) by simp
    then have "group_of order used (ps_groups p ! length (filter executes pre)) (Some e)"
      using groups split(3) by (auto simp: list_all2_conv_all_nth)
    then obtain pg where pg: "ps_groups p ! length (filter executes pre) = Some pg"
      "eg_voltages e = voltages_of order (pg_sources pg)"
      by (auto simp: group_of_def split: option.splits)
    have src: "pg_sources pg = map ex_entry (driving pre)"
      using run_sources [OF q(1) [unfolded split(1)] split(2)] pg(1) p by simp
    have "Some pg \<in> set (ps_groups p)"
      using pg(1) i by (metis nth_mem)
    then have "set (pg_sources pg) \<subseteq> set (all_sources p)"
      using ran_groups_iff [of pg p] by (auto simp: all_sources_def ran_groups_def)
    then have "set (map feed_key (pg_sources pg)) \<subseteq> set order"
      by (auto simp: order)
    with pg(2) src show ?thesis
      by simp
  qed
  show ?thesis
    using deck_structure_read [OF q] order feeds named driven
    by (intro exI [of _ s] exI [of _ order]) auto
qed

theorem parse_nec2_sources_witness:
  "\<exists>order. list_all2 (\<lambda>(tag, seg) (wire, a, v). resolve example_structure tag seg = Inr (wire, a))
       order (dm_feeds example_model) \<and> length (dm_feeds example_model) = 1 \<and>
     set (map (feed_key \<circ> ex_entry) [ex_example]) \<subseteq> set order \<and>
     eg_voltages example_group = voltages_of order (map ex_entry [ex_example])"
proof -
  let ?pre = "[gw_example, ge_example, gn_example, ld_example, ex_example]"
  obtain s order where s: "deck_structure example_deck = Inr s"
    and order: "list_all2 (\<lambda>(tag, seg) (wire, a, v). resolve s tag seg = Inr (wire, a)) order (dm_feeds example_model)"
    "\<forall>pre c post g. deck_cards (splitlines example_deck) = pre @ c # post \<and> executes c \<and>
       dm_groups example_model ! length (filter executes pre) = Some g \<longrightarrow>
       set (map (feed_key \<circ> ex_entry) (driving pre)) \<subseteq> set order \<and>
       eg_voltages g = voltages_of order (map ex_entry (driving pre))"
    using parse_nec2_sources [OF example_parse] by blast
  have "s = example_structure"
    using s by (simp add: example_deck_structure)
  moreover have "driving ?pre = [ex_example]" "filter executes ?pre = []" "executes xq_example"
    by (simp_all add: driving_def executes_def excites_def execute_cards_def)
  moreover have "dm_groups example_model ! 0 = Some example_group" "length (dm_feeds example_model) = 1"
    by (simp_all add: example_model_def)
  ultimately show ?thesis
    using order(1) order(2) [rule_format, of ?pre xq_example "[]" example_group] example_deck_cards
    by (intro exI [of _ order]) simp
qed

definition tl_example :: card where
  "tl_example = plain_card ''TL'' [1, 2, 1, 2, 50] ''TL 1 2 1 2 50''"

definition pq_example :: card where
  "pq_example = plain_card ''PQ'' [-1] ''PQ -1''"

definition network_example :: network_card where
  "network_example = \<lparr>nc_kind = ''TL'', nc_end_a = (0, Fin (3 / 2)), nc_end_b = (0, Fin (3 / 2)),
     nc_address_a = (1, 2), nc_address_b = (1, 2),
     nc_payload = [Fin 50, Fin 0, Fin 0, Fin 0, Fin 0, Fin 0], nc_first_group = 0\<rparr>"

lemma read_tl:
  assumes "ps_structure p = Some example_structure" "ps_network_destroyer p = None" "ps_groups p = []"
    "ps_executed p = 0" "\<not> ps_ld_run_open p"
  shows "read_card nec2_hooks tl_example p =
    Inr (p\<lparr>ps_armed := True, ps_networks := ps_networks p @ [network_example]\<rparr>)"
proof -
  have m: "mnemonic tl_example = ''TL''" by (simp add: tl_example_def)
  have fs: "card_i tl_example 0 = Inr 1" "card_i tl_example (Suc 0) = Inr 2" "card_i tl_example 2 = Inr 1"
    "card_i tl_example 3 = Inr 2" "card_f tl_example 4 = Fin 50"
    "map (card_f tl_example) [4..<10] = [Fin 50, Fin 0, Fin 0, Fin 0, Fin 0, Fin 0]"
    by (simp_all add: tl_example_def int_of_plain upt_conv_Cons)
  let ?p = "p\<lparr>ps_ld_run_open := False, ps_armed := True\<rparr>"
  have "arm_step tl_example (ld_run_step nec2_hooks tl_example p) = ?p"
    using assms(4) by (simp add: arm_step_def ld_run_step_def m nec2_hooks_def ld_run_transparent_def arming_cards_def operator_cards_def)
  then have "read_card nec2_hooks tl_example p = network geometry_builders tl_example ?p"
    by (simp add: read_card_def Let_def m nec2_hooks_def refused_by_name_def network_cards_def)
  also have "\<dots> = Inr (?p\<lparr>ps_networks := ps_networks p @ [network_example]\<rparr>)"
    using assms(1-3) by (simp add: network_def fs m network_end_check_def the_structure_def example_resolve network_example_def
        del: upt_rec_numeral)
  also have "?p = p\<lparr>ps_armed := True\<rparr>"
    using assms(5) by simp
  finally show ?thesis .
qed

lemma read_pq:
  assumes "ps_network_destroyer p = None" "\<not> ps_ld_run_open p"
  shows "read_card nec2_hooks pq_example p = Inr p"
proof -
  have m: "mnemonic pq_example = ''PQ''" by (simp add: pq_example_def)
  have "prepared pq_example p = p"
    using assms by (simp add: prepared_def destroyer_step_def arm_step_def ld_run_step_def m nec2_hooks_def
        ld_run_transparent_def arming_cards_def network_transparent_def)
  moreover have "pq pq_example = Inr ()"
    by (simp add: pq_def pq_example_def int_of_plain)
  ultimately show ?thesis
    by (subst nec2_read) (simp_all add: m comment_cards_def refused_by_name_def network_cards_def
        dispatch_def Let_def nec2_hooks_def geometry_cards_def)
qed

text \<open>the TL and NT cards of an accepted deck stand together: between two of them there is
  nothing but other TL and NT cards, PT, PQ and MP cards, and comments.\<close>

theorem networks_stand_together:
  assumes "read_cards nec2_hooks init_parser (pre @ n1 # mid @ n2 # post) = Inr (p :: parser)"
    and "mnemonic n1 \<in> {''TL'', ''NT''}" "mnemonic n2 \<in> {''TL'', ''NT''}" "c \<in> set mid"
  shows "mnemonic c \<in> {''TL'', ''NT'', ''PT'', ''PQ'', ''MP'', ''CM'', ''CE''}"
proof -
  have "mnemonic n1 \<in> set network_cards" "mnemonic n2 \<in> set network_cards"
    using assms(2,3) by (simp_all add: network_cards_def)
  from nec2_runs.networks_contiguous [OF assms(1) this assms(4)] show ?thesis
    by (simp add: network_cards_def network_transparent_def comment_cards_def)
qed

theorem networks_stand_together_witness:
  "mnemonic pq_example \<in> {''TL'', ''NT'', ''PT'', ''PQ'', ''MP'', ''CM'', ''CE''}"
proof (rule networks_stand_together)
  let ?p = "after_ge\<lparr>ps_networks := [network_example, network_example]\<rparr>"
  have a: "ps_structure after_ge = Some example_structure" "ps_network_destroyer after_ge = None"
    "ps_groups after_ge = []" "ps_executed after_ge = 0" "\<not> ps_ld_run_open after_ge" "ps_armed after_ge"
    "ps_networks after_ge = []"
    by (simp_all add: after_ge_def init_parser_def)
  show "read_cards nec2_hooks init_parser ([gw_example, ge_example] @ tl_example # [pq_example] @ tl_example # []) =
      Inr (?p\<lparr>ps_armed := True\<rparr>)"
    by (simp add: read_gw read_ge read_tl read_pq a)
qed (simp_all add: tl_example_def)

text \<open>The mnemonic of every card of an accepted deck is one of a fixed list, and some card is an EX.\<close>

theorem parse_nec2_readable:
  assumes "parse_nec2 deck = Inr m"
  shows "(\<forall>c \<in> set (deck_cards (splitlines deck)). mnemonic c \<in> set readable) \<and>
    (\<exists>c \<in> set (deck_cards (splitlines deck)). mnemonic c = ''EX'')"
proof -
  obtain q p :: parser and s where
    q: "read_cards nec2_hooks init_parser (deck_cards (splitlines deck)) = Inr q"
    and p: "p = q\<lparr>ps_structure := Some s\<rparr>" "ps_saw_ex p"
    using assms by (rule parse_nec2_model)
  have "mnemonic c \<in> set readable" if c: "c \<in> set (deck_cards (splitlines deck))" for c
  proof -
    obtain pre post where "deck_cards (splitlines deck) = pre @ c # post"
      using c by (metis split_list)
    with q have "read_cards nec2_hooks init_parser (pre @ c # post) = Inr q" by simp
    then obtain q1 q2 :: parser where "read_card nec2_hooks c q1 = Inr q2"
      by (rule read_cards_split)
    then show ?thesis by (rule read_card_readable)
  qed
  moreover have "\<exists>c \<in> set (deck_cards (splitlines deck)). mnemonic c = ''EX''"
    using read_cards_marks(1) [OF q] p by (simp add: init_parser_def)
  ultimately show ?thesis by blast
qed


theorem parse_nec2_readable_witness:
  "mnemonic ld_example \<in> set readable"
  using parse_nec2_readable [OF example_parse] by (simp add: example_deck_cards)

text \<open>An EN or NX card ends the deck: the text after its line, whatever it is, changes
  nothing.\<close>

theorem parse_nec2_terminated:
  assumes "parse_card l = Inr (Some c)" "mnemonic c \<in> {''NX'', ''EN''}"
    and "\<forall>k \<in> set (ls @ l # rest). list_all (\<lambda>ch. \<not> is_line_end ch) k"
  shows "parse_nec2 (concat (map (\<lambda>k. k @ [CHR 0x0A]) (ls @ l # rest))) =
    parse_nec2 (concat (map (\<lambda>k. k @ [CHR 0x0A]) (ls @ [l])))"
proof -
  have t: "mnemonic c \<in> set terminators"
    using assms(2) by (auto simp: terminators_def)
  have "splitlines (concat (map (\<lambda>k. k @ [CHR 0x0A]) (ls @ l # rest))) = ls @ l # rest"
    "splitlines (concat (map (\<lambda>k. k @ [CHR 0x0A]) (ls @ [l]))) = ls @ [l]"
    using assms(3) by (intro splitlines_lines; simp)+
  then show ?thesis
    unfolding parse_nec2_def feed_def using feed_lines_terminated [OF assms(1) t, of nec2_hooks ls rest init_parser] by (simp only:)
qed

theorem parse_nec2_terminated_witness:
  "parse_nec2 (concat (map (\<lambda>k. k @ [CHR 0x0A]) (example_lines @ [''garbage'']))) = Inr example_model"
proof -
  obtain en where en: "parse_card ''EN'' = Inr (Some en)" "mnemonic en = ''EN''"
    using parse_en by blast
  let ?ls = "[gw_line, ''GE -1'', ''GN 1'', ''LD 4 1 2 2 50'', ''EX 0 1 2 0 1'', ''XQ'']"
  have lines: "example_lines = ?ls @ [''EN'']"
    by (simp add: example_lines_def)
  have "parse_nec2 (concat (map (\<lambda>k. k @ [CHR 0x0A]) (?ls @ ''EN'' # [''garbage'']))) =
      parse_nec2 (concat (map (\<lambda>k. k @ [CHR 0x0A]) (?ls @ [''EN''])))"
    using en(1) _ _
  proof (rule parse_nec2_terminated)
    show "mnemonic en \<in> {''NX'', ''EN''}"
      by (simp add: en(2))
    show "\<forall>k \<in> set (?ls @ ''EN'' # [''garbage'']). list_all (\<lambda>ch. \<not> is_line_end ch) k"
      by (auto simp: gw_line_def eval_char)
  qed
  then show ?thesis
    using example_parse unfolding example_deck_def lines by simp
qed

text \<open>C5: the loads in force after an LD 0, 1 or 4 card are those its own run of LD cards had
  put there and, for every segment the card and the cell rule reach, one load with the card's
  values at that segment's centre, no element of the structure twice.\<close>

theorem read_LD_adds:
  assumes "read_card nec2_hooks c p = Inr (p' :: parser)" "mnemonic c = ''LD''"
    and "card_i c 0 = Inr t" "t \<in> {0, 1, 4}" "lumped_spec t c = Some spec" "parser_ok geometry_builders p"
  shows "\<exists>s tag a b pairs reached es keys. build_geometry geometry_builders (ps_geometry_cards p) = Inr s \<and>
    card_i c 1 = Inr tag \<and> card_i c 2 = Inr a \<and> card_i c 3 = Inr b \<and>
    ld_segment_range s tag a b = Inr pairs \<and> length pairs \<le> 8 \<and>
    cell_rule s (ps_load_spec_at (run_start p)) pairs (Some spec) = Inr reached \<and>
    in_force p' = (if ps_ld_run_open p then in_force p else []) @ es \<and>
    list_all2 (load_at s spec) reached es \<and>
    list_all2 (\<lambda>(w, k) key. element_of s w k = Inr key) reached keys \<and> distinct keys"
  using assms by (rule read_LD_in_force)

theorem read_LD_adds_witness:
  "\<exists>es. in_force after_ld = es \<and> list_all2 (load_at example_structure load_example) [(0, 2)] es"
proof -
  have "parser_ok geometry_builders after_gn"
    using nec2.read_cards_ok [OF init_parser_ok, of "[gw_example, ge_example, gn_example]"] read_gw read_ge read_gn
    by (simp add: nec2_hooks_def)
  moreover have "card_i ld_example 0 = Inr 4"
    by (simp add: ld_example_def int_of_plain)
  moreover have "build_geometry geometry_builders (ps_geometry_cards after_gn) = Inr example_structure"
    by (simp add: after_gn_def after_ge_def example_geometry)
  moreover have "card_i ld_example 1 = Inr 1" "card_i ld_example 2 = Inr 2" "card_i ld_example 3 = Inr 2"
    "\<not> ps_ld_run_open after_gn"
    by (simp_all add: ld_example_def int_of_plain after_gn_def after_ge_def init_parser_def)
  ultimately show ?thesis
    using read_LD_adds [OF read_ld _ _ _ example_spec] example_range example_cell_rule
    by (fastforce simp: )
qed



text \<open>C32: over a ground whose plane the wires may not touch (GE -1), an accepted deck has no
  wire end on the plane but at a junction with a wire on the other side of it.\<close>

theorem parse_nec2_ground_contact:
  assumes "parse_nec2 deck = Inr m" "dm_ground_plane_flag m" "\<not> dm_ground_plane_interpolates m"
    and "Some g \<in> set (dm_groups m)" "env_ground (eg_environment g) \<noteq> NoGround"
  shows "\<exists>s. deck_structure deck = Inr s \<and>
    (\<forall>w \<in> set (st_wires s). \<forall>pt \<in> {fw_p1 w, fw_p2 w}.
      fabs (z_of pt) \<le> contact_tolerance w \<longrightarrow>
      crossing_junction_at (st_wires s) pt (contact_tolerance w))"
proof -
  obtain p :: parser and s where s: "deck_structure deck = Inr s"
    "st_ground_plane_flag s \<and> \<not> st_ground_plane_interpolates s \<and> grounded (dm_groups m) p \<longrightarrow>
      firstE (contact_refusal (st_wires s))
        (concat (map (\<lambda>w. [(w, fw_p1 w), (w, fw_p2 w)]) (st_wires s))) = Inr ()"
    "dm_ground_plane_flag m = st_ground_plane_flag s"
    "dm_ground_plane_interpolates m = st_ground_plane_interpolates s"
    using assms(1) by (rule parse_nec2_structure)
  have "grounded (dm_groups m) p"
    using assms(4,5) by (force simp: grounded_def list_ex_iff split: option.split)
  then have "firstE (contact_refusal (st_wires s))
      (concat (map (\<lambda>w. [(w, fw_p1 w), (w, fw_p2 w)]) (st_wires s))) = Inr ()"
    using s assms(2,3) by simp
  then have "\<forall>wp \<in> set (concat (map (\<lambda>w. [(w, fw_p1 w), (w, fw_p2 w)]) (st_wires s))).
      contact_refusal (st_wires s) wp = None"
    by (simp only: firstE_eq_Inr)
  then show ?thesis
    using s(1) by (auto simp: contact_refusal_def Let_def split: if_splits)
qed

theorem parse_nec2_ground_contact_witness:
  "\<not> (fabs (z_of (fw_p1 example_wire)) \<le> contact_tolerance example_wire \<and>
     \<not> crossing_junction_at [example_wire] (fw_p1 example_wire) (contact_tolerance example_wire))"
proof -
  have "dm_ground_plane_flag example_model" "\<not> dm_ground_plane_interpolates example_model"
    "Some example_group \<in> set (dm_groups example_model)" "env_ground (eg_environment example_group) \<noteq> NoGround"
    by (simp_all add: example_model_def example_group_def)
  from parse_nec2_ground_contact [OF example_parse this] show ?thesis
    by (simp add: example_deck_structure) (simp add: example_structure_def)
qed

text \<open>C33: the model's wires are the pieces of the deck's structure, in order, each a straight wire
  with the radius of the wire it is cut from, and together as many elements as the structure has
  segments.\<close>

theorem parse_nec2_wires:
  assumes "parse_nec2 deck = Inr m"
  shows "\<exists>s. deck_structure deck = Inr s \<and>
    list_all2 (\<lambda>pc w. dw_vertices w = [pi_p1 pc, pi_p2 pc] \<and> dw_edge_elements w = [pi_n_seg pc] \<and>
      dw_radius w = fw_radius (st_wires s ! pi_wire pc)) (st_pieces s) (dm_wires m) \<and>
    sum_list (map n_elements (dm_wires m)) = n_segments s"
proof -
  obtain p :: parser and s used mats where s: "deck_structure deck = Inr s" "structure_ok s"
    and w: "mapE (model_wire s (ps_wire_insulation p) mats) (st_pieces s) = Inr (dm_wires m)"
    using assms by (rule parse_nec2_structure)
  show ?thesis
    using s(1) model_wires [OF w s(2)] by blast
qed

theorem parse_nec2_wires_witness:
  "sum_list (map n_elements (dm_wires example_model)) = n_segments example_structure"
  using parse_nec2_wires [OF example_parse] by (auto simp: example_deck_structure)

end
