(* ===== verification/Symmetry_Laws.thy ===== *)
theory Symmetry_Laws
  imports Structure_Laws
begin

text \<open>
  The cards that copy wires: a GX leaves a structure that is its own mirror image in every
  plane the card names, GR and GM lay down repeated images in blocks, and the motion of a GM
  is rigid.
\<close>

section \<open>Mirror images\<close>

definition mirrored :: "nat \<Rightarrow> flat_wire list \<Rightarrow> bool" where
  \<comment> \<open>every wire has its mirror image among the wires\<close>
  "mirrored axis ws \<longleftrightarrow> (\<forall>w \<in> set ws. \<exists>w' \<in> set ws. fw_p1 w' = axis_neg axis (fw_p1 w) \<and>
     fw_p2 w' = axis_neg axis (fw_p2 w) \<and> fw_n_seg w' = fw_n_seg w \<and> fw_radius w' = fw_radius w)"

lemma uminus_flt_twice [simp]: "- (- x) = (x :: flt)"
  by (cases x) (simp_all add: uminus_flt_def)

lemma axis_neg_twice [simp]: "axis_neg k (axis_neg k p) = p"
  by (cases p) simp

lemma axis_neg_commute: "axis_neg k (axis_neg j p) = axis_neg j (axis_neg k p)"
  by (cases p) simp

lemma mirrored_reflect:
  assumes "reflect axis iti plane ws = Inr ws'"
  shows "mirrored axis ws'" and "mirrored j ws \<Longrightarrow> mirrored j ws'"
proof -
  have ws': "ws' = ws @ map (image_wire (axis_neg axis) iti) ws"
    using assms by (auto simp: reflect_def split: if_splits)
  show "mirrored axis ws'"
    unfolding mirrored_def ws'
  proof
    fix w assume "w \<in> set (ws @ map (image_wire (axis_neg axis) iti) ws)"
    then consider "w \<in> set ws" | v where "v \<in> set ws" "w = image_wire (axis_neg axis) iti v"
      by auto
    then show "\<exists>w' \<in> set (ws @ map (image_wire (axis_neg axis) iti) ws). fw_p1 w' = axis_neg axis (fw_p1 w) \<and>
      fw_p2 w' = axis_neg axis (fw_p2 w) \<and> fw_n_seg w' = fw_n_seg w \<and> fw_radius w' = fw_radius w"
    proof cases
      case 1
      then show ?thesis
        by (intro bexI [of _ "image_wire (axis_neg axis) iti w"]) (auto simp: image_wire_def)
    next
      case 2
      then show ?thesis
        by (intro bexI [of _ v]) (auto simp: image_wire_def)
    qed
  qed
  assume j: "mirrored j ws"
  show "mirrored j ws'"
    unfolding mirrored_def ws'
  proof
    fix w assume "w \<in> set (ws @ map (image_wire (axis_neg axis) iti) ws)"
    then consider "w \<in> set ws" | v where "v \<in> set ws" "w = image_wire (axis_neg axis) iti v"
      by auto
    then show "\<exists>w' \<in> set (ws @ map (image_wire (axis_neg axis) iti) ws). fw_p1 w' = axis_neg j (fw_p1 w) \<and>
      fw_p2 w' = axis_neg j (fw_p2 w) \<and> fw_n_seg w' = fw_n_seg w \<and> fw_radius w' = fw_radius w"
    proof cases
      case 1
      with j show ?thesis by (fastforce simp: mirrored_def)
    next
      case 2
      then obtain v' where "v' \<in> set ws" "fw_p1 v' = axis_neg j (fw_p1 v)" "fw_p2 v' = axis_neg j (fw_p2 v)"
        "fw_n_seg v' = fw_n_seg v" "fw_radius v' = fw_radius v"
        using j by (auto simp: mirrored_def)
      with 2 show ?thesis
        by (intro bexI [of _ "image_wire (axis_neg axis) iti v'"]) (auto simp: image_wire_def axis_neg_commute)
    qed
  qed
qed

lemma gx_steps_mirrored:
  assumes "foldE gx_step (ws, iti) ps = Inr (ws', iti')"
  shows "(\<forall>(axis, flag, plane) \<in> set ps. flag \<noteq> 0 \<longrightarrow> mirrored axis ws') \<and>
    (\<forall>j. mirrored j ws \<longrightarrow> mirrored j ws')"
  using assms
proof (induction ps arbitrary: ws iti)
  case (Cons pl ps)
  then obtain ws1 iti1 where step: "gx_step (ws, iti) pl = Inr (ws1, iti1)"
    and rest: "foldE gx_step (ws1, iti1) ps = Inr (ws', iti')"
    by (auto simp: okE)
  obtain axis flag plane where pl: "pl = (axis, flag, plane)" by (cases pl)
  have "(flag \<noteq> 0 \<longrightarrow> mirrored axis ws1) \<and> (\<forall>j. mirrored j ws \<longrightarrow> mirrored j ws1)"
    using step mirrored_reflect [of axis iti plane ws ws1]
    by (auto simp: gx_step_def pl okE split: if_splits)
  with Cons.IH [OF rest] pl show ?case by auto
qed simp

lemma gx_mirrored:
  assumes "gx c ws = Inr ws'" "planes c = Inr ps" "(axis, flag, plane) \<in> set ps" "flag \<noteq> 0"
  shows "mirrored axis ws'"
  using assms gx_steps_mirrored by (fastforce simp: gx_def okE)

lemma gx_count:
  assumes "gx c ws = Inr ws'" "planes c = Inr ps"
  shows "length ws' = 2 ^ n_fired ps * length ws"
  using gx_segs [OF assms] by (metis length_map length_times_list)

section \<open>Repeated images\<close>

lemma copies_nth:
  "k < n \<Longrightarrow> i < length b \<Longrightarrow> copies n f b ! (k * length b + i) = (f ^^ Suc k) (b ! i)"
proof (induction n arbitrary: b k)
  case (Suc n)
  show ?case
  proof (cases k)
    case 0
    with Suc.prems show ?thesis by (simp add: nth_append)
  next
    case (Suc m)
    then have "copies n f (map f b) ! (m * length (map f b) + i) = (f ^^ Suc m) (map f b ! i)"
      using Suc.IH [of m "map f b"] Suc.prems by simp
    with Suc Suc.prems show ?thesis
      by (simp add: nth_append funpow_swap1)
  qed
qed simp

lemma image_wire_pow:
  "fw_p1 ((image_wire xf t ^^ k) w) = (xf ^^ k) (fw_p1 w)"
  "fw_p2 ((image_wire xf t ^^ k) w) = (xf ^^ k) (fw_p2 w)"
  "fw_n_seg ((image_wire xf t ^^ k) w) = fw_n_seg w" "fw_radius ((image_wire xf t ^^ k) w) = fw_radius w"
  by (induction k) (simp_all add: image_wire_def)

lemma image_tag_pow:
  "0 < fw_tag w \<Longrightarrow> 0 \<le> t \<Longrightarrow> fw_tag ((image_wire xf t ^^ k) w) = fw_tag w + int k * t"
proof (induction k)
  case (Suc k)
  moreover from this have "0 < fw_tag w + int k * t"
    by (simp add: add_pos_nonneg)
  ultimately show ?case
    by (simp add: image_wire_def algebra_simps)
qed simp

lemma blocks_nth:
  assumes "k \<le> n" "i < length ws"
  shows "(ws @ copies n f ws) ! (k * length ws + i) = (f ^^ k) (ws ! i)"
proof (cases k)
  case 0
  with assms show ?thesis by (simp add: nth_append)
next
  case (Suc m)
  then have "copies n f ws ! (m * length ws + i) = (f ^^ Suc m) (ws ! i)"
    using copies_nth [of m n i ws f] assms by simp
  with Suc show ?thesis by (simp add: nth_append)
qed

section \<open>Rigid motions\<close>

fun reals :: "point \<Rightarrow> real \<times> real \<times> real" where
  "reals (x, y, z) = (real_of x, real_of y, real_of z)"

definition dist2 :: "real \<times> real \<times> real \<Rightarrow> real \<times> real \<times> real \<Rightarrow> real" where
  \<comment> \<open>the square of the distance\<close>
  "dist2 p q = (fst p - fst q)\<^sup>2 + (fst (snd p) - fst (snd q))\<^sup>2 + (snd (snd p) - snd (snd q))\<^sup>2"

definition turn :: "real \<Rightarrow> real \<Rightarrow> real \<Rightarrow> real \<times> real \<times> real \<Rightarrow> real \<times> real \<times> real" where
  \<comment> \<open>about X, then Y, then Z\<close>
  "turn a b c p =
     (let (x, y, z) = p;
          (x1, y1, z1) = (x, y * cos a - z * sin a, y * sin a + z * cos a);
          (x2, y2, z2) = (x1 * cos b + z1 * sin b, y1, z1 * cos b - x1 * sin b)
      in (x2 * cos c - y2 * sin c, x2 * sin c + y2 * cos c, z2))"

lemma plane_turn: "(u * cos t - v * sin t)\<^sup>2 + (u * sin t + v * cos t)\<^sup>2 = u\<^sup>2 + (v :: real)\<^sup>2"
  using sin_cos_squared_add [of t] by algebra

lemma turn_isometry: "dist2 (turn a b c p) (turn a b c q) = dist2 p q"
proof -
  obtain x y z where p: "p = (x, y, z)" by (cases p)
  obtain x' y' z' where q: "q = (x', y', z')" by (cases q)
  define u v w where uvw: "u = x - x'" "v = y - y'" "w = z - z'"
  define v1 w1 where 1: "v1 = v * cos a - w * sin a" "w1 = v * sin a + w * cos a"
  define u2 w2 where 2: "u2 = w1 * sin b + u * cos b" "w2 = w1 * cos b - u * sin b"
  have "dist2 (turn a b c p) (turn a b c q) =
      (u2 * cos c - v1 * sin c)\<^sup>2 + (u2 * sin c + v1 * cos c)\<^sup>2 + w2\<^sup>2"
    by (simp add: dist2_def turn_def p q Let_def 1 2 uvw algebra_simps)
  also have "\<dots> = u2\<^sup>2 + v1\<^sup>2 + w2\<^sup>2"
    by (simp only: plane_turn)
  also have "u2\<^sup>2 + w2\<^sup>2 = w1\<^sup>2 + u\<^sup>2"
    using plane_turn [of w1 b u] by (simp add: 2 add.commute)
  then have "u2\<^sup>2 + v1\<^sup>2 + w2\<^sup>2 = v1\<^sup>2 + w1\<^sup>2 + u\<^sup>2" by simp
  also have "v1\<^sup>2 + w1\<^sup>2 = v\<^sup>2 + w\<^sup>2"
    by (simp only: 1 plane_turn)
  finally show ?thesis
    by (simp add: dist2_def p q uvw)
qed

lemma finite_sum: "is_fin (x + y) \<Longrightarrow> is_fin x \<and> is_fin y \<and> real_of (x + y) = real_of x + real_of y"
  by (cases "x + y") (auto simp: plus_Fin, simp add: flt_ops_Fin fval_def)

lemma finite_difference: "is_fin (x - y) \<Longrightarrow> is_fin x \<and> is_fin y \<and> real_of (x - y) = real_of x - real_of y"
  by (cases "x - y") (auto simp: minus_Fin, simp add: flt_ops_Fin fval_def)

lemma finite_product: "is_fin (x * y) \<Longrightarrow> is_fin x \<and> is_fin y \<and> real_of (x * y) = real_of x * real_of y"
  by (cases "x * y") (auto simp: times_Fin, simp add: flt_ops_Fin fval_def)

lemma product_of_three:
  "is_fin (Fin a * Fin b * Fin c) \<Longrightarrow> real_of (Fin a * Fin b * Fin c) = a * b * c"
  using finite_product [of "Fin a * Fin b" "Fin c"] finite_product [of "Fin a" "Fin b"] by simp

lemma product_of_two: "is_fin (Fin a * Fin b) \<Longrightarrow> real_of (Fin a * Fin b) = a * b"
  using finite_product [of "Fin a" "Fin b"] by simp

lemma sum_of_products:
  "is_fin (Fin a * Fin b * Fin c + Fin d * Fin e) \<Longrightarrow>
    real_of (Fin a * Fin b * Fin c + Fin d * Fin e) = a * b * c + d * e"
  "is_fin (Fin a * Fin b * Fin c - Fin d * Fin e) \<Longrightarrow>
    real_of (Fin a * Fin b * Fin c - Fin d * Fin e) = a * b * c - d * e"
  using finite_sum [of "Fin a * Fin b * Fin c" "Fin d * Fin e"]
    finite_difference [of "Fin a * Fin b * Fin c" "Fin d * Fin e"] product_of_three [of a b c] product_of_two [of d e]
  by auto

lemma linear_form:
  assumes "x * k + y * l + z * m + t = Fin r"
  shows "is_fin k \<and> is_fin l \<and> is_fin m \<and>
    r = real_of x * real_of k + real_of y * real_of l + real_of z * real_of m + real_of t"
proof -
  have 1: "is_fin (x * k + y * l + z * m + t)" "real_of (x * k + y * l + z * m + t) = r"
    using assms by simp_all
  have 2: "is_fin (x * k + y * l + z * m)" "real_of (x * k + y * l + z * m + t) = real_of (x * k + y * l + z * m) + real_of t"
    using finite_sum [OF 1(1)] by simp_all
  have 3: "is_fin (x * k + y * l)" "is_fin (z * m)"
    "real_of (x * k + y * l + z * m) = real_of (x * k + y * l) + real_of (z * m)"
    using finite_sum [OF 2(1)] by simp_all
  have 4: "is_fin (x * k)" "is_fin (y * l)" "real_of (x * k + y * l) = real_of (x * k) + real_of (y * l)"
    using finite_sum [OF 3(1)] by simp_all
  show ?thesis
    using 1(2) 2(2) 3(3) 4(3) finite_product [OF 4(1)] finite_product [OF 4(2)] finite_product [OF 3(2)] by simp
qed

lemma rotate_point_turn:
  assumes "rotate_point (Fin a) (Fin b) (Fin c) (Fin sx, Fin sy, Fin sz) (Fin x, Fin y, Fin z) = (Fin x', Fin y', Fin z')"
  shows "(x' - sx, y' - sy, z' - sz) = turn a b c (x, y, z)"
proof -
  have trig: "fsin (Fin t) = Fin (sin t)" "fcos (Fin t) = Fin (cos t)" for t
    by (simp_all add: fsin_def fcos_def)
  note e = assms [unfolded rotate_point_def Let_def trig prod.case prod.inject]
  have X: "is_fin (Fin (cos c) * Fin (cos b))"
    "is_fin (Fin (cos c) * Fin (sin b) * Fin (sin a) - Fin (sin c) * Fin (cos a))"
    "is_fin (Fin (cos c) * Fin (sin b) * Fin (cos a) + Fin (sin c) * Fin (sin a))"
    using linear_form e by blast+
  have Y: "is_fin (Fin (sin c) * Fin (cos b))"
    "is_fin (Fin (sin c) * Fin (sin b) * Fin (sin a) + Fin (cos c) * Fin (cos a))"
    "is_fin (Fin (sin c) * Fin (sin b) * Fin (cos a) - Fin (cos c) * Fin (sin a))"
    using linear_form e by blast+
  have Z: "is_fin (Fin (cos b) * Fin (sin a))" "is_fin (Fin (cos b) * Fin (cos a))"
    using linear_form e by blast+
  have x: "x' = x * (cos c * cos b) + y * (cos c * sin b * sin a - sin c * cos a) +
      z * (cos c * sin b * cos a + sin c * sin a) + sx"
    using linear_form [OF conjunct1 [OF e]] product_of_two [OF X(1)] sum_of_products(2) [OF X(2)]
      sum_of_products(1) [OF X(3)] by simp
  have y: "y' = x * (sin c * cos b) + y * (sin c * sin b * sin a + cos c * cos a) +
      z * (sin c * sin b * cos a - cos c * sin a) + sy"
    using linear_form [OF conjunct1 [OF conjunct2 [OF e]]] product_of_two [OF Y(1)] sum_of_products(1) [OF Y(2)]
      sum_of_products(2) [OF Y(3)] by simp
  have z: "z' = x * (- sin b) + y * (cos b * sin a) + z * (cos b * cos a) + sz"
    using linear_form [OF conjunct2 [OF conjunct2 [OF e]]] product_of_two [OF Z(1)] product_of_two [OF Z(2)] by simp
  show ?thesis
    unfolding x y z by (simp add: turn_def Let_def algebra_simps)
qed

lemma rotate_point_isometry:
  assumes "rotate_point (Fin a) (Fin b) (Fin c) (Fin sx, Fin sy, Fin sz) (Fin x, Fin y, Fin z) = (Fin x', Fin y', Fin z')"
    and "rotate_point (Fin a) (Fin b) (Fin c) (Fin sx, Fin sy, Fin sz) (Fin u, Fin v, Fin w) = (Fin u', Fin v', Fin w')"
  shows "(x' - u')\<^sup>2 + (y' - v')\<^sup>2 + (z' - w')\<^sup>2 = (x - u)\<^sup>2 + (y - v)\<^sup>2 + (z - w)\<^sup>2"
proof -
  have "dist2 (x' - sx, y' - sy, z' - sz) (u' - sx, v' - sy, w' - sz) = dist2 (x, y, z) (u, v, w)"
    unfolding rotate_point_turn [OF assms(1)] rotate_point_turn [OF assms(2)] by (rule turn_isometry)
  then show ?thesis
    by (simp add: dist2_def)
qed

text \<open>A finite image comes of finite angles and a finite shift.\<close>

lemma rotate_point_finite:
  assumes "rotate_point a b c (sx, sy, sz) (Fin x, Fin y, Fin z) = (Fin x', Fin y', Fin z')"
  shows "\<exists>a' b' c' sx' sy' sz'. a = Fin a' \<and> b = Fin b' \<and> c = Fin c' \<and> sx = Fin sx' \<and> sy = Fin sy' \<and> sz = Fin sz'"
proof -
  note e = assms [unfolded rotate_point_def Let_def prod.case prod.inject]
  have fin: "is_fin u" if "fsin u = Fin v \<or> fcos u = Fin v" for u v
    using that by (cases u) (auto simp: fsin_def fcos_def)
  have shift: "is_fin sx" "is_fin sy" "is_fin sz"
    using e finite_sum [of _ sx] finite_sum [of _ sy] finite_sum [of _ sz] by (metis is_fin_simps(1))+
  have "is_fin (fcos c * fcos b)" "is_fin (fcos b * fcos a)"
    using linear_form e by blast+
  then have "is_fin (fcos c)" "is_fin (fcos b)" "is_fin (fcos a)"
    using finite_product by blast+
  then have "is_fin a" "is_fin b" "is_fin c"
    using fin by (auto simp: is_fin_iff)
  with shift show ?thesis
    by (auto simp: is_fin_iff)
qed

end
