(* ===== verification/Geometry_Properties.thy ===== *)
theory Geometry_Properties
  imports Symmetry_Laws Example_Deck Deck_Reading
begin

text \<open>
  The properties of the geometry: the wires the cards make, the two connection passes, the
  pieces the structure is cut into and the addresses that resolve on them.
\<close>

lemma example_structure_ok: "structure_ok example_structure"
  using nec2_reader.build_geometry_ok [OF example_geometry] .

text \<open>C23: the segments of the structure and the elements of its pieces are in bijection: every
  segment of every wire is exactly one element of exactly one piece.\<close>

theorem segments_are_elements:
  assumes "build_geometry geometry_builders cards = Inr s"
  shows "bij_betw (\<lambda>(wire, seg). projr (element_of s wire seg))
    {(wire, seg). wire < length (st_wires s) \<and> 1 \<le> seg \<and> seg \<le> fw_n_seg (st_wires s ! wire)}
    {(j, e). j < length (st_pieces s) \<and> 0 \<le> e \<and> e < pi_n_seg (st_pieces s ! j)}"
proof -
  have ok: "structure_ok s"
    using assms by (rule nec2_reader.build_geometry_ok)
  let ?g = "\<lambda>(j, e). (pi_wire (st_pieces s ! j), pi_first_seg (st_pieces s ! j) + e + 1)"
  show ?thesis
  proof (rule bij_betw_byWitness [where f' = ?g], goal_cases)
    case 1
    show ?case
    proof (safe)
      fix w k assume "w < length (st_wires s)" "1 \<le> k" "k \<le> fw_n_seg (st_wires s ! w)"
      then have "(w, k) \<in> set (wire_segments (st_wires s))"
        by (simp add: in_wire_segments)
      then obtain j e where "element_of s w k = Inr (j, e)" "pi_wire (st_pieces s ! j) = w"
        "k = pi_first_seg (st_pieces s ! j) + e + 1"
        using element_of_valid [OF ok] by metis
      then show "(case projr (element_of s w k) of (j, e) \<Rightarrow>
          (pi_wire (st_pieces s ! j), pi_first_seg (st_pieces s ! j) + e + 1)) = (w, k)"
        by simp
    qed
  next
    case 2
    show ?case
      using element_of_piece(1) [OF ok] by auto
  next
    case 3
    show ?case
      using element_of_valid [OF ok] by (fastforce simp: in_wire_segments)
  next
    case 4
    show ?case
      using element_of_piece(2) [OF ok] by (fastforce simp: in_wire_segments)
  qed
qed

theorem segments_are_elements_witness:
  "inj_on (\<lambda>(wire, seg). projr (element_of example_structure wire seg)) {(0, 1), (0, 3)}"
  by (rule inj_on_subset [OF bij_betw_imp_inj_on [OF segments_are_elements [OF example_geometry]]])
     (auto simp: example_structure_def example_wire_def)

text \<open>C35: an address (tag, segment) names the segment that counting over the wires of that tag in
  card order reaches (over every wire for tag 0, and a segment below 1 standing for the first),
  and is refused when the count runs out.\<close>

theorem locate_counts_segments:
  assumes "build_geometry geometry_builders cards = Inr s"
  shows "locate s tag seg =
    (let named = filter (\<lambda>(i, k). tag = 0 \<or> fw_tag (st_wires s ! i) = tag)
                   (concat (map (\<lambda>i. map (\<lambda>k. (i, k)) [1..fw_n_seg (st_wires s ! i)]) [0..<length (st_wires s)]))
     in if max seg 1 \<le> int (length named) then Inr (named ! nat (max seg 1 - 1))
        else Inl (geometry_error (SegmentOutOfRange (max seg 1) tag)))"
proof -
  have "wire_segments ws = concat (map (\<lambda>i. map (\<lambda>k. (i, k)) [1..fw_n_seg (ws ! i)]) [0..<length ws])" for ws
    unfolding wire_segments_def by (rule arg_cong [where f = concat], rule nth_equalityI) auto
  then show ?thesis
    using locate_tagged [OF nec2_reader.build_geometry_ok [OF assms]] by (simp add: tagged_def)
qed

theorem locate_counts_segments_witness:
  "locate example_structure 1 4 = Inl (geometry_error (SegmentOutOfRange 4 1))"
  by (subst locate_counts_segments [OF example_geometry])
     (simp add: example_structure_def example_wire_def upto_example)

text \<open>An address resolves to the centre of its segment: half a segment past the segments of the
  piece before it, strictly inside the piece when that has a length.\<close>

theorem resolve_is_centre:
  assumes "build_geometry geometry_builders cards = Inr s" "resolve s tag seg = Inr (j, Fin a)"
    and "is_fin (fint (pi_n_seg (st_pieces s ! j)))"
  shows "\<exists>wire k e len. locate s tag seg = Inr (wire, k) \<and> element_of s wire k = Inr (j, e) \<and>
    piece_length (st_pieces s ! j) = Fin len \<and>
    a = (of_int e + 1 / 2) * len / of_int (pi_n_seg (st_pieces s ! j)) \<and> (0 < len \<longrightarrow> 0 < a \<and> a < len)"
proof -
  have ok: "structure_ok s"
    using assms(1) by (rule nec2_reader.build_geometry_ok)
  obtain wire k where wk: "locate s tag seg = Inr (wire, k)" "resolve_of s wire k = Inr (j, Fin a)"
    using assms(2) by (auto simp: resolve_def okE)
  from resolve_of_centre [OF ok locate_segment [OF ok wk(1)] wk(2) assms(3)] wk(1) show ?thesis
    by blast
qed

theorem resolve_is_centre_witness:
  "\<exists>len. piece_length (st_pieces example_structure ! 0) = Fin len \<and> 3 / 2 = (1 + 1 / 2) * len / 3"
proof -
  have "is_fin (fint (pi_n_seg (st_pieces example_structure ! 0)))"
    "pi_n_seg (st_pieces example_structure ! 0) = 3"
    by (simp_all add: example_structure_def fint_def fval_literal)
  with resolve_is_centre [OF example_geometry example_resolve] show ?thesis
    by (auto simp: example_locate example_element)
qed

text \<open>a card addressed inside a symmetric cell applies to the same segments of every copy of the
  cell, and to nothing else; what it names outside the cell is reported as dropped.\<close>

theorem cell_rule_replicates:
  assumes "structure_ok s" "st_symmetry s = Some y" "sy_cell_wires y \<noteq> 0"
    and "under_the_cell_rule s pairs = Inr (applied, dropped)"
  shows "set applied = {(w, k). w < length (st_wires s) \<and> (w mod sy_cell_wires y, k) \<in> set pairs} \<and>
    distinct applied \<and> sorted applied \<and> dropped = filter (\<lambda>p. p \<notin> set applied) pairs \<and>
    (set pairs \<subseteq> set (wire_segments (st_wires s)) \<longrightarrow> set applied \<subseteq> set (wire_segments (st_wires s)))"
  using cell_rule_applied [OF assms] cell_rule_valid [OF assms(1) _ assms(4)] by blast

definition mirror_wire :: flat_wire where
  "mirror_wire = image_wire (axis_neg 2) 1 example_wire"

definition mirror_structure :: nec2_structure where
  "mirror_structure = \<lparr>st_wires = [example_wire, mirror_wire], st_cuts = Map.empty,
     st_pieces = wire_pieces 0 example_wire None @ wire_pieces 1 mirror_wire None,
     st_pieces_of_wire = [[0], [1]], st_ground_plane_flag = False,
     st_ground_plane_interpolates = False,
     st_symmetry = Some \<lparr>sy_cell_wires = 1, sy_cell_segments = 3\<rparr>\<rparr>"

lemma mirror_structure_ok: "structure_ok mirror_structure"
  by (simp add: structure_ok_def mirror_structure_def segments_ok_def cell_ok_def cut_ok_def shattered_def
      wire_pieces_def mirror_wire_def image_wire_def example_wire_def total_segments_def All_less_Suc
      numeral_2_eq_2 exI [of _ 2])

theorem cell_rule_replicates_witness:
  "set (fst (projr (under_the_cell_rule mirror_structure [(0, 2)]))) =
     {(w, k). w < 2 \<and> (w mod 1, k) \<in> set [(0, 2)]}"
proof -
  have "under_the_cell_rule mirror_structure [(0, 2)] = Inr ([(0, 2), (1, 2)], [])"
    by (simp add: under_the_cell_rule_def mirror_structure_def dedup_def Let_def)
  moreover have "st_symmetry mirror_structure = Some \<lparr>sy_cell_wires = 1, sy_cell_segments = 3\<rparr>"
    "length (st_wires mirror_structure) = 2"
    by (simp_all add: mirror_structure_def)
  ultimately show ?thesis
    using cell_rule_replicates [OF mirror_structure_ok, of "\<lparr>sy_cell_wires = 1, sy_cell_segments = 3\<rparr>" "[(0, 2)]"]
    by (simp del: list.set)
qed

text \<open>a wire is cut at a boundary exactly when the boundary is interior and another wire has a
  boundary, or an end, at the same node.\<close>

theorem cuts_are_junctions:
  assumes "junction_cuts ws = Inr cuts" "i < length ws"
  shows "k \<in> (case cuts i of None \<Rightarrow> {} | Some cs \<Rightarrow> cs) \<longleftrightarrow>
    1 \<le> k \<and> k < fw_n_seg (ws ! i) \<and>
    (\<exists>j < length ws. j \<noteq> i \<and> (\<exists>l. 0 \<le> l \<and> l \<le> fw_n_seg (ws ! j) \<and>
       node_key (boundary (ws ! j) l) = node_key (boundary (ws ! i) k)))"
  using assms by (rule junction_cuts_iff)

definition side_wire :: flat_wire where
  \<comment> \<open>ends on the first interior boundary of the example wire\<close>
  "side_wire = \<lparr>fw_tag = 2, fw_n_seg = 1, fw_p1 = (Fin 1, Fin 0, Fin 2), fw_p2 = (Fin 0, Fin 0, Fin 2),
     fw_radius = Fin (1 / 100)\<rparr>"

lemma side_keys:
  "mapE (\<lambda>k. node_key (boundary example_wire k)) [0..3] =
     Inr [(0, 0, 1000000000), (0, 0, 2000000000), (0, 0, 3000000000), (0, 0, 4000000000)]"
  "mapE (\<lambda>k. node_key (boundary side_wire k)) [0..1] = Inr [(1000000000, 0, 2000000000), (0, 0, 2000000000)]"
  by (simp_all add: example_wire_def side_wire_def boundary_def lerp_def fint_def fval_literal upto_rec1 flt_ops_Fin
        node_key_def node_eps_def)

theorem cuts_are_junctions_witness:
  "\<exists>cuts. junction_cuts [example_wire, side_wire] = Inr cuts \<and>
     1 \<in> (case cuts 0 of None \<Rightarrow> {} | Some cs \<Rightarrow> cs) \<and> 2 \<notin> (case cuts 0 of None \<Rightarrow> {} | Some cs \<Rightarrow> cs)"
proof -
  have n: "fw_n_seg example_wire = 3" "fw_n_seg side_wire = 1"
    by (simp_all add: example_wire_def side_wire_def)
  have keys: "node_key (boundary example_wire 1) = Inr (0, 0, 2000000000)"
    "node_key (boundary example_wire 2) = Inr (0, 0, 3000000000)"
    "node_key (boundary side_wire 0) = Inr (1000000000, 0, 2000000000)"
    "node_key (boundary side_wire 1) = Inr (0, 0, 2000000000)"
    using side_keys by (auto simp: upto_rec1 okE)
  obtain cuts where cuts: "junction_cuts [example_wire, side_wire] = Inr cuts"
    by (simp add: junction_cuts_def n side_keys)
  have "1 \<in> (case cuts 0 of None \<Rightarrow> {} | Some cs \<Rightarrow> cs)"
    by (subst cuts_are_junctions [OF cuts]) (auto simp: n keys intro!: exI [of _ 1])
  moreover have "l = 0 \<or> l = 1" if "0 \<le> l" "l \<le> 1" for l :: int
    using that by auto
  then have "2 \<notin> (case cuts 0 of None \<Rightarrow> {} | Some cs \<Rightarrow> cs)"
    by (subst cuts_are_junctions [OF cuts]) (fastforce simp: n keys less_Suc_eq)+
  ultimately show ?thesis
    using cuts by blast
qed

text \<open>C24: where the grid can be built, the first connection pass puts every wire end on an end that a
  chain of ends within tolerance leads to, and puts any two ends such a chain joins on one point.\<close>

theorem snapping_clusters:
  assumes "\<forall>w \<in> set ws. near_point (fw_p1 w) \<and> near_point (fw_p2 w) \<and> 1 \<le> fw_n_seg w"
    and "Fin 0 < snap_tolerance ws"
    and "mapE (cell_of (snap_tolerance ws)) (end_points ws) = Inr cells"
  shows "\<exists>s rep. snap_ends (snap_tolerance ws) ws = Inr s \<and> end_points (sn_wires s) = sn_pts s \<and>
    (\<forall>k < length (end_points ws). rep k < length (end_points ws) \<and> joined ws k (rep k) \<and>
       sn_pts s ! k = end_points ws ! rep k) \<and>
    (\<forall>k < length (end_points ws). \<forall>j < length (end_points ws). joined ws k j \<longrightarrow> rep k = rep j)"
  using assms by (intro snap_ends_clusters) (auto simp: near_wires_def)

theorem snapping_clusters_witness:
  "\<exists>s. snap_ends (snap_tolerance [example_wire]) [example_wire] = Inr s \<and> end_points (sn_wires s) = sn_pts s"
proof -
  have "mapE (cell_of (snap_tolerance [example_wire])) (end_points [example_wire]) = Inr [(0, 0, 1000), (0, 0, 4000)]"
    by (simp add: example_tolerance example_ends example_cells)
  moreover have "Fin 0 < snap_tolerance [example_wire]"
    by (simp add: example_tolerance)
  moreover have "(4 :: real) \<le> coordinate_limit"
  proof -
    have "(4 :: real) \<le> 10 ^ 1"
      by simp
    also have "(10 :: real) ^ 1 \<le> 10 ^ 299"
      by (rule power_increasing) simp_all
    finally show ?thesis by (simp only: coordinate_limit_def)
  qed
  then have "near_point (fw_p1 example_wire)" "near_point (fw_p2 example_wire)" "1 \<le> fw_n_seg example_wire"
    by (simp_all add: near_point_def example_wire_def)
  ultimately show ?thesis
    using snapping_clusters [of "[example_wire]"] by fastforce
qed

text \<open>C36: joining ends in the union-find forest never runs out of steps, however the path halving
  changes the forest, and gives two nodes one representative exactly when the pairs joined so far
  connect them.\<close>

theorem clustering_terminates:
  assumes "set ls \<subseteq> {..<n} \<times> {..<n}"
  shows "\<exists>p. foldE uf_link [0..<n] ls = Inr p \<and>
    (\<forall>x < n. \<forall>y < n. (\<exists>q r q'. find_root p x = Inr (q, r) \<and> find_root p y = Inr (q', r)) \<longleftrightarrow>
       (x, y) \<in> (set ls \<union> (set ls)\<inverse>)\<^sup>*)"
proof -
  obtain p where p: "foldE uf_link [0..<n] ls = Inr p" "uf_ok n p"
    "\<And>x y. x < n \<Longrightarrow> y < n \<Longrightarrow> uf_rep p x = uf_rep p y \<longleftrightarrow> (x, y) \<in> link_rel ls"
    using links_cluster [OF assms] by blast
  have "(\<exists>q r q'. find_root p x = Inr (q, r) \<and> find_root p y = Inr (q', r)) \<longleftrightarrow>
      (x, y) \<in> (set ls \<union> (set ls)\<inverse>)\<^sup>*" if "x < n" "y < n" for x y
    using find_root_ok [OF p(2) that(1)] find_root_ok [OF p(2) that(2)] p(3) [OF that]
    unfolding link_rel_def by (metis prod.inject sum.inject(2))
  with p(1) show ?thesis by blast
qed

theorem clustering_terminates_witness:
  "\<exists>p. foldE uf_link [0..<3] [(0, 1), (1, 2)] = Inr p \<and>
     (\<exists>q r q'. find_root p 0 = Inr (q, r) \<and> find_root p 2 = Inr (q', r))"
proof -
  obtain p where p: "foldE uf_link [0..<3] [(0, 1), (1, 2)] = Inr p"
    "\<forall>x < 3. \<forall>y < 3. (\<exists>q r q'. find_root p x = Inr (q, r) \<and> find_root p y = Inr (q', r)) \<longleftrightarrow>
       (x, y) \<in> (set [(0, 1), (1, 2)] \<union> (set [(0, 1), (1, 2)])\<inverse>)\<^sup>*"
    using clustering_terminates [of "[(0, 1), (1, 2)]" 3] by auto
  have "(0, 2) \<in> (set [(0, 1), (1, 2)] \<union> (set [(0, 1), (1, 2 :: nat)])\<inverse>)\<^sup>*"
    by (rule rtrancl_trans [of _ 1]) (rule r_into_rtrancl, simp)+
  then have "\<exists>q r q'. find_root p 0 = Inr (q, r) \<and> find_root p 2 = Inr (q', r)"
    using p(2) [rule_format, of 0 2] by simp
  with p(1) show ?thesis by blast
qed


text \<open>after a GX card the structure is its own mirror image in every plane the card names, and has
  twice as many wires for each of them.\<close>

theorem gx_makes_mirror_images:
  assumes "gx c ws = Inr ws'" "card_i c 1 = Inr flags"
  shows "(flags mod 10 \<noteq> 0 \<longrightarrow> mirrored 2 ws') \<and> (flags div 10 mod 10 \<noteq> 0 \<longrightarrow> mirrored 1 ws') \<and>
    (flags div 100 mod 10 \<noteq> 0 \<longrightarrow> mirrored 0 ws') \<and>
    length ws' = (if flags mod 10 = 0 then 1 else 2) * (if flags div 10 mod 10 = 0 then 1 else 2) *
      (if flags div 100 mod 10 = 0 then 1 else 2) * length ws"
proof -
  obtain a b d where abd: "a = flags mod 10" "b = flags div 10 mod 10" "d = flags div 100 mod 10"
    by simp
  have pl: "planes c = Inr [(2, a, ''Z=0''), (1, b, ''Y=0''), (0, d, ''X=0'')]"
    using assms(2) by (simp add: planes_def abd)
  note mirror = gx_mirrored [OF assms(1) pl]
  have "a \<noteq> 0 \<longrightarrow> mirrored 2 ws'" "b \<noteq> 0 \<longrightarrow> mirrored 1 ws'" "d \<noteq> 0 \<longrightarrow> mirrored 0 ws'"
    using mirror [of 2 a "''Z=0''"] mirror [of 1 b "''Y=0''"] mirror [of 0 d "''X=0''"] by simp_all
  moreover have "length ws' = (if a = 0 then 1 else 2) * (if b = 0 then 1 else 2) * (if d = 0 then 1 else 2) * length ws"
    using gx_count [OF assms(1) pl] by (simp add: n_fired_def)
  ultimately show ?thesis
    unfolding abd [symmetric] by blast
qed

definition gx_example :: card where
  "gx_example = plain_card ''GX'' [1, 1] ''GX 1 1''"

theorem gx_makes_mirror_images_witness:
  "gx gx_example [example_wire] = Inr [example_wire, mirror_wire] \<and> mirrored 2 [example_wire, mirror_wire]"
proof -
  have flags: "card_i gx_example 1 = Inr 1"
    by (simp add: gx_example_def int_of_plain)
  have "gx gx_example [example_wire] = Inr [example_wire, mirror_wire]"
    by (simp add: gx_def gx_example_def int_of_plain planes_def gx_step_def reflect_def mirror_wire_def
        on_plane_def example_wire_def flt_ops_Fin fval_literal Let_def)
  with gx_makes_mirror_images [OF this flags] show ?thesis by simp
qed

text \<open>A GR card lays the structure down once per section: block k of its wires is the first block
  turned k times by the section's angle, with its segments and radii, its tags raised k times.\<close>

theorem gr_turns_copies:
  assumes "gr c ws = Inr ws'" "card_i c 1 = Inr nop" "card_i c 0 = Inr itg" "k < nat nop" "i < length ws"
  shows "length ws' = nat nop * length ws \<and>
    fw_p1 (ws' ! (k * length ws + i)) =
      (spin_point (fcos (Fin (2 * pi) / fint nop)) (fsin (Fin (2 * pi) / fint nop)) ^^ k) (fw_p1 (ws ! i)) \<and>
    fw_p2 (ws' ! (k * length ws + i)) =
      (spin_point (fcos (Fin (2 * pi) / fint nop)) (fsin (Fin (2 * pi) / fint nop)) ^^ k) (fw_p2 (ws ! i)) \<and>
    fw_n_seg (ws' ! (k * length ws + i)) = fw_n_seg (ws ! i) \<and>
    fw_radius (ws' ! (k * length ws + i)) = fw_radius (ws ! i) \<and>
    (0 < fw_tag (ws ! i) \<and> 0 \<le> itg \<longrightarrow> fw_tag (ws' ! (k * length ws + i)) = fw_tag (ws ! i) + int k * itg)"
proof -
  let ?f = "image_wire (spin_point (fcos (Fin (2 * pi) / fint nop)) (fsin (Fin (2 * pi) / fint nop))) itg"
  have nop: "1 \<le> nop" and ws': "ws' = ws @ copies (nat (nop - 1)) ?f ws"
    using assms(1-3) by (auto simp: gr_def okE Let_def)
  have "ws' ! (k * length ws + i) = (?f ^^ k) (ws ! i)"
    unfolding ws' using assms(4,5) nop by (intro blocks_nth) auto
  moreover have "nat nop = Suc (nat (nop - 1))"
    using nop by simp
  ultimately show ?thesis
    by (simp add: ws' copies_length image_wire_pow image_tag_pow)
qed

definition gr_example :: card where
  "gr_example = plain_card ''GR'' [1, 2] ''GR 1 2''"

theorem gr_turns_copies_witness:
  "\<exists>ws'. gr gr_example [example_wire] = Inr ws' \<and> length ws' = 2 \<and> fw_tag (ws' ! 1) = 2"
proof -
  have cards: "card_i gr_example 1 = Inr 2" "card_i gr_example 0 = Inr 1"
    by (simp_all add: gr_example_def int_of_plain)
  then obtain ws' where ws': "gr gr_example [example_wire] = Inr ws'"
    by (simp add: gr_def Let_def)
  from gr_turns_copies [OF this cards, of 1 0] ws' show ?thesis
    by (auto simp: example_wire_def)
qed

text \<open>The motion of a GM card is rigid: where no coordinate overflows, it keeps the distance of
  any two points.\<close>

theorem gm_motion_is_rigid:
  assumes "gm_transform c = Inr xf" "xf (Fin x, Fin y, Fin z) = (Fin x', Fin y', Fin z')"
    and "xf (Fin u, Fin v, Fin w) = (Fin u', Fin v', Fin w')"
  shows "(x' - u')\<^sup>2 + (y' - v')\<^sup>2 + (z' - w')\<^sup>2 = (x - u)\<^sup>2 + (y - v)\<^sup>2 + (z - w)\<^sup>2"
proof -
  let ?a = "card_f c 2 * deg" and ?b = "card_f c 3 * deg" and ?c = "card_f c 4 * deg"
  have xf: "xf = rotate_point ?a ?b ?c (card_f c 5, card_f c 6, card_f c 7)"
    using assms(1) by (auto simp: gm_transform_def Let_def split: if_splits)
  obtain a b d sx sy sz where f: "?a = Fin a" "?b = Fin b" "?c = Fin d"
    "card_f c 5 = Fin sx" "card_f c 6 = Fin sy" "card_f c 7 = Fin sz"
    using rotate_point_finite [OF assms(2) [unfolded xf]] by blast
  show ?thesis
    using assms(2,3) unfolding xf f by (rule rotate_point_isometry)
qed


definition gm_example :: card where
  "gm_example = plain_card ''GM'' [0, 0, 0, 0, 0, 1, 2, 3] ''GM 0 0 0 0 0 1 2 3''"

lemma gm_example_moves:
  assumes "\<bar>x\<bar> \<le> 10" "\<bar>y\<bar> \<le> 10" "\<bar>z\<bar> \<le> 10"
  shows "\<exists>xf. gm_transform gm_example = Inr xf \<and> xf (Fin x, Fin y, Fin z) = (Fin (x + 1), Fin (y + 2), Fin (z + 3))"
proof -
  have big: "fval v = Fin v" if "\<bar>v\<bar> \<le> 100" for v
    by (rule fval_literal) (use that in simp)
  have zero: "Fin 0 * deg = Fin 0"
    by (simp add: deg_def flt_ops_Fin big)
  have trig: "fsin (Fin 0) = Fin 0" "fcos (Fin 0) = Fin 1"
    by (simp_all add: fsin_def fcos_def)
  have fv: "fval x = Fin x" "fval y = Fin y" "fval z = Fin z" "fval (x + 1) = Fin (x + 1)" "fval (y + 2) = Fin (y + 2)"
    "fval (z + 3) = Fin (z + 3)"
    by (rule big; use assms in linarith)+
  have "rotate_point (Fin 0) (Fin 0) (Fin 0) (Fin 1, Fin 2, Fin 3) (Fin x, Fin y, Fin z) =
      (Fin (x + 1), Fin (y + 2), Fin (z + 3))"
    by (simp add: rotate_point_def Let_def trig flt_ops_Fin big fv)
  then show ?thesis
    by (simp add: gm_transform_def Let_def gm_example_def zero is_inf_def)
qed

theorem gm_motion_is_rigid_witness:
  "((1 - 1)\<^sup>2 + (2 - 2)\<^sup>2 + (4 - 7)\<^sup>2 :: real) = (0 - 0)\<^sup>2 + (0 - 0)\<^sup>2 + (1 - 4)\<^sup>2"
proof -
  obtain xf where "gm_transform gm_example = Inr xf" "xf (Fin 0, Fin 0, Fin 1) = (Fin 1, Fin 2, Fin 4)"
    using gm_example_moves [of 0 0 1] by auto
  moreover from this have "xf (Fin 0, Fin 0, Fin 4) = (Fin 1, Fin 2, Fin 7)"
    using gm_example_moves [of 0 0 4] by auto
  ultimately show ?thesis
    by (rule gm_motion_is_rigid)
qed

text \<open>An arc of n segments has n + 1 vertices, all in the XZ plane, and, where none overflows, all
  at the arc's radius from the origin.\<close>

theorem arc_on_circle:
  assumes "arc_vertices c d = Inr vs" "card_i c 1 = Inr n" "card_f c 2 = Fin r"
  shows "int (length vs) = n + 1 \<and>
    (\<forall>(x, y, z) \<in> set vs. y = Fin 0 \<and> (\<forall>x' z'. x = Fin x' \<and> z = Fin z' \<longrightarrow> x'\<^sup>2 + z'\<^sup>2 = r\<^sup>2))"
proof -
  let ?step = "(card_f c 4 - card_f c 3) * deg / fint n" and ?start = "card_f c 3 * deg"
  have n: "1 \<le> n" and vs: "vs = map (\<lambda>k. (Fin r * fcos (?start + fint k * ?step), Fin 0,
      Fin r * fsin (?start + fint k * ?step))) [0..n]"
    using assms by (auto simp: arc_vertices_def Let_def okE)
  have circle: "x'\<^sup>2 + z'\<^sup>2 = r\<^sup>2" if t: "Fin r * fcos t = Fin x'" "Fin r * fsin t = Fin z'" for t x' z'
  proof -
    obtain u where u: "t = Fin u"
      using t by (cases t) (auto simp: fcos_def times_Fin)
    then have "x' = r * cos u" "z' = r * sin u"
      using t u by (auto simp: fcos_def fsin_def times_Fin)
    then show ?thesis
      using sin_cos_squared_add [of u] by algebra
  qed
  show ?thesis
    using n circle by (auto simp: vs)
qed

definition ga_example :: card where
  "ga_example = plain_card ''GA'' [1, 2, 1, 0, 90, 1 / 100] ''GA 1 2 1 0 90 .01''"

theorem arc_on_circle_witness:
  "\<exists>vs. arc_vertices ga_example Nec2 = Inr vs \<and> length vs = 3 \<and>
     (\<forall>(x, y, z) \<in> set vs. y = Fin 0)"
proof -
  have f: "card_i ga_example 1 = Inr 2" "card_f ga_example 2 = Fin 1"
    by (simp_all add: ga_example_def int_of_plain)
  obtain vs where vs: "arc_vertices ga_example Nec2 = Inr vs"
    by (simp add: arc_vertices_def ga_example_def int_of_plain Let_def flt_ops_Fin fval_literal)
  from arc_on_circle [OF this f] have "length vs = 3" "\<forall>(x, y, z) \<in> set vs. y = Fin 0"
    by auto
  with vs show ?thesis by blast
qed

end
