(* ===== verification/Card_Text.thy ===== *)
theory Card_Text
  imports Cards
begin

text \<open>
  Writing a card of integers as a line and reading it back.
\<close>

definition show_digit :: "nat \<Rightarrow> char" where
  "show_digit d = char_of (48 + d)"

fun show_nat :: "nat \<Rightarrow> string" where
  "show_nat n = (if n < 10 then [show_digit n] else show_nat (n div 10) @ [show_digit (n mod 10)])"

declare show_nat.simps [simp del]

definition show_int :: "int \<Rightarrow> string" where
  "show_int i = (if i < 0 then CHR ''-'' # show_nat (nat (- i)) else show_nat (nat i))"

definition deck_line :: "string \<Rightarrow> int list \<Rightarrow> string" where
  "deck_line m ns = m @ concat (map (\<lambda>i. CHR '' '' # show_int i) ns)"

lemma show_digit: "d < 10 \<Longrightarrow> is_digit (show_digit d) \<and> digit_val (show_digit d) = d"
  by (simp add: is_digit_def digit_val_def show_digit_def)

lemma show_nat_digits: "list_all is_digit (show_nat n) \<and> show_nat n \<noteq> []"
  by (induction n rule: show_nat.induct) (subst (1 2) show_nat.simps, simp add: show_digit)

lemma show_nat_value: "foldl (\<lambda>a d. 10 * a + digit_val d) 0 (show_nat n) = n"
  by (induction n rule: show_nat.induct) (subst show_nat.simps, simp add: show_digit)

lemma digit_codes: "is_digit c \<Longrightarrow> c \<noteq> CHR ''-'' \<and> c \<noteq> CHR ''+'' \<and> c \<noteq> CHR ''.'' \<and> c \<noteq> CHR '','' \<and>
    c \<noteq> CHR ''d'' \<and> c \<noteq> CHR ''D'' \<and> c \<noteq> CHR ''_'' \<and> c \<noteq> CHR ''i'' \<and> c \<noteq> CHR ''n'' \<and> to_lower c = c"
  by (auto simp: is_digit_def to_lower_def is_upper_def)

lemma read_number_nat: "read_number (show_nat n) = Some (of_nat n)"
proof -
  have "read_digits 0 0 (show_nat n @ []) = (n, length (show_nat n), [])"
    using read_digits_append [of "show_nat n" "[]" 0 0] show_nat_digits [of n] show_nat_value [of n] by simp
  then show ?thesis
    using show_nat_digits [of n] by (simp add: read_number_def read_exponent_def scale10_def)
qed

lemma lower_digits: "list_all is_digit s \<Longrightarrow> lower s = s"
  by (induction s) (auto simp: lower_def digit_codes)

lemma py_float_int: "py_float (show_int i) = Some (fval (of_int i))"
proof -
  have nat: "\<exists>c cs. show_nat n = c # cs \<and> is_digit c" "lower (show_nat n) = show_nat n" for n
    using show_nat_digits [of n] by (auto simp: lower_digits list_all_iff neq_Nil_conv)
  have named: "lower (show_nat n) \<noteq> ''inf''" "lower (show_nat n) \<noteq> ''infinity''" "lower (show_nat n) \<noteq> ''nan''" for n
    unfolding nat(2) using nat(1) [of n] digit_codes by fastforce+
  show ?thesis
  proof (cases "i < 0")
    case True
    then show ?thesis
      using named [of "nat (- i)"] read_number_nat [of "nat (- i)"]
      by (simp add: show_int_def py_float_def)
  next
    case False
    obtain c cs where c: "show_nat (nat i) = c # cs" "is_digit c"
      using nat(1) by blast
    then have "read_sign (show_nat (nat i)) = (False, show_nat (nat i))"
      using digit_codes [OF c(2)] by simp
    with False named [of "nat i"] read_number_nat [of "nat i"] show ?thesis
      by (simp add: show_int_def py_float_def)
  qed
qed

lemma show_int_chars: "c \<in> set (show_int i) \<Longrightarrow> is_digit c \<or> c = CHR ''-''"
  using show_nat_digits [of "nat i"] show_nat_digits [of "nat (- i)"]
  by (auto simp: show_int_def list_all_iff split: if_splits)

lemma show_int_nonempty: "show_int i \<noteq> []"
  using show_nat_digits [of "nat i"] by (simp add: show_int_def)

lemma replace_char_absent: "a \<notin> set s \<Longrightarrow> replace_char a b s = s"
  by (induction s) (auto simp: replace_char_def)

lemma to_float_int: "to_float (show_int i) = Some (fval (of_int i))"
proof -
  have "CHR ''D'' \<notin> set (show_int i)" "CHR ''d'' \<notin> set (show_int i)"
    using show_int_chars digit_codes by fastforce+
  then show ?thesis
    by (simp add: to_float_def replace_char_absent py_float_int)
qed

lemma minus_not_space: "\<not> is_space CHR ''-''" "is_space CHR '' ''"
  by (simp_all add: is_space_def)

lemma show_int_no_space: "list_all (\<lambda>c. \<not> is_space c) (show_int i)"
  using show_int_chars digit_not_space minus_not_space by (fastforce simp: list_all_iff)

lemma split_fields: "split_ws (concat (map (\<lambda>i. CHR '' '' # show_int i) ns)) = map show_int ns"
proof (induction ns)
  case (Cons i ns)
  let ?rest = "concat (map (\<lambda>i. CHR '' '' # show_int i) ns)"
  have "?rest = [] \<or> is_space (hd ?rest)"
    by (cases ns) (simp_all add: minus_not_space)
  then have "split_ws (show_int i @ ?rest) = show_int i # split_ws ?rest"
    by (rule split_ws_token [OF show_int_nonempty show_int_no_space])
  with Cons show ?case
    by (simp add: split_ws_space minus_not_space)
qed simp

lemma alpha_codes: "is_alpha c \<Longrightarrow> c \<noteq> CHR '','' \<and> \<not> is_space c \<and> of_char c \<noteq> (10 :: nat)"
  using alpha_not_space by (auto simp: is_alpha_def is_upper_def is_lower_def)

lemma deck_line_split:
  assumes "isalpha m"
  shows "split_ws (deck_line m ns) = m # map show_int ns"
proof -
  let ?rest = "concat (map (\<lambda>i. CHR '' '' # show_int i) ns)"
  have "?rest = [] \<or> is_space (hd ?rest)"
    by (cases ns) (simp_all add: minus_not_space)
  moreover have "m \<noteq> []" "list_all (\<lambda>c. \<not> is_space c) m"
    using assms alpha_codes by (auto simp: isalpha_def list_all_iff)
  ultimately show ?thesis
    using split_ws_token [of m ?rest] by (simp add: deck_line_def split_fields)
qed

lemma deck_line_ends:
  assumes "isalpha m"
  shows "\<not> is_space (hd (deck_line m ns))" "\<not> is_space (last (deck_line m ns))" "deck_line m ns \<noteq> []"
    "CHR '','' \<notin> set (deck_line m ns)"
proof -
  have m: "m \<noteq> []" "\<forall>c \<in> set m. c \<noteq> CHR '','' \<and> \<not> is_space c"
    using assms alpha_codes by (auto simp: isalpha_def list_all_iff)
  then show "\<not> is_space (hd (deck_line m ns))" "deck_line m ns \<noteq> []"
    by (auto simp: deck_line_def hd_append)
  show "\<not> is_space (last (deck_line m ns))"
  proof (cases ns rule: rev_cases)
    case Nil
    with m show ?thesis by (auto simp: deck_line_def)
  next
    case (snoc is' i)
    have "last (deck_line m ns) = last (show_int i)"
      using show_int_nonempty [of i] by (simp add: deck_line_def snoc last_append)
    moreover have "last (show_int i) \<in> set (show_int i)"
      using show_int_nonempty by simp
    ultimately show ?thesis
      using show_int_no_space [of i] by (simp add: list_all_iff)
  qed
  have "CHR '','' \<notin> set (show_int i)" for i
    using show_int_chars digit_codes by fastforce
  with m show "CHR '','' \<notin> set (deck_line m ns)"
    by (auto simp: deck_line_def)
qed

lemma strip_plain:
  assumes "s \<noteq> []" "\<not> is_space (hd s)" "\<not> is_space (last s)"
  shows "strip s = s"
proof -
  have "dropWhile is_space s = s"
    using assms(1,2) by (cases s) auto
  moreover have "dropWhile is_space (rev s) = rev s"
    using assms(1,3) by (cases s rule: rev_cases) auto
  ultimately show ?thesis
    by (simp add: strip_def)
qed

lemma rstrip_plain: "s \<noteq> [] \<Longrightarrow> \<not> is_space (last s) \<Longrightarrow> rstrip_nl s = s"
  by (cases s rule: rev_cases) (auto simp: rstrip_nl_def is_space_def Let_def)

lemma parse_deck_line:
  assumes "length m = 2" "list_all is_upper m" "m \<notin> {''CM'', ''CE''}"
  shows "parse_card (deck_line m ns) =
    Inr (Some \<lparr>mnemonic = m, vals = map (\<lambda>i. fval (of_int i)) ns, raw = deck_line m ns, trailer = None\<rparr>)"
proof -
  have alpha: "isalpha m"
    using assms(1,2) is_alpha_upper by (auto simp: isalpha_def list_all_iff)
  note ends = deck_line_ends [OF alpha, of ns]
  have strip: "strip (deck_line m ns) = deck_line m ns" "rstrip_nl (deck_line m ns) = deck_line m ns"
    using strip_plain rstrip_plain ends by blast+
  have tokens: "unfuse (split_ws (replace_char CHR '','' CHR '' '' (deck_line m ns))) = m # map show_int ns"
    using deck_line_split [OF alpha, of ns] replace_char_absent [OF ends(4)] assms(1) by (simp add: unfuse_def)
  have fields: "read_fields s (map show_int ns) = Inr (map (\<lambda>i. fval (of_int i)) ns)" for s
    by (rule read_fields_ok) (simp add: list_all2_conv_all_nth to_float_int)
  have "to_float (last (map show_int ns)) \<noteq> None" if "ns \<noteq> []"
    using that by (simp add: last_map to_float_int)
  then have named: "(m = ''GN'' \<and> map show_int ns \<noteq> [] \<and> to_float (last (map show_int ns)) = None) = False"
    by auto
  show ?thesis
    using assms alpha ends(3) unfolding parse_card_def Let_def strip tokens list.case upper_upper [OF assms(2)]
      named if_False
    by (simp add: fields)
qed

end
