(* ===== verification/Card_Properties.thy ===== *)
theory Card_Properties
  imports Card_Text Example_Deck
begin

text \<open>
  The properties of a card line and of the values a card makes: loads, wires and points
  along them.
\<close>

text \<open>C39: A card of integers that floats represent exactly reads back.  Take a mnemonic of two capitals other than the
  comment cards CM and CE, and any list of integers, and write the line: the mnemonic, then the
  integers in decimal, separated by blanks.  parse_card makes a card of that line with
  the mnemonic, as many fields as integers and no trailer, and card_i gives back every integer of
  magnitude at most 2 to the 53.  (A field is read as a double, so a larger one may be rounded.)\<close>

theorem integer_card_roundtrip:
  assumes "length m = 2" "list_all is_upper m" "m \<notin> {''CM'', ''CE''}"
  shows "\<exists>c. parse_card (deck_line m ns) = Inr (Some c) \<and> mnemonic c = m \<and> trailer c = None \<and>
    raw c = deck_line m ns \<and> length (vals c) = length ns \<and>
    (\<forall>k < length ns. \<bar>ns ! k\<bar> \<le> 2 ^ 53 \<longrightarrow> card_i c k = Inr (ns ! k))"
proof -
  have fv: "fval (of_int i) = Fin (of_int i)" if "\<bar>i\<bar> \<le> 2 ^ 53" for i :: int
  proof -
    have "\<bar>real_of_int i\<bar> \<le> real_of_int (2 ^ 53)"
      unfolding of_int_abs [symmetric] of_int_le_iff by (rule that)
    also have "real_of_int (2 ^ 53) < flt_limit"
      by (simp add: flt_limit_def)
    finally show ?thesis
      by simp
  qed
  have "card_i \<lparr>mnemonic = m, vals = map (\<lambda>i. fval (of_int i)) ns, raw = l, trailer = None\<rparr> k = Inr (ns ! k)"
    if "k < length ns" "\<bar>ns ! k\<bar> \<le> 2 ^ 53" for k l
    using that fv [OF that(2)] by (simp only: card_i_def card_f_def card.simps length_map nth_map if_True flt.case round_even_of_int)
  with parse_deck_line [OF assms] show ?thesis by simp
qed

theorem integer_card_roundtrip_witness:
  "\<exists>c. parse_card (deck_line ''LD'' [4, -1, 20]) = Inr (Some c) \<and> card_i c 1 = Inr (- 1) \<and> card_i c 2 = Inr 20"
proof -
  obtain c where "parse_card (deck_line ''LD'' [4, -1, 20]) = Inr (Some c)"
    "\<forall>k < 3. \<bar>[4, -1, 20] ! k\<bar> \<le> (2 :: int) ^ 53 \<longrightarrow> card_i c k = Inr ([4, -1, 20] ! k)"
    using integer_card_roundtrip [of "''LD''" "[4, -1, 20]"] by (auto simp: is_upper_def)
  then show ?thesis
    by (intro exI [of _ c]) (auto simp: All_less_Suc numeral_3_eq_3 numeral_2_eq_2)
qed

text \<open>Whatever the line, a card read from it has a mnemonic of two capital letters, keeps the
  line, has a trailer only when it is a GN and no fields when it is a comment; and a line gives no
  card exactly when it is blank.\<close>

theorem cards_are_shaped:
  "(case parse_card line of
      Inr (Some c) \<Rightarrow> length (mnemonic c) = 2 \<and> list_all is_upper (mnemonic c) \<and> raw c = rstrip_nl line \<and>
        (trailer c = None \<or> mnemonic c = ''GN'') \<and> (mnemonic c \<in> {''CM'', ''CE''} \<longrightarrow> vals c = [])
    | Inr None \<Rightarrow> strip line = []
    | Inl e \<Rightarrow> strip line \<noteq> [])"
  using parse_card_shape [of line] parse_card_blank [of line]
  by (cases "parse_card line") (auto split: option.split)

theorem cards_are_shaped_witness:
  "length (mnemonic gw_example) = 2 \<and> raw gw_example = rstrip_nl gw_line"
  using cards_are_shaped [of gw_line] by (simp add: parse_gw)

text \<open>The check on a GW card never raises, and passes exactly the cards whose nine fields are
  finite numbers and whose segment count is within the limit.\<close>

theorem gw_check_exact:
  "(\<exists>why. gw_field_refusal c = Inr why) \<and>
   (gw_field_refusal c = Inr None \<longleftrightarrow>
     (\<forall>k < 9. is_fin (card_f c k)) \<and> (\<exists>n \<le> 10000000. card_i c 1 = Inr n))"
  using gw_field_refusal_total [of c] gw_field_refusal_None [of c] by (simp add: max_wire_segments_def)

theorem gw_check_exact_witness:
  "gw_field_refusal gw_example = Inr None \<and> gw_field_refusal (gw_example\<lparr>vals := [Fin 1, PInf]\<rparr>) \<noteq> Inr None"
proof
  have "\<forall>k < 9. is_fin (card_f gw_example k)"
    by (simp add: gw_example_def card_f_def plain_card_def eval_nat_numeral All_less_Suc)
  moreover have "card_i gw_example 1 = Inr 3"
    by (simp add: gw_example_def int_of_plain)
  ultimately show "gw_field_refusal gw_example = Inr None"
    using gw_check_exact [of gw_example] by auto
  show "gw_field_refusal (gw_example\<lparr>vals := [Fin 1, PInf]\<rparr>) \<noteq> Inr None"
    using gw_check_exact [of "gw_example\<lparr>vals := [Fin 1, PInf]\<rparr>"]
    by (auto simp: card_f_def intro!: exI [of _ 1])
qed

text \<open>A load of a non-negative resistance is passive at every frequency: its impedance, where it
  is finite, has no negative real part, whatever its reactances.\<close>

theorem loads_are_passive:
  assumes "load_impedance s f = Inr (ZFin z)" "0 \<le> real_of (ls_r s)"
  shows "0 \<le> Re z"
proof -
  consider "ls_kind s = ''fixed''" | "ls_kind s = ''series'' \<or> ls_kind s = ''parallel''"
    using assms(1) by (auto simp: load_impedance_def Let_def split: if_splits)
  then show ?thesis
  proof cases
    case 1
    then have "z = Complex (real_of (ls_r s)) (real_of (ls_x s))"
      using assms(1) by (simp add: load_impedance_def Let_def)
    with assms(2) show ?thesis by simp
  next
    case 2
    then have "z = 0 \<or> rlc_impedance (ls_kind s) (real_of (ls_r s)) (real_of (ls_l s)) (real_of (ls_c s)) (2 * pi * f) = Inr (ZFin z)"
      using assms(1) by (auto simp: load_impedance_def Let_def split: if_splits)
    with assms(2) rlc_passive show ?thesis by auto
  qed
qed

theorem loads_are_passive_witness:
  "load_impedance load_example 1 = Inr (ZFin (Complex 50 0)) \<and> 0 \<le> Re (Complex 50 0)"
proof -
  have "load_impedance load_example 1 = Inr (ZFin (Complex 50 0))"
    by (simp add: load_impedance_def load_example_def Let_def)
  with loads_are_passive [OF this] show ?thesis
    by (simp add: load_example_def)
qed

end
