(* ===== verification/Nec4_Curves.thy ===== *)
theory Nec4_Curves
  imports Geometry
begin

text \<open>
  \<open>src/src/momwire/deck/_nec4.py\<close>, first part: the geometry cards NEC-4.2 reads in its own
  way, the arc, the log-spiral helix and the catenary, each cut into one-segment wires.
\<close>

section \<open>The functions of \<open>math\<close> they use\<close>

definition fsinh :: "flt \<Rightarrow> pyexn + flt" where
  \<comment> \<open>\<open>math.sinh\<close>: a finite argument whose value overflows raises\<close>
  "fsinh x =
     (case x of
        Fin r \<Rightarrow> if \<bar>sinh r\<bar> < flt_limit then Inr (Fin (sinh r)) else Inl OverflowError
      | _ \<Rightarrow> Inr x)"

definition fcosh :: "flt \<Rightarrow> pyexn + flt" where
  "fcosh x =
     (case x of
        Fin r \<Rightarrow> if cosh r < flt_limit then Inr (Fin (cosh r)) else Inl OverflowError
      | NaN \<Rightarrow> Inr NaN
      | _ \<Rightarrow> Inr PInf)"

definition fasinh :: "flt \<Rightarrow> flt" where
  "fasinh x = (case x of Fin r \<Rightarrow> Fin (arsinh r) | _ \<Rightarrow> x)"

definition fhypot :: "flt \<Rightarrow> flt \<Rightarrow> flt" where
  "fhypot x y =
     (case (x, y) of
        (Fin a, Fin b) \<Rightarrow> fval (sqrt (a\<^sup>2 + b\<^sup>2))
      | _ \<Rightarrow> if is_inf x \<or> is_inf y then PInf else NaN)"

definition froot :: "flt \<Rightarrow> real \<Rightarrow> flt" where
  \<comment> \<open>\<open>x ** y\<close> of a number that is not negative, \<open>y\<close> between 0 and 1\<close>
  "froot x y =
     (if y = 0 then Fin 1
      else case x of Fin r \<Rightarrow> Fin (if r = 0 then 0 else r powr y) | _ \<Rightarrow> x)"

definition fpower :: "flt \<Rightarrow> nat \<Rightarrow> pyexn + flt" where
  \<comment> \<open>\<open>x ** k\<close> of a number that is not negative: a finite one that overflows raises\<close>
  "fpower x k =
     (case x of
        Fin r \<Rightarrow> if \<bar>r ^ k\<bar> < flt_limit then Inr (Fin (r ^ k)) else Inl OverflowError
      | _ \<Rightarrow> Inr (if k = 0 then Fin 1 else x))"

section \<open>GA: the arc\<close>

definition nec4_arc_vertices :: "card \<Rightarrow> pyexn + point list" where
  "nec4_arc_vertices c = arc_vertices c Nec4"

definition nec4_ga :: builder where
  "nec4_ga c ws =
     bindE (nec4_arc_vertices c) (\<lambda>vs.
     bindE (card_i c 0) (\<lambda>tag. Inr (ws @ chords tag (card_f c 5) vs)))"

section \<open>GH: the log-spiral or helix\<close>

definition spiral_point :: "int \<Rightarrow> flt \<Rightarrow> flt \<Rightarrow> flt \<Rightarrow> flt \<Rightarrow> nat \<Rightarrow> pyexn + point" where
  \<comment> \<open>the body of \<open>helix_vertices\<close>' loop: vertex \<open>k\<close>\<close>
  "spiral_point n_seg zlen r1 q step k =
     bindE (fpower q k) (\<lambda>qk.
       let rho = r1 * qk; a = fint (int k) * step in
       bindE (if feq q (Fin 1) then Inr (zlen * fint (int k) / fint n_seg)
              else bindE (fpower q (nat n_seg)) (\<lambda>qn.
                     if feq (Fin 1 - qn) (Fin 0) then Inl ZeroDivisionError
                     else Inr (zlen * (Fin 1 - qk) / (Fin 1 - qn)))) (\<lambda>z.
         Inr (rho * fcos a, rho * fsin a, z)))"

definition helix_vertices :: "card \<Rightarrow> pyexn + point list" where
  "helix_vertices c =
     bindE (card_i c 1) (\<lambda>n_seg.
     let turns = card_f c 2; zlen = card_f c 3; r1 = card_f c 4; r2 = card_f c 5 in
     bindE (guardE (n_seg < 1) (nec4_error (Gh4SegmentCount n_seg))) (\<lambda>_.
     bindE (guardE (feq turns (Fin 0)) (nec4_error Gh4NoTurns)) (\<lambda>_.
     bindE (guardE (r1 \<le> Fin 0 \<or> r2 \<le> Fin 0) (nec4_error (Gh4HelixRadius r1 r2))) (\<lambda>_.
     bindE (guardE (card_f c 6 \<le> Fin 0 \<or> card_f c 7 \<le> Fin 0)
                   (nec4_error (Gh4WireRadius (card_f c 6) (card_f c 7)))) (\<lambda>_.
       let q = froot (r2 / r1) (1 / of_int n_seg);
           step = Fin (2 * pi) * turns / fint n_seg in
       bindE (guardE (is_inf step) (DeckError (infinite_angle_refusal (mnemonic c)))) (\<lambda>_.
         mapE (spiral_point n_seg zlen r1 q step) [0..<nat n_seg + 1]))))))"

definition helix_wire_radii :: "card \<Rightarrow> pyexn + flt list" where
  "helix_wire_radii c =
     bindE (card_i c 1) (\<lambda>n_seg.
       let w1 = card_f c 6; w2 = card_f c 7 in
       Inr (if n_seg = 1 then [w1]
            else map (\<lambda>k. w1 * froot (w2 / w1) (of_nat k / (of_int n_seg - 1))) [0..<nat n_seg]))"

definition tapered_chords :: "int \<Rightarrow> flt list \<Rightarrow> point list \<Rightarrow> flat_wire list" where
  \<comment> \<open>the chords, each at its own radius\<close>
  "tapered_chords tag radii vs =
     map (\<lambda>((a, b), r). \<lparr>fw_tag = tag, fw_n_seg = 1, fw_p1 = a, fw_p2 = b, fw_radius = r\<rparr>)
       (zip (zip vs (tl vs)) radii)"

definition nec4_gh :: builder where
  "nec4_gh c ws =
     bindE (helix_vertices c) (\<lambda>vs. bindE (helix_wire_radii c) (\<lambda>radii.
     bindE (card_i c 0) (\<lambda>tag. Inr (ws @ tapered_chords tag radii vs))))"

section \<open>CW: the catenary\<close>

definition cw_kd_max :: flt where
  "cw_kd_max = Fin 600"

definition sinhc :: "flt \<Rightarrow> pyexn + flt" where
  "sinhc x = (if feq x (Fin 0) then Inr (Fin 1) else bindE (fsinh x) (\<lambda>s. Inr (s / x)))"

definition cw_shape :: "flt \<Rightarrow> flt \<Rightarrow> flt \<Rightarrow> pyexn + flt \<times> flt" where
  \<comment> \<open>\<open>half\<close> and \<open>c\<close>, which the two closures of \<open>_cw_shape\<close> share\<close>
  "cw_shape k d h =
     (let half = Fin (1 / 2) * k * d in
      bindE (sinhc half) (\<lambda>q. Inr (half, fasinh (h / (d * q)))))"

definition cw_z :: "flt \<Rightarrow> flt \<times> flt \<Rightarrow> flt \<Rightarrow> pyexn + flt" where
  "cw_z k shape u =
     bindE (fsinh (Fin (1 / 2) * k * u - fst shape + snd shape)) (\<lambda>s.
     bindE (sinhc (Fin (1 / 2) * k * u)) (\<lambda>q. Inr (u * s * q)))"

definition cw_s :: "flt \<Rightarrow> flt \<times> flt \<Rightarrow> flt \<Rightarrow> pyexn + flt" where
  "cw_s k shape u =
     bindE (fcosh (Fin (1 / 2) * k * u - fst shape + snd shape)) (\<lambda>s.
     bindE (sinhc (Fin (1 / 2) * k * u)) (\<lambda>q. Inr (u * s * q)))"

fun bisect_loop :: "nat \<Rightarrow> (flt \<Rightarrow> pyexn + flt) \<Rightarrow> flt \<Rightarrow> flt \<Rightarrow> flt \<Rightarrow> pyexn + flt \<times> flt" where
  \<comment> \<open>the midpoint is exact here, so the exit where it equals an end is not taken as in doubles,
     where it rounds to an end once the two are adjacent\<close>
  "bisect_loop 0 f lo f_lo hi = Inr (lo, hi)"
| "bisect_loop (Suc n) f lo f_lo hi =
     (let mid = Fin (1 / 2) * (lo + hi) in
      if feq mid lo \<or> feq mid hi then Inr (lo, hi)
      else bindE (f mid) (\<lambda>f_mid.
        if (Fin 0 < f_mid) = (Fin 0 < f_lo) then bisect_loop n f mid f_mid hi
        else bisect_loop n f lo f_lo mid))"

definition bisect :: "(flt \<Rightarrow> pyexn + flt) \<Rightarrow> flt \<Rightarrow> flt \<Rightarrow> pyexn + flt" where
  "bisect f lo hi =
     bindE (f lo) (\<lambda>f_lo.
     bindE (bisect_loop 200 f lo f_lo hi) (\<lambda>(lo, hi). Inr (Fin (1 / 2) * (lo + hi))))"

definition trial_k :: "flt \<Rightarrow> flt \<Rightarrow> int \<Rightarrow> flt" where
  "trial_k sign d j = sign * (cw_kd_max / d) * Fin (10 powr (of_int j / 25))"

fun scan_k ::
  "(flt \<Rightarrow> pyexn + flt) \<Rightarrow> flt list \<Rightarrow> (flt \<times> flt) option \<Rightarrow> pyexn + flt option" where
  \<comment> \<open>the inner loop of \<open>_cw_solve_k\<close>, with \<open>prev_k\<close> and \<open>prev_g\<close>\<close>
  "scan_k g [] prev = Inr None"
| "scan_k g (k # ks) prev =
     (case g k of
        Inl OverflowError \<Rightarrow> scan_k g ks prev
      | Inl e \<Rightarrow> Inl e
      | Inr gk \<Rightarrow>
          if \<not> feq gk gk then scan_k g ks prev
          else if feq gk (Fin 0) then Inr (Some k)
          else case prev of
            Some (prev_k, prev_g) \<Rightarrow>
              if (Fin 0 < gk) \<noteq> (Fin 0 < prev_g)
              then bindE (bisect g prev_k k) (\<lambda>r. Inr (Some r))
              else scan_k g ks (Some (k, gk))
          | None \<Rightarrow> scan_k g ks (Some (k, gk)))"

fun cw_solve_k :: "(flt \<Rightarrow> pyexn + flt) \<Rightarrow> flt \<Rightarrow> flt list \<Rightarrow> pyexn + flt option" where
  "cw_solve_k g d [] = Inr None"
| "cw_solve_k g d (sign # signs) =
     bindE (scan_k g (map (trial_k sign d) [-400..0]) None) (\<lambda>r.
       case r of Some k \<Rightarrow> Inr (Some k) | None \<Rightarrow> cw_solve_k g d signs)"

declare cw_solve_k.simps [simp del]

definition straight_line :: "int \<Rightarrow> point \<Rightarrow> point \<Rightarrow> point list" where
  "straight_line n_seg p1 p2 =
     (case (p1, p2) of ((x1, y1, z1), (x2, y2, z2)) \<Rightarrow>
        map (\<lambda>i. (x1 + (x2 - x1) * fint i / fint n_seg, y1 + (y2 - y1) * fint i / fint n_seg,
                  z1 + (z2 - z1) * fint i / fint n_seg)) [0..n_seg])"

definition cw_length_gap :: "flt \<Rightarrow> flt \<Rightarrow> flt \<Rightarrow> flt \<Rightarrow> pyexn + flt" where
  \<comment> \<open>the function \<open>g\<close> of ICAT 3\<close>
  "cw_length_gap d h rhm k =
     bindE (cw_shape k d h) (\<lambda>shape. bindE (cw_s k shape d) (\<lambda>s. Inr (s - rhm)))"

definition cw_sag_gap :: "flt \<Rightarrow> flt \<Rightarrow> flt \<Rightarrow> flt \<Rightarrow> flt \<Rightarrow> pyexn + flt" where
  \<comment> \<open>the function \<open>g\<close> of ICAT 1 and 2\<close>
  "cw_sag_gap d h rhm sag k =
     bindE (cw_shape k d h) (\<lambda>shape. bindE (cw_z k shape rhm) (\<lambda>z. Inr (h * rhm / d - z - sag)))"

definition cw_stations :: "int \<Rightarrow> flt \<Rightarrow> flt \<Rightarrow> flt \<times> flt \<Rightarrow> pyexn + flt list" where
  \<comment> \<open>the horizontal distances \<open>us[1:-1]\<close> of the inner vertices\<close>
  "cw_stations n_seg d k shape =
     (if Fin 0 < k
      then bindE (cw_s k shape d) (\<lambda>total.
             mapE (\<lambda>i. let target = total * fint i / fint n_seg in
                     bisect (\<lambda>u. bindE (cw_s k shape u) (\<lambda>s. Inr (s - target))) (Fin 0) d)
               [1..n_seg - 1])
      else Inr (map (\<lambda>i. d * fint i / fint n_seg) [1..n_seg - 1]))"

definition cw_curve ::
  "int \<Rightarrow> point \<Rightarrow> point \<Rightarrow> flt \<Rightarrow> flt \<Rightarrow> flt \<Rightarrow> pyexn + point list \<times> flt" where
  \<comment> \<open>the end of \<open>_catenary\<close>: the vertices on the curve of curvature \<open>k\<close>, and its length\<close>
  "cw_curve n_seg p1 p2 d h k =
     (case (p1, p2) of ((x1, y1, z1), (x2, y2, z2)) \<Rightarrow>
        let ex = (x2 - x1) / d; ey = (y2 - y1) / d in
        bindE (cw_shape k d h) (\<lambda>shape.
        bindE (cw_stations n_seg d k shape) (\<lambda>us.
        bindE (mapE (\<lambda>u. bindE (cw_z k shape u) (\<lambda>z. Inr (x1 + ex * u, y1 + ey * u, z1 + z))) us) (\<lambda>inner.
        bindE (cw_s k shape d) (\<lambda>len.
          Inr (p1 # inner @ [p2], len))))))"

definition catenary :: "card \<Rightarrow> pyexn + point list \<times> flt" where
  "catenary c =
     bindE (card_i c 1) (\<lambda>n_seg.
     let x1 = card_f c 2; y1 = card_f c 3; z1 = card_f c 4;
         x2 = card_f c 5; y2 = card_f c 6; z2 = card_f c 7;
         radius = card_f c 8; icat = card_f c 9; rhm = card_f c 10; zm = card_f c 11;
         p1 = (x1, y1, z1); p2 = (x2, y2, z2) in
     bindE (guardE (n_seg < 1) (nec4_error (CwSegmentCount n_seg))) (\<lambda>_.
     bindE (guardE (radius \<le> Fin 0) (nec4_error (CwWireRadius radius))) (\<lambda>_.
     bindE (guardE (\<not> feq icat (Fin 1) \<and> \<not> feq icat (Fin 2) \<and> \<not> feq icat (Fin 3))
                   (nec4_error (CwKind icat))) (\<lambda>_.
     let h = z2 - z1; d = fhypot (x2 - x1) (y2 - y1) in
     bindE (guardE (feq d (Fin 0)) (nec4_error CwNoSpan)) (\<lambda>_.
     if feq icat (Fin 3) \<and> rhm \<le> fhypot d h
     then Inr (straight_line n_seg p1 p2, fdist p1 p2)
     else
     bindE (if feq icat (Fin 3) then cw_solve_k (cw_length_gap d h rhm) d [Fin 1]
            else bindE (guardE (feq rhm (Fin 0) \<or> feq rhm d) (nec4_error (CwAtEnd rhm))) (\<lambda>_.
              let sag = (if feq icat (Fin 2) then zm else z1 + h * rhm / d - zm) in
              bindE (guardE (feq sag (Fin 0)) (nec4_error CwOnLine)) (\<lambda>_.
                let side = (if sag < Fin 0 then Fin (-1) else Fin 1);
                    signs = (if Fin 0 < rhm \<and> rhm < d then [side] else [- side, side])
                in cw_solve_k (cw_sag_gap d h rhm sag) d signs))) (\<lambda>found.
     case found of
       None \<Rightarrow> Inl (nec4_error (CwNoFit icat rhm zm))
     | Some k \<Rightarrow> cw_curve n_seg p1 p2 d h k))))))"

definition catenary_vertices :: "card \<Rightarrow> pyexn + point list" where
  "catenary_vertices c = bindE (catenary c) (\<lambda>(vs, _). Inr vs)"

definition catenary_length :: "card \<Rightarrow> pyexn + flt" where
  "catenary_length c = bindE (catenary c) (\<lambda>(_, len). Inr len)"

definition nec4_cw :: builder where
  "nec4_cw c ws =
     bindE (catenary_vertices c) (\<lambda>vs.
     bindE (card_i c 0) (\<lambda>tag. Inr (ws @ chords tag (card_f c 8) vs)))"

definition nec4_builders :: "string \<Rightarrow> builder option" where
  "nec4_builders m =
     (if m = ''GA'' then Some nec4_ga else if m = ''GH'' then Some nec4_gh
      else if m = ''CW'' then Some nec4_cw else geometry_builders m)"

end
