(* ===== verification/Nec4.thy ===== *)
theory Nec4
  imports Nec2 Nec4_Curves
begin

text \<open>
  \<open>src/src/momwire/deck/_nec4.py\<close>, second part: the NEC-4.2 dialect.  Its parser is the
  nec2 one with one more attribute and the methods it overrides, each of which ends in its
  parent's where the source calls \<open>super()\<close>.
\<close>

record nec4_parser = parser +
  ps_source_kind :: "int \<times> int \<rightharpoonup> int"

definition ex_voltage :: int where
  "ex_voltage = 0"

definition ex_current :: int where
  "ex_current = 6"

definition ex_element :: int where
  "ex_element = 4"

definition ge_second :: "int list" where
  "ge_second = [0, -1]"

definition init_nec4_parser :: nec4_parser where
  "init_nec4_parser =
     parser.extend (init_parser\<lparr>ps_extended_kernel := True\<rparr>)
       \<lparr>ps_source_kind = Map.empty\<rparr>"

section \<open>The overridden methods\<close>

definition nec4_geometry :: "card \<Rightarrow> 'a parser_scheme \<Rightarrow> pyexn + 'a parser_scheme" where
  "nec4_geometry c p =
     bindE (if mnemonic c = ''GE''
            then bindE (card_i c 0) (\<lambda>flag.
                 bindE (guardE (flag \<notin> {-1, 0, 1}) (nec4_error (Ge4Flag flag))) (\<lambda>_.
                 bindE (card_i c 1) (\<lambda>second.
                   guardE (second \<notin> set ge_second) (nec4_error (Ge4Second second)))))
            else Inr ()) (\<lambda>_.
     geometry_card nec4_builders c p)"

definition nec4_near_coordinates :: "card \<Rightarrow> pyexn + int" where
  "nec4_near_coordinates c =
     bindE (card_i c 0) (\<lambda>k.
     bindE (guardE (k \<notin> {0, 1}) (nec4_error (Near4Coordinates (mnemonic c) k))) (\<lambda>_. Inr k))"

definition nec4_unarmed_execute :: "card \<Rightarrow> 'a parser_scheme \<Rightarrow> pyexn + unit" where
  "nec4_unarmed_execute c p =
     (if mnemonic c = ''RP'' then bindE (far_field c p) (\<lambda>_. Inr ())
      else if mnemonic c = ''NE'' \<or> mnemonic c = ''NH''
      then bindE (near_field nec4_near_coordinates c p) (\<lambda>_. Inr ())
      else Inr ())"

definition nec4_ek :: "card \<Rightarrow> 'a parser_scheme \<Rightarrow> pyexn + 'a parser_scheme" where
  "nec4_ek c p = Inr p"

definition nec4_ld :: "card \<Rightarrow> 'a parser_scheme \<Rightarrow> pyexn + 'a parser_scheme" where
  "nec4_ld c p =
     bindE (card_i c 0) (\<lambda>ldtyp.
     bindE (guardE (ldtyp \<in> {2, 3} \<and> \<not> feq (card_f c 6) (Fin 0))
                   (nec4_error (Ld4Capacitance ldtyp (card_f c 6)))) (\<lambda>_.
     ld_card nec4_builders c p))"

definition nec4_gn :: "card \<Rightarrow> 'a parser_scheme \<Rightarrow> pyexn + 'a parser_scheme" where
  "nec4_gn c0 p =
     (let c1 = c0\<lparr>trailer := None\<rparr> in
      bindE (card_i c1 0) (\<lambda>code.
      bindE (if code = 3
             then bindE (card_i c1 1) (\<lambda>nradl.
                  bindE (guardE (nradl \<noteq> 0) (nec4_error (Gn4RadialScreen nradl))) (\<lambda>_.
                    Inr (c1\<lparr>vals := Fin 2 # tl (vals c1)\<rparr>)))
             else Inr c1) (\<lambda>c.
      bindE (card_i c 0) (\<lambda>ground.
      bindE (guardE (ground \<in> {0, 2} \<and> card_f c 4 \<le> Fin 0)
                    (nec4_error (Gn4Permittivity code (card_f c 4)))) (\<lambda>_.
      gn_card c p)))))"

definition nec4_ex ::
  "card \<Rightarrow> 'b nec4_parser_scheme \<Rightarrow> pyexn + 'b nec4_parser_scheme" where
  "nec4_ex c p =
     bindE (card_i c 0) (\<lambda>ex_type.
     bindE (guardE (ex_type = ex_element) (nec4_error Ex4Element)) (\<lambda>_.
     bindE (guardE (ex_type \<noteq> ex_voltage \<and> ex_type \<noteq> ex_current)
                   (nec4_error (Ex4Type ex_type))) (\<lambda>_.
     bindE (card_i c 1) (\<lambda>tag. bindE (card_i c 2) (\<lambda>seg.
     let kind = (case ps_source_kind p (tag, seg) of None \<Rightarrow> ex_type | Some k \<Rightarrow> k);
         p1 = p\<lparr>ps_source_kind := (ps_source_kind p)((tag, seg) \<mapsto> kind)\<rparr> in
     bindE (guardE (kind \<noteq> ex_type) (nec4_error (Ex4TwoKinds ex_type tag seg kind))) (\<lambda>_.
     if ex_type = ex_voltage then ex_card c p1
     else
     let amps = (card_f c 4, card_f c 5) in
     bindE (guardE (feq (fst amps) (Fin 0) \<and> feq (snd amps) (Fin 0))
                   (nec4_error (Ex4ZeroCurrent tag seg))) (\<lambda>_.
       Inr (p1\<lparr>ps_saw_ex := True, ps_sources_stale := False,
               ps_sources := (if ps_sources_stale p1 then [] else ps_sources p1) @ [(tag, seg, amps)]\<rparr>))))))))"

definition nec4_hooks :: "'b nec4_parser_ext hooks" where
  "nec4_hooks =
     \<lparr>hk_geometry_mnemonics = geometry_cards @ [''CW''], hk_refused_by_name = refused_by_name,
      hk_builders = nec4_builders, hk_ld_run_transparent = ld_run_transparent @ [''EK''],
      hk_near_coordinates = nec4_near_coordinates, hk_unarmed_execute = nec4_unarmed_execute,
      hk_geometry = nec4_geometry, hk_gn = nec4_gn, hk_ex = nec4_ex,
      hk_ek = nec4_ek, hk_ld = nec4_ld\<rparr>"

section \<open>The model\<close>

definition port_order :: "'a parser_scheme \<Rightarrow> (int \<times> int) list" where
  \<comment> \<open>every group's addresses, first appearance first\<close>
  "port_order p = dedup (map (\<lambda>(tag, seg, _). (tag, seg)) (all_sources p))"

definition current_ports :: "(int \<times> int \<rightharpoonup> int) \<Rightarrow> (int \<times> int) list \<Rightarrow> pyexn + nat list" where
  "current_ports kinds order =
     bindE (mapE (lookupE kinds) order) (\<lambda>ks.
       Inr (map fst (filter (\<lambda>(i, k). k = ex_current) (enumerate 0 ks))))"

definition nec4_model :: "'b nec4_parser_scheme \<Rightarrow> pyexn + deck_model" where
  "nec4_model p =
     bindE (model nec4_hooks p) (\<lambda>m.
     bindE (current_ports (ps_source_kind p) (port_order p)) (\<lambda>current.
       Inr (m\<lparr>dm_current_feeds := (if current \<noteq> [] then current else dm_current_feeds m),
              dm_extended_kernel_default := True, dm_junction_rule := ''nec42''\<rparr>)))"

definition parse_nec4 :: "string \<Rightarrow> pyexn + deck_model" where
  "parse_nec4 deck =
     bindE (feed nec4_hooks deck init_nec4_parser) (\<lambda>p. nec4_model p)"

end
