(* ===== verification/Nec4_Laws.thy ===== *)
theory Nec4_Laws
  imports Nec4 Deck_Reading
begin

text \<open>
  The NEC-4.2 dialect meets the interfaces of the shared reader: its builders those of a
  geometry reader, its hooks those of a dialect and of a dialect whose handlers leave the
  run state alone.
\<close>

section \<open>What the curves can raise\<close>

lemma clean_fsinh [clean_rules]: "clean (fsinh x)"
  by (simp add: fsinh_def split: flt.split)

lemma clean_fcosh [clean_rules]: "clean (fcosh x)"
  by (simp add: fcosh_def split: flt.split)

lemma clean_fpower [clean_rules]: "clean (fpower x k)"
  by (simp add: fpower_def split: flt.split)

lemma clean_sinhc [clean_rules]: "clean (sinhc x)"
  unfolding sinhc_def by (intro clean_rules) auto

lemma clean_cw_shape [clean_rules]: "clean (cw_shape k d h)"
  unfolding cw_shape_def Let_def by (intro clean_rules) auto

lemma clean_cw_z [clean_rules]: "clean (cw_z k sh u)"
  unfolding cw_z_def by (intro clean_rules) auto

lemma clean_cw_s [clean_rules]: "clean (cw_s k sh u)"
  unfolding cw_s_def by (intro clean_rules) auto

lemma clean_bisect_loop: "(\<And>x. clean (f x)) \<Longrightarrow> clean (bisect_loop n f lo f_lo hi)"
  by (induction n f lo f_lo hi rule: bisect_loop.induct) (auto simp: Let_def intro!: clean_bind)

lemma clean_bisect [clean_rules]: "(\<And>x. clean (f x)) \<Longrightarrow> clean (bisect f lo hi)"
  unfolding bisect_def by (auto intro!: clean_bind clean_bisect_loop)

lemma clean_scan_k: "(\<And>x. clean (g x)) \<Longrightarrow> clean (scan_k g ks prev)"
proof (induction g ks prev rule: scan_k.induct)
  case (2 g k ks prev)
  then have "\<not> internal e" if "g k = Inl e" for e
    using that by (metis clean_Inl)
  with 2 show ?case
    by (auto split: sum.split pyexn.split option.split intro!: clean_bind clean_bisect)
qed simp

lemma clean_cw_solve_k [clean_rules]: "(\<And>x. clean (g x)) \<Longrightarrow> clean (cw_solve_k g d signs)"
  by (induction g d signs rule: cw_solve_k.induct)
     (auto split: option.split intro!: clean_bind clean_scan_k simp: cw_solve_k.simps)

lemma clean_cw_gaps [clean_rules]:
  "clean (cw_length_gap d h r k)" "clean (cw_sag_gap d h r t k)"
  unfolding cw_length_gap_def cw_sag_gap_def by (intro clean_rules; simp)+

lemma clean_cw_stations [clean_rules]: "clean (cw_stations n d k sh)"
  unfolding cw_stations_def Let_def by (intro clean_rules) auto

lemma clean_cw_curve [clean_rules]: "clean (cw_curve n p1 p2 d h k)"
  unfolding cw_curve_def Let_def by (cases p1; cases p2) (auto intro!: clean_rules)

lemma clean_catenary [clean_rules]: "clean (catenary c)"
  unfolding catenary_def Let_def
  by (auto intro!: clean_rules split: option.split)

lemma clean_spiral [clean_rules]: "clean (helix_vertices c)" "clean (helix_wire_radii c)"
  unfolding helix_vertices_def helix_wire_radii_def spiral_point_def Let_def
  by (auto intro!: clean_rules)

lemma clean_nec4_builders: "clean_builders nec4_builders"
proof -
  have "clean (nec4_ga c ws)" "clean (nec4_gh c ws)" "clean (nec4_cw c ws)" for c ws
    unfolding nec4_ga_def nec4_arc_vertices_def nec4_gh_def nec4_cw_def catenary_vertices_def
    by (auto intro!: clean_rules)
  then show ?thesis
    using clean_geometry_builders by (auto simp: clean_builders_def nec4_builders_def split: if_splits)
qed

section \<open>The builders\<close>

lemma segs_tapered: "set (segs (tapered_chords tag rs vs)) \<subseteq> {1}"
  by (auto simp: tapered_chords_def)

lemma segs_chords_1: "set (segs (chords tag r vs)) \<subseteq> {1}"
  by (auto simp: segs_chords)

lemma nec4_segments_ok:
  assumes "nec4_builders m = Some b" "b c ws = Inr ws'" "segments_ok ws"
  shows "segments_ok ws'"
proof -
  have added: "segments_ok (ws @ new)" if "set (segs new) \<subseteq> {1}" for new
    using that assms(3) by (auto simp: segments_ok_def)
  from assms(1) consider "b = nec4_ga" | "b = nec4_gh" | "b = nec4_cw" | "geometry_builders m = Some b"
    unfolding nec4_builders_def by (metis option.inject)
  then show ?thesis
  proof cases
    case 1
    with assms(2) show ?thesis
      by (auto simp: nec4_ga_def okE intro!: added segs_chords_1)
  next
    case 2
    with assms(2) show ?thesis
      by (auto simp: nec4_gh_def okE intro!: added segs_tapered)
  next
    case 3
    with assms(2) show ?thesis
      by (auto simp: nec4_cw_def okE intro!: added segs_chords_1)
  next
    case 4
    with assms show ?thesis by (blast intro: nec2_segments_ok)
  qed
qed

lemma nec4_cell_ok:
  assumes "nec4_builders (mnemonic c) = Some b" "b c ws = Inr ws'" "cell_ok ws s"
    and "symmetry_after c ws' (length ws, total_segments ws) s = Inr s'"
  shows "cell_ok ws' s'"
proof (cases "mnemonic c \<in> {''GA'', ''GH'', ''CW''}")
  case True
  then have "s' = None"
    using assms(4) by (auto simp: symmetry_after_def)
  then show ?thesis by (simp add: cell_ok_def)
next
  case False
  then have "geometry_builders (mnemonic c) = Some b"
    using assms(1) by (simp add: nec4_builders_def)
  then show ?thesis
    using assms(2-) by (rule nec2_cell_ok)
qed

interpretation nec4_reader: geometry_reader nec4_builders
  by unfold_locales (rule nec4_segments_ok, assumption+, rule nec4_cell_ok)

section \<open>The handlers\<close>

lemma source_kind_frame [simp]:
  "loads_ok (p\<lparr>ps_source_kind := k\<rparr>) = loads_ok p"
  "groups_ok (p\<lparr>ps_source_kind := k\<rparr>) = groups_ok p"
  "geometry_ok builders (p\<lparr>ps_source_kind := k\<rparr>) = geometry_ok builders p"
  "parser_ok builders (p\<lparr>ps_source_kind := k\<rparr>) = parser_ok builders p"
  "drive_state (p\<lparr>ps_source_kind := k\<rparr>) = drive_state p"
  by (simp_all add: loads_ok_def groups_ok_def geometry_ok_def parser_ok_def drive_state_def)

lemma handler_okD: "handler_ok builders f \<Longrightarrow> parser_ok builders p \<Longrightarrow> ok_result (parser_ok builders) (f c p)"
  by (simp add: handler_ok_def)

lemma nec4_geometry_ok:
  assumes "mnemonic c = ''GE'' \<or> nec4_builders (mnemonic c) \<noteq> None" "parser_ok nec4_builders p"
  shows "ok_result (parser_ok nec4_builders) (nec4_geometry c p)"
proof -
  have "clean (if mnemonic c = ''GE'' then bindE (card_i c 0) (\<lambda>flag.
      bindE (guardE (flag \<notin> {-1, 0, 1}) (nec4_error (Ge4Flag flag))) (\<lambda>_.
      bindE (card_i c 1) (\<lambda>second. guardE (second \<notin> set ge_second) (nec4_error (Ge4Second second)))))
      else Inr ())"
    by (intro clean_rules; auto)
  then show ?thesis
    unfolding nec4_geometry_def
    using geometry_card_ok [OF clean_nec4_builders nec4_reader.geometry_reader_axioms assms]
    by (rule ok_result_value)
qed

lemma nec4_gn_ok: "handler_ok builders nec4_gn"
  unfolding handler_ok_def nec4_gn_def Let_def
  by (intro allI impI okr ok_result_value clean_rules clean_card_i handler_okD [OF gn_card_ok]; simp)

lemma nec4_ek_ok: "handler_ok builders nec4_ek"
  by (simp add: handler_ok_def nec4_ek_def)

lemma nec4_ld_ok: "handler_ok nec4_builders nec4_ld"
  unfolding handler_ok_def nec4_ld_def
  by (auto intro!: okr nec4_reader.ld_card_ok clean_nec4_builders)

lemma drive_added_ok:
  "parser_ok builders p \<Longrightarrow>
    parser_ok builders (p\<lparr>ps_saw_ex := True, ps_sources_stale := False, ps_sources := srcs\<rparr>)"
  by (auto simp: parser_ok_def loads_ok_def groups_ok_def geometry_ok_def)

lemma nec4_ex_ok: "handler_ok builders nec4_ex"
  unfolding handler_ok_def nec4_ex_def Let_def
proof (intro allI impI okr, goal_cases)
  case (4 c p ty tag seg)
  then show ?case
    by (intro handler_okD [OF ex_card_ok]) simp
next
  case (6 c p ty tag seg)
  then show ?case
    unfolding ok_result_Inr by (intro drive_added_ok) simp
qed auto

lemma nec4_geometry_known:
  "m \<in> set (geometry_cards @ [''CW'']) \<Longrightarrow> m = ''GE'' \<or> nec4_builders m \<noteq> None"
  using nec2_geometry_known [of m] by (auto simp: nec4_builders_def)

interpretation nec4: deck_dialect nec4_hooks
proof (intro deck_dialect.intro deck_dialect_axioms.intro)
  have b: "hk_builders nec4_hooks = nec4_builders"
    by (simp add: nec4_hooks_def)
  show "geometry_reader (hk_builders nec4_hooks)"
    using nec4_reader.geometry_reader_axioms by (simp add: b)
  show "clean_builders (hk_builders nec4_hooks)"
    by (simp add: b clean_nec4_builders)
  show known: "m = ''GE'' \<or> hk_builders nec4_hooks m \<noteq> None"
    if "m \<in> set (hk_geometry_mnemonics nec4_hooks)" for m
    using that nec4_geometry_known by (simp add: nec4_hooks_def)
  show "ok_result (parser_ok (hk_builders nec4_hooks)) (hk_geometry nec4_hooks c p)"
    if "mnemonic c \<in> set (hk_geometry_mnemonics nec4_hooks)" "parser_ok (hk_builders nec4_hooks) p"
    for c and p :: "'b nec4_parser_scheme"
    using nec4_geometry_ok [of c p] nec4_geometry_known that by (simp add: nec4_hooks_def)
  show "handler_ok (hk_builders nec4_hooks) (hk_gn nec4_hooks)"
    by (simp add: nec4_hooks_def nec4_gn_ok)
  show "handler_ok (hk_builders nec4_hooks) (hk_ex nec4_hooks)"
    by (simp add: nec4_hooks_def nec4_ex_ok)
  show "handler_ok (hk_builders nec4_hooks) (hk_ek nec4_hooks)"
    by (simp add: nec4_hooks_def nec4_ek_ok)
  show "handler_ok (hk_builders nec4_hooks) (hk_ld nec4_hooks)"
    by (simp add: nec4_hooks_def nec4_ld_ok)
  have near: "clean (nec4_near_coordinates c)" for c
    unfolding nec4_near_coordinates_def by (intro clean_rules) auto
  then show "clean (hk_near_coordinates nec4_hooks c)" for c
    by (simp add: nec4_hooks_def)
  have "clean (far_field c p)" "clean (near_field nec4_near_coordinates c p)"
    for c and p :: "'b nec4_parser_scheme"
    unfolding far_field_def near_field_def by (intro clean_rules near; auto)+
  then show "clean (hk_unarmed_execute nec4_hooks c p)" for c and p :: "'b nec4_parser_scheme"
    by (auto simp: nec4_hooks_def nec4_unarmed_execute_def intro!: clean_rules)
qed

section \<open>The runs\<close>

lemma leaves_drive_keeps: "keeps_drive f \<Longrightarrow> leaves_drive (drive_state p) (f c p)"
  by (simp add: keeps_drive_def leaves_drive_def)

lemma keeps_driveI: "(\<And>c p. leaves_drive (drive_state p) (f c p)) \<Longrightarrow> keeps_drive f"
  by (simp add: keeps_drive_def leaves_drive_def)

lemma nec4_geometry_drive: "keeps_drive nec4_geometry"
  unfolding nec4_geometry_def
  by (rule keeps_driveI, rule leaves_drive_bind, rule leaves_drive_keeps [OF geometry_card_drive])

lemma nec4_gn_drive: "keeps_drive nec4_gn"
  unfolding nec4_gn_def Let_def
  by (rule keeps_driveI, (rule leaves_drive_bind)+, rule leaves_drive_keeps [OF gn_card_drive])

lemma nec4_ek_drive: "keeps_drive nec4_ek"
  by (simp add: keeps_drive_def nec4_ek_def)

lemma nec4_ld_drive: "keeps_drive nec4_ld"
  unfolding nec4_ld_def
  by (rule keeps_driveI, (rule leaves_drive_bind)+, rule leaves_drive_keeps [OF ld_card_drive])

text \<open>What an accepted EX card did.\<close>

lemma nec4_ex_Inr:
  assumes "nec4_ex c p = Inr p'"
  obtains ty tag seg where "card_i c 0 = Inr ty" "card_i c 1 = Inr tag" "card_i c 2 = Inr seg"
    "ty = ex_voltage \<or> ty = ex_current \<and> \<not> (feq (card_f c 4) (Fin 0) \<and> feq (card_f c 5) (Fin 0))"
    "ps_source_kind p (tag, seg) \<in> {None, Some ty}"
    "ty = ex_voltage \<longrightarrow> ex_card c (p\<lparr>ps_source_kind := (ps_source_kind p)((tag, seg) \<mapsto> ty)\<rparr>) = Inr p'"
    "p' = p\<lparr>ps_source_kind := (ps_source_kind p)((tag, seg) \<mapsto> ty), ps_saw_ex := True,
       ps_sources_stale := False,
       ps_sources := (if ps_sources_stale p then [] else ps_sources p) @ [ex_entry c]\<rparr>"
proof -
  obtain ty tag seg kind where ty: "card_i c 0 = Inr ty" "ty = ex_voltage \<or> ty = ex_current"
    and addr: "card_i c 1 = Inr tag" "card_i c 2 = Inr seg"
    and kind: "(case ps_source_kind p (tag, seg) of None \<Rightarrow> ty | Some k \<Rightarrow> k) = kind" "kind = ty"
    and rest: "(if ty = ex_voltage then ex_card c (p\<lparr>ps_source_kind := (ps_source_kind p)((tag, seg) \<mapsto> kind)\<rparr>)
      else bindE (guardE (feq (card_f c 4) (Fin 0) \<and> feq (card_f c 5) (Fin 0)) (nec4_error (Ex4ZeroCurrent tag seg)))
        (\<lambda>_. Inr (p\<lparr>ps_source_kind := (ps_source_kind p)((tag, seg) \<mapsto> kind), ps_saw_ex := True, ps_sources_stale := False,
          ps_sources := (if ps_sources_stale (p\<lparr>ps_source_kind := (ps_source_kind p)((tag, seg) \<mapsto> kind)\<rparr>) then [] else ps_sources (p\<lparr>ps_source_kind := (ps_source_kind p)((tag, seg) \<mapsto> kind)\<rparr>))
            @ [(tag, seg, card_f c 4, card_f c 5)]\<rparr>))) = Inr p'"
    using assms unfolding nec4_ex_def Let_def okE fst_conv snd_conv
    by (elim exE conjE) (rule that, assumption, blast, assumption+, rule refl, blast, assumption)
  note rest = rest [unfolded kind(2)]
  have fresh: "ps_source_kind p (tag, seg) \<in> {None, Some ty}"
    using kind by (auto split: option.splits)
  show thesis
  proof (cases "ty = ex_voltage")
    case True
    then have ex: "ex_card c (p\<lparr>ps_source_kind := (ps_source_kind p)((tag, seg) \<mapsto> ty)\<rparr>) = Inr p'"
      using rest by simp
    then have "p' = p\<lparr>ps_source_kind := (ps_source_kind p)((tag, seg) \<mapsto> ty), ps_saw_ex := True,
       ps_sources_stale := False,
       ps_sources := (if ps_sources_stale p then [] else ps_sources p) @ [ex_entry c]\<rparr>"
      using addr by (auto simp: ex_card_def ex_entry_def okE Let_def)
    with ex True show thesis
      by (intro that [OF ty(1) addr _ fresh]) simp_all
  next
    case False
    then have zero: "\<not> (feq (card_f c 4) (Fin 0) \<and> feq (card_f c 5) (Fin 0))"
      using rest by (auto simp: guardE_def)
    then have "p' = p\<lparr>ps_source_kind := (ps_source_kind p)((tag, seg) \<mapsto> ty), ps_saw_ex := True,
       ps_sources_stale := False,
       ps_sources := (if ps_sources_stale p then [] else ps_sources p) @ [ex_entry c]\<rparr>"
      using addr rest False by (auto simp: guardE_def ex_entry_def split: if_splits)
    with False zero ty(2) show thesis
      by (intro that [OF ty(1) addr _ fresh]) simp_all
  qed
qed

lemma nec4_ex_drive:
  "nec4_ex c p = Inr p' \<Longrightarrow> drive_state p' = drive_state
    (p\<lparr>ps_sources_stale := False, ps_sources := (if ps_sources_stale p then [] else ps_sources p) @ [ex_entry c]\<rparr>)"
  by (erule nec4_ex_Inr) (simp add: drive_state_def)

interpretation nec4_runs: deck_runs nec4_hooks
proof (intro deck_runs.intro deck_runs_axioms.intro)
  show "deck_dialect nec4_hooks"
    by (rule nec4.deck_dialect_axioms)
  show "set (hk_geometry_mnemonics nec4_hooks) \<inter> set other_cards = {}"
    by (simp add: nec4_hooks_def geometry_cards_def other_cards_def execute_cards_def arming_cards_def)
  show "drive_state p' = drive_state (p\<lparr>ps_sources_stale := False,
      ps_sources := (if ps_sources_stale p then [] else ps_sources p) @ [ex_entry c]\<rparr>)"
    if "hk_ex nec4_hooks c p = Inr p'" for c and p p' :: "'b nec4_parser_scheme"
    using that by (intro nec4_ex_drive) (simp add: nec4_hooks_def)
qed (simp_all add: nec4_hooks_def nec4_geometry_drive nec4_gn_drive nec4_ek_drive nec4_ld_drive)

end
