(* ===== verification/Nec4_Reading.thy ===== *)
theory Nec4_Reading
  imports Nec4_Laws
begin

text \<open>
  What the NEC-4.2 reader keeps over a whole deck: the kind each port is driven with, and
  the extended kernel.
\<close>

section \<open>What the cards leave alone\<close>

definition extras :: "'a parser_scheme \<Rightarrow> 'a \<times> bool" where
  \<comment> \<open>the part of the state only the dialect's own methods change\<close>
  "extras p = (parser.more p, ps_extended_kernel p)"

lemma extras_kind: "extras p' = extras p \<Longrightarrow> ps_source_kind p' = ps_source_kind p"
  by (cases p; cases p') (simp add: extras_def)

lemma extras_frame [simp]:
  "extras (p\<lparr>ps_comments := x_comments\<rparr>) = extras p"
  "extras (p\<lparr>ps_quiet := x_quiet\<rparr>) = extras p"
  "extras (p\<lparr>ps_reduced_field := x_reduced_field\<rparr>) = extras p"
  "extras (p\<lparr>ps_geometry_cards := x_geometry_cards\<rparr>) = extras p"
  "extras (p\<lparr>ps_structure := x_structure\<rparr>) = extras p"
  "extras (p\<lparr>ps_groups := x_groups\<rparr>) = extras p"
  "extras (p\<lparr>ps_armed := x_armed\<rparr>) = extras p"
  "extras (p\<lparr>ps_executed := x_executed\<rparr>) = extras p"
  "extras (p\<lparr>ps_fresh_fr := x_fresh_fr\<rparr>) = extras p"
  "extras (p\<lparr>ps_print_control := x_print_control\<rparr>) = extras p"
  "extras (p\<lparr>ps_multiprocessing := x_multiprocessing\<rparr>) = extras p"
  "extras (p\<lparr>ps_saw_ex := x_saw_ex\<rparr>) = extras p"
  "extras (p\<lparr>ps_operator_dirty := x_operator_dirty\<rparr>) = extras p"
  "extras (p\<lparr>ps_sources := x_sources\<rparr>) = extras p"
  "extras (p\<lparr>ps_sources_stale := x_sources_stale\<rparr>) = extras p"
  "extras (p\<lparr>ps_frequencies := x_frequencies\<rparr>) = extras p"
  "extras (p\<lparr>ps_ground := x_ground\<rparr>) = extras p"
  "extras (p\<lparr>ps_second_medium := x_second_medium\<rparr>) = extras p"
  "extras (p\<lparr>ps_networks := x_networks\<rparr>) = extras p"
  "extras (p\<lparr>ps_network_destroyer := x_network_destroyer\<rparr>) = extras p"
  "extras (p\<lparr>ps_load_log := x_load_log\<rparr>) = extras p"
  "extras (p\<lparr>ps_live := x_live\<rparr>) = extras p"
  "extras (p\<lparr>ps_loaded := x_loaded\<rparr>) = extras p"
  "extras (p\<lparr>ps_load_spec_at := x_load_spec_at\<rparr>) = extras p"
  "extras (p\<lparr>ps_ld_run_open := x_ld_run_open\<rparr>) = extras p"
  "extras (p\<lparr>ps_global_conductivity := x_global_conductivity\<rparr>) = extras p"
  "extras (p\<lparr>ps_wire_conductivity := x_wire_conductivity\<rparr>) = extras p"
  "extras (p\<lparr>ps_wire_insulation := x_wire_insulation\<rparr>) = extras p"
  "extras (p\<lparr>ps_global_distributed := x_global_distributed\<rparr>) = extras p"
  "extras (p\<lparr>ps_wire_distributed := x_wire_distributed\<rparr>) = extras p"
  by (simp_all add: extras_def)

definition leaves_extras :: "'a \<times> bool \<Rightarrow> pyexn + 'a parser_scheme \<Rightarrow> bool" where
  "leaves_extras v m \<longleftrightarrow> (\<forall>p'. m = Inr p' \<longrightarrow> extras p' = v)"

lemma leaves_extras_simps [simp]:
  "leaves_extras v (Inl e)" "leaves_extras v (Inr p) \<longleftrightarrow> extras p = v"
  by (simp_all add: leaves_extras_def)

lemma leaves_extras_bind: "(\<And>x. m = Inr x \<Longrightarrow> leaves_extras v (f x)) \<Longrightarrow> leaves_extras v (bindE m f)"
  by (cases m) auto

lemma structure_extras: "the_structure b p = Inr (s, p') \<Longrightarrow> extras p' = extras p"
  by (auto simp: the_structure_def okE split: option.splits)

lemma log_entry_extras [simp]: "extras (log_entry e p) = extras p"
  by (simp add: log_entry_def split: option.split)

lemma discard_loads_extras [simp]: "extras (discard_loads p) = extras p"
  by (simp add: discard_loads_def)

lemma ld_segments_extras:
  "foldE (ld_segment s spec) st pairs = Inr st' \<Longrightarrow> extras (snd st') = extras (snd st)"
proof (rule foldE_invariant [where P = "\<lambda>x. extras (snd x) = extras (snd st)"])
  show "extras (snd y) = extras (snd st)"
    if "ld_segment s spec x ws = Inr y" "extras (snd x) = extras (snd st)" for x ws y
    using that by (cases x; cases ws) (auto simp: ld_segment_def Let_def okE split: if_splits)
qed auto

lemma handlers_extras:
  "leaves_extras (extras p) (gn_card c p)" "leaves_extras (extras p) (fr_card c p)"
  "leaves_extras (extras p) (is_card b c p)" "leaves_extras (extras p) (execute h c p)"
  "leaves_extras (extras p) (comment_card c p)" "leaves_extras (extras p) (gd_card c p)"
  unfolding gn_card_def fr_card_def is_card_def execute_def comment_card_def gd_card_def Let_def
  by (auto intro!: leaves_extras_bind dest!: structure_extras split: option.split)

lemma geometry_card_extras: "leaves_extras (extras p) (geometry_card b c p)"
  unfolding geometry_card_def Let_def
  by (auto intro!: leaves_extras_bind dest!: structure_extras)

lemma network_extras: "leaves_extras (extras p) (network b c p)"
  unfolding network_def
  by (cases "ps_network_destroyer p")
     (auto intro!: leaves_extras_bind dest: structure_extras simp del: upt_rec_numeral firstE.simps)

lemma print_extras: "print_control_card b c p = Inr (pc, p') \<Longrightarrow> extras p' = extras p"
  by (auto simp: print_control_card_def okE dest!: structure_extras split: if_splits)

lemma ld_card_extras: "leaves_extras (extras p) (ld_card b c p)"
  unfolding ld_card_def ld23_def ld5_def Let_def
  by (auto intro!: leaves_extras_bind dest!: structure_extras ld_segments_extras split: option.split)

lemma nec4_handlers_extras:
  "leaves_extras (extras p) (nec4_geometry c p)" "leaves_extras (extras p) (nec4_gn c p)"
  "leaves_extras (extras p) (nec4_ek c p)" "leaves_extras (extras p) (nec4_ld c p)"
     apply (unfold nec4_geometry_def nec4_gn_def nec4_ld_def Let_def)
     apply (intro leaves_extras_bind geometry_card_extras)
    apply (intro leaves_extras_bind handlers_extras)
   apply (simp add: nec4_ek_def)
  apply (intro leaves_extras_bind ld_card_extras)
  done

section \<open>The kinds of the ports\<close>

definition ex_address :: "card \<Rightarrow> int \<times> int" where
  "ex_address c = (projr (card_i c 1), projr (card_i c 2))"

definition ex_kind :: "card \<Rightarrow> int" where
  "ex_kind c = projr (card_i c 0)"

definition after_card :: "card \<Rightarrow> (int \<times> int \<rightharpoonup> int) \<Rightarrow> (int \<times> int \<rightharpoonup> int)" where
  "after_card c k = (if excites c then k(ex_address c \<mapsto> ex_kind c) else k)"

lemma nec4_ex_kind:
  assumes "nec4_ex c p = Inr p'"
  shows "ps_source_kind p' = (ps_source_kind p)(ex_address c \<mapsto> ex_kind c)"
    and "ps_extended_kernel p' = ps_extended_kernel p"
    and "ps_source_kind p (ex_address c) \<in> {None, Some (ex_kind c)}"
    and "ex_kind c = 0 \<or> ex_kind c = 6"
    and "card_i c 0 = Inr (ex_kind c)" "card_i c 1 = Inr (fst (ex_address c))"
      "card_i c 2 = Inr (snd (ex_address c))"
proof -
  obtain ty tag seg where ex: "card_i c 0 = Inr ty" "card_i c 1 = Inr tag" "card_i c 2 = Inr seg"
    "ty = ex_voltage \<or> ty = ex_current \<and> \<not> (feq (card_f c 4) (Fin 0) \<and> feq (card_f c 5) (Fin 0))"
    "ps_source_kind p (tag, seg) \<in> {None, Some ty}"
    "p' = p\<lparr>ps_source_kind := (ps_source_kind p)((tag, seg) \<mapsto> ty), ps_saw_ex := True,
       ps_sources_stale := False,
       ps_sources := (if ps_sources_stale p then [] else ps_sources p) @ [ex_entry c]\<rparr>"
    using assms by (rule nec4_ex_Inr)
  then have "ex_address c = (tag, seg)" "ex_kind c = ty"
    by (simp_all add: ex_address_def ex_kind_def)
  with ex show "ps_source_kind p' = (ps_source_kind p)(ex_address c \<mapsto> ex_kind c)"
    "ps_extended_kernel p' = ps_extended_kernel p"
    "ps_source_kind p (ex_address c) \<in> {None, Some (ex_kind c)}" "ex_kind c = 0 \<or> ex_kind c = 6"
    "card_i c 0 = Inr (ex_kind c)" "card_i c 1 = Inr (fst (ex_address c))"
    "card_i c 2 = Inr (snd (ex_address c))"
    by (simp_all add: ex_voltage_def ex_current_def) blast
qed

lemma nec4_dispatch_quiet:
  assumes "mnemonic c \<noteq> ''EX''"
  shows "leaves_extras (extras p) (dispatch nec4_hooks c p)"
  unfolding dispatch_def Let_def
  using assms
  by (auto simp: nec4_hooks_def handlers_extras nec4_handlers_extras intro!: leaves_extras_bind dest: print_extras)

lemma steps_extras [simp]:
  "extras (ld_run_step h c p) = extras p" "extras (arm_step c p) = extras p"
  "extras (destroyer_step c p) = extras p"
  by (simp_all add: ld_run_step_def arm_step_def destroyer_step_def Let_def)

lemma nec4_read_quiet:
  assumes "read_card nec4_hooks c p = Inr p'" "mnemonic c \<noteq> ''EX''"
  shows "extras p' = extras p"
proof -
  have "leaves_extras (extras p) (read_card nec4_hooks c p)"
    unfolding read_card_def Let_def
    using handlers_extras(5) [of "ld_run_step nec4_hooks c p" c]
      network_extras [of "arm_step c (ld_run_step nec4_hooks c p)" "hk_builders nec4_hooks" c]
      nec4_dispatch_quiet [OF assms(2), of "destroyer_step c (arm_step c (ld_run_step nec4_hooks c p))"]
    by (auto intro!: leaves_extras_bind split: option.split)
  then show ?thesis
    using assms(1) by (simp add: leaves_extras_def)
qed

lemma nec4_read_ex:
  assumes "read_card nec4_hooks c p = Inr p'" "mnemonic c = ''EX''"
  obtains q where "nec4_ex c q = Inr p'" "extras q = extras p"
proof -
  have "nec4_ex c (destroyer_step c (arm_step c (ld_run_step nec4_hooks c p))) = Inr p'"
    using assms by (simp add: read_card_def Let_def nec4_hooks_def refused_by_name_def network_cards_def
        dispatch_def geometry_cards_def)
  then show thesis
    using that by simp
qed

lemma nec4_read_kinds:
  assumes "read_cards nec4_hooks p cs = Inr p'"
  shows "ps_source_kind p' = fold after_card cs (ps_source_kind p)"
    and "ps_extended_kernel p' = ps_extended_kernel p"
    and "\<forall>c \<in> set cs. excites c \<longrightarrow> ps_source_kind p' (ex_address c) = Some (ex_kind c) \<and>
      (ex_kind c = 0 \<or> ex_kind c = 6)"
    and "\<forall>a k. ps_source_kind p a = Some k \<longrightarrow> ps_source_kind p' a = Some k"
proof -
  have "ps_source_kind p' = fold after_card cs (ps_source_kind p) \<and>
    ps_extended_kernel p' = ps_extended_kernel p \<and>
    (\<forall>c \<in> set cs. excites c \<longrightarrow> ps_source_kind p' (ex_address c) = Some (ex_kind c) \<and>
      (ex_kind c = 0 \<or> ex_kind c = 6)) \<and>
    (\<forall>a k. ps_source_kind p a = Some k \<longrightarrow> ps_source_kind p' a = Some k)"
    using assms
  proof (induction cs arbitrary: p)
    case (Cons c cs)
    then obtain p1 where p1: "read_card nec4_hooks c p = Inr p1" "read_cards nec4_hooks p1 cs = Inr p'"
      by (auto simp: okE)
    note IH = Cons.IH [OF p1(2)]
    show ?case
    proof (cases "excites c")
      case True
      then obtain q where q: "nec4_ex c q = Inr p1" "extras q = extras p"
        using p1(1) by (auto simp: excites_def elim: nec4_read_ex)
      have "ps_source_kind q = ps_source_kind p" "ps_extended_kernel q = ps_extended_kernel p"
        using extras_kind [OF q(2)] q(2) by (simp_all add: extras_def)
      then have step: "ps_source_kind p1 = (ps_source_kind p)(ex_address c \<mapsto> ex_kind c)"
        "ps_extended_kernel p1 = ps_extended_kernel p"
        "ps_source_kind p (ex_address c) \<in> {None, Some (ex_kind c)}" "ex_kind c = 0 \<or> ex_kind c = 6"
        using nec4_ex_kind [OF q(1)] by simp_all
      then have "ps_source_kind p1 (ex_address c) = Some (ex_kind c)"
        "\<forall>a k. ps_source_kind p a = Some k \<longrightarrow> ps_source_kind p1 a = Some k"
        by auto
      then have kept: "ps_source_kind p' (ex_address c) = Some (ex_kind c)"
        "\<forall>a k. ps_source_kind p a = Some k \<longrightarrow> ps_source_kind p' a = Some k"
        using IH by blast+
      have "ps_source_kind p' = fold after_card (c # cs) (ps_source_kind p)"
        unfolding IH [THEN conjunct1] step(1) using True by (simp only: fold_simps after_card_def if_True)
      moreover have "ps_extended_kernel p' = ps_extended_kernel p"
        using IH step(2) by simp
      moreover have "\<forall>c \<in> set cs. excites c \<longrightarrow> ps_source_kind p' (ex_address c) = Some (ex_kind c) \<and>
          (ex_kind c = 0 \<or> ex_kind c = 6)"
        using IH by blast
      ultimately show ?thesis
        using kept step(4) unfolding list.set ball_simps by blast
    next
      case False
      then have same: "extras p1 = extras p"
        using nec4_read_quiet [OF p1(1)] by (simp add: excites_def)
      have eq: "ps_source_kind p1 = ps_source_kind p" "ps_extended_kernel p1 = ps_extended_kernel p"
        using extras_kind [OF same] same by (simp_all add: extras_def)
      have fold_eq: "fold after_card (c # cs) (ps_source_kind p) = fold after_card cs (ps_source_kind p)"
        using False by (simp add: after_card_def [of c])
      show ?thesis
        using IH [unfolded eq] False unfolding fold_eq list.set ball_simps by blast
    qed
  qed simp
  then show "ps_source_kind p' = fold after_card cs (ps_source_kind p)"
    and "ps_extended_kernel p' = ps_extended_kernel p"
    and "\<forall>c \<in> set cs. excites c \<longrightarrow> ps_source_kind p' (ex_address c) = Some (ex_kind c) \<and>
      (ex_kind c = 0 \<or> ex_kind c = 6)"
    and "\<forall>a k. ps_source_kind p a = Some k \<longrightarrow> ps_source_kind p' a = Some k"
    by blast+
qed

section \<open>The kernel\<close>

definition extended :: "'a parser_scheme \<Rightarrow> bool" where
  "extended p \<longleftrightarrow> ps_extended_kernel p \<and> (\<forall>g. Some g \<in> set (ps_groups p) \<longrightarrow> pg_extended_kernel g)"

lemma nec4_read_extended:
  assumes "read_card nec4_hooks c p = Inr p'" "extended p"
  shows "extended p'"
proof (cases "mnemonic c \<in> set execute_cards")
  case True
  let ?p = "destroyer_step c (arm_step c (ld_run_step nec4_hooks c p))"
  have m: "mnemonic c \<notin> set (geometry_cards @ [''CW''] @ refused_by_name @ network_cards @
      [''CM'', ''CE'', ''GN'', ''GD'', ''FR'', ''EX'', ''LD'', ''IS'', ''EK'', ''PT'', ''PQ'', ''MP'', ''GW''])"
    using True by (auto simp: execute_cards_def geometry_cards_def refused_by_name_def network_cards_def)
  then have ex: "execute nec4_hooks c ?p = Inr p'"
    using assms(1) True by (simp add: read_card_def Let_def dispatch_def nec4_hooks_def)
  have same: "extras ?p = extras p" "ps_groups ?p = ps_groups p"
    by (simp_all add: destroyer_step_def arm_step_def ld_run_step_def Let_def discard_loads_def)
  then have "ps_extended_kernel ?p"
    using assms(2) by (simp add: extras_def extended_def)
  moreover have "extras p' = extras ?p"
    using handlers_extras(4) [of ?p nec4_hooks c] ex by (simp add: leaves_extras_def)
  moreover have "ps_groups p' = ps_groups ?p @ [None] \<or> (\<exists>req. ps_groups p' = ps_groups ?p @ [Some (pending req ?p)])"
    using ex by (auto simp: execute_def okE split: if_splits)
  ultimately show ?thesis
    using assms(2) same by (auto simp: extended_def extras_def pending_def Let_def)
next
  case False
  then have "ps_groups p' = ps_groups p"
    using nec4_runs.read_card_plain [OF assms(1)] by simp
  moreover have "ps_extended_kernel p' = ps_extended_kernel p"
    using nec4_read_kinds(2) [of p "[c]" p'] assms(1) by simp
  ultimately show ?thesis
    using assms(2) by (simp add: extended_def)
qed

lemma nec4_read_cards_extended:
  "read_cards nec4_hooks p cs = Inr p' \<Longrightarrow> extended p \<Longrightarrow> extended p'"
  by (rule foldE_invariant) (auto intro: nec4_read_extended)

section \<open>A whole deck\<close>

lemma init_nec4_fields [simp]:
  "ps_source_kind init_nec4_parser = Map.empty" "ps_extended_kernel init_nec4_parser"
  "ps_groups init_nec4_parser = []" "ps_sources init_nec4_parser = []"
  "\<not> ps_sources_stale init_nec4_parser" "ps_executed init_nec4_parser = 0"
  "ps_geometry_cards init_nec4_parser = []"
  "\<not> ps_operator_dirty init_nec4_parser"
  by (simp_all add: init_nec4_parser_def parser.defs init_parser_def)

lemma init_nec4_ok: "parser_ok builders init_nec4_parser"
  by (simp add: parser_ok_def loads_ok_def groups_ok_def geometry_ok_def init_nec4_parser_def
      parser.defs init_parser_def)

lemma ex_entry_key: "feed_key (ex_entry c) = ex_address c"
  by (simp add: feed_key_def ex_entry_def ex_address_def)

lemma port_order_keys: "port_order p = dedup (map feed_key (all_sources p))"
proof -
  have "(\<lambda>(tag, seg, _). (tag, seg)) = feed_key"
    by (auto simp: feed_key_def)
  then show ?thesis
    by (simp add: port_order_def)
qed

lemma nec4_port_order:
  assumes "read_cards nec4_hooks init_nec4_parser cs = Inr q"
  shows "set (port_order q) \<subseteq> ex_address ` {c \<in> set cs. excites c}"
proof
  fix a assume "a \<in> set (port_order q)"
  then obtain g src where g: "Some g \<in> set (ps_groups q)" "src \<in> set (pg_sources g)" "a = feed_key src"
    using ran_groups_iff [of _ q] by (auto simp: port_order_keys all_sources_def ran_groups_def)
  obtain pre post where "cs = pre @ post" "pg_sources g = map ex_entry (driving pre)"
    using nec4_runs.group_sources [OF assms g(1)] by auto
  with g(2,3) driving_subset [of pre] show "a \<in> ex_address ` {c \<in> set cs. excites c}"
    by (auto simp: ex_entry_key)
qed

lemma nec4_port_kinds:
  assumes "read_cards nec4_hooks init_nec4_parser cs = Inr q" "a \<in> set (port_order q)"
  obtains c where "c \<in> set cs" "excites c" "ex_address c = a" "ps_source_kind q a = Some (ex_kind c)"
  using nec4_port_order [OF assms(1)] assms(2) nec4_read_kinds(3) [OF assms(1)] by blast

lemma clean_current_ports:
  assumes "read_cards nec4_hooks init_nec4_parser cs = Inr q"
  shows "clean (current_ports (ps_source_kind q) (port_order q))"
  unfolding current_ports_def
proof (intro clean_bind clean_mapE)
  fix a assume "a \<in> set (port_order q)"
  then obtain k where "ps_source_kind q a = Some k"
    using nec4_port_kinds [OF assms] by metis
  then show "clean (lookupE (ps_source_kind q) a)"
    by (simp add: lookupE_def)
qed simp

lemma port_order_structure [simp]: "port_order (p\<lparr>ps_structure := x\<rparr>) = port_order p"
  by (simp add: port_order_def all_sources_def)

lemma nec4_feed_cards:
  assumes "feed nec4_hooks deck init_nec4_parser = Inr p"
  obtains q where "read_cards nec4_hooks init_nec4_parser (deck_cards (splitlines deck)) = Inr q"
    "ps_source_kind p = ps_source_kind q" "port_order p = port_order q"
proof -
  obtain q :: nec4_parser and s where q: "feed_lines nec4_hooks (splitlines deck) init_nec4_parser = Inr q"
    and s: "the_structure nec4_builders q = Inr (s, p)"
    using assms by (auto simp: feed_def okE nec4_hooks_def)
  have "ps_source_kind p = ps_source_kind q"
    using extras_kind [OF structure_extras [OF s]] .
  moreover have "port_order p = port_order q"
    using s by (auto simp: the_structure_def okE split: option.splits)
  ultimately show thesis
    using that [OF feed_lines_cards [OF q]] by blast
qed

text \<open>The structure is the one the dialect's geometry cards make.\<close>

definition nec4_geometry_mnemonics :: "string list" where
  "nec4_geometry_mnemonics = geometry_cards @ [''CW'']"

definition geometry_after :: "card \<Rightarrow> card list \<Rightarrow> card list" where
  "geometry_after c cs = (if mnemonic c \<in> set nec4_geometry_mnemonics then cs @ [c] else cs)"

definition leaves_geometry :: "card list \<Rightarrow> pyexn + 'a parser_scheme \<Rightarrow> bool" where
  "leaves_geometry cs m \<longleftrightarrow> (\<forall>p'. m = Inr p' \<longrightarrow> ps_geometry_cards p' = cs)"

lemma leaves_geometry_simps [simp]:
  "leaves_geometry cs (Inl e)" "leaves_geometry cs (Inr p) \<longleftrightarrow> ps_geometry_cards p = cs"
  by (simp_all add: leaves_geometry_def)

lemma leaves_geometry_bind: "(\<And>x. m = Inr x \<Longrightarrow> leaves_geometry cs (f x)) \<Longrightarrow> leaves_geometry cs (bindE m f)"
  by (cases m) auto

lemma marks_geometry: "leaves_marks v m \<Longrightarrow> leaves_geometry (snd v) m"
  by (auto simp: leaves_marks_def leaves_geometry_def marks_def)

lemma same_marks_geometry: "marks p' = marks p \<Longrightarrow> ps_geometry_cards p' = ps_geometry_cards p"
  by (simp add: marks_def)

lemma nec4_dispatch_geometry:
  "leaves_geometry (geometry_after c (ps_geometry_cards p)) (dispatch nec4_hooks c p)"
proof (cases "mnemonic c \<in> set nec4_geometry_mnemonics")
  case True
  then have "dispatch nec4_hooks c p = nec4_geometry c p"
    by (simp add: dispatch_def Let_def nec4_hooks_def nec4_geometry_mnemonics_def)
  then show ?thesis
    using True marks_geometry [OF geometry_card_marks [of p c nec4_builders]]
    by (auto simp: nec4_geometry_def geometry_after_def intro!: leaves_geometry_bind)
next
  case False
  then have after: "geometry_after c (ps_geometry_cards p) = ps_geometry_cards p"
    by (simp add: geometry_after_def)
  have kept: "leaves_geometry (ps_geometry_cards p) m" if "leaves_marks (marks p) m" for m
    using marks_geometry [OF that] by (simp add: marks_def)
  have "leaves_geometry (ps_geometry_cards p) (ex_card c (p\<lparr>ps_source_kind := k\<rparr>))" for k
    using marks_geometry [OF ex_card_marks [of "p\<lparr>ps_source_kind := k\<rparr>" c]] by simp
  then have ex: "leaves_geometry (ps_geometry_cards p) (nec4_ex c p)"
    unfolding nec4_ex_def Let_def by (auto intro!: leaves_geometry_bind)
  have gn: "leaves_geometry (ps_geometry_cards p) (nec4_gn c p)"
    unfolding nec4_gn_def Let_def by (intro leaves_geometry_bind) (auto intro!: leaves_geometry_bind kept handlers_marks)
  have ld: "leaves_geometry (ps_geometry_cards p) (nec4_ld c p)"
    unfolding nec4_ld_def by (intro leaves_geometry_bind kept ld_card_marks)
  from False show ?thesis
    unfolding dispatch_def Let_def after
    by (auto simp: nec4_hooks_def nec4_geometry_mnemonics_def nec4_ek_def
        intro!: leaves_marks_bind kept handlers_marks ex gn ld dest!: print_marks)
qed

lemma nec4_read_card_geometry:
  assumes "read_card nec4_hooks c p = Inr p'"
  shows "ps_geometry_cards p' = geometry_after c (ps_geometry_cards p)"
proof -
  have steps: "ps_geometry_cards (ld_run_step nec4_hooks c p) = ps_geometry_cards p"
    "ps_geometry_cards (arm_step c q) = ps_geometry_cards q"
    "ps_geometry_cards (destroyer_step c q) = ps_geometry_cards q" for q
    by (simp_all add: ld_run_step_def arm_step_def destroyer_step_def discard_loads_def Let_def)
  have quiet: "mnemonic c = ''CM'' \<or> mnemonic c = ''CE'' \<or> mnemonic c \<in> set network_cards \<Longrightarrow>
      geometry_after c (ps_geometry_cards p) = ps_geometry_cards p"
    by (auto simp: geometry_after_def nec4_geometry_mnemonics_def geometry_cards_def network_cards_def)
  have "leaves_geometry (geometry_after c (ps_geometry_cards p)) (read_card nec4_hooks c p)"
    unfolding read_card_def Let_def
    using marks_geometry [OF handlers_marks(6) [of "ld_run_step nec4_hooks c p" c]] quiet
      marks_geometry [OF network_marks [of "arm_step c (ld_run_step nec4_hooks c p)" "hk_builders nec4_hooks" c]]
      nec4_dispatch_geometry [of c "destroyer_step c (arm_step c (ld_run_step nec4_hooks c p))"]
    by (auto simp: steps marks_def intro!: leaves_geometry_bind split: option.split)
  then show ?thesis
    using assms by (simp add: leaves_geometry_def)
qed

definition nec4_structure :: "string \<Rightarrow> pyexn + nec2_structure" where
  \<comment> \<open>the structure the geometry cards of a deck make\<close>
  "nec4_structure deck = build_geometry nec4_builders
     (filter (\<lambda>c. mnemonic c \<in> set nec4_geometry_mnemonics) (deck_cards (splitlines deck)))"

lemma nec4_structure_read:
  assumes "read_cards nec4_hooks init_nec4_parser (deck_cards (splitlines deck)) = Inr q"
    and "build_geometry nec4_builders (ps_geometry_cards q) = Inr s"
  shows "nec4_structure deck = Inr s"
proof -
  have "ps_geometry_cards p' = ps_geometry_cards p @ filter (\<lambda>c. mnemonic c \<in> set nec4_geometry_mnemonics) cs"
    if "read_cards nec4_hooks p cs = Inr p'" for p p' :: nec4_parser and cs
    using that
  proof (induction cs arbitrary: p)
    case (Cons c cs)
    then obtain p1 where "read_card nec4_hooks c p = Inr p1" "read_cards nec4_hooks p1 cs = Inr p'"
      by (auto simp: okE)
    with Cons.IH [of p1] nec4_read_card_geometry [of c p p1] show ?case
      by (simp add: geometry_after_def)
  qed simp
  from this [OF assms(1)] assms(2) show ?thesis
    by (simp add: nec4_structure_def init_nec4_parser_def parser.extend_def init_parser_def)
qed

lemma model_current_feeds: "model h p = Inr m \<Longrightarrow> dm_current_feeds m = []"
  by (auto simp: model_def okE split: if_splits)

lemma parse_nec4_model:
  assumes "parse_nec4 deck = Inr m"
  obtains q p :: nec4_parser and s used where
    "read_cards nec4_hooks init_nec4_parser (deck_cards (splitlines deck)) = Inr q"
    "p = q\<lparr>ps_structure := Some s\<rparr>" "parser_ok nec4_builders p" "structure_ok s"
    "set used = used_loads p" "feeds_and_groups s used p = Inr (dm_feeds m, dm_groups m)"
    "current_ports (ps_source_kind q) (port_order q) = Inr (dm_current_feeds m)"
    "dm_extended_kernel_default m" "dm_junction_rule m = ''nec42''" "nec4_structure deck = Inr s"
proof -
  have b: "hk_builders nec4_hooks = nec4_builders"
    by (simp add: nec4_hooks_def)
  obtain p m0 current where p: "feed nec4_hooks deck init_nec4_parser = Inr p" "model nec4_hooks p = Inr m0"
    "current_ports (ps_source_kind p) (port_order p) = Inr current"
    and m: "m = m0\<lparr>dm_current_feeds := (if current \<noteq> [] then current else dm_current_feeds m0),
              dm_extended_kernel_default := True, dm_junction_rule := ''nec42''\<rparr>"
    using assms by (auto simp: parse_nec4_def nec4_model_def okE)
  have current: "dm_current_feeds m = current"
    using m model_current_feeds [OF p(2)] by simp
  show thesis
  proof (rule nec4.feed_model [OF p(1,2) init_nec4_ok], unfold b)
    fix q s used mats
    assume q: "read_cards nec4_hooks init_nec4_parser (deck_cards (splitlines deck)) = Inr q"
      "p = q\<lparr>ps_structure := Some s\<rparr>" "parser_ok nec4_builders p" "structure_ok s"
      and built: "build_geometry nec4_builders (ps_geometry_cards q) = Inr s"
      and lm: "loads_and_materials p = Inr (dm_loads m0, used, mats)"
      and fg: "feeds_and_groups s used p = Inr (dm_feeds m0, dm_groups m0)"
    have "set used = used_loads p"
      using lm by (cases mats, simp add: loads_and_materials_eq)
    then show thesis
      using that [OF q] fg p(3) current m q(2) nec4_structure_read [OF q(1) built] by simp
  qed
qed

end
