(* ===== verification/Example_Nec4.thy ===== *)
theory Example_Nec4
  imports Nec4_Reading Example_Deck
begin

text \<open>
  A NEC-4.2 deck read card by card: the dipole of \<open>Example_Deck\<close> driven by a current source,
  with an EK card that asks for the reduced kernel.
\<close>

definition ek_example :: card where
  "ek_example = plain_card ''EK'' [-1] ''EK -1''"

definition ex6_example :: card where
  "ex6_example = plain_card ''EX'' [6, 1, 2, 0, 2] ''EX 6 1 2 0 2''"

lemmas nec4_cards = ek_example_def ex6_example_def

lemma parse_ek: "parse_card ''EK -1'' = Inr (Some ek_example)"
  by (simp add: Let_def nec4_cards plain_card_def eval_text eval_number eval_card)

lemma parse_ex6: "parse_card ''EX 6 1 2 0 2'' = Inr (Some ex6_example)"
  by (simp add: Let_def nec4_cards plain_card_def eval_text eval_number eval_card)

lemma example_geometry4: "build_geometry nec4_builders [gw_example, ge_example] = Inr example_structure"
proof -
  have "geometry_step nec4_builders st c = geometry_step geometry_builders st c" if "c \<in> {gw_example, ge_example}" for st c
    using that by (auto simp: geometry_step_def nec4_builders_def gw_example_def ge_example_def)
  then have "build_wires nec4_builders [gw_example, ge_example] = build_wires geometry_builders [gw_example, ge_example]"
    by (simp add: build_wires_def cong: bindE_cong)
  with example_geometry show ?thesis
    by (simp add: build_geometry_def)
qed

section \<open>The states\<close>

definition start4 :: nec4_parser where
  "start4 = init_nec4_parser\<lparr>ps_geometry_cards := [gw_example]\<rparr>"

definition ready4 :: nec4_parser where
  "ready4 = init_nec4_parser\<lparr>ps_geometry_cards := [gw_example, ge_example],
     ps_structure := Some example_structure\<rparr>"

definition driven4 :: nec4_parser where
  "driven4 = ready4\<lparr>ps_source_kind := [(1, 2) \<mapsto> 6], ps_saw_ex := True,
     ps_sources := [(1, 2, (Fin 2, Fin 0))]\<rparr>"

definition pending4 :: pending_group where
  "pending4 = \<lparr>pg_sources = [(1, 2, (Fin 2, Fin 0))], pg_frequencies = [default_frequency_mhz],
     pg_request = None, pg_print_control = None, pg_extended_kernel = True, pg_multiprocessing = None,
     pg_environment = \<lparr>env_ground = NoGround, env_ground_z = Fin 0, env_second_medium = None\<rparr>,
     pg_refilled = True, pg_refilled_partial = False, pg_loads = [],
     pg_materials = (None, [], None, [])\<rparr>"

definition done4 :: nec4_parser where
  "done4 = driven4\<lparr>ps_groups := [Some pending4], ps_executed := 1, ps_armed := False,
     ps_sources_stale := True\<rparr>"

lemmas states4 = done4_def driven4_def ready4_def start4_def init_nec4_parser_def parser.defs init_parser_def

lemma nec4_read:
  assumes "mnemonic c \<in> {''GW'', ''GE'', ''EK'', ''EX'', ''XQ''}" "mnemonic c = ''GW'' \<longrightarrow> gw_field_refusal c = Inr None"
    and "ps_networks p = []" "ps_executed p = 0" "\<not> ps_ld_run_open p" "ps_armed p"
  shows "read_card nec4_hooks c p = dispatch nec4_hooks c p"
proof -
  have "ld_run_step nec4_hooks c p = p" "arm_step c p = p" "destroyer_step c p = p"
    using assms(1,3-6) by (auto simp: ld_run_step_def arm_step_def destroyer_step_def)
  then show ?thesis
    using assms(1,2) by (auto simp: read_card_def Let_def nec4_hooks_def refused_by_name_def network_cards_def)
qed

lemma nec4_dispatch:
  "mnemonic c \<in> set geometry_cards \<Longrightarrow> dispatch nec4_hooks c p = nec4_geometry c p"
  "mnemonic c = ''EK'' \<Longrightarrow> dispatch nec4_hooks c p = nec4_ek c p"
  "mnemonic c = ''EX'' \<Longrightarrow> dispatch nec4_hooks c p = nec4_ex c p"
  "mnemonic c = ''XQ'' \<Longrightarrow> dispatch nec4_hooks c p = execute nec4_hooks c p"
  by (auto simp: dispatch_def Let_def nec4_hooks_def geometry_cards_def execute_cards_def)

lemma names4:
  "mnemonic gw_example = ''GW''" "mnemonic ge_example = ''GE''" "mnemonic ek_example = ''EK''"
  "mnemonic ex6_example = ''EX''" "mnemonic xq_example = ''XQ''"
  by (simp_all add: gw_example_def ge_example_def nec4_cards xq_example_def)

lemma read4_gw: "read_card nec4_hooks gw_example init_nec4_parser = Inr start4"
  by (subst nec4_read) (simp_all add: names4 gw_fields nec4_dispatch geometry_cards_def nec4_geometry_def
      geometry_card_def states4)

lemma read4_ge: "read_card nec4_hooks ge_example start4 = Inr ready4"
proof -
  have "card_i ge_example 0 = Inr (-1)" "card_i ge_example (Suc 0) = Inr 0"
    by (simp_all add: ge_example_def int_of_plain)
  then show ?thesis
    by (subst nec4_read)
       (simp_all add: names4 gw_fields nec4_dispatch geometry_cards_def nec4_geometry_def ge_second_def
          geometry_card_def the_structure_def example_geometry4 states4)
qed

lemma read4_ek: "read_card nec4_hooks ek_example ready4 = Inr ready4"
  by (subst nec4_read) (simp_all add: names4 gw_fields nec4_dispatch nec4_ek_def states4)

lemma read4_ex: "read_card nec4_hooks ex6_example ready4 = Inr driven4"
proof -
  have "card_i ex6_example 0 = Inr 6" "card_i ex6_example (Suc 0) = Inr 1" "card_i ex6_example 2 = Inr 2"
    "card_f ex6_example 4 = Fin 2" "card_f ex6_example 5 = Fin 0"
    by (simp_all add: ex6_example_def int_of_plain)
  then show ?thesis
    by (subst nec4_read)
       (simp_all add: names4 gw_fields nec4_dispatch nec4_ex_def Let_def ex_element_def ex_voltage_def
          ex_current_def states4)
qed

lemma read4_xq: "read_card nec4_hooks xq_example driven4 = Inr done4"
  by (subst nec4_read)
     (simp_all add: names4 gw_fields nec4_dispatch execute_def pending_def Let_def material_state_def pending4_def states4)

section \<open>The deck\<close>

definition nec4_lines :: "string list" where
  "nec4_lines = [gw_line, ''GE -1'', ''EK -1'', ''EX 6 1 2 0 2'', ''XQ'', ''EN'']"

definition nec4_deck :: string where
  "nec4_deck = concat (map (\<lambda>l. l @ [CHR 0x0A]) nec4_lines)"

lemma nec4_splitlines: "splitlines nec4_deck = nec4_lines"
  by (simp add: nec4_deck_def nec4_lines_def gw_line_def splitlines_def eval_text)

lemma nec4_deck_cards:
  "deck_cards (splitlines nec4_deck) = [gw_example, ge_example, ek_example, ex6_example, xq_example]"
proof -
  obtain en where "parse_card ''EN'' = Inr (Some en)" "mnemonic en = ''EN''"
    using parse_en by blast
  then show ?thesis
    by (simp add: nec4_splitlines nec4_lines_def parse_gw parse_ge parse_ek parse_ex6 parse_xq terminators_def names4)
qed

lemma line_names4:
  "named_refusal nec4_hooks gw_line = None" "named_refusal nec4_hooks ''GE -1'' = None"
  "named_refusal nec4_hooks ''EK -1'' = None" "named_refusal nec4_hooks ''EX 6 1 2 0 2'' = None"
  "named_refusal nec4_hooks ''XQ'' = None" "named_refusal nec4_hooks ''EN'' = None"
  by (simp_all add: named_refusal_def gw_line_def eval_text nec4_hooks_def refused_by_name_def)

lemma feed4: "feed nec4_hooks nec4_deck init_nec4_parser = Inr done4"
proof -
  obtain en where "parse_card ''EN'' = Inr (Some en)" "mnemonic en = ''EN''"
    using parse_en by blast
  then have "feed_lines nec4_hooks nec4_lines init_nec4_parser = Inr done4"
    by (simp add: nec4_lines_def line_names4 parse_gw parse_ge parse_ek parse_ex6 parse_xq read4_gw read4_ge read4_ek
        read4_ex read4_xq terminators_def names4)
  moreover have "the_structure b done4 = Inr (example_structure, done4)" for b
    by (simp add: the_structure_def states4)
  ultimately show ?thesis
    by (simp add: feed_def nec4_splitlines)
qed

definition group4 :: execute_group where
  "group4 = \<lparr>eg_frequencies = [default_frequency_mhz], eg_voltages = [(Fin 2, Fin 0)],
     eg_request = None, eg_print_control = None, eg_extended_kernel = True,
     eg_multiprocessing = None, eg_refilled = True, eg_refilled_partial = False,
     eg_environment = \<lparr>env_ground = NoGround, env_ground_z = Fin 0, env_second_medium = None\<rparr>,
     eg_loads = Some []\<rparr>"

definition model4 :: deck_model where
  "model4 = example_model\<lparr>dm_feeds := [(0, Fin (3 / 2), (Fin 2, Fin 0))], dm_loads := [],
     dm_ground := NoGround, dm_second_medium := None, dm_groups := [Some group4],
     dm_current_feeds := [0], dm_extended_kernel_default := True, dm_junction_rule := ''nec42''\<rparr>"

lemma nec4_parse: "parse_nec4 nec4_deck = Inr model4"
proof -
  have kept: "the_structure b done4 = Inr (example_structure, done4)" for b
    by (simp add: the_structure_def states4)
  have lm: "loads_and_materials done4 = Inr ([], [], (None, [], None, []))"
    by (simp add: loads_and_materials_def List.map_filter_def states4 pending4_def)
  have fg: "feeds_and_groups example_structure [] done4 = Inr (dm_feeds model4, dm_groups model4)"
    by (simp add: feeds_and_groups_def all_sources_def List.map_filter_def states4 pending4_def
        feed_source_def example_resolve final_group_def voltage_step_def lookupE_def model4_def group4_def)
  have other: "ps_saw_ex done4" "ps_wire_insulation done4 = Map.empty" "\<not> grounded (dm_groups model4) done4"
    by (simp_all add: states4 grounded_def model4_def group4_def)
  have order: "port_order done4 = [(1, 2)]" "ps_source_kind done4 = [(1, 2) \<mapsto> 6]"
    by (simp_all add: port_order_def all_sources_def List.map_filter_def states4 pending4_def dedup_def)
  have "model nec4_hooks done4 = Inr (model4\<lparr>dm_current_feeds := [], dm_extended_kernel_default := False,
      dm_junction_rule := ''nec2''\<rparr>)"
    using other by (simp add: model_def kept lm example_wires fg)
      (simp add: model4_def example_model_def states4 example_structure_def)
  then show ?thesis
    by (simp add: parse_nec4_def feed4 nec4_model_def current_ports_def order lookupE_def ex_current_def model4_def)
qed

end
