(* ===== verification/Nec4_Properties.thy ===== *)
theory Nec4_Properties
  imports Example_Nec4
begin

text \<open>
  The properties of the NEC-4.2 dialect: what it adds to the deck reader.
\<close>

text \<open>C26: reading a NEC-4.2 deck never fails an assertion, never looks up a missing key and never
  loops for ever; in particular every port of the model has a source kind.\<close>

theorem parse_nec4_no_internal:
  "parse_nec4 deck \<noteq> Inl KeyError \<and> parse_nec4 deck \<noteq> Inl AssertionError \<and>
   parse_nec4 deck \<noteq> Inl Diverges"
proof -
  have b: "hk_builders nec4_hooks = nec4_builders"
    by (simp add: nec4_hooks_def)
  have "clean (nec4_model p)" if p: "feed nec4_hooks deck init_nec4_parser = Inr p" for p
  proof -
    have "parser_ok nec4_builders p"
      using nec4.feed_ok [OF init_nec4_ok, of deck] p by (simp add: b)
    then have "clean (model nec4_hooks p)"
      using nec4.clean_model [of p] by (simp add: b)
    moreover obtain q where "read_cards nec4_hooks init_nec4_parser (deck_cards (splitlines deck)) = Inr q"
      "ps_source_kind p = ps_source_kind q" "port_order p = port_order q"
      using p by (rule nec4_feed_cards)
    then have "clean (current_ports (ps_source_kind p) (port_order p))"
      using clean_current_ports by simp
    ultimately show ?thesis
      by (simp add: nec4_model_def clean_bind)
  qed
  moreover have "clean (feed nec4_hooks deck init_nec4_parser)"
    using nec4.feed_ok [OF init_nec4_ok, of deck] by (rule ok_result_clean)
  ultimately have "clean (parse_nec4 deck)"
    unfolding parse_nec4_def by (intro clean_bind)
  then show ?thesis
    by (auto simp: clean_def internal_def)
qed

lemma current_ports_kinds:
  assumes "current_ports kinds order = Inr current"
  shows "\<forall>i < length order. kinds (order ! i) \<noteq> None"
    and "current = filter (\<lambda>i. kinds (order ! i) = Some ex_current) [0..<length order]"
proof -
  obtain ks where ks: "mapE (lookupE kinds) order = Inr ks"
    and m: "current = map fst (filter (\<lambda>(i, k). k = ex_current) (enumerate 0 ks))"
    using assms by (auto simp: current_ports_def okE)
  have len: "length ks = length order"
    using mapE_length [OF ks] .
  have kind: "kinds (order ! i) = Some (ks ! i)" if "i < length order" for i
    using mapE_nth [OF ks that] by (simp add: lookupE_def split: option.splits)
  have "enumerate 0 ks = map (\<lambda>i. (i, ks ! i)) [0..<length ks]"
    by (rule nth_equalityI) (simp_all add: nth_enumerate_eq)
  then show "current = filter (\<lambda>i. kinds (order ! i) = Some ex_current) [0..<length order]"
    unfolding m using kind by (simp add: len filter_map comp_def) (rule filter_cong; simp)
  show "\<forall>i < length order. kinds (order ! i) \<noteq> None"
    using kind by simp
qed

text \<open>C25: a port has one kind for the whole deck: the EX cards of one address all have one type,
  0 or 6.  The ports of the model are a list of addresses, none twice and each named by an EX card;
  the feeds are where these resolve to on the structure of the deck, in the same order; and the
  current feeds are the feeds whose address an EX 6 card drives.\<close>

theorem nec4_current_feeds:
  assumes "parse_nec4 deck = Inr m"
  shows "\<exists>s order. nec4_structure deck = Inr s \<and> distinct order \<and>
    list_all2 (\<lambda>(tag, seg) (wire, a, v). resolve s tag seg = Inr (wire, a)) order (dm_feeds m) \<and>
    set order \<subseteq> ex_address ` {c \<in> set (deck_cards (splitlines deck)). excites c} \<and>
    dm_current_feeds m = filter (\<lambda>i. \<exists>c \<in> set (deck_cards (splitlines deck)).
      excites c \<and> ex_address c = order ! i \<and> ex_kind c = 6) [0..<length order] \<and>
    (\<forall>c \<in> set (deck_cards (splitlines deck)). \<forall>c' \<in> set (deck_cards (splitlines deck)).
      excites c \<and> excites c' \<and> ex_address c = ex_address c' \<longrightarrow> ex_kind c = ex_kind c') \<and>
    (\<forall>c \<in> set (deck_cards (splitlines deck)). excites c \<longrightarrow> ex_kind c \<in> {0, 6})"
proof -
  let ?cs = "deck_cards (splitlines deck)"
  obtain q p :: nec4_parser and s used where q: "read_cards nec4_hooks init_nec4_parser ?cs = Inr q"
    and p: "p = q\<lparr>ps_structure := Some s\<rparr>" "set used = used_loads p"
    and fg: "feeds_and_groups s used p = Inr (dm_feeds m, dm_groups m)"
    and current: "current_ports (ps_source_kind q) (port_order q) = Inr (dm_current_feeds m)"
    and s: "nec4_structure deck = Inr s"
    using assms by (rule parse_nec4_model)
  define order where "order = port_order q"
  have kind: "ps_source_kind q (ex_address c) = Some (ex_kind c)" if "c \<in> set ?cs" "excites c" for c
    using nec4_read_kinds(3) [OF q] that by blast
  have "set (pg_loads g) \<subseteq> set used" if "Some g \<in> set (ps_groups p)" for g
    using group_loads_used [OF that] p(2) by simp
  from feeds_and_groups_ok [OF fg this]
  have "list_all2 (\<lambda>(tag, seg) (wire, a, v). resolve s tag seg = Inr (wire, a)) order (dm_feeds m)"
    using p(1) by (auto simp: order_def port_order_keys [symmetric])
  moreover have dist: "distinct order"
    by (simp add: order_def port_order_keys)
  moreover have sub: "set order \<subseteq> ex_address ` {c \<in> set ?cs. excites c}"
    using nec4_port_order [OF q] by (simp add: order_def)
  moreover have "dm_current_feeds m = filter (\<lambda>i. \<exists>c \<in> set ?cs.
      excites c \<and> ex_address c = order ! i \<and> ex_kind c = 6) [0..<length order]"
  proof -
    have "(ps_source_kind q (order ! i) = Some 6) \<longleftrightarrow>
        (\<exists>c \<in> set ?cs. excites c \<and> ex_address c = order ! i \<and> ex_kind c = 6)" if i: "i < length order" for i
    proof -
      obtain c where "c \<in> set ?cs" "excites c" "ex_address c = order ! i"
        using sub nth_mem [OF i] by force
      with kind show ?thesis by fastforce
    qed
    then show ?thesis
      using current_ports_kinds(2) [OF current] by (auto simp: ex_current_def order_def intro!: filter_cong)
  qed
  moreover have "\<forall>c \<in> set ?cs. \<forall>c' \<in> set ?cs.
      excites c \<and> excites c' \<and> ex_address c = ex_address c' \<longrightarrow> ex_kind c = ex_kind c'"
    using kind by (metis option.inject)
  moreover have "\<forall>c \<in> set ?cs. excites c \<longrightarrow> ex_kind c \<in> {0, 6}"
    using nec4_read_kinds(3) [OF q] by blast
  ultimately show ?thesis
    using s by (intro exI [of _ s] exI [of _ order] conjI)
qed

theorem nec4_current_feeds_witness:
  "\<exists>order. length order = length (dm_feeds model4) \<and> dm_current_feeds model4 = [0] \<and>
     order = [ex_address ex6_example] \<and> ex_kind ex6_example = 6"
proof -
  have only: "{c \<in> set (deck_cards (splitlines nec4_deck)). excites c} = {ex6_example}"
    by (auto simp: nec4_deck_cards excites_def names4)
  obtain s order where
    "list_all2 (\<lambda>(tag, seg) (wire, a, v). resolve s tag seg = Inr (wire, a)) order (dm_feeds model4)"
    and order2: "set order \<subseteq> ex_address ` {c \<in> set (deck_cards (splitlines nec4_deck)). excites c}"
    using nec4_current_feeds [OF nec4_parse] by blast
  then have order: "length order = length (dm_feeds model4)"
    by (simp add: list_all2_lengthD)
  then obtain a where "order = [a]"
    by (auto simp: model4_def length_Suc_conv)
  with order2 only have "order = [ex_address ex6_example]"
    by simp
  moreover have "ex_kind ex6_example = 6"
    by (simp add: ex_kind_def ex6_example_def int_of_plain)
  ultimately show ?thesis
    using order by (simp add: model4_def)
qed

text \<open>Every run of a NEC-4.2 deck solves with the extended kernel, whatever EK cards it has.\<close>

theorem nec4_kernel_is_extended:
  assumes "parse_nec4 deck = Inr m"
  shows "dm_extended_kernel_default m \<and> (\<forall>g. Some g \<in> set (dm_groups m) \<longrightarrow> eg_extended_kernel g)"
proof -
  obtain q p :: nec4_parser and s used where
    q: "read_cards nec4_hooks init_nec4_parser (deck_cards (splitlines deck)) = Inr q"
    and p: "p = q\<lparr>ps_structure := Some s\<rparr>" "set used = used_loads p"
    and fg: "feeds_and_groups s used p = Inr (dm_feeds m, dm_groups m)"
    and default: "dm_extended_kernel_default m"
    using assms by (rule parse_nec4_model)
  have "extended q"
    using q by (rule nec4_read_cards_extended) (simp add: extended_def)
  then have ext: "pg_extended_kernel g" if "Some g \<in> set (ps_groups p)" for g
    using that p(1) by (simp add: extended_def)
  have "set (pg_loads g) \<subseteq> set used" if "Some g \<in> set (ps_groups p)" for g
    using group_loads_used [OF that] p(2) by simp
  from feeds_and_groups_ok [OF fg this] obtain order where
    groups: "list_all2 (group_of order used) (ps_groups p) (dm_groups m)"
    by blast
  have "eg_extended_kernel e" if e: "Some e \<in> set (dm_groups m)" for e
  proof -
    obtain i where i: "i < length (dm_groups m)" "dm_groups m ! i = Some e"
      using e by (auto simp: in_set_conv_nth)
    then have g: "group_of order used (ps_groups p ! i) (Some e)" "i < length (ps_groups p)"
      using groups by (auto simp: list_all2_conv_all_nth)
    then obtain pg where "ps_groups p ! i = Some pg" "eg_extended_kernel e = pg_extended_kernel pg"
      by (auto simp: group_of_def split: option.splits)
    with ext g(2) show ?thesis
      by (metis nth_mem)
  qed
  with default show ?thesis by blast
qed

theorem nec4_kernel_is_extended_witness:
  "mnemonic ek_example = ''EK'' \<and> ek_example \<in> set (deck_cards (splitlines nec4_deck)) \<and>
   dm_extended_kernel_default model4 \<and> eg_extended_kernel group4"
  using nec4_kernel_is_extended [OF nec4_parse]
  by (simp add: nec4_deck_cards names4) (simp add: model4_def)

text \<open>C37: every RP, NE or NH card of an accepted NEC-4.2 deck is read, whether it runs or asks for one
  more table of the run before it: its mode or coordinate system is one the dialect knows.\<close>

theorem nec4_reads_every_table:
  fixes p p' :: "'b nec4_parser_scheme"
  assumes "read_cards nec4_hooks p cs = Inr p'" "c \<in> set cs"
  shows "(mnemonic c = ''RP'' \<longrightarrow> (\<exists>mode \<in> {0, 2, 3}. card_i c 0 = Inr mode)) \<and>
    (mnemonic c = ''NE'' \<or> mnemonic c = ''NH'' \<longrightarrow> (\<exists>k \<in> {0, 1}. card_i c 0 = Inr k))"
proof -
  obtain pre post where cs: "cs = pre @ c # post"
    using assms(2) by (metis split_list)
  obtain q q' :: "'b nec4_parser_scheme" where q: "read_card nec4_hooks c q = Inr q'"
    using assms(1) [unfolded cs] by (rule read_cards_split)
  let ?q = "destroyer_step c (arm_step c (ld_run_step nec4_hooks c q))"
  have "execute nec4_hooks c ?q = Inr q'" if "mnemonic c \<in> {''RP'', ''NE'', ''NH''}"
    using q that by (auto simp: read_card_def Let_def dispatch_def nec4_hooks_def geometry_cards_def
        refused_by_name_def network_cards_def execute_cards_def)
  moreover have "hk_unarmed_execute (nec4_hooks :: 'b nec4_parser_ext hooks) = nec4_unarmed_execute"
    "hk_near_coordinates (nec4_hooks :: 'b nec4_parser_ext hooks) = nec4_near_coordinates"
    by (simp_all add: nec4_hooks_def)
  ultimately show ?thesis
    by (auto simp: execute_def nec4_unarmed_execute_def okE far_field_def near_field_def nec4_near_coordinates_def
        rp_modes_def split: if_splits)
qed

definition rp_example :: card where
  "rp_example = plain_card ''RP'' [2, 1, 1] ''RP 2 1 1''"

theorem nec4_reads_every_table_witness:
  "read_cards nec4_hooks done4 [rp_example] = Inr (done4\<lparr>ps_groups := [Some pending4, None]\<rparr>) \<and>
   (\<exists>mode \<in> {0, 2, 3}. card_i rp_example 0 = Inr mode)"
proof
  have m: "mnemonic rp_example = ''RP''"
    by (simp add: rp_example_def)
  have f: "card_i rp_example 0 = Inr 2" "card_i rp_example (Suc 0) = Inr 1" "card_i rp_example 2 = Inr 1"
    by (simp_all add: rp_example_def int_of_plain)
  have "ps_ground done4 = NoGround" "ps_networks done4 = []" "\<not> ps_ld_run_open done4" "\<not> ps_armed done4"
    "ps_executed done4 = 1"
    by (simp_all add: states4)
  moreover from this have "ld_run_step nec4_hooks rp_example done4 = done4" "arm_step rp_example done4 = done4"
    "destroyer_step rp_example done4 = done4"
    by (simp_all add: ld_run_step_def arm_step_def destroyer_step_def m arming_cards_def)
  ultimately show r: "read_cards nec4_hooks done4 [rp_example] = Inr (done4\<lparr>ps_groups := [Some pending4, None]\<rparr>)"
    by (simp add: read_card_def Let_def m nec4_hooks_def refused_by_name_def network_cards_def dispatch_def
        geometry_cards_def execute_cards_def execute_def nec4_unarmed_execute_def far_field_def f rp_modes_def)
       (simp add: done4_def)
  show "\<exists>mode \<in> {0, 2, 3}. card_i rp_example 0 = Inr mode"
    using nec4_reads_every_table [OF r, of rp_example] m by simp
qed

text \<open>GN 3 is GN 2: a GN 3 card is accepted exactly when the card with 2 in its place is, and
  leaves the same ground.\<close>

theorem gn3_reads_as_gn2:
  assumes "card_i c 0 = Inr 3"
  shows "nec4_gn c p = Inr q \<longleftrightarrow> nec4_gn (c\<lparr>vals := Fin 2 # tl (vals c)\<rparr>) p = Inr q"
proof -
  obtain v vs where v: "vals c = v # vs"
    using assms by (cases "vals c") (auto simp: card_i_def card_f_def)
  let ?c = "\<lparr>mnemonic = mnemonic c, vals = Fin 2 # vs, raw = raw c, trailer = None\<rparr>"
  have two: "card_i ?c 0 = Inr 2"
    by (simp add: card_i_def card_f_def)
  have screen: "gn_card ?c p = Inr q \<Longrightarrow> card_i ?c 1 = Inr 0"
    by (auto simp: gn_card_def okE two)
  have three: "card_i (c\<lparr>trailer := None\<rparr>) 0 = Inr 3"
    using assms v by (cases v) (auto simp: card_i_def card_f_def)
  have one: "card_i (c\<lparr>trailer := None\<rparr>) 1 = card_i ?c 1"
    by (auto simp: card_i_def card_f_def v split: flt.splits)
  have eq: "c\<lparr>trailer := None, vals := Fin 2 # tl (vals (c\<lparr>trailer := None\<rparr>))\<rparr> = ?c"
    "c\<lparr>vals := Fin 2 # tl (vals c), trailer := None\<rparr> = ?c"
    by (simp_all add: v)
  have "nec4_gn c p = Inr q \<longleftrightarrow> card_i ?c 1 = Inr 0 \<and> \<not> card_f ?c 4 \<le> Fin 0 \<and> gn_card ?c p = Inr q"
    unfolding nec4_gn_def Let_def three bindE_Inr one eq by (auto simp: okE two)
  moreover have "nec4_gn (c\<lparr>vals := Fin 2 # tl (vals c)\<rparr>) p = Inr q \<longleftrightarrow>
      \<not> card_f ?c 4 \<le> Fin 0 \<and> gn_card ?c p = Inr q"
    unfolding nec4_gn_def Let_def eq by (auto simp: okE two)
  ultimately show ?thesis
    using screen by blast
qed

theorem gn3_reads_as_gn2_witness:
  "\<exists>q. nec4_gn (plain_card ''GN'' [3, 0, 0, 0, 13, 1 / 200] []) init_nec4_parser = Inr q \<and>
     nec4_gn (plain_card ''GN'' [2, 0, 0, 0, 13, 1 / 200] []) init_nec4_parser = Inr q \<and>
     ps_ground q = FiniteGround ''finite'' (Fin 13) (Fin (1 / 200))"
proof -
  let ?c = "plain_card ''GN'' [3, 0, 0, 0, 13, 1 / 200] []"
  let ?d = "plain_card ''GN'' [2, 0, 0, 0, 13, 1 / 200] []"
  have d: "?c\<lparr>vals := Fin 2 # tl (vals ?c)\<rparr> = ?d"
    by (simp add: plain_card_def)
  have t: "?d\<lparr>trailer := None\<rparr> = ?d"
    by (simp add: plain_card_def)
  have "card_i ?d 0 = Inr 2" "card_i ?d 1 = Inr 0" "card_f ?d 4 = Fin 13" "card_f ?d 5 = Fin (1 / 200)"
    "trailer ?d = None"
    by (simp_all add: int_of_plain)
  then obtain q where q: "nec4_gn ?d init_nec4_parser = Inr q"
    "ps_ground q = FiniteGround ''finite'' (Fin 13) (Fin (1 / 200))"
    unfolding nec4_gn_def Let_def t by (simp add: gn_card_def)
  have "card_i ?c 0 = Inr 3"
    by (simp add: int_of_plain)
  from gn3_reads_as_gn2 [OF this, of init_nec4_parser q, unfolded d] q show ?thesis
    by blast
qed

end
