(* ===== verification/Curve_Laws.thy ===== *)
theory Curve_Laws
  imports Nec4_Curves
begin

text \<open>
  The curves of the NEC-4.2 geometry cards: the catenary in its textbook form and the
  log-spiral's radii.
\<close>

section \<open>Arithmetic\<close>

lemma quotient_Fin:
  "b \<noteq> 0 \<Longrightarrow> x / Fin b = Fin r \<longleftrightarrow> (\<exists>a. x = Fin a \<and> r = a / b \<and> \<bar>a / b\<bar> < flt_limit)"
  by (cases x) (auto simp: divide_flt_def)

lemma fsinh_Fin: "fsinh x = Inr (Fin s) \<longleftrightarrow> (\<exists>r. x = Fin r \<and> s = sinh r \<and> \<bar>sinh r\<bar> < flt_limit)"
  by (cases x) (auto simp: fsinh_def)

lemma fcosh_Fin: "fcosh x = Inr (Fin s) \<longleftrightarrow> (\<exists>r. x = Fin r \<and> s = cosh r \<and> cosh r < flt_limit)"
  by (cases x) (auto simp: fcosh_def)

lemma fasinh_Fin: "fasinh x = Fin s \<longleftrightarrow> (\<exists>r. x = Fin r \<and> s = arsinh r)"
  by (cases x) (auto simp: fasinh_def)

definition shc :: "real \<Rightarrow> real" where
  "shc x = (if x = 0 then 1 else sinh x / x)"

lemma shc_pos: "0 < shc x"
  by (cases "0 < x") (auto simp: shc_def field_simps divide_neg_neg not_less)

lemma shc_mult: "x * shc x = sinh x"
  by (simp add: shc_def)

lemma sinhc_Fin: "sinhc x = Inr (Fin s) \<longleftrightarrow> (\<exists>r. x = Fin r \<and> s = shc r \<and> (r \<noteq> 0 \<longrightarrow> \<bar>sinh r\<bar> < flt_limit \<and> \<bar>sinh r / r\<bar> < flt_limit))"
proof (cases x)
  case (Fin r)
  then show ?thesis
    by (cases "r = 0") (auto simp: sinhc_def shc_def fsinh_def divide_flt_def okE)
qed (auto simp: sinhc_def fsinh_def feq_def divide_flt_def)

section \<open>The catenary\<close>

definition vertex_at :: "real \<Rightarrow> real \<Rightarrow> real \<Rightarrow> real" where
  \<comment> \<open>where the curve of curvature \<open>k\<close> through (0, 0) and (\<open>d\<close>, \<open>h\<close>) is level\<close>
  "vertex_at k d h = d / 2 - arsinh (k * h / (2 * sinh (k * d / 2))) / k"

definition hang :: "real \<Rightarrow> real \<Rightarrow> real \<Rightarrow> real \<Rightarrow> real" where
  "hang k d h u = (cosh (k * (u - vertex_at k d h)) - cosh (k * vertex_at k d h)) / k"

definition arc :: "real \<Rightarrow> real \<Rightarrow> real \<Rightarrow> real \<Rightarrow> real" where
  "arc k d h u = (sinh (k * (u - vertex_at k d h)) + sinh (k * vertex_at k d h)) / k"

lemma sinh_sinh: "2 * (sinh a * sinh b) = cosh (a + b) - cosh (a - b)" for a b :: real
  by (simp add: cosh_add cosh_diff)

lemma sinh_cosh: "2 * (sinh b * cosh a) = sinh (a + b) + sinh (b - a)" for a b :: real
  by (simp add: sinh_add sinh_diff)

lemma offset_vertex:
  assumes "k \<noteq> 0" "0 < d"
  shows "arsinh (h / (d * shc (k * d / 2))) = k * d / 2 - k * vertex_at k d h"
proof -
  have "k * d / 2 \<noteq> 0"
    using assms by simp
  then have "d * shc (k * d / 2) = 2 * sinh (k * d / 2) / k"
    using assms by (simp add: shc_def)
  then have eq: "h / (d * shc (k * d / 2)) = k * h / (2 * sinh (k * d / 2))"
    by simp
  show ?thesis
    unfolding eq vertex_at_def using assms(1) by (simp add: right_diff_distrib)
qed

lemma hang_0 [simp]: "hang k d h 0 = 0"
  by (simp add: hang_def)

lemma arc_0 [simp]: "arc k d h 0 = 0"
  by (simp add: arc_def)

lemma hang_end:
  assumes "k \<noteq> 0" "0 < d"
  shows "hang k d h d = h"
proof -
  let ?c = "arsinh (k * h / (2 * sinh (k * d / 2)))"
  have nz: "sinh (k * d / 2) \<noteq> 0"
    using assms by simp
  have u0: "k * vertex_at k d h = k * d / 2 - ?c"
    using assms by (simp add: vertex_at_def field_simps)
  have "cosh (k * (d - vertex_at k d h)) - cosh (k * vertex_at k d h) = 2 * (sinh (k * d / 2) * sinh ?c)"
    unfolding sinh_sinh right_diff_distrib u0 by (simp add: algebra_simps)
  also have "\<dots> = k * h"
    using nz by simp
  finally show ?thesis
    using assms by (simp add: hang_def)
qed

lemma hang_deriv: "k \<noteq> 0 \<Longrightarrow> (hang k d h has_real_derivative sinh (k * (u - vertex_at k d h))) (at u)"
  unfolding hang_def by (auto intro!: derivative_eq_intros)

lemma arc_deriv:
  assumes "k \<noteq> 0"
  shows "(arc k d h has_real_derivative sqrt (1 + (sinh (k * (u - vertex_at k d h)))\<^sup>2)) (at u)"
proof -
  have "(arc k d h has_real_derivative cosh (k * (u - vertex_at k d h))) (at u)"
    unfolding arc_def using assms by (auto intro!: derivative_eq_intros)
  moreover have "sqrt (1 + (sinh x)\<^sup>2) = cosh x" for x :: real
    by (rule real_sqrt_unique) (simp_all add: cosh_square_eq add.commute)
  ultimately show ?thesis by simp
qed

lemma cw_shape_Fin:
  assumes "cw_shape (Fin k) (Fin d) (Fin h) = Inr sh" "k \<noteq> 0" "0 < d" "is_fin (fst sh)" "is_fin (snd sh)"
    and "d * shc (k * d / 2) < flt_limit" "shc (k * d / 2) < flt_limit"
  shows "sh = (Fin (k * d / 2), Fin (k * d / 2 - k * vertex_at k d h))"
proof -
  obtain half q where half: "half = Fin (1 / 2) * Fin k * Fin d" "sinhc half = Inr q"
    and sh: "sh = (half, fasinh (Fin h / (Fin d * q)))"
    using assms(1) by (auto simp: cw_shape_def Let_def okE)
  obtain r where r: "half = Fin r"
    using assms(4) sh by (auto elim: is_finE)
  then have rk: "r = k * d / 2"
    using half(1) by (auto simp: times_Fin flt_ops_Fin)
  have "r \<noteq> 0"
    unfolding rk using assms(2,3) by simp
  obtain c where c: "fasinh (Fin h / (Fin d * q)) = Fin c"
    using assms(5) sh by (auto elim: is_finE)
  have "\<bar>shc r\<bar> < flt_limit"
    using assms(7) shc_pos [of r] by (simp add: rk)
  then have q: "q = Fin (shc r)"
    using half(2) r \<open>r \<noteq> 0\<close>
    by (auto simp: sinhc_def fsinh_def okE divide_flt_def shc_def split: if_splits)
  have pos: "0 < d * shc r"
    using shc_pos [of r] assms(3) by simp
  then have "Fin d * q = Fin (d * shc r)"
    using q assms(6) by (simp add: times_Fin rk)
  then obtain ra where "Fin h / Fin (d * shc r) = Fin ra" "c = arsinh ra"
    using c by (auto simp: fasinh_Fin)
  moreover have "d * shc r \<noteq> 0"
    using pos by linarith
  ultimately have "c = arsinh (h / (d * shc r))"
    using quotient_Fin [of "d * shc r" "Fin h" ra] by blast
  then show ?thesis
    using sh r rk c offset_vertex [OF assms(2,3), of h] by simp
qed

lemma half_sinh: "k \<noteq> 0 \<Longrightarrow> u * shc (k * u / 2) = 2 * sinh (k * u / 2) / k"
  using shc_mult [of "k * u / 2"] by (simp add: field_simps)

lemma half_unique: "a * 2 = 1 \<Longrightarrow> a = 1 / 2" for a :: real
  by simp

lemma cw_z_Fin:
  assumes "cw_z (Fin k) (Fin a, Fin b) (Fin u) = Inr (Fin z)" "k \<noteq> 0" "a - b = k * vertex_at k d h"
  shows "z = hang k d h u"
proof -
  let ?v = "k * vertex_at k d h"
  have "z = u * sinh (k * u / 2 - a + b) * shc (k * u / 2)"
    using assms(1)
    by (auto simp: cw_z_def okE times_Fin fsinh_Fin sinhc_Fin plus_Fin minus_Fin dest!: half_unique)
  also have "k * u / 2 - a + b = k * u / 2 - ?v"
    using assms(3) by simp
  finally have "z = (u * shc (k * u / 2)) * sinh (k * u / 2 - ?v)"
    by simp
  then have "z = 2 * (sinh (k * u / 2 - ?v) * sinh (k * u / 2)) / k"
    unfolding half_sinh [OF assms(2)] by simp
  also have "\<dots> = (cosh (k * u - ?v) - cosh (- ?v)) / k"
    unfolding sinh_sinh by (simp add: algebra_simps)
  finally show ?thesis
    by (simp add: hang_def right_diff_distrib)
qed

lemma cw_s_Fin:
  assumes "cw_s (Fin k) (Fin a, Fin b) (Fin u) = Inr (Fin s)" "k \<noteq> 0" "a - b = k * vertex_at k d h"
  shows "s = arc k d h u"
proof -
  let ?v = "k * vertex_at k d h"
  have "s = u * cosh (k * u / 2 - a + b) * shc (k * u / 2)"
    using assms(1)
    by (auto simp: cw_s_def okE times_Fin fcosh_Fin sinhc_Fin plus_Fin minus_Fin dest!: half_unique)
  also have "k * u / 2 - a + b = k * u / 2 - ?v"
    using assms(3) by simp
  finally have "s = (u * shc (k * u / 2)) * cosh (k * u / 2 - ?v)"
    by simp
  then have "s = 2 * (sinh (k * u / 2) * cosh (k * u / 2 - ?v)) / k"
    unfolding half_sinh [OF assms(2)] by simp
  also have "\<dots> = (sinh (k * u - ?v) + sinh ?v) / k"
    unfolding sinh_cosh by (simp add: algebra_simps)
  finally show ?thesis
    by (simp add: arc_def right_diff_distrib)
qed

section \<open>The log-spiral\<close>

lemma froot_Fin: "0 < r \<Longrightarrow> froot (Fin r) y = Fin (r powr y)"
  by (simp add: froot_def)

lemma fpower_Fin: "fpower (Fin r) k = Inr (Fin s) \<longleftrightarrow> s = r ^ k \<and> \<bar>r ^ k\<bar> < flt_limit"
  by (auto simp: fpower_def)

lemma powr_root_power: "0 < r \<Longrightarrow> (r powr (1 / of_int n)) ^ k = r powr (of_nat k / of_int n)" for r :: real
  using powr_realpow [of "r powr (1 / of_int n)" k] by (simp add: powr_powr)

lemma nothing_of_it: "x * Fin 0 / y = Fin z \<Longrightarrow> z = 0"
  by (cases x; cases y) (auto simp: times_flt_def divide_flt_def finf_def split: if_splits)

lemma all_of_it: "x * y / y = Fin z \<Longrightarrow> x = Fin z"
  by (cases x; cases y)
     (auto simp: times_flt_def divide_flt_def finf_def fval_def split: if_splits)

end
