(* ===== verification/Curve_Properties.thy ===== *)
theory Curve_Properties
  imports Curve_Laws Example_Deck
begin

text \<open>
  The properties of the curves the NEC-4.2 geometry cards draw.
\<close>

text \<open>C34: the curve of a CW card is a catenary: it runs from (0, 0) to the other end, its height is
  the textbook difference of hyperbolic cosines, and what the code calls its length is the length
  of the arc.\<close>

theorem catenary_hangs:
  assumes "cw_shape (Fin k) (Fin d) (Fin h) = Inr shape" "k \<noteq> 0" "0 < d"
    and "is_fin (fst shape)" "is_fin (snd shape)"
    and "d * shc (k * d / 2) < flt_limit" "shc (k * d / 2) < flt_limit"
  shows "hang k d h 0 = 0 \<and> hang k d h d = h \<and> arc k d h 0 = 0 \<and>
    (\<forall>u z. cw_z (Fin k) shape (Fin u) = Inr (Fin z) \<longrightarrow> z = hang k d h u) \<and>
    (\<forall>u s. cw_s (Fin k) shape (Fin u) = Inr (Fin s) \<longrightarrow> s = arc k d h u) \<and>
    (\<forall>u. \<exists>slope. (hang k d h has_real_derivative slope) (at u) \<and>
      (arc k d h has_real_derivative sqrt (1 + slope\<^sup>2)) (at u))"
proof -
  have shape: "shape = (Fin (k * d / 2), Fin (k * d / 2 - k * vertex_at k d h))"
    using assms by (rule cw_shape_Fin)
  have "k * d / 2 - (k * d / 2 - k * vertex_at k d h) = k * vertex_at k d h"
    by simp
  with shape show ?thesis
    using hang_end [OF assms(2,3)] cw_z_Fin [OF _ assms(2)] cw_s_Fin [OF _ assms(2)]
      hang_deriv [OF assms(2)] arc_deriv [OF assms(2)]
    by (metis hang_0 arc_0)
qed

lemma sinh_1_small: "sinh 1 < flt_limit" "(0 :: real) < sinh 1"
proof -
  have "- exp (- 1) \<le> exp (1 :: real)"
    using exp_gt_zero [of "1 :: real"] exp_gt_zero [of "- 1 :: real"] by linarith
  then have "sinh (1 :: real) \<le> exp 1"
    by (simp add: sinh_def)
  also have "\<dots> \<le> 3"
    by (rule exp_le)
  also have "(3 :: real) < 10 ^ 308"
  proof -
    have "(3 :: real) < 10 ^ 1" by simp
    also have "(10 :: real) ^ 1 \<le> 10 ^ 308"
      by (rule power_increasing) simp_all
    finally show ?thesis .
  qed
  also note flt_limit_big
  finally show "sinh 1 < flt_limit" .
qed simp

theorem catenary_hangs_witness:
  "cw_shape (Fin 2) (Fin 1) (Fin 0) = Inr (Fin 1, Fin 0) \<and>
   cw_z (Fin 2) (Fin 1, Fin 0) (Fin 1) = Inr (Fin 0) \<and> hang 2 1 0 1 = 0 \<and>
   (\<forall>u. \<exists>slope. (hang 2 1 0 has_real_derivative slope) (at u) \<and>
      (arc 2 1 0 has_real_derivative sqrt (1 + slope\<^sup>2)) (at u))"
proof -
  have f: "fval 1 = Fin 1" "fval 0 = Fin 0" "fval (sinh 1) = Fin (sinh 1)"
    using sinh_1_small by (simp_all add: fval_literal)
  have sinhc: "sinhc (Fin 1) = Inr (Fin (sinh 1))"
    using sinh_1_small by (simp add: sinhc_def fsinh_def divide_flt_def)
  have shape: "cw_shape (Fin 2) (Fin 1) (Fin 0) = Inr (Fin 1, Fin 0)"
    using sinh_1_small by (simp add: cw_shape_def Let_def flt_ops_Fin sinhc fasinh_def f)
  have small: "shc (2 * 1 / 2) < flt_limit"
    using sinh_1_small by (simp add: shc_def)
  have "cw_z (Fin 2) (Fin 1, Fin 0) (Fin 1) = Inr (Fin 0)"
    by (simp add: cw_z_def flt_ops_Fin sinhc fsinh_def f)
  moreover from catenary_hangs [OF shape] small have "hang 2 1 0 1 = 0"
    "\<forall>u. \<exists>slope. (hang 2 1 0 has_real_derivative slope) (at u) \<and>
      (arc 2 1 0 has_real_derivative sqrt (1 + slope\<^sup>2)) (at u)"
    by simp_all
  ultimately show ?thesis
    using shape by blast
qed

lemma spiral_point_Fin:
  assumes "spiral_point n zlen (Fin r1) (Fin q) step k = Inr (Fin x, Fin y, Fin z)" "0 < r1" "0 \<le> q" "1 \<le> n"
  shows "sqrt (x\<^sup>2 + y\<^sup>2) = r1 * q ^ k" "k = 0 \<Longrightarrow> z = 0" "k = nat n \<Longrightarrow> Fin z = zlen"
proof -
  let ?a = "fint (int k) * step"
  obtain qk where qk: "fpower (Fin q) k = Inr qk"
    and xy: "Fin x = Fin r1 * qk * fcos ?a" "Fin y = Fin r1 * qk * fsin ?a"
    and z: "(if feq (Fin q) (Fin 1) then Inr (zlen * fint (int k) / fint n)
        else bindE (fpower (Fin q) (nat n)) (\<lambda>qn.
          if feq (Fin 1 - qn) (Fin 0) then Inl ZeroDivisionError
          else Inr (zlen * (Fin 1 - qk) / (Fin 1 - qn)))) = Inr (Fin z)"
    using assms(1) unfolding spiral_point_def Let_def by (auto simp: okE)
  obtain A B where A: "Fin r1 * qk = Fin A" "fcos ?a = Fin B" "x = A * B"
    using xy(1) [symmetric] unfolding times_Fin [of _ "fcos ?a"] by blast
  obtain A' B' where A': "Fin r1 * qk = Fin A'" "fsin ?a = Fin B'" "y = A' * B'"
    using xy(2) [symmetric] unfolding times_Fin [of _ "fsin ?a"] by blast
  obtain t where t: "x = A * cos t" "y = A * sin t"
    using A A' by (cases ?a) (auto simp: fcos_def fsin_def)
  have R: "A = r1 * q ^ k"
    using A(1) qk by (auto simp: fpower_def times_Fin split: if_splits)
  then have "0 \<le> A"
    using assms(2,3) by simp
  have "x\<^sup>2 + y\<^sup>2 = A\<^sup>2 * ((cos t)\<^sup>2 + (sin t)\<^sup>2)"
    unfolding t by (simp only: power_mult_distrib distrib_left)
  then show "sqrt (x\<^sup>2 + y\<^sup>2) = r1 * q ^ k"
    using \<open>0 \<le> A\<close> by (simp add: R)
  show "z = 0" if "k = 0"
  proof -
    have "qk = Fin 1"
      using qk that by (auto simp: fpower_def split: if_splits)
    then have "zlen * Fin 0 / fint n = Fin z \<or> (\<exists>y. zlen * Fin 0 / y = Fin z)"
      using z that by (auto simp: okE fint_def flt_ops_Fin split: if_splits)
    then show ?thesis
      using nothing_of_it by blast
  qed
  show "Fin z = zlen" if "k = nat n"
  proof -
    have "zlen * fint n / fint n = Fin z \<or> zlen * (Fin 1 - qk) / (Fin 1 - qk) = Fin z"
      using z that assms(4) qk by (auto simp: okE split: if_splits)
    then show ?thesis
      using all_of_it by metis
  qed
qed

text \<open>The helix of a GH card tapers: vertex k of n stands at the distance from the axis that
  divides the two end radii geometrically, the first at the height 0 and the last at the height
  of the card.\<close>

theorem helix_tapers:
  assumes "helix_vertices c = Inr vs" "card_i c 1 = Inr n" "card_f c 4 = Fin r1" "card_f c 5 = Fin r2"
    and "r2 / r1 < flt_limit"
  shows "length vs = nat n + 1 \<and>
    (\<forall>k \<le> nat n. \<forall>x y z. vs ! k = (Fin x, Fin y, Fin z) \<longrightarrow>
      sqrt (x\<^sup>2 + y\<^sup>2) = r1 * (r2 / r1) powr (k / n) \<and>
      (k = 0 \<longrightarrow> z = 0) \<and> (k = nat n \<longrightarrow> Fin z = card_f c 3))"
proof -
  let ?q = "(r2 / r1) powr (1 / n)" and ?step = "Fin (2 * pi) * card_f c 2 / fint n"
  have r: "1 \<le> n" "0 < r1" "0 < r2"
    and m: "mapE (spiral_point n (card_f c 3) (Fin r1) (froot (Fin r2 / Fin r1) (1 / of_int n)) ?step)
      [0..<nat n + 1] = Inr vs"
    using assms(1) unfolding helix_vertices_def Let_def assms(2-4) bindE_Inr
    by (auto simp: okE not_less not_le)
  have "Fin r2 / Fin r1 = Fin (r2 / r1)"
    using r assms(5) by (simp add: flt_ops_Fin)
  then have "froot (Fin r2 / Fin r1) (1 / of_int n) = Fin ?q"
    using r by (simp add: froot_Fin)
  then have "spiral_point n (card_f c 3) (Fin r1) (Fin ?q) ?step k = Inr (vs ! k)" if "k \<le> nat n" for k
    using mapE_nth [OF m, of k] that by (simp del: upt_Suc)
  moreover have "?q ^ k = (r2 / r1) powr (k / n)" for k
    using r powr_root_power [of "r2 / r1" n k] by simp
  ultimately show ?thesis
    using spiral_point_Fin [where q = ?q, OF _ r(2) _ r(1)] mapE_length [OF m]
    by (metis length_upt diff_zero powr_ge_zero)
qed

definition spiral_example :: card where
  "spiral_example = plain_card ''GH'' [1, 2, 1, 3, 2, 2, 1 / 100, 1 / 100] ''GH 1 2 1 3 2 2 .01 .01''"

lemma spiral_example_vertices:
  "helix_vertices spiral_example = Inr [(Fin 2, Fin 0, Fin 0), (Fin (- 2), Fin 0, Fin (3 / 2)), (Fin 2, Fin 0, Fin 3)]"
proof -
  have c: "card_i spiral_example (Suc 0) = Inr 2" "card_f spiral_example 2 = Fin 1" "card_f spiral_example 3 = Fin 3"
    "card_f spiral_example 4 = Fin 2" "card_f spiral_example 5 = Fin 2" "card_f spiral_example 6 = Fin (1 / 100)"
    "card_f spiral_example 7 = Fin (1 / 100)"
    by (simp_all add: spiral_example_def int_of_plain)
  have pi: "\<bar>pi\<bar> \<le> 10000000000" "\<bar>2 * pi\<bar> \<le> 10000000000"
    using pi_less_4 pi_gt_zero by linarith+
  have f: "fval pi = Fin pi" "fval (2 * pi) = Fin (2 * pi)" "fval 0 = Fin 0" "fval 1 = Fin 1" "fval 2 = Fin 2" "fval 3 = Fin 3"
    "fval 6 = Fin 6" "fval (3 / 2) = Fin (3 / 2)" "fval (- 2) = Fin (- 2)"
    by (rule fval_literal; use pi in simp)+
  have one: "fpower (Fin 1) k = Inr (Fin 1)" for k
    using f(4) by (simp add: fpower_def)
  have q: "froot (Fin 2 / Fin 2) (1 / 2) = Fin 1"
    by (simp add: flt_ops_Fin f froot_def)
  have step: "Fin (2 * pi) * Fin 1 / fint 2 = Fin pi"
    by (simp add: fint_def f flt_ops_Fin)
  have p: "spiral_point 2 (Fin 3) (Fin 2) (Fin 1) (Fin pi) k = Inr v"
    if "(k, v) \<in> {(0, (Fin 2, Fin 0, Fin 0)), (1, (Fin (- 2), Fin 0, Fin (3 / 2))), (2, (Fin 2, Fin 0, Fin 3))}" for k v
    using that
    by (auto simp: spiral_point_def one Let_def fint_def f flt_ops_Fin fcos_def fsin_def)
  have "mapE (spiral_point 2 (Fin 3) (Fin 2) (Fin 1) (Fin pi)) [0..<3] =
      Inr [(Fin 2, Fin 0, Fin 0), (Fin (- 2), Fin 0, Fin (3 / 2)), (Fin 2, Fin 0, Fin 3)]"
    by (simp add: upt_conv_Cons p)
  then show ?thesis
    unfolding helix_vertices_def Let_def
    by (simp add: c q step is_inf_def del: upt_Suc)
qed

theorem helix_tapers_witness:
  "\<exists>vs. helix_vertices spiral_example = Inr vs \<and> vs ! 1 = (Fin (- 2), Fin 0, Fin (3 / 2)) \<and>
     sqrt ((- 2)\<^sup>2 + 0\<^sup>2) = 2 * (2 / 2) powr (1 / 2)"
proof -
  have c: "card_i spiral_example 1 = Inr 2" "card_f spiral_example 4 = Fin 2" "card_f spiral_example 5 = Fin 2"
    by (simp_all add: spiral_example_def int_of_plain)
  have "(2 / 2 :: real) < flt_limit"
    using fval_literal [of 1] by simp
  from helix_tapers [OF spiral_example_vertices c this] show ?thesis
    using spiral_example_vertices by (auto dest!: spec [of _ 1])
qed

end
