(* ===== verification/Schedule.thy ===== *)
theory Schedule
  imports Prelude
begin

text \<open>
  \<open>src/src/momwire/_schedule.py\<close>: the schedule of a matrix fill.  It decides which rows a
  window holds, in which order the windows meet the sources, which rows a restricted fill
  keeps and where a finished window folds; the arithmetic is in callbacks.

  The state of the process is a record that extends the tally \<open>STATS\<close> with whatever the
  callbacks change.  A callback returns the new state or raises, and then the state it left
  stays: an exception is paired with the state.  A generator of the source is a function of
  the body of the loop that consumes it.  An index array is a list of integers.
\<close>

section \<open>The tally and the exceptions\<close>

record stats =
  st_sweeps :: int
  st_chunks :: int
  st_blocks :: int
  st_walked :: int
  st_k_chunks :: int
  st_prepares :: int
  st_replays :: int
  st_folds :: int
  st_basis_windows :: int

definition reset_stats :: "'z stats_scheme \<Rightarrow> 'z stats_scheme" where
  "reset_stats w =
     w\<lparr>st_sweeps := 0, st_chunks := 0, st_blocks := 0, st_walked := 0, st_k_chunks := 0,
       st_prepares := 0, st_replays := 0, st_folds := 0, st_basis_windows := 0\<rparr>"

datatype schedule_refusal =
    StepZero \<comment> \<open>\<open>range\<close> of step 0\<close>
  | DivisorZero
  | IndexRange
  | NegativeSize int
  | RowsUnsorted
  | RowsOutside int
  | BasisUnsorted
  | BasisOutside int
  | RowsNotRequested int int
  | PartOfEdge int int
  | OtherAxis int int
  | ShapeMismatch

datatype 'e stop = Refused schedule_refusal | Callback 'e

type_synonym ('e, 'w) action = "'w \<Rightarrow> 'e stop \<times> 'w + 'w"
  \<comment> \<open>a callback called for its effect\<close>

type_synonym ('e, 'a, 'w) body = "'a \<times> 'w \<Rightarrow> 'e stop \<times> 'w + 'a \<times> 'w"
  \<comment> \<open>the body of a loop with the local variables \<open>'a\<close>\<close>

definition call_checkpoint :: "('e, 'w) action option \<Rightarrow> ('e, 'w) action" where
  \<comment> \<open>\<open>if checkpoint is not None: checkpoint()\<close>\<close>
  "call_checkpoint cp w = (case cp of None \<Rightarrow> Inr w | Some c \<Rightarrow> c w)"

section \<open>Budgets\<close>

definition mb_rows :: "int \<Rightarrow> int \<Rightarrow> schedule_refusal + int" where
  "mb_rows budget_mb row_bytes =
     (if row_bytes = 0 then Inl DivisorZero
      else Inr (max 1 (budget_mb * 1024 * 1024 div row_bytes)))"

definition elem_rows :: "int \<Rightarrow> int \<Rightarrow> int" where
  "elem_rows budget_elems row_elems = max 1 (budget_elems div max 1 row_elems)"

definition fits_mb :: "int \<Rightarrow> int \<Rightarrow> bool" where
  "fits_mb nbytes budget_mb \<longleftrightarrow> nbytes \<le> push_bit 20 budget_mb"

definition k_chunk :: "int \<Rightarrow> int \<Rightarrow> int \<Rightarrow> int \<Rightarrow> int" where
  "k_chunk n_k budget_mb bytes_per_k reserve_bytes =
     (let budget = max (push_bit 20 budget_mb - reserve_bytes) 0
      in max 1 (min n_k (budget div max bytes_per_k 1)))"

section \<open>Windows\<close>

definition runs :: "int list \<Rightarrow> (int \<times> int) list" where
  "runs idx =
     (if idx = [] then []
      else let cuts = map Suc (filter (\<lambda>i. idx ! Suc i - idx ! i \<noteq> 1) [0..<length idx - 1]);
               starts = 0 # cuts;
               stops = cuts @ [length idx]
           in map2 (\<lambda>s0 s1. (idx ! s0, idx ! (s1 - 1) + 1)) starts stops)"

definition py_range :: "int \<Rightarrow> int \<Rightarrow> int \<Rightarrow> schedule_refusal + int list" where
  \<comment> \<open>\<open>range(lo, hi, step)\<close>\<close>
  "py_range lo hi step =
     (if step = 0 then Inl StepZero
      else let n = (if 0 < step then (hi - lo + step - 1) div step
                    else (lo - hi - step - 1) div (- step))
           in Inr (map (\<lambda>i. lo + step * int i) [0..<nat n]))"

definition raising :: "'w \<Rightarrow> schedule_refusal + 'a \<Rightarrow> 'e stop \<times> 'w + 'a" where
  \<comment> \<open>a refusal raised in a state\<close>
  "raising w m = (case m of Inl r \<Rightarrow> Inl (Refused r, w) | Inr x \<Rightarrow> Inr x)"

definition chunks ::
  "(int \<times> int) list \<Rightarrow> int \<Rightarrow> ('e, 'z stats_scheme) action option \<Rightarrow>
    (int \<Rightarrow> int \<Rightarrow> ('e, 'a, 'z stats_scheme) body) \<Rightarrow> ('e, 'a, 'z stats_scheme) body" where
  \<comment> \<open>\<open>for i0, i1 in chunks(spans, chunk, checkpoint): body\<close>\<close>
  "chunks spans chunk cp body s =
     foldE (\<lambda>(a, w) (r0, r1).
       bindE (raising w (py_range r0 r1 chunk)) (\<lambda>i0s.
         foldE (\<lambda>(a, w) i0.
           bindE (call_checkpoint cp w) (\<lambda>w.
             body i0 (min (i0 + chunk) r1) (a, w\<lparr>st_chunks := st_chunks w + 1\<rparr>)))
           (a, w) i0s))
       s spans"

definition k_chunks ::
  "int \<Rightarrow> int \<Rightarrow> ('e, 'z stats_scheme) action option \<Rightarrow>
    (int \<Rightarrow> int \<Rightarrow> ('e, 'a, 'z stats_scheme) body) \<Rightarrow> ('e, 'a, 'z stats_scheme) body" where
  "k_chunks n_k chunk cp body s =
     bindE (raising (snd s) (py_range 0 n_k chunk)) (\<lambda>c0s.
       foldE (\<lambda>(a, w) c0.
         bindE (call_checkpoint cp w) (\<lambda>w.
           body c0 (min (c0 + chunk) n_k) (a, w\<lparr>st_k_chunks := st_k_chunks w + 1\<rparr>)))
         s c0s)"

section \<open>Restriction to observer rows\<close>

record observer_rows =
  or_basis_rows :: "int list"
  or_basis_runs :: "(int \<times> int) list"
  or_key :: "int \<times> int list"
  or_loading_map :: "int list"
  or_row_of :: "int list option"
  or_runs :: "(int \<times> int) list"
  or_seg_mask :: "bool list"
  or_held :: "bool list"

definition rises :: "int list \<Rightarrow> bool" where
  \<comment> \<open>\<open>not np.any(np.diff(xs) <= 0)\<close>\<close>
  "rises xs \<longleftrightarrow> \<not> list_ex (\<lambda>d. d \<le> 0) (map2 (-) (tl xs) (butlast xs))"

definition np_full :: "int \<Rightarrow> 'v \<Rightarrow> schedule_refusal + 'v list" where
  \<comment> \<open>\<open>np.zeros\<close> and \<open>np.full\<close> of one axis\<close>
  "np_full n v = (if n < 0 then Inl (NegativeSize n) else Inr (replicate (nat n) v))"

definition put :: "'v list \<Rightarrow> int list \<Rightarrow> 'v list \<Rightarrow> 'v list" where
  \<comment> \<open>\<open>a[idx] = vs\<close> at indices of the array\<close>
  "put a idx vs = fold (\<lambda>(i, v) a. a[nat i := v]) (zip idx vs) a"

definition mk_observer_rows ::
  "int list \<Rightarrow> int \<Rightarrow> int \<Rightarrow> (int list \<Rightarrow> int list) \<Rightarrow> bool \<Rightarrow> schedule_refusal + observer_rows" where
  "mk_observer_rows seg_rows n_segs n_basis basis_rows_of compacted =
     bindE (guardE (\<not> rises seg_rows) RowsUnsorted) (\<lambda>_.
     bindE (guardE (seg_rows \<noteq> [] \<and> (hd seg_rows < 0 \<or> n_segs \<le> last seg_rows))
              (RowsOutside n_segs)) (\<lambda>_.
     let basis_rows = basis_rows_of seg_rows in
     bindE (guardE (\<not> rises basis_rows) BasisUnsorted) (\<lambda>_.
     bindE (guardE (basis_rows \<noteq> [] \<and> (hd basis_rows < 0 \<or> n_basis \<le> last basis_rows))
              (BasisOutside n_basis)) (\<lambda>_.
     bindE (np_full n_segs False) (\<lambda>seg_mask.
     bindE (np_full n_basis False) (\<lambda>held.
     bindE (np_full n_basis (-1)) (\<lambda>unmapped.
     let loading_map =
           (if compacted then put unmapped basis_rows (map int [0..<length basis_rows])
            else put unmapped basis_rows basis_rows)
     in Inr \<lparr>or_basis_rows = basis_rows,
              or_basis_runs = runs basis_rows,
              or_key = (n_basis, basis_rows),
              or_loading_map = loading_map,
              or_row_of = (if compacted then Some loading_map else None),
              or_runs = runs seg_rows,
              or_seg_mask = put seg_mask seg_rows (map (\<lambda>_. True) seg_rows),
              or_held = put held basis_rows (map (\<lambda>_. True) basis_rows)\<rparr>)))))))"

fun parts :: "(int \<times> int) list \<Rightarrow> int \<Rightarrow> int \<Rightarrow> (int \<times> int) list" where
  \<comment> \<open>the parts of \<open>[i0, i1)\<close> that lie in a run\<close>
  "parts [] i0 i1 = []"
| "parts ((r0, r1) # rs) i0 i1 =
     (let a0 = max r0 i0; a1 = min r1 i1
      in (if a0 < a1 then [(a0, a1)] else []) @ parts rs i0 i1)"

definition windows :: "observer_rows \<Rightarrow> int \<Rightarrow> int \<Rightarrow> (int \<times> int) list" where
  "windows R i0 i1 = parts (or_runs R) i0 i1"

definition basis_windows ::
  "observer_rows \<Rightarrow> int \<Rightarrow> int \<Rightarrow> 'z stats_scheme \<Rightarrow> (int \<times> int) list \<times> 'z stats_scheme" where
  "basis_windows R i0 i1 w =
     (let out = parts (or_basis_runs R) i0 i1
      in (out, w\<lparr>st_basis_windows := st_basis_windows w + int (length out)\<rparr>))"

definition slice_at :: "nat \<Rightarrow> int \<Rightarrow> nat" where
  \<comment> \<open>the position a bound of a slice stands for, clipped as Python does\<close>
  "slice_at n i = nat (if i < 0 then max 0 (i + int n) else min i (int n))"

definition py_slice :: "'v list \<Rightarrow> int \<Rightarrow> int \<Rightarrow> 'v list" where
  \<comment> \<open>\<open>xs[lo:hi]\<close>\<close>
  "py_slice xs lo hi =
     take (slice_at (length xs) hi - slice_at (length xs) lo) (drop (slice_at (length xs) lo) xs)"

definition np_item :: "'v list \<Rightarrow> int \<Rightarrow> schedule_refusal + 'v" where
  \<comment> \<open>\<open>a[i]\<close> of an array\<close>
  "np_item xs i =
     (if 0 \<le> i \<and> i < int (length xs) then Inr (xs ! nat i)
      else if i < 0 \<and> 0 \<le> i + int (length xs) then Inr (xs ! nat (i + int (length xs)))
      else Inl IndexRange)"

definition target :: "observer_rows \<Rightarrow> int \<Rightarrow> int \<Rightarrow> schedule_refusal + int \<times> int" where
  "target R lo hi =
     (if \<not> (0 \<le> lo \<and> lo < hi \<and> hi \<le> int (length (or_held R)) \<and>
            list_all id (py_slice (or_held R) lo hi))
      then Inl (RowsNotRequested lo hi)
      else case or_row_of R of
             None \<Rightarrow> Inr (lo, hi)
           | Some row_of \<Rightarrow>
               bindE (np_item row_of lo) (\<lambda>t0. Inr (t0, t0 + (hi - lo))))"

definition held_rows :: "observer_rows \<Rightarrow> int list \<Rightarrow> schedule_refusal + int list" where
  \<comment> \<open>\<open>ObserverRows.held\<close>\<close>
  "held_rows R m_idx =
     bindE (mapE (np_item (or_held R)) m_idx) (\<lambda>keep.
       Inr (map fst (filter snd (zip m_idx keep))))"

definition covers :: "observer_rows \<Rightarrow> int \<times> int \<Rightarrow> schedule_refusal + bool" where
  \<comment> \<open>of the slice \<open>sl = slice(start, stop)\<close>\<close>
  "covers R sl =
     (let inside = py_slice (or_seg_mask R) (fst sl) (snd sl)
      in if list_all id inside then Inr True
         else if list_ex id inside then Inl (PartOfEdge (fst sl) (snd sl))
         else Inr False)"

definition row_kwargs :: "observer_rows \<Rightarrow> int list option" where
  \<comment> \<open>\<open>ObserverRows.kwargs\<close>: the argument \<open>row_of\<close>, if it is passed\<close>
  "row_kwargs R = or_row_of R"

definition restriction_key :: "observer_rows option \<Rightarrow> (int \<times> int list) option" where
  "restriction_key restrict = map_option or_key restrict"

section \<open>Destinations\<close>

datatype order = RowMajor | ColumnMajor

record 'v matrix =
  mat_order :: order
  mat_rows :: "'v list list"

definition zeros :: "int \<Rightarrow> int \<Rightarrow> order \<Rightarrow> schedule_refusal + ('v::zero) matrix" where
  "zeros n m ord =
     (if n < 0 \<or> m < 0 then Inl (NegativeSize (min n m))
      else Inr \<lparr>mat_order = ord, mat_rows = replicate (nat n) (replicate (nat m) 0)\<rparr>)"

definition new_Z :: "observer_rows \<Rightarrow> int \<Rightarrow> schedule_refusal + ('v::zero) matrix" where
  "new_Z R n_basis =
     (if or_row_of R = None then zeros n_basis n_basis ColumnMajor
      else zeros (int (length (or_basis_rows R))) n_basis RowMajor)"

definition new_target ::
  "int \<Rightarrow> observer_rows option \<Rightarrow> schedule_refusal + ('v::zero) matrix \<times> int list option" where
  "new_target n_basis restrict =
     (case restrict of
        None \<Rightarrow> bindE (zeros n_basis n_basis ColumnMajor) (\<lambda>Z. Inr (Z, None))
      | Some R \<Rightarrow> bindE (new_Z R n_basis) (\<lambda>Z. Inr (Z, row_kwargs R)))"

section \<open>The walks\<close>

definition sweep ::
  "(int \<times> int) list \<Rightarrow> int \<Rightarrow> (int \<Rightarrow> int \<Rightarrow> int \<Rightarrow> int \<Rightarrow> ('e, 'z stats_scheme) action) \<Rightarrow>
    (int \<times> int) list \<Rightarrow> ('e, 'z stats_scheme) action option \<Rightarrow> observer_rows option \<Rightarrow>
    'z stats_scheme \<Rightarrow> 'e stop \<times> 'z stats_scheme + int \<times> 'z stats_scheme" where
  "sweep spans chunk block sources cp restrict w =
     bindE
       (chunks spans chunk cp
          (\<lambda>c0 c1 s.
             foldE (\<lambda>s (i0, i1).
               foldE (\<lambda>(n, w) (j0, j1).
                 bindE (block i0 i1 j0 j1 w) (\<lambda>w. Inr (n + 1, w)))
                 s sources)
               s (case restrict of None \<Rightarrow> [(c0, c1)] | Some R \<Rightarrow> windows R c0 c1))
          (0, w\<lparr>st_sweeps := st_sweeps w + 1\<rparr>))
       (\<lambda>(n, w). Inr (n, w\<lparr>st_blocks := st_blocks w + n\<rparr>))"

definition walk ::
  "'b list \<Rightarrow> ('b \<Rightarrow> ('e, 'z stats_scheme) action) \<Rightarrow> ('e, 'z stats_scheme) action option \<Rightarrow>
    ('b \<Rightarrow> 'e stop + bool) option \<Rightarrow> ('e, 'z stats_scheme) action" where
  "walk blocks fill cp keep =
     (\<lambda>w. foldE (\<lambda>w block.
        bindE (case keep of
                 None \<Rightarrow> Inr True
               | Some k \<Rightarrow> (case k block of Inl e \<Rightarrow> Inl (e, w) | Inr kept \<Rightarrow> Inr kept)) (\<lambda>kept.
          if \<not> kept then Inr w
          else bindE (call_checkpoint cp w) (\<lambda>w.
                 fill block (w\<lparr>st_walked := st_walked w + 1\<rparr>))))
        w blocks)"

definition sub_rows :: "('v::minus) list \<Rightarrow> int \<Rightarrow> int \<Rightarrow> 'v list \<Rightarrow> schedule_refusal + 'v list" where
  \<comment> \<open>\<open>out[lo:hi] -= rows\<close>, a single row being broadcast\<close>
  "sub_rows out lo hi rows =
     (let a = slice_at (length out) lo;
          n = length (py_slice out lo hi);
          rows' = (if length rows = 1 then replicate n (hd rows) else rows)
      in if length rows' \<noteq> n then Inl ShapeMismatch
         else Inr (take a out @ map2 (-) (take n (drop a out)) rows' @ drop (a + n) out))"

definition fold_rows ::
  "('v::minus) list \<Rightarrow> (int \<times> int \<times> 'v list) list \<Rightarrow> 'z stats_scheme \<Rightarrow>
    'e stop \<times> 'z stats_scheme + 'v list \<times> 'z stats_scheme" where
  "fold_rows out ws w =
     foldE (\<lambda>(out, w) (lo, hi, rows).
       let w = w\<lparr>st_folds := st_folds w + 1\<rparr>
       in bindE (raising w (sub_rows out lo hi rows)) (\<lambda>out. Inr (out, w)))
       (out, w) ws"

section \<open>Prepare and replay\<close>

definition build_windows ::
  "(int \<Rightarrow> int \<Rightarrow> 'w \<Rightarrow> 'e stop \<times> 'w + 'p \<times> 'w) \<Rightarrow> (int \<times> int) list \<Rightarrow>
    ('e, (int \<times> int \<times> 'p) list, 'w) body" where
  \<comment> \<open>the elements \<open>(lo, hi, *build(lo, hi))\<close> a comprehension adds\<close>
  "build_windows build wins s =
     foldE (\<lambda>(acc, w) (lo, hi).
       bindE (build lo hi w) (\<lambda>(p, w). Inr (acc @ [(lo, hi, p)], w))) s wins"

definition prepare ::
  "int \<Rightarrow> int \<Rightarrow>
    (int \<Rightarrow> int \<Rightarrow> 'z stats_scheme \<Rightarrow> 'e stop \<times> 'z stats_scheme + 'p \<times> 'z stats_scheme) \<Rightarrow>
    ('e, 'z stats_scheme) action option \<Rightarrow> observer_rows option \<Rightarrow> 'z stats_scheme \<Rightarrow>
    'e stop \<times> 'z stats_scheme + (int \<times> int \<times> 'p) list \<times> 'z stats_scheme" where
  "prepare n_rows step build cp restrict w0 =
     (let w = w0\<lparr>st_prepares := st_prepares w0 + 1\<rparr>
      in case restrict of
           None \<Rightarrow>
             chunks [(0, n_rows)] step cp (\<lambda>lo hi. build_windows build [(lo, hi)]) ([], w)
         | Some R \<Rightarrow>
             if n_rows \<noteq> fst (or_key R)
             then Inl (Refused (OtherAxis (fst (or_key R)) n_rows), w)
             else chunks [(0, n_rows)] step cp
                    (\<lambda>lo hi (acc, w).
                       let (wins, w) = basis_windows R lo hi w
                       in build_windows build wins (acc, w))
                    ([], w))"

definition replay ::
  "(int \<times> int \<times> 'p) list \<Rightarrow> ('e, 'z stats_scheme) action option \<Rightarrow>
    (int \<times> int \<times> 'p \<Rightarrow> ('e, 'a, 'z stats_scheme) body) \<Rightarrow> ('e, 'a, 'z stats_scheme) body" where
  \<comment> \<open>\<open>for window in replay(windows, checkpoint): body\<close>\<close>
  "replay ws cp body s =
     foldE (\<lambda>(a, w) win.
       bindE (call_checkpoint cp w) (\<lambda>w.
         body win (a, w\<lparr>st_replays := st_replays w + 1\<rparr>)))
       s ws"

end
