(* ===== verification/Schedule_Laws.thy ===== *)
theory Schedule_Laws
  imports Schedule
begin

text \<open>
  Facts about the schedule: the chunks of a span tile it, the runs of an index list are the
  only separated spans that list it, and the parts of a window that a restriction keeps are
  exactly its requested rows.
\<close>

section \<open>Spans\<close>

definition rows_in :: "int \<times> int \<Rightarrow> int list" where
  \<comment> \<open>the rows of \<open>[lo, hi)\<close>\<close>
  "rows_in s = [fst s..snd s - 1]"

definition rows_of_spans :: "(int \<times> int) list \<Rightarrow> int list" where
  "rows_of_spans ss = concat (map rows_in ss)"

lemma set_rows_in [simp]: "set (rows_in s) = {fst s..<snd s}"
  by (auto simp: rows_in_def)

lemma rows_in_empty: "snd s \<le> fst s \<Longrightarrow> rows_in s = []"
  by (simp add: rows_in_def)

lemma rows_in_Cons: "lo < hi \<Longrightarrow> rows_in (lo, hi) = lo # rows_in (lo + 1, hi)"
  by (simp add: rows_in_def upto_rec1)

lemma rows_in_append: "lo \<le> m \<Longrightarrow> m \<le> hi \<Longrightarrow> rows_in (lo, m) @ rows_in (m, hi) = rows_in (lo, hi)"
proof (induction "nat (m - lo)" arbitrary: lo)
  case 0
  then show ?case by (simp add: rows_in_empty)
next
  case (Suc n)
  then have "n = nat (m - (lo + 1))" "lo + 1 \<le> m" "lo < m" "lo < hi"
    by linarith+
  then show ?case
    using Suc.hyps(1) [of "lo + 1"] Suc.prems by (simp add: rows_in_Cons)
qed

lemma length_rows_in: "length (rows_in s) = nat (snd s - fst s)"
  by (simp add: rows_in_def)

lemma nth_rows_in: "k < length (rows_in s) \<Longrightarrow> rows_in s ! k = fst s + int k"
  by (simp add: rows_in_def)

lemma rows_of_spans_simps [simp]:
  "rows_of_spans [] = []" "rows_of_spans (s # ss) = rows_in s @ rows_of_spans ss"
  "rows_of_spans (ss @ ts) = rows_of_spans ss @ rows_of_spans ts"
  by (simp_all add: rows_of_spans_def)

section \<open>Loops\<close>

lemma foldE_concat: "foldE f s (concat xss) = foldE (foldE f) s xss"
  by (induction xss arbitrary: s) (simp_all add: foldE_append)

lemma foldE_map: "foldE f s (map g xs) = foldE (\<lambda>s x. f s (g x)) s xs"
  by (induction xs arbitrary: s) simp_all

section \<open>Chunks\<close>

definition cuts :: "int \<Rightarrow> int \<times> int \<Rightarrow> (int \<times> int) list" where
  "cuts c s =
     map (\<lambda>i. (fst s + c * int i, min (fst s + c * int i + c) (snd s)))
       [0..<nat ((snd s - fst s + c - 1) div c)]"

definition tiling :: "int \<Rightarrow> (int \<times> int) list \<Rightarrow> (int \<times> int) list" where
  "tiling c spans = concat (map (cuts c) spans)"

definition chunk_step ::
  "('e, 'z stats_scheme) action option \<Rightarrow> (int \<Rightarrow> int \<Rightarrow> ('e, 'a, 'z stats_scheme) body) \<Rightarrow>
    'a \<times> 'z stats_scheme \<Rightarrow> int \<times> int \<Rightarrow> 'e stop \<times> 'z stats_scheme + 'a \<times> 'z stats_scheme" where
  "chunk_step cp body s c =
     bindE (call_checkpoint cp (snd s)) (\<lambda>w.
       body (fst c) (snd c) (fst s, w\<lparr>st_chunks := st_chunks w + 1\<rparr>))"

lemma py_range_up:
  "0 < c \<Longrightarrow> py_range lo hi c = Inr (map (\<lambda>i. lo + c * int i) [0..<nat ((hi - lo + c - 1) div c)])"
  by (simp add: py_range_def)

text \<open>The walk visits the chunks of the tiling in order, a checkpoint before each.\<close>

lemma chunks_tiling:
  assumes "0 < c"
  shows "chunks spans c cp body s = foldE (chunk_step cp body) s (tiling c spans)"
proof -
  have "foldE (\<lambda>(a, w) (r0, r1).
       bindE (raising w (py_range r0 r1 c)) (\<lambda>i0s.
         foldE (\<lambda>(a, w) i0.
           bindE (call_checkpoint cp w) (\<lambda>w.
             body i0 (min (i0 + c) r1) (a, w\<lparr>st_chunks := st_chunks w + 1\<rparr>)))
           (a, w) i0s)) s spans
     = foldE (\<lambda>s sp. foldE (chunk_step cp body) s (cuts c sp)) s spans"
    using assms
    by (intro arg_cong [where f = "\<lambda>g. foldE g s spans"] ext)
      (auto simp: py_range_up raising_def cuts_def foldE_map chunk_step_def split_beta
        intro!: arg_cong [where f = "\<lambda>g. foldE g _ _"])
  then show ?thesis
    by (simp add: chunks_def tiling_def foldE_concat foldE_map)
qed

lemma cuts_Nil:
  assumes "0 < c" and "hi \<le> lo"
  shows "cuts c (lo, hi) = []"
proof -
  have "(hi - lo + c - 1) div c \<le> 0"
    using assms pos_imp_zdiv_pos_iff [of c "hi - lo + c - 1"] by linarith
  then show ?thesis
    by (simp add: cuts_def)
qed

lemma cuts_Cons:
  assumes "0 < c" and "lo < hi"
  shows "cuts c (lo, hi) = (lo, min (lo + c) hi) # cuts c (lo + c, hi)"
proof -
  let ?n = "nat ((hi - lo - 1) div c)"
  have "(hi - lo + c - 1) div c = (hi - lo - 1) div c + 1"
    using assms(1) div_add_self2 [of c "hi - lo - 1"] by (simp add: algebra_simps)
  moreover have "0 \<le> (hi - lo - 1) div c"
    using assms by (simp add: pos_imp_zdiv_nonneg_iff)
  ultimately have "nat ((hi - lo + c - 1) div c) = Suc ?n"
    by simp
  moreover have "hi - (lo + c) + c - 1 = hi - lo - 1"
    by simp
  moreover have "map f [0..<Suc m] = f 0 # map (\<lambda>i. f (Suc i)) [0..<m]" for f :: "nat \<Rightarrow> int \<times> int" and m
    by (simp add: upt_conv_Cons map_Suc_upt [symmetric] del: upt_Suc)
  ultimately show ?thesis
    by (simp add: cuts_def algebra_simps del: upt_Suc)
qed

lemma cuts_induct [consumes 1, case_names empty more]:
  assumes "0 < c"
    and "\<And>lo. hi \<le> lo \<Longrightarrow> P lo"
    and "\<And>lo. lo < hi \<Longrightarrow> P (lo + c) \<Longrightarrow> P lo"
  shows "P (lo :: int)"
proof (induction "nat (hi - lo)" arbitrary: lo rule: less_induct)
  case less
  show ?case
  proof (cases "lo < hi")
    case True
    then have "nat (hi - (lo + c)) < nat (hi - lo)"
      using assms(1) by linarith
    then show ?thesis
      using less assms(3) True by blast
  qed (use assms(2) in simp)
qed

text \<open>The chunks of a span are its rows, in order, and each is nonempty and no longer than
  asked.\<close>

lemma rows_of_cuts:
  assumes "0 < c"
  shows "rows_of_spans (cuts c (lo, hi)) = rows_in (lo, hi)"
  using assms
proof (induction lo rule: cuts_induct [where hi = hi])
  case (empty lo)
  then show ?case using assms by (simp add: cuts_Nil rows_in_empty)
next
  case (more lo)
  show ?case
  proof (cases "lo + c \<le> hi")
    case True
    then show ?thesis
      using assms more by (simp add: cuts_Cons rows_in_append)
  next
    case False
    then show ?thesis
      using assms more by (simp add: cuts_Cons rows_in_empty)
  qed
qed

lemma rows_of_cuts_pair: "0 < c \<Longrightarrow> rows_of_spans (cuts c s) = rows_in s"
  by (cases s) (simp add: rows_of_cuts)

lemma cuts_bounds:
  assumes "0 < c" and "p \<in> set (cuts c (lo, hi))"
  shows "lo \<le> fst p \<and> fst p < snd p \<and> snd p \<le> fst p + c \<and> snd p \<le> hi"
  using assms
proof (induction lo rule: cuts_induct [where hi = hi])
  case (empty lo)
  then show ?case using assms by (simp add: cuts_Nil)
next
  case (more lo)
  then show ?case using assms by (auto simp: cuts_Cons)
qed

lemma rows_of_tiling:
  assumes "0 < c"
  shows "rows_of_spans (tiling c spans) = rows_of_spans spans"
  by (induction spans) (simp_all add: tiling_def rows_of_cuts_pair [OF assms])

lemma tiling_bounds:
  assumes "0 < c" and "p \<in> set (tiling c spans)"
  shows "fst p < snd p \<and> snd p \<le> fst p + c"
proof -
  obtain s where "p \<in> set (cuts c s)"
    using assms(2) by (auto simp: tiling_def)
  then show ?thesis
    using cuts_bounds [OF assms(1), of p "fst s" "snd s"] by simp
qed

section \<open>Rising lists\<close>

lemma rises_simps [simp]:
  "rises []" "rises [x]" "rises (x # y # ys) \<longleftrightarrow> x < y \<and> rises (y # ys)"
  by (auto simp: rises_def)

lemma rises_sorted: "rises xs \<longleftrightarrow> sorted_wrt (<) xs"
proof (induction xs rule: induct_list012)
  case (3 x y zs)
  then show ?case by (auto dest: less_trans)
qed simp_all

lemma rises_distinct: "rises xs \<Longrightarrow> distinct xs"
  by (simp add: rises_sorted strict_sorted_iff)

section \<open>Runs\<close>

definition gaps :: "int list \<Rightarrow> nat list" where
  "gaps idx = map Suc (filter (\<lambda>i. idx ! Suc i - idx ! i \<noteq> 1) [0..<length idx - 1])"

lemma runs_gaps:
  "idx \<noteq> [] \<Longrightarrow> runs idx = map2 (\<lambda>s0 s1. (idx ! s0, idx ! (s1 - 1) + 1)) (0 # gaps idx) (gaps idx @ [length idx])"
  by (simp add: runs_def gaps_def Let_def)

lemma gaps_Cons:
  "gaps (x # y # ys) = (if y = x + 1 then [] else [1]) @ map Suc (gaps (y # ys))"
  by (auto simp: gaps_def upt_conv_Cons filter_map map_Suc_upt [symmetric] comp_def simp del: upt_Suc)

lemma runs_Nil [simp]: "runs [] = []"
  by (simp add: runs_def)

lemma runs_single [simp]: "runs [x] = [(x, x + 1)]"
  by (simp add: runs_def)

lemma runs_Cons:
  "runs (x # y # ys) =
     (if y = x + 1 then (x, snd (hd (runs (y # ys)))) # tl (runs (y # ys))
      else (x, x + 1) # runs (y # ys))"
proof -
  let ?g = "gaps (y # ys)"
  have shift: "map2 (\<lambda>s0 s1. ((x # y # ys) ! s0, (x # y # ys) ! (s1 - 1) + 1)) (map Suc as) (map Suc bs)
      = map2 (\<lambda>s0 s1. ((y # ys) ! s0, (y # ys) ! (s1 - 1) + 1)) as bs"
    if "0 \<notin> set bs" for as bs
    using that
    by (induction as bs rule: list_induct2') (auto simp: nth_Cons split: nat.splits)
  have pos: "0 \<notin> set (?g @ [length (y # ys)])"
    by (auto simp: gaps_def)
  show ?thesis
  proof (cases "y = x + 1")
    case False
    then show ?thesis
      using shift [OF pos, of "0 # ?g"] by (simp add: runs_gaps gaps_Cons)
  next
    case True
    obtain b bs where b: "?g @ [length (y # ys)] = b # bs"
      by (cases ?g) auto
    have b': "map Suc ?g @ [Suc (Suc (length ys))] = Suc b # map Suc bs"
      using arg_cong [OF b, of "map Suc"] by simp
    have "0 \<notin> set bs" "b \<noteq> 0"
      using pos unfolding b by auto
    then have "(x # y # ys) ! b = (y # ys) ! (b - 1)"
      by (simp add: nth_Cons')
    then have "runs (x # y # ys) = (x, (y # ys) ! (b - 1) + 1)
        # map2 (\<lambda>s0 s1. ((y # ys) ! s0, (y # ys) ! (s1 - 1) + 1)) ?g bs"
      using True b' shift [OF \<open>0 \<notin> set bs\<close>, of ?g] by (simp add: runs_gaps gaps_Cons del: nth_Cons_Suc)
    moreover have "runs (y # ys) = (y, (y # ys) ! (b - 1) + 1)
        # map2 (\<lambda>s0 s1. ((y # ys) ! s0, (y # ys) ! (s1 - 1) + 1)) ?g bs"
      using b by (simp add: runs_gaps)
    ultimately show ?thesis
      using True by simp
  qed
qed

definition separated :: "(int \<times> int) list \<Rightarrow> bool" where
  \<comment> \<open>nonempty spans, in order, with a row missing between any two\<close>
  "separated ss \<longleftrightarrow>
     list_all (\<lambda>s. fst s < snd s) ss \<and> sorted_wrt (\<lambda>s t. snd s < fst t) ss"

lemma separated_Cons:
  "separated (s # ss) \<longleftrightarrow> fst s < snd s \<and> list_all (\<lambda>t. snd s < fst t) ss \<and> separated ss"
  by (auto simp: separated_def list_all_iff)

lemma separated_Cons_Cons:
  "separated (s # t # ss) \<longleftrightarrow> fst s < snd s \<and> snd s < fst t \<and> separated (t # ss)"
  by (fastforce simp: separated_Cons list_all_iff)

lemma separated_Nil [simp]: "separated []"
  by (simp add: separated_def)

lemma runs_head: "\<exists>h rest. runs (x # xs) = (x, h) # rest"
  by (cases xs) (auto simp: runs_Cons)

text \<open>The runs of a rising list are separated and list it.\<close>

lemma runs_list:
  assumes "rises idx"
  shows "rows_of_spans (runs idx) = idx \<and> separated (runs idx)"
  using assms
proof (induction idx rule: induct_list012)
  case 1
  then show ?case by simp
next
  case (2 x)
  then show ?case by (simp add: rows_in_Cons rows_in_empty separated_Cons)
next
  case (3 x y ys)
  obtain h rest where r: "runs (y # ys) = (y, h) # rest"
    using runs_head by blast
  have IH: "rows_in (y, h) @ rows_of_spans rest = y # ys" "separated ((y, h) # rest)"
    using 3 r by auto
  then have "y < h"
    by (simp add: separated_Cons)
  show ?case
  proof (cases "y = x + 1")
    case True
    with r have "runs (x # y # ys) = (x, h) # rest"
      by (simp add: runs_Cons)
    then show ?thesis
      using True IH \<open>y < h\<close> by (simp add: rows_in_Cons [of x h] separated_Cons)
  next
    case False
    with r have "runs (x # y # ys) = (x, x + 1) # (y, h) # rest"
      by (simp add: runs_Cons)
    then show ?thesis
      using False IH "3.prems" by (simp add: rows_in_Cons [of x] rows_in_empty separated_Cons_Cons)
  qed
qed

lemma runs_rows_in:
  assumes "lo < hi" and "xs = [] \<or> hi < hd xs"
  shows "runs (rows_in (lo, hi) @ xs) = (lo, hi) # runs xs"
  using assms
proof (induction "nat (hi - lo)" arbitrary: lo)
  case (Suc n)
  show ?case
  proof (cases "lo + 1 < hi")
    case True
    then have "runs (rows_in (lo + 1, hi) @ xs) = (lo + 1, hi) # runs xs"
      using Suc by (intro Suc.hyps(1)) linarith+
    then show ?thesis
      using True Suc.prems by (simp add: rows_in_Cons runs_Cons)
  next
    case False
    then have "hi = lo + 1"
      using Suc.prems by linarith
    then show ?thesis
      using Suc.prems by (cases xs) (auto simp: rows_in_Cons rows_in_empty runs_Cons)
  qed
qed simp

lemma runs_of_separated: "separated ss \<Longrightarrow> runs (rows_of_spans ss) = ss"
proof (induction ss)
  case (Cons s ss)
  have "rows_of_spans ss = [] \<or> snd s < hd (rows_of_spans ss)"
    using Cons.prems by (cases ss) (auto simp: separated_Cons rows_in_Cons)
  then show ?case
    using Cons runs_rows_in [of "fst s" "snd s" "rows_of_spans ss"] by (simp add: separated_Cons)
qed simp

section \<open>The parts a restriction keeps\<close>

lemma rises_rows_in: "rises (rows_in s)"
  by (simp add: rises_sorted rows_in_def)

lemma filter_rises:
  "rises xs \<Longrightarrow> filter (\<lambda>i. i0 \<le> i \<and> i < i1) xs = filter (\<lambda>i. i \<in> set xs) (rows_in (i0, i1))"
  using rises_rows_in [of "(i0, i1)"]
  by (intro strict_sorted_equal) (auto simp: rises_sorted intro: sorted_wrt_filter)

lemma filter_rows_in:
  "filter (\<lambda>i. i0 \<le> i \<and> i < i1) (rows_in (r0, r1)) = rows_in (max r0 i0, min r1 i1)"
proof (induction "nat (r1 - r0)" arbitrary: r0)
  case 0
  then show ?case by (simp add: rows_in_empty)
next
  case (Suc n)
  then have IH: "filter (\<lambda>i. i0 \<le> i \<and> i < i1) (rows_in (r0 + 1, r1)) = rows_in (max (r0 + 1) i0, min r1 i1)"
    by (intro Suc.hyps(1)) linarith
  have "r0 < r1"
    using Suc.hyps(2) by linarith
  consider "r0 < i0" | "i1 \<le> r0" | "i0 \<le> r0" "r0 < i1"
    by linarith
  then show ?case
  proof cases
    case 1
    then have "max (r0 + 1) i0 = max r0 i0" by simp
    then show ?thesis
      using IH 1 \<open>r0 < r1\<close> by (simp add: rows_in_Cons [of r0 r1])
  next
    case 2
    then show ?thesis
      using IH \<open>r0 < r1\<close> by (simp add: rows_in_Cons [of r0 r1] rows_in_empty)
  next
    case 3
    then show ?thesis
      using IH \<open>r0 < r1\<close> by (simp add: rows_in_Cons [of r0 r1] rows_in_Cons [of r0 "min r1 i1"])
  qed
qed

text \<open>They are the rows of the runs that lie in the window.\<close>

lemma rows_of_parts:
  "rows_of_spans (parts rs i0 i1) = filter (\<lambda>i. i0 \<le> i \<and> i < i1) (rows_of_spans rs)"
proof (induction rs i0 i1 rule: parts.induct)
  case (2 r0 r1 rs i0 i1)
  then show ?case
    using rows_in_empty [of "(max r0 i0, min r1 i1)"] by (auto simp: Let_def filter_rows_in)
qed simp

lemma parts_nonempty: "p \<in> set (parts rs i0 i1) \<Longrightarrow> i0 \<le> fst p \<and> fst p < snd p \<and> snd p \<le> i1"
  by (induction rs i0 i1 rule: parts.induct) (auto simp: Let_def split: if_splits)

section \<open>Arrays\<close>

lemma length_put [simp]: "length (put a idx vs) = length a"
proof -
  have "length (fold (\<lambda>(i, v) a. a[nat i := v]) ps a) = length a" for ps :: "(int \<times> 'a) list"
    by (induction ps arbitrary: a) auto
  then show ?thesis
    by (simp add: put_def)
qed

lemma put_Nil [simp]: "put a [] vs = a"
  by (simp add: put_def)

lemma put_Cons [simp]: "put a (i # idx) (v # vs) = put (a[nat i := v]) idx vs"
  by (simp add: put_def)

text \<open>An assignment at rising indices writes the value of the same position there and leaves the
  rest.\<close>

lemma put_other:
  "\<forall>i \<in> set idx. 0 \<le> i \<Longrightarrow> int j \<notin> set idx \<Longrightarrow> put a idx vs ! j = a ! j"
proof (induction idx arbitrary: a vs)
  case (Cons i idx)
  then show ?case
    by (cases vs) (auto simp: put_def)
qed simp

lemma put_nth:
  assumes "distinct idx" and "length vs = length idx"
    and "\<forall>i \<in> set idx. 0 \<le> i \<and> i < int (length a)" and "k < length idx"
  shows "put a idx vs ! nat (idx ! k) = vs ! k"
  using assms
proof (induction idx arbitrary: a vs k)
  case (Cons i idx)
  then obtain v vs' where vs: "vs = v # vs'"
    by (cases vs) auto
  show ?case
  proof (cases k)
    case 0
    have "put (a[nat i := v]) idx vs' ! nat i = a[nat i := v] ! nat i"
      using Cons.prems by (intro put_other) auto
    moreover have "nat i < length a"
      using Cons.prems by auto
    ultimately show ?thesis
      using Cons.prems 0 vs by simp
  next
    case (Suc k')
    then show ?thesis
      using Cons.prems vs Cons.IH [of vs' "a[nat i := v]" k'] by simp
  qed
qed simp

lemma put_const_nth:
  assumes "distinct idx" and "\<forall>i \<in> set idx. 0 \<le> i \<and> i < int (length a)" and "j < length a"
  shows "put a idx (map (\<lambda>_. v) idx) ! j = (if int j \<in> set idx then v else a ! j)"
proof (cases "int j \<in> set idx")
  case True
  then obtain k where "k < length idx" "idx ! k = int j"
    by (auto simp: in_set_conv_nth)
  then show ?thesis
    using put_nth [of idx "map (\<lambda>_. v) idx" a k] assms True by simp
next
  case False
  then show ?thesis
    using assms by (simp add: put_other)
qed

lemma slice_at_inside [simp]: "0 \<le> i \<Longrightarrow> i \<le> int n \<Longrightarrow> slice_at n i = nat i"
  by (simp add: slice_at_def)

lemma np_item_inside: "0 \<le> i \<Longrightarrow> i < int (length xs) \<Longrightarrow> np_item xs i = Inr (xs ! nat i)"
  by (simp add: np_item_def)

section \<open>A restriction's record\<close>

lemma rises_bounds:
  assumes "rises xs" and "xs = [] \<or> 0 \<le> hd xs \<and> last xs < n" and "x \<in> set xs"
  shows "0 \<le> x \<and> x < n"
proof -
  have "sorted xs"
    using assms(1) by (simp add: rises_sorted strict_sorted_iff)
  obtain k where k: "k < length xs" "x = xs ! k"
    using assms(3) by (auto simp: in_set_conv_nth)
  with \<open>sorted xs\<close> have "xs ! 0 \<le> x" "x \<le> xs ! (length xs - 1)"
    by (auto intro!: sorted_nth_mono)
  moreover have "xs \<noteq> []"
    using k by auto
  ultimately have "hd xs \<le> x" "x \<le> last xs"
    by (auto simp: hd_conv_nth last_conv_nth)
  then show ?thesis
    using assms(2,3) by auto
qed

lemma mk_observer_rows_ok:
  assumes "mk_observer_rows segs n_segs n_basis f compacted = Inr R"
  shows "rises segs" "\<forall>i \<in> set segs. 0 \<le> i \<and> i < n_segs" "0 \<le> n_segs" "0 \<le> n_basis"
    "rises (f segs)" "\<forall>m \<in> set (f segs). 0 \<le> m \<and> m < n_basis"
    "or_basis_rows R = f segs" "or_basis_runs R = runs (f segs)" "or_key R = (n_basis, f segs)"
    "or_runs R = runs segs"
    "or_row_of R = (if compacted then Some (or_loading_map R) else None)"
    "or_loading_map R = put (replicate (nat n_basis) (-1)) (f segs)
       (if compacted then map int [0..<length (f segs)] else f segs)"
    "or_held R = put (replicate (nat n_basis) False) (f segs) (map (\<lambda>_. True) (f segs))"
    "or_seg_mask R = put (replicate (nat n_segs) False) segs (map (\<lambda>_. True) segs)"
proof -
  show R: "rises segs" "0 \<le> n_segs" "0 \<le> n_basis" "rises (f segs)"
    "or_basis_rows R = f segs" "or_basis_runs R = runs (f segs)" "or_key R = (n_basis, f segs)"
    "or_runs R = runs segs"
    "or_row_of R = (if compacted then Some (or_loading_map R) else None)"
    "or_loading_map R = put (replicate (nat n_basis) (-1)) (f segs)
       (if compacted then map int [0..<length (f segs)] else f segs)"
    "or_held R = put (replicate (nat n_basis) False) (f segs) (map (\<lambda>_. True) (f segs))"
    "or_seg_mask R = put (replicate (nat n_segs) False) segs (map (\<lambda>_. True) segs)"
    using assms
    by (auto simp: mk_observer_rows_def okE Let_def np_full_def split: if_splits)
  have "segs = [] \<or> 0 \<le> hd segs \<and> last segs < n_segs"
    "f segs = [] \<or> 0 \<le> hd (f segs) \<and> last (f segs) < n_basis"
    using assms by (auto simp: mk_observer_rows_def okE Let_def)
  then show "\<forall>i \<in> set segs. 0 \<le> i \<and> i < n_segs" "\<forall>m \<in> set (f segs). 0 \<le> m \<and> m < n_basis"
    using R rises_bounds by blast+
qed

text \<open>The windows of a restriction are the requested rows of the chunk, and the windows of the
  basis axis its rows of the restriction.\<close>

lemma rows_of_windows:
  assumes "mk_observer_rows segs n_segs n_basis f compacted = Inr R"
  shows "rows_of_spans (windows R i0 i1) = filter (\<lambda>i. i0 \<le> i \<and> i < i1) segs"
  using mk_observer_rows_ok [OF assms] by (simp add: windows_def rows_of_parts runs_list)

lemma rows_of_basis_windows:
  assumes "mk_observer_rows segs n_segs n_basis f compacted = Inr R"
  shows "rows_of_spans (fst (basis_windows R i0 i1 w)) = filter (\<lambda>m. i0 \<le> m \<and> m < i1) (or_basis_rows R)"
  using mk_observer_rows_ok [OF assms] by (simp add: basis_windows_def Let_def rows_of_parts runs_list)

lemma held_nth:
  assumes "mk_observer_rows segs n_segs n_basis f compacted = Inr R" and "0 \<le> m" and "m < n_basis"
  shows "or_held R ! nat m \<longleftrightarrow> m \<in> set (or_basis_rows R)" and "length (or_held R) = nat n_basis"
proof -
  note ok = mk_observer_rows_ok [OF assms(1)]
  show "length (or_held R) = nat n_basis"
    using ok by simp
  have "put (replicate (nat n_basis) False) (f segs) (map (\<lambda>_. True) (f segs)) ! nat m
      = (if int (nat m) \<in> set (f segs) then True else replicate (nat n_basis) False ! nat m)"
    using ok assms(2,3) by (intro put_const_nth) (auto intro: rises_distinct)
  then show "or_held R ! nat m \<longleftrightarrow> m \<in> set (or_basis_rows R)"
    using ok assms(2,3) by simp
qed

text \<open>Rows that are all of the restriction, and no others, have a place in the destination: their
  own on a square one, their position among the restriction's rows on a compact one.\<close>

lemma all_held:
  assumes "mk_observer_rows segs n_segs n_basis f compacted = Inr R"
    and "0 \<le> lo" and "lo < hi" and "hi \<le> n_basis"
  shows "list_all id (py_slice (or_held R) lo hi) \<longleftrightarrow> set (rows_in (lo, hi)) \<subseteq> set (or_basis_rows R)"
proof -
  have "length (or_held R) = nat n_basis"
    using mk_observer_rows_ok [OF assms(1)] by simp
  then have "list_all id (py_slice (or_held R) lo hi) \<longleftrightarrow> (\<forall>k < nat (hi - lo). or_held R ! nat (lo + int k))"
    using assms(2-4) by (auto simp: py_slice_def list_all_length nat_add_distrib nat_diff_distrib)
  also have "\<dots> \<longleftrightarrow> (\<forall>k < nat (hi - lo). lo + int k \<in> set (or_basis_rows R))"
    using held_nth [OF assms(1)] assms(2-4) by auto
  also have "\<dots> \<longleftrightarrow> (\<forall>m. lo \<le> m \<and> m < hi \<longrightarrow> m \<in> set (or_basis_rows R))"
  proof (intro iffI allI impI)
    fix m assume all: "\<forall>k < nat (hi - lo). lo + int k \<in> set (or_basis_rows R)" and m: "lo \<le> m \<and> m < hi"
    then have "nat (m - lo) < nat (hi - lo)"
      by linarith
    then show "m \<in> set (or_basis_rows R)"
      using all m by fastforce
  qed auto
  finally show ?thesis
    by auto
qed

lemma target_square:
  assumes "mk_observer_rows segs n_segs n_basis f False = Inr R" and "lo < hi"
    and "set (rows_in (lo, hi)) \<subseteq> set (or_basis_rows R)"
  shows "target R lo hi = Inr (lo, hi)"
proof -
  note ok = mk_observer_rows_ok [OF assms(1)]
  have "lo \<in> set (f segs)" "hi - 1 \<in> set (f segs)"
    using assms(2,3) ok by auto
  then have "0 \<le> lo" "hi \<le> n_basis"
    using ok by fastforce+
  then show ?thesis
    using assms ok all_held [OF assms(1)] by (simp add: target_def)
qed

lemma target_compact:
  assumes "mk_observer_rows segs n_segs n_basis f True = Inr R" and "lo < hi"
    and "or_basis_rows R = xs @ rows_in (lo, hi) @ ys"
  shows "target R lo hi = Inr (int (length xs), int (length xs) + (hi - lo))"
proof -
  note ok = mk_observer_rows_ok [OF assms(1)]
  have "lo \<in> set (f segs)" "hi - 1 \<in> set (f segs)"
    using assms(2,3) ok by auto
  then have lo: "0 \<le> lo" "lo < n_basis" and hi: "hi \<le> n_basis"
    using ok by fastforce+
  have k: "length xs < length (f segs)" "f segs ! length xs = lo"
    using assms(2,3) ok by (auto simp: rows_in_Cons nth_append)
  have "put (replicate (nat n_basis) (-1)) (f segs) (map int [0..<length (f segs)]) ! nat (f segs ! length xs)
      = map int [0..<length (f segs)] ! length xs"
    using ok k by (intro put_nth) (auto intro: rises_distinct)
  then have "or_loading_map R ! nat lo = int (length xs)"
    using ok k by simp
  moreover have "np_item (or_loading_map R) lo = Inr (or_loading_map R ! nat lo)"
    using ok lo by (intro np_item_inside) auto
  ultimately show ?thesis
    using assms ok lo hi all_held [OF assms(1)] by (auto simp: target_def)
qed

text \<open>Subtracting rows from a slice of as many.\<close>

lemma sub_rows_slice:
  assumes "length rows = length mid"
  shows "sub_rows (xs @ mid @ ys) (int (length xs)) (int (length xs) + int (length mid)) rows
     = Inr (xs @ map2 (-) mid rows @ ys)"
proof -
  have "py_slice (xs @ mid @ ys) (int (length xs)) (int (length xs) + int (length mid)) = mid"
    by (simp add: py_slice_def nat_add_distrib)
  moreover have "(if length rows = 1 then replicate (length mid) (hd rows) else rows) = rows"
    using assms by (cases rows) auto
  ultimately show ?thesis
    using assms by (simp add: sub_rows_def Let_def)
qed

end
