(* ===== verification/Cancel.thy ===== *)
theory Cancel
  imports Schedule
begin

text \<open>
  \<open>src/src/momwire/_cancel.py\<close>: cooperative cancellation.  A token is the address of its
  flag, which another thread may raise; a solver polls the flag at its checkpoints, and the
  free functions below a solver poll the token that is ambient on their thread.
\<close>

datatype solve_exn = SolveAborted

record cancel_state = stats +
  cs_flags :: "nat \<Rightarrow> int" \<comment> \<open>the flag at each address\<close>
  cs_ambient :: "nat option" \<comment> \<open>this thread's ambient token\<close>

definition new_token :: "nat \<Rightarrow> 'z cancel_state_scheme \<Rightarrow> 'z cancel_state_scheme" where
  \<comment> \<open>a \<open>CancelToken\<close> whose flag was allocated at the address\<close>
  "new_token t w = w\<lparr>cs_flags := (cs_flags w)(t := 0)\<rparr>"

definition cancel :: "nat \<Rightarrow> 'z cancel_state_scheme \<Rightarrow> 'z cancel_state_scheme" where
  "cancel t w = w\<lparr>cs_flags := (cs_flags w)(t := 1)\<rparr>"

definition cancelled :: "nat \<Rightarrow> 'z cancel_state_scheme \<Rightarrow> bool" where
  "cancelled t w \<longleftrightarrow> cs_flags w t \<noteq> 0"

definition raise_if_cancelled :: "nat \<Rightarrow> (solve_exn, 'z cancel_state_scheme) action" where
  "raise_if_cancelled t w =
     (if cs_flags w t \<noteq> 0 then Inl (Callback SolveAborted, w) else Inr w)"

definition checkpoint :: "nat option \<Rightarrow> (solve_exn, 'z cancel_state_scheme) action" where
  \<comment> \<open>\<open>_Cancelable._checkpoint\<close> of a solver with this token\<close>
  "checkpoint tok w = (case tok of None \<Rightarrow> Inr w | Some t \<Rightarrow> raise_if_cancelled t w)"

definition cancel_flag :: "nat option \<Rightarrow> nat" where
  \<comment> \<open>the address a C++ kernel is given, 0 for none\<close>
  "cancel_flag tok = (case tok of None \<Rightarrow> 0 | Some t \<Rightarrow> t)"

definition scope ::
  "nat option \<Rightarrow> ('z cancel_state_scheme \<Rightarrow> 'x \<times> 'z cancel_state_scheme + 'a \<times> 'z cancel_state_scheme) \<Rightarrow>
    'z cancel_state_scheme \<Rightarrow> 'x \<times> 'z cancel_state_scheme + 'a \<times> 'z cancel_state_scheme" where
  \<comment> \<open>\<open>with scope(token): block\<close>\<close>
  "scope tok block w =
     (let prev = cs_ambient w
      in case block (w\<lparr>cs_ambient := tok\<rparr>) of
           Inl (e, v) \<Rightarrow> Inl (e, v\<lparr>cs_ambient := prev\<rparr>)
         | Inr (a, v) \<Rightarrow> Inr (a, v\<lparr>cs_ambient := prev\<rparr>))"

definition poll :: "(solve_exn, 'z cancel_state_scheme) action" where
  "poll w =
     (case cs_ambient w of
        None \<Rightarrow> Inr w
      | Some t \<Rightarrow> if cs_flags w t \<noteq> 0 then Inl (Callback SolveAborted, w) else Inr w)"

definition ambient_ptr :: "'z cancel_state_scheme \<Rightarrow> nat" where
  "ambient_ptr w = (case cs_ambient w of None \<Rightarrow> 0 | Some t \<Rightarrow> t)"

definition scope_flag ::
  "nat \<Rightarrow> ('z cancel_state_scheme \<Rightarrow> 'x \<times> 'z cancel_state_scheme + 'a \<times> 'z cancel_state_scheme) \<Rightarrow>
    'z cancel_state_scheme \<Rightarrow> 'x \<times> 'z cancel_state_scheme + 'a \<times> 'z cancel_state_scheme" where
  \<comment> \<open>the borrowed view of the flag is the token of its address\<close>
  "scope_flag addr block = (if addr = 0 then block else scope (Some addr) block)"

section \<open>Lemmas\<close>

text \<open>A scope leaves the ambient token as it was, however its block ends.\<close>

lemma scope_restores:
  "(case scope tok block w of Inl (e, v) \<Rightarrow> cs_ambient v | Inr (a, v) \<Rightarrow> cs_ambient v) = cs_ambient w"
  by (auto simp: scope_def Let_def split: sum.splits prod.splits)

lemma scope_flag_restores:
  assumes "\<And>w. (case block w of Inl (e, v) \<Rightarrow> cs_ambient v | Inr (a, v) \<Rightarrow> cs_ambient v) = cs_ambient w"
  shows "(case scope_flag addr block w of Inl (e, v) \<Rightarrow> cs_ambient v | Inr (a, v) \<Rightarrow> cs_ambient v) = cs_ambient w"
  using assms scope_restores [of "Some addr" block w] by (simp add: scope_flag_def)

text \<open>A nested getter without a flag of its own polls the flag of the fill around it.\<close>

lemma scope_flag_keeps_outer:
  "scope (Some t) (scope_flag 0 block) = scope (Some t) block"
  by (simp add: scope_flag_def)

end
