(* ===== verification/Schedule_Properties.thy ===== *)
theory Schedule_Properties
  imports Schedule_Laws Cancel
begin

text \<open>
  The numbered properties of the fill schedule: which blocks a sweep calls, whatever the blocks
  do, and in which order; what cancellation stops; and that a prepared fill folds into the rows
  its restriction names.
\<close>

section \<open>The plan of a sweep\<close>

definition kept :: "observer_rows option \<Rightarrow> int \<times> int \<Rightarrow> (int \<times> int) list" where
  \<comment> \<open>the windows of a chunk\<close>
  "kept restrict c = (case restrict of None \<Rightarrow> [c] | Some R \<Rightarrow> windows R (fst c) (snd c))"

definition sweep_plan ::
  "int \<Rightarrow> (int \<times> int) list \<Rightarrow> observer_rows option \<Rightarrow> (int \<times> int) list \<Rightarrow>
    ((int \<times> int) \<times> int \<times> int) list list" where
  \<comment> \<open>the blocks of each chunk\<close>
  "sweep_plan chunk spans restrict sources =
     map (\<lambda>c. List.product (kept restrict c) sources) (tiling chunk spans)"

definition meet ::
  "(int \<Rightarrow> int \<Rightarrow> int \<Rightarrow> int \<Rightarrow> ('e, 'w) action) \<Rightarrow> int \<times> 'w \<Rightarrow> (int \<times> int) \<times> int \<times> int \<Rightarrow>
    'e stop \<times> 'w + int \<times> 'w" where
  \<comment> \<open>one block is called, and counted if it returns\<close>
  "meet block s b =
     bindE (block (fst (fst b)) (snd (fst b)) (fst (snd b)) (snd (snd b)) (snd s)) (\<lambda>w. Inr (fst s + 1, w))"

definition run_chunk ::
  "('e, 'z stats_scheme) action option \<Rightarrow> (int \<Rightarrow> int \<Rightarrow> int \<Rightarrow> int \<Rightarrow> ('e, 'z stats_scheme) action) \<Rightarrow>
    int \<times> 'z stats_scheme \<Rightarrow> ((int \<times> int) \<times> int \<times> int) list \<Rightarrow>
    'e stop \<times> 'z stats_scheme + int \<times> 'z stats_scheme" where
  \<comment> \<open>a checkpoint, and the blocks of the chunk\<close>
  "run_chunk cp block s bs =
     bindE (call_checkpoint cp (snd s)) (\<lambda>w.
       foldE (meet block) (fst s, w\<lparr>st_chunks := st_chunks w + 1\<rparr>) bs)"

lemma meet_product:
  "foldE (\<lambda>s (i0, i1).
       foldE (\<lambda>(n, w) (j0, j1). bindE (block i0 i1 j0 j1 w) (\<lambda>w. Inr (n + 1, w))) s sources) s wins
     = foldE (meet block) s (List.product wins sources)"
  by (induction wins arbitrary: s)
    (auto simp: foldE_append foldE_map meet_def split_beta intro!: arg_cong [where f = "\<lambda>g. bindE (foldE g _ _) _"] ext)

lemma sweep_planned:
  assumes "0 < chunk"
  shows "sweep spans chunk block sources cp restrict w =
     bindE (foldE (run_chunk cp block) (0, w\<lparr>st_sweeps := st_sweeps w + 1\<rparr>)
              (sweep_plan chunk spans restrict sources))
       (\<lambda>(n, w). Inr (n, w\<lparr>st_blocks := st_blocks w + n\<rparr>))"
proof -
  have "(\<lambda>s c. run_chunk cp block s (List.product (kept restrict c) sources))
      = chunk_step cp (\<lambda>c0 c1 s. foldE (meet block) s (List.product (kept restrict (c0, c1)) sources))"
    by (simp add: run_chunk_def chunk_step_def fun_eq_iff)
  moreover have "sweep spans chunk block sources cp restrict w =
      bindE (chunks spans chunk cp
          (\<lambda>c0 c1 s. foldE (meet block) s (List.product (kept restrict (c0, c1)) sources))
          (0, w\<lparr>st_sweeps := st_sweeps w + 1\<rparr>))
        (\<lambda>(n, w). Inr (n, w\<lparr>st_blocks := st_blocks w + n\<rparr>))"
    by (simp add: sweep_def meet_product kept_def cong: option.case_cong)
  ultimately show ?thesis
    by (simp only: sweep_plan_def foldE_map chunks_tiling [OF assms])
qed

text \<open>The blocks that hold a row.\<close>

definition blocks_with :: "int \<Rightarrow> ((int \<times> int) \<times> int \<times> int) list \<Rightarrow> ((int \<times> int) \<times> int \<times> int) list" where
  "blocks_with i = filter (\<lambda>b. fst (fst b) \<le> i \<and> i < snd (fst b))"

lemma blocks_with_append [simp]: "blocks_with i (bs @ cs) = blocks_with i bs @ blocks_with i cs"
  by (simp add: blocks_with_def)

lemma blocks_with_window:
  "map snd (blocks_with i (map (Pair win) sources)) = (if fst win \<le> i \<and> i < snd win then sources else [])"
  by (induction sources) (auto simp: blocks_with_def)

lemma blocks_with_product:
  assumes "distinct (rows_of_spans wins)"
  shows "map snd (blocks_with i (List.product wins sources))
    = (if i \<in> set (rows_of_spans wins) then sources else [])"
  using assms
proof (induction wins)
  case (Cons win wins)
  have "\<not> (fst win \<le> i \<and> i < snd win \<and> i \<in> set (rows_of_spans wins))"
    using Cons.prems by auto
  then show ?case
    using Cons by (auto simp: blocks_with_window)
qed (simp add: blocks_with_def)

lemma concat_plan:
  "concat (sweep_plan chunk spans restrict sources)
     = List.product (concat (map (kept restrict) (tiling chunk spans))) sources"
proof -
  have "concat (map (\<lambda>c. List.product (f c) sources) cs) = List.product (concat (map f cs)) sources"
    for f :: "int \<times> int \<Rightarrow> (int \<times> int) list" and cs
  proof (induction cs)
    case (Cons c cs)
    have "List.product (xs @ ys) sources = List.product xs sources @ List.product ys sources"
      for xs ys :: "(int \<times> int) list"
      by (induction xs) simp_all
    then show ?case
      using Cons by simp
  qed simp
  then show ?thesis
    by (simp add: sweep_plan_def)
qed

lemma kept_None: "kept None = (\<lambda>c. [c])"
  by (simp add: kept_def fun_eq_iff)

lemma kept_rows:
  assumes "mk_observer_rows segs n_segs n_basis rows_of compacted = Inr R"
  shows "rows_of_spans (concat (map (kept (Some R)) cs)) = filter (\<lambda>i. i \<in> set segs) (rows_of_spans cs)"
proof (induction cs)
  case (Cons c cs)
  then show ?case
    using rows_of_windows [OF assms] filter_rises [of segs "fst c" "snd c"] mk_observer_rows_ok [OF assms]
    by (simp add: kept_def)
qed simp

lemma separated_parts: "separated rs \<Longrightarrow> separated (parts rs i0 i1)"
proof (induction rs i0 i1 rule: parts.induct)
  case (2 r0 r1 rs i0 i1)
  have "list_all (\<lambda>t. min r1 i1 < fst t) (parts rs i0 i1)"
  proof (unfold list_all_iff, intro ballI)
    fix p
    assume "p \<in> set (parts rs i0 i1)"
    moreover have "\<forall>t \<in> set rs. r1 < fst t"
      using 2 by (simp add: separated_Cons list_all_iff)
    ultimately have "r1 < fst p"
      by (induction rs i0 i1 rule: parts.induct) (auto simp: Let_def split: if_splits)
    then show "min r1 i1 < fst p"
      by simp
  qed
  then show ?case
    using 2 by (simp add: Let_def separated_Cons)
qed simp

lemma windows_are_runs:
  assumes "mk_observer_rows segs n_segs n_basis rows_of compacted = Inr R"
  shows "windows R i0 i1 = runs (filter (\<lambda>i. i \<in> set segs) (rows_in (i0, i1)))"
proof -
  note ok = mk_observer_rows_ok [OF assms]
  have "separated (windows R i0 i1)"
    using ok runs_list [of segs] by (simp add: windows_def separated_parts)
  then show ?thesis
    using runs_of_separated rows_of_windows [OF assms, of i0 i1] filter_rises [of segs i0 i1] ok by metis
qed

text \<open>C16: A sweep lets every row meet every source span, once and in order, whatever its blocks do
  and however they fail.  It calls the blocks of its plan in order, a checkpoint before each chunk,
  and ends as the first call that raises does.  In the plan of a full sweep the blocks that hold a
  row of the spans are one for each source span, in the order of those; in the plan of a restricted
  sweep so are those that hold a requested row, and no block holds another row.  Both plans have the
  same chunks, none higher than asked, and the windows of a restricted one are the runs of the
  requested rows in the chunk: a requested row is computed at the boundaries of the full fill's
  chunk.\<close>

theorem sweep_meets_sources:
  assumes "0 < chunk" and "distinct (rows_of_spans spans)"
    and "mk_observer_rows segs n_segs n_basis rows_of compacted = Inr R"
  shows "(\<forall>restrict \<in> {None, Some R}.
      sweep spans chunk block sources cp restrict w =
        bindE (foldE (run_chunk cp block) (0, w\<lparr>st_sweeps := st_sweeps w + 1\<rparr>)
                 (sweep_plan chunk spans restrict sources))
          (\<lambda>(n, w). Inr (n, w\<lparr>st_blocks := st_blocks w + n\<rparr>))) \<and>
    (\<forall>i. map snd (blocks_with i (concat (sweep_plan chunk spans None sources)))
       = (if i \<in> set (rows_of_spans spans) then sources else [])) \<and>
    (\<forall>i. map snd (blocks_with i (concat (sweep_plan chunk spans (Some R) sources)))
       = (if i \<in> set (rows_of_spans spans) \<inter> set segs then sources else [])) \<and>
    (\<forall>c \<in> set (tiling chunk spans). fst c < snd c \<and> snd c \<le> fst c + chunk \<and>
       kept (Some R) c = runs (filter (\<lambda>i. i \<in> set segs) (rows_in c)))"
    (is "?planned \<and> ?full \<and> ?restricted \<and> ?chunks")
proof -
  have all: "rows_of_spans (concat (map (kept None) (tiling chunk spans))) = rows_of_spans spans"
    using rows_of_tiling [OF assms(1)] by (simp add: kept_None)
  have some: "rows_of_spans (concat (map (kept (Some R)) (tiling chunk spans)))
      = filter (\<lambda>i. i \<in> set segs) (rows_of_spans spans)"
    using rows_of_tiling [OF assms(1)] kept_rows [OF assms(3)] by simp
  have ?full ?restricted
    using assms(2) by (simp_all add: concat_plan blocks_with_product all some)
  moreover have ?chunks
    using tiling_bounds [OF assms(1)] windows_are_runs [OF assms(3)] by (auto simp: kept_def)
  ultimately show ?thesis
    using sweep_planned [OF assms(1)] by blast
qed

text \<open>A fill of six rows in chunks of two, three of them requested.\<close>

definition idle_stats :: stats where
  "idle_stats = \<lparr>st_sweeps = 0, st_chunks = 0, st_blocks = 0, st_walked = 0, st_k_chunks = 0,
     st_prepares = 0, st_replays = 0, st_folds = 0, st_basis_windows = 0\<rparr>"

definition three_rows :: observer_rows where
  "three_rows = \<lparr>or_basis_rows = [1, 2], or_basis_runs = [(1, 3)], or_key = (4, [1, 2]),
     or_loading_map = [-1, 0, 1, -1], or_row_of = Some [-1, 0, 1, -1], or_runs = [(1, 3), (4, 5)],
     or_seg_mask = [False, True, True, False, True, False],
     or_held = [False, True, True, False]\<rparr>"

lemma mk_three_rows: "mk_observer_rows [1, 2, 4] 6 4 (\<lambda>_. [1, 2]) True = Inr three_rows"
  by (simp add: mk_observer_rows_def np_full_def put_def runs_def three_rows_def Let_def upt_rec
      eval_nat_numeral numeral_nat)

theorem sweep_meets_sources_witness:
  "map snd (blocks_with 4 (concat (sweep_plan 2 [(0, 3), (3, 6)] (Some three_rows) [(0, 1), (1, 4)])))
     = [(0, 1), (1, 4)] \<and>
   map snd (blocks_with 3 (concat (sweep_plan 2 [(0, 3), (3, 6)] (Some three_rows) [(0, 1), (1, 4)]))) = [] \<and>
   kept (Some three_rows) (0, 2) = [(1, 2)]"
proof -
  have "0 < (2 :: int)" "distinct (rows_of_spans [(0, 3), (3, 6)])"
    by (simp_all add: rows_in_def upto_rec1)
  note swept = sweep_meets_sources [OF this mk_three_rows,
      of "\<lambda>_ _ _ _. Inr" "[(0, 1), (1, 4)]" None idle_stats]
  have rows: "map snd (blocks_with i (concat (sweep_plan 2 [(0, 3), (3, 6)] (Some three_rows) [(0, 1), (1, 4)])))
      = (if i \<in> set (rows_of_spans [(0, 3), (3, 6)]) \<inter> set [1, 2, 4] then [(0, 1), (1, 4)] else [])" for i
    using swept by blast
  have "(0, 2) \<in> set (tiling 2 [(0, 3), (3, 6)])"
    by (simp add: tiling_def cuts_def upt_rec numeral_nat)
  then have "kept (Some three_rows) (0, 2) = runs (filter (\<lambda>i. i \<in> set [1, 2, 4]) (rows_in (0, 2)))"
    using swept by blast
  then show ?thesis
    using rows [of 4] rows [of 3] by (simp add: rows_in_def upto_rec1 del: map_is_Nil_conv)
qed

section \<open>Cancellation\<close>

definition keeps_flag ::
  "nat \<Rightarrow> (int \<Rightarrow> int \<Rightarrow> int \<Rightarrow> int \<Rightarrow> (solve_exn, 'z cancel_state_scheme) action) \<Rightarrow> bool" where
  \<comment> \<open>a raised flag stays raised while a block is computed: the only transition is 0 to 1\<close>
  "keeps_flag t block \<longleftrightarrow>
     (\<forall>i0 i1 j0 j1 w v. block i0 i1 j0 j1 w = Inr v \<longrightarrow> cs_flags w t \<noteq> 0 \<longrightarrow> cs_flags v t \<noteq> 0)"

lemma keeps_flag_blocks:
  assumes "keeps_flag t block" and "cs_flags w t \<noteq> 0" and "foldE (meet block) (n, w) bs = Inr (m, v)"
  shows "cs_flags v t \<noteq> 0"
  using assms(2,3)
proof (induction bs arbitrary: n w)
  case (Cons b bs)
  then obtain u where "block (fst (fst b)) (snd (fst b)) (fst (snd b)) (snd (snd b)) w = Inr u"
    "foldE (meet block) (n + 1, u) bs = Inr (m, v)"
    by (cases "block (fst (fst b)) (snd (fst b)) (fst (snd b)) (snd (snd b)) w")
      (simp_all add: meet_def [of block "(n, w)" b])
  moreover from this have "cs_flags u t \<noteq> 0"
    using assms(1) Cons.prems(1) unfolding keeps_flag_def by blast
  ultimately show ?case
    using Cons.IH by blast
qed simp

lemma run_chunk_up:
  "cs_flags (snd s) t \<noteq> 0 \<Longrightarrow>
    run_chunk (Some (checkpoint (Some t))) block s bs = Inl (Callback SolveAborted, snd s)"
  by (simp add: run_chunk_def call_checkpoint_def checkpoint_def raise_if_cancelled_def)

lemma run_chunk_down:
  "cs_flags (snd s) t = 0 \<Longrightarrow>
    run_chunk (Some (checkpoint (Some t))) block s bs =
      foldE (meet block) (fst s, (snd s)\<lparr>st_chunks := st_chunks (snd s) + 1\<rparr>) bs"
  by (simp add: run_chunk_def call_checkpoint_def checkpoint_def raise_if_cancelled_def)

text \<open>C18: Cancelling a solve stops its sweep, full or restricted, before the next chunk.  When the
  solver's token is cancelled while a block is computed, what is left of the sweep is the rest of
  that block's chunk: if one of those blocks raises, as a block does whose kernel polls the flag,
  the sweep ends there with its exception, and if they return the checkpoint of the next chunk
  raises SolveAborted.  In both cases no block of a later chunk is called; only a cancellation in the
  last chunk lets the sweep return.  Of the blocks it is used only that they do not lower a raised
  flag.\<close>

theorem cancel_stops_sweep:
  assumes "0 < chunk" and "keeps_flag t block"
    and "sweep_plan chunk spans restrict sources = before @ (early @ ((i0, i1), (j0, j1)) # late) # rest"
    and "foldE (run_chunk (Some (checkpoint (Some t))) block) (0, w\<lparr>st_sweeps := st_sweeps w + 1\<rparr>) before
       = Inr (n, w0)" and "cs_flags w0 t = 0"
    and "foldE (meet block) (n, w0\<lparr>st_chunks := st_chunks w0 + 1\<rparr>) early = Inr (m, w1)"
    and "block i0 i1 j0 j1 w1 = Inr w2" and "cs_flags w2 t \<noteq> 0"
  shows "sweep spans chunk block sources (Some (checkpoint (Some t))) restrict w =
    bindE (foldE (meet block) (m + 1, w2) late) (\<lambda>(k, w3).
      if rest = [] then Inr (k, w3\<lparr>st_blocks := st_blocks w3 + k\<rparr>)
      else Inl (Callback SolveAborted, w3))"
proof -
  let ?c = "early @ ((i0, i1), (j0, j1)) # late"
  have c: "run_chunk (Some (checkpoint (Some t))) block (n, w0) ?c = foldE (meet block) (m + 1, w2) late"
    using assms(5-7) by (simp add: run_chunk_down foldE_append meet_def)
  have run: "sweep spans chunk block sources (Some (checkpoint (Some t))) restrict w =
      bindE (bindE (foldE (meet block) (m + 1, w2) late)
          (\<lambda>s. foldE (run_chunk (Some (checkpoint (Some t))) block) s rest))
        (\<lambda>(n, w). Inr (n, w\<lparr>st_blocks := st_blocks w + n\<rparr>))"
    unfolding sweep_planned [OF assms(1)] assms(3) using assms(4) c by (simp add: foldE_append)
  show ?thesis
  proof (cases "foldE (meet block) (m + 1, w2) late")
    case (Inl x)
    then show ?thesis by (simp add: run)
  next
    case (Inr s)
    then have "cs_flags (snd s) t \<noteq> 0"
      using keeps_flag_blocks [OF assms(2,8)] by (cases s) simp
    then show ?thesis
      using Inr run_chunk_up [of s t block] by (cases rest) (simp_all add: run split_beta)
  qed
qed

text \<open>A restricted sweep in chunks of two, with two source spans and a block that polls the flag
  before it starts.  The token is cancelled in the first block of the second chunk, and the second
  block of that chunk raises.\<close>

record log_state = cancel_state +
  ls_log :: "((int \<times> int) \<times> int \<times> int) list"

definition polling_block ::
  "nat \<Rightarrow> (int \<times> int) \<times> int \<times> int \<Rightarrow> int \<Rightarrow> int \<Rightarrow> int \<Rightarrow> int \<Rightarrow> (solve_exn, log_state) action" where
  \<comment> \<open>the token is cancelled while the block \<open>hit\<close> is computed\<close>
  "polling_block t hit i0 i1 j0 j1 w =
     bindE (raise_if_cancelled t w) (\<lambda>w.
       Inr ((if ((i0, i1), (j0, j1)) = hit then cancel t w else w)
              \<lparr>ls_log := ls_log w @ [((i0, i1), (j0, j1))]\<rparr>))"

definition idle_log :: log_state where
  "idle_log = stats.extend idle_stats \<lparr>cs_flags = (\<lambda>_. 0), cs_ambient = None, ls_log = []\<rparr>"

definition log_before :: log_state where
  \<comment> \<open>after the first chunk\<close>
  "log_before = idle_log\<lparr>st_sweeps := 1, st_chunks := 1,
     ls_log := [((1, 2), (0, 1)), ((1, 2), (1, 4))]\<rparr>"

theorem cancel_stops_sweep_witness:
  "sweep [(0, 6)] 2 (polling_block 8 ((2, 3), (0, 1))) [(0, 1), (1, 4)] (Some (checkpoint (Some 8)))
     (Some three_rows) idle_log
   = Inl (Callback SolveAborted,
       cancel 8 (log_before\<lparr>st_chunks := 2, ls_log := ls_log log_before @ [((2, 3), (0, 1))]\<rparr>))"
proof -
  let ?w2 = "cancel 8 (log_before\<lparr>st_chunks := 2, ls_log := ls_log log_before @ [((2, 3), (0, 1))]\<rparr>)"
  let ?block = "polling_block 8 ((2, 3), (0, 1))"
  have keeps: "keeps_flag 8 ?block"
    by (auto simp: keeps_flag_def polling_block_def raise_if_cancelled_def)
  have plan: "sweep_plan 2 [(0, 6)] (Some three_rows) [(0, 1), (1, 4)]
      = [[((1, 2), (0, 1)), ((1, 2), (1, 4))]] @ ([] @ ((2, 3), (0, 1)) # [((2, 3), (1, 4))]) #
        [[((4, 5), (0, 1)), ((4, 5), (1, 4))]]"
    by (simp add: sweep_plan_def tiling_def cuts_def upt_rec numeral_nat kept_def windows_def three_rows_def)
  note defs = run_chunk_def call_checkpoint_def checkpoint_def raise_if_cancelled_def meet_def
    polling_block_def idle_log_def log_before_def idle_stats_def stats.extend_def cancel_def
  have before: "foldE (run_chunk (Some (checkpoint (Some 8))) ?block)
      (0, idle_log\<lparr>st_sweeps := st_sweeps idle_log + 1\<rparr>) [[((1, 2), (0, 1)), ((1, 2), (1, 4))]] = Inr (2, log_before)"
    by (simp add: defs)
  have "cs_flags log_before 8 = 0" and "cs_flags ?w2 8 \<noteq> 0"
    and "foldE (meet ?block) (2, log_before\<lparr>st_chunks := st_chunks log_before + 1\<rparr>) []
      = Inr (2, log_before\<lparr>st_chunks := st_chunks log_before + 1\<rparr>)"
    and "?block 2 3 0 1 (log_before\<lparr>st_chunks := st_chunks log_before + 1\<rparr>) = Inr ?w2"
    by (simp_all add: defs)
  then show ?thesis
    using cancel_stops_sweep [OF _ keeps plan before] by (simp add: defs)
qed

section \<open>Prepared windows\<close>

definition builds ::
  "(int \<Rightarrow> int \<Rightarrow> 'w \<Rightarrow> 'e stop \<times> 'w + 'v list \<times> 'w) \<Rightarrow> (int \<Rightarrow> 'v) \<Rightarrow> bool" where
  \<comment> \<open>the payload of a window is the list of its rows\<close>
  "builds build g \<longleftrightarrow> (\<forall>lo hi w. \<exists>v. build lo hi w = Inr (map g (rows_in (lo, hi)), v))"

definition never_cancels :: "('e, 'w) action option \<Rightarrow> bool" where
  "never_cancels cp \<longleftrightarrow> (\<forall>w. \<exists>v. call_checkpoint cp w = Inr v)"

definition window_of :: "(int \<Rightarrow> 'v) \<Rightarrow> int \<times> int \<Rightarrow> int \<times> int \<times> 'v list" where
  "window_of g i = (fst i, snd i, map g (rows_in i))"

definition place :: "observer_rows \<Rightarrow> int \<times> int \<times> 'v list \<Rightarrow> schedule_refusal + int \<times> int \<times> 'v list" where
  \<comment> \<open>a window moved to the rows of the destination it lands in\<close>
  "place R win =
     (case win of (lo, hi, rows) \<Rightarrow> bindE (target R lo hi) (\<lambda>(t0, t1). Inr (t0, t1, rows)))"

definition basis_parts :: "observer_rows option \<Rightarrow> int \<times> int \<Rightarrow> (int \<times> int) list" where
  "basis_parts restrict c =
     (case restrict of None \<Rightarrow> [c] | Some R \<Rightarrow> parts (or_basis_runs R) (fst c) (snd c))"

lemma build_windows_rows:
  assumes "builds build g"
  shows "\<exists>w'. build_windows build wins (acc, w) = Inr (acc @ map (window_of g) wins, w')"
proof (induction wins arbitrary: acc w)
  case (Cons i wins)
  obtain v where "build (fst i) (snd i) w = Inr (map g (rows_in i), v)"
    using assms by (auto simp: builds_def) (metis prod.collapse)
  then show ?case
    using Cons [of "acc @ [window_of g i]" v] by (auto simp: build_windows_def window_of_def split_beta)
qed (simp add: build_windows_def)

lemma chunk_windows:
  assumes "never_cancels cp"
    and "\<And>c acc w. \<exists>w'. body (fst c) (snd c) (acc, w) = Inr (acc @ map (window_of g) (basis_parts restrict c), w')"
  shows "\<exists>w'. foldE (chunk_step cp body) (acc, w) cs
    = Inr (acc @ map (window_of g) (concat (map (basis_parts restrict) cs)), w')"
proof (induction cs arbitrary: acc w)
  case (Cons c cs)
  obtain v where v: "call_checkpoint cp w = Inr v"
    using assms(1) unfolding never_cancels_def by blast
  obtain v' where "body (fst c) (snd c) (acc, v\<lparr>st_chunks := st_chunks v + 1\<rparr>)
      = Inr (acc @ map (window_of g) (basis_parts restrict c), v')"
    using assms(2) by blast
  then show ?case
    using v Cons [of "acc @ map (window_of g) (basis_parts restrict c)" v']
    by (simp add: chunk_step_def [of _ _ "(acc, w)"])
qed simp

lemma prepare_windows:
  assumes "0 < step" and "builds build g" and "never_cancels cp"
    and "\<And>R. restrict = Some R \<Longrightarrow> fst (or_key R) = n"
  shows "\<exists>w'. prepare n step build cp restrict w
    = Inr (map (window_of g) (concat (map (basis_parts restrict) (tiling step [(0, n)]))), w')"
proof (cases restrict)
  case None
  have "\<exists>w'. build_windows build [(fst c, snd c)] (acc, w) = Inr (acc @ map (window_of g) (basis_parts None c), w')" for c acc w
    using build_windows_rows [OF assms(2), of "[c]"] by (simp add: basis_parts_def)
  from chunk_windows [OF assms(3), where body = "\<lambda>lo hi. build_windows build [(lo, hi)]", OF this, where acc = "[]"]
  show ?thesis
    using None by (simp add: prepare_def chunks_tiling [OF assms(1)])
next
  case (Some R)
  have "\<exists>w'. (\<lambda>(acc, w). let (wins, w) = basis_windows R (fst c) (snd c) w in build_windows build wins (acc, w)) (acc, w)
      = Inr (acc @ map (window_of g) (basis_parts (Some R) c), w')" for c acc w
    using build_windows_rows [OF assms(2)] by (simp add: basis_parts_def basis_windows_def Let_def)
  from chunk_windows [OF assms(3), where body = "\<lambda>lo hi (acc, w). let (wins, w) = basis_windows R lo hi w in build_windows build wins (acc, w)", OF this, where acc = "[]"]
  show ?thesis
    using Some assms(4) by (simp add: prepare_def chunks_tiling [OF assms(1)])
qed

fun stacked :: "int \<Rightarrow> 'v list list \<Rightarrow> (int \<times> int \<times> 'v list) list" where
  \<comment> \<open>windows that follow one another from row \<open>t\<close>\<close>
  "stacked t [] = []"
| "stacked t (r # rs) = (t, t + int (length r), r) # stacked (t + int (length r)) rs"

lemma fold_stacked:
  assumes "length mid = length (concat rs)"
  shows "\<exists>w'. fold_rows (xs @ mid) (stacked (int (length xs)) rs) w = Inr (xs @ map2 (-) mid (concat rs), w')"
  using assms
proof (induction rs arbitrary: xs mid w)
  case (Cons r rs)
  define a b where "a = take (length r) mid" and "b = drop (length r) mid"
  have ab: "mid = a @ b" "length a = length r" "length b = length (concat rs)"
    using Cons.prems by (auto simp: a_def b_def)
  let ?w = "w\<lparr>st_folds := st_folds w + 1\<rparr>"
  show ?case
    using Cons.IH [OF ab(3), of "xs @ map2 (-) a r" ?w] ab sub_rows_slice [of r a xs b]
    by (simp add: fold_rows_def raising_def zip_append)
qed (simp add: fold_rows_def)

text \<open>The windows of a dense fill follow one another, and so do the windows of a restricted one in
  a compact destination.\<close>

lemma stacked_tiling:
  assumes "0 < step"
  shows "map (window_of g) (cuts step (lo, hi)) = stacked lo (map (\<lambda>i. map g (rows_in i)) (cuts step (lo, hi)))"
  using assms
proof (induction lo rule: cuts_induct [where hi = hi])
  case (empty lo)
  then show ?case using assms by (simp add: cuts_Nil)
next
  case (more lo)
  then show ?case
    using assms cuts_Nil [of step hi "lo + step"]
    by (cases "lo + step \<le> hi") (simp_all add: cuts_Cons window_of_def length_rows_in)
qed

lemma place_stacked:
  assumes "mk_observer_rows segs n_segs n_basis rows_of True = Inr R"
    and "or_basis_rows R = xs @ rows_of_spans wins" and "\<forall>i \<in> set wins. fst i < snd i"
  shows "mapE (place R) (map (window_of g) wins) = Inr (stacked (int (length xs)) (map (\<lambda>i. map g (rows_in i)) wins))"
  using assms(2,3)
proof (induction wins arbitrary: xs)
  case (Cons i wins)
  have "target R (fst i) (snd i) = Inr (int (length xs), int (length xs) + (snd i - fst i))"
    using Cons.prems by (intro target_compact [OF assms(1)]) auto
  then have "place R (window_of g i) = Inr (int (length xs), int (length xs) + (snd i - fst i), map g (rows_in i))"
    by (simp add: place_def window_of_def)
  then show ?case
    using Cons.IH [of "xs @ rows_in i"] Cons.prems by (simp add: length_rows_in)
qed simp

lemma rows_of_basis_parts:
  assumes "mk_observer_rows segs n_segs n_basis rows_of compacted = Inr R" and "0 < step"
  shows "rows_of_spans (concat (map (basis_parts (Some R)) (tiling step [(0, n_basis)]))) = or_basis_rows R"
proof -
  note ok = mk_observer_rows_ok [OF assms(1)]
  have "rows_of_spans (concat (map (basis_parts (Some R)) cs)) = filter (\<lambda>m. m \<in> set (or_basis_rows R)) (rows_of_spans cs)" for cs
    using ok filter_rises [of "or_basis_rows R"]
    by (induction cs) (simp_all add: basis_parts_def rows_of_parts runs_list)
  then have "rows_of_spans (concat (map (basis_parts (Some R)) (tiling step [(0, n_basis)])))
      = filter (\<lambda>m. m \<in> set (or_basis_rows R)) (rows_in (0, n_basis))"
    using assms(2) by (simp add: rows_of_tiling)
  also have "\<dots> = or_basis_rows R"
    using ok rises_rows_in [of "(0, n_basis)"]
    by (intro strict_sorted_equal) (auto simp: rises_sorted intro: sorted_wrt_filter)
  finally show ?thesis .
qed

lemma basis_parts_None: "basis_parts None = (\<lambda>c. [c])"
  by (simp add: basis_parts_def fun_eq_iff)

lemma map2_minus: "map2 (-) zs (map g ms) = map2 (\<lambda>m z. z - g m) ms zs"
  by (induction zs ms rule: list_induct2') simp_all

lemma concat_rows: "concat (map (\<lambda>i. map g (rows_in i)) wins) = map g (rows_of_spans wins)"
  by (induction wins) simp_all

text \<open>C17: A prepared fill, folded.  Built over the whole axis, its windows fold into the
  destination as the dense block does: each row loses the block's row of the same number.
  Built under a compact
  restriction, at the same window boundaries, and moved to the rows of the destination the
  restriction names, they fold so that the n-th row of the destination loses the block's row
  of the n-th requested basis function.  No window is refused a place.\<close>

theorem prepared_fill_folds:
  assumes "mk_observer_rows segs n_segs n_basis rows_of True = Inr R" and "0 < step"
    and "builds build g" and "never_cancels cp"
    and "length dense = nat n_basis" and "length compact_out = length (or_basis_rows R)"
  shows "(\<exists>ws v v'. prepare n_basis step build cp None w = Inr (ws, v) \<and>
        fold_rows dense ws v = Inr (map2 (\<lambda>m z. z - g m) [0..n_basis - 1] dense, v')) \<and>
    (\<exists>ws v ts v'. prepare n_basis step build cp (Some R) w = Inr (ws, v) \<and>
        mapE (place R) ws = Inr ts \<and>
        fold_rows compact_out ts v = Inr (map2 (\<lambda>m z. z - g m) (or_basis_rows R) compact_out, v'))"
proof (intro conjI)
  obtain v where v: "prepare n_basis step build cp None w
      = Inr (map (window_of g) (cuts step (0, n_basis)), v)"
    using prepare_windows [OF assms(2,3,4), of None n_basis w]
    by (auto simp: basis_parts_None tiling_def)
  have "map (window_of g) (cuts step (0, n_basis))
      = stacked (int (length [])) (map (\<lambda>i. map g (rows_in i)) (cuts step (0, n_basis)))"
    using stacked_tiling [OF assms(2)] by simp
  moreover have "concat (map (\<lambda>i. map g (rows_in i)) (cuts step (0, n_basis))) = map g [0..n_basis - 1]"
    by (simp add: concat_rows rows_of_cuts [OF assms(2)] rows_in_def [of "(0, n_basis)"])
  ultimately show "\<exists>ws v v'. prepare n_basis step build cp None w = Inr (ws, v) \<and>
      fold_rows dense ws v = Inr (map2 (\<lambda>m z. z - g m) [0..n_basis - 1] dense, v')"
    using v fold_stacked [of dense "map (\<lambda>i. map g (rows_in i)) (cuts step (0, n_basis))" "[]" v] assms(5)
    by (simp add: map2_minus)
next
  let ?wins = "concat (map (basis_parts (Some R)) (tiling step [(0, n_basis)]))"
  have "fst (or_key R) = n_basis"
    using mk_observer_rows_ok [OF assms(1)] by simp
  then obtain v where v: "prepare n_basis step build cp (Some R) w = Inr (map (window_of g) ?wins, v)"
    using prepare_windows [OF assms(2,3,4), of "Some R" n_basis w] by auto
  have rows: "rows_of_spans ?wins = or_basis_rows R"
    by (rule rows_of_basis_parts [OF assms(1,2)])
  have "\<forall>i \<in> set ?wins. fst i < snd i"
    by (auto simp: basis_parts_def dest: parts_nonempty)
  then have ts: "mapE (place R) (map (window_of g) ?wins) = Inr (stacked 0 (map (\<lambda>i. map g (rows_in i)) ?wins))"
    using place_stacked [OF assms(1), of "[]" ?wins g] rows by simp
  show "\<exists>ws v ts v'. prepare n_basis step build cp (Some R) w = Inr (ws, v) \<and>
      mapE (place R) ws = Inr ts \<and>
      fold_rows compact_out ts v = Inr (map2 (\<lambda>m z. z - g m) (or_basis_rows R) compact_out, v')"
    using v ts fold_stacked [of compact_out "map (\<lambda>i. map g (rows_in i)) ?wins" "[]" v] assms(6) rows
    by (auto simp: map2_minus concat_rows)
qed

definition tens :: "int \<Rightarrow> int" where
  "tens m = 10 * m"

definition build_tens :: "int \<Rightarrow> int \<Rightarrow> stats \<Rightarrow> unit stop \<times> stats + int list \<times> stats" where
  "build_tens lo hi w = Inr (map tens (rows_in (lo, hi)), w)"

theorem prepared_fill_folds_witness:
  "(\<exists>ws v v'. prepare 4 3 build_tens None None idle_stats = Inr (ws, v) \<and>
      (fold_rows [5, 5, 5, 5] ws v :: unit stop \<times> stats + int list \<times> stats) = Inr ([5, - 5, - 15, - 25], v')) \<and>
   (\<exists>ws v ts v'. prepare 4 3 build_tens None (Some three_rows) idle_stats = Inr (ws, v) \<and>
      mapE (place three_rows) ws = Inr ts \<and>
      (fold_rows [5, 5] ts v :: unit stop \<times> stats + int list \<times> stats) = Inr ([- 5, - 15], v'))"
proof -
  have "builds build_tens tens"
    by (simp add: builds_def build_tens_def)
  moreover have "never_cancels (None :: (unit, stats) action option)"
    by (simp add: never_cancels_def call_checkpoint_def)
  moreover have "or_basis_rows three_rows = [1, 2]"
    by (simp add: three_rows_def)
  ultimately show ?thesis
    using prepared_fill_folds [OF mk_three_rows, of 3 build_tens tens None "[5, 5, 5, 5]" "[5, 5]" idle_stats]
    by (simp add: tens_def upto_rec1)
qed

section \<open>Runs\<close>

text \<open>The runs of a rising index list are the one way to write it as spans: nonempty, in order,
  and none touching the next.  Listing the rows of the spans gives the list back.\<close>

theorem runs_are_maximal:
  assumes "rises idx"
  shows "runs idx = ss \<longleftrightarrow> rows_of_spans ss = idx \<and> separated ss"
  using runs_list [OF assms] runs_of_separated by auto

theorem runs_are_maximal_witness: "runs [1, 2, 4] = [(1, 3), (4, 5)]"
  using runs_are_maximal [of "[1, 2, 4]" "[(1, 3), (4, 5)]"]
  by (simp add: rows_in_def upto_rec1 separated_def)

end
