(* ===== verification/Serve_Sizing.thy ===== *)
theory Serve_Sizing
  imports Pystring "HOL-Library.Word"
begin

unbundle bit_operations_syntax

text \<open>
  The sizing half of \<open>src/src/momwire/serve/_pool.py\<close>: how many physical cores a topology
  report names, how many workers a machine carries, the environment variable that overrides
  it, and each worker's share of the threads.  What the operating system answers is an
  argument.
\<close>

definition worker_mb :: int where
  "worker_mb = 150"

datatype os_answer = Answer "int option" | Unreadable
  \<comment> \<open>a platform probe: a count or none, or an exception that \<open>physical_cores\<close> catches\<close>

definition usable_cores :: "int option \<Rightarrow> int option \<Rightarrow> int" where
  \<comment> \<open>of the size of the affinity mask, where there is one, and \<open>os.cpu_count()\<close>\<close>
  "usable_cores affinity cpu_count =
     (case affinity of
        Some n \<Rightarrow> max 1 n
      | None \<Rightarrow> max 1 (case cpu_count of Some n \<Rightarrow> if n = 0 then 1 else n | None \<Rightarrow> 1))"

definition physical_cores :: "int \<Rightarrow> os_answer \<Rightarrow> int" where
  "physical_cores logical probe =
     (case probe of
        Answer (Some found) \<Rightarrow> if found = 0 then logical else max 1 (min found logical)
      | _ \<Rightarrow> logical)"

definition linux_physical_cores :: "(int \<Rightarrow> (string \<times> string) option) \<Rightarrow> int list \<Rightarrow> int option" where
  \<comment> \<open>of the package and core id the files of a CPU hold, None for an OSError\<close>
  "linux_physical_cores topology cpus =
     (if list_ex (\<lambda>c. topology c = None) cpus then None
      else let n = card (set (map (\<lambda>c. the (topology c)) cpus))
           in if n = 0 then None else Some (int n))"

section \<open>Windows processor records\<close>

type_synonym byte = "8 word"

definition le_field :: "byte list \<Rightarrow> nat \<Rightarrow> nat \<Rightarrow> nat option" where
  \<comment> \<open>\<open>struct.unpack_from\<close> of one little-endian integer of \<open>n\<close> bytes; None is struct.error\<close>
  "le_field raw offset n =
     (if length raw < offset + n then None
      else Some (foldr (\<lambda>b v. unat b + 256 * v) (take n (drop offset raw)) 0))"

definition counts_core :: "byte list \<Rightarrow> nat \<Rightarrow> nat \<Rightarrow> nat \<Rightarrow> bool option" where
  \<comment> \<open>whether the processor-core record at the offset meets the process mask\<close>
  "counts_core raw process_mask pointer offset =
     (case le_field raw (offset + 32) (if pointer = 8 then 8 else 4) of
        None \<Rightarrow> None
      | Some mk \<Rightarrow>
          (case le_field raw (offset + 32 + pointer) 2 of
             None \<Rightarrow> None
           | Some grp \<Rightarrow>
               Some (process_mask = 0 \<or> grp \<noteq> 0 \<or> int mk AND int process_mask \<noteq> 0)))"

function count_cores_from :: "byte list \<Rightarrow> nat \<Rightarrow> nat \<Rightarrow> nat \<Rightarrow> int \<Rightarrow> int option" where
  \<comment> \<open>the loop over the records, None is struct.error\<close>
  "count_cores_from raw process_mask pointer offset count =
     (if length raw < offset + 8 then Some count
      else case (le_field raw offset 4, le_field raw (offset + 4) 4) of
             (Some relationship, Some sz) \<Rightarrow>
               if sz = 0 then Some count
               else if relationship \<noteq> 0
               then count_cores_from raw process_mask pointer (offset + sz) count
               else (case counts_core raw process_mask pointer offset of
                       None \<Rightarrow> None
                     | Some c \<Rightarrow>
                         count_cores_from raw process_mask pointer (offset + sz)
                           (if c then count + 1 else count))
           | _ \<Rightarrow> None)"
  by pat_completeness auto
termination
  by (relation "measure (\<lambda>(raw, m, p, offset, count). length raw - offset)") auto

definition count_windows_cores :: "byte list \<Rightarrow> nat \<Rightarrow> nat \<Rightarrow> int option option" where
  \<comment> \<open>the inner None is the answer None\<close>
  "count_windows_cores raw process_mask pointer =
     map_option (\<lambda>count. if count = 0 then None else Some count)
       (count_cores_from raw process_mask pointer 0 0)"

section \<open>The cap and the shares\<close>

definition default_max_workers :: "int \<Rightarrow> int option \<Rightarrow> int" where
  "default_max_workers cores memory =
     (let cap = (case memory of
                   Some m \<Rightarrow> if m = 0 then cores else min cores (m div 4 div (push_bit 20 worker_mb))
                 | None \<Rightarrow> cores)
      in max 1 cap)"

definition py_int :: "string \<Rightarrow> int option" where
  \<comment> \<open>\<open>int(s)\<close> of a string with no white space around it; None is its ValueError\<close>
  "py_int s =
     (case read_sign s of (neg, body) \<Rightarrow>
        (case read_digits 0 0 body of (v, n, rest) \<Rightarrow>
           if n = 0 \<or> rest \<noteq> [] then None else Some (if neg then - int v else int v)))"

datatype cap_source = FromEnvironment int | NotACount string int | Automatic
  \<comment> \<open>the sentence the log says it in\<close>

definition configured_max_workers :: "string \<Rightarrow> int \<Rightarrow> int \<times> cap_source" where
  \<comment> \<open>of the variable's value, empty when unset, and the automatic cap\<close>
  "configured_max_workers env_value auto =
     (let raw = strip env_value
      in if raw \<noteq> []
         then let v = (case py_int raw of Some n \<Rightarrow> n | None \<Rightarrow> -1)
              in if 0 \<le> v then (v, FromEnvironment v) else (auto, NotACount raw auto)
         else (auto, Automatic))"

definition thread_budget :: "int \<Rightarrow> int \<Rightarrow> int option" where
  "thread_budget live cores = (if live \<le> 1 then None else Some (max 1 (cores div live)))"

section \<open>Lemmas\<close>

lemma quotient_times_le: "0 < b \<Longrightarrow> a div b * b \<le> (a :: int)"
  using pos_mod_sign [of b a] div_mult_mod_eq [of a b] by linarith

text \<open>The shares of a crew no larger than the cores fit the cores.\<close>

lemma thread_budget_fits:
  assumes "thread_budget live cores = Some n" and "live \<le> cores"
  shows "1 \<le> n \<and> live * n \<le> cores"
proof -
  have live: "1 < live" and n: "n = max 1 (cores div live)"
    using assms(1) by (auto simp: thread_budget_def split: if_splits)
  have "1 \<le> cores div live"
    using live assms(2) by (simp add: pos_imp_zdiv_pos_iff int_one_le_iff_zero_less)
  moreover have "live * (cores div live) \<le> cores"
    using live quotient_times_le [of live cores] by (simp add: mult.commute)
  ultimately show ?thesis
    using n by simp
qed

lemma default_max_workers_bounds:
  assumes "1 \<le> cores"
  shows "1 \<le> default_max_workers cores memory \<and> default_max_workers cores memory \<le> cores"
  using assms by (auto simp: default_max_workers_def Let_def split: option.splits)

text \<open>The workers a machine is given hold at most a quarter of its memory, one worker apart.\<close>

lemma default_max_workers_memory:
  assumes "default_max_workers cores (Some m) \<noteq> 1" and "0 < m"
  shows "default_max_workers cores (Some m) * (worker_mb * 2 ^ 20) \<le> m div 4"
proof -
  let ?d = "push_bit 20 worker_mb :: int"
  have d: "?d = worker_mb * 2 ^ 20" "0 < ?d"
    by (simp_all add: push_bit_eq_mult worker_mb_def)
  have "default_max_workers cores (Some m) \<le> m div 4 div ?d"
    using assms by (auto simp: default_max_workers_def Let_def max_def split: if_splits)
  then have "default_max_workers cores (Some m) * ?d \<le> m div 4 div ?d * ?d"
    using d(2) by simp
  also have "\<dots> \<le> m div 4"
    using d(2) by (simp add: quotient_times_le)
  finally show ?thesis
    using d(1) by simp
qed

end
