(* ===== verification/Serve_Pool.thy ===== *)
theory Serve_Pool
  imports Serve_Sizing
begin

text \<open>
  The pool of \<open>src/src/momwire/serve/_pool.py\<close>: its bookkeeping, each method a function of
  the fields it holds the condition for, and the machine of all threads.  A thread that holds
  the condition runs its block to the end or to the wait inside it, so such a block is one
  step; between the steps of one thread any other thread may move, worker processes may die
  and the clock advances.  The condition is modelled: a call that waits is asleep until some
  thread notifies it or its second is over, and only then takes another turn.  So are the
  life of a process, from its launch to its end, and the threads that stop workers one after
  another outside the condition.  Times are real numbers.
\<close>

section \<open>The pool's fields and methods\<close>

record worker =
  wk_id :: nat \<comment> \<open>the object\<close>
  wk_busy :: bool
  wk_last_used :: real
  wk_answered :: int

record pool =
  pl_max_workers :: int
  pl_idle_timeout :: real
  pl_cores :: int
  pl_workers :: "worker list"
  pl_starting :: int
  pl_waiting :: int
  pl_closed :: bool
  pl_spawn_failed_at :: "real option"
  pl_spawned :: int

definition spawn_backoff :: real where
  "spawn_backoff = 60"

definition mk_worker :: "nat \<Rightarrow> real \<Rightarrow> worker" where
  "mk_worker i now = \<lparr>wk_id = i, wk_busy = False, wk_last_used = now, wk_answered = 0\<rparr>"

definition mk_pool :: "int \<Rightarrow> real \<Rightarrow> int \<Rightarrow> pool" where
  "mk_pool max_workers idle_timeout cores =
     \<lparr>pl_max_workers = max 1 max_workers, pl_idle_timeout = idle_timeout,
      pl_cores = max 1 cores, pl_workers = [], pl_starting = 0, pl_waiting = 0,
      pl_closed = False, pl_spawn_failed_at = None, pl_spawned = 0\<rparr>"

definition spawn_locked :: "pool \<Rightarrow> pool" where
  \<comment> \<open>the thread it starts is counted in \<open>sy_launching\<close> below\<close>
  "spawn_locked p = p\<lparr>pl_starting := pl_starting p + 1\<rparr>"

definition live :: "nat set \<Rightarrow> pool \<Rightarrow> nat list" where
  "live alive p = map wk_id (filter (\<lambda>w. wk_id w \<in> alive) (pl_workers p))"

definition discard_dead :: "nat set \<Rightarrow> pool \<Rightarrow> pool" where
  "discard_dead alive p =
     p\<lparr>pl_workers := filter (\<lambda>w. wk_busy w \<or> wk_id w \<in> alive) (pl_workers p)\<rparr>"

definition on_worker :: "nat \<Rightarrow> (worker \<Rightarrow> worker) \<Rightarrow> pool \<Rightarrow> pool" where
  \<comment> \<open>an assignment to fields of a worker, which the pool sees if it still lists it\<close>
  "on_worker i f p = p\<lparr>pl_workers := map (\<lambda>w. if wk_id w = i then f w else w) (pl_workers p)\<rparr>"

datatype turn = Stopping | Got nat "int option" | NoWorker | Wait

definition backing_off :: "real \<Rightarrow> pool \<Rightarrow> bool" where
  "backing_off now p \<longleftrightarrow>
     (case pl_spawn_failed_at p of None \<Rightarrow> False | Some t \<Rightarrow> now - t < spawn_backoff)"

definition acquire_pass :: "nat set \<Rightarrow> real \<Rightarrow> pool \<Rightarrow> pool \<times> turn" where
  \<comment> \<open>one pass of the loop of \<open>_acquire\<close>\<close>
  "acquire_pass alive now p0 =
     (if pl_closed p0 then (p0, Stopping)
      else let p = discard_dead alive p0
           in case List.find (\<lambda>w. \<not> wk_busy w) (pl_workers p) of
                Some w \<Rightarrow>
                  (on_worker (wk_id w) (\<lambda>w. w\<lparr>wk_busy := True\<rparr>) p,
                   Got (wk_id w) (thread_budget (int (length (pl_workers p))) (pl_cores p)))
              | None \<Rightarrow>
                  (let p' = (if \<not> backing_off now p \<and> pl_starting p < pl_waiting p \<and>
                                int (length (pl_workers p)) + pl_starting p < pl_max_workers p
                             then spawn_locked p else p)
                   in (p', if pl_workers p' = [] \<and> pl_starting p' = 0 \<and> backing_off now p'
                           then NoWorker else Wait)))"

definition acquire_turn :: "nat set \<Rightarrow> real \<Rightarrow> pool \<Rightarrow> pool \<times> turn" where
  \<comment> \<open>a pass, and the \<open>finally\<close> when it is the last\<close>
  "acquire_turn alive now p =
     (let (p', out) = acquire_pass alive now p
      in (if out = Wait then p' else p'\<lparr>pl_waiting := pl_waiting p' - 1\<rparr>, out))"

definition acquire_enter :: "nat set \<Rightarrow> real \<Rightarrow> pool \<Rightarrow> pool \<times> turn" where
  "acquire_enter alive now p = acquire_turn alive now (p\<lparr>pl_waiting := pl_waiting p + 1\<rparr>)"

definition reap :: "real \<Rightarrow> pool \<Rightarrow> pool \<times> worker list" where
  "reap now p =
     (let idle = filter (\<lambda>w. \<not> wk_busy w \<and> pl_idle_timeout p \<le> now - wk_last_used w) (pl_workers p);
          idle = (if length idle = length (pl_workers p) then tl idle else idle)
      in (p\<lparr>pl_workers := filter (\<lambda>w. w \<notin> set idle) (pl_workers p)\<rparr>, idle))"

definition release :: "nat \<Rightarrow> real \<Rightarrow> pool \<Rightarrow> pool \<times> worker list" where
  "release i now p =
     reap now
       (on_worker i
          (\<lambda>w. w\<lparr>wk_busy := False, wk_last_used := now, wk_answered := wk_answered w + 1\<rparr>) p)"

definition lost :: "nat \<Rightarrow> pool \<Rightarrow> pool" where
  "lost i p = p\<lparr>pl_workers := filter (\<lambda>w. wk_id w \<noteq> i) (pl_workers p)\<rparr>"

definition spawn_succeeds :: "worker \<Rightarrow> pool \<Rightarrow> pool \<times> worker list" where
  \<comment> \<open>a worker is ready; the workers to stop are the stale one of a closed pool\<close>
  "spawn_succeeds w p =
     (let p = p\<lparr>pl_starting := pl_starting p - 1\<rparr>
      in if pl_closed p then (p, [w])
         else (p\<lparr>pl_workers := pl_workers p @ [w], pl_spawned := pl_spawned p + 1,
                 pl_spawn_failed_at := None\<rparr>, []))"

definition spawn_fails :: "real \<Rightarrow> pool \<Rightarrow> pool" where
  "spawn_fails now p = p\<lparr>pl_starting := pl_starting p - 1, pl_spawn_failed_at := Some now\<rparr>"

definition close_pool :: "pool \<Rightarrow> pool \<times> worker list" where
  "close_pool p = (p\<lparr>pl_closed := True, pl_workers := []\<rparr>, pl_workers p)"

section \<open>The threads\<close>

definition close_wait :: real where
  "close_wait = 5"

datatype outcome =
    AnsweredBy nat
  | RaisedIn nat \<comment> \<open>WorkerRaised: the seam raised inside the worker\<close>
  | AnsweredHere \<comment> \<open>in this process, under the fallback lock\<close>
  | Crashed nat \<comment> \<open>the seam's own frame for a worker lost while solving\<close>
  | ServerStopping
  | NoWorkerTook

text \<open>A call of \<open>answer\<close>.\<close>

datatype pc =
    Calling nat \<comment> \<open>about to acquire, after that many attempts\<close>
  | Asleep nat real \<comment> \<open>in the wait of that attempt, until notified or that time\<close>
  | Awake nat \<comment> \<open>notified or timed out, and waiting for the condition only\<close>
  | Sending nat nat "int option" \<comment> \<open>attempt, worker, threads\<close>
  | Receiving nat
  | Killing nat "nat option" \<comment> \<open>in \<open>_lost\<close>, past its block; the attempt, unless it was solving\<close>
  | AtFallback
  | InFallback
  | Done outcome

text \<open>A thread that stops workers one after another: the end of \<open>close\<close>, a \<open>_stop_idle\<close>, or a
  \<open>_spawn\<close> whose worker was ready too late.\<close>

datatype stopper =
    ToStop "nat list"
  | Leaving nat real "nat list" \<comment> \<open>in the \<open>stop\<close> of that worker, waiting until that time\<close>

record system =
  sy_pool :: pool
  sy_pcs :: "nat \<Rightarrow> pc option" \<comment> \<open>the calls of \<open>answer\<close>, by thread\<close>
  sy_launching :: nat \<comment> \<open>spawn threads that have not started their process\<close>
  sy_booting :: "nat list" \<comment> \<open>the processes of those that have, not yet ready\<close>
  sy_failing :: nat \<comment> \<open>spawn threads that have to report a failure\<close>
  sy_stoppers :: "stopper list"
  sy_next :: nat \<comment> \<open>the next process\<close>
  sy_alive :: "nat set"
  sy_told :: "nat set" \<comment> \<open>their input was closed, at which a worker leaves\<close>
  sy_killed :: "nat set"
  sy_now :: real
  sy_fallback :: "nat option" \<comment> \<open>the holder of the fallback lock\<close>
  sy_frames :: "(nat \<times> nat) list" \<comment> \<open>which thread's frame reached which worker\<close>

definition spawning :: "system \<Rightarrow> nat" where
  \<comment> \<open>the spawn threads that have not reported\<close>
  "spawning s = sy_launching s + length (sy_booting s) + sy_failing s"

fun pending :: "stopper \<Rightarrow> nat set" where
  \<comment> \<open>the workers a thread has yet to stop\<close>
  "pending (ToStop ws) = set ws"
| "pending (Leaving w until ws) = set ws"

definition next_pc :: "real \<Rightarrow> nat \<Rightarrow> turn \<Rightarrow> pc" where
  \<comment> \<open>where a turn of \<open>_acquire\<close> leaves the caller; \<open>wait(timeout=1.0)\<close>\<close>
  "next_pc now k out =
     (case out of
        Stopping \<Rightarrow> Done ServerStopping
      | Got i threads \<Rightarrow> Sending k i threads
      | NoWorker \<Rightarrow> AtFallback
      | Wait \<Rightarrow> Asleep k (now + 1))"

definition after_lost :: "nat \<Rightarrow> pc" where
  \<comment> \<open>\<open>for _attempt in range(3)\<close>\<close>
  "after_lost k = (if Suc k < 3 then Calling (Suc k) else Done NoWorkerTook)"

definition after_kill :: "nat \<Rightarrow> nat option \<Rightarrow> pc" where
  "after_kill w k = (case k of Some k \<Rightarrow> after_lost k | None \<Rightarrow> Done (Crashed w))"

definition moved :: "nat \<Rightarrow> pc \<Rightarrow> system \<Rightarrow> system" where
  \<comment> \<open>thread \<open>i\<close> goes on from there\<close>
  "moved i pc s = s\<lparr>sy_pcs := (sy_pcs s)(i \<mapsto> pc)\<rparr>"

fun woken :: "pc \<Rightarrow> pc" where
  "woken (Asleep k until) = Awake k"
| "woken pc = pc"

definition notify_all :: "system \<Rightarrow> system" where
  "notify_all s = s\<lparr>sy_pcs := (\<lambda>i. map_option woken (sy_pcs s i))\<rparr>"

definition took_turn :: "nat \<Rightarrow> nat \<Rightarrow> pool \<times> turn \<Rightarrow> system \<Rightarrow> system" where
  \<comment> \<open>thread \<open>i\<close> had its turn in attempt \<open>k\<close>; a spawn it asked for is a new thread\<close>
  "took_turn i k r s =
     moved i (next_pc (sy_now s) k (snd r))
       (s\<lparr>sy_pool := fst r,
          sy_launching := sy_launching s + nat (pl_starting (fst r) - pl_starting (sy_pool s))\<rparr>)"

definition stopping :: "nat list \<Rightarrow> system \<Rightarrow> system" where
  \<comment> \<open>a thread goes on to stop these\<close>
  "stopping ws s = (if ws = [] then s else s\<lparr>sy_stoppers := sy_stoppers s @ [ToStop ws]\<rparr>)"

definition stopper_at :: "nat \<Rightarrow> stopper \<Rightarrow> system \<Rightarrow> system" where
  "stopper_at j st s = s\<lparr>sy_stoppers := (sy_stoppers s)[j := st]\<rparr>"

definition lose :: "nat \<Rightarrow> nat option \<Rightarrow> nat \<Rightarrow> system \<Rightarrow> system" where
  \<comment> \<open>the block of \<open>_lost\<close> in thread \<open>i\<close>, which kills the worker after it\<close>
  "lose w k i s = moved i (Killing w k) (notify_all (s\<lparr>sy_pool := lost w (sy_pool s)\<rparr>))"

definition init_system :: "int \<Rightarrow> real \<Rightarrow> int \<Rightarrow> real \<Rightarrow> system" where
  \<comment> \<open>a pool just started\<close>
  "init_system max_workers idle_timeout cores now =
     \<lparr>sy_pool = spawn_locked (mk_pool max_workers idle_timeout cores), sy_pcs = Map.empty,
      sy_launching = 1, sy_booting = [], sy_failing = 0, sy_stoppers = [], sy_next = 0,
      sy_alive = {}, sy_told = {}, sy_killed = {}, sy_now = now, sy_fallback = None, sy_frames = []\<rparr>"

inductive pool_step :: "system \<Rightarrow> system \<Rightarrow> bool" where
  call: "sy_pcs s i = None \<Longrightarrow> pool_step s (moved i (Calling 0) s)"
| enter: "sy_pcs s i = Some (Calling k) \<Longrightarrow>
    pool_step s (took_turn i k (acquire_enter (sy_alive s) (sy_now s) (sy_pool s)) s)"
| wake: "sy_pcs s i = Some (Awake k) \<Longrightarrow>
    pool_step s (took_turn i k (acquire_turn (sy_alive s) (sy_now s) (sy_pool s)) s)"
| times_out: "sy_pcs s i = Some (Asleep k until) \<Longrightarrow> until \<le> sy_now s \<Longrightarrow>
    pool_step s (moved i (Awake k) s)"
| sent: "sy_pcs s i = Some (Sending k w threads) \<Longrightarrow>
    pool_step s (moved i (Receiving w) (s\<lparr>sy_frames := sy_frames s @ [(i, w)]\<rparr>))"
| send_fails: "sy_pcs s i = Some (Sending k w threads) \<Longrightarrow> pool_step s (lose w (Some k) i s)"
| replied: "sy_pcs s i = Some (Receiving w) \<Longrightarrow> release w (sy_now s) (sy_pool s) = (p, idle) \<Longrightarrow>
    out \<in> {AnsweredBy w, RaisedIn w} \<Longrightarrow>
    pool_step s (stopping (map wk_id idle) (moved i (Done out) (notify_all (s\<lparr>sy_pool := p\<rparr>))))"
| receive_fails: "sy_pcs s i = Some (Receiving w) \<Longrightarrow> pool_step s (lose w None i s)"
| kills: "sy_pcs s i = Some (Killing w k) \<Longrightarrow>
    pool_step s (moved i (after_kill w k) (s\<lparr>sy_killed := insert w (sy_killed s)\<rparr>))"
| lock_fallback: "sy_pcs s i = Some AtFallback \<Longrightarrow> sy_fallback s = None \<Longrightarrow>
    pool_step s (moved i InFallback (s\<lparr>sy_fallback := Some i\<rparr>))"
| unlock_fallback: "sy_pcs s i = Some InFallback \<Longrightarrow>
    pool_step s (moved i (Done AnsweredHere) (s\<lparr>sy_fallback := None\<rparr>))"
| launches: "sy_launching s = Suc n \<Longrightarrow>
    pool_step s (s\<lparr>sy_launching := n, sy_booting := sy_booting s @ [sy_next s],
      sy_next := Suc (sy_next s), sy_alive := insert (sy_next s) (sy_alive s)\<rparr>)"
| launch_fails: "sy_launching s = Suc n \<Longrightarrow>
    pool_step s (s\<lparr>sy_launching := n, sy_failing := Suc (sy_failing s)\<rparr>)"
| boot_fails: "w \<in> set (sy_booting s) \<Longrightarrow>
    pool_step s (s\<lparr>sy_booting := remove1 w (sy_booting s), sy_failing := Suc (sy_failing s),
      sy_killed := insert w (sy_killed s)\<rparr>)"
| start_fails: "sy_failing s = Suc n \<Longrightarrow>
    pool_step s (notify_all (s\<lparr>sy_pool := spawn_fails (sy_now s) (sy_pool s), sy_failing := n\<rparr>))"
| ready: "w \<in> set (sy_booting s) \<Longrightarrow>
    spawn_succeeds (mk_worker w (sy_now s)) (sy_pool s) = (p, stale) \<Longrightarrow>
    pool_step s (stopping (map wk_id stale)
      (notify_all (s\<lparr>sy_pool := p, sy_booting := remove1 w (sy_booting s)\<rparr>)))"
| close: "close_pool (sy_pool s) = (p, ws) \<Longrightarrow>
    pool_step s (stopping (map wk_id ws) (notify_all (s\<lparr>sy_pool := p\<rparr>)))"
| tells: "j < length (sy_stoppers s) \<Longrightarrow> sy_stoppers s ! j = ToStop (w # ws) \<Longrightarrow>
    pool_step s (stopper_at j (Leaving w (sy_now s + close_wait) ws)
      (s\<lparr>sy_told := insert w (sy_told s)\<rparr>))"
| leaves: "j < length (sy_stoppers s) \<Longrightarrow> sy_stoppers s ! j = Leaving w until ws \<Longrightarrow>
    w \<notin> sy_alive s \<Longrightarrow> pool_step s (stopper_at j (ToStop ws) s)"
| insists: "j < length (sy_stoppers s) \<Longrightarrow> sy_stoppers s ! j = Leaving w until ws \<Longrightarrow>
    until \<le> sy_now s \<Longrightarrow>
    pool_step s (stopper_at j (ToStop ws) (s\<lparr>sy_killed := insert w (sy_killed s)\<rparr>))"
| dies: "pool_step s (s\<lparr>sy_alive := sy_alive s - {w}\<rparr>)"
| tick: "0 \<le> d \<Longrightarrow> pool_step s (s\<lparr>sy_now := sy_now s + d\<rparr>)"

text \<open>What the steps leave out is delay only: the waits for a killed process to end, which the
  steps of other threads stand for.\<close>

inductive pool_reachable :: "int \<Rightarrow> real \<Rightarrow> int \<Rightarrow> system \<Rightarrow> bool" for m timeout cores where
  started: "pool_reachable m timeout cores (init_system m timeout cores now)"
| stepped: "pool_reachable m timeout cores s \<Longrightarrow> pool_step s t \<Longrightarrow> pool_reachable m timeout cores t"

end
