(* ===== verification/Serve_Pool_Laws.thy ===== *)
theory Serve_Pool_Laws
  imports Serve_Pool
begin

text \<open>
  What the pool keeps true between the steps of its threads: workers are checked out to one
  thread at a time, the counters count what they are for, the cap holds, a closed pool lists
  no worker, and a worker that has left the list has been told to stop.
\<close>

section \<open>The methods\<close>

definition ids :: "pool \<Rightarrow> nat set" where
  "ids p = wk_id ` set (pl_workers p)"

lemma pool_frames [simp]:
  "pl_max_workers (discard_dead alive p) = pl_max_workers p"
  "pl_max_workers (on_worker i f p) = pl_max_workers p"
  "pl_max_workers (spawn_locked p) = pl_max_workers p"
  "pl_max_workers (lost i p) = pl_max_workers p"
  "pl_max_workers (spawn_fails now p) = pl_max_workers p"
  "pl_starting (discard_dead alive p) = pl_starting p"
  "pl_starting (on_worker i f p) = pl_starting p"
  "pl_starting (spawn_locked p) = pl_starting p + 1"
  "pl_starting (lost i p) = pl_starting p"
  "pl_starting (spawn_fails now p) = pl_starting p - 1"
  "pl_waiting (discard_dead alive p) = pl_waiting p"
  "pl_waiting (on_worker i f p) = pl_waiting p"
  "pl_waiting (spawn_locked p) = pl_waiting p"
  "pl_waiting (lost i p) = pl_waiting p"
  "pl_waiting (spawn_fails now p) = pl_waiting p"
  "pl_closed (discard_dead alive p) = pl_closed p"
  "pl_closed (on_worker i f p) = pl_closed p"
  "pl_closed (spawn_locked p) = pl_closed p"
  "pl_closed (lost i p) = pl_closed p"
  "pl_closed (spawn_fails now p) = pl_closed p"
  "pl_workers (spawn_locked p) = pl_workers p"
  "pl_workers (spawn_fails now p) = pl_workers p"
  by (simp_all add: discard_dead_def on_worker_def spawn_locked_def lost_def spawn_fails_def)

lemma workers_simps:
  "pl_workers (discard_dead alive p) = filter (\<lambda>w. wk_busy w \<or> wk_id w \<in> alive) (pl_workers p)"
  "pl_workers (on_worker i f p) = map (\<lambda>w. if wk_id w = i then f w else w) (pl_workers p)"
  "pl_workers (lost i p) = filter (\<lambda>w. wk_id w \<noteq> i) (pl_workers p)"
  by (simp_all add: discard_dead_def on_worker_def lost_def)

lemma ids_simps:
  "ids (spawn_locked p) = ids p" "ids (spawn_fails now p) = ids p" "ids (lost i p) = ids p - {i}"
  "ids (p\<lparr>pl_waiting := n\<rparr>) = ids p" "pl_workers p = [] \<Longrightarrow> ids p = {}"
  by (auto simp: ids_def workers_simps)

lemma ids_worker: "w \<in> set (pl_workers p) \<Longrightarrow> wk_id w \<in> ids p"
  by (simp add: ids_def)

text \<open>What a turn of \<open>_acquire\<close> does.\<close>

lemma acquire_turn_cases:
  assumes "acquire_turn alive now p = (p', out)"
  obtains
    (Stopping) "out = Stopping" "pl_closed p" "p' = p\<lparr>pl_waiting := pl_waiting p - 1\<rparr>"
  | (Got) w threads where "out = Got (wk_id w) threads" "\<not> pl_closed p"
      "w \<in> set (pl_workers p)" "\<not> wk_busy w" "wk_id w \<in> alive"
      "p' = (on_worker (wk_id w) (\<lambda>w. w\<lparr>wk_busy := True\<rparr>) (discard_dead alive p))\<lparr>pl_waiting := pl_waiting p - 1\<rparr>"
  | (NoWorker) "out = NoWorker" "\<not> pl_closed p" "pl_workers p' = []" "pl_starting p = 0"
      "backing_off now p"
      "p' = (discard_dead alive p)\<lparr>pl_waiting := pl_waiting p - 1\<rparr>"
  | (Spawn) "out = Wait" "\<not> pl_closed p" "p' = spawn_locked (discard_dead alive p)"
      "int (length (pl_workers p')) + pl_starting p < pl_max_workers p"
      "\<forall>w \<in> set (pl_workers p'). wk_busy w" "pl_starting p < pl_waiting p"
  | (Wait) "out = Wait" "\<not> pl_closed p" "p' = discard_dead alive p"
      "\<forall>w \<in> set (pl_workers p'). wk_busy w"
      "pl_workers p' = [] \<Longrightarrow> pl_starting p \<noteq> 0 \<or> \<not> backing_off now p"
      "\<not> (\<not> backing_off now p \<and> pl_starting p < pl_waiting p \<and>
          int (length (pl_workers p')) + pl_starting p < pl_max_workers p)"
proof (cases "pl_closed p")
  case True
  then show ?thesis
    using assms that(1) by (simp add: acquire_turn_def acquire_pass_def split: if_splits)
next
  case False
  let ?d = "discard_dead alive p"
  have b: "backing_off now ?d = backing_off now p" "backing_off now (spawn_locked ?d) = backing_off now p"
    by (simp_all add: backing_off_def discard_dead_def spawn_locked_def)
  show ?thesis
  proof (cases "List.find (\<lambda>w. \<not> wk_busy w) (pl_workers ?d)")
    case (Some w)
    then have "w \<in> set (pl_workers ?d)" "\<not> wk_busy w"
      by (auto simp: find_Some_iff)
    then show ?thesis
      using assms False Some that(2) [of w]
      by (auto simp: acquire_turn_def acquire_pass_def workers_simps Let_def)
  next
    case None
    then have busy: "\<forall>w \<in> set (pl_workers ?d). wk_busy w"
      by (auto simp: find_None_iff)
    define sp where "sp \<longleftrightarrow> \<not> backing_off now p \<and> pl_starting p < pl_waiting p \<and>
      int (length (pl_workers ?d)) + pl_starting p < pl_max_workers p"
    define nw where "nw \<longleftrightarrow> pl_workers ?d = [] \<and> pl_starting p = 0 \<and> backing_off now p"
    have "acquire_pass alive now p =
        (if sp then (spawn_locked ?d, Wait) else (?d, if nw then NoWorker else Wait))"
      using False None b by (auto simp: acquire_pass_def sp_def nw_def Let_def)
    then have turn: "(p', out) = (if sp then (spawn_locked ?d, Wait)
        else if nw then (?d\<lparr>pl_waiting := pl_waiting p - 1\<rparr>, NoWorker) else (?d, Wait))"
      using assms by (simp add: acquire_turn_def split: if_splits)
    consider "sp" | "\<not> sp" "nw" | "\<not> sp" "\<not> nw"
      by blast
    then show ?thesis
    proof cases
      case 1
      then show ?thesis
        using turn False busy that(4) by (simp add: sp_def)
    next
      case 2
      then show ?thesis
        using turn False that(3) by (simp add: nw_def)
    next
      case 3
      then have "p' = ?d" "out = Wait"
        using turn by simp_all
      then show ?thesis
        using 3 False busy that(5) unfolding sp_def nw_def by blast
    qed
  qed
qed

text \<open>Reaping keeps a worker, and stops only workers nobody uses.\<close>

lemma reap_props:
  assumes "reap now p = (p', idle)"
  shows "set idle \<subseteq> set (pl_workers p)" "\<forall>w \<in> set idle. \<not> wk_busy w"
    "pl_workers p' = filter (\<lambda>w. w \<notin> set idle) (pl_workers p)"
    "pl_max_workers p' = pl_max_workers p" "pl_starting p' = pl_starting p"
    "pl_waiting p' = pl_waiting p" "pl_closed p' = pl_closed p"
proof -
  define unused where "unused = filter (\<lambda>w. \<not> wk_busy w \<and> pl_idle_timeout p \<le> now - wk_last_used w) (pl_workers p)"
  have "idle = (if length unused = length (pl_workers p) then tl unused else unused)"
    using assms by (auto simp: reap_def Let_def unused_def)
  then have "set idle \<subseteq> set unused"
    by (cases unused) auto
  then show "set idle \<subseteq> set (pl_workers p)" "\<forall>w \<in> set idle. \<not> wk_busy w"
    by (auto simp: unused_def)
qed (use assms in \<open>auto simp: reap_def Let_def\<close>)

section \<open>Checkout\<close>

fun holds :: "pc \<Rightarrow> nat option" where
  "holds (Sending k w threads) = Some w"
| "holds (Receiving w) = Some w"
| "holds _ = None"

definition held :: "(nat \<Rightarrow> pc option) \<Rightarrow> nat \<Rightarrow> nat option" where
  \<comment> \<open>the worker a thread has checked out\<close>
  "held pcs i = Option.bind (pcs i) holds"

lemma held_update [simp]: "held (pcs(i \<mapsto> pc)) j = (if j = i then holds pc else held pcs j)"
  by (simp add: held_def)

lemma held_pc: "pcs i = Some pc \<Longrightarrow> held pcs i = holds pc"
  by (simp add: held_def)

definition checked_out :: "pool \<Rightarrow> (nat \<Rightarrow> nat option) \<Rightarrow> bool" where
  \<comment> \<open>no two threads have one worker, and a listed worker is busy exactly when a thread has it\<close>
  "checked_out p h \<longleftrightarrow>
     (\<forall>i j w. h i = Some w \<longrightarrow> h j = Some w \<longrightarrow> i = j) \<and>
     (\<forall>w \<in> set (pl_workers p). wk_busy w \<longleftrightarrow> (\<exists>i. h i = Some (wk_id w))) \<and>
     distinct (map wk_id (pl_workers p))"

definition fallback_held :: "system \<Rightarrow> bool" where
  "fallback_held s \<longleftrightarrow> (\<forall>i. sy_pcs s i = Some InFallback \<longleftrightarrow> sy_fallback s = Some i)"

text \<open>The changes to a pool and to what is held that keep a checkout.\<close>

lemma checked_out_fewer:
  assumes "checked_out p h" and "pl_workers q = filter f (pl_workers p)"
  shows "checked_out q h"
  using assms by (auto simp: checked_out_def distinct_map inj_on_def)

lemma checked_out_workers: "checked_out p h \<Longrightarrow> pl_workers q = pl_workers p \<Longrightarrow> checked_out q h"
  by (simp add: checked_out_def)

lemma map_ids:
  assumes "\<And>v. wk_id (f v) = wk_id v"
  shows "map wk_id (map (\<lambda>v. if wk_id v = w then f v else v) vs) = map wk_id vs"
  using assms by (induction vs) auto

lemma checked_out_waiting: "checked_out (p\<lparr>pl_waiting := n\<rparr>) h \<longleftrightarrow> checked_out p h"
  by (simp add: checked_out_def)

lemma checked_out_take:
  assumes "checked_out p h" and "w \<in> set (pl_workers p)" and "\<not> wk_busy w" and "h i = None"
    and "pl_workers q = map (\<lambda>v. if wk_id v = wk_id w then v\<lparr>wk_busy := True\<rparr> else v) (pl_workers p)"
  shows "checked_out q (h(i \<mapsto> wk_id w))"
proof -
  have free: "h j \<noteq> Some (wk_id w)" for j
    using assms(1-3) by (auto simp: checked_out_def)
  have "(\<exists>j. (h(i \<mapsto> wk_id w)) j = Some v) \<longleftrightarrow> v = wk_id w \<or> (\<exists>j. h j = Some v)" for v
    using assms(4) by (metis fun_upd_apply option.inject option.distinct(1))
  moreover have "map wk_id (pl_workers q) = map wk_id (pl_workers p)"
    unfolding assms(5) by (rule map_ids) simp
  moreover have "set (pl_workers q) = (\<lambda>v. if wk_id v = wk_id w then v\<lparr>wk_busy := True\<rparr> else v) ` set (pl_workers p)"
    by (simp add: assms(5))
  ultimately show ?thesis
    using assms(1) free by (auto simp: checked_out_def)
qed

lemma checked_out_drop:
  assumes "checked_out p h" and "h i = Some w"
  shows "(\<exists>j. (h(i := None)) j = Some v) \<longleftrightarrow> v \<noteq> w \<and> (\<exists>j. h j = Some v)"
proof -
  have "h j = Some w \<longleftrightarrow> j = i" for j
    using assms unfolding checked_out_def by blast
  then show ?thesis
    using assms(2) by (metis fun_upd_apply option.inject option.distinct(1))
qed

lemma checked_out_leave:
  assumes "checked_out p h" and "h i = Some w" and "pl_workers q = filter (\<lambda>v. wk_id v \<noteq> w) (pl_workers p)"
  shows "checked_out q (h(i := None))"
proof -
  have "(\<exists>j. (h(i := None)) j = Some v) \<longleftrightarrow> v \<noteq> w \<and> (\<exists>j. h j = Some v)" for v
    using assms(1,2) by (rule checked_out_drop)
  then show ?thesis
    using assms(1,3) by (auto simp: checked_out_def distinct_map inj_on_def)
qed

lemma checked_out_return:
  assumes "checked_out p h" and "h i = Some w" and "\<And>v. wk_id (f v) = wk_id v \<and> \<not> wk_busy (f v)"
    and "pl_workers q = map (\<lambda>v. if wk_id v = w then f v else v) (pl_workers p)"
  shows "checked_out q (h(i := None))"
proof -
  have "(\<exists>j. (h(i := None)) j = Some v) \<longleftrightarrow> v \<noteq> w \<and> (\<exists>j. h j = Some v)" for v
    using assms(1,2) by (rule checked_out_drop)
  moreover have "map wk_id (pl_workers q) = map wk_id (pl_workers p)"
    unfolding assms(4) by (rule map_ids) (simp add: assms(3))
  moreover have "set (pl_workers q) = (\<lambda>v. if wk_id v = w then f v else v) ` set (pl_workers p)"
    by (simp add: assms(4))
  ultimately show ?thesis
    using assms(1,3) by (auto simp: checked_out_def)
qed

lemma checked_out_join:
  assumes "checked_out p h" and "pl_workers q = pl_workers p @ [w]" and "\<not> wk_busy w"
    and "wk_id w \<notin> ids p" and "\<And>i. h i \<noteq> Some (wk_id w)"
  shows "checked_out q h"
  using assms by (auto simp: checked_out_def ids_def)

lemma checked_out_spawn_fails: "checked_out (spawn_fails now p) h \<longleftrightarrow> checked_out p h"
  by (simp add: checked_out_def)

lemma checked_out_close: "close_pool p = (p', ws) \<Longrightarrow> checked_out p h \<Longrightarrow> checked_out p' h"
  by (auto simp: close_pool_def checked_out_def)

lemma held_upd: "held (pcs(i \<mapsto> pc)) = (held pcs)(i := holds pc)"
  by (auto simp: fun_eq_iff)

lemma holds_after [simp]: "holds (after_lost k) = None" "holds (after_kill w j) = None"
  by (simp_all add: after_lost_def after_kill_def split: option.splits)

lemma holds_woken [simp]: "holds (woken pc) = holds pc"
  by (cases pc) simp_all

lemma held_woken [simp]: "held (\<lambda>i. map_option woken (pcs i)) = held pcs"
proof -
  have "Option.bind (map_option woken x) holds = Option.bind x holds" for x
    by (cases x) simp_all
  then show ?thesis
    by (simp add: held_def fun_eq_iff)
qed

text \<open>A turn keeps the checkout, and so does everything else that happens.\<close>

lemma checked_out_turn:
  assumes "checked_out p h" and "h i = None" and "acquire_turn alive now p = (p', out)"
  shows "checked_out p' (h(i := holds (next_pc c k out)))"
  using assms(3)
proof (cases rule: acquire_turn_cases)
  case (Got w threads)
  have "checked_out (discard_dead alive p) h"
    using assms(1) by (rule checked_out_fewer) (simp add: workers_simps)
  moreover have "w \<in> set (pl_workers (discard_dead alive p))"
    using Got by (simp add: workers_simps)
  ultimately show ?thesis
    using Got assms(2) by (simp add: next_pc_def checked_out_take workers_simps(2))
next
  case Spawn
  have "checked_out p' h"
    using assms(1) by (rule checked_out_fewer) (simp add: Spawn(3) workers_simps)
  then show ?thesis
    using Spawn(1) assms(2) by (simp add: next_pc_def fun_upd_idem)
next
  case Wait
  have "checked_out p' h"
    using assms(1) by (rule checked_out_fewer) (simp add: Wait(3) workers_simps)
  then show ?thesis
    using Wait(1) assms(2) by (simp add: next_pc_def fun_upd_idem)
next
  case NoWorker
  have "checked_out p' h"
    using assms(1) by (rule checked_out_fewer) (simp add: NoWorker(6) workers_simps)
  then show ?thesis
    using NoWorker(1) assms(2) by (simp add: next_pc_def fun_upd_idem)
next
  case Stopping
  have "checked_out p' h"
    using assms(1) by (rule checked_out_workers) (simp add: Stopping(3))
  then show ?thesis
    using Stopping(1) assms(2) by (simp add: next_pc_def fun_upd_idem)
qed

lemma moved_simps:
  "sy_pool (moved i pc s) = sy_pool s"
  "sy_pcs (moved i pc s) = (sy_pcs s)(i \<mapsto> pc)"
  "sy_launching (moved i pc s) = sy_launching s"
  "sy_booting (moved i pc s) = sy_booting s"
  "sy_failing (moved i pc s) = sy_failing s"
  "sy_stoppers (moved i pc s) = sy_stoppers s"
  "sy_next (moved i pc s) = sy_next s"
  "sy_alive (moved i pc s) = sy_alive s"
  "sy_told (moved i pc s) = sy_told s"
  "sy_killed (moved i pc s) = sy_killed s"
  "sy_now (moved i pc s) = sy_now s"
  "sy_fallback (moved i pc s) = sy_fallback s"
  "sy_frames (moved i pc s) = sy_frames s"
  by (simp_all add: moved_def)

lemma took_turn_simps:
  "sy_pool (took_turn i k r s) = fst r"
  "sy_pcs (took_turn i k r s) = (sy_pcs s)(i \<mapsto> next_pc (sy_now s) k (snd r))"
  "sy_launching (took_turn i k r s) = sy_launching s + nat (pl_starting (fst r) - pl_starting (sy_pool s))"
  "sy_booting (took_turn i k r s) = sy_booting s"
  "sy_failing (took_turn i k r s) = sy_failing s"
  "sy_stoppers (took_turn i k r s) = sy_stoppers s"
  "sy_next (took_turn i k r s) = sy_next s"
  "sy_alive (took_turn i k r s) = sy_alive s"
  "sy_told (took_turn i k r s) = sy_told s"
  "sy_killed (took_turn i k r s) = sy_killed s"
  "sy_now (took_turn i k r s) = sy_now s"
  "sy_fallback (took_turn i k r s) = sy_fallback s"
  "sy_frames (took_turn i k r s) = sy_frames s"
  by (simp_all add: took_turn_def moved_def)

lemma notify_simps:
  "sy_pool (notify_all s) = sy_pool s"
  "sy_pcs (notify_all s) = (\<lambda>i. map_option woken (sy_pcs s i))"
  "sy_launching (notify_all s) = sy_launching s"
  "sy_booting (notify_all s) = sy_booting s"
  "sy_failing (notify_all s) = sy_failing s"
  "sy_stoppers (notify_all s) = sy_stoppers s"
  "sy_next (notify_all s) = sy_next s"
  "sy_alive (notify_all s) = sy_alive s"
  "sy_told (notify_all s) = sy_told s"
  "sy_killed (notify_all s) = sy_killed s"
  "sy_now (notify_all s) = sy_now s"
  "sy_fallback (notify_all s) = sy_fallback s"
  "sy_frames (notify_all s) = sy_frames s"
  by (simp_all add: notify_all_def)

lemma stopping_simps:
  "sy_pool (stopping ws s) = sy_pool s"
  "sy_pcs (stopping ws s) = sy_pcs s"
  "sy_launching (stopping ws s) = sy_launching s"
  "sy_booting (stopping ws s) = sy_booting s"
  "sy_failing (stopping ws s) = sy_failing s"
  "sy_next (stopping ws s) = sy_next s"
  "sy_alive (stopping ws s) = sy_alive s"
  "sy_told (stopping ws s) = sy_told s"
  "sy_killed (stopping ws s) = sy_killed s"
  "sy_now (stopping ws s) = sy_now s"
  "sy_fallback (stopping ws s) = sy_fallback s"
  "sy_frames (stopping ws s) = sy_frames s"
  by (simp_all add: stopping_def)

lemma stopper_simps:
  "sy_pool (stopper_at j st s) = sy_pool s"
  "sy_pcs (stopper_at j st s) = sy_pcs s"
  "sy_launching (stopper_at j st s) = sy_launching s"
  "sy_booting (stopper_at j st s) = sy_booting s"
  "sy_failing (stopper_at j st s) = sy_failing s"
  "sy_stoppers (stopper_at j st s) = (sy_stoppers s)[j := st]"
  "sy_next (stopper_at j st s) = sy_next s"
  "sy_alive (stopper_at j st s) = sy_alive s"
  "sy_told (stopper_at j st s) = sy_told s"
  "sy_killed (stopper_at j st s) = sy_killed s"
  "sy_now (stopper_at j st s) = sy_now s"
  "sy_fallback (stopper_at j st s) = sy_fallback s"
  "sy_frames (stopper_at j st s) = sy_frames s"
  by (simp_all add: stopper_at_def)

lemma lose_simps:
  "sy_pool (lose w k i s) = lost w (sy_pool s)"
  "sy_pcs (lose w k i s) = (\<lambda>i. map_option woken (sy_pcs s i))(i \<mapsto> Killing w k)"
  "sy_launching (lose w k i s) = sy_launching s"
  "sy_booting (lose w k i s) = sy_booting s"
  "sy_failing (lose w k i s) = sy_failing s"
  "sy_stoppers (lose w k i s) = sy_stoppers s"
  "sy_next (lose w k i s) = sy_next s"
  "sy_alive (lose w k i s) = sy_alive s"
  "sy_told (lose w k i s) = sy_told s"
  "sy_killed (lose w k i s) = sy_killed s"
  "sy_now (lose w k i s) = sy_now s"
  "sy_fallback (lose w k i s) = sy_fallback s"
  "sy_frames (lose w k i s) = sy_frames s"
  by (simp_all add: lose_def moved_def notify_all_def)

lemmas system_simps = lose_simps moved_simps took_turn_simps notify_simps stopping_simps
  stopper_simps held_upd held_woken

definition checkout :: "system \<Rightarrow> bool" where
  "checkout s \<longleftrightarrow> checked_out (sy_pool s) (held (sy_pcs s))"

definition known :: "system \<Rightarrow> bool" where
  \<comment> \<open>every process was launched, and one that is starting is not listed and not in use\<close>
  "known s \<longleftrightarrow>
     distinct (sy_booting s) \<and> set (sy_booting s) \<subseteq> {..<sy_next s} \<and>
     ids (sy_pool s) \<subseteq> {..<sy_next s} \<and> sy_alive s \<subseteq> {..<sy_next s} \<and>
     set (sy_booting s) \<inter> ids (sy_pool s) = {} \<and>
     (\<forall>i w. held (sy_pcs s) i = Some w \<longrightarrow> w < sy_next s \<and> w \<notin> set (sy_booting s))"

lemma checkout_turn:
  assumes "checkout s" and "held (sy_pcs s) i = None" and "acquire_turn alive now (sy_pool s\<lparr>pl_waiting := n\<rparr>) = r"
  shows "checkout (took_turn i k r s)"
proof (cases r)
  case (Pair p' out)
  have "checked_out (sy_pool s\<lparr>pl_waiting := n\<rparr>) (held (sy_pcs s))"
    using assms(1) by (simp add: checkout_def checked_out_waiting)
  from checked_out_turn [OF this assms(2) assms(3)[unfolded Pair], of "sy_now s" k] show ?thesis
    by (simp add: checkout_def system_simps Pair)
qed

lemma checkout_same:
  assumes "checkout s" and "held (sy_pcs t) = held (sy_pcs s)"
    and "pl_workers (sy_pool t) = pl_workers (sy_pool s)"
  shows "checkout t"
  using assms by (simp add: checkout_def checked_out_def)

lemma checkout_idle:
  \<comment> \<open>a thread that has no worker moves on, still without one\<close>
  assumes "checkout s" and "sy_pcs s i = x" and "Option.bind x holds = holds pc"
    and "sy_pool u = sy_pool s" and "held (sy_pcs u) = held (sy_pcs s)"
  shows "checkout (moved i pc u)"
proof -
  have "(held (sy_pcs s))(i := holds pc) = held (sy_pcs s)"
    using assms(2,3) by (simp add: held_def fun_upd_idem)
  then show ?thesis
    using assms(1,4,5) by (simp add: checkout_def system_simps)
qed

lemma checkout_lose:
  assumes "checkout s" and "held (sy_pcs s) i = Some w"
  shows "checkout (lose w k i s)"
proof -
  have "checked_out (lost w (sy_pool s)) ((held (sy_pcs s))(i := None))"
    using assms(1)[unfolded checkout_def] assms(2) by (rule checked_out_leave) (simp add: workers_simps)
  then show ?thesis
    by (simp add: checkout_def system_simps)
qed

lemma release_workers:
  assumes "release i now p = (p', idle)"
  obtains g where "pl_workers p' = filter g (map (\<lambda>w. if wk_id w = i
      then w\<lparr>wk_busy := False, wk_last_used := now, wk_answered := wk_answered w + 1\<rparr> else w) (pl_workers p))"
  using reap_props(3) [OF assms [unfolded release_def]] by (simp add: workers_simps(2))

lemma acquire_turn_waiting [simp]:
  "acquire_turn alive now (p\<lparr>pl_waiting := pl_waiting p\<rparr>) = acquire_turn alive now p"
  by simp

lemma checkout_step:
  assumes "pool_step s t" and "checkout s" and "known s"
  shows "checkout t"
  using assms
proof (induction rule: pool_step.induct)
  case (call s i)
  then show ?case by (intro checkout_idle) auto
next
  case (enter s i k)
  then show ?case
    unfolding acquire_enter_def by (intro checkout_turn) (auto simp: held_pc)
next
  case (wake s i k)
  then have "held (sy_pcs s) i = None"
    by (simp add: held_pc)
  from checkout_turn [OF wake(2) this acquire_turn_waiting] show ?case .
next
  case (times_out s i k until)
  then show ?case by (intro checkout_idle) auto
next
  case (sent s i k w threads)
  then show ?case by (intro checkout_idle) auto
next
  case (send_fails s i k w threads)
  then show ?case by (intro checkout_lose) (auto simp: held_pc)
next
  case (replied s i w p idle out)
  obtain g where g: "pl_workers p = filter g (map (\<lambda>v. if wk_id v = w
      then v\<lparr>wk_busy := False, wk_last_used := sy_now s, wk_answered := wk_answered v + 1\<rparr> else v)
      (pl_workers (sy_pool s)))"
    using replied(2) by (rule release_workers)
  let ?q = "on_worker w (\<lambda>v. v\<lparr>wk_busy := False, wk_last_used := sy_now s, wk_answered := wk_answered v + 1\<rparr>) (sy_pool s)"
  have "held (sy_pcs s) i = Some w"
    using replied(1) by (simp add: held_pc)
  then have "checked_out ?q ((held (sy_pcs s))(i := None))"
    using replied(4)[unfolded checkout_def]
    by (intro checked_out_return [where f = "\<lambda>v. v\<lparr>wk_busy := False, wk_last_used := sy_now s, wk_answered := wk_answered v + 1\<rparr>"])
      (auto simp: workers_simps(2))
  then have "checked_out p ((held (sy_pcs s))(i := None))"
    by (rule checked_out_fewer) (simp add: g workers_simps(2))
  then show ?case
    by (simp add: checkout_def system_simps)
next
  case (receive_fails s i w)
  then show ?case by (intro checkout_lose) (auto simp: held_pc)
next
  case (kills s i w k)
  then show ?case by (intro checkout_idle) auto
next
  case (lock_fallback s i)
  then show ?case by (intro checkout_idle) auto
next
  case (unlock_fallback s i)
  then show ?case by (intro checkout_idle) auto
next
  case (ready w s p stale)
  have "checked_out p (held (sy_pcs s))"
  proof (cases "pl_closed (sy_pool s)")
    case True
    then have "pl_workers p = pl_workers (sy_pool s)"
      using ready(2) by (auto simp: spawn_succeeds_def Let_def)
    then show ?thesis
      using ready(3) checked_out_workers unfolding checkout_def by blast
  next
    case False
    let ?w = "mk_worker w (sy_now s)"
    have "pl_workers p = pl_workers (sy_pool s) @ [?w]"
      using ready(2) False by (auto simp: spawn_succeeds_def Let_def)
    moreover have "wk_id ?w \<notin> ids (sy_pool s)" "\<And>i. held (sy_pcs s) i \<noteq> Some (wk_id ?w)" "\<not> wk_busy ?w"
      using ready(1,4) by (auto simp: known_def mk_worker_def)
    ultimately show ?thesis
      using ready(3) checked_out_join unfolding checkout_def by blast
  qed
  then show ?case
    by (simp add: checkout_def system_simps)
next
  case (close s p ws)
  then show ?case
    by (auto simp: checkout_def system_simps intro: checked_out_close)
qed (erule checkout_same; simp add: system_simps)+

section \<open>Processes\<close>

lemma ids_on_worker:
  assumes "\<And>v. wk_id (f v) = wk_id v"
  shows "ids (on_worker i f p) = ids p"
  using arg_cong [OF map_ids [of f i "pl_workers p", OF assms], of set]
  by (simp only: ids_def workers_simps(2) set_map)

lemma acquire_turn_ids:
  assumes "acquire_turn alive now p = (p', out)"
  shows "ids p' \<subseteq> ids p \<and> ids p \<inter> alive \<subseteq> ids p' \<and>
    pl_closed p' = pl_closed p \<and> (pl_workers p = [] \<longrightarrow> pl_workers p' = []) \<and>
    (\<forall>w threads. out = Got w threads \<longrightarrow> w \<in> ids p)"
  using assms
proof (cases rule: acquire_turn_cases)
  case (Got w threads)
  have "ids p' = ids (discard_dead alive p)"
    unfolding Got(6) using ids_on_worker [of "\<lambda>w. w\<lparr>wk_busy := True\<rparr>"] by (simp add: ids_simps)
  then show ?thesis
    using Got by (auto simp: workers_simps ids_def)
next
  case Spawn
  have "pl_workers p' = filter (\<lambda>w. wk_busy w \<or> wk_id w \<in> alive) (pl_workers p)" "pl_closed p' = pl_closed p"
    by (simp_all add: Spawn(3) workers_simps)
  then show ?thesis
    using Spawn(1) by (auto simp: ids_def)
next
  case Wait
  have "pl_workers p' = filter (\<lambda>w. wk_busy w \<or> wk_id w \<in> alive) (pl_workers p)" "pl_closed p' = pl_closed p"
    by (simp_all add: Wait(3) workers_simps)
  then show ?thesis
    using Wait(1) by (auto simp: ids_def)
next
  case NoWorker
  have "pl_workers p' = filter (\<lambda>w. wk_busy w \<or> wk_id w \<in> alive) (pl_workers p)" "pl_closed p' = pl_closed p"
    by (simp_all add: NoWorker(6) workers_simps)
  then show ?thesis
    using NoWorker(1) by (auto simp: ids_def)
next
  case Stopping
  then show ?thesis by (simp add: ids_simps)
qed

lemma release_ids:
  assumes "release w now p = (p', idle)"
  shows "ids p' \<subseteq> ids p" "ids p \<subseteq> ids p' \<union> wk_id ` set idle" "pl_closed p' = pl_closed p"
    "pl_workers p = [] \<Longrightarrow> pl_workers p' = []"
proof -
  let ?q = "on_worker w (\<lambda>v. v\<lparr>wk_busy := False, wk_last_used := now, wk_answered := wk_answered v + 1\<rparr>) p"
  have r: "reap now ?q = (p', idle)"
    using assms by (simp add: release_def)
  have "ids ?q = ids p"
    by (rule ids_on_worker) simp
  then show "ids p' \<subseteq> ids p" "ids p \<subseteq> ids p' \<union> wk_id ` set idle"
    using reap_props(3) [OF r] by (auto simp: ids_def)
  show "pl_closed p' = pl_closed p" "pl_workers p = [] \<Longrightarrow> pl_workers p' = []"
    using reap_props(3,7) [OF r] by (simp_all add: workers_simps)
qed

lemma known_frame:
  assumes "known s"
    and "ids (sy_pool t) \<subseteq> ids (sy_pool s)" and "sy_next t = sy_next s"
    and "sy_alive t \<subseteq> sy_alive s" and "sy_booting t = sy_booting s"
    and "\<And>i w. held (sy_pcs t) i = Some w \<Longrightarrow> w \<in> ids (sy_pool s) \<or> (\<exists>j. held (sy_pcs s) j = Some w)"
  shows "known t"
  using assms unfolding known_def by (metis (no_types, lifting) disjoint_iff lessThan_iff subset_iff)

lemma known_turn:
  assumes "known s" and "acquire_turn (sy_alive s) now (sy_pool s\<lparr>pl_waiting := n\<rparr>) = r"
  shows "known (took_turn i k r s)"
proof -
  obtain p' out where r: "r = (p', out)"
    by (cases r)
  have turn: "ids p' \<subseteq> ids (sy_pool s)" "\<And>w threads. out = Got w threads \<Longrightarrow> w \<in> ids (sy_pool s)"
    using acquire_turn_ids [OF assms(2) [unfolded r]] by (auto simp: ids_simps)
  have "w \<in> ids (sy_pool s) \<or> (\<exists>j. held (sy_pcs s) j = Some w)"
    if "held (sy_pcs (took_turn i k r s)) j = Some w" for j w
    using that turn(2) by (cases "j = i"; cases out) (auto simp: r system_simps next_pc_def)
  then show ?thesis
    using turn by (intro known_frame [OF assms(1)]) (simp_all add: system_simps r)
qed

lemma known_idle:
  assumes "known s" and "ids (sy_pool u) \<subseteq> ids (sy_pool s)" and "sy_next u = sy_next s"
    and "sy_alive u = sy_alive s" and "sy_booting u = sy_booting s"
    and "held (sy_pcs u) = held (sy_pcs s)" and "holds pc = None"
  shows "known (moved i pc u)"
  using assms by (intro known_frame [OF assms(1)]) (auto simp: system_simps split: if_splits)

lemma known_step:
  assumes "pool_step s t" and "known s"
  shows "known t"
  using assms
proof (induction rule: pool_step.induct)
  case (call s i)
  then show ?case by (intro known_idle [OF call(2)]) auto
next
  case (enter s i k)
  then show ?case
    unfolding acquire_enter_def by (intro known_turn) auto
next
  case (wake s i k)
  from known_turn [OF wake(2) acquire_turn_waiting] show ?case .
next
  case (times_out s i k until)
  then show ?case by (intro known_idle [OF times_out(3)]) auto
next
  case (sent s i k w threads)
  then have "held (sy_pcs s) i = Some w"
    by (simp add: held_pc)
  then show ?case
    by (intro known_frame [OF sent(2)]) (auto simp: system_simps split: if_splits)
next
  case (send_fails s i k w threads)
  then show ?case unfolding lose_def
    by (intro known_idle [OF send_fails(2)]) (auto simp: system_simps ids_simps)
next
  case (replied s i w p idle out)
  then show ?case
    using release_ids(1) [OF replied(2)]
    by (intro known_frame [OF replied(4)]) (auto simp: system_simps split: if_splits)
next
  case (receive_fails s i w)
  then show ?case unfolding lose_def
    by (intro known_idle [OF receive_fails(2)]) (auto simp: system_simps ids_simps)
next
  case (kills s i w k)
  then show ?case by (intro known_idle [OF kills(2)]) auto
next
  case (lock_fallback s i)
  then show ?case by (intro known_idle [OF lock_fallback(3)]) auto
next
  case (unlock_fallback s i)
  then show ?case by (intro known_idle [OF unlock_fallback(2)]) auto
next
  case (launches s n)
  then have "w \<noteq> sy_next s" if "w \<in> ids (sy_pool s) \<or> w \<in> set (sy_booting s) \<or> held (sy_pcs s) i = Some w" for w i
    using that unfolding known_def by (metis lessThan_iff less_irrefl subset_iff)
  then show ?case
    using launches(2) unfolding known_def by (auto simp: less_Suc_eq subset_iff)
next
  case (ready w s p stale)
  have "ids p \<subseteq> insert w (ids (sy_pool s))"
    using ready(2) by (auto simp: spawn_succeeds_def Let_def ids_def mk_worker_def split: if_splits)
  then show ?case
    using ready(1,3) unfolding known_def by (auto simp: system_simps dest: notin_set_remove1)
next
  case (close s p ws)
  then show ?case
    by (intro known_frame [OF close(2)]) (auto simp: system_simps close_pool_def ids_def)
next
  case (boot_fails w s)
  then show ?case
    unfolding known_def by (auto dest: notin_set_remove1)
next
  case (dies s w)
  then show ?case by (intro known_frame [OF dies]) auto
qed (erule known_frame; auto simp: system_simps ids_simps)+

text \<open>Who sees to it that a process ends: the pool that lists it, the thread that starts it, the
  thread that has it among those to stop, the call that is about to kill it; or it has been told to
  leave, or killed.\<close>

definition losing :: "(nat \<Rightarrow> pc option) \<Rightarrow> nat set" where
  "losing pcs = {w. \<exists>i k. pcs i = Some (Killing w k)}"

definition to_stop :: "stopper list \<Rightarrow> nat set" where
  "to_stop sts = \<Union> (pending ` set sts)"

definition cared_for :: "system \<Rightarrow> nat set" where
  "cared_for s = ids (sy_pool s) \<union> set (sy_booting s) \<union> to_stop (sy_stoppers s) \<union>
     losing (sy_pcs s) \<union> sy_told s \<union> sy_killed s"

definition accounted :: "system \<Rightarrow> bool" where
  "accounted s \<longleftrightarrow>
     sy_alive s \<subseteq> cared_for s \<and> (pl_closed (sy_pool s) \<longrightarrow> pl_workers (sy_pool s) = [])"

lemma to_stop_stopping [simp]: "to_stop (sy_stoppers (stopping ws s)) = to_stop (sy_stoppers s) \<union> set ws"
  by (auto simp: stopping_def to_stop_def)

lemma to_stop_update:
  assumes "j < length sts"
  shows "to_stop sts \<subseteq> to_stop (sts[j := st]) \<union> pending (sts ! j)"
proof
  fix w
  assume "w \<in> to_stop sts"
  then obtain n where n: "n < length sts" "w \<in> pending (sts ! n)"
    by (auto simp: to_stop_def in_set_conv_nth)
  show "w \<in> to_stop (sts[j := st]) \<union> pending (sts ! j)"
  proof (cases "n = j")
    case False
    then have "sts ! n \<in> set (sts[j := st])"
      using n(1) by (metis length_list_update nth_list_update_neq nth_mem)
    then show ?thesis
      using n(2) by (auto simp: to_stop_def)
  qed (use n in simp)
qed

lemma to_stop_member: "j < length sts \<Longrightarrow> pending st \<subseteq> to_stop (sts[j := st])"
  unfolding to_stop_def by (meson UN_upper set_update_memI)

lemma losing_woken [simp]: "losing (\<lambda>i. map_option woken (pcs i)) = losing pcs"
proof -
  have "woken pc = Killing w k \<longleftrightarrow> pc = Killing w k" for pc w k
    by (cases pc) auto
  then show ?thesis
    by (simp add: losing_def)
qed

lemma losing_moved:
  "losing pcs \<subseteq> losing (pcs(i \<mapsto> pc)) \<union> {w. \<exists>k. pcs i = Some (Killing w k)}"
  by (auto simp: losing_def)

lemma losing_moved_same:
  assumes "\<And>w k. pcs i \<noteq> Some (Killing w k)"
  shows "losing pcs \<subseteq> losing (pcs(i \<mapsto> pc))"
  using losing_moved [of pcs i pc] assms by auto

lemma accounted_frame:
  assumes "accounted s" and "sy_alive t \<subseteq> sy_alive s"
    and "cared_for s \<inter> sy_alive s \<subseteq> cared_for t"
    and "pl_closed (sy_pool t) \<Longrightarrow> pl_workers (sy_pool t) = []"
  shows "accounted t"
  using assms unfolding accounted_def by blast

lemma accounted_closed: "accounted s \<Longrightarrow> pl_closed (sy_pool s) \<Longrightarrow> pl_workers (sy_pool s) = []"
  by (simp add: accounted_def)

lemma accounted_turn:
  assumes "accounted s" and "acquire_turn (sy_alive s) now (sy_pool s\<lparr>pl_waiting := n\<rparr>) = r"
    and "\<And>w k. sy_pcs s i \<noteq> Some (Killing w k)"
  shows "accounted (took_turn i k r s)"
proof -
  obtain p' out where r: "r = (p', out)"
    by (cases r)
  have turn: "ids (sy_pool s) \<inter> sy_alive s \<subseteq> ids p'"
    "pl_closed p' = pl_closed (sy_pool s)" "pl_workers (sy_pool s) = [] \<Longrightarrow> pl_workers p' = []"
    using acquire_turn_ids [OF assms(2) [unfolded r]] by (auto simp: ids_simps)
  have "cared_for s \<inter> sy_alive s \<subseteq> cared_for (took_turn i k r s)"
    using turn(1) losing_moved_same [of "sy_pcs s" i, OF assms(3)]
    by (auto simp: cared_for_def system_simps r)
  then show ?thesis
    using turn accounted_closed [OF assms(1)]
    by (intro accounted_frame [OF assms(1)]) (simp_all add: system_simps r)
qed

lemma accounted_moved:
  assumes "accounted s" and "\<And>w k. sy_pcs s i \<noteq> Some (Killing w k)"
    and "sy_pcs u = sy_pcs s" "sy_pool u = sy_pool s" "sy_booting u = sy_booting s"
      "sy_stoppers u = sy_stoppers s" "sy_told u = sy_told s" "sy_killed u = sy_killed s"
      "sy_alive u = sy_alive s"
  shows "accounted (moved i pc u)"
proof -
  have "cared_for s \<subseteq> cared_for (moved i pc u)"
    using losing_moved_same [of "sy_pcs s" i, OF assms(2)] assms(3-) by (auto simp: cared_for_def system_simps)
  then show ?thesis
    using assms(3-) accounted_closed [OF assms(1)]
    by (intro accounted_frame [OF assms(1)]) (auto simp: system_simps)
qed

lemma accounted_lose:
  assumes "accounted s" and "\<And>w k. sy_pcs s i \<noteq> Some (Killing w k)"
  shows "accounted (lose w k i s)"
proof -
  let ?p = "\<lambda>i. map_option woken (sy_pcs s i)"
  have "?p i \<noteq> Some (Killing v j)" for v j
    using assms(2) by (cases "sy_pcs s i") (auto elim: woken.elims)
  then have "losing (sy_pcs s) \<subseteq> losing (?p(i \<mapsto> Killing w k))"
    using losing_moved_same [of ?p i] by simp
  moreover have "w \<in> losing (?p(i \<mapsto> Killing w k))"
    by (auto simp: losing_def)
  ultimately have "cared_for s \<subseteq> cared_for (lose w k i s)"
    by (auto simp: cared_for_def system_simps ids_simps)
  then show ?thesis
    using accounted_closed [OF assms(1)]
    by (intro accounted_frame [OF assms(1)]) (auto simp: system_simps workers_simps)
qed

lemma accounted_step:
  assumes "pool_step s t" and "accounted s"
  shows "accounted t"
  using assms
proof (induction rule: pool_step.induct)
  case (call s i)
  then show ?case by (intro accounted_moved [OF call(2)]) auto
next
  case (enter s i k)
  then show ?case
    unfolding acquire_enter_def by (intro accounted_turn) auto
next
  case (wake s i k)
  then have "\<And>w k. sy_pcs s i \<noteq> Some (Killing w k)"
    by simp
  from accounted_turn [OF wake(2) acquire_turn_waiting this] show ?case .
next
  case (times_out s i k until)
  then show ?case by (intro accounted_moved [OF times_out(3)]) auto
next
  case (sent s i k w threads)
  then show ?case by (intro accounted_moved [OF sent(2)]) auto
next
  case (send_fails s i k w threads)
  then show ?case by (intro accounted_lose) auto
next
  case (replied s i w p idle out)
  let ?p = "\<lambda>i. map_option woken (sy_pcs s i)"
  have "losing (sy_pcs s) \<subseteq> losing (?p(i \<mapsto> Done out))"
    using losing_moved_same [of ?p i] replied(1) by simp
  then have "cared_for s \<subseteq> cared_for
      (stopping (map wk_id idle) (moved i (Done out) (notify_all (s\<lparr>sy_pool := p\<rparr>))))"
    using release_ids(2) [OF replied(2)] by (auto simp: cared_for_def system_simps)
  then show ?case
    using release_ids(3,4) [OF replied(2)] accounted_closed [OF replied(4)]
    by (intro accounted_frame [OF replied(4)]) (auto simp: system_simps)
next
  case (receive_fails s i w)
  then show ?case by (intro accounted_lose) auto
next
  case (kills s i w k)
  have "cared_for s \<subseteq> cared_for (moved i (after_kill w k) (s\<lparr>sy_killed := insert w (sy_killed s)\<rparr>))"
    using losing_moved [of "sy_pcs s" i "after_kill w k"] kills(1) by (auto simp: cared_for_def system_simps)
  then show ?case
    using accounted_closed [OF kills(2)] by (intro accounted_frame [OF kills(2)]) (auto simp: system_simps)
next
  case (lock_fallback s i)
  then show ?case by (intro accounted_moved [OF lock_fallback(3)]) auto
next
  case (unlock_fallback s i)
  then show ?case by (intro accounted_moved [OF unlock_fallback(2)]) auto
next
  case (launches s n)
  then show ?case by (auto simp: accounted_def cared_for_def)
next
  case (launch_fails s n)
  then show ?case by (auto simp: accounted_def cared_for_def)
next
  case (boot_fails w s)
  have "set (sy_booting s) \<subseteq> insert w (set (remove1 w (sy_booting s)))"
    using in_set_remove1 by fastforce
  then show ?case
    using accounted_closed [OF boot_fails(2)]
    by (intro accounted_frame [OF boot_fails(2)]) (auto simp: cared_for_def)
next
  case (start_fails s n)
  then show ?case by (auto simp: accounted_def cared_for_def system_simps ids_simps)
next
  case (ready w s p stale)
  have "set (sy_booting s) \<subseteq> insert w (set (remove1 w (sy_booting s)))"
    using in_set_remove1 by fastforce
  moreover have "ids (sy_pool s) \<subseteq> ids p" "w \<in> ids p \<union> wk_id ` set stale"
    "pl_closed p \<Longrightarrow> pl_closed (sy_pool s) \<and> pl_workers p = pl_workers (sy_pool s)"
    using ready(2) by (auto simp: spawn_succeeds_def Let_def ids_def mk_worker_def split: if_splits)
  ultimately show ?case
    using accounted_closed [OF ready(3)]
    by (intro accounted_frame [OF ready(3)]) (auto simp: cared_for_def system_simps)
next
  case (close s p ws)
  then have "pl_workers p = []" "wk_id ` set ws = ids (sy_pool s)"
    by (auto simp: close_pool_def ids_def)
  then show ?case
    by (intro accounted_frame [OF close(2)]) (auto simp: cared_for_def system_simps)
next
  case (tells j s w ws)
  have "to_stop (sy_stoppers s) \<subseteq> insert w (to_stop ((sy_stoppers s)[j := Leaving w (sy_now s + close_wait) ws]))"
    using to_stop_update [OF tells(1), of "Leaving w (sy_now s + close_wait) ws"]
      to_stop_member [OF tells(1), of "Leaving w (sy_now s + close_wait) ws"] tells(2) by auto
  then show ?case
    using accounted_closed [OF tells(3)]
    by (intro accounted_frame [OF tells(3)]) (auto simp: cared_for_def system_simps)
next
  case (leaves j s w until ws)
  have "to_stop (sy_stoppers s) \<subseteq> to_stop ((sy_stoppers s)[j := ToStop ws])"
    using to_stop_update [OF leaves(1), of "ToStop ws"] to_stop_member [OF leaves(1), of "ToStop ws"]
      leaves(2) by auto
  then show ?case
    using accounted_closed [OF leaves(4)]
    by (intro accounted_frame [OF leaves(4)]) (auto simp: cared_for_def system_simps)
next
  case (insists j s w until ws)
  have "to_stop (sy_stoppers s) \<subseteq> to_stop ((sy_stoppers s)[j := ToStop ws])"
    using to_stop_update [OF insists(1), of "ToStop ws"] to_stop_member [OF insists(1), of "ToStop ws"]
      insists(2) by auto
  then show ?case
    using accounted_closed [OF insists(4)]
    by (intro accounted_frame [OF insists(4)]) (auto simp: cared_for_def system_simps)
next
  case (dies s w)
  then show ?case by (auto simp: accounted_def cared_for_def)
next
  case (tick d s)
  then show ?case by (auto simp: accounted_def cared_for_def)
qed

section \<open>Counters\<close>

lemma remove1_shorter: "w \<in> set ws \<Longrightarrow> Suc (length (remove1 w ws)) = length ws"
  by (induction ws) auto

definition waiters :: "(nat \<Rightarrow> pc option) \<Rightarrow> nat set" where
  \<comment> \<open>the calls in the loop of \<open>_acquire\<close>\<close>
  "waiters pcs = {i. \<exists>k until. pcs i = Some (Asleep k until) \<or> pcs i = Some (Awake k)}"

definition counted :: "system \<Rightarrow> bool" where
  \<comment> \<open>the counters count the spawn threads and the waiting calls, and the cap holds\<close>
  "counted s \<longleftrightarrow>
     pl_starting (sy_pool s) = int (spawning s) \<and>
     int (length (pl_workers (sy_pool s))) + pl_starting (sy_pool s) \<le> pl_max_workers (sy_pool s) \<and>
     finite (waiters (sy_pcs s)) \<and>
     pl_waiting (sy_pool s) = int (card (waiters (sy_pcs s)))"

fun in_loop :: "pc \<Rightarrow> bool" where
  "in_loop (Asleep k until) = True"
| "in_loop (Awake k) = True"
| "in_loop pc = False"

lemma waiters_in_loop: "i \<in> waiters pcs \<longleftrightarrow> (\<exists>pc. pcs i = Some pc \<and> in_loop pc)"
  unfolding waiters_def by (auto elim: in_loop.elims)

lemma in_loop_woken [simp]: "in_loop (woken pc) = in_loop pc"
  by (cases pc) simp_all

lemma waiters_woken [simp]: "waiters (\<lambda>i. map_option woken (pcs i)) = waiters pcs"
  by (auto simp: waiters_in_loop)

lemma waiters_update:
  "waiters (pcs(i \<mapsto> pc)) = (if in_loop pc then insert i (waiters pcs) else waiters pcs - {i})"
  by (auto simp: waiters_in_loop split: if_splits)

lemma next_pc_waiting [simp]: "in_loop (next_pc c k out) \<longleftrightarrow> out = Wait"
  by (cases out) (auto simp: next_pc_def)

lemma after_not_waiting [simp]: "\<not> in_loop (after_lost k)" "\<not> in_loop (after_kill w j)"
  by (simp_all add: after_lost_def after_kill_def split: option.splits)

lemma spawning_simps [simp]:
  "spawning (moved i pc s) = spawning s" "spawning (notify_all s) = spawning s"
  "spawning (stopping ws s) = spawning s" "spawning (stopper_at j st s) = spawning s"
  "spawning (lose w k i s) = spawning s" "spawning (s\<lparr>sy_pool := p\<rparr>) = spawning s"
  "spawning (s\<lparr>sy_told := ws'\<rparr>) = spawning s" "spawning (s\<lparr>sy_killed := ws'\<rparr>) = spawning s"
  "spawning (s\<lparr>sy_alive := ws'\<rparr>) = spawning s" "spawning (s\<lparr>sy_now := c\<rparr>) = spawning s"
  "spawning (s\<lparr>sy_frames := fs\<rparr>) = spawning s" "spawning (s\<lparr>sy_fallback := b\<rparr>) = spawning s"
  by (simp_all add: spawning_def system_simps)

lemma spawning_turn:
  "spawning (took_turn i k r s) = spawning s + nat (pl_starting (fst r) - pl_starting (sy_pool s))"
  by (simp add: spawning_def system_simps)

text \<open>The counters after a turn: it leaves the wait unless it waits on, it starts at most one
  worker, and only below the cap.\<close>

lemma acquire_turn_counts:
  assumes "acquire_turn alive now p = (p', out)"
    and "int (length (pl_workers p)) + pl_starting p \<le> pl_max_workers p"
  shows "pl_max_workers p' = pl_max_workers p \<and>
    int (length (pl_workers p')) + pl_starting p' \<le> pl_max_workers p' \<and>
    pl_waiting p' = (if out = Wait then pl_waiting p else pl_waiting p - 1) \<and>
    (pl_starting p' = pl_starting p \<or> pl_starting p' = pl_starting p + 1)"
proof -
  have len: "length (pl_workers (discard_dead alive p)) \<le> length (pl_workers p)"
    by (simp add: workers_simps)
  show ?thesis
    using assms(1)
  proof (cases rule: acquire_turn_cases)
    case (Got w threads)
    then show ?thesis using assms(2) len by (simp add: workers_simps(2))
  qed (use assms(2) len in simp_all)
qed

lemma counted_turn:
  assumes "counted s" and "acquire_turn alive now (sy_pool s\<lparr>pl_waiting := n\<rparr>) = r"
    and "n = int (card (insert i (waiters (sy_pcs s))))"
  shows "counted (took_turn i k r s)"
proof -
  obtain p' out where r: "r = (p', out)"
    by (cases r)
  have c: "pl_starting (sy_pool s) = int (spawning s)" "finite (waiters (sy_pcs s))"
    "int (length (pl_workers (sy_pool s))) + pl_starting (sy_pool s) \<le> pl_max_workers (sy_pool s)"
    using assms(1) by (simp_all add: counted_def)
  have t: "int (length (pl_workers p')) + pl_starting p' \<le> pl_max_workers p'"
    "pl_waiting p' = (if out = Wait then n else n - 1)"
    "pl_starting p' = pl_starting (sy_pool s) \<or> pl_starting p' = pl_starting (sy_pool s) + 1"
    using acquire_turn_counts [OF assms(2) [unfolded r]] c by simp_all
  have "pl_starting p' = int (spawning (took_turn i k r s))"
    using t(3) c(1) by (auto simp: spawning_turn r)
  moreover have "pl_waiting p' = int (card (waiters (sy_pcs (took_turn i k r s))))"
    using t(2) assms(3) c(2)
    by (simp add: system_simps r waiters_update card.insert_remove)
  ultimately show ?thesis
    using t(1) c(2) by (simp add: counted_def system_simps r waiters_update)
qed

lemma counted_frame:
  assumes "counted s" and "waiters (sy_pcs t) = waiters (sy_pcs s)"
    and "pl_starting (sy_pool t) = pl_starting (sy_pool s)" and "spawning t = spawning s"
    and "length (pl_workers (sy_pool t)) \<le> length (pl_workers (sy_pool s))"
    and "pl_max_workers (sy_pool t) = pl_max_workers (sy_pool s)"
    and "pl_waiting (sy_pool t) = pl_waiting (sy_pool s)"
  shows "counted t"
  using assms by (simp add: counted_def)

lemma waiters_same:
  "pcs i = x \<Longrightarrow> (case x of None \<Rightarrow> False | Some q \<Rightarrow> in_loop q) = in_loop pc \<Longrightarrow>
    waiters (pcs(i \<mapsto> pc)) = waiters pcs"
  by (auto simp: waiters_update waiters_in_loop split: option.splits)

lemma counted_moved:
  assumes "counted s" and "sy_pcs s i = x" and "(case x of None \<Rightarrow> False | Some q \<Rightarrow> in_loop q) = in_loop pc"
    and "sy_pcs u = sy_pcs s" and "sy_pool u = sy_pool s" and "spawning u = spawning s"
  shows "counted (moved i pc u)"
  using waiters_same [of "sy_pcs s" i x pc] assms(2-)
  by (intro counted_frame [OF assms(1)]) (simp_all add: system_simps)

lemma counted_lose:
  assumes "counted s" and "sy_pcs s i = Some pc" and "\<not> in_loop pc"
  shows "counted (lose w k i s)"
proof -
  have "waiters ((\<lambda>i. map_option woken (sy_pcs s i))(i \<mapsto> Killing w k)) = waiters (sy_pcs s)"
    using waiters_same [of "\<lambda>i. map_option woken (sy_pcs s i)" i "Some (woken pc)" "Killing w k"] assms(2,3)
    by simp
  then show ?thesis
    by (intro counted_frame [OF assms(1)]) (simp_all add: system_simps workers_simps)
qed

lemma counted_step:
  assumes "pool_step s t" and "counted s"
  shows "counted t"
  using assms
proof (induction rule: pool_step.induct)
  case (call s i)
  then show ?case by (intro counted_moved [OF call(2,1)]) auto
next
  case (enter s i k)
  then have "i \<notin> waiters (sy_pcs s)"
    by (simp add: waiters_in_loop)
  then have "pl_waiting (sy_pool s) + 1 = int (card (insert i (waiters (sy_pcs s))))"
    using enter(2) by (simp add: counted_def)
  from counted_turn [OF enter(2) refl this] show ?case
    by (simp add: acquire_enter_def)
next
  case (wake s i k)
  then have "insert i (waiters (sy_pcs s)) = waiters (sy_pcs s)"
    by (auto simp: waiters_in_loop)
  then have "pl_waiting (sy_pool s) = int (card (insert i (waiters (sy_pcs s))))"
    using wake by (simp add: counted_def)
  from counted_turn [OF wake(2) acquire_turn_waiting this] show ?case .
next
  case (times_out s i k until)
  then show ?case by (intro counted_moved [OF times_out(3,1)]) auto
next
  case (sent s i k w threads)
  then show ?case by (intro counted_moved [OF sent(2,1)]) auto
next
  case (send_fails s i k w threads)
  then show ?case by (intro counted_lose) auto
next
  case (replied s i w p idle out)
  let ?q = "on_worker w (\<lambda>v. v\<lparr>wk_busy := False, wk_last_used := sy_now s, wk_answered := wk_answered v + 1\<rparr>) (sy_pool s)"
  have r: "reap (sy_now s) ?q = (p, idle)"
    using replied(2) by (simp add: release_def)
  have "length (pl_workers p) \<le> length (pl_workers (sy_pool s))"
    using reap_props(3) [OF r] length_filter_le [of _ "pl_workers ?q"] by (simp add: workers_simps(2))
  moreover have "waiters ((\<lambda>i. map_option woken (sy_pcs s i))(i \<mapsto> Done out)) = waiters (sy_pcs s)"
    using waiters_same [of "\<lambda>i. map_option woken (sy_pcs s i)" i "Some (Receiving w)" "Done out"] replied(1)
    by simp
  ultimately show ?case
    using reap_props(4-6) [OF r]
    by (intro counted_frame [OF replied(4)]) (simp_all add: system_simps)
next
  case (receive_fails s i w)
  then show ?case by (intro counted_lose) auto
next
  case (kills s i w k)
  then show ?case by (intro counted_moved [OF kills(2,1)]) auto
next
  case (lock_fallback s i)
  then show ?case by (intro counted_moved [OF lock_fallback(3,1)]) auto
next
  case (unlock_fallback s i)
  then show ?case by (intro counted_moved [OF unlock_fallback(2,1)]) auto
next
  case (launches s n)
  then show ?case by (simp add: counted_def spawning_def)
next
  case (launch_fails s n)
  then show ?case by (simp add: counted_def spawning_def)
next
  case (boot_fails w s)
  then have "Suc (length (remove1 w (sy_booting s))) = length (sy_booting s)"
    by (simp add: remove1_shorter)
  then show ?case
    using boot_fails(2) by (simp add: counted_def spawning_def)
next
  case (start_fails s n)
  then show ?case by (simp add: counted_def spawning_def system_simps)
next
  case (ready w s p stale)
  then have "Suc (length (remove1 w (sy_booting s))) = length (sy_booting s)"
    by (simp add: remove1_shorter)
  then have "spawning s = Suc (spawning (s\<lparr>sy_pool := p, sy_booting := remove1 w (sy_booting s)\<rparr>))"
    by (simp add: spawning_def)
  moreover have "pl_starting p = pl_starting (sy_pool s) - 1 \<and>
      length (pl_workers p) \<le> Suc (length (pl_workers (sy_pool s))) \<and>
      pl_max_workers p = pl_max_workers (sy_pool s) \<and> pl_waiting p = pl_waiting (sy_pool s)"
    using ready(2) by (auto simp: spawn_succeeds_def Let_def split: if_splits)
  ultimately show ?case
    using ready(3) by (simp add: counted_def system_simps)
next
  case (close s p ws)
  then show ?case
    by (auto simp: counted_def system_simps close_pool_def)
qed (simp_all add: counted_def system_simps)

section \<open>Sleep\<close>

text \<open>A call sleeps only while nothing can be done for it: the pool is open, every listed worker is
  in use, and there is one, or one is being started.\<close>

definition hopeful :: "pool \<Rightarrow> bool" where
  "hopeful p \<longleftrightarrow> \<not> pl_closed p \<and> (\<forall>w \<in> set (pl_workers p). wk_busy w) \<and>
     (pl_workers p \<noteq> [] \<or> 0 < pl_starting p)"

definition asleep :: "system \<Rightarrow> nat set" where
  "asleep s = {i. \<exists>k until. sy_pcs s i = Some (Asleep k until)}"

definition rested :: "system \<Rightarrow> bool" where
  "rested s \<longleftrightarrow>
     (asleep s \<noteq> {} \<longrightarrow> hopeful (sy_pool s)) \<and>
     (\<forall>i k until. sy_pcs s i = Some (Asleep k until) \<longrightarrow> until \<le> sy_now s + 1)"

lemma not_asleep_woken [simp]: "woken pc \<noteq> Asleep k until"
  by (cases pc) simp_all

lemma asleep_notified [simp]: "asleep (notify_all s) = {}"
  by (simp add: asleep_def system_simps)

lemma asleep_frames [simp]:
  "asleep (stopping ws s) = asleep s" "asleep (stopper_at j st s) = asleep s"
  "asleep (lose w k i s) = {}"
  by (auto simp: asleep_def system_simps)

lemma asleep_moved:
  "asleep (moved i pc s) = (if \<exists>k until. pc = Asleep k until then insert i (asleep s) else asleep s - {i})"
  by (auto simp: asleep_def system_simps)

lemma rested_none: "asleep s = {} \<Longrightarrow> rested s"
  by (auto simp: rested_def asleep_def)

lemma rested_fewer:
  assumes "rested s" and "\<And>i k until. sy_pcs t i = Some (Asleep k until) \<Longrightarrow> sy_pcs s i = Some (Asleep k until)"
    and "sy_pool t = sy_pool s" and "sy_now s \<le> sy_now t"
  shows "rested t"
proof -
  have "asleep t \<subseteq> asleep s"
    using assms(2) by (auto simp: asleep_def)
  moreover have "until \<le> sy_now t + 1" if "sy_pcs t i = Some (Asleep k until)" for i k until
    using assms(1) assms(2) [OF that] assms(4) unfolding rested_def by force
  ultimately show ?thesis
    using assms(1,3) by (auto simp: rested_def)
qed

text \<open>A turn taken while others sleep changes nothing they wait for, and a turn that ends in sleep
  leaves reason to.\<close>

lemma hopeful_turn:
  assumes "acquire_turn alive now p = (p', out)" and "hopeful p"
  shows "pl_workers p' = pl_workers p \<and> pl_closed p' = pl_closed p \<and> pl_starting p \<le> pl_starting p' \<and> hopeful p'"
proof -
  have "filter (\<lambda>w. wk_busy w \<or> wk_id w \<in> alive) (pl_workers p) = pl_workers p"
    using assms(2) by (auto simp: hopeful_def filter_id_conv)
  then have d: "pl_workers (discard_dead alive p) = pl_workers p"
    by (simp add: workers_simps)
  show ?thesis
    using assms(1)
  proof (cases rule: acquire_turn_cases)
    case (Got w threads)
    then show ?thesis using assms(2) by (auto simp: hopeful_def)
  qed (use assms(2) d in \<open>auto simp: hopeful_def\<close>)
qed

lemma sleep_turn:
  assumes "acquire_turn alive now p = (p', Wait)"
    and "0 < pl_waiting p" and "0 \<le> pl_starting p" and "1 \<le> pl_max_workers p"
  shows "hopeful p'"
  using assms(1)
proof (cases rule: acquire_turn_cases)
  case Spawn
  then show ?thesis using assms(3) by (simp add: hopeful_def)
next
  case Wait
  have "pl_workers p' \<noteq> [] \<or> 0 < pl_starting p"
  proof (cases "pl_workers p' = []")
    case True
    then have "pl_starting p \<noteq> 0"
      using Wait(5) Wait(6) assms(2,4) by auto
    then show ?thesis using assms(3) by simp
  qed simp
  then show ?thesis
    using Wait(2,3,4) by (simp add: hopeful_def)
qed simp_all

lemma rested_turn:
  assumes "rested s" and "acquire_turn alive now p = r"
    and "pl_workers p = pl_workers (sy_pool s)" "pl_closed p = pl_closed (sy_pool s)"
      "pl_starting p = pl_starting (sy_pool s)"
    and "0 < pl_waiting p" and "0 \<le> pl_starting p" and "1 \<le> pl_max_workers p"
  shows "rested (took_turn i k r s)"
proof -
  obtain p' out where r: "r = (p', out)"
    by (cases r)
  have "hopeful p'" if "asleep s \<noteq> {}"
  proof -
    have "hopeful (sy_pool s)"
      using assms(1) that by (simp add: rested_def)
    then have "hopeful p"
      using assms(3-5) by (simp add: hopeful_def)
    then show ?thesis
      using hopeful_turn [OF assms(2) [unfolded r]] by blast
  qed
  moreover have "hopeful p'" if "out = Wait"
    using sleep_turn [OF _ assms(6-8)] assms(2) r that by blast
  moreover have "out = Wait \<or> asleep s \<noteq> {}" if "asleep (took_turn i k r s) \<noteq> {}"
    using that unfolding took_turn_def asleep_moved
    by (cases out) (auto simp: r next_pc_def asleep_def split: if_splits)
  moreover have "until \<le> sy_now s + 1"
    if "sy_pcs (took_turn i k r s) j = Some (Asleep m until)" for j m until
    using that assms(1) unfolding rested_def
    by (cases "j = i"; cases out) (auto simp: r system_simps next_pc_def)
  ultimately show ?thesis
    unfolding rested_def by (auto simp: system_simps r)
qed

lemma rested_step:
  assumes "pool_step s t" and "rested s" and "counted s" and "1 \<le> pl_max_workers (sy_pool s)"
  shows "rested t"
  using assms
proof (induction rule: pool_step.induct)
  case (enter s i k)
  have "0 \<le> pl_waiting (sy_pool s)" "0 \<le> pl_starting (sy_pool s)"
    using enter(3) by (simp_all add: counted_def)
  then show ?case
    using enter(4) unfolding acquire_enter_def by (intro rested_turn [OF enter(2) refl]) simp_all
next
  case (wake s i k)
  then have "i \<in> waiters (sy_pcs s)"
    by (simp add: waiters_in_loop)
  then have "0 < pl_waiting (sy_pool s)" "0 \<le> pl_starting (sy_pool s)"
    using wake(3) by (auto simp: counted_def card_gt_0_iff)
  then show ?case
    using wake(4) by (intro rested_turn [OF wake(2) refl]) simp_all
next
  case (call s i)
  then show ?case by (intro rested_fewer [OF call(2)]) (auto simp: system_simps split: if_splits)
next
  case (times_out s i k until)
  then show ?case by (intro rested_fewer [OF times_out(3)]) (auto simp: system_simps split: if_splits)
next
  case (sent s i k w threads)
  then show ?case by (intro rested_fewer [OF sent(2)]) (auto simp: system_simps split: if_splits)
next
  case (kills s i w k)
  then show ?case
    by (intro rested_fewer [OF kills(2)])
      (auto simp: system_simps after_kill_def after_lost_def split: if_splits option.splits)
next
  case (lock_fallback s i)
  then show ?case by (intro rested_fewer [OF lock_fallback(3)]) (auto simp: system_simps split: if_splits)
next
  case (unlock_fallback s i)
  then show ?case by (intro rested_fewer [OF unlock_fallback(2)]) (auto simp: system_simps split: if_splits)
next
  case (tick d s)
  then show ?case by (intro rested_fewer [OF tick(2)]) auto
next
  case (replied s i w p idle out)
  then show ?case by (intro rested_none) (simp add: asleep_moved)
qed (auto intro: rested_none rested_fewer simp: system_simps)

text \<open>Whatever the step, a call that sleeps through it has missed nothing.\<close>

lemma sleep_through:
  assumes "pool_step s t" and "rested s" and "i \<in> asleep s" and "i \<in> asleep t"
  shows "pl_workers (sy_pool t) = pl_workers (sy_pool s) \<and> \<not> pl_closed (sy_pool t) \<and> spawning s \<le> spawning t"
proof -
  have hope: "hopeful (sy_pool s)"
    using assms(2,3) by (auto simp: rested_def)
  have turn: "pl_workers (fst r) = pl_workers (sy_pool s) \<and> \<not> pl_closed (fst r)"
    if "acquire_turn alive now (sy_pool s\<lparr>pl_waiting := n\<rparr>) = r" for alive now n r
  proof -
    have "hopeful (sy_pool s\<lparr>pl_waiting := n\<rparr>)"
      using hope by (simp add: hopeful_def)
    then show ?thesis
      using hopeful_turn [of alive now "sy_pool s\<lparr>pl_waiting := n\<rparr>" "fst r" "snd r"] that
      by (auto simp: hopeful_def)
  qed
  have still_open: "\<not> pl_closed (sy_pool s)"
    using hope by (simp add: hopeful_def)
  show ?thesis
    using assms(1)
  proof (cases rule: pool_step.cases)
    case (enter j k)
    then show ?thesis
      using turn [of "sy_alive s" "sy_now s" "pl_waiting (sy_pool s) + 1"]
      by (simp add: system_simps spawning_turn acquire_enter_def)
  next
    case (wake j k)
    then show ?thesis
      using turn [of "sy_alive s" "sy_now s" "pl_waiting (sy_pool s)"]
      by (simp add: system_simps spawning_turn)
  next
    case (replied j w p idle out)
    then show ?thesis using assms(4) by (simp add: asleep_moved)
  next
    case (launches n)
    then show ?thesis using still_open by (simp add: spawning_def)
  next
    case (launch_fails n)
    then show ?thesis using still_open by (simp add: spawning_def)
  next
    case (boot_fails w)
    then have "Suc (length (remove1 w (sy_booting s))) = length (sy_booting s)"
      by (simp add: remove1_shorter)
    then show ?thesis using boot_fails still_open by (simp add: spawning_def)
  qed (use assms(4) still_open in \<open>simp_all add: system_simps\<close>)
qed

section \<open>Frames and the fallback lock\<close>

fun delivered_to :: "pc \<Rightarrow> nat option" where
  "delivered_to (Receiving w) = Some w"
| "delivered_to (Killing w None) = Some w"
| "delivered_to (Done (AnsweredBy w)) = Some w"
| "delivered_to (Done (RaisedIn w)) = Some w"
| "delivered_to (Done (Crashed w)) = Some w"
| "delivered_to _ = None"

definition frames_of :: "nat \<Rightarrow> system \<Rightarrow> nat list" where
  \<comment> \<open>the workers a thread's frame reached\<close>
  "frames_of i s = map snd (filter (\<lambda>f. fst f = i) (sy_frames s))"

definition delivered :: "system \<Rightarrow> nat \<Rightarrow> nat list" where
  "delivered s i =
     (case Option.bind (sy_pcs s i) delivered_to of None \<Rightarrow> [] | Some w \<Rightarrow> [w])"

definition framed :: "system \<Rightarrow> bool" where
  "framed s \<longleftrightarrow> (\<forall>i. frames_of i s = delivered s i)"

lemma delivered_to_next [simp]:
  "delivered_to (next_pc c k out) = None" "delivered_to (after_lost k) = None"
  "delivered_to (after_kill w None) = Some w" "delivered_to (after_kill w (Some k)) = None"
  by (cases out; simp add: next_pc_def) (simp_all add: after_lost_def after_kill_def)

lemma delivered_to_woken [simp]: "delivered_to (woken pc) = delivered_to pc"
  by (cases pc) simp_all

lemma bind_woken [simp]: "Option.bind (map_option woken x) delivered_to = Option.bind x delivered_to"
  by (cases x) simp_all

lemma framed_moved:
  assumes "framed s" and "sy_frames u = sy_frames s" and "sy_pcs u = sy_pcs s"
    and "delivered_to pc = Option.bind (sy_pcs s i) delivered_to"
  shows "framed (moved i pc u)"
  using assms by (auto simp: framed_def frames_of_def delivered_def system_simps)

lemma framed_same:
  "framed s \<Longrightarrow> sy_frames t = sy_frames s \<Longrightarrow> sy_pcs t = sy_pcs s \<Longrightarrow> framed t"
  by (simp add: framed_def frames_of_def delivered_def)

lemma framed_notified [simp]: "framed (notify_all s) = framed s"
  by (simp add: framed_def frames_of_def delivered_def system_simps)

lemma framed_stopping [simp]: "framed (stopping ws s) = framed s" "framed (stopper_at j st s) = framed s"
  by (auto simp: framed_def frames_of_def delivered_def system_simps)

lemma framed_pool [simp]: "framed (s\<lparr>sy_pool := p\<rparr>) = framed s"
  by (simp add: framed_def frames_of_def delivered_def)

lemma framed_lose:
  assumes "framed s" and "delivered_to (Killing w k) = Option.bind (sy_pcs s i) delivered_to"
  shows "framed (lose w k i s)"
  unfolding lose_def using assms
  by (intro framed_moved [where s = "notify_all (s\<lparr>sy_pool := lost w (sy_pool s)\<rparr>)"])
    (simp_all add: system_simps)

lemma framed_step:
  assumes "pool_step s t" and "framed s"
  shows "framed t"
  using assms
proof (induction rule: pool_step.induct)
  case (sent s i k w threads)
  then have "frames_of i s = []"
    by (simp add: framed_def delivered_def)
  then show ?case
    using sent by (auto simp: framed_def frames_of_def delivered_def system_simps)
next
  case (replied s i w p idle out)
  have "framed (notify_all (s\<lparr>sy_pool := p\<rparr>))"
    using replied(4) by simp
  then have "framed (moved i (Done out) (notify_all (s\<lparr>sy_pool := p\<rparr>)))"
    by (rule framed_moved) (use replied in \<open>auto simp: system_simps\<close>)
  then show ?case by simp
next
  case (enter s i k)
  then show ?case unfolding took_turn_def by (intro framed_moved [OF enter(2)]) auto
next
  case (wake s i k)
  then show ?case unfolding took_turn_def by (intro framed_moved [OF wake(2)]) auto
next
  case (times_out s i k until)
  then show ?case by (intro framed_moved [OF times_out(3)]) auto
next
  case (call s i)
  then show ?case by (intro framed_moved [OF call(2)]) auto
next
  case (send_fails s i k w threads)
  then show ?case by (intro framed_lose) auto
next
  case (receive_fails s i w)
  then show ?case by (intro framed_lose) auto
next
  case (kills s i w k)
  then show ?case by (intro framed_moved [OF kills(2)]) (cases k; auto)+
next
  case (lock_fallback s i)
  then show ?case by (intro framed_moved [OF lock_fallback(3)]) auto
next
  case (unlock_fallback s i)
  then show ?case by (intro framed_moved [OF unlock_fallback(2)]) auto
next
  case (tells j s w ws)
  then show ?case by (auto intro: framed_same)
next
  case (insists j s w until ws)
  then show ?case by (auto intro: framed_same)
next
  case (start_fails s n)
  then show ?case by (auto intro: framed_same)
next
  case (ready w s p stale)
  then show ?case by (auto intro: framed_same)
qed (auto intro: framed_same)

lemma fallback_moved:
  assumes "fallback_held s" and "sy_fallback u = sy_fallback s" and "sy_pcs u = sy_pcs s"
    and "pc \<noteq> InFallback" and "sy_pcs s i \<noteq> Some InFallback"
  shows "fallback_held (moved i pc u)"
  using assms by (simp add: fallback_held_def system_simps)

lemma fallback_same:
  "fallback_held s \<Longrightarrow> sy_fallback t = sy_fallback s \<Longrightarrow> sy_pcs t = sy_pcs s \<Longrightarrow> fallback_held t"
  by (simp add: fallback_held_def)

lemma woken_in_fallback [simp]: "woken pc = InFallback \<longleftrightarrow> pc = InFallback"
  by (cases pc) simp_all

lemma fallback_notified [simp]: "fallback_held (notify_all s) = fallback_held s"
  by (simp add: fallback_held_def system_simps)

lemma fallback_stopping [simp]:
  "fallback_held (stopping ws s) = fallback_held s" "fallback_held (stopper_at j st s) = fallback_held s"
  "fallback_held (s\<lparr>sy_pool := p\<rparr>) = fallback_held s"
  by (simp_all add: fallback_held_def system_simps)

lemma never_in_fallback [simp]:
  "next_pc c k out \<noteq> InFallback" "after_lost k \<noteq> InFallback" "after_kill w j \<noteq> InFallback"
  by (auto simp: next_pc_def after_lost_def after_kill_def split: turn.splits option.splits)

lemma fallback_lose:
  assumes "fallback_held s" and "sy_pcs s i \<noteq> Some InFallback"
  shows "fallback_held (lose w k i s)"
  unfolding lose_def using assms
  by (intro fallback_moved [where s = "notify_all (s\<lparr>sy_pool := lost w (sy_pool s)\<rparr>)"])
    (simp_all only: fallback_notified fallback_stopping, auto simp: system_simps)

lemma fallback_step:
  assumes "pool_step s t" and "fallback_held s"
  shows "fallback_held t"
  using assms
proof (induction rule: pool_step.induct)
  case (call s i)
  then show ?case by (intro fallback_moved [OF call(2)]) auto
next
  case (enter s i k)
  then show ?case unfolding took_turn_def by (intro fallback_moved [OF enter(2)]) auto
next
  case (wake s i k)
  then show ?case unfolding took_turn_def by (intro fallback_moved [OF wake(2)]) auto
next
  case (times_out s i k until)
  then show ?case by (intro fallback_moved [OF times_out(3)]) auto
next
  case (sent s i k w threads)
  then show ?case by (intro fallback_moved [OF sent(2)]) auto
next
  case (send_fails s i k w threads)
  then show ?case by (intro fallback_lose) auto
next
  case (replied s i w p idle out)
  have "fallback_held (notify_all (s\<lparr>sy_pool := p\<rparr>))"
    using replied(4) by simp
  then have "fallback_held (moved i (Done out) (notify_all (s\<lparr>sy_pool := p\<rparr>)))"
    by (rule fallback_moved) (use replied(1) in \<open>auto simp: system_simps\<close>)
  then show ?case by simp
next
  case (receive_fails s i w)
  then show ?case by (intro fallback_lose) auto
next
  case (kills s i w k)
  then show ?case by (intro fallback_moved [OF kills(2)]) auto
next
  case (lock_fallback s i)
  then show ?case by (auto simp: fallback_held_def system_simps)
next
  case (unlock_fallback s i)
  then show ?case by (auto simp: fallback_held_def system_simps)
next
  case (start_fails s n)
  then show ?case by (auto intro: fallback_same)
next
  case (ready w s p stale)
  then show ?case by (auto intro: fallback_same)
next
  case (tells j s w ws)
  then show ?case by (auto intro: fallback_same)
next
  case (insists j s w until ws)
  then show ?case by (auto intro: fallback_same)
qed (auto intro: fallback_same)

section \<open>Reachable states\<close>

definition pool_inv :: "int \<Rightarrow> system \<Rightarrow> bool" where
  "pool_inv m s \<longleftrightarrow>
     checkout s \<and> known s \<and> accounted s \<and> counted s \<and> rested s \<and> framed s \<and> fallback_held s \<and>
     pl_max_workers (sy_pool s) = max 1 m"

lemma pool_inv_init: "pool_inv m (init_system m timeout cores now)"
  by (simp add: pool_inv_def init_system_def mk_pool_def checkout_def checked_out_def held_def
      known_def accounted_def counted_def spawning_def rested_def asleep_def framed_def frames_of_def
      delivered_def fallback_held_def ids_def waiters_def spawn_locked_def)

lemma acquire_turn_max: "pl_max_workers (fst (acquire_turn alive now p)) = pl_max_workers p"
proof -
  obtain p' out where r: "acquire_turn alive now p = (p', out)"
    by fastforce
  then have "pl_max_workers p' = pl_max_workers p"
    by (cases rule: acquire_turn_cases) simp_all
  then show ?thesis
    by (simp add: r)
qed

lemma max_workers_step:
  assumes "pool_step s t"
  shows "pl_max_workers (sy_pool t) = pl_max_workers (sy_pool s)"
  using assms
proof (induction rule: pool_step.induct)
  case (enter s i k)
  then show ?case by (simp add: system_simps acquire_enter_def acquire_turn_max)
next
  case (wake s i k)
  then show ?case by (simp add: system_simps acquire_turn_max)
next
  case (replied s i w p idle out)
  then show ?case using reap_props(4) by (fastforce simp: release_def system_simps)
next
  case (ready w s p stale)
  then show ?case by (auto simp: spawn_succeeds_def Let_def system_simps split: if_splits)
next
  case (close s p ws)
  then show ?case by (auto simp: close_pool_def system_simps)
qed (simp_all add: system_simps)

lemma reachable_inv: "pool_reachable m timeout cores s \<Longrightarrow> pool_inv m s"
proof (induction rule: pool_reachable.induct)
  case (started now)
  show ?case by (rule pool_inv_init)
next
  case (stepped s t)
  then show ?case
    by (auto simp: pool_inv_def max_workers_step
        intro: checkout_step known_step accounted_step counted_step rested_step framed_step fallback_step)
qed

section \<open>A closed pool\<close>

lemma acquire_turn_closed:
  assumes "pl_closed p"
  shows "acquire_turn alive now p = (p\<lparr>pl_waiting := pl_waiting p - 1\<rparr>, Stopping)"
    "acquire_enter alive now p = (p, Stopping)"
  using assms by (simp_all add: acquire_enter_def acquire_turn_def acquire_pass_def)

lemma closed_step:
  assumes "pool_step s t" and "pl_closed (sy_pool s)"
  shows "pl_closed (sy_pool t)"
  using assms
proof (induction rule: pool_step.induct)
  case (replied s i w p idle out)
  then show ?case using release_ids(3) [OF replied(2)] by (simp add: system_simps)
next
  case (ready w s p stale)
  then show ?case by (auto simp: spawn_succeeds_def system_simps)
next
  case (close s p ws)
  then show ?case by (auto simp: close_pool_def system_simps)
qed (simp_all add: system_simps acquire_turn_closed)

lemma closed_boot_ends:
  \<comment> \<open>a process that was starting when the pool closed does not join it: it is killed, or stopped\<close>
  assumes "pool_step s t" and "pl_closed (sy_pool s)" and "w \<in> set (sy_booting s)"
    and "w \<notin> set (sy_booting t)"
  shows "w \<in> to_stop (sy_stoppers t) \<union> sy_killed t"
  using assms
proof (induction rule: pool_step.induct)
  case (boot_fails v s)
  then show ?case using in_set_remove1 [of w v "sy_booting s"] by auto
next
  case (ready v s p stale)
  then have "v = w"
    using in_set_remove1 [of w v "sy_booting s"] by (auto simp: system_simps)
  moreover have "stale = [mk_worker v (sy_now s)]"
    using ready(2,3) by (simp add: spawn_succeeds_def split: if_splits)
  ultimately show ?case by (simp add: mk_worker_def)
qed (auto simp: system_simps)

end
