(* ===== verification/Serve_Properties.thy ===== *)
theory Serve_Properties
  imports Serve_Pool_Laws
begin

text \<open>
  The numbered properties of the worker pool, over every state its threads can reach, and a
  run of two calls and one worker that the witnesses use.
\<close>

section \<open>A run\<close>

text \<open>A pool of at most two workers: the first is ready and has the frame of thread 0; thread 1
  sleeps, and a second worker is being started.  Then the pool is closed.\<close>

definition one_ready :: system where
  "one_ready = (let s = init_system 2 10 4 0
     in notify_all (s\<lparr>sy_pool := fst (spawn_succeeds (mk_worker 0 0) (sy_pool s)),
          sy_launching := 0, sy_next := 1, sy_alive := {0}\<rparr>))"

definition one_busy :: system where
  "one_busy = (let s = moved 0 (Calling 0) one_ready
     in took_turn 0 0 (acquire_enter (sy_alive s) (sy_now s) (sy_pool s)) s)"

definition one_waits :: system where
  "one_waits = (let s = moved 1 (Calling 0) one_busy
     in took_turn 1 0 (acquire_enter (sy_alive s) (sy_now s) (sy_pool s)) s)"

definition one_solves :: system where
  "one_solves = moved 0 (Receiving 0) (one_waits\<lparr>sy_frames := sy_frames one_waits @ [(0, 0)]\<rparr>)"

definition all_closed :: system where
  "all_closed = stopping (map wk_id (snd (close_pool (sy_pool one_solves))))
     (notify_all (one_solves\<lparr>sy_pool := fst (close_pool (sy_pool one_solves))\<rparr>))"

definition all_told :: system where
  \<comment> \<open>the second worker could not be started, and the first is being stopped\<close>
  "all_told = (let s = all_closed\<lparr>sy_launching := 0, sy_failing := Suc (sy_failing all_closed)\<rparr>
     in stopper_at 0 (Leaving 0 (sy_now s + close_wait) []) (s\<lparr>sy_told := insert 0 (sy_told s)\<rparr>))"

lemmas run_defs = one_ready_def init_system_def mk_pool_def spawn_locked_def mk_worker_def
  spawn_succeeds_def notify_all_def

lemmas turn_defs = took_turn_def moved_def acquire_enter_def acquire_turn_def acquire_pass_def
  discard_dead_def on_worker_def backing_off_def next_pc_def spawn_locked_def

lemma one_ready_eq:
  "one_ready =
     \<lparr>sy_pool = \<lparr>pl_max_workers = 2, pl_idle_timeout = 10, pl_cores = 4,
        pl_workers = [\<lparr>wk_id = 0, wk_busy = False, wk_last_used = 0, wk_answered = 0\<rparr>],
        pl_starting = 0, pl_waiting = 0, pl_closed = False, pl_spawn_failed_at = None, pl_spawned = 1\<rparr>,
      sy_pcs = Map.empty, sy_launching = 0, sy_booting = [], sy_failing = 0, sy_stoppers = [],
      sy_next = 1, sy_alive = {0}, sy_told = {}, sy_killed = {}, sy_now = 0, sy_fallback = None,
      sy_frames = []\<rparr>"
  by (simp add: run_defs Let_def fun_eq_iff)

lemma one_waits_eq:
  "one_waits =
     \<lparr>sy_pool = \<lparr>pl_max_workers = 2, pl_idle_timeout = 10, pl_cores = 4,
        pl_workers = [\<lparr>wk_id = 0, wk_busy = True, wk_last_used = 0, wk_answered = 0\<rparr>],
        pl_starting = 1, pl_waiting = 1, pl_closed = False, pl_spawn_failed_at = None, pl_spawned = 1\<rparr>,
      sy_pcs = [0 \<mapsto> Sending 0 0 None, 1 \<mapsto> Asleep 0 1],
      sy_launching = 1, sy_booting = [], sy_failing = 0, sy_stoppers = [],
      sy_next = 1, sy_alive = {0}, sy_told = {}, sy_killed = {}, sy_now = 0, sy_fallback = None,
      sy_frames = []\<rparr>"
  unfolding one_waits_def one_busy_def one_ready_eq
  by (simp add: turn_defs Let_def thread_budget_def)

lemma one_ready_fields: "sy_pcs one_ready = Map.empty"
  by (simp add: one_ready_eq)

lemma one_busy_pc: "sy_pcs one_busy = [0 \<mapsto> Sending 0 0 None]"
  unfolding one_busy_def one_ready_eq by (simp add: turn_defs Let_def thread_budget_def)

lemma one_waits_pc: "sy_pcs one_waits = [0 \<mapsto> Sending 0 0 None, 1 \<mapsto> Asleep 0 1]"
  by (simp add: one_waits_eq)

lemma all_closed_fields:
  "sy_launching all_closed = 1" "sy_booting all_closed = []" "sy_failing all_closed = 0"
  "sy_stoppers all_closed = [ToStop [0]]" "sy_alive all_closed = {0}" "sy_told all_closed = {}"
  "sy_killed all_closed = {}" "pl_closed (sy_pool all_closed)"
  "sy_pcs all_closed = [0 \<mapsto> Receiving 0, 1 \<mapsto> Awake 0]"
  unfolding all_closed_def one_solves_def one_waits_eq
  by (simp_all add: moved_def close_pool_def stopping_def notify_all_def fun_eq_iff)

lemma reach_one_ready: "pool_reachable 2 10 4 one_ready"
proof -
  let ?s = "init_system 2 10 4 0"
  let ?u = "?s\<lparr>sy_launching := 0, sy_booting := sy_booting ?s @ [sy_next ?s],
      sy_next := Suc (sy_next ?s), sy_alive := insert (sy_next ?s) (sy_alive ?s)\<rparr>"
  have "pool_reachable 2 10 4 ?s"
    by (rule pool_reachable.started)
  moreover have "sy_launching ?s = Suc 0"
    by (simp add: init_system_def)
  ultimately have u: "pool_reachable 2 10 4 ?u"
    by (blast intro: pool_reachable.stepped pool_step.launches)
  have "0 \<in> set (sy_booting ?u)"
    "spawn_succeeds (mk_worker 0 (sy_now ?u)) (sy_pool ?u) =
      (fst (spawn_succeeds (mk_worker 0 0) (sy_pool ?s)), [])"
    by (simp_all add: run_defs Let_def)
  from pool_reachable.stepped [OF u pool_step.ready [OF this]] show ?thesis
    by (simp add: one_ready_def stopping_def init_system_def)
qed

lemma reach_call:
  assumes "pool_reachable m timeout cores s" and "sy_pcs s i = None"
  shows "pool_reachable m timeout cores
    (let u = moved i (Calling 0) s in took_turn i 0 (acquire_enter (sy_alive u) (sy_now u) (sy_pool u)) u)"
proof -
  have "pool_reachable m timeout cores (moved i (Calling 0) s)"
    using assms by (blast intro: pool_reachable.stepped pool_step.call)
  moreover have "sy_pcs (moved i (Calling 0) s) i = Some (Calling 0)"
    by (simp add: system_simps)
  ultimately show ?thesis
    unfolding Let_def by (blast intro: pool_reachable.stepped pool_step.enter)
qed

lemma reach_one_waits: "pool_reachable 2 10 4 one_waits"
proof -
  have "pool_reachable 2 10 4 one_busy"
    unfolding one_busy_def using reach_call [OF reach_one_ready] by (simp add: one_ready_fields)
  then show ?thesis
    unfolding one_waits_def using reach_call [of 2 10 4 one_busy 1] by (simp add: one_busy_pc)
qed

lemma reach_one_solves: "pool_reachable 2 10 4 one_solves"
proof -
  have "sy_pcs one_waits 0 = Some (Sending 0 0 None)"
    by (simp add: one_waits_pc)
  then show ?thesis
    unfolding one_solves_def
    using pool_reachable.stepped [OF reach_one_waits pool_step.sent] by blast
qed

lemma reach_all_closed: "pool_reachable 2 10 4 all_closed"
  unfolding all_closed_def
  by (rule pool_reachable.stepped [OF reach_one_solves pool_step.close]) simp

lemma reach_all_told: "pool_reachable 2 10 4 all_told"
proof -
  let ?s = "all_closed\<lparr>sy_launching := 0, sy_failing := Suc (sy_failing all_closed)\<rparr>"
  have "pool_reachable 2 10 4 ?s"
    by (rule pool_reachable.stepped [OF reach_all_closed pool_step.launch_fails])
      (simp add: all_closed_fields)
  then show ?thesis
    unfolding all_told_def Let_def
    by (rule pool_reachable.stepped [OF _ pool_step.tells]) (simp_all add: all_closed_fields)
qed

section \<open>Properties\<close>

text \<open>C19: Workers are checked out to one call at a time.  In every reachable state no two threads
  have the same worker, a listed worker is marked busy exactly when a thread has it, the workers
  listed and being started are no more than the cap, and the counters of starting workers and
  waiting calls are the numbers of those.\<close>

theorem pool_checkout_exclusive:
  assumes "pool_reachable m timeout cores s"
  shows "(\<forall>i j w. \<not> (held (sy_pcs s) i = Some w \<and> held (sy_pcs s) j = Some w \<and> i \<noteq> j)) \<and>
    list_all (\<lambda>w. wk_busy w = (\<exists>i. held (sy_pcs s) i = Some (wk_id w))) (pl_workers (sy_pool s)) \<and>
    int (length (pl_workers (sy_pool s))) + int (spawning s) \<le> max 1 m \<and>
    pl_starting (sy_pool s) = int (spawning s) \<and>
    pl_waiting (sy_pool s) =
      int (card {i. \<exists>k until. sy_pcs s i = Some (Asleep k until) \<or> sy_pcs s i = Some (Awake k)})"
proof -
  have "checkout s" "counted s" "pl_max_workers (sy_pool s) = max 1 m"
    using reachable_inv [OF assms] by (auto simp: pool_inv_def)
  then show ?thesis
    unfolding checkout_def checked_out_def counted_def waiters_def list_all_iff by auto
qed

theorem pool_checkout_exclusive_witness:
  "held (sy_pcs one_solves) 0 = Some 0 \<and> held (sy_pcs one_solves) 1 \<noteq> Some 0 \<and>
   int (length (pl_workers (sy_pool one_solves))) + int (spawning one_solves) \<le> 2"
proof -
  have "held (sy_pcs one_solves) 0 = Some 0"
    by (simp add: one_solves_def system_simps)
  then show ?thesis
    using pool_checkout_exclusive [OF reach_one_solves] by auto
qed

text \<open>C20: A frame is solved at most once.  In every reachable state the frame of a call has reached
  no worker while the call is still looking for one, and exactly the worker that answers it, that
  raised, or that was lost while solving it, otherwise.  A call that is told the server is stopping,
  that gave up after three attempts, or that was answered in this process, reached none.\<close>

theorem frame_reaches_one_worker:
  assumes "pool_reachable m timeout cores s" and "sy_pcs s i = Some pc"
  shows "map snd (filter (\<lambda>f. fst f = i) (sy_frames s)) =
    (case pc of
       Receiving w \<Rightarrow> [w]
     | Killing w None \<Rightarrow> [w]
     | Done (AnsweredBy w) \<Rightarrow> [w]
     | Done (RaisedIn w) \<Rightarrow> [w]
     | Done (Crashed w) \<Rightarrow> [w]
     | _ \<Rightarrow> [])"
proof -
  have "framed s"
    using reachable_inv [OF assms(1)] by (simp add: pool_inv_def)
  then show ?thesis
    using assms(2)
    by (auto simp: framed_def frames_of_def delivered_def split: pc.splits outcome.splits option.splits)
qed

theorem frame_reaches_one_worker_witness:
  "map snd (filter (\<lambda>f. fst f = 0) (sy_frames one_solves)) = [0]"
  using frame_reaches_one_worker [OF reach_one_solves, of 0 "Receiving 0"]
  by (simp add: one_solves_def system_simps)

text \<open>C22: No process is left behind.  In every reachable state a worker process that is alive is
  listed by the pool, or is starting under a spawn thread, or is among those a thread has yet to
  stop, or is about to be killed by the call that lost it, or has been told to leave or killed.  A
  closed pool lists no worker and stays so, refuses every call, and a process that was starting does
  not join it: when its spawn thread is through with it, it has been killed or is to be stopped.  So
  once no thread of a closed pool has a process left to start, stop or kill, every process still
  alive has been told to leave or killed.\<close>

theorem closed_pool_keeps_no_worker:
  assumes "pool_reachable m timeout cores s"
  shows "(\<forall>w \<in> sy_alive s. w \<in> wk_id ` set (pl_workers (sy_pool s)) \<or> w \<in> set (sy_booting s) \<or>
      (\<exists>st \<in> set (sy_stoppers s). w \<in> pending st) \<or> (\<exists>i k. sy_pcs s i = Some (Killing w k)) \<or>
      w \<in> sy_told s \<or> w \<in> sy_killed s) \<and>
    (pl_closed (sy_pool s) \<longrightarrow>
      pl_workers (sy_pool s) = [] \<and>
      (\<forall>alive now. snd (acquire_enter alive now (sy_pool s)) = Stopping \<and>
        snd (acquire_turn alive now (sy_pool s)) = Stopping) \<and>
      (\<forall>t. pool_step s t \<longrightarrow> pl_closed (sy_pool t) \<and>
        (\<forall>w \<in> set (sy_booting s) - set (sy_booting t).
          w \<in> sy_killed t \<or> (\<exists>st \<in> set (sy_stoppers t). w \<in> pending st))) \<and>
      (sy_booting s = [] \<and> (\<forall>st \<in> set (sy_stoppers s). pending st = {}) \<and>
       (\<forall>i w k. sy_pcs s i \<noteq> Some (Killing w k)) \<longrightarrow> sy_alive s \<subseteq> sy_told s \<union> sy_killed s))"
    (is "?cared \<and> (?closed \<longrightarrow> ?unlisted \<and> ?refused \<and> ?stays \<and> (?quiet \<longrightarrow> ?gone))")
proof -
  have acc: "accounted s"
    using reachable_inv [OF assms] by (simp add: pool_inv_def)
  have cared: ?cared
  proof
    fix w
    assume "w \<in> sy_alive s"
    then have "w \<in> cared_for s"
      using acc by (auto simp: accounted_def)
    then show "w \<in> wk_id ` set (pl_workers (sy_pool s)) \<or> w \<in> set (sy_booting s) \<or>
        (\<exists>st \<in> set (sy_stoppers s). w \<in> pending st) \<or> (\<exists>i k. sy_pcs s i = Some (Killing w k)) \<or>
        w \<in> sy_told s \<or> w \<in> sy_killed s"
      by (simp add: cared_for_def ids_def to_stop_def losing_def)
  qed
  have unlisted: ?unlisted if ?closed
    using acc that by (simp add: accounted_def)
  have refused: ?refused if ?closed
    using that by (simp add: acquire_turn_closed)
  have ended: "w \<in> sy_killed t \<or> (\<exists>st \<in> set (sy_stoppers t). w \<in> pending st)"
    if ?closed "pool_step s t" "w \<in> set (sy_booting s) - set (sy_booting t)" for t w
    using closed_boot_ends [OF that(2,1), of w] that(3) by (auto simp: to_stop_def)
  have stays: ?stays if ?closed
  proof (intro allI impI)
    fix t
    assume t: "pool_step s t"
    show "pl_closed (sy_pool t) \<and> (\<forall>w \<in> set (sy_booting s) - set (sy_booting t).
        w \<in> sy_killed t \<or> (\<exists>st \<in> set (sy_stoppers t). w \<in> pending st))"
      using closed_step [OF t that] ended [OF that t] by blast
  qed
  have gone: "?quiet \<longrightarrow> ?gone" if ?closed
  proof (intro impI subsetI)
    fix w
    assume quiet: ?quiet and "w \<in> sy_alive s"
    with cared show "w \<in> sy_told s \<union> sy_killed s"
      using unlisted [OF that] by (elim ballE) auto
  qed
  show ?thesis
    by (intro conjI cared, rule impI, intro conjI unlisted refused stays gone)
qed

theorem closed_pool_keeps_no_worker_witness:
  "pl_closed (sy_pool all_told) \<and> sy_alive all_told = {0} \<and> sy_alive all_told \<subseteq> sy_told all_told \<union> sy_killed all_told"
proof -
  have fields: "pl_closed (sy_pool all_told)" "sy_alive all_told = {0}" "sy_booting all_told = []"
    "\<forall>st \<in> set (sy_stoppers all_told). pending st = {}" "\<forall>i w k. sy_pcs all_told i \<noteq> Some (Killing w k)"
    by (simp_all add: all_told_def system_simps all_closed_fields)
  then show ?thesis
    using closed_pool_keeps_no_worker [OF reach_all_told] by blast
qed

text \<open>C21: No call sleeps through what it waits for.  While a call is asleep in the wait of
  _acquire, the pool is open, every listed worker is with another call, and there is one or one is
  being started.  Whatever step any thread takes, a call that sleeps on has missed nothing: the same
  workers are listed, the pool is open, and no fewer workers are being started.  So the return of a
  worker, its loss, a new worker, a failed start and the closing of the pool each wake it, and
  otherwise it sleeps for a second at most.\<close>

theorem waiting_call_is_awaited:
  assumes "pool_reachable m timeout cores s" and "sy_pcs s i = Some (Asleep k until)"
  shows "\<not> pl_closed (sy_pool s) \<and>
    (\<forall>w \<in> set (pl_workers (sy_pool s)). \<exists>j. j \<noteq> i \<and> held (sy_pcs s) j = Some (wk_id w)) \<and>
    (pl_workers (sy_pool s) \<noteq> [] \<or> 0 < spawning s) \<and>
    until \<le> sy_now s + 1 \<and>
    (\<forall>t. pool_step s t \<and> sy_pcs t i = Some (Asleep k until) \<longrightarrow>
      pl_workers (sy_pool t) = pl_workers (sy_pool s) \<and> \<not> pl_closed (sy_pool t) \<and> spawning s \<le> spawning t)"
    (is "?still_open \<and> ?taken \<and> ?some \<and> ?soon \<and> ?missed")
proof -
  have inv: "checkout s" "counted s" "rested s"
    using reachable_inv [OF assms(1)] by (auto simp: pool_inv_def)
  have sleeps: "i \<in> asleep s"
    using assms(2) by (auto simp: asleep_def)
  have hope: "hopeful (sy_pool s)"
    using inv(3) sleeps by (auto simp: rested_def)
  have taken: ?taken
  proof
    fix w
    assume w: "w \<in> set (pl_workers (sy_pool s))"
    then have "wk_busy w"
      using hope by (simp add: hopeful_def)
    then obtain j where "held (sy_pcs s) j = Some (wk_id w)"
      using inv(1) w unfolding checkout_def checked_out_def by blast
    moreover from this have "j \<noteq> i"
      using assms(2) by (auto simp: held_def)
    ultimately show "\<exists>j. j \<noteq> i \<and> held (sy_pcs s) j = Some (wk_id w)"
      by blast
  qed
  have some: ?still_open ?some
    using hope inv(2) by (auto simp: hopeful_def counted_def)
  have soon: ?soon
    using inv(3) assms(2) by (auto simp: rested_def)
  have missed: ?missed
  proof (intro allI impI)
    fix t
    assume t: "pool_step s t \<and> sy_pcs t i = Some (Asleep k until)"
    then have "i \<in> asleep t"
      by (auto simp: asleep_def)
    then show "pl_workers (sy_pool t) = pl_workers (sy_pool s) \<and> \<not> pl_closed (sy_pool t) \<and> spawning s \<le> spawning t"
      using t sleep_through [OF _ inv(3) sleeps] by blast
  qed
  show ?thesis
    by (intro conjI taken some soon missed)
qed

theorem waiting_call_is_awaited_witness:
  "sy_pcs one_waits 1 = Some (Asleep 0 1) \<and> \<not> pl_closed (sy_pool one_waits) \<and>
   (\<exists>j. j \<noteq> 1 \<and> held (sy_pcs one_waits) j = Some (wk_id (hd (pl_workers (sy_pool one_waits)))))"
proof -
  have pc: "sy_pcs one_waits 1 = Some (Asleep 0 1)"
    by (simp add: one_waits_pc)
  have "hd (pl_workers (sy_pool one_waits)) \<in> set (pl_workers (sy_pool one_waits))"
    by (simp add: one_waits_eq)
  then show ?thesis
    using waiting_call_is_awaited [OF reach_one_waits pc] pc by blast
qed

end
