(* ===== verification/Network_Spec.thy ===== *)
theory Network_Spec
  imports Pyfloat
begin

text \<open>
  The circuit around an antenna, \<open>src/src/momwire/networks/_spec.py\<close>: ports, branches and
  sources with the checks of their construction, the impedance of a load, and the validation
  of a whole network.  Element values are real numbers, so results are exact; Python's
  complex infinity, which the code uses as a marker, is a value of its own.  The core of a
  transformer and the data of a measured branch are objects of the caller: functions of the
  frequency.
\<close>

section \<open>Errors\<close>

datatype net_refusal = \<comment> \<open>a ValueError, by its sentence\<close>
    WireName
  | PortFraction
  | PortDistributed
  | EndName string
  | LoadFixedAndLegs
  | AdmittanceNoPort
  | AdmittanceShape nat
  | TouchstonePorts nat
  | BranchPaths nat nat
  | PortKey string string
  | BranchUnknownPort string
  | SourceFloating string
  | SourceUnknown string
  | NoSources
  | CommonModeOpen "string set"
  | TransformerRatio string string
  | AutotransformerCoupling real
  | AutotransformerSections real real
  | BalunRatio string
  | LoadOnVirtual string
  | SourcesClash "nat set"
  | CurrentThroughOpen nat
  | NoReference
  | CardKind string

datatype net_exn =
    Refused net_refusal
  | TypeRefused \<comment> \<open>TypeError\<close>
  | NotImplemented
  | DivisionByZero \<comment> \<open>ZeroDivisionError\<close>
  | UnknownName string \<comment> \<open>KeyError\<close>
  | UnknownNode nat \<comment> \<open>KeyError\<close>
  | Singular \<comment> \<open>SingularNetworkError\<close>
  | NotFinite \<comment> \<open>no exception: numpy made an infinity or a nan, which is not modelled further\<close>

definition divE :: "'a :: field \<Rightarrow> 'a \<Rightarrow> net_exn + 'a" where
  \<comment> \<open>Python's division\<close>
  "divE x y = (if y = 0 then Inl DivisionByZero else Inr (x / y))"

definition np_div :: "complex \<Rightarrow> complex \<Rightarrow> net_exn + complex" where
  \<comment> \<open>numpy's division\<close>
  "np_div x y = (if y = 0 then Inl NotFinite else Inr (x / y))"

datatype cvalue = Finite complex | CInf
  \<comment> \<open>a complex number, or \<open>complex(float("inf"), 0.0)\<close>\<close>

section \<open>Ports\<close>

record gap = \<comment> \<open>the fields of a port on a wire\<close>
  gap_name :: string
  gap_distributed :: bool
  gap_wire :: "string option"
  gap_at :: "flt option"

datatype port =
    PortOnWire gap
  | PortOnWireFloating gap
  | PortAtEnd string string
  | PortAtVertex string string
  | PortVirtual string

definition on_wire :: "port \<Rightarrow> bool" where
  \<comment> \<open>\<open>isinstance(port, PortOnWire)\<close>, of which the floating port is a subclass\<close>
  "on_wire p = (case p of PortOnWire _ \<Rightarrow> True | PortOnWireFloating _ \<Rightarrow> True | _ \<Rightarrow> False)"

definition is_floating :: "port \<Rightarrow> bool" where
  "is_floating p = (case p of PortOnWireFloating _ \<Rightarrow> True | _ \<Rightarrow> False)"

definition check_gap :: "gap \<Rightarrow> net_exn + unit" where
  "check_gap g =
     bindE (guardE (gap_wire g = Some []) (Refused WireName)) (\<lambda>_.
       case gap_at g of
         None \<Rightarrow> Inr ()
       | Some x \<Rightarrow>
           bindE (guardE (\<not> is_fin x \<or> \<not> (Fin 0 \<le> x \<and> x \<le> Fin 1)) (Refused PortFraction)) (\<lambda>_.
             guardE (gap_distributed g) (Refused PortDistributed)))"

definition mk_port :: "port \<Rightarrow> net_exn + port" where
  \<comment> \<open>the checks of construction\<close>
  "mk_port p =
     (case p of
        PortOnWire g \<Rightarrow> bindE (check_gap g) (\<lambda>_. Inr p)
      | PortOnWireFloating g \<Rightarrow> bindE (check_gap g) (\<lambda>_. Inr p)
      | PortAtEnd w e \<Rightarrow> if e \<in> {''p0'', ''p1''} then Inr p else Inl (Refused (EndName e))
      | PortAtVertex w e \<Rightarrow> if e \<in> {''p0'', ''p1''} then Inr p else Inl (Refused (EndName e))
      | PortVirtual n \<Rightarrow> Inr p)"

definition wire_name :: "gap \<Rightarrow> string" where
  "wire_name g = (case gap_wire g of None \<Rightarrow> gap_name g | Some w \<Rightarrow> w)"

section \<open>Branches\<close>

record cable =
  cb_z0 :: real
  cb_vf :: real
  cb_k1 :: real
  cb_k2 :: real

record tl =
  tl_a :: string
  tl_b :: string
  tl_z0 :: real
  tl_length :: real
  tl_transposed :: bool
  tl_vf :: real
  tl_k1 :: real
  tl_k2 :: real

datatype cable_arg = CableSpec cable | CableName string

definition from_cable :: "cable_arg \<Rightarrow> string \<Rightarrow> string \<Rightarrow> real \<Rightarrow> bool \<Rightarrow> net_exn + tl" where
  "from_cable c a b len transposed =
     (case c of
        CableName _ \<Rightarrow> Inl TypeRefused
      | CableSpec c \<Rightarrow>
          Inr \<lparr>tl_a = a, tl_b = b, tl_z0 = cb_z0 c, tl_length = len, tl_transposed = transposed,
               tl_vf = cb_vf c, tl_k1 = cb_k1 c, tl_k2 = cb_k2 c\<rparr>)"

record legs = \<comment> \<open>\<open>r\<close>, \<open>l\<close>, \<open>c\<close> and the two quality factors, each may be absent\<close>
  lg_r :: "real option"
  lg_l :: "real option"
  lg_c :: "real option"
  lg_ql :: "real option"
  lg_qc :: "real option"

record magnetizing =
  mg_lmag :: "real option"
  mg_qlmag :: "real option"
  mg_core :: "(real \<Rightarrow> complex) option" \<comment> \<open>its impedance at a frequency in MHz\<close>

record admittance_data =
  ad_nports :: nat
  ad_y_at :: "real \<Rightarrow> nat \<Rightarrow> nat \<Rightarrow> complex"

record balanced_line =
  bl_a1 :: string
  bl_a2 :: string
  bl_b1 :: string
  bl_b2 :: string
  bl_zdiff :: real
  bl_length :: real
  bl_vf :: real
  bl_k1 :: real
  bl_k2 :: real
  bl_zcomm :: "real option"

datatype branch =
    TL tl
  | Load string legs bool "complex option" \<comment> \<open>port, legs, parallel, fixed impedance\<close>
  | TwoPort string string legs
  | Shunt string legs bool
  | Transformer string string real "real option" magnetizing \<comment> \<open>a, b, ratio, winding resistance\<close>
  | Autotransformer string string real real real "real option" \<comment> \<open>tap, top, sections, k, Q\<close>
  | Admittance "string list" "complex list list"
  | TouchstoneLoad string admittance_data
  | TouchstoneTwoPort string string admittance_data
  | BalancedLine balanced_line
  | FloatingBalun string string string real "real option" magnetizing \<comment> \<open>primary, a, b, ratio\<close>

definition truthy :: "real option \<Rightarrow> bool" where
  \<comment> \<open>\<open>v not in (None, False)\<close> of a number: 0 equals False\<close>
  "truthy v = (case v of None \<Rightarrow> False | Some x \<Rightarrow> x \<noteq> 0)"

definition mk_branch :: "branch \<Rightarrow> net_exn + branch" where
  "mk_branch br =
     (case br of
        Load p lg par z \<Rightarrow>
          if z \<noteq> None \<and> (truthy (lg_r lg) \<or> truthy (lg_l lg) \<or> truthy (lg_c lg) \<or> par \<or>
               truthy (lg_ql lg) \<or> truthy (lg_qc lg))
          then Inl (Refused LoadFixedAndLegs) else Inr br
      | Admittance ps y \<Rightarrow>
          if length ps = 0 then Inl (Refused AdmittanceNoPort)
          else if length y \<noteq> length ps \<or> list_ex (\<lambda>row. length row \<noteq> length ps) y
          then Inl (Refused (AdmittanceShape (length ps))) else Inr br
      | TouchstoneLoad p d \<Rightarrow>
          if ad_nports d \<noteq> 1 then Inl (Refused (TouchstonePorts (ad_nports d))) else Inr br
      | TouchstoneTwoPort a b d \<Rightarrow>
          if ad_nports d \<noteq> 2 then Inl (Refused (TouchstonePorts (ad_nports d))) else Inr br
      | _ \<Rightarrow> Inr br)"

definition branch_port_refs :: "branch \<Rightarrow> string list" where
  "branch_port_refs br =
     (case br of
        Admittance ps y \<Rightarrow> ps
      | BalancedLine b \<Rightarrow> [bl_a1 b, bl_a2 b, bl_b1 b, bl_b2 b]
      | FloatingBalun p a b n r m \<Rightarrow> [p, a, b]
      | TL t \<Rightarrow> [tl_a t, tl_b t]
      | TwoPort a b lg \<Rightarrow> [a, b]
      | Transformer a b n r m \<Rightarrow> [a, b]
      | Autotransformer a b l u k q \<Rightarrow> [a, b]
      | TouchstoneTwoPort a b d \<Rightarrow> [a, b]
      | Load p lg par z \<Rightarrow> [p]
      | Shunt p lg par \<Rightarrow> [p]
      | TouchstoneLoad p d \<Rightarrow> [p])"

definition rewrite_branch :: "(string \<Rightarrow> string) \<Rightarrow> branch \<Rightarrow> net_exn + branch" where
  \<comment> \<open>\<open>replace\<close> constructs the copy, so its checks run again\<close>
  "rewrite_branch ren br =
     mk_branch (case br of
        Admittance ps y \<Rightarrow> Admittance (map ren ps) y
      | BalancedLine b \<Rightarrow>
          BalancedLine (b\<lparr>bl_a1 := ren (bl_a1 b), bl_a2 := ren (bl_a2 b),
                         bl_b1 := ren (bl_b1 b), bl_b2 := ren (bl_b2 b)\<rparr>)
      | FloatingBalun p a b n r m \<Rightarrow> FloatingBalun (ren p) (ren a) (ren b) n r m
      | TL t \<Rightarrow> TL (t\<lparr>tl_a := ren (tl_a t), tl_b := ren (tl_b t)\<rparr>)
      | TwoPort a b lg \<Rightarrow> TwoPort (ren a) (ren b) lg
      | Transformer a b n r m \<Rightarrow> Transformer (ren a) (ren b) n r m
      | Autotransformer a b l u k q \<Rightarrow> Autotransformer (ren a) (ren b) l u k q
      | TouchstoneTwoPort a b d \<Rightarrow> TouchstoneTwoPort (ren a) (ren b) d
      | Load p lg par z \<Rightarrow> Load (ren p) lg par z
      | Shunt p lg par \<Rightarrow> Shunt (ren p) lg par
      | TouchstoneLoad p d \<Rightarrow> TouchstoneLoad (ren p) d)"

section \<open>Lumped impedances\<close>

definition some_or :: "'a option \<Rightarrow> ('a \<Rightarrow> 'e + 'b) \<Rightarrow> 'b \<Rightarrow> 'e + 'b" where
  \<comment> \<open>\<open>if x is not None\<close>\<close>
  "some_or x f d = (case x of None \<Rightarrow> Inr d | Some a \<Rightarrow> f a)"

definition coil :: "real \<Rightarrow> real option \<Rightarrow> real \<Rightarrow> net_exn + complex" where
  \<comment> \<open>\<open>1j * omega * l\<close>, with \<open>omega * l / ql\<close> for a finite Q\<close>
  "coil l ql \<omega> =
     some_or ql (\<lambda>q. bindE (divE (\<omega> * l) q) (\<lambda>r. Inr (\<i> * of_real (\<omega> * l) + of_real r)))
       (\<i> * of_real (\<omega> * l))"

definition parallel_rlc_admittance :: "legs \<Rightarrow> real \<Rightarrow> net_exn + complex" where
  "parallel_rlc_admittance lg \<omega> =
     bindE (some_or (lg_r lg) (\<lambda>r. divE 1 (of_real r)) 0) (\<lambda>yr.
     bindE (some_or (lg_l lg) (\<lambda>l. bindE (coil l (lg_ql lg) \<omega>) (divE 1)) 0) (\<lambda>yl.
     bindE (some_or (lg_c lg)
             (\<lambda>c. some_or (lg_qc lg)
                (\<lambda>q. bindE (divE 1 (\<i> * of_real (\<omega> * c))) (\<lambda>x.
                      bindE (divE 1 (of_real (\<omega> * c * q))) (\<lambda>e. divE 1 (x + e))))
                (\<i> * of_real (\<omega> * c))) 0) (\<lambda>yc.
     Inr (yr + yl + yc))))"

definition series_rlc_impedance :: "legs \<Rightarrow> real \<Rightarrow> net_exn + complex" where
  "series_rlc_impedance lg \<omega> =
     bindE (some_or (lg_r lg) (\<lambda>r. Inr (of_real r)) 0) (\<lambda>zr.
     bindE (some_or (lg_l lg) (\<lambda>l. coil l (lg_ql lg) \<omega>) 0) (\<lambda>zl.
     bindE (some_or (lg_c lg)
             (\<lambda>c. bindE (divE 1 (\<i> * of_real (\<omega> * c))) (\<lambda>x.
                   some_or (lg_qc lg) (\<lambda>q. bindE (divE 1 (of_real (\<omega> * c * q))) (\<lambda>e. Inr (x + e))) x))
             0) (\<lambda>zc.
     Inr (zr + zl + zc))))"

definition load_series_admittance :: "legs \<Rightarrow> bool \<Rightarrow> complex option \<Rightarrow> real \<Rightarrow> net_exn + cvalue" where
  "load_series_admittance lg par z \<omega> =
     (case z of
        Some z \<Rightarrow> Inr (if z = 0 then CInf else Finite (1 / z))
      | None \<Rightarrow>
          if par then bindE (parallel_rlc_admittance lg \<omega>) (\<lambda>y. Inr (Finite y))
          else bindE (series_rlc_impedance lg \<omega>)
                 (\<lambda>z. Inr (if z = 0 then CInf else Finite (1 / z))))"

definition load_impedance_of :: "legs \<Rightarrow> bool \<Rightarrow> complex option \<Rightarrow> real \<Rightarrow> net_exn + cvalue" where
  "load_impedance_of lg par z \<omega> =
     (case z of
        Some z \<Rightarrow> Inr (Finite z)
      | None \<Rightarrow>
          if par then bindE (parallel_rlc_admittance lg \<omega>)
                        (\<lambda>y. Inr (if y = 0 then CInf else Finite (1 / y)))
          else bindE (series_rlc_impedance lg \<omega>) (\<lambda>z. Inr (Finite z)))"

section \<open>Networks\<close>

datatype source = Driven string complex | DrivenCurrent string complex

definition src_port :: "source \<Rightarrow> string" where
  "src_port s = (case s of Driven p _ \<Rightarrow> p | DrivenCurrent p _ \<Rightarrow> p)"

record network =
  nw_ports :: "(string \<times> port) list" \<comment> \<open>a dictionary\<close>
  nw_branches :: "branch list"
  nw_sources :: "source list"
  nw_branch_paths :: "string list"

definition port_key :: "string \<times> port \<Rightarrow> net_exn option" where
  "port_key kp =
     (case kp of (name, p) \<Rightarrow>
        let own = (case p of PortOnWire g \<Rightarrow> Some (gap_name g) | PortOnWireFloating g \<Rightarrow> Some (gap_name g)
                     | PortVirtual n \<Rightarrow> Some n | _ \<Rightarrow> None)
        in if own = None \<or> own = Some name then None else Some (Refused (PortKey name (the own))))"

definition node_names :: "(string \<times> port) list \<Rightarrow> string set" where
  \<comment> \<open>\<open>port_names\<close>: a floating port is named by its two terminals\<close>
  "node_names ports =
     fold (\<lambda>(name, p) S. if is_floating p then insert (name @ ''.p'') (insert (name @ ''.n'') (S - {name}))
                          else S) ports (fst ` set ports)"

definition source_check :: "(string \<times> port) list \<Rightarrow> source \<Rightarrow> net_exn option" where
  "source_check ports s =
     (let p = src_port s
      in case map_of ports p of
           Some (PortOnWireFloating _) \<Rightarrow> Some (Refused (SourceFloating p))
         | _ \<Rightarrow> if p \<in> node_names ports then None else Some (Refused (SourceUnknown p)))"

definition cm_open :: "branch \<Rightarrow> bool" where
  "cm_open br = (case br of BalancedLine b \<Rightarrow> bl_zcomm b = None | _ \<Rightarrow> False)"

definition is_balun :: "branch \<Rightarrow> bool" where
  "is_balun br = (case br of FloatingBalun p a b n r m \<Rightarrow> True | _ \<Rightarrow> False)"

definition pins :: "branch \<Rightarrow> string set" where
  \<comment> \<open>what a branch adds to \<open>determinate\<close>\<close>
  "pins br = (if cm_open br then {}
              else case br of FloatingBalun p a b n r m \<Rightarrow> {p} | _ \<Rightarrow> set (branch_port_refs br))"

definition floats :: "branch \<Rightarrow> string set" where
  \<comment> \<open>what a branch adds to \<open>touched\<close>\<close>
  "floats br = (case br of FloatingBalun p a b n r m \<Rightarrow> {a, b}
                | _ \<Rightarrow> if cm_open br then set (branch_port_refs br) else {})"

definition validate_common_mode :: "(string \<times> port) list \<Rightarrow> branch list \<Rightarrow> source list \<Rightarrow> net_exn + unit" where
  "validate_common_mode ports branches sources =
     (if \<not> list_ex cm_open branches \<and> \<not> list_ex is_balun branches then Inr ()
      else let determinate =
                 fst ` {kp \<in> set ports. case snd kp of PortVirtual _ \<Rightarrow> False | _ \<Rightarrow> True} \<union>
                 src_port ` set sources \<union> \<Union> (pins ` set branches);
               open = \<Union> (floats ` set branches) - determinate
           in guardE (open \<noteq> {}) (Refused (CommonModeOpen open)))"

definition mk_network :: "(string \<times> port) list \<Rightarrow> branch list \<Rightarrow> source list \<Rightarrow> string list \<Rightarrow> net_exn + network" where
  "mk_network ports branches sources paths =
     bindE (guardE (paths \<noteq> [] \<and> length paths \<noteq> length branches)
              (Refused (BranchPaths (length paths) (length branches)))) (\<lambda>_.
     bindE (firstE port_key ports) (\<lambda>_.
     bindE (firstE (\<lambda>ref. if ref \<in> node_names ports then None else Some (Refused (BranchUnknownPort ref)))
              (concat (map branch_port_refs branches))) (\<lambda>_.
     bindE (firstE (source_check ports) sources) (\<lambda>_.
     bindE (guardE (sources = []) (Refused NoSources)) (\<lambda>_.
     bindE (validate_common_mode ports branches sources) (\<lambda>_.
     Inr \<lparr>nw_ports = ports, nw_branches = branches, nw_sources = sources,
          nw_branch_paths = (if paths = [] then replicate (length branches) [] else paths)\<rparr>))))))"

end
