(* ===== verification/Network_Stamp.thy ===== *)
theory Network_Stamp
  imports Network_Spec
begin

text \<open>
  The type-free half of the circuit solve, \<open>src/src/momwire/networks/_reduce.py\<close>: the chain
  and admittance matrices of a transmission line, the branch-current elements, the system of
  equations they are assembled into, its solution, and the power of a branch.  LAPACK's
  \<open>zgesvx\<close> is an argument.  A matrix is a function of its indices; its entries out of range
  are never read.
\<close>

type_synonym cvector = "nat \<Rightarrow> complex"
type_synonym cmatrix = "nat \<Rightarrow> nat \<Rightarrow> complex"

section \<open>Lines\<close>

definition c_light :: real where
  "c_light = 299792458"

definition feet_per_m :: real where
  "feet_per_m = 1 / (3048 / 10000)"

definition neper_per_db :: real where
  "neper_per_db = 1 / (20 / ln 10)"

definition rcond_singular :: real where
  "rcond_singular = 1 / 10 ^ 12"

definition z_ref_default :: complex where
  "z_ref_default = 50"

definition frequency_mhz :: "real \<Rightarrow> real option \<Rightarrow> net_exn + real" where
  "frequency_mhz wavelength c_light_mhz_m =
     (case c_light_mhz_m of
        None \<Rightarrow> bindE (divE c_light wavelength) (\<lambda>f. Inr (f / 10 ^ 6))
      | Some c \<Rightarrow> divE c wavelength)"

definition tl_gamma_l :: "real \<Rightarrow> real \<Rightarrow> real \<Rightarrow> real \<Rightarrow> real \<Rightarrow> real option \<Rightarrow> net_exn + complex" where
  \<comment> \<open>numpy's root of a negative frequency is a nan\<close>
  "tl_gamma_l len wavelength vf k1 k2 c =
     bindE (divE (2 * pi) (vf * wavelength)) (\<lambda>beta.
     bindE (frequency_mhz wavelength c) (\<lambda>f_mhz.
     bindE (guardE (f_mhz < 0) NotFinite) (\<lambda>_.
     let loss_db_per_100ft = k1 * sqrt f_mhz + k2 * f_mhz;
         alpha = loss_db_per_100ft * neper_per_db * feet_per_m / 100
     in Inr (Complex alpha beta * of_real len))))"

definition tl_zc :: "real \<Rightarrow> complex \<Rightarrow> complex" where
  "tl_zc z0 gl =
     (if Re gl = 0 \<or> Im gl = 0 then of_real z0
      else of_real z0 * (1 - \<i> * of_real (Re gl / Im gl)))"

type_synonym abcd = "complex \<times> complex \<times> complex \<times> complex"

definition tl_abcd :: "real \<Rightarrow> real \<Rightarrow> real \<Rightarrow> real \<Rightarrow> real \<Rightarrow> real \<Rightarrow> real option \<Rightarrow> net_exn + abcd" where
  "tl_abcd z0 len wavelength vf k1 k2 c =
     bindE (tl_gamma_l len wavelength vf k1 k2 c) (\<lambda>gl.
     let zc = tl_zc z0 gl; sh = sinh gl; ch = cosh gl
     in bindE (np_div sh zc) (\<lambda>q. Inr (ch, zc * sh, q, ch)))"

definition tl_admittance_2x2 ::
  "real \<Rightarrow> real \<Rightarrow> real \<Rightarrow> bool \<Rightarrow> real \<Rightarrow> real \<Rightarrow> real \<Rightarrow> real option \<Rightarrow> net_exn + cmatrix" where
  "tl_admittance_2x2 z0 len wavelength transposed vf k1 k2 c =
     bindE (tl_gamma_l len wavelength vf k1 k2 c) (\<lambda>gl.
     let sh = sinh gl; ch = cosh gl
     in if cmod sh < 1 / 10 ^ 12 then Inl Singular
        else bindE (np_div 1 (tl_zc z0 gl * sh)) (\<lambda>scale.
             let off = (if transposed then 1 else -1)
             in Inr (\<lambda>i k. if i = k then scale * ch else scale * off)))"

definition diff_incidence :: cmatrix where
  "diff_incidence i k = (if i = k then 1 else -1)"

definition comm_incidence :: cmatrix where
  "comm_incidence i k = 1 / 4"

definition kron2 :: "cmatrix \<Rightarrow> cmatrix \<Rightarrow> cmatrix" where
  \<comment> \<open>\<open>np.kron\<close> with a 2 by 2 right factor\<close>
  "kron2 y inc = (\<lambda>i k. y (i div 2) (k div 2) * inc (i mod 2) (k mod 2))"

definition balanced_admittance_4x4 ::
  "real \<Rightarrow> real \<Rightarrow> real \<Rightarrow> real \<Rightarrow> real \<Rightarrow> real \<Rightarrow> real option \<Rightarrow> real option \<Rightarrow> net_exn + cmatrix" where
  "balanced_admittance_4x4 zdiff len wavelength vf k1 k2 zcomm c =
     bindE (tl_admittance_2x2 zdiff len wavelength False vf k1 k2 c) (\<lambda>y2.
     case zcomm of
       None \<Rightarrow> Inr (kron2 y2 diff_incidence)
     | Some zc \<Rightarrow>
         bindE (tl_admittance_2x2 zc len wavelength False vf k1 k2 c) (\<lambda>yc.
           Inr (\<lambda>i k. kron2 y2 diff_incidence i k + kron2 yc comm_incidence i k)))"

section \<open>Elements\<close>

record element = \<comment> \<open>\<open>_Group2Element\<close>\<close>
  el_a :: "nat option"
  el_b :: "nat option"
  el_c_v :: complex
  el_c_j :: complex
  el_e :: complex
  el_ka :: complex
  el_kb :: complex
  el_c_va :: "complex option"
  el_c_vb :: "complex option"
  el_c :: "nat option"
  el_kc :: complex
  el_c_vc :: complex
  el_terms :: "(nat \<times> complex \<times> complex) list option"

definition group2 :: "nat option \<Rightarrow> nat option \<Rightarrow> complex \<Rightarrow> complex \<Rightarrow> complex \<Rightarrow> element" where
  \<comment> \<open>with the defaults of the other fields\<close>
  "group2 a b c_v c_j e =
     \<lparr>el_a = a, el_b = b, el_c_v = c_v, el_c_j = c_j, el_e = e, el_ka = 1, el_kb = 1,
      el_c_va = None, el_c_vb = None, el_c = None, el_kc = 0, el_c_vc = 0, el_terms = None\<rparr>"

type_synonym coupling = "nat \<times> nat \<times> complex"
type_synonym weights = "(nat \<times> complex) list" \<comment> \<open>a port: its nodes and their weights\<close>
type_synonym leg = "nat \<times> nat \<times> weights \<times> weights"

definition stamp_abcd ::
  "element list \<Rightarrow> coupling list \<Rightarrow> weights \<Rightarrow> weights \<Rightarrow> abcd \<Rightarrow> element list \<times> coupling list \<times> leg" where
  "stamp_abcd elements couplings port_a port_b m =
     (case m of (A, B, C, D) \<Rightarrow>
        let i1 = length elements; i2 = length elements + 1
        in (elements @
              [(group2 None None 0 0 0)\<lparr>el_terms :=
                 Some (map (\<lambda>(n, w). (n, w, w)) port_a @ map (\<lambda>(n, w). (n, 0, - A * w)) port_b)\<rparr>,
               (group2 None None 0 (- D) 0)\<lparr>el_terms :=
                 Some (map (\<lambda>(n, w). (n, - w, - C * w)) port_b)\<rparr>],
            couplings @ [(i1, i2, - B), (i2, i1, 1)],
            (i1, i2, port_a, port_b)))"

definition magnetizing_impedance :: "magnetizing \<Rightarrow> real \<Rightarrow> net_exn + complex option" where
  "magnetizing_impedance m \<omega> =
     (case mg_core m of
        Some impedance \<Rightarrow> Inr (Some (impedance (\<omega> / (2 * pi) / 10 ^ 6)))
      | None \<Rightarrow>
          (case mg_lmag m of
             None \<Rightarrow> Inr None
           | Some l \<Rightarrow> bindE (coil l (mg_qlmag m) \<omega>) (\<lambda>z. Inr (Some z))))"

definition series_group2 :: "nat option \<Rightarrow> nat option \<Rightarrow> legs \<Rightarrow> real \<Rightarrow> complex \<Rightarrow> net_exn + element" where
  "series_group2 a b lg \<omega> emf =
     (if lg_c lg = Some 0 then Inr (group2 a b 0 1 0)
      else bindE (series_rlc_impedance lg \<omega>) (\<lambda>z. Inr (group2 a b 1 z emf)))"

section \<open>The system\<close>

datatype drive = VoltageDrive | CurrentDrive \<comment> \<open>the kinds "v" and "i"\<close>

type_synonym ending = "nat \<times> complex \<times> drive \<times> complex" \<comment> \<open>column, value, kind, chain\<close>

datatype probe_kind =
    Group1 "nat list" cmatrix
  | Group2 nat
  | Group2Abcd "leg list"
  | Group2R nat real
  | TerminationShare nat cvalue
  | Termination nat

record probe =
  pr_label :: "string \<times> string \<times> string list" \<comment> \<open>the prefix, the words, the ports\<close>
  pr_kind :: probe_kind
  pr_key :: "string \<times> nat \<times> string"

record mna =
  ms_n_nodes :: nat
  ms_size :: nat
  ms_A :: cmatrix
  ms_rhs :: cvector
  ms_terminations :: "(nat \<times> ending) list" \<comment> \<open>a dictionary\<close>
  ms_z_ref :: complex
  ms_z_ref_at :: "nat \<rightharpoonup> complex"
  ms_elements :: "element list"
  ms_probes :: "probe list"

definition add_at :: "nat \<Rightarrow> nat \<Rightarrow> complex \<Rightarrow> cmatrix \<Rightarrow> cmatrix" where
  "add_at i k d A = A(i := (A i)(k := A i k + d))"

definition touch :: "nat \<Rightarrow> nat \<Rightarrow> complex \<Rightarrow> complex \<Rightarrow> cmatrix \<Rightarrow> cmatrix" where
  \<comment> \<open>\<open>A[node, col] += k; A[col, node] += c_v\<close>\<close>
  "touch col node k c_v A = add_at col node c_v (add_at node col k A)"

definition touch_opt :: "nat \<Rightarrow> nat option \<Rightarrow> complex \<Rightarrow> complex \<Rightarrow> cmatrix \<Rightarrow> cmatrix" where
  "touch_opt col node k c_v A = (case node of None \<Rightarrow> A | Some n \<Rightarrow> touch col n k c_v A)"

definition or_else :: "'a option \<Rightarrow> 'a \<Rightarrow> 'a" where
  "or_else x d = (case x of None \<Rightarrow> d | Some a \<Rightarrow> a)"

definition stamp_element :: "nat \<Rightarrow> element \<Rightarrow> cmatrix \<Rightarrow> cmatrix" where
  "stamp_element col el A =
     (let A' = (case el_terms el of
          Some terms \<Rightarrow> fold (\<lambda>(node, k, c_v). touch col node k c_v) terms A
        | None \<Rightarrow>
            touch_opt col (el_c el) (el_kc el) (el_c_vc el)
              (touch_opt col (el_b el) (- el_kb el) (or_else (el_c_vb el) (el_c_v el))
                (touch_opt col (el_a el) (el_ka el) (or_else (el_c_va el) (- el_c_v el)) A)))
      in A'(col := (A' col)(col := el_c_j el)))"

definition assemble :: "nat \<Rightarrow> cmatrix \<Rightarrow> element list \<Rightarrow> coupling list \<Rightarrow> cmatrix" where
  "assemble n G elements couplings =
     fold (\<lambda>(i, k, z). add_at (n + i) (n + k) z) couplings
       (fold (\<lambda>(x, el). stamp_element (n + x) el) (enumerate 0 elements)
         (\<lambda>i k. if i < n \<and> k < n then G i k else 0))"

definition mk_mna ::
  "nat \<Rightarrow> cmatrix \<Rightarrow> element list \<Rightarrow> (nat \<times> ending) list \<Rightarrow> probe list \<Rightarrow> coupling list \<Rightarrow>
   complex \<Rightarrow> (nat \<rightharpoonup> complex) \<Rightarrow> mna" where
  "mk_mna n G elements terminations probes couplings z_ref z_ref_at =
     \<lparr>ms_n_nodes = n, ms_size = n + length elements, ms_A = assemble n G elements couplings,
      ms_rhs = (\<lambda>i. if n \<le> i \<and> i < n + length elements then el_e (elements ! (i - n)) else 0),
      ms_terminations = terminations, ms_z_ref = z_ref, ms_z_ref_at = z_ref_at,
      ms_elements = elements, ms_probes = probes\<rparr>"

text \<open>\<open>zgesvx\<close> gives a solution, its reciprocal condition (None when not finite) and \<open>info\<close>.\<close>

type_synonym lapack = "nat \<Rightarrow> cmatrix \<Rightarrow> cvector \<Rightarrow> cvector \<times> real option \<times> int"

definition solve :: "lapack \<Rightarrow> mna \<Rightarrow> net_exn + (cvector \<times> cvector)" where
  "solve zgesvx s =
     (case zgesvx (ms_size s) (ms_A s) (ms_rhs s) of (x, rcond, info) \<Rightarrow>
        if (0 < info \<and> info \<le> int (ms_size s)) \<or> rcond = None \<or> the rcond < rcond_singular
        then Inl Singular
        else Inr (x, \<lambda>k. x (ms_n_nodes s + k)))"

definition dot :: "nat list \<Rightarrow> cvector \<Rightarrow> cmatrix \<Rightarrow> complex" where
  \<comment> \<open>\<open>matmul(conj(vb), matmul(y_block, vb))\<close> for the voltages \<open>vb\<close> of the nodes\<close>
  "dot nodes v y =
     (\<Sum>i<length nodes. cnj (v (nodes ! i)) * (\<Sum>k<length nodes. y i k * v (nodes ! k)))"

definition volts_at :: "nat option \<Rightarrow> cvector \<Rightarrow> complex" where
  "volts_at node v = (case node of None \<Rightarrow> 0 | Some k \<Rightarrow> v k)"

definition weighted :: "weights \<Rightarrow> cvector \<Rightarrow> complex" where
  "weighted port v = sum_list (map (\<lambda>(node, w). w * v node) port)"

definition branch_power :: "mna \<Rightarrow> cvector \<Rightarrow> cvector \<Rightarrow> probe_kind \<Rightarrow> net_exn + real" where
  \<comment> \<open>of the solved system's \<open>v\<close> and \<open>j\<close>\<close>
  "branch_power s v j probe =
     (case probe of
        Group1 nodes y \<Rightarrow> Inr (1 / 2 * Re (dot nodes v y))
      | Group2 x \<Rightarrow>
          (let el = ms_elements s ! x;
               p = volts_at (el_a el) v * cnj (el_ka el * j x) - volts_at (el_b el) v * cnj (el_kb el * j x);
               p = (case el_c el of None \<Rightarrow> p | Some c \<Rightarrow> p + v c * cnj (el_kc el * j x))
           in Inr (1 / 2 * Re p))
      | Group2Abcd legs \<Rightarrow>
          Inr (sum_list (map (\<lambda>(i1, i2, port_a, port_b).
            1 / 2 * Re (weighted port_a v * cnj (j i1) - weighted port_b v * cnj (j i2))) legs))
      | Group2R x r \<Rightarrow> Inr (1 / 2 * r * (cmod (j x))\<^sup>2)
      | TerminationShare node z \<Rightarrow>
          (case map_of (ms_terminations s) node of
             None \<Rightarrow> Inl (UnknownNode node)
           | Some (col, _, _, _) \<Rightarrow>
               Inr (case z of CInf \<Rightarrow> 0 | Finite z \<Rightarrow> 1 / 2 * Re z * (cmod (j col))\<^sup>2))
      | Termination node \<Rightarrow>
          (case map_of (ms_terminations s) node of
             None \<Rightarrow> Inl (UnknownNode node)
           | Some (col, e, kind, z_chain) \<Rightarrow>
               Inr (case kind of
                      CurrentDrive \<Rightarrow> 1 / 2 * Re z_chain * (cmod (j col))\<^sup>2
                    | VoltageDrive \<Rightarrow>
                        1 / 2 * Re ((e - v node - or_else (ms_z_ref_at s node) 0 * j col) * cnj (j col)))))"

definition poison_singular_sample :: "net_exn + 'a \<Rightarrow> net_exn + 'a option" where
  "poison_singular_sample r =
     (case r of Inl Singular \<Rightarrow> Inr None | Inl e \<Rightarrow> Inl e | Inr x \<Rightarrow> Inr (Some x))"

end
