(* ===== verification/Network_Reducer.thy ===== *)
theory Network_Reducer
  imports Network_Stamp
begin

text \<open>
  The circuit solve, \<open>src/src/momwire/networks/_reducer.py\<close>: the nodes of a network, its
  branches and sources stamped around the antenna's admittance matrix, and what is read out
  of the solution.  The indices of \<open>port_to_idx\<close> are below the number of ports, as its
  contract says; an index out of a matrix is not modelled.
\<close>

section \<open>The reducer\<close>

record reducer =
  rd_network :: network
  rd_c_light :: "real option"
  rd_port_to_idx :: "string \<rightharpoonup> nat"
  rd_n_total_ports :: nat
  rd_floating :: "(string \<times> nat \<times> nat) list" \<comment> \<open>name, its node, the node of its other terminal\<close>
  rd_n_nodes :: nat
  rd_driven :: "(nat \<times> drive \<times> complex) list"
    \<comment> \<open>\<open>driven_port_idx\<close>, \<open>_source_kinds\<close> and \<open>_source_values\<close>\<close>
  rd_driven_voltages :: "complex list"

definition lookupE :: "(string \<rightharpoonup> 'a) \<Rightarrow> string \<Rightarrow> net_exn + 'a" where
  "lookupE m name = (case m name of None \<Rightarrow> Inl (UnknownName name) | Some x \<Rightarrow> Inr x)"

definition add_terminal ::
  "(string \<rightharpoonup> nat) \<times> (string \<times> nat \<times> nat) list \<times> nat \<Rightarrow> string \<times> port \<Rightarrow>
   net_exn + ((string \<rightharpoonup> nat) \<times> (string \<times> nat \<times> nat) list \<times> nat)" where
  "add_terminal st kp =
     (case (st, kp) of ((idx, floating, next_node), (name, p)) \<Rightarrow>
        if \<not> is_floating p then Inr (idx, floating, next_node)
        else bindE (lookupE idx name) (\<lambda>p_idx.
          Inr (idx(name @ ''.p'' \<mapsto> p_idx, name @ ''.n'' \<mapsto> next_node),
               floating @ [(name, p_idx, next_node)], Suc next_node)))"

definition drive_of :: "source \<Rightarrow> drive \<times> complex" where
  "drive_of s = (case s of Driven _ v \<Rightarrow> (VoltageDrive, v) | DrivenCurrent _ c \<Rightarrow> (CurrentDrive, c))"

definition mk_reducer :: "network \<Rightarrow> (string \<rightharpoonup> nat) \<Rightarrow> nat \<Rightarrow> real option \<Rightarrow> net_exn + reducer" where
  \<comment> \<open>the driven nodes are looked up in the argument, without the terminals\<close>
  "mk_reducer nw port_to_idx n_total c =
     bindE (foldE add_terminal (port_to_idx, [], n_total) (nw_ports nw)) (\<lambda>(idx, floating, n_nodes).
     bindE (firstE (\<lambda>s. if src_port s \<in> fst ` set floating then Some NotImplemented else None)
              (nw_sources nw)) (\<lambda>_.
     bindE (mapE (\<lambda>s. bindE (lookupE port_to_idx (src_port s)) (\<lambda>k. Inr (k, drive_of s)))
              (nw_sources nw)) (\<lambda>driven.
     Inr \<lparr>rd_network = nw, rd_c_light = c, rd_port_to_idx = idx, rd_n_total_ports = n_total,
          rd_floating = floating, rd_n_nodes = n_nodes, rd_driven = driven,
          rd_driven_voltages = map (\<lambda>(_, _, v). v) (filter (\<lambda>(_, kind, _). kind = VoltageDrive) driven)\<rparr>)))"

definition reference_node :: "reducer \<Rightarrow> nat option" where
  "reference_node rd =
     (case filter (\<lambda>(_, _, v). v \<noteq> 0) (rd_driven rd) of
        [(k, VoltageDrive, _)] \<Rightarrow> Some k
      | _ \<Rightarrow> None)"

section \<open>Stamping\<close>

type_synonym series_load = "string \<times> legs \<times> bool \<times> complex option \<times> string \<times> nat"
  \<comment> \<open>a Load, its path and index\<close>

record stamp =
  st_G :: cmatrix
  st_elements :: "element list"
  st_couplings :: "coupling list"
  st_loads :: "(nat \<times> series_load list) list" \<comment> \<open>a dictionary\<close>
  st_probes :: "probe list"

definition incidence :: "nat \<Rightarrow> (string \<times> nat \<times> nat) list \<Rightarrow> cmatrix" where
  \<comment> \<open>which gap drives which node\<close>
  "incidence n_real floating =
     fold (\<lambda>(_, p, n) A. A(p := (A p)(n := -1))) floating
       (\<lambda>i k. if i = k \<and> i < n_real then 1 else 0)"

definition antenna_block :: "reducer \<Rightarrow> nat \<Rightarrow> cmatrix \<Rightarrow> cmatrix" where
  "antenna_block rd n_real Y =
     (if rd_floating rd \<noteq> []
      then let A = incidence n_real (rd_floating rd)
           in (\<lambda>i k. \<Sum>p<n_real. \<Sum>q<n_real. A p i * Y p q * A q k)
      else (\<lambda>i k. if i < n_real \<and> k < n_real then Y i k else 0))"

definition stamp_block :: "nat list \<Rightarrow> cmatrix \<Rightarrow> cmatrix \<Rightarrow> cmatrix" where
  \<comment> \<open>\<open>G[np.ix_(idxs, idxs)] += y\<close>: the sums are formed first and then assigned in order,
     so of two for one entry the last stays\<close>
  "stamp_block idxs y G =
     fold (\<lambda>(i, k) A. A(idxs ! i := (A (idxs ! i))(idxs ! k := G (idxs ! i) (idxs ! k) + y i k)))
       (List.product [0..<length idxs] [0..<length idxs]) G"

definition of_rows :: "complex list list \<Rightarrow> cmatrix" where
  "of_rows y i k = y ! i ! k"

definition short :: "string \<Rightarrow> string \<Rightarrow> string" where
  "short path name = (if path \<noteq> [] \<and> take (length path) name = path then drop (length path) name else name)"

definition mk_probe :: "string \<Rightarrow> nat \<Rightarrow> string \<Rightarrow> string list \<Rightarrow> probe_kind \<Rightarrow> string \<Rightarrow> probe" where
  \<comment> \<open>the label is the prefix of the path, the words and the ports in short\<close>
  "mk_probe path i words names kind sub =
     \<lparr>pr_label = (butlast path, words, map (short path) names), pr_kind = kind, pr_key = (path, i, sub)\<rparr>"

definition add_probe :: "probe \<Rightarrow> stamp \<Rightarrow> stamp" where
  "add_probe p st = st\<lparr>st_probes := st_probes st @ [p]\<rparr>"

definition add_element :: "element \<Rightarrow> stamp \<Rightarrow> stamp" where
  "add_element el st = st\<lparr>st_elements := st_elements st @ [el]\<rparr>"

definition add_block :: "nat list \<Rightarrow> cmatrix \<Rightarrow> stamp \<Rightarrow> stamp" where
  "add_block idxs y st = st\<lparr>st_G := stamp_block idxs y (st_G st)\<rparr>"

definition add_node :: "nat \<Rightarrow> complex \<Rightarrow> stamp \<Rightarrow> stamp" where
  \<comment> \<open>\<open>G[k, k] += y\<close>\<close>
  "add_node k y st = st\<lparr>st_G := add_at k k y (st_G st)\<rparr>"

definition add_line :: "weights \<Rightarrow> weights \<Rightarrow> abcd \<Rightarrow> stamp \<Rightarrow> stamp \<times> leg" where
  "add_line port_a port_b m st =
     (case stamp_abcd (st_elements st) (st_couplings st) port_a port_b m of
        (elements, couplings, leg) \<Rightarrow> (st\<lparr>st_elements := elements, st_couplings := couplings\<rparr>, leg))"

definition add_magnetizing :: "nat \<Rightarrow> magnetizing \<Rightarrow> real \<Rightarrow> (probe_kind \<Rightarrow> probe) \<Rightarrow> stamp \<Rightarrow> net_exn + stamp" where
  "add_magnetizing k m \<omega> probe st =
     bindE (magnetizing_impedance m \<omega>) (\<lambda>zl.
       case zl of
         None \<Rightarrow> Inr st
       | Some z \<Rightarrow> bindE (divE 1 z) (\<lambda>y.
           Inr (add_probe (probe (Group1 [k] (\<lambda>_ _. y))) (add_node k y st))))"

definition push_load :: "nat \<Rightarrow> series_load \<Rightarrow> (nat \<times> series_load list) list \<Rightarrow> (nat \<times> series_load list) list" where
  "push_load k ld loads =
     (if k \<in> fst ` set loads then map (\<lambda>(i, ls). (i, if i = k then ls @ [ld] else ls)) loads
      else loads @ [(k, [ld])])"

definition hosts_load :: "port \<Rightarrow> bool" where
  "hosts_load p = (on_wire p \<or> (case p of PortAtVertex _ _ \<Rightarrow> True | _ \<Rightarrow> False))"

definition stamp_tl :: "reducer \<Rightarrow> real \<Rightarrow> string \<Rightarrow> nat \<Rightarrow> tl \<Rightarrow> stamp \<Rightarrow> net_exn + stamp" where
  "stamp_tl rd wavelength path i t st =
     bindE (lookupE (rd_port_to_idx rd) (tl_a t)) (\<lambda>a.
     bindE (lookupE (rd_port_to_idx rd) (tl_b t)) (\<lambda>b.
     bindE (tl_abcd (tl_z0 t) (tl_length t) wavelength (tl_vf t) (tl_k1 t) (tl_k2 t) (rd_c_light rd)) (\<lambda>m.
     let (st', leg) = add_line [(a, 1)] [(b, if tl_transposed t then -1 else 1)] m st
     in Inr (add_probe (mk_probe path i ''TL'' [tl_a t, tl_b t] (Group2Abcd [leg]) '''') st'))))"

definition stamp_balanced :: "reducer \<Rightarrow> real \<Rightarrow> string \<Rightarrow> nat \<Rightarrow> balanced_line \<Rightarrow> stamp \<Rightarrow> net_exn + stamp" where
  "stamp_balanced rd wavelength path i b st =
     bindE (lookupE (rd_port_to_idx rd) (bl_a1 b)) (\<lambda>a1.
     bindE (lookupE (rd_port_to_idx rd) (bl_a2 b)) (\<lambda>a2.
     bindE (lookupE (rd_port_to_idx rd) (bl_b1 b)) (\<lambda>b1.
     bindE (lookupE (rd_port_to_idx rd) (bl_b2 b)) (\<lambda>b2.
     let abcd = (\<lambda>z0. tl_abcd z0 (bl_length b) wavelength (bl_vf b) (bl_k1 b) (bl_k2 b) (rd_c_light rd));
         probe = (\<lambda>legs. mk_probe path i ''BalancedLine'' [bl_a1 b, bl_a2 b, bl_b1 b, bl_b2 b]
                    (Group2Abcd legs) '''')
     in bindE (abcd (bl_zdiff b)) (\<lambda>m.
        let (st1, leg1) = add_line [(a1, 1), (a2, -1)] [(b1, 1), (b2, -1)] m st
        in case bl_zcomm b of
             None \<Rightarrow> Inr (add_probe (probe [leg1]) st1)
           | Some zc \<Rightarrow> bindE (abcd zc) (\<lambda>mc.
               let (st2, leg2) = add_line [(a1, 1 / 2), (a2, 1 / 2)] [(b1, 1 / 2), (b2, 1 / 2)] mc st1
               in Inr (add_probe (probe [leg1, leg2]) st2)))))))"

definition stamp_autotransformer ::
  "reducer \<Rightarrow> real \<Rightarrow> string \<Rightarrow> nat \<Rightarrow> string \<Rightarrow> string \<Rightarrow> real \<Rightarrow> real \<Rightarrow> real \<Rightarrow> real option \<Rightarrow> stamp \<Rightarrow> net_exn + stamp" where
  "stamp_autotransformer rd \<omega> path i a b l_lower l_upper k ql st =
     bindE (guardE (\<not> (0 \<le> k \<and> k \<le> 1)) (Refused (AutotransformerCoupling k))) (\<lambda>_.
     bindE (guardE (l_lower \<le> 0 \<or> l_upper \<le> 0) (Refused (AutotransformerSections l_lower l_upper))) (\<lambda>_.
     bindE (lookupE (rd_port_to_idx rd) a) (\<lambda>a_i.
     bindE (lookupE (rd_port_to_idx rd) b) (\<lambda>b_i.
     let r1 = (if truthy ql then \<omega> * l_lower / the ql else 0);
         r2 = (if truthy ql then \<omega> * l_upper / the ql else 0);
         z1 = of_real r1 + \<i> * of_real (\<omega> * l_lower);
         z2 = of_real r2 + \<i> * of_real (\<omega> * l_upper);
         zm = \<i> * of_real (\<omega> * k * sqrt (l_lower * l_upper));
         i1 = length (st_elements st); i2 = length (st_elements st) + 1
     in Inr ((add_element (group2 (Some a_i) (Some b_i) 1 z2 0)
               (add_element (group2 None (Some a_i) 1 z1 0)
                 (add_probe (mk_probe path i ''Autotransformer (upper)'' [a, b] (Group2R i2 r2) ''upper'')
                   (add_probe (mk_probe path i ''Autotransformer (lower)'' [a, b] (Group2R i1 r1) ''lower'') st))))
             \<lparr>st_couplings := st_couplings st @ [(i1, i2, zm), (i2, i1, zm)]\<rparr>)))))"

definition winding :: "real option \<Rightarrow> complex" where
  "winding r = (case r of None \<Rightarrow> 0 | Some r \<Rightarrow> of_real r)"

definition stamp_branch :: "reducer \<Rightarrow> real \<Rightarrow> real \<Rightarrow> real \<Rightarrow> stamp \<Rightarrow> nat \<times> branch \<times> string \<Rightarrow> net_exn + stamp" where
  "stamp_branch rd wavelength f_hz \<omega> st ibp =
     (case ibp of (i, br, path) \<Rightarrow>
        let node = lookupE (rd_port_to_idx rd); probe = mk_probe path i; x = length (st_elements st)
        in case br of
             TL t \<Rightarrow> stamp_tl rd wavelength path i t st
           | BalancedLine b \<Rightarrow> stamp_balanced rd wavelength path i b st
           | Admittance ps y \<Rightarrow>
               bindE (mapE node ps) (\<lambda>idxs.
               Inr (add_probe (probe ''Admittance'' ps (Group1 idxs (of_rows y)) '''')
                      (add_block idxs (of_rows y) st)))
           | TouchstoneLoad p d \<Rightarrow>
               bindE (node p) (\<lambda>k.
               let y = ad_y_at d f_hz 0 0
               in Inr (add_probe (probe ''Touchstone'' [p] (Group1 [k] (\<lambda>_ _. y)) '''') (add_node k y st)))
           | TouchstoneTwoPort a b d \<Rightarrow>
               bindE (node a) (\<lambda>a_i. bindE (node b) (\<lambda>b_i.
               Inr (add_probe (probe ''Touchstone'' [a, b] (Group1 [a_i, b_i] (ad_y_at d f_hz)) '''')
                      (add_block [a_i, b_i] (ad_y_at d f_hz) st))))
           | TwoPort a b lg \<Rightarrow>
               bindE (node a) (\<lambda>a_i. bindE (node b) (\<lambda>b_i.
               bindE (series_group2 (Some a_i) (Some b_i) lg \<omega> 0) (\<lambda>el.
               Inr (add_element el (add_probe (probe ''TwoPort'' [a, b] (Group2 x) '''') st)))))
           | Shunt p lg par \<Rightarrow>
               bindE (node p) (\<lambda>k.
               if par
               then bindE (parallel_rlc_admittance lg \<omega>) (\<lambda>y.
                      Inr (add_probe (probe ''Shunt'' [p] (Group1 [k] (\<lambda>_ _. y)) '''') (add_node k y st)))
               else bindE (series_group2 (Some k) None lg \<omega> 0) (\<lambda>el.
                      Inr (add_element el (add_probe (probe ''Shunt'' [p] (Group2 x) '''') st))))
           | Transformer a b n r m \<Rightarrow>
               bindE (guardE (n = 0) (Refused (TransformerRatio a b))) (\<lambda>_.
               bindE (node a) (\<lambda>a_i. bindE (node b) (\<lambda>b_i.
               add_magnetizing a_i m \<omega> (\<lambda>kind. probe ''Transformer (mag)'' [a, b] kind ''mag'')
                 (add_element ((group2 (Some a_i) (Some b_i) 0 (- winding r) 0)
                      \<lparr>el_ka := 1, el_kb := of_real n, el_c_va := Some 1, el_c_vb := Some (- of_real n)\<rparr>)
                   (add_probe (probe ''Transformer'' [a, b] (Group2 x) '''') st)))))
           | Autotransformer a b l u k q \<Rightarrow> stamp_autotransformer rd \<omega> path i a b l u k q st
           | FloatingBalun p a b n r m \<Rightarrow>
               bindE (guardE (n = 0) (Refused (BalunRatio p))) (\<lambda>_.
               bindE (node p) (\<lambda>p_i. bindE (node a) (\<lambda>a_i. bindE (node b) (\<lambda>b_i.
               add_magnetizing p_i m \<omega> (\<lambda>kind. probe ''FloatingBalun (mag)'' [p, a, b] kind ''mag'')
                 (add_element ((group2 (Some a_i) (Some b_i) 0 (- winding r) 0)
                      \<lparr>el_ka := 1, el_kb := 1, el_c_va := Some 1, el_c_vb := Some (-1),
                       el_c := Some p_i, el_kc := - of_real n, el_c_vc := - of_real n\<rparr>)
                   (add_probe (probe ''FloatingBalun'' [p, a, b] (Group2 x) '''') st))))))
           | Load p lg par z \<Rightarrow>
               bindE (lookupE (map_of (nw_ports (rd_network rd))) p) (\<lambda>host.
               bindE (guardE (\<not> hosts_load host) (Refused (LoadOnVirtual p))) (\<lambda>_.
               bindE (node p) (\<lambda>k.
               Inr (st\<lparr>st_loads := push_load k (p, lg, par, z, path, i) (st_loads st)\<rparr>)))))"

section \<open>Terminations\<close>

definition emfs :: "(nat \<times> drive \<times> complex) list \<Rightarrow> nat \<rightharpoonup> complex" where
  \<comment> \<open>the last voltage source of a node\<close>
  "emfs driven = fold (\<lambda>(k, kind, v) m. if kind = VoltageDrive then m(k \<mapsto> v) else m) driven Map.empty"

definition forced_currents :: "(nat \<times> drive \<times> complex) list \<Rightarrow> nat \<rightharpoonup> complex" where
  "forced_currents driven =
     fold (\<lambda>(k, kind, v) m. if kind = CurrentDrive then m(k \<mapsto> or_else (m k) 0 + v) else m) driven Map.empty"

definition is_finite_value :: "cvalue \<Rightarrow> bool" where
  "is_finite_value z = (case z of Finite _ \<Rightarrow> True | CInf \<Rightarrow> False)"

definition total :: "cvalue list \<Rightarrow> complex \<Rightarrow> complex" where
  \<comment> \<open>\<open>sum(zs, start)\<close> of finite impedances\<close>
  "total zs start = foldl (\<lambda>s z. case z of Finite z \<Rightarrow> s + z | CInf \<Rightarrow> s) start zs"

definition source_element :: "nat \<Rightarrow> complex \<Rightarrow> complex \<Rightarrow> series_load list \<Rightarrow> cvalue list \<Rightarrow> real \<Rightarrow> net_exn + element" where
  \<comment> \<open>a voltage source, its reference impedance and the loads in series with it\<close>
  "source_element k e zr loads zs \<omega> =
     (case loads of
        [(_, lg, True, z, _, _)] \<Rightarrow>
          bindE (load_series_admittance lg True z \<omega>) (\<lambda>y.
            case y of
              CInf \<Rightarrow> Inl NotFinite
            | Finite y \<Rightarrow> bindE (divE y (1 + zr * y)) (\<lambda>y. Inr (group2 None (Some k) y 1 (y * e))))
      | _ \<Rightarrow>
          if list_all is_finite_value zs then Inr (group2 None (Some k) 1 (total zs zr) e)
          else Inr (group2 None (Some k) 0 1 0))"

record closing =
  cl_stamp :: stamp
  cl_terminations :: "(nat \<times> ending) list"
  cl_z_ref_at :: "nat \<rightharpoonup> complex"

definition close_node ::
  "real \<Rightarrow> complex \<Rightarrow> nat option \<Rightarrow> (nat \<rightharpoonup> complex) \<Rightarrow> (nat \<rightharpoonup> complex) \<Rightarrow> closing \<Rightarrow> nat \<Rightarrow> net_exn + closing" where
  "close_node \<omega> z_ref ref_node emf forced cl k =
     (let st = cl_stamp cl; loads = or_else (map_of (st_loads st) k) []
      in bindE (mapE (\<lambda>(_, lg, par, z, _, _). load_impedance_of lg par z \<omega>) loads) (\<lambda>zs.
         let st = fold (\<lambda>((p, _, _, _, path, i), z).
                     add_probe \<lparr>pr_label = ([], ''Load'', [p]), pr_kind = TerminationShare k z,
                                pr_key = (path, i, ''load'')\<rparr>) (zip loads zs) st;
             x = length (st_elements st)
         in case forced k of
              Some amps \<Rightarrow>
                bindE (guardE (\<not> list_all is_finite_value zs) (Refused (CurrentThroughOpen k))) (\<lambda>_.
                Inr (cl\<lparr>cl_stamp := add_element (group2 None (Some k) 0 1 amps) st,
                        cl_terminations := cl_terminations cl @ [(k, x, amps, CurrentDrive, total zs 0)]\<rparr>))
            | None \<Rightarrow>
                let e = or_else (emf k) 0; zr = (if ref_node = Some k then z_ref else 0)
                in bindE (source_element k e zr loads zs \<omega>) (\<lambda>el.
                   Inr (cl\<lparr>cl_stamp := add_element el st,
                           cl_terminations := cl_terminations cl @ [(k, x, e, VoltageDrive, 0)],
                           cl_z_ref_at := (if zr \<noteq> 0 then (cl_z_ref_at cl)(k \<mapsto> zr) else cl_z_ref_at cl)\<rparr>))))"

definition closed_nodes :: "(nat \<rightharpoonup> complex) \<Rightarrow> (nat \<rightharpoonup> complex) \<Rightarrow> reducer \<Rightarrow> stamp \<Rightarrow> nat list" where
  \<comment> \<open>\<open>sorted(set(emf) | set(forced) | set(loads_by_node))\<close>\<close>
  "closed_nodes emf forced rd st =
     sorted_list_of_set (set (filter (\<lambda>k. emf k \<noteq> None \<or> forced k \<noteq> None) (map fst (rd_driven rd))) \<union>
                         fst ` set (st_loads st))"

definition terminate ::
  "reducer \<Rightarrow> real \<Rightarrow> complex \<Rightarrow> stamp \<Rightarrow> net_exn + closing" where
  "terminate rd \<omega> z_ref st =
     (let emf = emfs (rd_driven rd); forced = forced_currents (rd_driven rd);
          clash = {k \<in> fst ` set (rd_driven rd). emf k \<noteq> None \<and> forced k \<noteq> None}
      in bindE (guardE (clash \<noteq> {}) (Refused (SourcesClash clash))) (\<lambda>_.
         foldE (close_node \<omega> z_ref (if z_ref = 0 then None else reference_node rd) emf forced)
           \<lparr>cl_stamp = st, cl_terminations = [], cl_z_ref_at = Map.empty\<rparr>
           (closed_nodes emf forced rd st)))"

definition frequency_of :: "reducer \<Rightarrow> real \<Rightarrow> net_exn + real" where
  \<comment> \<open>\<open>f_hz\<close>\<close>
  "frequency_of rd wavelength =
     (case rd_c_light rd of
        None \<Rightarrow> divE c_light wavelength
      | Some c \<Rightarrow> bindE (frequency_mhz wavelength (Some c)) (\<lambda>f. Inr (f * 10 ^ 6)))"

definition stamp_branches :: "reducer \<Rightarrow> nat \<Rightarrow> cmatrix \<Rightarrow> real \<Rightarrow> net_exn + (real \<times> stamp)" where
  \<comment> \<open>\<open>apply_branches\<close> up to its terminations, with \<open>omega\<close>\<close>
  "stamp_branches rd n_real Y wavelength =
     bindE (frequency_of rd wavelength) (\<lambda>f_hz.
     let \<omega> = 2 * pi * f_hz; nw = rd_network rd
     in bindE (foldE (stamp_branch rd wavelength f_hz \<omega>)
                 \<lparr>st_G = antenna_block rd n_real Y, st_elements = [], st_couplings = [],
                  st_loads = [], st_probes = []\<rparr>
                 (enumerate 0 (zip (nw_branches nw) (nw_branch_paths nw)))) (\<lambda>st. Inr (\<omega>, st)))"

definition apply_branches :: "reducer \<Rightarrow> nat \<Rightarrow> cmatrix \<Rightarrow> real \<Rightarrow> complex \<Rightarrow> net_exn + mna" where
  "apply_branches rd n_real Y wavelength z_ref =
     bindE (stamp_branches rd n_real Y wavelength) (\<lambda>(\<omega>, st).
     bindE (terminate rd \<omega> z_ref st) (\<lambda>cl.
     let st = cl_stamp cl
     in Inr (mk_mna (rd_n_nodes rd) (st_G st) (st_elements st) (cl_terminations cl) (st_probes st)
               (st_couplings st) z_ref (cl_z_ref_at cl))))"

section \<open>Readouts\<close>

definition physical_port_voltages :: "reducer \<Rightarrow> cvector \<Rightarrow> cvector" where
  "physical_port_voltages rd v = fold (\<lambda>(_, p, n) out. out(p := v p - v n)) (rd_floating rd) v"

definition resolve_voltages :: "lapack \<Rightarrow> reducer \<Rightarrow> mna \<Rightarrow> net_exn + cvector" where
  "resolve_voltages zgesvx rd s = bindE (solve zgesvx s) (\<lambda>(v, j). Inr (physical_port_voltages rd v))"

definition ending_of :: "mna \<Rightarrow> nat \<Rightarrow> net_exn + ending" where
  "ending_of s k = (case map_of (ms_terminations s) k of None \<Rightarrow> Inl (UnknownNode k) | Some t \<Rightarrow> Inr t)"

definition port_impedance :: "mna \<Rightarrow> cvector \<Rightarrow> cvector \<Rightarrow> nat \<times> drive \<times> complex \<Rightarrow> net_exn + cvalue" where
  "port_impedance s v j dr =
     (case dr of (k, kind, _) \<Rightarrow>
        bindE (ending_of s k) (\<lambda>(col, e, _, z_chain).
          Inr (if j col = 0 then CInf
               else Finite (case kind of
                      CurrentDrive \<Rightarrow> v k / j col + z_chain
                    | VoltageDrive \<Rightarrow> e / j col - or_else (ms_z_ref_at s k) 0))))"

definition impedance_from_y :: "lapack \<Rightarrow> reducer \<Rightarrow> mna \<Rightarrow> net_exn + cvalue list" where
  "impedance_from_y zgesvx rd s =
     bindE (solve zgesvx s) (\<lambda>(v, j). mapE (port_impedance s v j) (rd_driven rd))"

definition port_reflection :: "mna \<Rightarrow> cvector \<Rightarrow> (nat \<times> drive \<times> complex) \<times> cvalue \<Rightarrow> net_exn + complex" where
  "port_reflection s j dz =
     (case dz of ((k, kind, _), z) \<Rightarrow>
        bindE (ending_of s k) (\<lambda>(col, e, _, _).
          if kind = CurrentDrive \<or> ms_z_ref_at s k = None
          then (case z of
                  CInf \<Rightarrow> Inr 1
                | Finite z \<Rightarrow> divE (z - ms_z_ref s) (z + ms_z_ref s))
          else np_div (2 * (e - the (ms_z_ref_at s k) * j col) - e) e))"

definition reflection_from_y :: "lapack \<Rightarrow> reducer \<Rightarrow> mna \<Rightarrow> net_exn + complex list" where
  "reflection_from_y zgesvx rd s =
     bindE (guardE (ms_z_ref s = 0) (Refused NoReference)) (\<lambda>_.
     bindE (solve zgesvx s) (\<lambda>(v, j).
     bindE (mapE (port_impedance s v j) (rd_driven rd)) (\<lambda>zs.
     mapE (port_reflection s j) (zip (rd_driven rd) zs))))"

definition driven_impedance :: "lapack \<Rightarrow> reducer \<Rightarrow> nat \<Rightarrow> cmatrix \<Rightarrow> real \<Rightarrow> complex option \<Rightarrow> net_exn + cvalue list" where
  "driven_impedance zgesvx rd n_real Y wavelength z_ref =
     bindE (apply_branches rd n_real Y wavelength (or_else z_ref z_ref_default)) (impedance_from_y zgesvx rd)"

definition driven_reflection :: "lapack \<Rightarrow> reducer \<Rightarrow> nat \<Rightarrow> cmatrix \<Rightarrow> real \<Rightarrow> complex option \<Rightarrow> net_exn + complex list" where
  "driven_reflection zgesvx rd n_real Y wavelength z_ref =
     bindE (apply_branches rd n_real Y wavelength (or_else z_ref z_ref_default)) (reflection_from_y zgesvx rd)"

definition input_power :: "mna \<Rightarrow> cvector \<Rightarrow> cvector \<Rightarrow> real" where
  \<comment> \<open>\<open>p_in\<close>\<close>
  "input_power s v j =
     sum_list (map (\<lambda>(k, col, e, kind, z_chain).
       case kind of
         CurrentDrive \<Rightarrow> 1 / 2 * Re ((v k + z_chain * j col) * cnj (j col))
       | VoltageDrive \<Rightarrow> 1 / 2 * Re (e * cnj (j col))) (ms_terminations s))"

record excited =
  ex_voltages :: cvector
  ex_efficiency :: real
  ex_p_in :: real
  ex_budget :: "((string \<times> string \<times> string list) \<times> real \<times> string \<times> nat \<times> string) list"

definition power_readout :: "reducer \<Rightarrow> mna \<Rightarrow> cvector \<Rightarrow> cvector \<Rightarrow> net_exn + excited" where
  "power_readout rd s v j =
     bindE (mapE (\<lambda>p. bindE (branch_power s v j (pr_kind p)) (\<lambda>w. Inr (pr_label p, w, pr_key p)))
              (ms_probes s)) (\<lambda>budget.
     let p_in = input_power s v j;
         p_diss = sum_list (map (\<lambda>(_, w, _). w) budget);
         p_diss = (if 0 < p_in \<and> \<bar>p_diss\<bar> \<le> p_in / 10 ^ 9 then 0 else p_diss)
     in Inr \<lparr>ex_voltages = physical_port_voltages rd v,
             ex_efficiency = (if p_in \<le> 0 then 1 else max 0 (min 1 (1 - p_diss / p_in))),
             ex_p_in = p_in, ex_budget = budget\<rparr>)"

definition excited_state :: "lapack \<Rightarrow> reducer \<Rightarrow> nat \<Rightarrow> cmatrix \<Rightarrow> real \<Rightarrow> net_exn + excited" where
  "excited_state zgesvx rd n_real Y wavelength =
     bindE (apply_branches rd n_real Y wavelength 0) (\<lambda>s.
     bindE (solve zgesvx s) (\<lambda>(v, j). power_readout rd s v j))"

end
