(* ===== verification/Network_Laws.thy ===== *)
theory Network_Laws
  imports Network_Reducer
begin

text \<open>
  What the assembled equations say: each row of the matrix as Kirchhoff's current law at a
  node or the equation of an element, and each stamp as the law of the branch it stands for.
\<close>

section \<open>Rows of a matrix under the stamps\<close>

definition row_sum :: "nat \<Rightarrow> cmatrix \<Rightarrow> cvector \<Rightarrow> nat \<Rightarrow> complex" where
  "row_sum N A x r = (\<Sum>c<N. A r c * x c)"

definition single :: "nat \<Rightarrow> complex \<Rightarrow> nat \<Rightarrow> complex" where
  "single i d k = (if k = i then d else 0)"

lemma single_simps [simp]:
  "single i 0 k = 0" "single i d i = d" "single i (- d) k = - single i d k"
  "single i (d + e) k = single i d k + single i e k"
  by (simp_all add: single_def)

lemma row_sum_cong: "(\<And>c. c < N \<Longrightarrow> x c = y c) \<Longrightarrow> row_sum N A x r = row_sum N A y r"
  by (simp add: row_sum_def)

lemma row_sum_update:
  assumes "k < N"
  shows "row_sum N (A(i := (A i)(k := z))) x r =
    row_sum N A x r + single i ((z - A i k) * x k) r"
proof -
  have "(\<Sum>c<N. ((A i)(k := z)) c * x c) = (\<Sum>c<N. A i c * x c + (if c = k then (z - A i k) * x k else 0))"
    by (rule sum.cong) (auto simp: algebra_simps)
  also have "\<dots> = row_sum N A x i + (z - A i k) * x k"
    using assms by (simp add: row_sum_def sum.distrib)
  finally show ?thesis
    by (simp add: row_sum_def single_def)
qed

lemma row_sum_add_at:
  assumes "k < N"
  shows "row_sum N (add_at i k d A) x r = row_sum N A x r + single i (d * x k) r"
  using row_sum_update [OF assms, of A i "A i k + d"] by (simp add: add_at_def)

lemma row_sum_touch:
  assumes "col < N" and "node < N"
  shows "row_sum N (touch col node k c_v A) x r =
    row_sum N A x r + single node (k * x col) r + single col (c_v * x node) r"
  using assms by (simp add: touch_def row_sum_add_at)

section \<open>An element\<close>

definition touches :: "element \<Rightarrow> (nat \<times> complex \<times> complex) list" where
  \<comment> \<open>the nodes of an element, with the two coefficients of each\<close>
  "touches el =
     (case el_terms el of
        Some terms \<Rightarrow> terms
      | None \<Rightarrow>
          (case el_a el of None \<Rightarrow> [] | Some n \<Rightarrow> [(n, el_ka el, or_else (el_c_va el) (- el_c_v el))]) @
          (case el_b el of None \<Rightarrow> [] | Some n \<Rightarrow> [(n, - el_kb el, or_else (el_c_vb el) (el_c_v el))]) @
          (case el_c el of None \<Rightarrow> [] | Some n \<Rightarrow> [(n, el_kc el, el_c_vc el)]))"

definition drawn :: "element \<Rightarrow> nat \<Rightarrow> complex" where
  \<comment> \<open>the share of its current that leaves a node\<close>
  "drawn el k = sum_list (map (\<lambda>(n, c, _). single n c k) (touches el))"

definition sensed :: "element \<Rightarrow> cvector \<Rightarrow> complex" where
  \<comment> \<open>the voltages in its equation\<close>
  "sensed el v = sum_list (map (\<lambda>(n, _, c). c * v n) (touches el))"

definition element_in :: "nat \<Rightarrow> element \<Rightarrow> bool" where
  "element_in n el \<longleftrightarrow> (\<forall>t \<in> set (touches el). fst t < n)"

lemma stamp_element_touches:
  "stamp_element col el A =
     (let A' = fold (\<lambda>(n, k, c). touch col n k c) (touches el) A in A'(col := (A' col)(col := el_c_j el)))"
  by (simp add: stamp_element_def touches_def touch_opt_def split: option.split)

lemma row_sum_touches:
  assumes "col < N" and "\<forall>t \<in> set ts. fst t < N"
  shows "row_sum N (fold (\<lambda>(n, k, c). touch col n k c) ts A) x r =
    row_sum N A x r + sum_list (map (\<lambda>(n, k, _). single n k r) ts) * x col +
    single col (sum_list (map (\<lambda>(n, _, c). c * x n) ts)) r"
  using assms(2)
proof (induction ts arbitrary: A)
  case (Cons t ts)
  obtain n k c where t: "t = (n, k, c)"
    by (cases t)
  have "single n (k * x col) r = single n k r * x col"
    by (simp add: single_def)
  then show ?case
    using Cons assms(1) by (simp add: t row_sum_touch algebra_simps)
qed simp

lemma touches_diagonal:
  assumes "\<forall>t \<in> set ts. fst t \<noteq> col" and "\<forall>t \<in> set ts. fst t \<noteq> i"
  shows "fold (\<lambda>(n, k, c). touch col n k c) ts A i i = A i i"
  using assms by (induction ts arbitrary: A) (auto simp: touch_def add_at_def)

lemma row_sum_element:
  assumes "element_in n el" and "n \<le> col" and "col < N" and "A col col = 0"
  shows "row_sum N (stamp_element col el A) x r =
    row_sum N A x r + drawn el r * x col + single col (sensed el x + el_c_j el * x col) r"
proof -
  let ?A = "fold (\<lambda>(n, k, c). touch col n k c) (touches el) A"
  have ts: "\<forall>t \<in> set (touches el). fst t < N" "\<forall>t \<in> set (touches el). fst t \<noteq> col"
    using assms by (auto simp: element_in_def)
  have "?A col col = 0"
    using touches_diagonal [OF ts(2) ts(2), of A] assms(4) by simp
  then show ?thesis
    using row_sum_touches [OF assms(3) ts(1), of A x r] row_sum_update [OF assms(3), of ?A col "el_c_j el" x r]
    by (simp add: stamp_element_touches Let_def drawn_def sensed_def)
qed

lemma stamp_element_diagonal:
  assumes "element_in n el" and "n \<le> col" and "n \<le> i" and "i \<noteq> col"
  shows "stamp_element col el A i i = A i i"
  using touches_diagonal [of "touches el" col i A] assms
  by (force simp: stamp_element_touches Let_def element_in_def)

section \<open>The whole system\<close>

definition joined :: "nat \<Rightarrow> cvector \<Rightarrow> cvector \<Rightarrow> cvector" where
  \<comment> \<open>voltages and then currents\<close>
  "joined n v j = (\<lambda>i. if i < n then v i else j (i - n))"

definition coupled :: "coupling list \<Rightarrow> cvector \<Rightarrow> nat \<Rightarrow> complex" where
  "coupled cps j x = sum_list (map (\<lambda>(i, k, z). single i (z * j k) x) cps)"

lemma sensed_joined: "element_in n el \<Longrightarrow> sensed el (joined n v j) = sensed el v"
  unfolding sensed_def element_in_def joined_def by (rule arg_cong [of _ _ sum_list]) auto

definition elements_matrix :: "nat \<Rightarrow> cmatrix \<Rightarrow> element list \<Rightarrow> cmatrix" where
  "elements_matrix n G els =
     fold (\<lambda>(x, el). stamp_element (n + x) el) (enumerate 0 els) (\<lambda>i k. if i < n \<and> k < n then G i k else 0)"

lemma elements_matrix_snoc:
  "elements_matrix n G (els @ [el]) = stamp_element (n + length els) el (elements_matrix n G els)"
  by (simp add: elements_matrix_def enumerate_append_eq)

lemma elements_matrix_diagonal:
  assumes "list_all (element_in n) els" and "length els \<le> x"
  shows "elements_matrix n G els (n + x) (n + x) = 0"
  using assms
proof (induction els rule: rev_induct)
  case Nil
  then show ?case
    by (simp add: elements_matrix_def)
next
  case (snoc el els)
  then show ?case
    by (simp add: elements_matrix_snoc stamp_element_diagonal [where n = n])
qed

lemma row_sum_elements:
  assumes "list_all (element_in n) els" and "n + length els \<le> N"
  shows "row_sum N (elements_matrix n G els) (joined n v j) r =
    (if r < n then (\<Sum>m<n. G r m * v m) else 0) +
    (\<Sum>x<length els. drawn (els ! x) r * j x) +
    (\<Sum>x<length els. single (n + x) (sensed (els ! x) v + el_c_j (els ! x) * j x) r)"
  using assms
proof (induction els rule: rev_induct)
  case Nil
  have "(\<Sum>c<N. (if r < n \<and> c < n then G r c else 0) * joined n v j c) =
      (\<Sum>c<n. (if r < n \<and> c < n then G r c else 0) * joined n v j c)"
    using Nil by (intro sum.mono_neutral_right) auto
  then show ?case
    by (auto simp: row_sum_def elements_matrix_def joined_def)
next
  case (snoc el els)
  have "row_sum N (stamp_element (n + length els) el (elements_matrix n G els)) (joined n v j) r =
      row_sum N (elements_matrix n G els) (joined n v j) r + drawn el r * j (length els) +
      single (n + length els) (sensed el v + el_c_j el * j (length els)) r"
    using snoc.prems row_sum_element [of n el "n + length els" N "elements_matrix n G els" "joined n v j" r]
    by (simp add: elements_matrix_diagonal sensed_joined) (simp add: joined_def)
  then show ?case
    using snoc by (simp add: elements_matrix_snoc nth_append)
qed

lemma row_sum_couplings:
  assumes "\<forall>(i, k, z) \<in> set cps. n + k < N"
  shows "row_sum N (fold (\<lambda>(i, k, z). add_at (n + i) (n + k) z) cps A) (joined n v j) r =
    row_sum N A (joined n v j) r + (if n \<le> r then coupled cps j (r - n) else 0)"
  using assms
proof (induction cps arbitrary: A)
  case Nil
  then show ?case
    by (simp add: coupled_def)
next
  case (Cons c cps)
  obtain i k z where c: "c = (i, k, z)"
    by (cases c)
  then show ?case
    using Cons by (auto simp: row_sum_add_at joined_def coupled_def single_def)
qed

definition solves :: "mna \<Rightarrow> cvector \<Rightarrow> cvector \<Rightarrow> bool" where
  \<comment> \<open>the matrix times the voltages and currents is the right side\<close>
  "solves s v j \<longleftrightarrow>
     (\<forall>r < ms_size s. row_sum (ms_size s) (ms_A s) (joined (ms_n_nodes s) v j) r = ms_rhs s r)"

definition flow :: "nat \<Rightarrow> cmatrix \<Rightarrow> element list \<Rightarrow> cvector \<Rightarrow> cvector \<Rightarrow> nat \<Rightarrow> complex" where
  \<comment> \<open>the current that leaves a node\<close>
  "flow n G els v j k = (\<Sum>m<n. G k m * v m) + (\<Sum>x<length els. drawn (els ! x) k * j x)"

definition equation :: "element list \<Rightarrow> coupling list \<Rightarrow> cvector \<Rightarrow> cvector \<Rightarrow> nat \<Rightarrow> bool" where
  "equation els cps v j x \<longleftrightarrow>
     sensed (els ! x) v + el_c_j (els ! x) * j x + coupled cps j x = el_e (els ! x)"

definition well_stamped :: "nat \<Rightarrow> element list \<Rightarrow> coupling list \<Rightarrow> bool" where
  "well_stamped n els cps \<longleftrightarrow> list_all (element_in n) els \<and>
     (\<forall>(i, k, z) \<in> set cps. i < length els \<and> k < length els)"

lemma sum_list_map_zero: "(\<And>x. x \<in> set xs \<Longrightarrow> f x = 0) \<Longrightarrow> sum_list (map f xs) = (0 :: complex)"
  by (induction xs) auto

lemma drawn_out: "element_in n el \<Longrightarrow> n \<le> r \<Longrightarrow> drawn el r = 0"
  unfolding drawn_def element_in_def single_def by (intro sum_list_map_zero) auto

text \<open>The equations are Kirchhoff's current law at the nodes and the equations of the elements.\<close>

lemma solves_mk_mna:
  assumes "well_stamped n els cps"
  shows "solves (mk_mna n G els ts ps cps z_ref z_ref_at) v j \<longleftrightarrow>
    (\<forall>k < n. flow n G els v j k = 0) \<and> (\<forall>x < length els. equation els cps v j x)"
proof -
  let ?N = "n + length els"
  have els: "list_all (element_in n) els" and cps: "\<forall>(i, k, z) \<in> set cps. n + k < ?N"
    using assms by (auto simp: well_stamped_def)
  have drawn: "drawn (els ! x) r = 0" if "x < length els" "n \<le> r" for x r
    using drawn_out [of n "els ! x" r] els that by (simp add: list_all_length)
  let ?lhs = "row_sum ?N (assemble n G els cps) (joined n v j)"
  have rows: "?lhs r = (if r < n then (\<Sum>m<n. G r m * v m) else 0) +
      (\<Sum>x<length els. drawn (els ! x) r * j x) +
      (\<Sum>x<length els. single (n + x) (sensed (els ! x) v + el_c_j (els ! x) * j x) r) +
      (if n \<le> r then coupled cps j (r - n) else 0)" for r
    using row_sum_couplings [OF cps, of "elements_matrix n G els" v j r] row_sum_elements [OF els, of ?N G v j r]
    by (simp add: assemble_def elements_matrix_def)
  have node: "?lhs k = flow n G els v j k" if "k < n" for k
    using that by (simp add: rows flow_def single_def)
  have element: "?lhs (n + x) = sensed (els ! x) v + el_c_j (els ! x) * j x + coupled cps j x"
    if "x < length els" for x
  proof -
    have "(\<Sum>y<length els. single (n + y) (sensed (els ! y) v + el_c_j (els ! y) * j y) (n + x)) =
        sensed (els ! x) v + el_c_j (els ! x) * j x"
      using that by (simp add: single_def)
    then show ?thesis
      using drawn by (simp add: rows)
  qed
  have split: "(\<forall>r < ?N. P r) \<longleftrightarrow> (\<forall>k < n. P k) \<and> (\<forall>x < length els. P (n + x))" for P
  proof
    assume all: "\<forall>r < ?N. P r"
    show "(\<forall>k < n. P k) \<and> (\<forall>x < length els. P (n + x))"
      using all by simp
  next
    assume parts: "(\<forall>k < n. P k) \<and> (\<forall>x < length els. P (n + x))"
    show "\<forall>r < ?N. P r"
    proof (intro allI impI)
      fix r
      assume r: "r < ?N"
      show "P r"
      proof (cases "r < n")
        case False
        then have "P (n + (r - n))"
          using parts r by (intro parts [THEN conjunct2, rule_format]) simp
        then show ?thesis
          using False by simp
      qed (use parts in simp)
    qed
  qed
  have "solves (mk_mna n G els ts ps cps z_ref z_ref_at) v j \<longleftrightarrow>
      (\<forall>r < ?N. ?lhs r = (if n \<le> r \<and> r < ?N then el_e (els ! (r - n)) else 0))"
    by (simp add: solves_def mk_mna_def)
  also have "\<dots> \<longleftrightarrow> (\<forall>k < n. ?lhs k = 0) \<and> (\<forall>x < length els. ?lhs (n + x) = el_e (els ! x))"
    by (subst split) simp
  also have "\<dots> \<longleftrightarrow> (\<forall>k < n. flow n G els v j k = 0) \<and> (\<forall>x < length els. equation els cps v j x)"
    using node element by (simp add: equation_def)
  finally show ?thesis .
qed

end
