(* ===== verification/Network_Circuit.thy ===== *)
theory Network_Circuit
  imports Network_Laws
begin

text \<open>
  The circuit a network describes, stated without matrices: the law of each branch over the
  voltages of its nodes and its own currents, and the current it draws from each node.  The
  stamps of the reducer add exactly these.
\<close>

section \<open>The circuit\<close>

definition line_law :: "abcd \<Rightarrow> complex \<Rightarrow> complex \<Rightarrow> complex \<Rightarrow> complex \<Rightarrow> bool" where
  \<comment> \<open>a two-port by its chain matrix: \<open>i1\<close> goes in at a, \<open>i2\<close> comes out at b\<close>
  "line_law m va vb i1 i2 \<longleftrightarrow>
     (case m of (A, B, C, D) \<Rightarrow> va = A * vb + B * i2 \<and> i1 = C * vb + D * i2)"

definition series_law :: "legs \<Rightarrow> real \<Rightarrow> complex \<Rightarrow> complex \<Rightarrow> bool" where
  \<comment> \<open>a capacitor of 0 F is an open, all other legs are an impedance\<close>
  "series_law lg \<omega> volts i \<longleftrightarrow>
     (if lg_c lg = Some 0 then i = 0
      else \<exists>z. series_rlc_impedance lg \<omega> = Inr z \<and> volts = z * i)"

definition node_of :: "reducer \<Rightarrow> string \<Rightarrow> nat" where
  "node_of rd name = the (rd_port_to_idx rd name)"

definition width :: "branch \<Rightarrow> nat" where
  \<comment> \<open>how many currents a branch has of its own\<close>
  "width br =
     (case br of
        TL t \<Rightarrow> 2
      | BalancedLine b \<Rightarrow> if bl_zcomm b = None then 2 else 4
      | TwoPort a b lg \<Rightarrow> 1
      | Shunt p lg par \<Rightarrow> if par then 0 else 1
      | Transformer a b n r m \<Rightarrow> 1
      | Autotransformer a b l u k q \<Rightarrow> 2
      | FloatingBalun p a b n r m \<Rightarrow> 1
      | _ \<Rightarrow> 0)"

definition section_impedances :: "real \<Rightarrow> real \<Rightarrow> real \<Rightarrow> real \<Rightarrow> real option \<Rightarrow> complex \<times> complex \<times> complex" where
  \<comment> \<open>of the two sections of a tapped winding, and between them\<close>
  "section_impedances \<omega> l u k q =
     (let r = (\<lambda>l. if truthy q then \<omega> * l / the q else 0)
      in (Complex (r l) (\<omega> * l), Complex (r u) (\<omega> * u), Complex 0 (\<omega> * k * sqrt (l * u))))"

definition branch_laws :: "reducer \<Rightarrow> real \<Rightarrow> real \<Rightarrow> branch \<Rightarrow> cvector \<Rightarrow> cvector \<Rightarrow> bool" where
  "branch_laws rd wavelength \<omega> br v u =
     (let V = (\<lambda>name. v (node_of rd name))
      in case br of
           TL t \<Rightarrow>
             \<exists>m. tl_abcd (tl_z0 t) (tl_length t) wavelength (tl_vf t) (tl_k1 t) (tl_k2 t) (rd_c_light rd) = Inr m \<and>
               line_law m (V (tl_a t)) ((if tl_transposed t then -1 else 1) * V (tl_b t)) (u 0) (u 1)
         | BalancedLine b \<Rightarrow>
             (\<exists>m. tl_abcd (bl_zdiff b) (bl_length b) wavelength (bl_vf b) (bl_k1 b) (bl_k2 b) (rd_c_light rd) = Inr m \<and>
               line_law m (V (bl_a1 b) - V (bl_a2 b)) (V (bl_b1 b) - V (bl_b2 b)) (u 0) (u 1)) \<and>
             (case bl_zcomm b of
                None \<Rightarrow> True
              | Some zc \<Rightarrow>
                  \<exists>m. tl_abcd zc (bl_length b) wavelength (bl_vf b) (bl_k1 b) (bl_k2 b) (rd_c_light rd) = Inr m \<and>
                    line_law m ((V (bl_a1 b) + V (bl_a2 b)) / 2) ((V (bl_b1 b) + V (bl_b2 b)) / 2) (u 2) (u 3))
         | TwoPort a b lg \<Rightarrow> series_law lg \<omega> (V a - V b) (u 0)
         | Shunt p lg par \<Rightarrow> par \<or> series_law lg \<omega> (V p) (u 0)
         | Transformer a b n r m \<Rightarrow> V a = of_real n * V b + winding r * u 0
         | Autotransformer a b l up k q \<Rightarrow>
             (case section_impedances \<omega> l up k q of (z1, z2, zm) \<Rightarrow>
                0 - V a = z1 * u 0 + zm * u 1 \<and> V a - V b = zm * u 0 + z2 * u 1)
         | FloatingBalun p a b n r m \<Rightarrow> V a - V b = of_real n * V p + winding r * u 0
         | _ \<Rightarrow> True)"

definition magnetizing_draw :: "magnetizing \<Rightarrow> real \<Rightarrow> complex \<Rightarrow> complex" where
  "magnetizing_draw m \<omega> volts =
     (case magnetizing_impedance m \<omega> of Inr (Some z) \<Rightarrow> volts / z | _ \<Rightarrow> 0)"

definition block_draw :: "nat list \<Rightarrow> cmatrix \<Rightarrow> cvector \<Rightarrow> nat \<Rightarrow> complex" where
  \<comment> \<open>of an admittance matrix across the nodes\<close>
  "block_draw nodes y v k =
     (\<Sum>i<length nodes. single (nodes ! i) (\<Sum>l<length nodes. y i l * v (nodes ! l)) k)"

definition branch_draws :: "reducer \<Rightarrow> real \<Rightarrow> real \<Rightarrow> branch \<Rightarrow> cvector \<Rightarrow> cvector \<Rightarrow> nat \<Rightarrow> complex" where
  \<comment> \<open>the current that leaves node \<open>k\<close> into the branch\<close>
  "branch_draws rd f_hz \<omega> br v u k =
     (let N = node_of rd; V = (\<lambda>name. v (N name))
      in case br of
           TL t \<Rightarrow> single (N (tl_a t)) (u 0) k - single (N (tl_b t)) ((if tl_transposed t then -1 else 1) * u 1) k
         | BalancedLine b \<Rightarrow>
             (let common = (if bl_zcomm b = None then (0, 0) else (u 2 / 2, u 3 / 2))
              in single (N (bl_a1 b)) (fst common + u 0) k + single (N (bl_a2 b)) (fst common - u 0) k -
                 single (N (bl_b1 b)) (snd common + u 1) k - single (N (bl_b2 b)) (snd common - u 1) k)
         | Admittance ps y \<Rightarrow> block_draw (map N ps) (of_rows y) v k
         | TouchstoneLoad p d \<Rightarrow> single (N p) (ad_y_at d f_hz 0 0 * V p) k
         | TouchstoneTwoPort a b d \<Rightarrow> block_draw [N a, N b] (ad_y_at d f_hz) v k
         | TwoPort a b lg \<Rightarrow> single (N a) (u 0) k - single (N b) (u 0) k
         | Shunt p lg par \<Rightarrow>
             single (N p) (if par then (case parallel_rlc_admittance lg \<omega> of Inr y \<Rightarrow> y * V p | _ \<Rightarrow> 0) else u 0) k
         | Transformer a b n r m \<Rightarrow>
             single (N a) (u 0 + magnetizing_draw m \<omega> (V a)) k - single (N b) (of_real n * u 0) k
         | Autotransformer a b l up kc q \<Rightarrow> single (N a) (u 1 - u 0) k - single (N b) (u 1) k
         | FloatingBalun p a b n r m \<Rightarrow>
             single (N a) (u 0) k - single (N b) (u 0) k +
             single (N p) (magnetizing_draw m \<omega> (V p) - of_real n * u 0) k
         | Load p lg par z \<Rightarrow> 0)"

definition shifted :: "nat \<Rightarrow> cvector \<Rightarrow> cvector" where
  "shifted x u = (\<lambda>y. u (x + y))"

fun all_laws :: "reducer \<Rightarrow> real \<Rightarrow> real \<Rightarrow> branch list \<Rightarrow> cvector \<Rightarrow> cvector \<Rightarrow> bool" where
  \<comment> \<open>the branches have their currents one after the other\<close>
  "all_laws rd wavelength \<omega> [] v u = True"
| "all_laws rd wavelength \<omega> (br # brs) v u =
     (branch_laws rd wavelength \<omega> br v u \<and> all_laws rd wavelength \<omega> brs v (shifted (width br) u))"

fun all_draws :: "reducer \<Rightarrow> real \<Rightarrow> real \<Rightarrow> branch list \<Rightarrow> cvector \<Rightarrow> cvector \<Rightarrow> nat \<Rightarrow> complex" where
  "all_draws rd f_hz \<omega> [] v u k = 0"
| "all_draws rd f_hz \<omega> (br # brs) v u k =
     branch_draws rd f_hz \<omega> br v u k + all_draws rd f_hz \<omega> brs v (shifted (width br) u) k"

definition total_width :: "branch list \<Rightarrow> nat" where
  "total_width brs = sum_list (map width brs)"

section \<open>What a stamp adds\<close>

definition node_flow :: "nat \<Rightarrow> cmatrix \<Rightarrow> cvector \<Rightarrow> nat \<Rightarrow> complex" where
  "node_flow n G v k = (\<Sum>m<n. G k m * v m)"

definition element_laws :: "element list \<Rightarrow> coupling list \<Rightarrow> nat \<Rightarrow> cvector \<Rightarrow> cvector \<Rightarrow> bool" where
  \<comment> \<open>the equations of elements that start at \<open>L\<close>\<close>
  "element_laws els cps L v j \<longleftrightarrow>
     (\<forall>y < length els. sensed (els ! y) v + el_c_j (els ! y) * j (L + y) + coupled cps j (L + y) = el_e (els ! y))"

definition element_flow :: "element list \<Rightarrow> nat \<Rightarrow> cvector \<Rightarrow> nat \<Rightarrow> complex" where
  "element_flow els L j k = (\<Sum>y<length els. drawn (els ! y) k * j (L + y))"

definition adds ::
  "nat \<Rightarrow> stamp \<Rightarrow> nat \<Rightarrow> (cvector \<Rightarrow> cvector \<Rightarrow> bool) \<Rightarrow> (cvector \<Rightarrow> cvector \<Rightarrow> nat \<Rightarrow> complex) \<Rightarrow> stamp \<Rightarrow> bool" where
  \<comment> \<open>\<open>m\<close> elements with these laws and draws\<close>
  "adds n st m law draw st' \<longleftrightarrow>
     (let L = length (st_elements st)
      in \<exists>els cps. st_elements st' = st_elements st @ els \<and> length els = m \<and>
           st_couplings st' = st_couplings st @ cps \<and> list_all (element_in n) els \<and>
           (\<forall>(i, k, z) \<in> set cps. L \<le> i \<and> i < L + m \<and> L \<le> k \<and> k < L + m) \<and>
           (\<forall>v j. element_laws els cps L v j = law v (shifted L j)) \<and>
           (\<forall>v j. \<forall>k < n. node_flow n (st_G st') v k + element_flow els L j k =
              node_flow n (st_G st) v k + draw v (shifted L j) k))"

lemma addsI:
  assumes "st_elements st' = st_elements st @ els" and "length els = m"
    and "st_couplings st' = st_couplings st @ cps" and "list_all (element_in n) els"
    and "\<And>i k z. (i, k, z) \<in> set cps \<Longrightarrow> length (st_elements st) \<le> i \<and> i < length (st_elements st) + m \<and>
      length (st_elements st) \<le> k \<and> k < length (st_elements st) + m"
    and "\<And>v j. element_laws els cps (length (st_elements st)) v j = law v (shifted (length (st_elements st)) j)"
    and "\<And>v j k. k < n \<Longrightarrow> node_flow n (st_G st') v k + element_flow els (length (st_elements st)) j k =
      node_flow n (st_G st) v k + draw v (shifted (length (st_elements st)) j) k"
  shows "adds n st m law draw st'"
  unfolding adds_def Let_def
  by (rule exI [of _ els], rule exI [of _ cps]) (use assms in \<open>auto simp del: split_paired_All\<close>)

lemma shifted_shifted: "shifted x (shifted y u) = shifted (y + x) u"
  by (simp add: shifted_def add.assoc)

lemma shifted_0 [simp]: "shifted 0 u = u"
  by (simp add: shifted_def)

lemma shifted_apply [simp]: "shifted x u y = u (x + y)"
  by (simp add: shifted_def)

lemma coupled_append: "coupled (cps @ cps') j x = coupled cps j x + coupled cps' j x"
  by (simp add: coupled_def)

lemma coupled_out: "(\<And>i k z. (i, k, z) \<in> set cps \<Longrightarrow> i \<noteq> x) \<Longrightarrow> coupled cps j x = 0"
  unfolding coupled_def single_def by (intro sum_list_map_zero) fastforce

lemma split_below: "(\<forall>y < m + m'. P y) \<longleftrightarrow> (\<forall>y < m. P y) \<and> (\<forall>y < m'. P (m + y :: nat))"
proof
  assume "(\<forall>y < m. P y) \<and> (\<forall>y < m'. P (m + y))"
  moreover have "P y" if "\<not> y < m" "y < m + m'" "\<forall>y < m'. P (m + y)" for y
    using that(1,2) that(3) [rule_format, of "y - m"] by simp
  ultimately show "\<forall>y < m + m'. P y"
    by blast
qed simp

lemma element_laws_append:
  assumes "\<And>i k z. (i, k, z) \<in> set cps \<Longrightarrow> i < L + length els"
    and "\<And>i k z. (i, k, z) \<in> set cps' \<Longrightarrow> L + length els \<le> i"
  shows "element_laws (els @ els') (cps @ cps') L v j \<longleftrightarrow>
    element_laws els cps L v j \<and> element_laws els' cps' (L + length els) v j"
proof -
  have "coupled cps' j (L + y) = 0" if "y < length els" for y
    using that assms(2) by (intro coupled_out) force
  moreover have "coupled cps j (L + (length els + y)) = 0" for y
    using assms(1) by (intro coupled_out) force
  ultimately show ?thesis
    unfolding element_laws_def by (simp add: split_below coupled_append nth_append add.assoc)
qed

lemma element_flow_append:
  "element_flow (els @ els') L j k = element_flow els L j k + element_flow els' (L + length els) j k"
proof -
  have "(\<Sum>y<length els + m. f y) = (\<Sum>y<length els. f y) + (\<Sum>y<m. f (length els + y))" for m and f :: "nat \<Rightarrow> complex"
    by (induction m) (simp_all add: add.assoc)
  then show ?thesis
    by (simp add: element_flow_def nth_append add.assoc)
qed

lemma adds_trans:
  assumes "adds n st m law draw st1" and "adds n st1 m' law' draw' st2"
  shows "adds n st (m + m') (\<lambda>v u. law v u \<and> law' v (shifted m u))
    (\<lambda>v u k. draw v u k + draw' v (shifted m u) k) st2"
proof -
  let ?L = "length (st_elements st)"
  obtain els cps where 1: "st_elements st1 = st_elements st @ els" "length els = m"
      "st_couplings st1 = st_couplings st @ cps" "list_all (element_in n) els"
      "\<forall>(i, k, z) \<in> set cps. ?L \<le> i \<and> i < ?L + m \<and> ?L \<le> k \<and> k < ?L + m"
      "\<forall>v j. element_laws els cps ?L v j = law v (shifted ?L j)"
      "\<forall>v j. \<forall>k < n. node_flow n (st_G st1) v k + element_flow els ?L j k =
         node_flow n (st_G st) v k + draw v (shifted ?L j) k"
    using assms(1) unfolding adds_def Let_def by blast
  have L1: "length (st_elements st1) = ?L + m"
    using 1(1,2) by simp
  obtain els' cps' where 2: "st_elements st2 = st_elements st1 @ els'" "length els' = m'"
      "st_couplings st2 = st_couplings st1 @ cps'" "list_all (element_in n) els'"
      "\<forall>(i, k, z) \<in> set cps'. ?L + m \<le> i \<and> i < ?L + m + m' \<and> ?L + m \<le> k \<and> k < ?L + m + m'"
      "\<forall>v j. element_laws els' cps' (?L + m) v j = law' v (shifted (?L + m) j)"
      "\<forall>v j. \<forall>k < n. node_flow n (st_G st2) v k + element_flow els' (?L + m) j k =
         node_flow n (st_G st1) v k + draw' v (shifted (?L + m) j) k"
    using assms(2) unfolding adds_def Let_def L1 by blast
  show ?thesis
  proof (rule addsI [where els = "els @ els'" and cps = "cps @ cps'"])
    fix v j
    have "element_laws (els @ els') (cps @ cps') ?L v j \<longleftrightarrow>
        element_laws els cps ?L v j \<and> element_laws els' cps' (?L + m) v j"
      using 1(2,5) 2(5) by (subst element_laws_append) auto
    then show "element_laws (els @ els') (cps @ cps') ?L v j =
        (law v (shifted ?L j) \<and> law' v (shifted m (shifted ?L j)))"
      using 1(6) 2(6) by (simp add: shifted_shifted)
  next
    fix v j k
    assume k: "k < n"
    have "node_flow n (st_G st2) v k + element_flow (els @ els') ?L j k =
        node_flow n (st_G st2) v k + element_flow els' (?L + m) j k + element_flow els ?L j k"
      using 1(2) by (simp add: element_flow_append)
    also have "\<dots> = node_flow n (st_G st1) v k + element_flow els ?L j k + draw' v (shifted (?L + m) j) k"
      using 2(7) k by simp
    also have "\<dots> = node_flow n (st_G st) v k + draw v (shifted ?L j) k + draw' v (shifted (?L + m) j) k"
      using 1(7) k by simp
    finally show "node_flow n (st_G st2) v k + element_flow (els @ els') ?L j k =
        node_flow n (st_G st) v k + (draw v (shifted ?L j) k + draw' v (shifted m (shifted ?L j)) k)"
      by (simp add: shifted_shifted add.assoc)
  qed (use 1 2 in \<open>auto simp: L1\<close>)
qed

lemma adds_cong:
  assumes "adds n st m law draw st'"
    and "\<And>v u. law v u = law' v u" and "\<And>v u k. k < n \<Longrightarrow> draw v u k = draw' v u k"
  shows "adds n st m law' draw' st'"
  using assms unfolding adds_def Let_def by simp

end
