(* ===== verification/Network_Stamping.thy ===== *)
theory Network_Stamping
  imports Network_Circuit
begin

text \<open>
  Each stamp of the reducer adds the law and the draws of its branch, and the terminations
  those of the sources and their loads, so that the assembled equations are the circuit.
\<close>

section \<open>The primitive stamps\<close>

lemma node_flow_row_sum: "node_flow n G v k = row_sum n G v k"
  by (simp add: node_flow_def row_sum_def)

lemma element_laws_Nil [simp]: "element_laws [] cps L v j"
  by (simp add: element_laws_def)

lemma element_flow_Nil [simp]: "element_flow [] L j k = 0"
  by (simp add: element_flow_def)

lemma coupled_Nil [simp]: "coupled [] j x = 0"
  by (simp add: coupled_def)

lemma adds_nothing:
  assumes "st_elements st' = st_elements st" "st_couplings st' = st_couplings st" "st_G st' = st_G st"
  shows "adds n st 0 (\<lambda>_ _. True) (\<lambda>_ _ _. 0) st'"
  by (rule addsI [where els = "[]" and cps = "[]"]) (use assms in simp_all)

lemma adds_probe: "adds n st 0 (\<lambda>_ _. True) (\<lambda>_ _ _. 0) (add_probe p st)"
  by (rule adds_nothing) (simp_all add: add_probe_def)

lemma adds_element:
  assumes "element_in n el"
  shows "adds n st 1 (\<lambda>v u. sensed el v + el_c_j el * u 0 = el_e el) (\<lambda>v u k. drawn el k * u 0)
    (add_element el st)"
  by (rule addsI [where els = "[el]" and cps = "[]"])
    (use assms in \<open>simp_all add: add_element_def element_laws_def element_flow_def\<close>)

lemma adds_node:
  assumes "i < n"
  shows "adds n st 0 (\<lambda>_ _. True) (\<lambda>v u k. single i (y * v i) k) (add_node i y st)"
  by (rule addsI [where els = "[]" and cps = "[]"])
    (use assms in \<open>simp_all add: add_node_def node_flow_row_sum row_sum_add_at\<close>)

text \<open>
  Numpy's \<^verbatim>\<open>G[np.ix_(idxs, idxs)] += y\<close> assigns sums that were formed before, so of the entries of
  \<open>y\<close> that fall on one place of \<open>G\<close> the last stays.
\<close>

definition last_mention :: "nat list \<Rightarrow> nat \<Rightarrow> bool" where
  "last_mention idxs i \<longleftrightarrow> i < length idxs \<and> idxs ! i \<notin> set (drop (Suc i) idxs)"

definition kept :: "nat list \<Rightarrow> cmatrix \<Rightarrow> cmatrix" where
  \<comment> \<open>what the stamp keeps of a block: the entries for the last mentions of the nodes\<close>
  "kept idxs y i l = (if last_mention idxs i \<and> last_mention idxs l then y i l else 0)"

lemma last_mention_later: "last_mention idxs i \<Longrightarrow> i < i' \<Longrightarrow> i' < length idxs \<Longrightarrow> idxs ! i' \<noteq> idxs ! i"
proof
  assume "last_mention idxs i" "i < i'" "i' < length idxs" "idxs ! i' = idxs ! i"
  then have "drop (Suc i) idxs ! (i' - Suc i) = idxs ! i" "i' - Suc i < length (drop (Suc i) idxs)"
    by simp_all
  then have "idxs ! i \<in> set (drop (Suc i) idxs)"
    by (metis nth_mem)
  then show False
    using \<open>last_mention idxs i\<close> by (simp add: last_mention_def)
qed

lemma last_mention_distinct: "distinct idxs \<Longrightarrow> last_mention idxs i \<longleftrightarrow> i < length idxs"
proof -
  assume "distinct idxs"
  then have "idxs ! i \<notin> set (drop (Suc i) idxs)" if "i < length idxs"
    using that by (metis distinct.simps(2) distinct_drop Cons_nth_drop_Suc)
  then show ?thesis
    by (auto simp: last_mention_def)
qed

lemma last_mention_bij: "bij_betw ((!) idxs) {i. last_mention idxs i} (set idxs)"
  unfolding bij_betw_def
proof
  show "inj_on ((!) idxs) {i. last_mention idxs i}"
  proof (rule inj_onI)
    fix i k
    assume "i \<in> {i. last_mention idxs i}" "k \<in> {i. last_mention idxs i}" "idxs ! i = idxs ! k"
    then show "i = k"
      using last_mention_later [of idxs i k] last_mention_later [of idxs k i]
      by (cases i k rule: linorder_cases) (auto simp: last_mention_def)
  qed
  show "(!) idxs ` {i. last_mention idxs i} = set idxs"
  proof
    show "(!) idxs ` {i. last_mention idxs i} \<subseteq> set idxs"
      by (auto simp: last_mention_def)
    show "set idxs \<subseteq> (!) idxs ` {i. last_mention idxs i}"
    proof
      fix x
      assume "x \<in> set idxs"
      then obtain xs ys where xs: "idxs = xs @ x # ys" "x \<notin> set ys"
        by (meson split_list_last)
      then have "last_mention idxs (length xs) \<and> idxs ! length xs = x"
        by (simp add: last_mention_def)
      then show "x \<in> (!) idxs ` {i. last_mention idxs i}"
        by (intro image_eqI [of _ _ "length xs"]) auto
    qed
  qed
qed

lemma assigned_elsewhere:
  assumes "\<forall>(i, k) \<in> set ps. a i \<noteq> r \<or> a k \<noteq> c"
  shows "fold (\<lambda>(i, k) A. A(a i := (A (a i))(a k := h i k))) ps G r c = (G r c :: complex)"
  using assms
proof (induction ps rule: rev_induct)
  case (snoc p ps)
  then show ?case
    by (cases p) auto
qed simp

lemma assigned_last:
  assumes "\<forall>(i', k') \<in> set qs. a i' \<noteq> a i \<or> a k' \<noteq> a k"
  shows "fold (\<lambda>(i, k) A. A(a i := (A (a i))(a k := h i k))) (ps @ (i, k) # qs) G (a i) (a k) = (h i k :: complex)"
  using assigned_elsewhere [OF assms, of h "fold (\<lambda>(i, k) A. A(a i := (A (a i))(a k := h i k))) (ps @ [(i, k)]) G"]
  by simp

lemma stamp_block_apply:
  assumes "last_mention idxs i" and "last_mention idxs k"
  shows "stamp_block idxs y G (idxs ! i) (idxs ! k) = G (idxs ! i) (idxs ! k) + y i k"
proof -
  let ?m = "length idxs"
  have m: "i < ?m" "k < ?m"
    using assms by (simp_all add: last_mention_def)
  have cut: "[0..<?m] = [0..<x] @ x # [Suc x..<?m]" if "x < ?m" for x
    using that upt_add_eq_append [of 0 x "?m - x"] upt_conv_Cons [of x ?m] by simp
  have split: "List.product (xs @ x # ys) zs = List.product xs zs @ map (Pair x) zs @ List.product ys zs"
    for xs ys zs :: "nat list" and x
    by (simp add: product_concat_map)
  let ?after = "map (Pair i) [Suc k..<?m] @ List.product [Suc i..<?m] [0..<?m]"
  have order: "List.product [0..<?m] [0..<?m] =
      (List.product [0..<i] [0..<?m] @ map (Pair i) [0..<k]) @ (i, k) # ?after"
    by (subst (1) cut [OF m(1)], subst split, subst (2) cut [OF m(2)]) simp
  have "\<forall>(i', k') \<in> set ?after. idxs ! i' \<noteq> idxs ! i \<or> idxs ! k' \<noteq> idxs ! k"
    using last_mention_later [OF assms(1)] last_mention_later [OF assms(2)] by auto
  then show ?thesis
    unfolding stamp_block_def order by (rule assigned_last)
qed

lemma stamp_block_elsewhere: "r \<notin> set idxs \<or> c \<notin> set idxs \<Longrightarrow> stamp_block idxs y G r c = G r c"
  unfolding stamp_block_def by (rule assigned_elsewhere) auto

lemma node_flow_block:
  assumes "\<forall>i \<in> set idxs. i < n"
  shows "node_flow n (stamp_block idxs y G) v r = node_flow n G v r + block_draw idxs (kept idxs y) v r"
proof -
  let ?S = "{i. last_mention idxs i}"
  have S: "finite ?S" "?S \<subseteq> {..<length idxs}"
    by (auto simp: last_mention_def intro: finite_subset [of _ "{..<length idxs}"])
  show ?thesis
  proof (cases "r \<in> set idxs")
    case True
    then obtain i where i: "last_mention idxs i" "r = idxs ! i"
      using bij_betw_imp_surj_on [OF last_mention_bij [of idxs]] by blast
    have "node_flow n (stamp_block idxs y G) v r =
        (\<Sum>c<n. G r c * v c + (stamp_block idxs y G r c - G r c) * v c)"
      unfolding node_flow_def by (simp add: algebra_simps)
    also have "\<dots> = node_flow n G v r + (\<Sum>c<n. (stamp_block idxs y G r c - G r c) * v c)"
      by (simp add: sum.distrib node_flow_def)
    also have "(\<Sum>c<n. (stamp_block idxs y G r c - G r c) * v c) =
        (\<Sum>c\<in>set idxs. (stamp_block idxs y G r c - G r c) * v c)"
      by (rule sum.mono_neutral_right) (use assms in \<open>auto simp: stamp_block_elsewhere\<close>)
    also have "\<dots> = (\<Sum>l\<in>?S. y i l * v (idxs ! l))"
      unfolding sum.reindex_bij_betw [OF last_mention_bij, symmetric] i(2)
      by (rule sum.cong) (simp_all add: stamp_block_apply i(1))
    also have "\<dots> = (\<Sum>l<length idxs. kept idxs y i l * v (idxs ! l))"
      by (rule sum.mono_neutral_cong_left) (use S i(1) in \<open>auto simp: kept_def\<close>)
    also have "\<dots> = (\<Sum>i'\<in>{i}. single (idxs ! i') (\<Sum>l<length idxs. kept idxs y i' l * v (idxs ! l)) r)"
      by (simp add: single_def i(2))
    also have "\<dots> = block_draw idxs (kept idxs y) v r"
      unfolding block_draw_def
    proof (rule sum.mono_neutral_left)
      show "\<forall>i' \<in> {..<length idxs} - {i}. single (idxs ! i') (\<Sum>l<length idxs. kept idxs y i' l * v (idxs ! l)) r = 0"
      proof
        fix i'
        assume i': "i' \<in> {..<length idxs} - {i}"
        show "single (idxs ! i') (\<Sum>l<length idxs. kept idxs y i' l * v (idxs ! l)) r = 0"
        proof (cases "last_mention idxs i'")
          case True
          then have "idxs ! i' \<noteq> r"
            using i i' bij_betw_imp_inj_on [OF last_mention_bij [of idxs]] by (auto simp: inj_on_def)
          then show ?thesis
            by (simp add: single_def)
        qed (simp add: kept_def single_def)
      qed
    qed (use i(1) in \<open>auto simp: last_mention_def\<close>)
    finally show ?thesis .
  next
    case False
    then have "single (idxs ! i) z r = 0" if "i < length idxs" for i z
      using that by (auto simp: single_def)
    then show ?thesis
      using False by (simp add: block_draw_def node_flow_def stamp_block_elsewhere)
  qed
qed

lemma adds_block:
  assumes "\<forall>i \<in> set idxs. i < n"
  shows "adds n st 0 (\<lambda>_ _. True) (\<lambda>v u k. block_draw idxs (kept idxs y) v k) (add_block idxs y st)"
  by (rule addsI [where els = "[]" and cps = "[]"])
    (simp_all add: add_block_def node_flow_block [OF assms])

lemma block_draw_cong:
  assumes "\<And>i l. i < length idxs \<Longrightarrow> l < length idxs \<Longrightarrow> y i l = y' i l"
  shows "block_draw idxs y v k = block_draw idxs y' v k"
  unfolding block_draw_def using assms by (intro sum.cong refl arg_cong2 [where f = "single _"]) simp_all

lemma block_draw_kept: "distinct idxs \<Longrightarrow> block_draw idxs (kept idxs y) v k = block_draw idxs y v k"
  by (rule block_draw_cong) (simp add: kept_def last_mention_distinct)

definition weighted_draw :: "weights \<Rightarrow> complex \<Rightarrow> nat \<Rightarrow> complex" where
  "weighted_draw port i k = sum_list (map (\<lambda>(n, w). single n (w * i) k) port)"

lemma sum_list_scale: "sum_list (map (\<lambda>x. c * f x) xs) = c * sum_list (map f xs)" for c :: complex
  by (induction xs) (simp_all add: algebra_simps)

lemma weighted_draw_scale: "weighted_draw port i k = sum_list (map (\<lambda>(n, w). single n w k) port) * i"
  unfolding weighted_draw_def by (induction port) (auto simp: single_def algebra_simps)

definition chain_elements :: "weights \<Rightarrow> weights \<Rightarrow> abcd \<Rightarrow> element list" where
  "chain_elements port_a port_b m =
     (case m of (A, B, C, D) \<Rightarrow>
        [(group2 None None 0 0 0)\<lparr>el_terms :=
           Some (map (\<lambda>(n, w). (n, w, w)) port_a @ map (\<lambda>(n, w). (n, 0, - A * w)) port_b)\<rparr>,
         (group2 None None 0 (- D) 0)\<lparr>el_terms := Some (map (\<lambda>(n, w). (n, - w, - C * w)) port_b)\<rparr>])"

lemma chain_elements_values:
  assumes "m = (A, B, C, D)"
  shows "sensed (chain_elements port_a port_b m ! 0) v = weighted port_a v - A * weighted port_b v"
    and "sensed (chain_elements port_a port_b m ! 1) v = - C * weighted port_b v"
    and "drawn (chain_elements port_a port_b m ! 0) k * i = weighted_draw port_a i k"
    and "drawn (chain_elements port_a port_b m ! 1) k * i = - weighted_draw port_b i k"
    and "el_c_j (chain_elements port_a port_b m ! 0) = 0" "el_c_j (chain_elements port_a port_b m ! 1) = - D"
    and "el_e (chain_elements port_a port_b m ! 0) = 0" "el_e (chain_elements port_a port_b m ! 1) = 0"
proof -
  have neg: "sum_list (map (\<lambda>(n, w). - C * w * v n) port) = - C * weighted port v" for port C
    unfolding weighted_def by (induction port) (auto simp: algebra_simps)
  have zero: "sum_list (map (\<lambda>(n, w). single n 0 k) port) = 0" for port :: weights
    by (induction port) auto
  have minus: "sum_list (map (\<lambda>(n, w). single n (- w) k) port) = - sum_list (map (\<lambda>(n, w). single n w k) port)" for port
    by (induction port) auto
  note sums = sensed_def drawn_def touches_def chain_elements_def assms group2_def comp_def case_prod_unfold
  show "sensed (chain_elements port_a port_b m ! 0) v = weighted port_a v - A * weighted port_b v"
    using neg [of A port_b] by (simp add: sums weighted_def)
  show "sensed (chain_elements port_a port_b m ! 1) v = - C * weighted port_b v"
    using neg [of C port_b] by (simp add: sums weighted_def)
  show "drawn (chain_elements port_a port_b m ! 0) k * i = weighted_draw port_a i k"
    using zero [of port_b] by (simp add: sums weighted_draw_scale)
  show "drawn (chain_elements port_a port_b m ! 1) k * i = - weighted_draw port_b i k"
    using minus [of port_b] by (simp add: sums weighted_draw_scale)
qed (simp_all add: chain_elements_def assms group2_def)

lemma all_below_2: "(\<forall>y < 2. P y) \<longleftrightarrow> P 0 \<and> P (1 :: nat)"
  by (auto simp: less_2_cases_iff)

lemma sum_below_2: "(\<Sum>y<2. f y) = f 0 + f (1 :: nat)"
  by (simp add: numeral_2_eq_2)

lemma length_chain_elements: "length (chain_elements port_a port_b m) = 2"
  by (simp add: chain_elements_def split: prod.split)

lemma add_line_fields:
  assumes "add_line port_a port_b m st = (st', leg)" and "m = (A, B, C, D)"
  shows "st_elements st' = st_elements st @ chain_elements port_a port_b m"
    and "st_couplings st' = st_couplings st @
      [(length (st_elements st), Suc (length (st_elements st)), - B), (Suc (length (st_elements st)), length (st_elements st), 1)]"
    and "st_G st' = st_G st" and "st_loads st' = st_loads st" and "st_probes st' = st_probes st"
    and "leg = (length (st_elements st), Suc (length (st_elements st)), port_a, port_b)"
  using assms by (auto simp: add_line_def stamp_abcd_def chain_elements_def Let_def)

lemma adds_line:
  assumes "add_line port_a port_b m st = (st', leg)"
    and "\<forall>p \<in> set port_a. fst p < n" and "\<forall>p \<in> set port_b. fst p < n"
  shows "adds n st 2 (\<lambda>v u. line_law m (weighted port_a v) (weighted port_b v) (u 0) (u 1))
    (\<lambda>v u k. weighted_draw port_a (u 0) k - weighted_draw port_b (u 1) k) st'"
proof -
  obtain A B C D where m: "m = (A, B, C, D)"
    by (cases m)
  let ?L = "length (st_elements st)" and ?els = "chain_elements port_a port_b m"
  let ?cps = "[(?L, Suc ?L, - B), (Suc ?L, ?L, 1)]"
  note vals = chain_elements_values [OF m]
  note fields = add_line_fields [OF assms(1) m]
  show ?thesis
  proof (rule addsI [where els = ?els and cps = ?cps])
    show "list_all (element_in n) ?els"
      using assms(2,3) by (auto simp: chain_elements_def m element_in_def touches_def)
  next
    fix v j
    have "coupled ?cps j ?L = - B * j (Suc ?L)" "coupled ?cps j (Suc ?L) = j ?L"
      by (simp_all add: coupled_def single_def)
    then have "element_laws ?els ?cps ?L v j \<longleftrightarrow>
        weighted port_a v - A * weighted port_b v - B * j (Suc ?L) = 0 \<and>
        - C * weighted port_b v - D * j (Suc ?L) + j ?L = 0"
      unfolding element_laws_def length_chain_elements all_below_2 vals by simp
    also have "\<dots> \<longleftrightarrow> line_law m (weighted port_a v) (weighted port_b v) (shifted ?L j 0) (shifted ?L j 1)"
      by (auto simp: line_law_def m algebra_simps)
    finally show "element_laws ?els ?cps ?L v j =
        line_law m (weighted port_a v) (weighted port_b v) (shifted ?L j 0) (shifted ?L j 1)" .
  next
    fix v j k
    have "element_flow ?els ?L j k = weighted_draw port_a (j ?L) k - weighted_draw port_b (j (Suc ?L)) k"
      unfolding element_flow_def length_chain_elements sum_below_2 vals by simp
    then show "node_flow n (st_G st') v k + element_flow ?els ?L j k =
        node_flow n (st_G st) v k + (weighted_draw port_a (shifted ?L j 0) k - weighted_draw port_b (shifted ?L j 1) k)"
      by (simp add: fields(3))
  qed (use fields in \<open>auto simp: length_chain_elements\<close>)
qed

section \<open>Branches\<close>

definition nodes_below :: "reducer \<Rightarrow> nat \<Rightarrow> bool" where
  "nodes_below rd n \<longleftrightarrow> (\<forall>p k. rd_port_to_idx rd p = Some k \<longrightarrow> k < n)"

definition apart :: "reducer \<Rightarrow> branch \<Rightarrow> bool" where
  \<comment> \<open>an admittance matrix spans different nodes\<close>
  "apart rd br =
     (case br of
        Admittance ps y \<Rightarrow> distinct (map (node_of rd) ps)
      | TouchstoneTwoPort a b d \<Rightarrow> node_of rd a \<noteq> node_of rd b
      | _ \<Rightarrow> True)"

definition as_stamped :: "reducer \<Rightarrow> branch \<Rightarrow> branch" where
  \<comment> \<open>the branch the stamp really adds: of an admittance matrix that names a node twice, what is kept\<close>
  "as_stamped rd br =
     (case br of
        Admittance ps y \<Rightarrow>
          (let idxs = map (node_of rd) ps; m = length ps
           in Admittance ps (map (\<lambda>i. map (kept idxs (of_rows y) i) [0..<m]) [0..<m]))
      | TouchstoneTwoPort a b d \<Rightarrow>
          TouchstoneTwoPort a b (d\<lparr>ad_y_at := \<lambda>f. kept [node_of rd a, node_of rd b] (ad_y_at d f)\<rparr>)
      | _ \<Rightarrow> br)"

lemma as_stamped_same [simp]:
  "as_stamped rd (TL t) = TL t" "as_stamped rd (BalancedLine bl) = BalancedLine bl"
  "as_stamped rd (TwoPort a b lg) = TwoPort a b lg" "as_stamped rd (Shunt p lg par) = Shunt p lg par"
  "as_stamped rd (Load p lg par z) = Load p lg par z" "as_stamped rd (Transformer a b n r m) = Transformer a b n r m"
  "as_stamped rd (Autotransformer a b l up k q) = Autotransformer a b l up k q"
  "as_stamped rd (FloatingBalun p a b n r m) = FloatingBalun p a b n r m"
  "as_stamped rd (TouchstoneLoad p d) = TouchstoneLoad p d"
  by (simp_all add: as_stamped_def)

lemma as_stamped_width [simp]: "width (as_stamped rd br) = width br"
  by (cases br) (simp_all add: as_stamped_def width_def Let_def)

lemma as_stamped_laws: "branch_laws rd wavelength \<omega> (as_stamped rd br) v u = branch_laws rd wavelength \<omega> br v u"
  by (cases br) (simp_all add: as_stamped_def branch_laws_def Let_def)

lemma as_stamped_block:
  "branch_draws rd f_hz \<omega> (as_stamped rd (Admittance ps y)) v u k =
     block_draw (map (node_of rd) ps) (kept (map (node_of rd) ps) (of_rows y)) v k"
  by (simp add: as_stamped_def branch_draws_def Let_def, rule block_draw_cong) (simp add: of_rows_def)

lemma as_stamped_apart:
  assumes "apart rd br"
  shows "branch_draws rd f_hz \<omega> (as_stamped rd br) v u k = branch_draws rd f_hz \<omega> br v u k"
proof (cases br)
  case (Admittance ps y)
  then show ?thesis
    using assms unfolding Admittance as_stamped_block
    by (simp add: apart_def branch_draws_def Let_def block_draw_kept)
next
  case (TouchstoneTwoPort a b d)
  then show ?thesis
    using assms by (simp add: apart_def as_stamped_def branch_draws_def Let_def block_draw_kept)
qed (simp_all add: as_stamped_def)

lemma lookupE_node:
  "lookupE (rd_port_to_idx rd) p = Inr k \<longleftrightarrow> rd_port_to_idx rd p \<noteq> None \<and> node_of rd p = k"
  by (auto simp: lookupE_def node_of_def split: option.splits)

lemma lookupE_below: "lookupE (rd_port_to_idx rd) p = Inr k \<Longrightarrow> nodes_below rd n \<Longrightarrow> k < n"
  by (auto simp: lookupE_def nodes_below_def split: option.splits)

lemma mapE_nodes:
  "mapE (lookupE (rd_port_to_idx rd)) ps = Inr idxs \<Longrightarrow> nodes_below rd n \<Longrightarrow>
     idxs = map (node_of rd) ps \<and> (\<forall>i \<in> set idxs. i < n)"
  by (induction ps arbitrary: idxs) (auto simp: okE lookupE_node nodes_below_def node_of_def)

lemma divE_Inr: "divE x y = Inr z \<longleftrightarrow> y \<noteq> 0 \<and> z = x / y"
  by (auto simp: divE_def)

lemmas element_simps = sensed_def drawn_def touches_def group2_def or_else_def element_in_def

lemma adds_add_probe:
  "adds n st m law draw st' \<Longrightarrow> adds n st m law draw (add_probe p st')"
  using adds_trans [OF _ adds_probe, of n st m law draw st' p] by simp

lemma adds_from_probe:
  assumes "adds n (add_probe p st) m law draw st'"
  shows "adds n st m law draw st'"
  using adds_trans [OF adds_probe assms] by simp

definition end_draw :: "nat option \<Rightarrow> complex \<Rightarrow> nat \<Rightarrow> complex" where
  "end_draw a i k = (case a of None \<Rightarrow> 0 | Some n \<Rightarrow> single n i k)"

lemma group2_values:
  "sensed (group2 a b c_v c_j e) v = c_v * (volts_at b v - volts_at a v)"
  "drawn (group2 a b c_v c_j e) k = end_draw a 1 k - end_draw b 1 k"
  "element_in N (group2 a b c_v c_j e) \<longleftrightarrow> (\<forall>n \<in> set_option a \<union> set_option b. n < N)"
  "el_c_j (group2 a b c_v c_j e) = c_j" "el_e (group2 a b c_v c_j e) = e"
proof -
  show "sensed (group2 a b c_v c_j e) v = c_v * (volts_at b v - volts_at a v)"
    by (cases a; cases b) (simp_all add: element_simps volts_at_def algebra_simps)
  show "drawn (group2 a b c_v c_j e) k = end_draw a 1 k - end_draw b 1 k"
    by (cases a; cases b) (simp_all add: element_simps end_draw_def)
  show "element_in N (group2 a b c_v c_j e) \<longleftrightarrow> (\<forall>n \<in> set_option a \<union> set_option b. n < N)"
    by (cases a; cases b) (auto simp: element_simps)
qed (simp_all add: group2_def)

lemma end_draw_scale: "end_draw a 1 k * i = end_draw a i k"
  by (cases a) (simp_all add: end_draw_def single_def)

lemma series_group2_cases:
  assumes "series_group2 a b lg \<omega> 0 = Inr el"
  obtains (Open) "lg_c lg = Some 0" "el = group2 a b 0 1 0"
  | (Impedance) z where "lg_c lg \<noteq> Some 0" "series_rlc_impedance lg \<omega> = Inr z" "el = group2 a b 1 z 0"
  using assms by (auto simp: series_group2_def okE split: if_splits)

lemma series_group2_law:
  assumes "series_group2 a b lg \<omega> 0 = Inr el"
  shows "sensed el v + el_c_j el * i = el_e el \<longleftrightarrow> series_law lg \<omega> (volts_at a v - volts_at b v) i"
    and "drawn el k * i = end_draw a i k - end_draw b i k"
    and "(\<forall>n \<in> set_option a \<union> set_option b. n < N) \<Longrightarrow> element_in N el"
  using assms
  by (cases rule: series_group2_cases; simp add: group2_values series_law_def left_diff_distrib end_draw_scale;
      auto simp: algebra_simps)+

lemma single_scale: "single n 1 k * z = single n z k"
  by (simp add: single_def)

lemma adds_series:
  assumes "series_group2 a b lg \<omega> 0 = Inr el" and "\<forall>n \<in> set_option a \<union> set_option b. n < N"
  shows "adds N st 1 (\<lambda>v u. series_law lg \<omega> (volts_at a v - volts_at b v) (u 0))
    (\<lambda>v u k. end_draw a (u 0) k - end_draw b (u 0) k) (add_element el st)"
  using adds_element [OF series_group2_law(3) [OF assms], of st]
  by (rule adds_cong) (simp_all only: series_group2_law(1,2) [OF assms(1)])

lemma adds_magnetizing:
  assumes "add_magnetizing i m \<omega> probe st = Inr st'" and "i < n"
  shows "adds n st 0 (\<lambda>_ _. True) (\<lambda>v u k. single i (magnetizing_draw m \<omega> (v i)) k) st'"
proof -
  obtain zl where zl: "magnetizing_impedance m \<omega> = Inr zl"
    using assms(1) by (auto simp: add_magnetizing_def okE)
  show ?thesis
  proof (cases zl)
    case None
    then have "st' = st"
      using assms(1) zl by (simp add: add_magnetizing_def)
    then show ?thesis
      using adds_nothing [of st st n] zl None by (simp add: magnetizing_draw_def)
  next
    case (Some z)
    then have st': "st' = add_probe (probe (Group1 [i] (\<lambda>_ _. 1 / z))) (add_node i (1 / z) st)"
      using assms(1) zl by (auto simp: add_magnetizing_def okE divE_Inr)
    have "adds n st 0 (\<lambda>_ _. True) (\<lambda>v u k. single i (1 / z * v i) k) st'"
      unfolding st' by (intro adds_add_probe adds_node assms(2))
    then show ?thesis
      by (rule adds_cong) (simp_all add: magnetizing_draw_def zl Some)
  qed
qed

lemma adds_tl:
  assumes "stamp_tl rd wavelength path i t st = Inr st'" and "nodes_below rd n"
  shows "adds n st 2 (branch_laws rd wavelength \<omega> (TL t)) (branch_draws rd f_hz \<omega> (TL t)) st'"
proof -
  let ?s = "if tl_transposed t then -1 else 1 :: complex"
  let ?a = "[(node_of rd (tl_a t), 1)]" and ?b = "[(node_of rd (tl_b t), ?s)]"
  obtain m where nodes: "node_of rd (tl_a t) < n" "node_of rd (tl_b t) < n"
    and m: "tl_abcd (tl_z0 t) (tl_length t) wavelength (tl_vf t) (tl_k1 t) (tl_k2 t) (rd_c_light rd) = Inr m"
    and st': "add_probe (mk_probe path i ''TL'' [tl_a t, tl_b t] (Group2Abcd [snd (add_line ?a ?b m st)]) '''')
      (fst (add_line ?a ?b m st)) = st'"
    using assms(1) lookupE_below [OF _ assms(2)]
    by (auto simp: stamp_tl_def okE lookupE_node case_prod_unfold Let_def)
  have line: "adds n st 2 (\<lambda>v u. line_law m (weighted ?a v) (weighted ?b v) (u 0) (u 1))
      (\<lambda>v u k. weighted_draw ?a (u 0) k - weighted_draw ?b (u 1) k) (fst (add_line ?a ?b m st))"
    by (rule adds_line [of _ _ _ _ _ "snd (add_line ?a ?b m st)"]) (use nodes in simp_all)
  show ?thesis
    unfolding st' [symmetric]
    by (rule adds_add_probe, rule adds_cong [OF line])
      (simp_all add: branch_laws_def branch_draws_def Let_def m weighted_def weighted_draw_def)
qed

lemma adds_balanced:
  assumes "stamp_balanced rd wavelength path i b st = Inr st'" and "nodes_below rd n"
  shows "adds n st (width (BalancedLine b)) (branch_laws rd wavelength \<omega> (BalancedLine b))
    (branch_draws rd f_hz \<omega> (BalancedLine b)) st'"
proof -
  let ?N = "node_of rd"
  let ?abcd = "\<lambda>z0. tl_abcd z0 (bl_length b) wavelength (bl_vf b) (bl_k1 b) (bl_k2 b) (rd_c_light rd)"
  let ?a = "\<lambda>w w'. [(?N (bl_a1 b), w), (?N (bl_a2 b), w')]" and ?b = "\<lambda>w w'. [(?N (bl_b1 b), w), (?N (bl_b2 b), w')]"
  have nodes: "?N (bl_a1 b) < n" "?N (bl_a2 b) < n" "?N (bl_b1 b) < n" "?N (bl_b2 b) < n"
    using assms(1) lookupE_below [OF _ assms(2)] by (auto simp: stamp_balanced_def okE lookupE_node Let_def)
  obtain m where m: "?abcd (bl_zdiff b) = Inr m"
    using assms(1) by (auto simp: stamp_balanced_def okE lookupE_node Let_def)
  let ?st1 = "fst (add_line (?a 1 (-1)) (?b 1 (-1)) m st)"
  have "adds n st 2 (\<lambda>v u. line_law m (weighted (?a 1 (-1)) v) (weighted (?b 1 (-1)) v) (u 0) (u 1))
      (\<lambda>v u k. weighted_draw (?a 1 (-1)) (u 0) k - weighted_draw (?b 1 (-1)) (u 1) k) ?st1"
    by (rule adds_line [of _ _ _ _ _ "snd (add_line (?a 1 (-1)) (?b 1 (-1)) m st)"]) (use nodes in simp_all)
  then have one: "adds n st 2
      (\<lambda>v u. line_law m (v (?N (bl_a1 b)) - v (?N (bl_a2 b))) (v (?N (bl_b1 b)) - v (?N (bl_b2 b))) (u 0) (u 1))
      (\<lambda>v u k. single (?N (bl_a1 b)) (u 0) k - single (?N (bl_a2 b)) (u 0) k -
         (single (?N (bl_b1 b)) (u 1) k - single (?N (bl_b2 b)) (u 1) k)) ?st1"
    by (rule adds_cong) (simp_all add: weighted_def weighted_draw_def)
  show ?thesis
  proof (cases "bl_zcomm b")
    case None
    then obtain p where st': "st' = add_probe p ?st1"
      using assms(1) m by (auto simp: stamp_balanced_def okE lookupE_node Let_def case_prod_unfold)
    show ?thesis
      unfolding st' using adds_add_probe [OF one, of p]
      by (simp add: width_def None, elim adds_cong) (simp_all add: branch_laws_def branch_draws_def Let_def m None)
  next
    case (Some zc)
    obtain mc where mc: "?abcd zc = Inr mc"
      using assms(1) m Some by (auto simp: stamp_balanced_def okE lookupE_node Let_def case_prod_unfold)
    let ?line2 = "add_line (?a (1/2) (1/2)) (?b (1/2) (1/2)) mc ?st1"
    obtain p where st': "st' = add_probe p (fst ?line2)"
      using assms(1) m mc Some by (auto simp: stamp_balanced_def okE lookupE_node Let_def case_prod_unfold)
    have "adds n ?st1 2 (\<lambda>v u. line_law mc (weighted (?a (1/2) (1/2)) v) (weighted (?b (1/2) (1/2)) v) (u 0) (u 1))
        (\<lambda>v u k. weighted_draw (?a (1/2) (1/2)) (u 0) k - weighted_draw (?b (1/2) (1/2)) (u 1) k) (fst ?line2)"
      by (rule adds_line [of _ _ _ _ _ "snd ?line2"]) (use nodes in simp_all)
    then have two: "adds n ?st1 2
        (\<lambda>v u. line_law mc ((v (?N (bl_a1 b)) + v (?N (bl_a2 b))) / 2) ((v (?N (bl_b1 b)) + v (?N (bl_b2 b))) / 2) (u 0) (u 1))
        (\<lambda>v u k. single (?N (bl_a1 b)) (u 0 / 2) k + single (?N (bl_a2 b)) (u 0 / 2) k -
           (single (?N (bl_b1 b)) (u 1 / 2) k + single (?N (bl_b2 b)) (u 1 / 2) k)) (fst ?line2)"
      by (rule adds_cong) (simp_all add: weighted_def weighted_draw_def add_divide_distrib)
    show ?thesis
      unfolding st' using adds_add_probe [OF adds_trans [OF one two], of p]
      by (simp add: width_def Some, elim adds_cong)
        (auto simp: branch_laws_def branch_draws_def Let_def m mc Some numeral_2_eq_2 numeral_3_eq_3 single_def)
  qed
qed

definition transformer_element :: "nat \<Rightarrow> nat \<Rightarrow> complex \<Rightarrow> complex \<Rightarrow> element" where
  "transformer_element a b n z_w =
     (group2 (Some a) (Some b) 0 (- z_w) 0)
       \<lparr>el_ka := 1, el_kb := n, el_c_va := Some 1, el_c_vb := Some (- n)\<rparr>"

definition balun_element :: "nat \<Rightarrow> nat \<Rightarrow> nat \<Rightarrow> complex \<Rightarrow> complex \<Rightarrow> element" where
  "balun_element p a b n z_w =
     (group2 (Some a) (Some b) 0 (- z_w) 0)
       \<lparr>el_ka := 1, el_kb := 1, el_c_va := Some 1, el_c_vb := Some (-1),
        el_c := Some p, el_kc := - n, el_c_vc := - n\<rparr>"

lemma single_times: "single n d k * z = single n (d * z) k"
  by (simp add: single_def)

lemma transformer_values:
  "sensed (transformer_element a b n z_w) v + el_c_j (transformer_element a b n z_w) * i =
     el_e (transformer_element a b n z_w) \<longleftrightarrow> v a = n * v b + z_w * i"
  "drawn (transformer_element a b n z_w) k * i = single a i k - single b (n * i) k"
  "element_in N (transformer_element a b n z_w) \<longleftrightarrow> a < N \<and> b < N"
proof -
  show "drawn (transformer_element a b n z_w) k * i = single a i k - single b (n * i) k"
    by (simp add: transformer_element_def element_simps left_diff_distrib single_times)
qed (auto simp: transformer_element_def element_simps algebra_simps)

lemma balun_values:
  "sensed (balun_element p a b n z_w) v + el_c_j (balun_element p a b n z_w) * i =
     el_e (balun_element p a b n z_w) \<longleftrightarrow> v a - v b = n * v p + z_w * i"
  "drawn (balun_element p a b n z_w) k * i = single a i k - single b i k - single p (n * i) k"
  "element_in N (balun_element p a b n z_w) \<longleftrightarrow> p < N \<and> a < N \<and> b < N"
proof -
  show "drawn (balun_element p a b n z_w) k * i = single a i k - single b i k - single p (n * i) k"
    by (simp add: balun_element_def element_simps left_diff_distrib distrib_right single_times)
qed (auto simp: balun_element_def element_simps algebra_simps)

definition linked_pair :: "nat option \<Rightarrow> nat \<Rightarrow> nat \<Rightarrow> complex \<Rightarrow> complex \<Rightarrow> complex \<Rightarrow> stamp \<Rightarrow> stamp" where
  \<comment> \<open>two coupled sections of a winding\<close>
  "linked_pair d a b z1 z2 zm st =
     (let x = length (st_elements st)
      in (add_element (group2 (Some a) (Some b) 1 z2 0) (add_element (group2 d (Some a) 1 z1 0) st))
           \<lparr>st_couplings := st_couplings st @ [(x, x + 1, zm), (x + 1, x, zm)]\<rparr>)"

lemma adds_linked_pair:
  assumes "a < n" and "b < n" and "\<forall>x \<in> set_option d. x < n"
  shows "adds n st 2
    (\<lambda>v u. volts_at d v - v a = z1 * u 0 + zm * u 1 \<and> v a - v b = zm * u 0 + z2 * u 1)
    (\<lambda>v u k. end_draw d (u 0) k + single a (u 1 - u 0) k - single b (u 1) k)
    (linked_pair d a b z1 z2 zm st)"
proof -
  let ?L = "length (st_elements st)"
  let ?e1 = "group2 d (Some a) 1 z1 0" and ?e2 = "group2 (Some a) (Some b) 1 z2 0"
  let ?cps = "[(?L, Suc ?L, zm), (Suc ?L, ?L, zm)]"
  show ?thesis
  proof (rule addsI [where els = "[?e1, ?e2]" and cps = ?cps])
    fix v j
    have c: "coupled ?cps j ?L = zm * j (Suc ?L)" "coupled ?cps j (Suc ?L) = zm * j ?L"
      by (simp_all add: coupled_def single_def)
    have "element_laws [?e1, ?e2] ?cps ?L v j \<longleftrightarrow>
        (v a - volts_at d v) + z1 * j ?L + zm * j (Suc ?L) = 0 \<and>
        (v b - v a) + z2 * j (Suc ?L) + zm * j ?L = 0"
      unfolding element_laws_def using c
      by (simp add: all_below_2 [unfolded numeral_2_eq_2] group2_values volts_at_def)
    then show "element_laws [?e1, ?e2] ?cps ?L v j =
        (volts_at d v - v a = z1 * shifted ?L j 0 + zm * shifted ?L j 1 \<and>
         v a - v b = zm * shifted ?L j 0 + z2 * shifted ?L j 1)"
      by (auto simp: algebra_simps)
  next
    fix v j k
    show "node_flow n (st_G (linked_pair d a b z1 z2 zm st)) v k + element_flow [?e1, ?e2] ?L j k =
        node_flow n (st_G st) v k + (end_draw d (shifted ?L j 0) k +
          single a (shifted ?L j 1 - shifted ?L j 0) k - single b (shifted ?L j 1) k)"
      by (simp add: linked_pair_def add_element_def Let_def element_flow_def group2_values left_diff_distrib
          end_draw_scale) (simp add: end_draw_def single_def)
  qed (use assms in \<open>auto simp: linked_pair_def add_element_def Let_def group2_values\<close>)
qed

lemma adds_autotransformer:
  assumes "stamp_autotransformer rd \<omega> path i a b l u k q st = Inr st'" and "nodes_below rd n"
  shows "adds n st 2 (branch_laws rd wavelength \<omega> (Autotransformer a b l u k q))
    (branch_draws rd f_hz \<omega> (Autotransformer a b l u k q)) st'"
proof -
  let ?r = "\<lambda>l. if truthy q then \<omega> * l / the q else 0"
  let ?z = "\<lambda>l. of_real (?r l) + \<i> * of_real (\<omega> * l) :: complex"
  let ?zm = "\<i> * of_real (\<omega> * k * sqrt (l * u)) :: complex"
  let ?x = "length (st_elements st)"
  have z: "section_impedances \<omega> l u k q = (?z l, ?z u, ?zm)"
    by (simp add: section_impedances_def Complex_eq)
  have nodes: "node_of rd a < n" "node_of rd b < n"
    using assms(1) lookupE_below [OF _ assms(2)] by (auto simp: stamp_autotransformer_def okE lookupE_node Let_def)
  have st': "st' = linked_pair None (node_of rd a) (node_of rd b) (?z l) (?z u) ?zm
      (add_probe (mk_probe path i ''Autotransformer (upper)'' [a, b] (Group2R (?x + 1) (?r u)) ''upper'')
        (add_probe (mk_probe path i ''Autotransformer (lower)'' [a, b] (Group2R ?x (?r l)) ''lower'') st))"
    using assms(1)
    by (auto simp: stamp_autotransformer_def okE lookupE_node Let_def linked_pair_def add_probe_def)
  show ?thesis
    unfolding st'
    by (rule adds_from_probe, rule adds_from_probe, rule adds_cong [OF adds_linked_pair])
      (use nodes in \<open>auto simp: branch_laws_def branch_draws_def Let_def z volts_at_def end_draw_def\<close>)
qed

lemma adds_from_element:
  assumes "element_in n el" and "\<And>v i. sensed el v + el_c_j el * i = el_e el \<longleftrightarrow> law v i"
    and "adds n (add_element el st) 0 (\<lambda>_ _. True) draw st'"
  shows "adds n st 1 (\<lambda>v u. law v (u 0)) (\<lambda>v u k. drawn el k * u 0 + draw v (shifted 1 u) k) st'"
  using adds_trans [OF adds_element [OF assms(1), of st] assms(3)] by (simp add: assms(2))

lemma adds_transformer:
  assumes "add_magnetizing a m \<omega> probe (add_element (transformer_element a b n z_w) st) = Inr st'"
    and "a < N" and "b < N"
  shows "adds N st 1 (\<lambda>v u. v a = n * v b + z_w * u 0)
    (\<lambda>v u k. single a (u 0 + magnetizing_draw m \<omega> (v a)) k - single b (n * u 0) k) st'"
  by (rule adds_cong [OF adds_from_element [OF _ transformer_values(1) adds_magnetizing [OF assms(1,2)]]])
    (use assms(2,3) in \<open>simp_all add: transformer_values\<close>)

lemma adds_balun:
  assumes "add_magnetizing p m \<omega> probe (add_element (balun_element p a b n z_w) st) = Inr st'"
    and "p < N" and "a < N" and "b < N"
  shows "adds N st 1 (\<lambda>v u. v a - v b = n * v p + z_w * u 0)
    (\<lambda>v u k. single a (u 0) k - single b (u 0) k + single p (magnetizing_draw m \<omega> (v p) - n * u 0) k) st'"
  by (rule adds_cong [OF adds_from_element [OF _ balun_values(1) adds_magnetizing [OF assms(1,2)]]])
    (use assms(2-) in \<open>simp_all add: balun_values single_def\<close>)

lemma add_element_add_probe: "add_element el (add_probe p st) = add_probe p (add_element el st)"
  by (simp add: add_element_def add_probe_def)

text \<open>Every branch: its stamp adds its law and its draws.\<close>

lemma adds_branch:
  assumes "stamp_branch rd wavelength f_hz \<omega> st (i, br, path) = Inr st'"
    and "nodes_below rd n"
  shows "adds n st (width br) (branch_laws rd wavelength \<omega> (as_stamped rd br)) (branch_draws rd f_hz \<omega> (as_stamped rd br)) st'"
proof (cases br)
  case (TL t)
  then show ?thesis
    using adds_tl [of rd wavelength path i t st st' n] assms by (simp add: stamp_branch_def width_def)
next
  case (BalancedLine b)
  then show ?thesis
    using adds_balanced [of rd wavelength path i b st st' n] assms by (simp add: stamp_branch_def)
next
  case (Autotransformer a b l u k q)
  then show ?thesis
    using adds_autotransformer [of rd \<omega> path i a b l u k q st st' n] assms
    by (simp add: stamp_branch_def width_def)
next
  case (Admittance ps y)
  then obtain p where st': "st' = add_probe p (add_block (map (node_of rd) ps) (of_rows y) st)"
    and nodes: "\<forall>k \<in> set (map (node_of rd) ps). k < n"
    using assms(1) mapE_nodes [OF _ assms(2)] by (fastforce simp: stamp_branch_def okE)
  have "width br = 0" "branch_laws rd wavelength \<omega> (as_stamped rd br) = (\<lambda>_ _. True)"
    "branch_draws rd f_hz \<omega> (as_stamped rd br) =
      (\<lambda>v u k. block_draw (map (node_of rd) ps) (kept (map (node_of rd) ps) (of_rows y)) v k)"
    by (simp_all add: Admittance as_stamped_laws as_stamped_block fun_eq_iff)
      (simp_all add: width_def branch_laws_def)
  then show ?thesis
    unfolding st' using nodes by (auto intro!: adds_add_probe adds_block)
next
  case (TouchstoneLoad p d)
  then obtain pr where st': "st' = add_probe pr (add_node (node_of rd p) (ad_y_at d f_hz 0 0) st)"
    and "node_of rd p < n"
    using assms(1) lookupE_below [OF _ assms(2)] by (auto simp: stamp_branch_def okE lookupE_node Let_def)
  then show ?thesis
    unfolding st'
    by (intro adds_add_probe)
      (simp add: TouchstoneLoad width_def branch_laws_def [abs_def] branch_draws_def [abs_def] Let_def adds_node)
next
  case (TouchstoneTwoPort a b d)
  then obtain pr where st': "st' = add_probe pr (add_block [node_of rd a, node_of rd b] (ad_y_at d f_hz) st)"
    and "node_of rd a < n" "node_of rd b < n"
    using assms(1) lookupE_below [OF _ assms(2)] by (auto simp: stamp_branch_def okE lookupE_node Let_def)
  then show ?thesis
    unfolding st' using adds_block [of "[node_of rd a, node_of rd b]" n st "ad_y_at d f_hz"]
    by (intro adds_add_probe)
      (simp add: TouchstoneTwoPort as_stamped_def width_def branch_laws_def [abs_def] branch_draws_def [abs_def] Let_def)
next
  case (TwoPort a b lg)
  then obtain el pr where el: "series_group2 (Some (node_of rd a)) (Some (node_of rd b)) lg \<omega> 0 = Inr el"
    and st': "st' = add_probe pr (add_element el st)" and "node_of rd a < n" "node_of rd b < n"
    using assms(1) lookupE_below [OF _ assms(2)]
    by (auto simp: stamp_branch_def okE lookupE_node Let_def add_element_add_probe)
  then have "adds n st 1 (\<lambda>v u. series_law lg \<omega> (volts_at (Some (node_of rd a)) v - volts_at (Some (node_of rd b)) v) (u 0))
      (\<lambda>v u k. end_draw (Some (node_of rd a)) (u 0) k - end_draw (Some (node_of rd b)) (u 0) k) st'"
    unfolding st' by (intro adds_add_probe adds_series) auto
  then show ?thesis
    unfolding TwoPort width_def
    by (simp, elim adds_cong) (simp_all add: branch_laws_def branch_draws_def Let_def volts_at_def end_draw_def)
next
  case (Shunt p lg par)
  have k: "node_of rd p < n"
    using assms(1) lookupE_below [OF _ assms(2)] Shunt by (auto simp: stamp_branch_def okE lookupE_node Let_def)
  show ?thesis
  proof (cases par)
    case True
    then obtain y pr where y: "parallel_rlc_admittance lg \<omega> = Inr y"
      and st': "st' = add_probe pr (add_node (node_of rd p) y st)"
      using assms(1) Shunt by (auto simp: stamp_branch_def okE lookupE_node Let_def)
    then show ?thesis
      unfolding st' using True k
      by (intro adds_add_probe)
        (simp add: Shunt width_def branch_laws_def [abs_def] branch_draws_def [abs_def] Let_def y adds_node)
  next
    case False
    then obtain el pr where el: "series_group2 (Some (node_of rd p)) None lg \<omega> 0 = Inr el"
      and st': "st' = add_probe pr (add_element el st)"
      using assms(1) Shunt by (auto simp: stamp_branch_def okE lookupE_node Let_def add_element_add_probe)
    have "adds n st 1 (\<lambda>v u. series_law lg \<omega> (volts_at (Some (node_of rd p)) v - volts_at None v) (u 0))
        (\<lambda>v u k. end_draw (Some (node_of rd p)) (u 0) k - end_draw None (u 0) k) st'"
      unfolding st' by (intro adds_add_probe adds_series el) (use k in auto)
    then show ?thesis
      unfolding Shunt width_def using False
      by (simp, elim adds_cong) (simp_all add: branch_laws_def branch_draws_def Let_def volts_at_def end_draw_def)
  qed
next
  case (Transformer a b n' r m)
  let ?x = "length (st_elements st)"
  have nodes: "node_of rd a < n" "node_of rd b < n"
    using assms(1) lookupE_below [OF _ assms(2)] Transformer by (auto simp: stamp_branch_def okE lookupE_node Let_def)
  have "add_magnetizing (node_of rd a) m \<omega> (\<lambda>kind. mk_probe path i ''Transformer (mag)'' [a, b] kind ''mag'')
      (add_element (transformer_element (node_of rd a) (node_of rd b) (of_real n') (winding r))
        (add_probe (mk_probe path i ''Transformer'' [a, b] (Group2 ?x) '''') st)) = Inr st'"
    using assms(1) Transformer
    by (auto simp: stamp_branch_def okE lookupE_node Let_def transformer_element_def)
  from adds_from_probe [OF adds_transformer [OF this nodes]] show ?thesis
    unfolding Transformer width_def
    by (simp, elim adds_cong) (simp_all add: branch_laws_def branch_draws_def Let_def)
next
  case (FloatingBalun p a b n' r m)
  let ?x = "length (st_elements st)"
  have nodes: "node_of rd p < n" "node_of rd a < n" "node_of rd b < n"
    using assms(1) lookupE_below [OF _ assms(2)] FloatingBalun by (auto simp: stamp_branch_def okE lookupE_node Let_def)
  have "add_magnetizing (node_of rd p) m \<omega> (\<lambda>kind. mk_probe path i ''FloatingBalun (mag)'' [p, a, b] kind ''mag'')
      (add_element (balun_element (node_of rd p) (node_of rd a) (node_of rd b) (of_real n') (winding r))
        (add_probe (mk_probe path i ''FloatingBalun'' [p, a, b] (Group2 ?x) '''') st)) = Inr st'"
    using assms(1) FloatingBalun
    by (auto simp: stamp_branch_def okE lookupE_node Let_def balun_element_def)
  from adds_from_probe [OF adds_balun [OF this nodes]] show ?thesis
    unfolding FloatingBalun width_def
    by (simp, elim adds_cong) (simp_all add: branch_laws_def branch_draws_def Let_def)
next
  case (Load p lg par z)
  then have "st_elements st' = st_elements st \<and> st_couplings st' = st_couplings st \<and> st_G st' = st_G st"
    using assms(1) by (auto simp: stamp_branch_def okE Let_def)
  then show ?thesis
    using adds_nothing [of st' st n]
    by (simp add: Load width_def branch_laws_def [abs_def] branch_draws_def [abs_def] Let_def)
qed

text \<open>All branches, one after the other.\<close>

lemma adds_branches:
  assumes "foldE (stamp_branch rd wavelength f_hz \<omega>) st (enumerate x (zip brs paths)) = Inr st'"
    and "nodes_below rd n" and "length paths = length brs"
  shows "adds n st (total_width brs) (all_laws rd wavelength \<omega> (map (as_stamped rd) brs))
    (all_draws rd f_hz \<omega> (map (as_stamped rd) brs)) st'"
  using assms(1,3)
proof (induction brs arbitrary: st x paths)
  case Nil
  then show ?case
    using adds_nothing [of st st n] by (simp add: total_width_def)
next
  case (Cons br brs)
  obtain path paths' where paths: "paths = path # paths'"
    using Cons.prems(2) by (cases paths) auto
  obtain st1 where first: "stamp_branch rd wavelength f_hz \<omega> st (x, br, path) = Inr st1"
    and rest: "foldE (stamp_branch rd wavelength f_hz \<omega>) st1 (enumerate (Suc x) (zip brs paths')) = Inr st'"
    using Cons.prems(1) paths by (auto simp: okE)
  note one = adds_branch [OF first assms(2)]
  have others: "adds n st1 (total_width brs) (all_laws rd wavelength \<omega> (map (as_stamped rd) brs))
      (all_draws rd f_hz \<omega> (map (as_stamped rd) brs)) st'"
    using Cons.IH [OF rest] Cons.prems(2) paths by simp
  have width: "total_width (br # brs) = width br + total_width brs"
    by (simp add: total_width_def)
  show ?case
    unfolding width by (rule adds_cong [OF adds_trans [OF one others]]) simp_all
qed

end
