(* ===== verification/Network_Ending.thy ===== *)
theory Network_Ending
  imports Network_Stamping
begin

text \<open>
  The terminations: a source and the loads in series with it, from the common return into
  the node of a port.  With the branches they make the assembled equations the circuit's.
\<close>

section \<open>The law of a termination\<close>

definition loads_at :: "stamp \<Rightarrow> nat \<Rightarrow> series_load list" where
  "loads_at st k = or_else (map_of (st_loads st) k) []"

definition chain_of :: "real \<Rightarrow> series_load list \<Rightarrow> net_exn + cvalue list" where
  "chain_of \<omega> loads = mapE (\<lambda>(_, lg, par, z, _, _). load_impedance_of lg par z \<omega>) loads"

definition lone_trap :: "series_load list \<Rightarrow> (legs \<times> complex option) option" where
  \<comment> \<open>a single parallel load, which the code stamps by its admittance\<close>
  "lone_trap loads = (case loads of [(_, lg, True, z, _, _)] \<Rightarrow> Some (lg, z) | _ \<Rightarrow> None)"

definition source_law :: "real \<Rightarrow> complex \<Rightarrow> complex \<Rightarrow> series_load list \<Rightarrow> complex \<Rightarrow> complex \<Rightarrow> bool" where
  \<comment> \<open>\<open>i\<close> flows from the EMF \<open>e\<close> through \<open>zr\<close> and the loads into a node at \<open>vk\<close>\<close>
  "source_law \<omega> zr e loads vk i \<longleftrightarrow>
     (case lone_trap loads of
        Some (lg, z) \<Rightarrow> \<exists>y. load_series_admittance lg True z \<omega> = Inr (Finite y) \<and> i = y * (e - zr * i - vk)
      | None \<Rightarrow>
          \<exists>zs. chain_of \<omega> loads = Inr zs \<and>
            (if list_all is_finite_value zs then e - zr * i - vk = total zs 0 * i else i = 0))"

definition ending_law ::
  "real \<Rightarrow> complex \<Rightarrow> nat option \<Rightarrow> (nat \<rightharpoonup> complex) \<Rightarrow> (nat \<rightharpoonup> complex) \<Rightarrow> (nat \<Rightarrow> series_load list) \<Rightarrow>
   nat \<Rightarrow> complex \<Rightarrow> complex \<Rightarrow> bool" where
  "ending_law \<omega> z_ref ref_node emf forced loads k vk i \<longleftrightarrow>
     (case forced k of
        Some amps \<Rightarrow> i = amps
      | None \<Rightarrow>
          source_law \<omega> (if ref_node = Some k then z_ref else 0) (or_else (emf k) 0) (loads k) vk i)"

lemma total_shift: "total zs (s + t) = total zs s + t"
proof (induction zs arbitrary: s)
  case (Cons z zs)
  have "total zs (s + t + x) = total zs (s + x) + t" for x
    using Cons [of "s + x"] by (simp add: add.assoc add.commute [of t])
  then show ?case
    using Cons by (cases z) (simp_all add: total_def)
qed (simp add: total_def)

lemma total_start: "total zs t = total zs 0 + t"
  using total_shift [of zs 0 t] by simp

lemma source_element_trap:
  "source_element k e zr loads zs \<omega> =
     (case lone_trap loads of
        Some (lg, z) \<Rightarrow>
          bindE (load_series_admittance lg True z \<omega>) (\<lambda>y.
            case y of
              CInf \<Rightarrow> Inl NotFinite
            | Finite y \<Rightarrow> bindE (divE y (1 + zr * y)) (\<lambda>y. Inr (group2 None (Some k) y 1 (y * e))))
      | None \<Rightarrow>
          if list_all is_finite_value zs then Inr (group2 None (Some k) 1 (total zs zr) e)
          else Inr (group2 None (Some k) 0 1 0))"
  by (auto simp: source_element_def lone_trap_def split: list.split prod.split bool.split)

lemma source_element_law:
  assumes "source_element k e zr loads zs \<omega> = Inr el" and "chain_of \<omega> loads = Inr zs"
  shows "sensed el v + el_c_j el * i = el_e el \<longleftrightarrow> source_law \<omega> zr e loads (v k) i"
    and "drawn el m * i = - single k i m" and "k < n \<Longrightarrow> element_in n el"
proof -
  let ?goal = "(sensed el v + el_c_j el * i = el_e el \<longleftrightarrow> source_law \<omega> zr e loads (v k) i) \<and>
    drawn el m * i = - single k i m \<and> (k < n \<longrightarrow> element_in n el)"
  have ?goal
  proof (cases "lone_trap loads")
    case (Some lgz)
    obtain lg z where trap: "lone_trap loads = Some (lg, z)"
      using Some by (cases lgz) simp
    then obtain y' where y': "load_series_admittance lg True z \<omega> = Inr y'"
      using assms(1) by (auto simp: source_element_trap okE)
    then obtain y where fin: "y' = Finite y"
      using assms(1) trap by (cases y') (simp_all add: source_element_trap)
    have y: "load_series_admittance lg True z \<omega> = Inr (Finite y)" "1 + zr * y \<noteq> 0"
      and el: "el = group2 None (Some k) (y / (1 + zr * y)) 1 (y / (1 + zr * y) * e)"
      using assms(1) y' by (auto simp: source_element_trap okE divE_Inr trap fin)
    have "y / (1 + zr * y) * v k + i = y / (1 + zr * y) * e \<longleftrightarrow> i * (1 + zr * y) = y * (e - v k)"
      using y(2) by (simp add: divide_simps) (auto simp: algebra_simps)
    also have "\<dots> \<longleftrightarrow> i = y * (e - zr * i - v k)"
      by (auto simp: algebra_simps)
    finally show ?thesis
      using y(1) trap
      by (simp add: el group2_values volts_at_def source_law_def end_draw_def left_diff_distrib single_times)
  next
    case None
    then have el: "el = (if list_all is_finite_value zs then group2 None (Some k) 1 (total zs zr) e
        else group2 None (Some k) 0 1 0)"
      using assms(1) by (auto simp: source_element_trap split: if_splits)
    have law: "source_law \<omega> zr e loads (v k) i \<longleftrightarrow>
        (if list_all is_finite_value zs then e - zr * i - v k = total zs 0 * i else i = 0)"
      using None assms(2) by (simp add: source_law_def)
    have "v k + total zs zr * i = e \<longleftrightarrow> e - zr * i - v k = total zs 0 * i"
      by (subst total_start) (auto simp: algebra_simps)
    then show ?thesis
      by (simp add: law el group2_values volts_at_def end_draw_def left_diff_distrib single_times)
  qed
  then show "sensed el v + el_c_j el * i = el_e el \<longleftrightarrow> source_law \<omega> zr e loads (v k) i"
    "drawn el m * i = - single k i m" "k < n \<Longrightarrow> element_in n el"
    by auto
qed

section \<open>Closing the nodes\<close>

lemma fold_add_probe:
  "st_elements (fold (\<lambda>x. add_probe (f x)) xs st) = st_elements st"
  "st_couplings (fold (\<lambda>x. add_probe (f x)) xs st) = st_couplings st"
  "st_G (fold (\<lambda>x. add_probe (f x)) xs st) = st_G st"
  "st_loads (fold (\<lambda>x. add_probe (f x)) xs st) = st_loads st"
  "st_probes (fold (\<lambda>x. add_probe (f x)) xs st) = st_probes st @ map f xs"
  by (induction xs arbitrary: st) (simp_all add: add_probe_def)

definition load_probe :: "nat \<Rightarrow> series_load \<times> cvalue \<Rightarrow> probe" where
  "load_probe k = (\<lambda>((p, _, _, _, path, i), z).
     \<lparr>pr_label = ([], ''Load'', [p]), pr_kind = TerminationShare k z, pr_key = (path, i, ''load'')\<rparr>)"

definition ending_value ::
  "(nat \<rightharpoonup> complex) \<Rightarrow> (nat \<rightharpoonup> complex) \<Rightarrow> nat \<Rightarrow> cvalue list \<Rightarrow> nat \<Rightarrow> nat \<times> ending" where
  "ending_value emf forced k zs x =
     (k, case forced k of
           Some amps \<Rightarrow> (x, amps, CurrentDrive, total zs 0)
         | None \<Rightarrow> (x, or_else (emf k) 0, VoltageDrive, 0))"

definition referenced :: "complex \<Rightarrow> nat option \<Rightarrow> (nat \<rightharpoonup> complex) \<Rightarrow> nat \<Rightarrow> bool" where
  "referenced z_ref ref_node forced k \<longleftrightarrow> forced k = None \<and> ref_node = Some k \<and> z_ref \<noteq> 0"

lemma close_node_result:
  assumes "close_node \<omega> z_ref ref_node emf forced cl k = Inr cl'" and "k < n"
  obtains zs where "chain_of \<omega> (loads_at (cl_stamp cl) k) = Inr zs"
    and "adds n (cl_stamp cl) 1 (\<lambda>v u. ending_law \<omega> z_ref ref_node emf forced (loads_at (cl_stamp cl)) k (v k) (u 0))
      (\<lambda>v u m. - single k (u 0) m) (cl_stamp cl')"
    and "st_loads (cl_stamp cl') = st_loads (cl_stamp cl)"
    and "st_probes (cl_stamp cl') =
      st_probes (cl_stamp cl) @ map (load_probe k) (zip (loads_at (cl_stamp cl) k) zs)"
    and "cl_terminations cl' = cl_terminations cl @ [ending_value emf forced k zs (length (st_elements (cl_stamp cl)))]"
    and "cl_z_ref_at cl' = (if referenced z_ref ref_node forced k then (cl_z_ref_at cl)(k \<mapsto> z_ref) else cl_z_ref_at cl)"
    and "forced k \<noteq> None \<longrightarrow> list_all is_finite_value zs"
proof -
  let ?st = "cl_stamp cl"
  let ?loads = "loads_at ?st k"
  obtain zs where zs: "chain_of \<omega> ?loads = Inr zs"
    using assms(1) by (auto simp: close_node_def okE Let_def chain_of_def loads_at_def)
  let ?st1 = "fold (\<lambda>x. add_probe (load_probe k x)) (zip ?loads zs) ?st"
  have st1: "fold (\<lambda>((p, _, _, _, path, i), z).
      add_probe \<lparr>pr_label = ([], ''Load'', [p]), pr_kind = TerminationShare k z,
                 pr_key = (path, i, ''load'')\<rparr>) (zip ?loads zs) ?st = ?st1"
    by (rule arg_cong [of _ _ "\<lambda>f. fold f (zip ?loads zs) ?st"]) (auto simp: load_probe_def fun_eq_iff)
  note stamp1 = fold_add_probe [of "load_probe k" "zip ?loads zs" ?st]
  have quiet: "adds n ?st 0 (\<lambda>_ _. True) (\<lambda>_ _ _. 0) ?st1"
    by (rule adds_nothing) (simp_all add: stamp1)
  show thesis
  proof (cases "forced k")
    case (Some amps)
    let ?el = "group2 None (Some k) 0 1 amps"
    have cl': "cl' = cl\<lparr>cl_stamp := add_element ?el ?st1,
        cl_terminations := cl_terminations cl @ [(k, length (st_elements ?st), amps, CurrentDrive, total zs 0)]\<rparr>"
      and finite: "list_all is_finite_value zs"
      using assms(1) Some zs
      by (auto simp: close_node_def okE Let_def chain_of_def loads_at_def st1 [unfolded loads_at_def] stamp1 [unfolded loads_at_def])
    have "element_in n ?el"
      using assms(2) by (simp add: group2_values)
    from adds_trans [OF quiet adds_element [OF this]]
    have "adds n ?st 1 (\<lambda>v u. ending_law \<omega> z_ref ref_node emf forced (loads_at ?st) k (v k) (u 0))
        (\<lambda>v u m. - single k (u 0) m) (cl_stamp cl')"
      unfolding cl' by (simp, elim adds_cong)
        (simp_all add: ending_law_def Some group2_values end_draw_def left_diff_distrib single_times)
    then show thesis
      using that [OF zs] finite by (simp add: cl' Some stamp1 add_element_def ending_value_def referenced_def)
  next
    case None
    let ?zr = "if ref_node = Some k then z_ref else 0" and ?e = "or_else (emf k) 0"
    obtain el where el: "source_element k ?e ?zr ?loads zs \<omega> = Inr el"
      and cl': "cl' = cl\<lparr>cl_stamp := add_element el ?st1,
        cl_terminations := cl_terminations cl @ [(k, length (st_elements ?st), ?e, VoltageDrive, 0)],
        cl_z_ref_at := (if ?zr \<noteq> 0 then (cl_z_ref_at cl)(k \<mapsto> ?zr) else cl_z_ref_at cl)\<rparr>"
      using assms(1) None zs
      by (auto simp: close_node_def okE Let_def chain_of_def loads_at_def st1 [unfolded loads_at_def] stamp1 [unfolded loads_at_def])
    note law = source_element_law [OF el zs]
    from adds_trans [OF quiet adds_element [OF law(3) [OF assms(2)]]]
    have "adds n ?st 1 (\<lambda>v u. ending_law \<omega> z_ref ref_node emf forced (loads_at ?st) k (v k) (u 0))
        (\<lambda>v u m. - single k (u 0) m) (cl_stamp cl')"
      unfolding cl' by (simp, elim adds_cong) (simp_all add: ending_law_def None law(1,2))
    then show thesis
      using that [OF zs] by (simp add: cl' None stamp1 add_element_def ending_value_def referenced_def)
  qed
qed

definition chain :: "real \<Rightarrow> stamp \<Rightarrow> nat \<Rightarrow> cvalue list" where
  "chain \<omega> st k = (case chain_of \<omega> (loads_at st k) of Inr zs \<Rightarrow> zs | Inl _ \<Rightarrow> [])"

definition endings :: "(nat \<rightharpoonup> complex) \<Rightarrow> (nat \<rightharpoonup> complex) \<Rightarrow> (nat \<Rightarrow> cvalue list) \<Rightarrow> nat \<Rightarrow> nat list \<Rightarrow> (nat \<times> ending) list" where
  "endings emf forced zs L ks = map (\<lambda>(i, k). ending_value emf forced k (zs k) i) (enumerate L ks)"

definition load_probes :: "real \<Rightarrow> stamp \<Rightarrow> nat \<Rightarrow> probe list" where
  "load_probes \<omega> st k = map (load_probe k) (zip (loads_at st k) (chain \<omega> st k))"

definition close_nodes where
  "close_nodes \<omega> z_ref ref_node emf forced = foldE (close_node \<omega> z_ref ref_node emf forced)"

lemma all_less_Suc_shift: "(\<forall>i < Suc n. P i) \<longleftrightarrow> P 0 \<and> (\<forall>i < n. P (Suc i))"
  by (metis less_Suc_eq_0_disj)

lemma close_nodes_adds:
  assumes "close_nodes \<omega> z_ref ref_node emf forced cl ks = Inr cl'" and "\<forall>k \<in> set ks. k < n"
  shows "adds n (cl_stamp cl) (length ks)
    (\<lambda>v u. \<forall>i < length ks. ending_law \<omega> z_ref ref_node emf forced (loads_at (cl_stamp cl)) (ks ! i) (v (ks ! i)) (u i))
    (\<lambda>v u m. - (\<Sum>i<length ks. single (ks ! i) (u i) m)) (cl_stamp cl')"
  using assms
proof (induction ks arbitrary: cl)
  case Nil
  then show ?case
    using adds_nothing [of "cl_stamp cl" "cl_stamp cl" n] by (simp add: close_nodes_def)
next
  case (Cons k ks)
  obtain cl1 where first: "close_node \<omega> z_ref ref_node emf forced cl k = Inr cl1"
    and rest: "close_nodes \<omega> z_ref ref_node emf forced cl1 ks = Inr cl'"
    using Cons.prems(1) by (auto simp: close_nodes_def okE)
  have k: "k < n"
    using Cons.prems(2) by simp
  from close_node_result [OF first k]
  have one: "adds n (cl_stamp cl) 1 (\<lambda>v u. ending_law \<omega> z_ref ref_node emf forced (loads_at (cl_stamp cl)) k (v k) (u 0))
      (\<lambda>v u m. - single k (u 0) m) (cl_stamp cl1)"
    and loads: "st_loads (cl_stamp cl1) = st_loads (cl_stamp cl)"
    by blast+
  have same: "loads_at (cl_stamp cl1) = loads_at (cl_stamp cl)"
    by (simp add: loads_at_def [abs_def] loads)
  have len: "length (k # ks) = 1 + length ks"
    by simp
  show ?case
    unfolding len
    by (rule adds_cong [OF adds_trans [OF one Cons.IH [OF rest]]])
      (use Cons.prems(2) in \<open>simp_all add: all_less_Suc_shift same sum.lessThan_Suc_shift del: sum.lessThan_Suc\<close>)
qed

lemma close_nodes_records:
  assumes "close_nodes \<omega> z_ref ref_node emf forced cl ks = Inr cl'" and "\<forall>k \<in> set ks. k < n"
  shows "st_loads (cl_stamp cl') = st_loads (cl_stamp cl) \<and>
    st_probes (cl_stamp cl') = st_probes (cl_stamp cl) @ concat (map (load_probes \<omega> (cl_stamp cl)) ks) \<and>
    cl_terminations cl' = cl_terminations cl @
      endings emf forced (chain \<omega> (cl_stamp cl)) (length (st_elements (cl_stamp cl))) ks \<and>
    cl_z_ref_at cl' = (\<lambda>k. if k \<in> set ks \<and> referenced z_ref ref_node forced k then Some z_ref else cl_z_ref_at cl k) \<and>
    (\<forall>k \<in> set ks. chain_of \<omega> (loads_at (cl_stamp cl) k) = Inr (chain \<omega> (cl_stamp cl) k) \<and>
      (forced k \<noteq> None \<longrightarrow> list_all is_finite_value (chain \<omega> (cl_stamp cl) k)))"
  using assms
proof (induction ks arbitrary: cl)
  case Nil
  then show ?case
    by (simp add: close_nodes_def endings_def)
next
  case (Cons k ks)
  obtain cl1 where first: "close_node \<omega> z_ref ref_node emf forced cl k = Inr cl1"
    and rest: "close_nodes \<omega> z_ref ref_node emf forced cl1 ks = Inr cl'"
    using Cons.prems(1) by (auto simp: close_nodes_def okE)
  have k: "k < n"
    using Cons.prems(2) by simp
  obtain zs where zs: "chain_of \<omega> (loads_at (cl_stamp cl) k) = Inr zs"
    and one: "adds n (cl_stamp cl) 1 (\<lambda>v u. ending_law \<omega> z_ref ref_node emf forced (loads_at (cl_stamp cl)) k (v k) (u 0))
      (\<lambda>v u m. - single k (u 0) m) (cl_stamp cl1)"
    and loads: "st_loads (cl_stamp cl1) = st_loads (cl_stamp cl)"
    and probes: "st_probes (cl_stamp cl1) =
      st_probes (cl_stamp cl) @ map (load_probe k) (zip (loads_at (cl_stamp cl) k) zs)"
    and ends: "cl_terminations cl1 = cl_terminations cl @ [ending_value emf forced k zs (length (st_elements (cl_stamp cl)))]"
    and refs: "cl_z_ref_at cl1 = (if referenced z_ref ref_node forced k then (cl_z_ref_at cl)(k \<mapsto> z_ref) else cl_z_ref_at cl)"
    and finite: "forced k \<noteq> None \<longrightarrow> list_all is_finite_value zs"
    by (rule close_node_result [OF first k]) (rule that)
  have chain_k: "chain \<omega> (cl_stamp cl) k = zs"
    by (simp add: chain_def zs)
  have len: "length (st_elements (cl_stamp cl1)) = Suc (length (st_elements (cl_stamp cl)))"
    using one by (auto simp: adds_def Let_def)
  have same: "loads_at (cl_stamp cl1) = loads_at (cl_stamp cl)"
    by (simp add: loads_at_def [abs_def] loads)
  then have "chain \<omega> (cl_stamp cl1) = chain \<omega> (cl_stamp cl)" "load_probes \<omega> (cl_stamp cl1) = load_probes \<omega> (cl_stamp cl)"
    by (simp_all add: chain_def [abs_def] load_probes_def [abs_def])
  then show ?case
    using Cons.IH [OF rest] Cons.prems(2) zs chain_k finite
    by (auto simp: loads probes ends refs len same load_probes_def endings_def)
qed

section \<open>The equations are the circuit\<close>

lemma adds_start:
  assumes "adds n st m law draw st'" and "st_elements st = []" and "st_couplings st = []"
  shows "well_stamped n (st_elements st') (st_couplings st')" and "length (st_elements st') = m"
    and "(\<forall>x < length (st_elements st'). equation (st_elements st') (st_couplings st') v j x) \<longleftrightarrow> law v j"
    and "k < n \<Longrightarrow> flow n (st_G st') (st_elements st') v j k = node_flow n (st_G st) v k + draw v j k"
proof -
  have els: "list_all (element_in n) (st_elements st')" "length (st_elements st') = m"
    and cps: "\<forall>(i, k, z) \<in> set (st_couplings st'). i < m \<and> k < m"
    and laws: "\<And>v j. element_laws (st_elements st') (st_couplings st') 0 v j = law v j"
    and flows: "\<And>v j k. k < n \<Longrightarrow> node_flow n (st_G st') v k + element_flow (st_elements st') 0 j k =
      node_flow n (st_G st) v k + draw v j k"
    using assms by (auto simp: adds_def Let_def)
  show "well_stamped n (st_elements st') (st_couplings st')" "length (st_elements st') = m"
    using els cps by (auto simp: well_stamped_def)
  show "(\<forall>x < length (st_elements st'). equation (st_elements st') (st_couplings st') v j x) \<longleftrightarrow> law v j"
    using laws [of v j] by (simp add: equation_def element_laws_def)
  show "k < n \<Longrightarrow> flow n (st_G st') (st_elements st') v j k = node_flow n (st_G st) v k + draw v j k"
    using flows [of k v j] by (simp add: flow_def node_flow_def element_flow_def)
qed

lemma stamp_branch_loads_below:
  assumes "stamp_branch rd wavelength f_hz \<omega> st (i, br, path) = Inr st'" and "nodes_below rd n"
    and "\<forall>k \<in> fst ` set (st_loads st). k < n"
  shows "\<forall>k \<in> fst ` set (st_loads st'). k < n"
proof -
  have other: "st_loads st' = st_loads st" if "\<not> (\<exists>p lg par z. br = Load p lg par z)"
    using assms(1) that
    by (cases br) (auto simp: stamp_branch_def okE Let_def stamp_tl_def stamp_balanced_def stamp_autotransformer_def
        add_magnetizing_def add_probe_def add_element_def add_node_def add_block_def add_line_def case_prod_unfold
        split: option.splits if_splits)
  show ?thesis
  proof (cases "\<exists>p lg par z. br = Load p lg par z")
    case True
    then obtain p lg par z k where "st_loads st' = push_load k (p, lg, par, z, path, i) (st_loads st)" "k < n"
      using assms(1) lookupE_below [OF _ assms(2)] by (auto simp: stamp_branch_def okE Let_def)
    then show ?thesis
      using assms(3) by (auto simp: push_load_def split: if_splits)
  next
    case False
    then show ?thesis
      using other assms(3) by simp
  qed
qed

end
