(* ===== verification/Network_Solution.thy ===== *)
theory Network_Solution
  imports Network_Ending
begin

text \<open>
  The circuit of a whole network, and that the system \<open>apply_branches\<close> assembles has exactly
  its voltages and currents for solutions.
\<close>

section \<open>The loads of a node\<close>

definition load_of :: "reducer \<Rightarrow> nat \<Rightarrow> nat \<times> branch \<times> string \<Rightarrow> series_load list" where
  "load_of rd k ibp =
     (case ibp of (i, br, path) \<Rightarrow>
        (case br of
           Load p lg par z \<Rightarrow> if node_of rd p = k then [(p, lg, par, z, path, i)] else []
         | _ \<Rightarrow> []))"

definition numbered_branches :: "reducer \<Rightarrow> (nat \<times> branch \<times> string) list" where
  "numbered_branches rd = enumerate 0 (zip (nw_branches (rd_network rd)) (nw_branch_paths (rd_network rd)))"

definition loads_on :: "reducer \<Rightarrow> nat \<Rightarrow> series_load list" where
  \<comment> \<open>the loads in the termination of a node\<close>
  "loads_on rd k = concat (map (load_of rd k) (numbered_branches rd))"

lemma loads_at_push:
  "loads_at (st\<lparr>st_loads := push_load i ld (st_loads st)\<rparr>) k = loads_at st k @ (if i = k then [ld] else [])"
proof -
  have mapped: "map_of (map (\<lambda>(m, ls). (m, if m = i then ls @ [ld] else ls)) xs) k =
      map_option (\<lambda>ls. if k = i then ls @ [ld] else ls) (map_of xs k)" for xs :: "(nat \<times> series_load list) list"
    by (induction xs) auto
  show ?thesis
  proof (cases "map_of (st_loads st) i")
    case None
    then have "i \<notin> fst ` set (st_loads st)"
      by (simp add: map_of_eq_None_iff)
    then show ?thesis
      using None by (simp add: loads_at_def push_load_def or_else_def map_add_def split: option.split) auto
  next
    case (Some ls)
    then have "i \<in> fst ` set (st_loads st)"
      by (metis map_of_eq_None_iff option.distinct(1))
    then show ?thesis
      using Some by (simp add: loads_at_def push_load_def mapped or_else_def split: option.split) auto
  qed
qed

lemma stamp_branch_other_loads:
  assumes "stamp_branch rd wavelength f_hz \<omega> st (i, br, path) = Inr st'"
    and "\<And>p lg par z. br \<noteq> Load p lg par z"
  shows "st_loads st' = st_loads st"
  using assms
  by (cases br) (auto simp: stamp_branch_def okE Let_def stamp_tl_def stamp_balanced_def stamp_autotransformer_def
      add_magnetizing_def add_probe_def add_element_def add_node_def add_block_def add_line_def case_prod_unfold
      split: option.splits if_splits)

lemma stamp_branch_loads:
  assumes "stamp_branch rd wavelength f_hz \<omega> st ibp = Inr st'"
  shows "loads_at st' k = loads_at st k @ load_of rd k ibp"
    and "fst ` set (st_loads st') = fst ` set (st_loads st) \<union> {k. load_of rd k ibp \<noteq> []}"
proof -
  obtain i br path where ibp: "ibp = (i, br, path)"
    by (cases ibp)
  have "loads_at st' k = loads_at st k @ load_of rd k ibp \<and>
      fst ` set (st_loads st') = fst ` set (st_loads st) \<union> {k. load_of rd k ibp \<noteq> []}"
  proof (cases "\<exists>p lg par z. br = Load p lg par z")
    case True
    then obtain p lg par z where br: "br = Load p lg par z"
      by blast
    have st': "st' = st\<lparr>st_loads := push_load (node_of rd p) (p, lg, par, z, path, i) (st_loads st)\<rparr>"
      using assms br ibp by (auto simp: stamp_branch_def okE Let_def lookupE_node)
    have load: "load_of rd k ibp = (if node_of rd p = k then [(p, lg, par, z, path, i)] else [])" for k
      by (simp add: load_of_def ibp br)
    have "fst ` set (push_load n ld xs) = insert n (fst ` set xs)" for n ld xs
      by (force simp: push_load_def)
    then show ?thesis
      by (auto simp: st' load loads_at_push)
  next
    case False
    then have "load_of rd m ibp = []" for m
      by (cases br) (simp_all add: load_of_def ibp)
    then show ?thesis
      using stamp_branch_other_loads [OF assms [unfolded ibp]] False by (simp add: loads_at_def)
  qed
  then show "loads_at st' k = loads_at st k @ load_of rd k ibp"
    "fst ` set (st_loads st') = fst ` set (st_loads st) \<union> {k. load_of rd k ibp \<noteq> []}"
    by auto
qed

lemma stamp_branches_loads:
  assumes "foldE (stamp_branch rd wavelength f_hz \<omega>) st ibps = Inr st'"
  shows "loads_at st' k = loads_at st k @ concat (map (load_of rd k) ibps)"
    and "fst ` set (st_loads st') = fst ` set (st_loads st) \<union> {k. concat (map (load_of rd k) ibps) \<noteq> []}"
  using assms
proof (induction ibps arbitrary: st)
  case (Cons ibp ibps)
  {
    case 1
    then show ?case
      using Cons.IH(1) by (auto simp: okE stamp_branch_loads(1))
  next
    case 2
    then obtain st1 where st1: "stamp_branch rd wavelength f_hz \<omega> st ibp = Inr st1"
      and rest: "foldE (stamp_branch rd wavelength f_hz \<omega>) st1 ibps = Inr st'"
      by (auto simp: okE)
    show ?case
      unfolding Cons.IH(2) [OF rest] stamp_branch_loads(2) [OF st1] by auto
  }
qed (simp_all)

section \<open>The circuit\<close>

definition end_nodes :: "reducer \<Rightarrow> nat list" where
  \<comment> \<open>the nodes with a source or a load, in order\<close>
  "end_nodes rd = sorted_list_of_set (fst ` set (rd_driven rd) \<union> {k. loads_on rd k \<noteq> []})"

definition wf_reducer :: "reducer \<Rightarrow> bool" where
  "wf_reducer rd \<longleftrightarrow> nodes_below rd (rd_n_nodes rd) \<and> (\<forall>d \<in> set (rd_driven rd). fst d < rd_n_nodes rd) \<and>
     length (nw_branch_paths (rd_network rd)) = length (nw_branches (rd_network rd))"

definition the_reference :: "reducer \<Rightarrow> complex \<Rightarrow> nat option" where
  "the_reference rd z_ref = (if z_ref = 0 then None else reference_node rd)"

definition termination_law :: "reducer \<Rightarrow> real \<Rightarrow> complex \<Rightarrow> nat \<Rightarrow> complex \<Rightarrow> complex \<Rightarrow> bool" where
  \<comment> \<open>the source and the loads of a node, over its voltage and the current they deliver\<close>
  "termination_law rd \<omega> z_ref =
     ending_law \<omega> z_ref (the_reference rd z_ref) (emfs (rd_driven rd)) (forced_currents (rd_driven rd)) (loads_on rd)"

definition circuit :: "reducer \<Rightarrow> nat \<Rightarrow> cmatrix \<Rightarrow> real \<Rightarrow> complex \<Rightarrow> real \<Rightarrow> cvector \<Rightarrow> cvector \<Rightarrow> bool" where
  \<comment> \<open>the law of every branch and every termination, and Kirchhoff's current law at every node:
     what the antenna and the branches draw, the terminations deliver\<close>
  "circuit rd n_real Y wavelength z_ref f_hz v j \<longleftrightarrow>
     (let \<omega> = 2 * pi * f_hz; brs = nw_branches (rd_network rd); w = total_width brs; ks = end_nodes rd
      in all_laws rd wavelength \<omega> brs v j \<and>
         (\<forall>i < length ks. termination_law rd \<omega> z_ref (ks ! i) (v (ks ! i)) (j (w + i))) \<and>
         (\<forall>k < rd_n_nodes rd.
            node_flow (rd_n_nodes rd) (antenna_block rd n_real Y) v k + all_draws rd f_hz \<omega> brs v j k =
            (\<Sum>i<length ks. single (ks ! i) (j (w + i)) k)))"

lemma emfs_or_forced:
  "k \<in> fst ` set driven \<longleftrightarrow> emfs driven k \<noteq> None \<or> forced_currents driven k \<noteq> None"
proof (induction driven rule: rev_induct)
  case (snoc d ds)
  obtain k' kind x where d: "d = (k', kind, x)"
    by (cases d)
  then show ?case
    using snoc by (cases kind) (auto simp: emfs_def forced_currents_def)
qed (simp add: emfs_def forced_currents_def)

lemma end_nodes_below: "finite {k. loads_on rd k \<noteq> []}" "set (end_nodes rd) = fst ` set (rd_driven rd) \<union> {k. loads_on rd k \<noteq> []}"
proof -
  have "{k. loads_on rd k \<noteq> []} \<subseteq> (\<lambda>(i, br, path). case br of Load p lg par z \<Rightarrow> node_of rd p | _ \<Rightarrow> 0) ` set (numbered_branches rd)"
    by (force simp: loads_on_def load_of_def split: branch.splits if_splits)
  then show fin: "finite {k. loads_on rd k \<noteq> []}"
    by (rule finite_subset) simp
  then show "set (end_nodes rd) = fst ` set (rd_driven rd) \<union> {k. loads_on rd k \<noteq> []}"
    by (simp add: end_nodes_def)
qed

text \<open>What a successful \<open>apply_branches\<close> has done.\<close>

lemma apply_branches_parts:
  assumes "apply_branches rd n_real Y wavelength z_ref = Inr s" and f: "frequency_of rd wavelength = Inr f_hz"
  obtains st cl where "foldE (stamp_branch rd wavelength f_hz (2 * pi * f_hz))
       \<lparr>st_G = antenna_block rd n_real Y, st_elements = [], st_couplings = [], st_loads = [], st_probes = []\<rparr>
       (numbered_branches rd) = Inr st"
    and "close_nodes (2 * pi * f_hz) z_ref (the_reference rd z_ref) (emfs (rd_driven rd)) (forced_currents (rd_driven rd))
       \<lparr>cl_stamp = st, cl_terminations = [], cl_z_ref_at = Map.empty\<rparr> (end_nodes rd) = Inr cl"
    and "s = mk_mna (rd_n_nodes rd) (st_G (cl_stamp cl)) (st_elements (cl_stamp cl)) (cl_terminations cl)
       (st_probes (cl_stamp cl)) (st_couplings (cl_stamp cl)) z_ref (cl_z_ref_at cl)"
    and "loads_at st = loads_on rd"
proof -
  obtain st where st: "foldE (stamp_branch rd wavelength f_hz (2 * pi * f_hz))
       \<lparr>st_G = antenna_block rd n_real Y, st_elements = [], st_couplings = [], st_loads = [], st_probes = []\<rparr>
       (numbered_branches rd) = Inr st"
    and rest: "bindE (terminate rd (2 * pi * f_hz) z_ref st) (\<lambda>cl. let st = cl_stamp cl
       in Inr (mk_mna (rd_n_nodes rd) (st_G st) (st_elements st) (cl_terminations cl) (st_probes st)
                 (st_couplings st) z_ref (cl_z_ref_at cl))) = Inr s"
    using assms(1) f by (auto simp: apply_branches_def stamp_branches_def okE Let_def numbered_branches_def)
  have loads: "loads_at st = loads_on rd"
    using stamp_branches_loads(1) [OF st] by (simp add: loads_on_def fun_eq_iff loads_at_def or_else_def)
  have "fst ` set (st_loads st) = {k. loads_on rd k \<noteq> []}"
    using stamp_branches_loads(2) [OF st] by (simp add: loads_on_def)
  moreover have "filter (\<lambda>k. emfs (rd_driven rd) k \<noteq> None \<or> forced_currents (rd_driven rd) k \<noteq> None)
      (map fst (rd_driven rd)) = map fst (rd_driven rd)"
    unfolding filter_id_conv emfs_or_forced [symmetric] by auto
  ultimately have nodes: "closed_nodes (emfs (rd_driven rd)) (forced_currents (rd_driven rd)) rd st = end_nodes rd"
    by (simp add: closed_nodes_def end_nodes_def)
  obtain cl where "close_nodes (2 * pi * f_hz) z_ref (the_reference rd z_ref) (emfs (rd_driven rd))
       (forced_currents (rd_driven rd)) \<lparr>cl_stamp = st, cl_terminations = [], cl_z_ref_at = Map.empty\<rparr>
       (end_nodes rd) = Inr cl"
    and "s = mk_mna (rd_n_nodes rd) (st_G (cl_stamp cl)) (st_elements (cl_stamp cl)) (cl_terminations cl)
       (st_probes (cl_stamp cl)) (st_couplings (cl_stamp cl)) z_ref (cl_z_ref_at cl)"
    using rest by (auto simp: terminate_def okE Let_def nodes close_nodes_def the_reference_def)
  then show thesis
    using that [OF st _ _ loads] by blast
qed

lemma end_nodes_in_range:
  assumes "wf_reducer rd" and "foldE (stamp_branch rd wavelength f_hz \<omega>) st (numbered_branches rd) = Inr st'"
    and "st_loads st = []"
  shows "\<forall>k \<in> set (end_nodes rd). k < rd_n_nodes rd"
proof -
  have "\<forall>k \<in> fst ` set (st_loads t'). k < rd_n_nodes rd"
    if "foldE (stamp_branch rd wavelength f_hz \<omega>) t ibps = Inr t'" "\<forall>k \<in> fst ` set (st_loads t). k < rd_n_nodes rd" for ibps t t'
    using that
  proof (induction ibps arbitrary: t)
    case (Cons ibp ibps)
    obtain i br path t1 where "stamp_branch rd wavelength f_hz \<omega> t (i, br, path) = Inr t1"
      "foldE (stamp_branch rd wavelength f_hz \<omega>) t1 ibps = Inr t'"
      using Cons.prems(1) by (cases ibp) (auto simp: okE)
    then show ?case
      using Cons.IH stamp_branch_loads_below Cons.prems(2) assms(1) unfolding wf_reducer_def by blast
  qed simp
  from this [OF assms(2)] have "\<forall>k \<in> fst ` set (st_loads st'). k < rd_n_nodes rd"
    using assms(3) by simp
  moreover have "fst ` set (st_loads st') = {k. loads_on rd k \<noteq> []}"
    using stamp_branches_loads(2) [OF assms(2)] assms(3) by (simp add: loads_on_def)
  ultimately show ?thesis
    using assms(1) end_nodes_below(2) [of rd] by (auto simp: wf_reducer_def)
qed

text \<open>The network as its stamps add it.\<close>

definition assembled :: "reducer \<Rightarrow> reducer" where
  "assembled rd = rd\<lparr>rd_network := (rd_network rd)\<lparr>nw_branches := map (as_stamped rd) (nw_branches (rd_network rd))\<rparr>\<rparr>"

lemma assembled_fields [simp]:
  "rd_n_nodes (assembled rd) = rd_n_nodes rd" "rd_driven (assembled rd) = rd_driven rd"
  "rd_port_to_idx (assembled rd) = rd_port_to_idx rd" "rd_floating (assembled rd) = rd_floating rd"
  "rd_c_light (assembled rd) = rd_c_light rd" "node_of (assembled rd) = node_of rd"
  "nw_branches (rd_network (assembled rd)) = map (as_stamped rd) (nw_branches (rd_network rd))"
  "nw_branch_paths (rd_network (assembled rd)) = nw_branch_paths (rd_network rd)"
  by (simp_all add: assembled_def node_of_def [abs_def])

lemma total_width_stamped [simp]: "total_width (map (as_stamped rd) brs) = total_width brs"
  by (simp add: total_width_def o_def)

lemma assembled_antenna [simp]: "antenna_block (assembled rd) = antenna_block rd"
  by (simp add: antenna_block_def [abs_def] fun_eq_iff)

lemma assembled_branch [simp]:
  "branch_laws (assembled rd) = branch_laws rd" "branch_draws (assembled rd) = branch_draws rd"
  by (intro ext, simp only: branch_laws_def assembled_fields) (intro ext, simp only: branch_draws_def assembled_fields)

lemma assembled_all [simp]:
  "all_laws (assembled rd) wavelength \<omega> brs v u = all_laws rd wavelength \<omega> brs v u"
  "all_draws (assembled rd) f_hz \<omega> brs v u k = all_draws rd f_hz \<omega> brs v u k"
  by (induction brs arbitrary: u) simp_all

lemma load_of_as_stamped: "load_of (assembled rd) k (i, as_stamped rd br, path) = load_of rd k (i, br, path)"
  by (cases br) (simp_all add: load_of_def as_stamped_def Let_def)

lemma assembled_loads [simp]: "loads_on (assembled rd) = loads_on rd"
proof
  fix k
  have "map (load_of (assembled rd) k) (enumerate x (zip (map (as_stamped rd) brs) paths)) =
      map (load_of rd k) (enumerate x (zip brs paths))" for x brs paths
  proof (induction brs arbitrary: x paths)
    case (Cons br brs)
    then show ?case
      by (cases paths) (simp_all add: load_of_as_stamped)
  qed simp
  then show "loads_on (assembled rd) k = loads_on rd k"
    by (simp add: loads_on_def numbered_branches_def)
qed

lemma assembled_ends [simp]: "end_nodes (assembled rd) = end_nodes rd" "the_reference (assembled rd) = the_reference rd"
  "termination_law (assembled rd) = termination_law rd" "reference_node (assembled rd) = reference_node rd"
  by (simp_all add: end_nodes_def the_reference_def [abs_def] reference_node_def termination_law_def [abs_def] fun_eq_iff)

lemma circuit_assembled:
  assumes "list_all (apart rd) (nw_branches (rd_network rd))"
  shows "circuit (assembled rd) n_real Y wavelength z_ref f_hz v j \<longleftrightarrow> circuit rd n_real Y wavelength z_ref f_hz v j"
proof -
  have laws: "all_laws rd wavelength \<omega> (map (as_stamped rd) brs) v u = all_laws rd wavelength \<omega> brs v u" for \<omega> brs u
    by (induction brs arbitrary: u) (simp_all add: as_stamped_laws)
  have draws: "all_draws rd f_hz \<omega> (map (as_stamped rd) brs) v u k = all_draws rd f_hz \<omega> brs v u k"
    if "list_all (apart rd) brs" for \<omega> brs u k
    using that by (induction brs arbitrary: u) (simp_all add: as_stamped_apart)
  show ?thesis
    by (simp add: circuit_def Let_def laws draws [OF assms])
qed

theorem solves_circuit:
  assumes "apply_branches rd n_real Y wavelength z_ref = Inr s" and "wf_reducer rd"
    and "frequency_of rd wavelength = Inr f_hz"
  shows "solves s v j \<longleftrightarrow> circuit (assembled rd) n_real Y wavelength z_ref f_hz v j"
proof -
  let ?n = "rd_n_nodes rd" and ?\<omega> = "2 * pi * f_hz" and ?brs = "nw_branches (rd_network rd)"
  let ?brs' = "map (as_stamped rd) ?brs"
  let ?st0 = "\<lparr>st_G = antenna_block rd n_real Y, st_elements = [], st_couplings = [], st_loads = [], st_probes = []\<rparr>"
  obtain st cl where st: "foldE (stamp_branch rd wavelength f_hz ?\<omega>) ?st0 (numbered_branches rd) = Inr st"
    and cl: "close_nodes ?\<omega> z_ref (the_reference rd z_ref) (emfs (rd_driven rd)) (forced_currents (rd_driven rd))
       \<lparr>cl_stamp = st, cl_terminations = [], cl_z_ref_at = Map.empty\<rparr> (end_nodes rd) = Inr cl"
    and s: "s = mk_mna ?n (st_G (cl_stamp cl)) (st_elements (cl_stamp cl)) (cl_terminations cl)
       (st_probes (cl_stamp cl)) (st_couplings (cl_stamp cl)) z_ref (cl_z_ref_at cl)"
    and loads: "loads_at st = loads_on rd"
    by (rule apply_branches_parts [OF assms(1,3)]) (rule that)
  have wf: "nodes_below rd ?n" "length (nw_branch_paths (rd_network rd)) = length ?brs"
    using assms(2) by (auto simp: wf_reducer_def)
  have ks: "\<forall>k \<in> set (end_nodes rd). k < ?n"
    using end_nodes_in_range [OF assms(2) st] by simp
  have branches: "adds ?n ?st0 (total_width ?brs) (all_laws rd wavelength ?\<omega> ?brs') (all_draws rd f_hz ?\<omega> ?brs') st"
    using adds_branches [OF st [unfolded numbered_branches_def] wf] .
  have all: "adds ?n ?st0 (total_width ?brs + length (end_nodes rd))
      (\<lambda>v u. all_laws rd wavelength ?\<omega> ?brs' v u \<and>
         (\<forall>i < length (end_nodes rd). termination_law rd ?\<omega> z_ref (end_nodes rd ! i) (v (end_nodes rd ! i)) (u (total_width ?brs + i))))
      (\<lambda>v u k. all_draws rd f_hz ?\<omega> ?brs' v u k -
         (\<Sum>i<length (end_nodes rd). single (end_nodes rd ! i) (u (total_width ?brs + i)) k)) (cl_stamp cl)"
    using adds_trans [OF branches close_nodes_adds [OF cl ks, simplified]]
    by (simp add: termination_law_def loads)
  have balance: "a + (b - c) = 0 \<longleftrightarrow> a + b = c" for a b c :: complex
    by (auto simp: algebra_simps)
  note start = adds_start [OF all]
  have "solves s v j \<longleftrightarrow> (\<forall>k < ?n. flow ?n (st_G (cl_stamp cl)) (st_elements (cl_stamp cl)) v j k = 0) \<and>
      (\<forall>x < length (st_elements (cl_stamp cl)). equation (st_elements (cl_stamp cl)) (st_couplings (cl_stamp cl)) v j x)"
    unfolding s by (rule solves_mk_mna) (simp add: start(1))
  then show ?thesis
    using start(3) [of v j] start(4) [of _ v j]
    by (simp add: circuit_def Let_def balance) blast
qed

end
