(* ===== verification/Network_Power.thy ===== *)
theory Network_Power
  imports Network_Solution
begin

text \<open>
  The power a branch or a node's loads take, as the probes read it, is the power at the
  terminals: with Kirchhoff's law this is Tellegen's theorem, and the balance of the budget.
\<close>

section \<open>Power at the nodes\<close>

definition absorbed :: "nat \<Rightarrow> cvector \<Rightarrow> (nat \<Rightarrow> complex) \<Rightarrow> real" where
  \<comment> \<open>by what draws these currents from the nodes\<close>
  "absorbed n v I = 1 / 2 * Re (\<Sum>k<n. v k * cnj (I k))"

lemma absorbed_single: "i < n \<Longrightarrow> absorbed n v (single i x) = 1 / 2 * Re (v i * cnj x)"
proof -
  assume "i < n"
  have "(\<Sum>k<n. v k * cnj (single i x k)) = (\<Sum>k<n. if k = i then v i * cnj x else 0)"
    by (rule sum.cong) (auto simp: single_def)
  then show ?thesis
    using \<open>i < n\<close> by (simp add: absorbed_def)
qed

lemma absorbed_add: "absorbed n v (\<lambda>k. f k + g k) = absorbed n v f + absorbed n v g"
  by (simp add: absorbed_def distrib_left sum.distrib)

lemma absorbed_minus: "absorbed n v (\<lambda>k. f k - g k) = absorbed n v f - absorbed n v g"
  by (simp add: absorbed_def right_diff_distrib sum_subtractf)

lemma absorbed_zero [simp]: "absorbed n v (\<lambda>k. 0) = 0"
  by (simp add: absorbed_def)

lemma absorbed_cong: "(\<And>k. k < n \<Longrightarrow> f k = g k) \<Longrightarrow> absorbed n v f = absorbed n v g"
  by (simp add: absorbed_def)

lemma absorbed_sum: "absorbed n v (\<lambda>k. \<Sum>i<(m :: nat). f i k) = (\<Sum>i<m. absorbed n v (f i))"
  by (induction m) (simp_all add: absorbed_add)

lemma Re_cnj_swap: "Re (a * cnj b) = Re (cnj a * b)"
  by simp

lemma absorbed_block:
  assumes "\<forall>i \<in> set nodes. i < n"
  shows "absorbed n v (block_draw nodes y v) = 1 / 2 * Re (dot nodes v y)"
proof -
  have "absorbed n v (block_draw nodes y v) =
      (\<Sum>i<length nodes. absorbed n v (single (nodes ! i) (\<Sum>l<length nodes. y i l * v (nodes ! l))))"
    unfolding block_draw_def [abs_def] by (rule absorbed_sum)
  also have "\<dots> = (\<Sum>i<length nodes. 1 / 2 * Re (v (nodes ! i) * cnj (\<Sum>l<length nodes. y i l * v (nodes ! l))))"
    using assms by (simp add: absorbed_single)
  also have "\<dots> = (\<Sum>i<length nodes. 1 / 2 * Re (cnj (v (nodes ! i)) * (\<Sum>l<length nodes. y i l * v (nodes ! l))))"
    by (simp only: Re_cnj_swap)
  also have "\<dots> = 1 / 2 * Re (dot nodes v y)"
    unfolding dot_def Re_sum sum_distrib_left ..
  finally show ?thesis .
qed

lemma absorbed_node: "k < n \<Longrightarrow> absorbed n v (single k (y * v k)) = 1 / 2 * Re (dot [k] v (\<lambda>_ _. y))"
  by (simp add: absorbed_single dot_def algebra_simps)

lemma absorbed_ends:
  assumes "\<forall>n \<in> set_option a \<union> set_option b. n < N"
  shows "absorbed N v (\<lambda>k. end_draw a i k - end_draw b i k) =
    1 / 2 * Re (volts_at a v * cnj i - volts_at b v * cnj i)"
proof -
  have "absorbed N v (end_draw x i) = 1 / 2 * Re (volts_at x v * cnj i)" if "\<forall>n \<in> set_option x. n < N" for x
    using that by (cases x) (simp_all add: end_draw_def [abs_def] volts_at_def absorbed_single)
  then show ?thesis
    using assms by (simp add: absorbed_minus)
qed

section \<open>What a probe reads\<close>

definition watts :: "mna \<Rightarrow> cvector \<Rightarrow> cvector \<Rightarrow> probe list \<Rightarrow> real \<Rightarrow> bool" where
  \<comment> \<open>all the probes can be read, to this sum\<close>
  "watts s v j ps w \<longleftrightarrow>
     (\<exists>ws. mapE (\<lambda>p. branch_power s v j (pr_kind p)) ps = Inr ws \<and> sum_list ws = w)"

lemma watts_Nil [simp]: "watts s v j [] 0"
  by (simp add: watts_def)

lemma watts_append: "watts s v j ps w \<Longrightarrow> watts s v j qs x \<Longrightarrow> watts s v j (ps @ qs) (w + x)"
proof -
  assume "watts s v j ps w" "watts s v j qs x"
  then obtain ws xs where "mapE (\<lambda>p. branch_power s v j (pr_kind p)) ps = Inr ws" "sum_list ws = w"
      "mapE (\<lambda>p. branch_power s v j (pr_kind p)) qs = Inr xs" "sum_list xs = x"
    by (auto simp: watts_def)
  then show ?thesis
    by (auto simp: watts_def mapE_eq_Inr intro!: exI [of _ "ws @ xs"] list_all2_appendI)
qed

lemma watts_one: "branch_power s v j (pr_kind p) = Inr w \<Longrightarrow> watts s v j [p] w"
  by (simp add: watts_def)

lemma pr_kind_mk_probe [simp]: "pr_kind (mk_probe path i words names kind sub) = kind"
  by (simp add: mk_probe_def)

lemma probes_add_simps [simp]:
  "st_probes (add_probe p st) = st_probes st @ [p]" "st_probes (add_element el st) = st_probes st"
  "st_probes (add_node k y st) = st_probes st" "st_probes (add_block idxs yb st) = st_probes st"
  "st_elements (add_probe p st) = st_elements st" "st_elements (add_element el st) = st_elements st @ [el]"
  "st_elements (add_node k y st) = st_elements st" "st_elements (add_block idxs yb st) = st_elements st"
  by (simp_all add: add_probe_def add_element_def add_node_def add_block_def)

lemma group1_watts:
  "watts s v j [p] (absorbed n v (block_draw nodes y v))" if "pr_kind p = Group1 nodes y" "\<forall>i \<in> set nodes. i < n"
  using that by (intro watts_one) (simp add: branch_power_def absorbed_block)

lemma node_watts:
  "watts s v j [p] (absorbed n v (single k (y * v k)))" if "pr_kind p = Group1 [k] (\<lambda>_ _. y)" "k < n"
  using that by (intro watts_one) (simp add: branch_power_def absorbed_node)

lemma series_watts:
  assumes "series_group2 a b lg \<omega> 0 = Inr el" and "ms_elements s ! x = el" and "pr_kind p = Group2 x"
    and "\<forall>n \<in> set_option a \<union> set_option b. n < N"
  shows "watts s v j [p] (absorbed N v (\<lambda>k. end_draw a (j x) k - end_draw b (j x) k))"
proof -
  have "el_a el = a \<and> el_b el = b \<and> el_c el = None \<and> el_ka el = 1 \<and> el_kb el = 1"
    using assms(1) by (cases rule: series_group2_cases) (simp_all add: group2_def)
  then show ?thesis
    using assms(2,3) by (intro watts_one) (simp add: branch_power_def absorbed_ends [OF assms(4)] Let_def)
qed

lemma transformer_watts:
  assumes "ms_elements s ! x = transformer_element a b n z_w" and "pr_kind p = Group2 x" and "a < N" and "b < N"
  shows "watts s v j [p] (absorbed N v (\<lambda>k. single a (j x) k - single b (n * j x) k))"
  using assms
  by (intro watts_one) (simp add: branch_power_def Let_def transformer_element_def group2_def volts_at_def
      absorbed_minus absorbed_single; simp add: field_simps)

lemma balun_watts:
  assumes "ms_elements s ! x = balun_element p0 a b n z_w" and "pr_kind p = Group2 x"
    and "p0 < N" and "a < N" and "b < N"
  shows "watts s v j [p] (absorbed N v (\<lambda>k. single a (j x) k - single b (j x) k - single p0 (n * j x) k))"
  using assms
  by (intro watts_one) (simp add: branch_power_def Let_def balun_element_def group2_def volts_at_def
      absorbed_minus absorbed_single; simp add: field_simps)

definition real_weights :: "weights \<Rightarrow> bool" where
  "real_weights port \<longleftrightarrow> (\<forall>p \<in> set port. cnj (snd p) = snd p)"

lemma absorbed_weighted:
  assumes "\<forall>p \<in> set port. fst p < n" and "real_weights port"
  shows "absorbed n v (weighted_draw port i) = 1 / 2 * Re (weighted port v * cnj i)"
  using assms
proof (induction port)
  case Nil
  then show ?case
    by (simp add: weighted_draw_def [abs_def] weighted_def)
next
  case (Cons p port)
  obtain k w where p: "p = (k, w)"
    by (cases p)
  have "absorbed n v (weighted_draw (p # port) i) =
      absorbed n v (single k (w * i)) + absorbed n v (weighted_draw port i)"
    by (simp add: weighted_draw_def [abs_def] p absorbed_add)
  moreover have "Im w = 0"
    using Cons.prems(2) p by (simp add: real_weights_def complex_eq_iff)
  ultimately show ?case
    using Cons p
    by (simp add: absorbed_single weighted_def real_weights_def distrib_right; simp add: algebra_simps)
qed

lemma leg_power:
  assumes "\<forall>p \<in> set port_a \<union> set port_b. fst p < n" and "real_weights port_a" and "real_weights port_b"
  shows "1 / 2 * Re (weighted port_a v * cnj i1 - weighted port_b v * cnj i2) =
    absorbed n v (\<lambda>k. weighted_draw port_a i1 k - weighted_draw port_b i2 k)"
  using assms by (simp add: absorbed_minus absorbed_weighted; simp add: field_simps)

text \<open>A tapped winding only loses power in its resistance.\<close>

lemma linked_power:
  assumes "0 - va = z1 * i1 + zm * i2" and "va - vb = zm * i1 + z2 * i2"
    and "z1 = Complex r1 x1" and "z2 = Complex r2 x2" and "zm = Complex 0 xm"
  shows "Re (va * cnj (i2 - i1) - vb * cnj i2) = r1 * (cmod i1)\<^sup>2 + r2 * (cmod i2)\<^sup>2"
proof -
  have "va * cnj (i2 - i1) - vb * cnj i2 = (0 - va) * cnj i1 + (va - vb) * cnj i2"
    by (simp add: algebra_simps)
  also have "\<dots> = (z1 * i1 + zm * i2) * cnj i1 + (zm * i1 + z2 * i2) * cnj i2"
    using assms(1,2) by simp
  also have "Re \<dots> = r1 * (cmod i1)\<^sup>2 + r2 * (cmod i2)\<^sup>2"
    unfolding cmod_power2 by (simp add: assms(3-5) power2_eq_square algebra_simps)
  finally show ?thesis .
qed

lemma autotransformer_watts:
  assumes "section_impedances \<omega> l u k q = (z1, z2, zm)"
    and "0 - v a = z1 * j x + zm * j y" and "v a - v b = zm * j x + z2 * j y"
    and "pr_kind p = Group2R x (Re z1)" and "pr_kind p' = Group2R y (Re z2)" and "a < n" and "b < n"
  shows "watts s v j [p, p'] (absorbed n v (\<lambda>m. single a (j y - j x) m - single b (j y) m))"
proof -
  obtain r1 x1 r2 x2 xm where "z1 = Complex r1 x1" "z2 = Complex r2 x2" "zm = Complex 0 xm"
    using assms(1) by (auto simp: section_impedances_def Let_def)
  from linked_power [OF assms(2,3) this] this
  show ?thesis
    using assms(4-7) by (simp add: watts_def branch_power_def absorbed_minus absorbed_single; simp add: field_simps)
qed

section \<open>Each branch\<close>

definition reads :: "mna \<Rightarrow> cvector \<Rightarrow> cvector \<Rightarrow> stamp \<Rightarrow> stamp \<Rightarrow> real \<Rightarrow> bool" where
  \<comment> \<open>the probes added between the two read this sum\<close>
  "reads s v j st st' w \<longleftrightarrow> (\<exists>ps. st_probes st' = st_probes st @ ps \<and> watts s v j ps w)"

lemma reads_nothing: "st_probes st' = st_probes st \<Longrightarrow> reads s v j st st' 0"
  by (auto simp: reads_def)

lemma reads_trans: "reads s v j st st1 w \<Longrightarrow> reads s v j st1 st2 x \<Longrightarrow> reads s v j st st2 (w + x)"
  by (auto simp: reads_def dest: watts_append)

lemma readsI: "st_probes st' = st_probes st @ ps \<Longrightarrow> watts s v j ps w \<Longrightarrow> reads s v j st st' w"
  by (auto simp: reads_def)

lemma nth_prefix: "ms_elements s = (els @ el # els') @ others \<Longrightarrow> ms_elements s ! length els = el"
  by (simp add: nth_append)

lemma magnetizing_reads:
  assumes "add_magnetizing i m \<omega> probe st = Inr st'" and "i < n" and "\<And>kind. pr_kind (probe kind) = kind"
  shows "reads s v j st st' (absorbed n v (single i (magnetizing_draw m \<omega> (v i))))"
    and "st_elements st' = st_elements st"
proof -
  obtain zl where zl: "magnetizing_impedance m \<omega> = Inr zl"
    using assms(1) by (auto simp: add_magnetizing_def okE)
  have "reads s v j st st' (absorbed n v (single i (magnetizing_draw m \<omega> (v i)))) \<and> st_elements st' = st_elements st"
  proof (cases zl)
    case None
    have zero: "single i 0 = (\<lambda>k. 0)"
      by (simp add: fun_eq_iff)
    from None have "st' = st"
      using assms(1) zl by (simp add: add_magnetizing_def)
    then show ?thesis
      using zl None by (simp add: magnetizing_draw_def zero reads_nothing)
  next
    case (Some z)
    then have st': "st' = add_probe (probe (Group1 [i] (\<lambda>_ _. 1 / z))) (add_node i (1 / z) st)"
      using assms(1) zl by (auto simp: add_magnetizing_def okE divE_Inr)
    then show ?thesis
      using node_watts [of "probe (Group1 [i] (\<lambda>_ _. 1 / z))" i "1 / z" n s v j] assms(2,3)
      by (auto simp: magnetizing_draw_def zl Some intro!: readsI)
  qed
  then show "reads s v j st st' (absorbed n v (single i (magnetizing_draw m \<omega> (v i))))"
    and "st_elements st' = st_elements st"
    by auto
qed

lemma legs_watts:
  assumes "pr_kind p = Group2Abcd legs"
    and "\<And>i1 i2 a b. (i1, i2, a, b) \<in> set legs \<Longrightarrow>
      (\<forall>p \<in> set a \<union> set b. fst p < n) \<and> real_weights a \<and> real_weights b"
  shows "watts s v j [p] (sum_list (map (\<lambda>(i1, i2, a, b).
    absorbed n v (\<lambda>k. weighted_draw a (j i1) k - weighted_draw b (j i2) k)) legs))"
proof -
  have "map (\<lambda>(i1, i2, a, b). 1 / 2 * Re (weighted a v * cnj (j i1) - weighted b v * cnj (j i2))) legs =
      map (\<lambda>(i1, i2, a, b). absorbed n v (\<lambda>k. weighted_draw a (j i1) k - weighted_draw b (j i2) k)) legs"
    using assms(2) leg_power by (intro map_cong) auto
  then show ?thesis
    by (intro watts_one) (simp add: branch_power_def assms(1) cong: map_cong)
qed

lemma tl_reads:
  assumes "stamp_tl rd wavelength path i t st = Inr st'" and "nodes_below rd n"
  shows "reads s v j st st' (absorbed n v (branch_draws rd f_hz \<omega> (TL t) v (shifted (length (st_elements st)) j)))"
proof -
  let ?s = "if tl_transposed t then -1 else 1 :: complex" and ?L = "length (st_elements st)"
  let ?a = "[(node_of rd (tl_a t), 1)]" and ?b = "[(node_of rd (tl_b t), ?s)]"
  obtain m where nodes: "node_of rd (tl_a t) < n" "node_of rd (tl_b t) < n"
    and st': "add_probe (mk_probe path i ''TL'' [tl_a t, tl_b t] (Group2Abcd [snd (add_line ?a ?b m st)]) '''')
      (fst (add_line ?a ?b m st)) = st'"
    using assms(1) lookupE_below [OF _ assms(2)]
    by (auto simp: stamp_tl_def okE lookupE_node case_prod_unfold Let_def)
  obtain A B C D where m: "m = (A, B, C, D)"
    by (cases m)
  note line = add_line_fields [OF surjective_pairing, OF m]
  have "branch_draws rd f_hz \<omega> (TL t) v (shifted ?L j) =
      (\<lambda>k. weighted_draw ?a (j ?L) k - weighted_draw ?b (j (Suc ?L)) k)"
    by (simp add: fun_eq_iff branch_draws_def Let_def weighted_draw_def)
  then show ?thesis
    using legs_watts [of "mk_probe path i ''TL'' [tl_a t, tl_b t] (Group2Abcd [(?L, Suc ?L, ?a, ?b)]) ''''"
        "[(?L, Suc ?L, ?a, ?b)]" n s v j] nodes
    by (intro readsI) (auto simp: line st' [symmetric] real_weights_def)
qed

lemma balanced_reads:
  assumes "stamp_balanced rd wavelength path i b st = Inr st'" and "nodes_below rd n"
  shows "reads s v j st st' (absorbed n v (branch_draws rd f_hz \<omega> (BalancedLine b) v (shifted (length (st_elements st)) j)))"
proof -
  let ?N = "node_of rd" and ?L = "length (st_elements st)"
  let ?abcd = "\<lambda>z0. tl_abcd z0 (bl_length b) wavelength (bl_vf b) (bl_k1 b) (bl_k2 b) (rd_c_light rd)"
  let ?a = "\<lambda>w w'. [(?N (bl_a1 b), w), (?N (bl_a2 b), w')]" and ?b = "\<lambda>w w'. [(?N (bl_b1 b), w), (?N (bl_b2 b), w')]"
  let ?probe = "\<lambda>legs. mk_probe path i ''BalancedLine'' [bl_a1 b, bl_a2 b, bl_b1 b, bl_b2 b] (Group2Abcd legs) ''''"
  have nodes: "?N (bl_a1 b) < n" "?N (bl_a2 b) < n" "?N (bl_b1 b) < n" "?N (bl_b2 b) < n"
    using assms(1) lookupE_below [OF _ assms(2)] by (auto simp: stamp_balanced_def okE lookupE_node Let_def)
  obtain m where m: "?abcd (bl_zdiff b) = Inr m"
    using assms(1) by (auto simp: stamp_balanced_def okE lookupE_node Let_def)
  obtain A B C D where abcd: "m = (A, B, C, D)"
    by (cases m)
  let ?st1 = "fst (add_line (?a 1 (-1)) (?b 1 (-1)) m st)"
  note line = add_line_fields [OF surjective_pairing, OF abcd]
  have els1: "length (st_elements ?st1) = ?L + 2"
    by (simp add: line length_chain_elements)
  let ?leg1 = "(?L, Suc ?L, ?a 1 (-1), ?b 1 (-1))" and ?leg2 = "(?L + 2, Suc (?L + 2), ?a (1/2) (1/2), ?b (1/2) (1/2))"
  have rw: "real_weights (?a 1 (-1))" "real_weights (?b 1 (-1))" "real_weights (?a (1/2) (1/2))" "real_weights (?b (1/2) (1/2))"
    by (simp_all add: real_weights_def complex_eq_iff)
  show ?thesis
  proof (cases "bl_zcomm b")
    case None
    then have st': "st' = add_probe (?probe [?leg1]) ?st1"
      using assms(1) m by (auto simp: stamp_balanced_def okE lookupE_node Let_def case_prod_unfold line)
    have "branch_draws rd f_hz \<omega> (BalancedLine b) v (shifted ?L j) =
        (\<lambda>k. weighted_draw (?a 1 (-1)) (j ?L) k - weighted_draw (?b 1 (-1)) (j (Suc ?L)) k)"
      using None by (simp add: fun_eq_iff branch_draws_def Let_def weighted_draw_def)
    then show ?thesis
      using legs_watts [of "?probe [?leg1]" "[?leg1]" n s v j] nodes rw
      by (intro readsI) (auto simp: line st')
  next
    case (Some zc)
    obtain mc where mc: "?abcd zc = Inr mc"
      using assms(1) m Some by (auto simp: stamp_balanced_def okE lookupE_node Let_def case_prod_unfold)
    obtain A' B' C' D' where abcd': "mc = (A', B', C', D')"
      by (cases mc)
    note line2 = add_line_fields [OF surjective_pairing, OF abcd']
    have st': "st' = add_probe (?probe [?leg1, ?leg2]) (fst (add_line (?a (1/2) (1/2)) (?b (1/2) (1/2)) mc ?st1))"
      using assms(1) m mc Some
      by (auto simp: stamp_balanced_def okE lookupE_node Let_def case_prod_unfold line(6) line2(6) els1 [simplified])
    have "branch_draws rd f_hz \<omega> (BalancedLine b) v (shifted ?L j) =
        (\<lambda>k. (weighted_draw (?a 1 (-1)) (j ?L) k - weighted_draw (?b 1 (-1)) (j (Suc ?L)) k) +
          (weighted_draw (?a (1/2) (1/2)) (j (?L + 2)) k - weighted_draw (?b (1/2) (1/2)) (j (Suc (?L + 2))) k))"
      using Some by (auto simp: fun_eq_iff branch_draws_def Let_def weighted_draw_def single_def numeral_3_eq_3)
    then have "absorbed n v (branch_draws rd f_hz \<omega> (BalancedLine b) v (shifted ?L j)) =
        absorbed n v (\<lambda>k. weighted_draw (?a 1 (-1)) (j ?L) k - weighted_draw (?b 1 (-1)) (j (Suc ?L)) k) +
        absorbed n v (\<lambda>k. weighted_draw (?a (1/2) (1/2)) (j (?L + 2)) k - weighted_draw (?b (1/2) (1/2)) (j (Suc (?L + 2))) k)"
      by (simp only: absorbed_add)
    moreover have "watts s v j [?probe [?leg1, ?leg2]] (sum_list (map (\<lambda>(i1, i2, a, b).
        absorbed n v (\<lambda>k. weighted_draw a (j i1) k - weighted_draw b (j i2) k)) [?leg1, ?leg2]))"
      by (rule legs_watts) (use nodes rw in auto)
    ultimately show ?thesis
      by (intro readsI [of _ _ "[?probe [?leg1, ?leg2]]"]) (simp_all add: line line2 st')
  qed
qed

lemma branch_reads:
  assumes "stamp_branch rd wavelength f_hz \<omega> st (i, br, path) = Inr st'" and "nodes_below rd n"
    and "ms_elements s = st_elements st' @ others"
    and "branch_laws rd wavelength \<omega> br v (shifted (length (st_elements st)) j)"
  shows "reads s v j st st' (absorbed n v (branch_draws rd f_hz \<omega> br v (shifted (length (st_elements st)) j)))"
proof (cases br)
  case (TL t)
  then show ?thesis
    using tl_reads [of rd wavelength path i t st st' n] assms(1,2) by (simp add: stamp_branch_def)
next
  case (BalancedLine b)
  then show ?thesis
    using balanced_reads [of rd wavelength path i b st st' n] assms(1,2) by (simp add: stamp_branch_def)
next
  case (Autotransformer a b l u k q)
  let ?r = "\<lambda>l. if truthy q then \<omega> * l / the q else 0"
  let ?z = "\<lambda>l. of_real (?r l) + \<i> * of_real (\<omega> * l) :: complex"
  let ?zm = "\<i> * of_real (\<omega> * k * sqrt (l * u)) :: complex"
  let ?x = "length (st_elements st)"
  let ?p = "mk_probe path i ''Autotransformer (lower)'' [a, b] (Group2R ?x (?r l)) ''lower''"
  let ?p' = "mk_probe path i ''Autotransformer (upper)'' [a, b] (Group2R (Suc ?x) (?r u)) ''upper''"
  have z: "section_impedances \<omega> l u k q = (?z l, ?z u, ?zm)"
    by (simp add: section_impedances_def Complex_eq)
  have nodes: "node_of rd a < n" "node_of rd b < n"
    using assms(1) lookupE_below [OF _ assms(2)] Autotransformer
    by (auto simp: stamp_branch_def stamp_autotransformer_def okE lookupE_node Let_def)
  have probes: "st_probes st' = st_probes st @ [?p, ?p']"
    using assms(1) Autotransformer
    by (auto simp: stamp_branch_def stamp_autotransformer_def okE lookupE_node Let_def add_element_def)
  have law: "0 - v (node_of rd a) = ?z l * j ?x + ?zm * j (Suc ?x)"
    "v (node_of rd a) - v (node_of rd b) = ?zm * j ?x + ?z u * j (Suc ?x)"
    using assms(4) Autotransformer by (simp_all add: branch_laws_def z Let_def)
  have "watts s v j [?p, ?p'] (absorbed n v (\<lambda>m. single (node_of rd a) (j (Suc ?x) - j ?x) m - single (node_of rd b) (j (Suc ?x)) m))"
    by (rule autotransformer_watts [OF z law _ _ nodes]) simp_all
  moreover have "branch_draws rd f_hz \<omega> br v (shifted ?x j) =
      (\<lambda>m. single (node_of rd a) (j (Suc ?x) - j ?x) m - single (node_of rd b) (j (Suc ?x)) m)"
    by (simp add: fun_eq_iff branch_draws_def Autotransformer Let_def)
  ultimately show ?thesis
    using probes by (auto intro: readsI)
next
  case (Admittance ps y)
  then obtain p where st': "st' = add_probe p (add_block (map (node_of rd) ps) (of_rows y) st)"
    and p: "pr_kind p = Group1 (map (node_of rd) ps) (of_rows y)"
    and nodes: "\<forall>k \<in> set (map (node_of rd) ps). k < n"
    using assms(1) mapE_nodes [OF _ assms(2)] by (fastforce simp: stamp_branch_def okE)
  then show ?thesis
    using group1_watts [OF p nodes, of s v j]
    by (intro readsI [of _ _ "[p]"]) (simp_all add: Admittance branch_draws_def [abs_def] Let_def)
next
  case (TouchstoneLoad q d)
  then obtain p where st': "st' = add_probe p (add_node (node_of rd q) (ad_y_at d f_hz 0 0) st)"
    and p: "pr_kind p = Group1 [node_of rd q] (\<lambda>_ _. ad_y_at d f_hz 0 0)" and node: "node_of rd q < n"
    using assms(1) lookupE_below [OF _ assms(2)] by (auto simp: stamp_branch_def okE lookupE_node Let_def)
  then show ?thesis
    using node_watts [OF p node, of s v j]
    by (intro readsI [of _ _ "[p]"]) (simp_all add: TouchstoneLoad branch_draws_def [abs_def] Let_def)
next
  case (TouchstoneTwoPort a b d)
  then obtain p where st': "st' = add_probe p (add_block [node_of rd a, node_of rd b] (ad_y_at d f_hz) st)"
    and p: "pr_kind p = Group1 [node_of rd a, node_of rd b] (ad_y_at d f_hz)"
    and nodes: "\<forall>k \<in> set [node_of rd a, node_of rd b]. k < n"
    using assms(1) lookupE_below [OF _ assms(2)] by (auto simp: stamp_branch_def okE lookupE_node Let_def)
  then show ?thesis
    using group1_watts [OF p nodes, of s v j]
    by (intro readsI [of _ _ "[p]"]) (simp_all add: TouchstoneTwoPort branch_draws_def [abs_def] Let_def)
next
  case (TwoPort a b lg)
  let ?x = "length (st_elements st)"
  obtain el p where el: "series_group2 (Some (node_of rd a)) (Some (node_of rd b)) lg \<omega> 0 = Inr el"
    and st': "st' = add_element el (add_probe p st)" and p: "pr_kind p = Group2 ?x"
    and nodes: "node_of rd a < n" "node_of rd b < n"
    using assms(1) lookupE_below [OF _ assms(2)] TwoPort by (auto simp: stamp_branch_def okE lookupE_node Let_def)
  have "ms_elements s ! ?x = el"
    using assms(3) st' by (simp add: nth_append)
  from series_watts [OF el this p, of n v j] nodes show ?thesis
    by (intro readsI [of _ _ "[p]"]) (simp_all add: st' TwoPort branch_draws_def [abs_def] end_draw_def [abs_def] Let_def)
next
  case (Shunt q lg par)
  let ?x = "length (st_elements st)"
  have k: "node_of rd q < n"
    using assms(1) lookupE_below [OF _ assms(2)] Shunt by (auto simp: stamp_branch_def okE lookupE_node Let_def)
  show ?thesis
  proof (cases par)
    case True
    then obtain y p where y: "parallel_rlc_admittance lg \<omega> = Inr y"
      and st': "st' = add_probe p (add_node (node_of rd q) y st)" and p: "pr_kind p = Group1 [node_of rd q] (\<lambda>_ _. y)"
      using assms(1) Shunt by (auto simp: stamp_branch_def okE lookupE_node Let_def)
    then show ?thesis
      using node_watts [OF p k, of s v j] True
      by (intro readsI [of _ _ "[p]"]) (simp_all add: Shunt branch_draws_def [abs_def] Let_def)
  next
    case False
    then obtain el p where el: "series_group2 (Some (node_of rd q)) None lg \<omega> 0 = Inr el"
      and st': "st' = add_element el (add_probe p st)" and p: "pr_kind p = Group2 ?x"
      using assms(1) Shunt by (auto simp: stamp_branch_def okE lookupE_node Let_def)
    have "ms_elements s ! ?x = el"
      using assms(3) st' by (simp add: nth_append)
    from series_watts [OF el this p, of n v j] k False show ?thesis
      by (intro readsI [of _ _ "[p]"]) (simp_all add: st' Shunt branch_draws_def [abs_def] end_draw_def [abs_def] Let_def)
  qed
next
  case (Transformer a b n' r m)
  let ?x = "length (st_elements st)"
  let ?p = "mk_probe path i ''Transformer'' [a, b] (Group2 ?x) ''''"
  let ?el = "transformer_element (node_of rd a) (node_of rd b) (of_real n') (winding r)"
  have nodes: "node_of rd a < n" "node_of rd b < n"
    using assms(1) lookupE_below [OF _ assms(2)] Transformer by (auto simp: stamp_branch_def okE lookupE_node Let_def)
  have mag: "add_magnetizing (node_of rd a) m \<omega> (\<lambda>kind. mk_probe path i ''Transformer (mag)'' [a, b] kind ''mag'')
      (add_element ?el (add_probe ?p st)) = Inr st'"
    using assms(1) Transformer
    by (auto simp: stamp_branch_def okE lookupE_node Let_def transformer_element_def)
  note mag_reads = magnetizing_reads [OF mag nodes(1)]
  have "ms_elements s ! ?x = ?el"
    using assms(3) mag_reads(2) by (simp add: nth_append)
  from transformer_watts [OF this _ nodes, of ?p v j]
  have "reads s v j st (add_element ?el (add_probe ?p st))
      (absorbed n v (\<lambda>k. single (node_of rd a) (j ?x) k - single (node_of rd b) (of_real n' * j ?x) k))"
    by (intro readsI [of _ _ "[?p]"]) simp_all
  moreover have draws: "branch_draws rd f_hz \<omega> br v (shifted ?x j) =
      (\<lambda>k. (single (node_of rd a) (j ?x) k - single (node_of rd b) (of_real n' * j ?x) k) +
        single (node_of rd a) (magnetizing_draw m \<omega> (v (node_of rd a))) k)"
    by (auto simp: fun_eq_iff Transformer branch_draws_def Let_def single_def)
  ultimately show ?thesis
    using reads_trans [OF _ mag_reads(1)] unfolding draws absorbed_add by simp
next
  case (FloatingBalun q a b n' r m)
  let ?x = "length (st_elements st)"
  let ?p = "mk_probe path i ''FloatingBalun'' [q, a, b] (Group2 ?x) ''''"
  let ?el = "balun_element (node_of rd q) (node_of rd a) (node_of rd b) (of_real n') (winding r)"
  have nodes: "node_of rd q < n" "node_of rd a < n" "node_of rd b < n"
    using assms(1) lookupE_below [OF _ assms(2)] FloatingBalun by (auto simp: stamp_branch_def okE lookupE_node Let_def)
  have mag: "add_magnetizing (node_of rd q) m \<omega> (\<lambda>kind. mk_probe path i ''FloatingBalun (mag)'' [q, a, b] kind ''mag'')
      (add_element ?el (add_probe ?p st)) = Inr st'"
    using assms(1) FloatingBalun
    by (auto simp: stamp_branch_def okE lookupE_node Let_def balun_element_def)
  note mag_reads = magnetizing_reads [OF mag nodes(1)]
  have "ms_elements s ! ?x = ?el"
    using assms(3) mag_reads(2) by (simp add: nth_append)
  from balun_watts [OF this _ nodes, of ?p v j]
  have "reads s v j st (add_element ?el (add_probe ?p st))
      (absorbed n v (\<lambda>k. single (node_of rd a) (j ?x) k - single (node_of rd b) (j ?x) k -
         single (node_of rd q) (of_real n' * j ?x) k))"
    by (intro readsI [of _ _ "[?p]"]) simp_all
  moreover have draws: "branch_draws rd f_hz \<omega> br v (shifted ?x j) =
      (\<lambda>k. (single (node_of rd a) (j ?x) k - single (node_of rd b) (j ?x) k - single (node_of rd q) (of_real n' * j ?x) k) +
        single (node_of rd q) (magnetizing_draw m \<omega> (v (node_of rd q))) k)"
    by (auto simp: fun_eq_iff FloatingBalun branch_draws_def Let_def single_def)
  ultimately show ?thesis
    using reads_trans [OF _ mag_reads(1)] unfolding draws absorbed_add by simp
next
  case (Load q lg par z)
  then have "st_probes st' = st_probes st"
    using assms(1) by (auto simp: stamp_branch_def okE Let_def)
  then show ?thesis
    by (simp add: Load branch_draws_def [abs_def] Let_def reads_nothing)
qed

lemma stamp_branch_extends:
  assumes "stamp_branch rd wavelength f_hz \<omega> st (i, br, path) = Inr st'" and "nodes_below rd n"
  shows "\<exists>els. st_elements st' = st_elements st @ els \<and> length els = width br"
  using adds_branch [OF assms] by (auto simp: adds_def Let_def)

lemma branches_read:
  assumes "foldE (stamp_branch rd wavelength f_hz \<omega>) st (enumerate x (zip brs paths)) = Inr st'"
    and "nodes_below rd n" and "length paths = length brs"
    and "ms_elements s = st_elements st' @ others"
    and "all_laws rd wavelength \<omega> brs v (shifted (length (st_elements st)) j)"
  shows "reads s v j st st' (absorbed n v (all_draws rd f_hz \<omega> brs v (shifted (length (st_elements st)) j)))"
  using assms(1,3,5)
proof (induction brs arbitrary: st x paths)
  case Nil
  then show ?case
    by (simp add: reads_nothing)
next
  case (Cons br brs)
  let ?L = "length (st_elements st)"
  obtain path paths' where paths: "paths = path # paths'"
    using Cons.prems(2) by (cases paths) auto
  obtain st1 where first: "stamp_branch rd wavelength f_hz \<omega> st (x, br, path) = Inr st1"
    and rest: "foldE (stamp_branch rd wavelength f_hz \<omega>) st1 (enumerate (Suc x) (zip brs paths')) = Inr st'"
    using Cons.prems(1) paths by (auto simp: okE)
  have laws: "branch_laws rd wavelength \<omega> br v (shifted ?L j)"
    "all_laws rd wavelength \<omega> brs v (shifted (width br) (shifted ?L j))"
    using Cons.prems(3) unfolding all_laws.simps by blast+
  have L1: "length (st_elements st1) = ?L + width br"
    using stamp_branch_extends [OF first assms(2)] by auto
  obtain others' where "ms_elements s = st_elements st1 @ others'"
    using adds_branches [OF rest assms(2)] Cons.prems(2) paths assms(4) by (auto simp: adds_def Let_def)
  then have one: "reads s v j st st1 (absorbed n v (branch_draws rd f_hz \<omega> br v (shifted ?L j)))"
    using laws(1) by (intro branch_reads [OF first assms(2)])
  have "reads s v j st1 st' (absorbed n v (all_draws rd f_hz \<omega> brs v (shifted (?L + width br) j)))"
    using Cons.IH [OF rest] Cons.prems(2) laws(2) paths by (simp add: L1 shifted_shifted del: shifted_apply)
  moreover have draws: "all_draws rd f_hz \<omega> (br # brs) v (shifted ?L j) =
      (\<lambda>k. branch_draws rd f_hz \<omega> br v (shifted ?L j) k + all_draws rd f_hz \<omega> brs v (shifted (?L + width br) j) k)"
    by (simp add: fun_eq_iff shifted_shifted del: shifted_apply)
  ultimately show ?case
    using reads_trans [OF one] unfolding draws absorbed_add by simp
qed

section \<open>Sources and loads\<close>

definition share :: "complex \<Rightarrow> cvalue \<Rightarrow> real" where
  \<comment> \<open>of one load, of the power its chain takes at a current\<close>
  "share i z = (case z of CInf \<Rightarrow> 0 | Finite z \<Rightarrow> 1 / 2 * Re z * (cmod i)\<^sup>2)"

definition delivered :: "cvector \<Rightarrow> cvector \<Rightarrow> nat \<times> ending \<Rightarrow> real" where
  \<comment> \<open>by the source of a node\<close>
  "delivered v j t =
     (case t of (k, col, e, kind, z_chain) \<Rightarrow>
        (case kind of
           CurrentDrive \<Rightarrow> 1 / 2 * Re ((v k + z_chain * j col) * cnj (j col))
         | VoltageDrive \<Rightarrow> 1 / 2 * Re (e * cnj (j col))))"

lemma input_power_delivered: "input_power s v j = sum_list (map (delivered v j) (ms_terminations s))"
  unfolding input_power_def delivered_def [abs_def] by (rule arg_cong [of _ _ sum_list]) auto

lemma Re_times_cnj: "Re (z * i * cnj i) = Re z * (cmod i)\<^sup>2"
  unfolding cmod_power2 by (simp add: power2_eq_square algebra_simps)

lemma shares_total:
  assumes "list_all is_finite_value zs"
  shows "sum_list (map (share i) zs) = 1 / 2 * Re (total zs 0 * i * cnj i)"
  unfolding Re_times_cnj using assms
proof (induction zs)
  case (Cons z zs)
  then obtain c where z: "z = Finite c"
    by (cases z) (simp_all add: is_finite_value_def)
  have "total (z # zs) 0 = total zs 0 + c"
    using total_start [of zs c] by (simp add: z total_def)
  then show ?case
    using Cons by (simp add: z share_def; simp add: field_simps)
qed (simp add: total_def)

lemma shares_zero: "sum_list (map (share 0) zs) = 0"
  by (induction zs) (auto simp: share_def split: cvalue.split)

lemma trap_share:
  assumes "load_series_admittance lg True z \<omega> = Inr (Finite y)" and "load_impedance_of lg True z \<omega> = Inr z'"
    and "i = y * d"
  shows "share i z' = 1 / 2 * Re (d * cnj i)"
proof -
  have z': "z' = (if y = 0 then CInf else Finite (1 / y))"
    using assms(1,2)
    by (cases z) (auto simp: load_series_admittance_def load_impedance_of_def okE split: if_splits)
  show ?thesis
  proof (cases "y = 0")
    case False
    then have d: "d = 1 / y * i"
      using assms(3) by simp
    show ?thesis
      unfolding d Re_times_cnj using False by (simp add: z' share_def)
  qed (simp add: z' assms(3) share_def)
qed

lemma termination_power:
  assumes "ending_law \<omega> 0 ref_node emf forced loads k (v k) (j x)"
    and "chain_of \<omega> (loads k) = Inr zs" and "forced k \<noteq> None \<longrightarrow> list_all is_finite_value zs"
  shows "delivered v j (ending_value emf forced k zs x) - sum_list (map (share (j x)) zs) =
    1 / 2 * Re (v k * cnj (j x))"
proof (cases "forced k")
  case (Some amps)
  then show ?thesis
    using assms(3) shares_total [of zs "j x"]
    by (simp add: delivered_def ending_value_def distrib_right; simp add: field_simps)
next
  case None
  let ?e = "or_else (emf k) 0"
  have law: "source_law \<omega> 0 ?e (loads k) (v k) (j x)"
    using assms(1) None by (simp add: ending_law_def split: if_splits)
  have "sum_list (map (share (j x)) zs) = 1 / 2 * Re ((?e - v k) * cnj (j x))"
  proof (cases "lone_trap (loads k)")
    case (Some lgz)
    then obtain lg z p path n where lgz: "lgz = (lg, z)" and loads: "loads k = [(p, lg, True, z, path, n)]"
      by (auto simp: lone_trap_def split: list.splits prod.splits bool.splits)
    then obtain y z' where y: "load_series_admittance lg True z \<omega> = Inr (Finite y)" "j x = y * (?e - v k)"
      and z': "load_impedance_of lg True z \<omega> = Inr z'" "zs = [z']"
      using law Some assms(2) by (auto simp: source_law_def chain_of_def okE)
    show ?thesis
      using trap_share [OF y(1) z'(1) y(2)] z'(2) by simp
  next
    case None
    show ?thesis
    proof (cases "list_all is_finite_value zs")
      case True
      then have "?e - v k = total zs 0 * j x"
        using law assms(2) None by (simp add: source_law_def)
      then show ?thesis
        using shares_total [OF True] by simp
    next
      case False
      then show ?thesis
        using law assms(2) None shares_zero [of zs] by (simp add: source_law_def)
    qed
  qed
  then show ?thesis
    using None by (simp add: delivered_def ending_value_def left_diff_distrib; simp add: field_simps)
qed

lemma load_probes_watts:
  assumes "map_of (ms_terminations s) k = Some (x, rest)" and "length loads = length zs"
  shows "watts s v j (map (load_probe k) (zip loads zs)) (sum_list (map (share (j x)) zs))"
  using assms(2)
proof (induction loads zs rule: list_induct2)
  case (Cons ld loads z zs)
  have "pr_kind (load_probe k (ld, z)) = TerminationShare k z"
    by (simp add: load_probe_def split: prod.split)
  then have "watts s v j [load_probe k (ld, z)] (share (j x) z)"
    using assms(1) by (intro watts_one) (cases rest, auto simp: branch_power_def share_def split: cvalue.split)
  from watts_append [OF this Cons.IH] show ?case
    by simp
qed simp

lemma endings_Cons: "endings emf forced zs L (k # ks) = ending_value emf forced k (zs k) L # endings emf forced zs (Suc L) ks"
  by (simp add: endings_def)

lemma fst_ending_value [simp]: "fst (ending_value emf forced k zs x) = k"
  by (simp add: ending_value_def)

lemma map_of_endings:
  assumes "i < length ks" and "distinct ks"
  shows "\<exists>rest. map_of (endings emf forced zs L ks) (ks ! i) = Some (L + i, rest)"
  using assms
proof (induction ks arbitrary: i L)
  case (Cons k ks)
  show ?case
  proof (cases i)
    case 0
    then show ?thesis
      by (simp add: endings_Cons ending_value_def split: option.split)
  next
    case (Suc i')
    then have "ks ! i' \<noteq> k"
      using Cons.prems by (auto simp: in_set_conv_nth)
    then show ?thesis
      using Cons.IH [of i' "Suc L"] Cons.prems Suc by (simp add: endings_Cons ending_value_def)
  qed
qed simp

text \<open>The loads of all nodes, and what is left for the nodes.\<close>

lemma all_loads_watts:
  assumes "\<And>i. i < length ks \<Longrightarrow> \<exists>rest. map_of (ms_terminations s) (ks ! i) = Some (L + i, rest)"
    and "\<And>k. k \<in> set ks \<Longrightarrow> length (loads_at st k) = length (chain \<omega> st k)"
  shows "watts s v j (concat (map (load_probes \<omega> st) ks))
    (\<Sum>i<length ks. sum_list (map (share (j (L + i))) (chain \<omega> st (ks ! i))))"
  using assms
proof (induction ks arbitrary: L)
  case (Cons k ks)
  obtain rest where "map_of (ms_terminations s) k = Some (L, rest)"
    using Cons.prems(1) [of 0] by auto
  then have one: "watts s v j (load_probes \<omega> st k) (sum_list (map (share (j L)) (chain \<omega> st k)))"
    unfolding load_probes_def using Cons.prems(2) by (intro load_probes_watts) simp_all
  have "watts s v j (concat (map (load_probes \<omega> st) ks))
      (\<Sum>i<length ks. sum_list (map (share (j (Suc L + i))) (chain \<omega> st (ks ! i))))"
    using Cons.prems(1) [of "Suc i" for i] Cons.prems(2) by (intro Cons.IH) auto
  from watts_append [OF one this] show ?case
    by (simp add: sum.lessThan_Suc_shift del: sum.lessThan_Suc)
qed simp

lemma delivered_endings:
  "sum_list (map (delivered v j) (endings emf forced zs L ks)) =
     (\<Sum>i<length ks. delivered v j (ending_value emf forced (ks ! i) (zs (ks ! i)) (L + i)))"
  by (induction ks arbitrary: L) (simp_all add: endings_def sum.lessThan_Suc_shift del: sum.lessThan_Suc)

end
