(* ===== verification/Network_Balance.thy ===== *)
theory Network_Balance
  imports Network_Power
begin

text \<open>The antenna as one more load of the circuit, and the balance of its powers: what the readout
of networks/_reducer.py calls the input power, less every line of its budget, is the power into the
antenna's own matrix.\<close>

section \<open>The antenna\<close>

definition wf_gaps :: "reducer \<Rightarrow> nat \<Rightarrow> bool" where
  \<comment> \<open>the gaps of the antenna's matrix and the second terminals of the floating ones are different nodes\<close>
  "wf_gaps rd n_real \<longleftrightarrow> n_real \<le> rd_n_nodes rd \<and> distinct (map (fst \<circ> snd) (rd_floating rd)) \<and>
     (\<forall>(name, p, n) \<in> set (rd_floating rd). p < n_real \<and> n_real \<le> n \<and> n < rd_n_nodes rd)"

definition antenna_power :: "nat \<Rightarrow> cmatrix \<Rightarrow> cvector \<Rightarrow> real" where
  \<comment> \<open>into the structure, at these gap voltages\<close>
  "antenna_power n_real Y volts =
     1 / 2 * Re (\<Sum>p<n_real. volts p * cnj (\<Sum>q<n_real. Y p q * volts q))"

lemma incidence_snoc:
  "incidence n_real (fl @ [(name, p, n)]) = (incidence n_real fl)(p := (incidence n_real fl p)(n := -1))"
  by (simp add: incidence_def)

lemma incidence_untouched:
  "p \<notin> (fst \<circ> snd) ` set fl \<Longrightarrow> incidence n_real fl p = (\<lambda>k. if p = k \<and> p < n_real then 1 else 0)"
proof (induction fl rule: rev_induct)
  case (snoc f fl)
  obtain name p' n where "f = (name, p', n)"
    by (cases f)
  then show ?case
    using snoc by (simp add: incidence_snoc)
qed (simp add: incidence_def)

lemma incidence_real: "cnj (incidence n_real fl p k) = incidence n_real fl p k"
proof (induction fl arbitrary: p k rule: rev_induct)
  case (snoc f fl)
  obtain name p' n where "f = (name, p', n)"
    by (cases f)
  then show ?case
    using snoc by (simp add: incidence_snoc)
qed (simp add: incidence_def)

lemma gap_voltage:
  assumes "distinct (map (fst \<circ> snd) fl)" and "\<forall>(name, p, n) \<in> set fl. p < n_real \<and> n_real \<le> n \<and> n < N"
    and "n_real \<le> N" and "p < n_real"
  shows "(\<Sum>k<N. incidence n_real fl p k * v k) = fold (\<lambda>(_, p, n) out. out(p := v p - v n)) fl v p"
  using assms(1,2)
proof (induction fl rule: rev_induct)
  case Nil
  have "(\<Sum>k<N. (if p = k \<and> p < n_real then 1 else 0) * v k) = (\<Sum>k<N. if k = p then v p else 0)"
    by (rule sum.cong) (use assms(4) in auto)
  then show ?case
    using assms(3,4) by (simp add: incidence_def)
next
  case (snoc f fl)
  obtain name p' n where f: "f = (name, p', n)"
    by (cases f)
  have IH: "(\<Sum>k<N. incidence n_real fl p k * v k) = fold (\<lambda>(_, p, n) out. out(p := v p - v n)) fl v p"
    by (rule snoc.IH) (use snoc.prems in simp_all)
  have step: "fold (\<lambda>(_, p, n) out. out(p := v p - v n)) (fl @ [f]) v =
      (fold (\<lambda>(_, p, n) out. out(p := v p - v n)) fl v)(p' := v p' - v n)" if "f = (name, p', n)" for n
    by (simp only: that fold_append fold.simps o_apply id_apply split)
  show ?case
  proof (cases "p = p'")
    case True
    have n: "n < N" "n \<noteq> p"
      using snoc.prems(2) f True by auto
    have row: "incidence n_real fl p = (\<lambda>k. if p = k \<and> p < n_real then 1 else 0)"
      using snoc.prems(1) f True by (intro incidence_untouched) auto
    have "(\<Sum>k<N. ((incidence n_real fl p)(n := -1)) k * v k) =
        (\<Sum>k<N. (if k = p then v p else 0) - (if k = n then v n else 0))"
      by (rule sum.cong) (use n assms(4) in \<open>auto simp: row\<close>)
    then have "(\<Sum>k<N. ((incidence n_real fl p)(n := -1)) k * v k) = v p - v n"
      using n assms(3,4) by (simp add: sum_subtractf)
    then show ?thesis
      using True by (simp only: step [OF f]) (simp add: f incidence_snoc)
  next
    case False
    then have "incidence n_real (fl @ [f]) p = incidence n_real fl p"
      by (simp add: f incidence_snoc)
    then show ?thesis
      by (simp only: step [OF f] fun_upd_other [OF False] IH)
  qed
qed

lemma congruence_form:
  fixes n r :: nat
  assumes "\<And>p k. cnj (A p k) = A p k"
  shows "(\<Sum>k<n. v k * cnj (\<Sum>m<n. (\<Sum>p<r. \<Sum>q<r. A p k * Y p q * A q m) * v m)) =
    (\<Sum>p<r. (\<Sum>k<n. A p k * v k) * cnj (\<Sum>q<r. Y p q * (\<Sum>m<n. A q m * v m)))"
proof -
  let ?V = "\<lambda>p. \<Sum>k<n. A p k * v k" and ?I = "\<lambda>p. \<Sum>q<r. Y p q * (\<Sum>m<n. A q m * v m)"
  have inner: "(\<Sum>m<n. (\<Sum>p<r. \<Sum>q<r. A p k * Y p q * A q m) * v m) = (\<Sum>p<r. A p k * ?I p)" for k
  proof -
    have "(\<Sum>m<n. (\<Sum>p<r. \<Sum>q<r. A p k * Y p q * A q m) * v m) =
        (\<Sum>m<n. \<Sum>p<r. A p k * (\<Sum>q<r. Y p q * (A q m * v m)))"
      by (simp add: sum_distrib_left sum_distrib_right algebra_simps)
    also have "\<dots> = (\<Sum>p<r. A p k * (\<Sum>m<n. \<Sum>q<r. Y p q * (A q m * v m)))"
      by (subst sum.swap) (simp add: sum_distrib_left)
    also have "\<dots> = (\<Sum>p<r. A p k * ?I p)"
      by (subst sum.swap) (simp add: sum_distrib_left)
    finally show ?thesis .
  qed
  have "(\<Sum>k<n. v k * cnj (\<Sum>p<r. A p k * ?I p)) = (\<Sum>k<n. \<Sum>p<r. (A p k * v k) * cnj (?I p))"
    by (simp add: assms sum_distrib_left algebra_simps)
  also have "\<dots> = (\<Sum>p<r. ?V p * cnj (?I p))"
    by (subst sum.swap) (simp add: sum_distrib_right)
  finally show ?thesis
    by (simp add: inner)
qed

lemma antenna_absorbed:
  assumes "wf_gaps rd n_real"
  shows "absorbed (rd_n_nodes rd) v (node_flow (rd_n_nodes rd) (antenna_block rd n_real Y) v) =
    antenna_power n_real Y (physical_port_voltages rd v)"
proof -
  let ?n = "rd_n_nodes rd" and ?A = "incidence n_real (rd_floating rd)"
  have block: "antenna_block rd n_real Y i k = (\<Sum>p<n_real. \<Sum>q<n_real. ?A p i * Y p q * ?A q k)" for i k
  proof (cases "rd_floating rd = []")
    case True
    have "(\<Sum>q<n_real. (if p = i then 1 else 0) * Y p q * (if q = k then 1 else 0)) =
        (\<Sum>q<n_real. if q = k then (if p = i then Y p k else 0) else 0)" for p
      by (rule sum.cong) auto
    then have "(\<Sum>p<n_real. \<Sum>q<n_real. ?A p i * Y p q * ?A q k) =
        (\<Sum>p<n_real. if p = i then (if k < n_real then Y i k else 0) else 0)"
      using True by (intro sum.cong) (auto simp: incidence_def)
    then show ?thesis
      using True by (simp add: antenna_block_def)
  qed (simp add: antenna_block_def Let_def)
  have V: "(\<Sum>k<?n. ?A p k * v k) = physical_port_voltages rd v p" if "p < n_real" for p
    unfolding physical_port_voltages_def
    by (rule gap_voltage) (use assms that in \<open>auto simp: wf_gaps_def\<close>)
  have "(\<Sum>k<?n. v k * cnj (node_flow ?n (antenna_block rd n_real Y) v k)) =
      (\<Sum>p<n_real. (\<Sum>k<?n. ?A p k * v k) * cnj (\<Sum>q<n_real. Y p q * (\<Sum>m<?n. ?A q m * v m)))"
    unfolding node_flow_def block by (rule congruence_form) (rule incidence_real)
  then show ?thesis
    by (simp add: absorbed_def antenna_power_def V)
qed

section \<open>The balance\<close>

lemma power_is_balanced:
  assumes "apply_branches rd n_real Y wavelength 0 = Inr s" and "wf_reducer rd" and "wf_gaps rd n_real"
    and "solves s v j" and apart: "list_all (apart rd) (nw_branches (rd_network rd))"
  shows "\<exists>ex. power_readout rd s v j = Inr ex \<and> ex_voltages ex = physical_port_voltages rd v \<and>
    ex_p_in ex = input_power s v j \<and>
    ex_p_in ex - sum_list (map (fst \<circ> snd) (ex_budget ex)) = antenna_power n_real Y (ex_voltages ex)"
proof -
  let ?n = "rd_n_nodes rd" and ?brs = "nw_branches (rd_network rd)" and ?ks = "end_nodes rd"
  let ?w = "total_width ?brs" and ?V = "physical_port_voltages rd v"
  let ?emf = "emfs (rd_driven rd)" and ?forced = "forced_currents (rd_driven rd)"
  obtain f_hz where f: "frequency_of rd wavelength = Inr f_hz"
    using assms(1) by (auto simp: apply_branches_def stamp_branches_def okE)
  let ?\<omega> = "2 * pi * f_hz"
  let ?st0 = "\<lparr>st_G = antenna_block rd n_real Y, st_elements = [], st_couplings = [], st_loads = [], st_probes = []\<rparr>"
  obtain st cl where st: "foldE (stamp_branch rd wavelength f_hz ?\<omega>) ?st0 (numbered_branches rd) = Inr st"
    and cl: "close_nodes ?\<omega> 0 (the_reference rd 0) ?emf ?forced
       \<lparr>cl_stamp = st, cl_terminations = [], cl_z_ref_at = Map.empty\<rparr> ?ks = Inr cl"
    and s: "s = mk_mna ?n (st_G (cl_stamp cl)) (st_elements (cl_stamp cl)) (cl_terminations cl)
       (st_probes (cl_stamp cl)) (st_couplings (cl_stamp cl)) 0 (cl_z_ref_at cl)"
    and loads: "loads_at st = loads_on rd"
    by (rule apply_branches_parts [OF assms(1) f]) (rule that)
  have wf: "nodes_below rd ?n" "length (nw_branch_paths (rd_network rd)) = length ?brs"
    using assms(2) by (auto simp: wf_reducer_def)
  have ks: "\<forall>k \<in> set ?ks. k < ?n" "distinct ?ks"
    using end_nodes_in_range [OF assms(2) st] by (simp_all add: end_nodes_def)
  have branches: "adds ?n ?st0 ?w (all_laws rd wavelength ?\<omega> (map (as_stamped rd) ?brs))
      (all_draws rd f_hz ?\<omega> (map (as_stamped rd) ?brs)) st"
    using adds_branches [OF st [unfolded numbered_branches_def] wf] .
  then have w: "length (st_elements st) = ?w"
    by (auto simp: adds_def Let_def)
  obtain later where els: "ms_elements s = st_elements st @ later"
    using close_nodes_adds [OF cl ks(1)] by (auto simp: s mk_mna_def adds_def Let_def)
  note records = close_nodes_records [OF cl ks(1), simplified]
  have circuit: "circuit rd n_real Y wavelength 0 f_hz v j"
    using solves_circuit [OF assms(1,2) f] assms(4) circuit_assembled [OF apart] by blast
  then have laws: "all_laws rd wavelength ?\<omega> ?brs v j"
    and ends: "\<And>i. i < length ?ks \<Longrightarrow> termination_law rd ?\<omega> 0 (?ks ! i) (v (?ks ! i)) (j (?w + i))"
    and kcl: "\<And>k. k < ?n \<Longrightarrow> node_flow ?n (antenna_block rd n_real Y) v k + all_draws rd f_hz ?\<omega> ?brs v j k =
      (\<Sum>i<length ?ks. single (?ks ! i) (j (?w + i)) k)"
    by (auto simp: circuit_def Let_def)
  let ?zs = "\<lambda>i. chain ?\<omega> st (?ks ! i)"
  have "reads s v j ?st0 st (absorbed ?n v (all_draws rd f_hz ?\<omega> ?brs v j))"
    using branches_read [OF st [unfolded numbered_branches_def] wf els] laws by simp
  then have one: "watts s v j (st_probes st) (absorbed ?n v (all_draws rd f_hz ?\<omega> ?brs v j))"
    by (auto simp: reads_def)
  have terms: "ms_terminations s = endings ?emf ?forced (chain ?\<omega> st) ?w ?ks"
    using records by (simp add: s mk_mna_def w)
  have chains: "chain_of ?\<omega> (loads_at st k) = Inr (chain ?\<omega> st k)"
    "?forced k \<noteq> None \<longrightarrow> list_all is_finite_value (chain ?\<omega> st k)" if "k \<in> set ?ks" for k
    using records that by auto
  have two: "watts s v j (concat (map (load_probes ?\<omega> st) ?ks))
      (\<Sum>i<length ?ks. sum_list (map (share (j (?w + i))) (?zs i)))"
  proof (rule all_loads_watts)
    show "\<exists>rest. map_of (ms_terminations s) (?ks ! i) = Some (?w + i, rest)" if "i < length ?ks" for i
      unfolding terms by (rule map_of_endings [OF that ks(2)])
    show "length (loads_at st k) = length (chain ?\<omega> st k)" if "k \<in> set ?ks" for k
      using chains(1) [OF that] by (simp add: chain_of_def mapE_length)
  qed
  have "ms_probes s = st_probes st @ concat (map (load_probes ?\<omega> st) ?ks)"
    using records by (simp add: s mk_mna_def)
  then obtain ws where ws: "mapE (\<lambda>p. branch_power s v j (pr_kind p)) (ms_probes s) = Inr ws"
    and total: "sum_list ws = absorbed ?n v (all_draws rd f_hz ?\<omega> ?brs v j) +
      (\<Sum>i<length ?ks. sum_list (map (share (j (?w + i))) (?zs i)))"
    using watts_append [OF one two] by (auto simp: watts_def)
  have "delivered v j (ending_value ?emf ?forced (?ks ! i) (?zs i) (?w + i)) - sum_list (map (share (j (?w + i))) (?zs i)) =
      1 / 2 * Re (v (?ks ! i) * cnj (j (?w + i)))" if "i < length ?ks" for i
    using ends [OF that] chains [of "?ks ! i"] that
    by (intro termination_power) (auto simp: termination_law_def loads)
  then have "input_power s v j - (\<Sum>i<length ?ks. sum_list (map (share (j (?w + i))) (?zs i))) =
      (\<Sum>i<length ?ks. 1 / 2 * Re (v (?ks ! i) * cnj (j (?w + i))))"
    unfolding input_power_delivered terms delivered_endings sum_subtractf [symmetric] by (intro sum.cong) auto
  also have "\<dots> = absorbed ?n v (\<lambda>k. \<Sum>i<length ?ks. single (?ks ! i) (j (?w + i)) k)"
    unfolding absorbed_sum using ks(1) by (intro sum.cong) (auto simp: absorbed_single)
  also have "\<dots> = absorbed ?n v (\<lambda>k. node_flow ?n (antenna_block rd n_real Y) v k + all_draws rd f_hz ?\<omega> ?brs v j k)"
    by (rule absorbed_cong) (simp add: kcl)
  also have "\<dots> = antenna_power n_real Y ?V + absorbed ?n v (all_draws rd f_hz ?\<omega> ?brs v j)"
    by (simp add: absorbed_add antenna_absorbed [OF assms(3)])
  finally have balance: "input_power s v j - sum_list ws = antenna_power n_real Y ?V"
    by (simp add: total)
  have "list_all2 (\<lambda>p b. bindE (branch_power s v j (pr_kind p)) (\<lambda>w. Inr (pr_label p, w, pr_key p)) = Inr b)
      (ms_probes s) (map2 (\<lambda>p w. (pr_label p, w, pr_key p)) (ms_probes s) ws)"
    using ws [unfolded mapE_eq_Inr] by (auto simp: list_all2_conv_all_nth)
  then have "mapE (\<lambda>p. bindE (branch_power s v j (pr_kind p)) (\<lambda>w. Inr (pr_label p, w, pr_key p))) (ms_probes s) =
      Inr (map2 (\<lambda>p w. (pr_label p, w, pr_key p)) (ms_probes s) ws)"
    unfolding mapE_eq_Inr .
  moreover have "map (fst \<circ> snd) (map2 (\<lambda>p w. (pr_label p, w, pr_key p)) (ms_probes s) ws) = ws"
    using mapE_length [OF ws] by (intro nth_equalityI) simp_all
  ultimately show ?thesis
    using balance by (simp add: power_readout_def Let_def)
qed

end
