(* ===== verification/Network_Linear.thy ===== *)
theory Network_Linear
  imports Network_Balance
begin

text \<open>
  Superposition: the laws of the branches are linear, so a circuit with one active source is a
  linear family over that source's EMF.  What is read at the source then does not depend on the
  impedance the system was assembled with.
\<close>

section \<open>Superposition\<close>

definition comb :: "complex \<Rightarrow> complex \<Rightarrow> cvector \<Rightarrow> cvector \<Rightarrow> cvector" where
  "comb a b x y = (\<lambda>i. a * x i + b * y i)"

lemma comb_apply [simp]: "comb a b x y i = a * x i + b * y i"
  by (simp add: comb_def)

lemma shifted_comb: "shifted m (comb a b x y) = comb a b (shifted m x) (shifted m y)"
  by (simp add: shifted_def comb_def)

lemma single_comb: "single i (a * s + b * t) k = a * single i s k + b * single i t k"
  by (simp add: single_def)

lemma single_times_left: "single i (a * s) k = a * single i s k"
  by (simp add: single_def)

lemma node_flow_comb: "node_flow n G (comb a b x y) k = a * node_flow n G x k + b * node_flow n G y k"
  by (simp add: node_flow_def sum_distrib_left sum.distrib algebra_simps)

lemma block_draw_comb:
  "block_draw nodes Y (comb a b x y) k = a * block_draw nodes Y x k + b * block_draw nodes Y y k"
proof -
  have "(\<Sum>l<length nodes. Y i l * comb a b x y (nodes ! l)) =
      a * (\<Sum>l<length nodes. Y i l * x (nodes ! l)) + b * (\<Sum>l<length nodes. Y i l * y (nodes ! l))" for i
    by (simp add: sum_distrib_left sum.distrib algebra_simps)
  then show ?thesis
    unfolding block_draw_def by (simp only: single_comb sum.distrib flip: sum_distrib_left)
qed

lemma line_law_comb:
  "line_law m va vb i1 i2 \<Longrightarrow> line_law m va' vb' i1' i2' \<Longrightarrow>
   line_law m (a * va + b * va') (a * vb + b * vb') (a * i1 + b * i1') (a * i2 + b * i2')"
  by (cases m) (simp add: line_law_def algebra_simps)

lemma series_law_comb:
  "series_law lg \<omega> s i \<Longrightarrow> series_law lg \<omega> t j \<Longrightarrow> series_law lg \<omega> (a * s + b * t) (a * i + b * j)"
  by (auto simp: series_law_def algebra_simps split: if_splits)

lemma magnetizing_draw_comb:
  "magnetizing_draw m \<omega> (a * s + b * t) = a * magnetizing_draw m \<omega> s + b * magnetizing_draw m \<omega> t"
  by (simp add: magnetizing_draw_def add_divide_distrib split: sum.split option.split)

lemma tl_laws_comb:
  assumes "branch_laws rd wavelength \<omega> (TL t) x u" and "branch_laws rd wavelength \<omega> (TL t) y w"
  shows "branch_laws rd wavelength \<omega> (TL t) (comb a b x y) (comb a b u w)"
proof -
  obtain m where m: "tl_abcd (tl_z0 t) (tl_length t) wavelength (tl_vf t) (tl_k1 t) (tl_k2 t) (rd_c_light rd) = Inr m"
    and 1: "line_law m (x (node_of rd (tl_a t))) ((if tl_transposed t then -1 else 1) * x (node_of rd (tl_b t))) (u 0) (u 1)"
    and 2: "line_law m (y (node_of rd (tl_a t))) ((if tl_transposed t then -1 else 1) * y (node_of rd (tl_b t))) (w 0) (w 1)"
    using assms by (auto simp: branch_laws_def Let_def)
  show ?thesis
    using m line_law_comb [OF 1 2, of a b] by (simp add: branch_laws_def Let_def algebra_simps)
qed

lemma balanced_laws_comb:
  assumes "branch_laws rd wavelength \<omega> (BalancedLine l) x u" and "branch_laws rd wavelength \<omega> (BalancedLine l) y w"
  shows "branch_laws rd wavelength \<omega> (BalancedLine l) (comb a b x y) (comb a b u w)"
proof -
  let ?X = "\<lambda>p. x (node_of rd p)" and ?Y = "\<lambda>p. y (node_of rd p)"
  obtain m where m: "tl_abcd (bl_zdiff l) (bl_length l) wavelength (bl_vf l) (bl_k1 l) (bl_k2 l) (rd_c_light rd) = Inr m"
    and 1: "line_law m (?X (bl_a1 l) - ?X (bl_a2 l)) (?X (bl_b1 l) - ?X (bl_b2 l)) (u 0) (u 1)"
    and 2: "line_law m (?Y (bl_a1 l) - ?Y (bl_a2 l)) (?Y (bl_b1 l) - ?Y (bl_b2 l)) (w 0) (w 1)"
    using assms by (auto simp: branch_laws_def Let_def)
  show ?thesis
  proof (cases "bl_zcomm l")
    case None
    then show ?thesis
      using m line_law_comb [OF 1 2, of a b] by (simp add: branch_laws_def Let_def algebra_simps)
  next
    case (Some zc)
    obtain mc where mc: "tl_abcd zc (bl_length l) wavelength (bl_vf l) (bl_k1 l) (bl_k2 l) (rd_c_light rd) = Inr mc"
      and 3: "line_law mc ((?X (bl_a1 l) + ?X (bl_a2 l)) / 2) ((?X (bl_b1 l) + ?X (bl_b2 l)) / 2) (u 2) (u 3)"
      and 4: "line_law mc ((?Y (bl_a1 l) + ?Y (bl_a2 l)) / 2) ((?Y (bl_b1 l) + ?Y (bl_b2 l)) / 2) (w 2) (w 3)"
      using assms Some by (auto simp: branch_laws_def Let_def)
    show ?thesis
      using m mc Some line_law_comb [OF 1 2, of a b] line_law_comb [OF 3 4, of a b]
      by (simp add: branch_laws_def Let_def algebra_simps add_divide_distrib)
  qed
qed

lemma two_terms:
  "s = p * i + q * j \<Longrightarrow> t = p * i' + q * j' \<Longrightarrow>
   a * s + b * t = p * (a * i + b * i') + q * (a * j + b * j')" for s :: complex
  by (simp add: algebra_simps)

lemma branch_laws_comb:
  assumes "branch_laws rd wavelength \<omega> br x u" and "branch_laws rd wavelength \<omega> br y w"
  shows "branch_laws rd wavelength \<omega> br (comb a b x y) (comb a b u w)"
proof (cases br)
  case (TL t)
  then show ?thesis
    using tl_laws_comb assms by blast
next
  case (BalancedLine l)
  then show ?thesis
    using balanced_laws_comb assms by blast
next
  case (TwoPort p q lg)
  then show ?thesis
    using assms series_law_comb [of lg \<omega> "x (node_of rd p) - x (node_of rd q)" "u 0" "y (node_of rd p) - y (node_of rd q)" "w 0" a b]
    by (simp add: branch_laws_def Let_def algebra_simps)
next
  case (Shunt p lg par)
  then show ?thesis
    using assms series_law_comb [of lg \<omega> "x (node_of rd p)" "u 0" "y (node_of rd p)" "w 0" a b]
    by (auto simp: branch_laws_def Let_def)
next
  case (Autotransformer p q l up k ql)
  obtain z1 z2 zm where z: "section_impedances \<omega> l up k ql = (z1, z2, zm)"
    by (cases "section_impedances \<omega> l up k ql")
  have 1: "- x (node_of rd p) = z1 * u 0 + zm * u 1" "- y (node_of rd p) = z1 * w 0 + zm * w 1"
    and 2: "x (node_of rd p) - x (node_of rd q) = zm * u 0 + z2 * u 1"
      "y (node_of rd p) - y (node_of rd q) = zm * w 0 + z2 * w 1"
    using assms by (simp_all add: Autotransformer branch_laws_def Let_def z)
  have "- comb a b x y (node_of rd p) = z1 * comb a b u w 0 + zm * comb a b u w 1"
    using two_terms [OF 1, of a b] by (simp add: algebra_simps)
  moreover have "comb a b x y (node_of rd p) - comb a b x y (node_of rd q) = zm * comb a b u w 0 + z2 * comb a b u w 1"
    using two_terms [OF 2, of a b] by (simp add: algebra_simps)
  ultimately show ?thesis
    by (simp add: Autotransformer branch_laws_def Let_def z del: comb_apply)
qed (use assms in \<open>auto simp: branch_laws_def Let_def algebra_simps\<close>)

lemma branch_draws_comb:
  "branch_draws rd f_hz \<omega> br (comb a b x y) (comb a b u w) k =
     a * branch_draws rd f_hz \<omega> br x u k + b * branch_draws rd f_hz \<omega> br y w k"
  by (cases br)
    (simp_all add: branch_draws_def Let_def block_draw_comb magnetizing_draw_comb single_def algebra_simps
       add_divide_distrib split: sum.split)

lemma all_laws_comb:
  "all_laws rd wavelength \<omega> brs x u \<Longrightarrow> all_laws rd wavelength \<omega> brs y w \<Longrightarrow>
   all_laws rd wavelength \<omega> brs (comb a b x y) (comb a b u w)"
  by (induction brs arbitrary: u w) (simp_all add: branch_laws_comb shifted_comb)

lemma all_draws_comb:
  "all_draws rd f_hz \<omega> brs (comb a b x y) (comb a b u w) k =
     a * all_draws rd f_hz \<omega> brs x u k + b * all_draws rd f_hz \<omega> brs y w k"
  by (induction brs arbitrary: u w) (simp_all add: branch_draws_comb shifted_comb algebra_simps)

lemma source_law_comb:
  assumes "source_law \<omega> 0 e loads s i" and "source_law \<omega> 0 e' loads t j"
  shows "source_law \<omega> 0 (a * e + b * e') loads (a * s + b * t) (a * i + b * j)"
proof (cases "lone_trap loads")
  case (Some trap)
  obtain lg z where trap: "trap = (lg, z)"
    by (cases trap)
  obtain y where y: "load_series_admittance lg True z \<omega> = Inr (Finite y)" and ij: "i = y * (e - s)" "j = y * (e' - t)"
    using assms Some trap by (auto simp: source_law_def)
  show ?thesis
    using Some trap y by (simp add: source_law_def ij algebra_simps)
next
  case None
  obtain zs where zs: "chain_of \<omega> loads = Inr zs"
    using assms(1) None by (auto simp: source_law_def)
  show ?thesis
  proof (cases "list_all is_finite_value zs")
    case True
    have e: "e = s + total zs 0 * i" "e' = t + total zs 0 * j"
      using assms None zs True by (simp_all add: source_law_def) (simp_all add: algebra_simps)
    show ?thesis
      using None zs True by (simp add: source_law_def e algebra_simps)
  qed (use assms None zs in \<open>simp add: source_law_def\<close>)
qed

section \<open>A circuit seen from one source\<close>

definition seen_from :: "reducer \<Rightarrow> nat \<Rightarrow> cmatrix \<Rightarrow> real \<Rightarrow> real \<Rightarrow> nat \<Rightarrow> complex \<Rightarrow> cvector \<Rightarrow> bool" where
  \<comment> \<open>the circuit with the EMF \<open>e\<close> at node \<open>k\<close>, no reference and no other source; voltages and currents in one vector\<close>
  "seen_from rd n_real Y wavelength f_hz k e x \<longleftrightarrow>
     (let n = rd_n_nodes rd; \<omega> = 2 * pi * f_hz; brs = nw_branches (rd_network rd); w = total_width brs;
          ks = end_nodes rd; j = shifted n x
      in all_laws rd wavelength \<omega> brs x j \<and>
         (\<forall>i < length ks. ending_law \<omega> 0 None [k \<mapsto> e] (map_option (\<lambda>_. 0) \<circ> forced_currents (rd_driven rd))
            (loads_on rd) (ks ! i) (x (ks ! i)) (j (w + i))) \<and>
         (\<forall>m < n. node_flow n (antenna_block rd n_real Y) x m + all_draws rd f_hz \<omega> brs x j m =
            (\<Sum>i<length ks. single (ks ! i) (j (w + i)) m)))"

lemma ending_law_comb:
  assumes "ending_law \<omega> 0 None [k \<mapsto> e] (map_option (\<lambda>_. 0) \<circ> forced) loads m s i"
    and "ending_law \<omega> 0 None [k \<mapsto> e'] (map_option (\<lambda>_. 0) \<circ> forced) loads m t j"
  shows "ending_law \<omega> 0 None [k \<mapsto> a * e + b * e'] (map_option (\<lambda>_. 0) \<circ> forced) loads m
    (a * s + b * t) (a * i + b * j)"
proof -
  have emf: "or_else ([k \<mapsto> a * e + b * e'] m) 0 = a * or_else ([k \<mapsto> e] m) 0 + b * or_else ([k \<mapsto> e'] m) 0"
    by (simp add: or_else_def)
  show ?thesis
    using assms source_law_comb [of \<omega> "or_else ([k \<mapsto> e] m) 0" "loads m" s i "or_else ([k \<mapsto> e'] m) 0" t j a b]
    unfolding ending_law_def emf by (auto split: option.splits)
qed

lemma seen_from_comb:
  assumes "seen_from rd n_real Y wavelength f_hz k e x" and "seen_from rd n_real Y wavelength f_hz k e' y"
  shows "seen_from rd n_real Y wavelength f_hz k (a * e + b * e') (comb a b x y)"
proof -
  let ?n = "rd_n_nodes rd" and ?\<omega> = "2 * pi * f_hz" and ?brs = "nw_branches (rd_network rd)"
  let ?w = "total_width ?brs" and ?ks = "end_nodes rd" and ?G = "antenna_block rd n_real Y"
  let ?feed = "\<lambda>x m. \<Sum>i<length ?ks. single (?ks ! i) (shifted ?n x (?w + i)) m"
  let ?flow = "\<lambda>x m. node_flow ?n ?G x m + all_draws rd f_hz ?\<omega> ?brs x (shifted ?n x) m"
  have feed: "?feed (comb a b x y) m = a * ?feed x m + b * ?feed y m" for m
    by (simp only: shifted_comb comb_apply single_comb sum.distrib flip: sum_distrib_left)
  have flow: "?flow (comb a b x y) m = a * ?flow x m + b * ?flow y m" for m
    by (simp add: node_flow_comb shifted_comb all_draws_comb algebra_simps)
  have 1: "all_laws rd wavelength ?\<omega> ?brs (comb a b x y) (shifted ?n (comb a b x y))"
    unfolding shifted_comb by (rule all_laws_comb) (use assms in \<open>simp_all add: seen_from_def Let_def\<close>)
  have 2: "ending_law ?\<omega> 0 None [k \<mapsto> a * e + b * e'] (map_option (\<lambda>_. 0) \<circ> forced_currents (rd_driven rd))
      (loads_on rd) (?ks ! i) (comb a b x y (?ks ! i)) (shifted ?n (comb a b x y) (?w + i))" if "i < length ?ks" for i
    unfolding shifted_comb comb_apply
    by (rule ending_law_comb) (use assms that in \<open>simp_all add: seen_from_def Let_def\<close>)
  have 3: "?flow (comb a b x y) m = ?feed (comb a b x y) m" if "m < ?n" for m
  proof -
    have "?flow x m = ?feed x m" "?flow y m = ?feed y m"
      using assms that unfolding seen_from_def Let_def by blast+
    then show ?thesis
      by (simp only: flow feed)
  qed
  show ?thesis
    unfolding seen_from_def Let_def using 1 2 3 by blast
qed

end
