(* ===== verification/Network_Reference.thy ===== *)
theory Network_Reference
  imports Network_Linear
begin

text \<open>
  The reference impedance.  A port's wave form is assembled with a reference in series with its
  source; that the impedance read there is the same for every reference is proved once for any
  linear family of solutions, and the circuit of a network is one.
\<close>

section \<open>One source\<close>

locale one_source =
  fixes sol :: "complex \<Rightarrow> cvector \<Rightarrow> bool" \<comment> \<open>what solves the circuit at an EMF\<close>
  assumes superposed: "sol e x \<Longrightarrow> sol e' y \<Longrightarrow> sol (a * e + b * e') (comb a b x y)"
begin

lemma proportional:
  assumes one: "sol (e - z * x m) x" and unique: "\<And>y. sol (e - z * y m) y \<Longrightarrow> \<forall>i < N. y i = x i"
    and other: "sol (e - z' * y m) y" and "e \<noteq> 0" and "m < (N :: nat)"
  shows "\<exists>c. c \<noteq> 0 \<and> (\<forall>i < N. y i = c * x i) \<and> e - z' * y m = c * (e - z * x m)"
proof -
  define c where "c = (e - z' * y m + z * y m) / e"
  have c: "c * e = e - z' * y m + z * y m"
    using assms(4) by (simp add: c_def)
  let ?y = "comb (1 - c) 1 x y"
  have e: "e - z * ?y m = (1 - c) * (e - z * x m) + 1 * (e - z' * y m)"
    using c by (simp add: algebra_simps)
  have "sol (e - z * ?y m) ?y"
    unfolding e by (rule superposed [OF one other])
  then have y: "y i = c * x i" if "i < N" for i
    using unique [of ?y] that by (simp add: algebra_simps)
  moreover have "c \<noteq> 0"
  proof
    assume "c = 0"
    then have "y m = 0"
      using y [OF assms(5)] by simp
    then show False
      using c assms(4) \<open>c = 0\<close> by simp
  qed
  moreover have "e - z' * y m = c * (e - z * x m)"
    using c y [OF assms(5)] by (simp add: algebra_simps)
  ultimately show ?thesis
    by blast
qed

lemma silent:
  assumes one: "sol (0 - z * x m) x" and unique: "\<And>y. sol (0 - z * y m) y \<Longrightarrow> \<forall>i < N. y i = x i"
  shows "\<forall>i < (N :: nat). x i = 0"
  using superposed [OF one one, of 0 0] unique [of "comb 0 0 x x"] by simp

end

interpretation driven_circuit: one_source "seen_from rd n_real Y wavelength f_hz k"
  for rd n_real Y wavelength f_hz k
  by unfold_locales (rule seen_from_comb)

section \<open>The only source\<close>

lemma quiet_sources:
  assumes "\<forall>(m, kind, v) \<in> set driven. (m = k \<and> kind = VoltageDrive) \<or> v = 0"
  shows "m \<noteq> k \<Longrightarrow> or_else (emfs driven m) 0 = 0" and "forced_currents driven m \<in> {None, Some 0}"
proof -
  have "(m \<noteq> k \<longrightarrow> or_else (emfs driven m) 0 = 0) \<and> forced_currents driven m \<in> {None, Some 0}"
    using assms
  proof (induction driven rule: rev_induct)
    case (snoc d ds)
    obtain m' kind v where "d = (m', kind, v)"
      by (cases d)
    then show ?case
      using snoc by (cases kind) (auto simp: emfs_def forced_currents_def or_else_def)
  qed (simp add: emfs_def forced_currents_def or_else_def)
  then show "m \<noteq> k \<Longrightarrow> or_else (emfs driven m) 0 = 0" "forced_currents driven m \<in> {None, Some 0}"
    by auto
qed

lemma reference_node_only:
  assumes "reference_node rd = Some k"
  shows "\<forall>(m, kind, v) \<in> set (rd_driven rd). (m = k \<and> kind = VoltageDrive) \<or> v = 0"
    and "k \<in> fst ` set (rd_driven rd)" and "emfs (rd_driven rd) k \<noteq> None"
proof -
  obtain V where V: "filter (\<lambda>(_, _, v). v \<noteq> 0) (rd_driven rd) = [(k, VoltageDrive, V)]"
    using assms by (auto simp: reference_node_def split: list.splits drive.splits)
  have "d \<in> set (filter (\<lambda>(_, _, v). v \<noteq> 0) (rd_driven rd)) \<longleftrightarrow> d \<in> {(k, VoltageDrive, V)}" for d
    unfolding V by simp
  then have d: "(m, kind, v) \<in> set (rd_driven rd) \<and> v \<noteq> 0 \<longleftrightarrow> (m, kind, v) = (k, VoltageDrive, V)" for m kind v
    by auto
  show "\<forall>(m, kind, v) \<in> set (rd_driven rd). (m = k \<and> kind = VoltageDrive) \<or> v = 0"
    using d by auto
  have k: "(k, VoltageDrive, V) \<in> set (rd_driven rd)"
    using d [of k VoltageDrive V] by simp
  then show "k \<in> fst ` set (rd_driven rd)"
    by force
  have "(k, VoltageDrive, V) \<in> set driven \<Longrightarrow> emfs driven k \<noteq> None" for driven
    by (induction driven rule: rev_induct) (auto simp: emfs_def)
  then show "emfs (rd_driven rd) k \<noteq> None"
    using k by blast
qed

lemma no_clash:
  assumes "apply_branches rd n_real Y wavelength z_ref = Inr s" and "k \<in> fst ` set (rd_driven rd)"
  shows "emfs (rd_driven rd) k = None \<or> forced_currents (rd_driven rd) k = None"
proof -
  obtain \<omega> st cl where "terminate rd \<omega> z_ref st = Inr cl"
    using assms(1) by (auto simp: apply_branches_def okE)
  then have "{k \<in> fst ` set (rd_driven rd). emfs (rd_driven rd) k \<noteq> None \<and> forced_currents (rd_driven rd) k \<noteq> None} = {}"
    by (auto simp: terminate_def okE Let_def)
  then show ?thesis
    using assms(2) by blast
qed

lemma end_nodes_set: "set (end_nodes rd) = fst ` set (rd_driven rd) \<union> {k. loads_on rd k \<noteq> []}" "distinct (end_nodes rd)"
  by (simp_all add: end_nodes_below(2)) (simp add: end_nodes_def)

lemma source_drop: "source_law \<omega> 0 (e - zr * i) loads vk i \<longleftrightarrow> source_law \<omega> zr e loads vk i"
  by (simp only: source_law_def mult_zero_left diff_zero)

lemma or_else_Some: "or_else (Some a) d = a"
  by (simp add: or_else_def)

text \<open>With one active source, the circuit at any reference is that source with the drop over the reference taken off.\<close>

lemma circuit_seen:
  assumes k: "reference_node rd = Some (end_nodes rd ! r)" and r: "r < length (end_nodes rd)"
    and free: "forced_currents (rd_driven rd) (end_nodes rd ! r) = None"
  shows "circuit rd n_real Y wavelength z_ref f_hz x (shifted (rd_n_nodes rd) x) \<longleftrightarrow>
    seen_from rd n_real Y wavelength f_hz (end_nodes rd ! r)
      (or_else (emfs (rd_driven rd) (end_nodes rd ! r)) 0 -
       z_ref * x (rd_n_nodes rd + (total_width (nw_branches (rd_network rd)) + r))) x"
proof -
  let ?ks = "end_nodes rd" and ?emf = "emfs (rd_driven rd)" and ?forced = "forced_currents (rd_driven rd)"
  let ?\<omega> = "2 * pi * f_hz" and ?w = "total_width (nw_branches (rd_network rd))" and ?n = "rd_n_nodes rd"
  let ?e = "or_else (?emf (?ks ! r)) 0 - z_ref * x (?n + (?w + r))"
  note quiet = quiet_sources [OF reference_node_only(1) [OF k]]
  have same: "termination_law rd ?\<omega> z_ref (?ks ! i) (x (?ks ! i)) (shifted ?n x (?w + i)) \<longleftrightarrow>
      ending_law ?\<omega> 0 None [?ks ! r \<mapsto> ?e] (map_option (\<lambda>_. 0) \<circ> ?forced) (loads_on rd) (?ks ! i)
        (x (?ks ! i)) (shifted ?n x (?w + i))" if i: "i < length ?ks" for i
  proof (cases "?forced (?ks ! i)")
    case (Some amps)
    then show ?thesis
      using quiet(2) [of "?ks ! i"] by (simp add: termination_law_def ending_law_def)
  next
    case None
    show ?thesis
    proof (cases "i = r")
      case True
      then show ?thesis
        using free k by (simp add: termination_law_def ending_law_def the_reference_def source_drop or_else_Some)
    next
      case False
      then have "?ks ! i \<noteq> ?ks ! r"
        using i r end_nodes_set(2) nth_eq_iff_index_eq by blast
      then show ?thesis
        using None k quiet(1) [of "?ks ! i"]
        by (simp add: termination_law_def ending_law_def the_reference_def or_else_def)
    qed
  qed
  show ?thesis
    unfolding circuit_def seen_from_def Let_def using same by auto
qed

section \<open>The solver\<close>

definition sound_solver :: "lapack \<Rightarrow> bool" where
  \<comment> \<open>what LAPACK documents: a system it does not flag, with a condition that is not small, has the
     solution given and no other\<close>
  "sound_solver zgesvx \<longleftrightarrow>
     (\<forall>N A b x r info. zgesvx N A b = (x, Some r, info) \<longrightarrow> \<not> (0 < info \<and> info \<le> int N) \<longrightarrow> rcond_singular \<le> r \<longrightarrow>
        (\<forall>i < N. row_sum N A x i = b i) \<and>
        (\<forall>y. (\<forall>i < N. row_sum N A y i = b i) \<longrightarrow> (\<forall>i < N. y i = x i)))"

lemma joined_shifted: "joined n x (shifted n x) = x"
  by (rule ext) (simp add: joined_def)

lemma solve_sound:
  assumes "solve zgesvx s = Inr (v, j)" and "sound_solver zgesvx"
  shows "j = shifted (ms_n_nodes s) v" and "solves s v j"
    and "solves s y (shifted (ms_n_nodes s) y) \<Longrightarrow> \<forall>i < ms_size s. y i = v i"
proof -
  obtain r info where z: "zgesvx (ms_size s) (ms_A s) (ms_rhs s) = (v, Some r, info)"
    and ok: "\<not> (0 < info \<and> info \<le> int (ms_size s))" "rcond_singular \<le> r"
    and j: "j = shifted (ms_n_nodes s) v"
    using assms(1) by (auto simp: solve_def shifted_def not_less split: prod.splits if_splits)
  have 1: "\<forall>i < ms_size s. row_sum (ms_size s) (ms_A s) v i = ms_rhs s i"
    and 2: "\<And>y. \<forall>i < ms_size s. row_sum (ms_size s) (ms_A s) y i = ms_rhs s i \<Longrightarrow> \<forall>i < ms_size s. y i = v i"
    using assms(2) z ok unfolding sound_solver_def by blast+
  show "j = shifted (ms_n_nodes s) v"
    by (rule j)
  show "solves s v j"
    using 1 by (simp add: solves_def j joined_shifted)
  show "\<forall>i < ms_size s. y i = v i" if "solves s y (shifted (ms_n_nodes s) y)"
    using 2 [of y] that by (simp add: solves_def joined_shifted)
qed

section \<open>The same impedance at every reference\<close>

lemma ending_at:
  assumes "i < length ks" and "distinct ks"
  shows "map_of (endings emf forced zs L ks) (ks ! i) = Some (snd (ending_value emf forced (ks ! i) (zs (ks ! i)) (L + i)))"
  using assms
proof (induction ks arbitrary: i L)
  case (Cons k ks)
  show ?case
  proof (cases i)
    case 0
    then show ?thesis
      by (simp add: endings_Cons ending_value_def)
  next
    case (Suc i')
    then have "ks ! i' \<noteq> k"
      using Cons.prems by (auto simp: in_set_conv_nth)
    then show ?thesis
      using Cons.IH [of i' "Suc L"] Cons.prems Suc by (simp add: endings_Cons ending_value_def)
  qed
qed simp

text \<open>What \<open>apply_branches\<close> records, at any reference.\<close>

lemma apply_branches_records:
  assumes "apply_branches rd n_real Y wavelength z_ref = Inr s" and "wf_reducer rd"
  shows "\<exists>zs. ms_terminations s =
      endings (emfs (rd_driven rd)) (forced_currents (rd_driven rd)) zs (total_width (nw_branches (rd_network rd))) (end_nodes rd) \<and>
    ms_n_nodes s = rd_n_nodes rd \<and> ms_size s = rd_n_nodes rd + (total_width (nw_branches (rd_network rd)) + length (end_nodes rd)) \<and>
    ms_z_ref s = z_ref \<and>
    ms_z_ref_at s = (\<lambda>k. if k \<in> set (end_nodes rd) \<and>
      referenced z_ref (the_reference rd z_ref) (forced_currents (rd_driven rd)) k then Some z_ref else None)"
proof -
  let ?n = "rd_n_nodes rd" and ?brs = "nw_branches (rd_network rd)" and ?ks = "end_nodes rd"
  let ?emf = "emfs (rd_driven rd)" and ?forced = "forced_currents (rd_driven rd)"
  obtain f_hz where f: "frequency_of rd wavelength = Inr f_hz"
    using assms(1) by (auto simp: apply_branches_def stamp_branches_def okE)
  let ?\<omega> = "2 * pi * f_hz"
  let ?st0 = "\<lparr>st_G = antenna_block rd n_real Y, st_elements = [], st_couplings = [], st_loads = [], st_probes = []\<rparr>"
  obtain st cl where st: "foldE (stamp_branch rd wavelength f_hz ?\<omega>) ?st0 (numbered_branches rd) = Inr st"
    and cl: "close_nodes ?\<omega> z_ref (the_reference rd z_ref) ?emf ?forced
       \<lparr>cl_stamp = st, cl_terminations = [], cl_z_ref_at = Map.empty\<rparr> ?ks = Inr cl"
    and s: "s = mk_mna ?n (st_G (cl_stamp cl)) (st_elements (cl_stamp cl)) (cl_terminations cl)
       (st_probes (cl_stamp cl)) (st_couplings (cl_stamp cl)) z_ref (cl_z_ref_at cl)"
    by (rule apply_branches_parts [OF assms(1) f]) (rule that)
  have wf: "nodes_below rd ?n" "length (nw_branch_paths (rd_network rd)) = length ?brs"
    using assms(2) by (auto simp: wf_reducer_def)
  have ks: "\<forall>k \<in> set ?ks. k < ?n"
    using end_nodes_in_range [OF assms(2) st] by simp
  have w: "length (st_elements st) = total_width ?brs"
    using adds_branches [OF st [unfolded numbered_branches_def] wf] by (auto simp: adds_def Let_def)
  have "length (st_elements (cl_stamp cl)) = total_width ?brs + length ?ks"
    using close_nodes_adds [OF cl ks(1)] w by (auto simp: adds_def Let_def)
  moreover note close_nodes_records [OF cl ks(1), simplified]
  ultimately show ?thesis
    by (intro exI [of _ "chain ?\<omega> st"]) (simp add: s mk_mna_def w fun_eq_iff)
qed

lemma port_impedance_scaled:
  assumes "ending_of s1 k = Inr (col, e, kd, zc)" and "ending_of s2 k = Inr (col, e, kd', zc')"
    and "c \<noteq> 0" and "j2 col = c * j1 col" and "kind = CurrentDrive \<longrightarrow> j1 col = 0"
    and "e - or_else (ms_z_ref_at s2 k) 0 * j2 col = c * (e - or_else (ms_z_ref_at s1 k) 0 * j1 col)"
  shows "port_impedance s1 v1 j1 (k, kind, a) = port_impedance s2 v2 j2 (k, kind, a)"
proof (cases "j1 col = 0")
  case False
  have q: "e / i - z = (e - z * i) / i" if "i \<noteq> 0" for z i :: complex
    using that by (simp add: field_simps)
  have "kind = VoltageDrive" "j2 col \<noteq> 0"
    using assms(3-5) False by (cases kind; simp)+
  then show ?thesis
    using assms(1-3,6) False by (simp add: port_impedance_def q) (simp add: assms(4))
qed (use assms in \<open>simp add: port_impedance_def\<close>)

lemma forced_current: "(k, CurrentDrive, a) \<in> set driven \<Longrightarrow> forced_currents driven k \<noteq> None"
  by (induction driven rule: rev_induct) (auto simp: forced_currents_def)

lemma mapE_cong: "(\<And>x. x \<in> set xs \<Longrightarrow> f x = g x) \<Longrightarrow> mapE f xs = mapE g xs"
  by (induction xs) simp_all

lemma referenced_value:
  assumes "reference_node rd = Some k" and "forced k = None"
  shows "or_else (if referenced z (the_reference rd z) forced k then Some z else None) 0 = z"
proof (cases "z = 0")
  case False
  then show ?thesis
    using assms unfolding referenced_def the_reference_def or_else_def by simp
qed (simp add: referenced_def the_reference_def or_else_def)

lemma impedance_any_reference:
  assumes sound: "sound_solver zgesvx" and wf: "wf_reducer rd"
    and 1: "apply_branches rd n_real Y wavelength z1 = Inr s1" "impedance_from_y zgesvx rd s1 = Inr zs1"
    and 2: "apply_branches rd n_real Y wavelength z2 = Inr s2" "impedance_from_y zgesvx rd s2 = Inr zs2"
    and k: "reference_node rd = Some k"
  shows "zs1 = zs2"
proof -
  let ?n = "rd_n_nodes rd" and ?w = "total_width (nw_branches (rd_network rd))" and ?ks = "end_nodes rd"
  let ?emf = "emfs (rd_driven rd)" and ?forced = "forced_currents (rd_driven rd)"
  let ?N = "?n + (?w + length ?ks)"
  obtain f_hz where f: "frequency_of rd wavelength = Inr f_hz"
    using 1(1) by (auto simp: apply_branches_def stamp_branches_def okE)
  obtain v1 j1 v2 j2 where
    sol1: "solve zgesvx s1 = Inr (v1, j1)" "mapE (port_impedance s1 v1 j1) (rd_driven rd) = Inr zs1" and
    sol2: "solve zgesvx s2 = Inr (v2, j2)" "mapE (port_impedance s2 v2 j2) (rd_driven rd) = Inr zs2"
    using 1(2) 2(2) by (auto simp: impedance_from_y_def okE)
  obtain ch1 where r1: "ms_terminations s1 = endings ?emf ?forced ch1 ?w ?ks" "ms_n_nodes s1 = ?n" "ms_size s1 = ?N"
      "ms_z_ref_at s1 = (\<lambda>k. if k \<in> set ?ks \<and> referenced z1 (the_reference rd z1) ?forced k then Some z1 else None)"
    using apply_branches_records [OF 1(1) wf] by blast
  obtain ch2 where r2: "ms_terminations s2 = endings ?emf ?forced ch2 ?w ?ks" "ms_n_nodes s2 = ?n" "ms_size s2 = ?N"
      "ms_z_ref_at s2 = (\<lambda>k. if k \<in> set ?ks \<and> referenced z2 (the_reference rd z2) ?forced k then Some z2 else None)"
    using apply_branches_records [OF 2(1) wf] by blast
  note only = reference_node_only [OF k]
  note quiet = quiet_sources [OF only(1)]
  obtain r where r: "r < length ?ks" "?ks ! r = k"
    using only(2) end_nodes_set(1) [of rd] by (metis UnI1 in_set_conv_nth)
  have free: "?forced k = None"
    using no_clash [OF 1(1) only(2)] only(3) by simp
  let ?e = "or_else (?emf k) 0" and ?m = "?n + (?w + r)"
  let ?sol = "seen_from (assembled rd) n_real Y wavelength f_hz k"
  have seen: "solves s1 x (shifted ?n x) \<longleftrightarrow> ?sol (?e - z1 * x ?m) x"
    "solves s2 x (shifted ?n x) \<longleftrightarrow> ?sol (?e - z2 * x ?m) x" for x
    using solves_circuit [OF 1(1) wf f] solves_circuit [OF 2(1) wf f]
      circuit_seen [of "assembled rd" r n_real Y wavelength _ f_hz x] k r free by simp_all
  have one: "?sol (?e - z1 * v1 ?m) v1" "\<And>y. ?sol (?e - z1 * y ?m) y \<Longrightarrow> \<forall>i < ?N. y i = v1 i"
    and j1: "j1 = shifted ?n v1"
    using solve_sound [OF sol1(1) sound] seen(1) r1(2,3) by auto
  have two: "?sol (?e - z2 * v2 ?m) v2" "\<And>y. ?sol (?e - z2 * y ?m) y \<Longrightarrow> \<forall>i < ?N. y i = v2 i"
    and j2: "j2 = shifted ?n v2"
    using solve_sound [OF sol2(1) sound] seen(2) r2(2,3) by auto
  have m: "?m < ?N"
    using r by simp
  have "\<exists>c. c \<noteq> 0 \<and> (\<forall>i < ?N. v2 i = c * v1 i) \<and> ?e - z2 * v2 ?m = c * (?e - z1 * v1 ?m)"
  proof (cases "?e = 0")
    case True
    have "\<forall>i < ?N. v1 i = 0" "\<forall>i < ?N. v2 i = 0"
      by (rule driven_circuit.silent [OF one [unfolded True]], assumption)
        (rule driven_circuit.silent [OF two [unfolded True]], assumption)
    then have zero: "v1 i = 0" "v2 i = 0" if "i < ?N" for i
      using that by blast+
    have "\<forall>i < ?N. v2 i = 1 * v1 i"
      using zero by simp
    moreover have "?e - z2 * v2 ?m = 1 * (?e - z1 * v1 ?m)"
      unfolding True zero [OF m] by simp
    ultimately show ?thesis
      using zero_neq_one [symmetric] by blast
  next
    case False
    show ?thesis
      by (rule driven_circuit.proportional [OF one two(1) False m])
  qed
  then obtain c where c: "c \<noteq> 0" "\<And>i. i < ?N \<Longrightarrow> v2 i = c * v1 i" "?e - z2 * v2 ?m = c * (?e - z1 * v1 ?m)"
    by blast
  have "port_impedance s1 v1 j1 d = port_impedance s2 v2 j2 d" if d: "d \<in> set (rd_driven rd)" for d
  proof -
    obtain k' kind a where d': "d = (k', kind, a)"
      by (cases d)
    have "k' \<in> set ?ks"
      using d d' end_nodes_set(1) [of rd] by force
    then obtain i where i: "i < length ?ks" "?ks ! i = k'"
      by (metis in_set_conv_nth)
    let ?at = "\<lambda>ch. snd (ending_value ?emf ?forced k' (ch k') (?w + i))"
    have ends: "ending_of s1 k' = Inr (?at ch1)" "ending_of s2 k' = Inr (?at ch2)"
      using ending_at [OF i(1) end_nodes_set(2)] i(2) by (simp_all add: ending_of_def r1(1) r2(1))
    let ?v = "if ?forced k' = None then or_else (?emf k') 0 else 0"
    obtain kd1 zc1 kd2 zc2 where at: "?at ch1 = (?w + i, ?v, kd1, zc1)" "?at ch2 = (?w + i, ?v, kd2, zc2)"
      using quiet(2) [of k'] by (auto simp: ending_value_def)
    have col: "?n + (?w + i) < ?N"
      using i(1) by simp
    have law: "ending_law (2 * pi * f_hz) 0 None [k \<mapsto> ?e - z1 * v1 ?m] (map_option (\<lambda>_. 0) \<circ> ?forced)
        (loads_on rd) k' (v1 k') (j1 (?w + i))"
      using one(1) i unfolding seen_from_def Let_def j1 assembled_fields assembled_ends assembled_loads
        total_width_stamped by blast
    have silent: "j1 (?w + i) = 0" if "?forced k' \<noteq> None"
      using law that by (auto simp: ending_law_def)
    have current: "kind = CurrentDrive \<longrightarrow> j1 (?w + i) = 0"
      using silent d unfolding d' by (auto dest: forced_current)
    have wave: "?v - or_else (ms_z_ref_at s2 k') 0 * j2 (?w + i) = c * (?v - or_else (ms_z_ref_at s1 k') 0 * j1 (?w + i))"
    proof (cases "k' = k")
      case True
      have "i = r"
        using i r True end_nodes_set(2) nth_eq_iff_index_eq by blast
      have "k \<in> set ?ks"
        using \<open>k' \<in> set ?ks\<close> unfolding True .
      then have refs: "or_else (ms_z_ref_at s1 k) 0 = z1" "or_else (ms_z_ref_at s2 k) 0 = z2"
        unfolding r1(4) r2(4) using referenced_value [where forced = ?forced, OF k free] by simp_all
      have js: "j1 (?w + i) = v1 ?m" "j2 (?w + i) = v2 ?m"
        by (simp_all add: j1 j2 \<open>i = r\<close>)
      show ?thesis
        unfolding True refs js using c(3) free by (simp only: if_True simp_thms)
    next
      case False
      then have "or_else (ms_z_ref_at s1 k') 0 = 0" "or_else (ms_z_ref_at s2 k') 0 = 0"
        using k by (simp_all add: r1(4) r2(4) referenced_def the_reference_def or_else_def)
      then show ?thesis
        using quiet(1) [OF False] by simp
    qed
    show ?thesis
      unfolding d'
      by (rule port_impedance_scaled [where c = c, OF ends(1) [unfolded at] ends(2) [unfolded at]])
        (use c(1) current wave in \<open>simp_all only: j1 j2 shifted_apply c(2) [OF col] not_False_eq_True\<close>)
  qed
  then have "mapE (port_impedance s1 v1 j1) (rd_driven rd) = mapE (port_impedance s2 v2 j2) (rd_driven rd)"
    by (rule mapE_cong)
  then show ?thesis
    using sol1(2) sol2(2) by simp
qed

lemma close_node_unreferenced: "close_node \<omega> z None = close_node \<omega> z' None"
  unfolding close_node_def by (simp add: fun_eq_iff)

lemma apply_branches_unreferenced:
  assumes "apply_branches rd n_real Y wavelength z1 = Inr s1" and "apply_branches rd n_real Y wavelength z2 = Inr s2"
    and "reference_node rd = None"
  shows "s2 = s1\<lparr>ms_z_ref := z2\<rparr>"
proof -
  have "terminate rd \<omega> z1 st = terminate rd \<omega> z2 st" for \<omega> st
    unfolding terminate_def assms(3) using close_node_unreferenced [of \<omega> z1 z2] by simp
  then show ?thesis
    using assms(1,2) by (auto simp: apply_branches_def okE mk_mna_def Let_def)
qed

lemma impedance_unreferenced: "impedance_from_y zgesvx rd (s\<lparr>ms_z_ref := z\<rparr>) = impedance_from_y zgesvx rd s"
proof -
  have fields: "ms_z_ref_at (s\<lparr>ms_z_ref := z\<rparr>) = ms_z_ref_at s" "ms_terminations (s\<lparr>ms_z_ref := z\<rparr>) = ms_terminations s"
      "ms_n_nodes (s\<lparr>ms_z_ref := z\<rparr>) = ms_n_nodes s" "ms_size (s\<lparr>ms_z_ref := z\<rparr>) = ms_size s"
      "ms_A (s\<lparr>ms_z_ref := z\<rparr>) = ms_A s" "ms_rhs (s\<lparr>ms_z_ref := z\<rparr>) = ms_rhs s"
    by simp_all
  have "port_impedance (s\<lparr>ms_z_ref := z\<rparr>) = port_impedance s"
    unfolding port_impedance_def ending_of_def fields ..
  then show ?thesis
    unfolding impedance_from_y_def solve_def fields by simp
qed

section \<open>The wave at a port\<close>

definition wave_of :: "complex \<Rightarrow> cvalue \<Rightarrow> net_exn + complex" where
  \<comment> \<open>the reflection of an impedance\<close>
  "wave_of z_ref z = (case z of CInf \<Rightarrow> Inr 1 | Finite z \<Rightarrow> divE (z - z_ref) (z + z_ref))"

lemma port_reflection_is_wave:
  assumes "port_reflection s j ((k, kind, a), z) = Inr g" and "port_impedance s v j (k, kind, a) = Inr z"
    and "ms_z_ref_at s k = None \<or> ms_z_ref_at s k = Some (ms_z_ref s)"
  shows "wave_of (ms_z_ref s) z = Inr g"
proof (cases "kind = CurrentDrive \<or> ms_z_ref_at s k = None")
  case True
  then show ?thesis
    using assms(1) unfolding port_reflection_def wave_of_def by (auto simp: bindE_eq_Inr)
next
  case False
  have "kind \<noteq> CurrentDrive" "ms_z_ref_at s k = Some (ms_z_ref s)"
    using False assms(3) by auto
  then have kind: "kind = VoltageDrive" "ms_z_ref_at s k = Some (ms_z_ref s)"
    using drive.exhaust [of kind] by blast+
  obtain col e kd zc where ends: "ending_of s k = Inr (col, e, kd, zc)"
    and e: "e \<noteq> 0" and g: "g = (2 * (e - ms_z_ref s * j col) - e) / e"
    using assms(1) kind by (auto simp: port_reflection_def okE np_div_def split: if_splits)
  show ?thesis
  proof (cases "j col = 0")
    case True
    then have "z = CInf"
      using assms(2) kind ends by (simp add: port_impedance_def)
    then show ?thesis
      using True e g by (simp add: wave_of_def)
  next
    case False
    then have "z = Finite (e / j col - ms_z_ref s)"
      using assms(2) kind ends by (simp add: port_impedance_def or_else_def)
    moreover have "(i - z_ref - z_ref) / i = (2 * (e - z_ref * j col) - e) / e" if "i = e / j col" for i z_ref
      unfolding that using False e by (simp add: field_simps)
    ultimately show ?thesis
      using False e by (simp add: wave_of_def divE_def g)
  qed
qed

end
