(* ===== verification/Network_Example.thy ===== *)
theory Network_Example
  imports Network_Reference
begin

text \<open>
  A solver for two unknowns, and a small network that the witnesses use: one port, driven with
  1 V through a load of 50 ohm and shunted by another 50 ohm, over an antenna of 20 mS.
\<close>

section \<open>Cramer's rule\<close>

definition cramer2 :: lapack where
  "cramer2 N A b =
     (let d = A 0 0 * A 1 1 - A 0 1 * A 1 0
      in if N = 2 \<and> d \<noteq> 0
         then (\<lambda>i. if i = 0 then (b 0 * A 1 1 - A 0 1 * b 1) / d else (A 0 0 * b 1 - b 0 * A 1 0) / d, Some 1, 0)
         else (b, None, 0))"

lemma row_sum_2: "row_sum 2 A x r = A r 0 * x 0 + A r 1 * x 1"
  by (simp add: row_sum_def eval_nat_numeral)

lemma below_two: "(\<forall>i < 2. P i) \<longleftrightarrow> P 0 \<and> P (1 :: nat)"
  using less_2_cases by auto

lemma cramer_algebra:
  fixes a b c d :: complex
  assumes "a * d - b * c \<noteq> 0"
  shows "a * x + b * y = p \<and> c * x + d * y = q \<longleftrightarrow>
    x = (p * d - b * q) / (a * d - b * c) \<and> y = (a * q - p * c) / (a * d - b * c)"
proof
  assume "a * x + b * y = p \<and> c * x + d * y = q"
  then have p: "p = a * x + b * y" and q: "q = c * x + d * y"
    by simp_all
  have "p * d - b * q = x * (a * d - b * c)" "a * q - p * c = y * (a * d - b * c)"
    by (simp_all add: p q algebra_simps)
  then show "x = (p * d - b * q) / (a * d - b * c) \<and> y = (a * q - p * c) / (a * d - b * c)"
    using assms by simp
next
  assume xy: "x = (p * d - b * q) / (a * d - b * c) \<and> y = (a * q - p * c) / (a * d - b * c)"
  have "a * (p * d - b * q) + b * (a * q - p * c) = p * (a * d - b * c)"
    "c * (p * d - b * q) + d * (a * q - p * c) = q * (a * d - b * c)"
    by (simp_all add: algebra_simps)
  then have "(a * (p * d - b * q) + b * (a * q - p * c)) / (a * d - b * c) = p"
    "(c * (p * d - b * q) + d * (a * q - p * c)) / (a * d - b * c) = q"
    using assms by simp_all
  then show "a * x + b * y = p \<and> c * x + d * y = q"
    using xy by (simp add: add_divide_distrib)
qed

lemma cramer2_sound: "sound_solver cramer2"
  unfolding sound_solver_def
proof (intro allI impI)
  fix N A b x r info
  assume call: "cramer2 N A b = (x, Some r, info)"
  let ?d = "A 0 0 * A 1 1 - A 0 1 * A 1 0"
  have N: "N = 2" and d: "?d \<noteq> 0"
    using call by (auto simp: cramer2_def Let_def split: if_splits)
  have x: "x 0 = (b 0 * A 1 1 - A 0 1 * b 1) / ?d" "x 1 = (A 0 0 * b 1 - b 0 * A 1 0) / ?d"
    using call N d by (auto simp: cramer2_def Let_def)
  have "(\<forall>i < 2. row_sum 2 A y i = b i) \<longleftrightarrow> y 0 = x 0 \<and> y 1 = x 1" for y
    unfolding below_two row_sum_2 x by (rule cramer_algebra [OF d])
  then show "(\<forall>i < N. row_sum N A x i = b i) \<and> (\<forall>y. (\<forall>i < N. row_sum N A y i = b i) \<longrightarrow> (\<forall>i < N. y i = x i))"
    unfolding N by (simp add: below_two)
qed

section \<open>The network\<close>

definition ex_ohms :: legs where
  "ex_ohms = \<lparr>lg_r = Some 50, lg_l = None, lg_c = None, lg_ql = None, lg_qc = None\<rparr>"

definition ex_branches :: "branch list" where
  "ex_branches = [Load ''f'' ex_ohms False None, Shunt ''f'' ex_ohms True]"

definition ex_ports :: "(string \<times> port) list" where
  "ex_ports = [(''f'', PortOnWire \<lparr>gap_name = ''f'', gap_distributed = False, gap_wire = None, gap_at = None\<rparr>)]"

definition ex_network :: network where
  "ex_network = \<lparr>nw_ports = ex_ports, nw_branches = ex_branches, nw_sources = [Driven ''f'' 1],
     nw_branch_paths = [[], []]\<rparr>"

definition ex_reducer :: reducer where
  "ex_reducer = \<lparr>rd_network = ex_network, rd_c_light = None, rd_port_to_idx = [''f'' \<mapsto> 0], rd_n_total_ports = 1,
     rd_floating = [], rd_n_nodes = 1, rd_driven = [(0, VoltageDrive, 1)], rd_driven_voltages = [1]\<rparr>"

definition ex_Y :: cmatrix where
  "ex_Y = (\<lambda>_ _. 1 / 50)"

lemma ex_mk_network: "mk_network ex_ports ex_branches [Driven ''f'' 1] [] = Inr ex_network"
  by (simp add: mk_network_def ex_ports_def ex_branches_def ex_network_def port_key_def branch_port_refs_def
      node_names_def is_floating_def source_check_def src_port_def validate_common_mode_def cm_open_def is_balun_def
      guardE_def)

lemma ex_mk_reducer: "mk_reducer ex_network [''f'' \<mapsto> 0] 1 None = Inr ex_reducer"
  by (simp add: mk_reducer_def ex_network_def ex_ports_def ex_reducer_def add_terminal_def is_floating_def
      src_port_def lookupE_def drive_of_def)

lemma ex_frequency: "frequency_of ex_reducer 1 = Inr c_light"
  by (simp add: frequency_of_def ex_reducer_def divE_def)

lemma ex_wf: "wf_reducer ex_reducer" "wf_gaps ex_reducer 1"
  by (simp_all add: wf_reducer_def wf_gaps_def nodes_below_def ex_reducer_def ex_network_def ex_branches_def)

lemma ex_apart: "list_all (apart ex_reducer) (nw_branches (rd_network ex_reducer))"
  by (simp add: apart_def ex_reducer_def ex_network_def ex_branches_def)

lemma ex_reference: "reference_node ex_reducer = Some 0"
  by (simp add: reference_node_def ex_reducer_def)

text \<open>The system: the node's equation and the source's.\<close>

definition ex_stamp :: stamp where
  "ex_stamp = \<lparr>st_G = add_at 0 0 (1 / 50) (antenna_block ex_reducer 1 ex_Y), st_elements = [], st_couplings = [],
     st_loads = [(0, [(''f'', ex_ohms, False, None, [], 0)])],
     st_probes = [mk_probe [] 1 ''Shunt'' [''f''] (Group1 [0] (\<lambda>_ _. 1 / 50)) '''']\<rparr>"

lemma ex_stamps: "stamp_branches ex_reducer 1 ex_Y 1 = Inr (2 * pi * c_light, ex_stamp)"
  by (simp add: stamp_branches_def ex_frequency Let_def)
    (simp add: ex_stamp_def ex_reducer_def ex_network_def ex_branches_def ex_ports_def ex_ohms_def stamp_branch_def
      Let_def lookupE_def hosts_load_def on_wire_def guardE_def push_load_def parallel_rlc_admittance_def some_or_def
      divE_def add_probe_def add_node_def)

definition ex_system :: "complex \<Rightarrow> mna" where
  "ex_system z = mk_mna 1 (st_G ex_stamp) [group2 None (Some 0) 1 (z + 50) 1] [(0, 0, 1, VoltageDrive, 0)]
     (st_probes ex_stamp @ [\<lparr>pr_label = ([], ''Load'', [''f'']), pr_kind = TerminationShare 0 (Finite 50),
        pr_key = ([], 0, ''load'')\<rparr>]) [] z (if z = 0 then Map.empty else [0 \<mapsto> z])"

lemma ex_closed:
  "close_node \<omega> z (if z = 0 then None else Some 0) [0 \<mapsto> 1] Map.empty
     \<lparr>cl_stamp = ex_stamp, cl_terminations = [], cl_z_ref_at = Map.empty\<rparr> 0 =
   Inr \<lparr>cl_stamp = add_element (group2 None (Some 0) 1 (z + 50) 1)
          (add_probe \<lparr>pr_label = ([], ''Load'', [''f'']), pr_kind = TerminationShare 0 (Finite 50),
             pr_key = ([], 0, ''load'')\<rparr> ex_stamp),
        cl_terminations = [(0, 0, 1, VoltageDrive, 0)], cl_z_ref_at = (if z = 0 then Map.empty else [0 \<mapsto> z])\<rparr>"
  by (simp add: close_node_def Let_def ex_stamp_def or_else_def load_impedance_of_def ex_ohms_def
      series_rlc_impedance_def some_or_def source_element_def is_finite_value_def total_def add_probe_def add_element_def)

lemma ex_applied: "apply_branches ex_reducer 1 ex_Y 1 z = Inr (ex_system z)"
proof -
  have bindE_Inr: "bindE m Inr = m" for m :: "net_exn + closing"
    by (cases m) simp_all
  have "terminate ex_reducer \<omega> z ex_stamp =
      close_node \<omega> z (if z = 0 then None else Some 0) [0 \<mapsto> 1] Map.empty
        \<lparr>cl_stamp = ex_stamp, cl_terminations = [], cl_z_ref_at = Map.empty\<rparr> 0" for \<omega>
    by (simp add: terminate_def Let_def ex_reference emfs_def forced_currents_def closed_nodes_def bindE_Inr)
      (simp add: ex_reducer_def ex_stamp_def bindE_Inr)
  then show ?thesis
    unfolding apply_branches_def ex_stamps
    by (simp add: ex_closed Let_def ex_system_def add_element_def add_probe_def) (simp add: ex_reducer_def ex_stamp_def)
qed

lemma ex_matrix:
  "ms_A (ex_system z) 0 0 = 1 / 25" "ms_A (ex_system z) 0 1 = -1"
  "ms_A (ex_system z) 1 0 = 1" "ms_A (ex_system z) 1 1 = z + 50"
  "ms_rhs (ex_system z) 0 = 0" "ms_rhs (ex_system z) 1 = 1" "ms_size (ex_system z) = 2" "ms_n_nodes (ex_system z) = 1"
  by (simp_all add: ex_system_def mk_mna_def assemble_def stamp_element_def touch_opt_def touch_def add_at_def
      group2_def or_else_def ex_stamp_def antenna_block_def ex_reducer_def ex_Y_def)

lemma ex_solved:
  assumes "z \<noteq> -75"
  shows "solve cramer2 (ex_system z) = Inr (\<lambda>i. if i = 0 then 25 / (z + 75) else 1 / (z + 75), \<lambda>k. 1 / (z + 75))"
proof -
  have det: "1 / 25 * (z + 50) - -1 * 1 = (z + 75) / 25" "(z + 75) / 25 \<noteq> 0"
    using assms by (simp_all add: field_simps eq_neg_iff_add_eq_0)
  have "cramer2 2 (ms_A (ex_system z)) (ms_rhs (ex_system z)) =
      (\<lambda>i. if i = 0 then 25 / (z + 75) else 1 / (z + 75), Some 1, 0)"
    unfolding cramer2_def Let_def ex_matrix det(1) using det(2) by (simp add: fun_eq_iff)
  then show ?thesis
    by (simp add: solve_def ex_matrix(7,8) rcond_singular_def)
qed

lemma ex_impedance: "z \<noteq> -75 \<Longrightarrow> impedance_from_y cramer2 ex_reducer (ex_system z) = Inr [Finite 75]"
proof -
  assume z: "z \<noteq> -75"
  then have "z + 75 \<noteq> 0"
    by (simp add: eq_neg_iff_add_eq_0)
  then show ?thesis
    unfolding impedance_from_y_def ex_solved [OF z]
    by (simp add: ex_reducer_def port_impedance_def ending_of_def ex_system_def mk_mna_def or_else_def)
qed

lemma ex_state:
  "excited_state cramer2 ex_reducer 1 ex_Y 1 =
     Inr \<lparr>ex_voltages = (\<lambda>i. if i = 0 then 1 / 3 else 1 / 75), ex_efficiency = 1 / 6, ex_p_in = 1 / 150,
       ex_budget = [(([], ''Shunt'', [''f'']), 1 / 900, [], 1, ''''), (([], ''Load'', [''f'']), 1 / 225, [], 0, ''load'')]\<rparr>"
proof -
  have solved: "solve cramer2 (ex_system 0) = Inr (\<lambda>i. if i = 0 then 1 / 3 else 1 / 75, \<lambda>k. 1 / 75)"
    using ex_solved [of 0] by (simp add: fun_eq_iff)
  show ?thesis
    unfolding excited_state_def ex_applied bindE_Inr solved split
    by (simp add: power_readout_def Let_def input_power_def ex_system_def mk_mna_def ex_stamp_def mk_probe_def
        short_def branch_power_def dot_def physical_port_voltages_def ex_reducer_def power2_eq_square)
qed

end
