(* ===== verification/Network_Lines.thy ===== *)
theory Network_Lines
  imports Network_Balance
begin

text \<open>
  Transmission lines: the chain form that the circuit solves with, against the admittance
  matrices of networks/_reduce.py, which have no value at the lengths where a line is singular;
  and the power of a line without loss.
\<close>

section \<open>The chain matrix\<close>

lemma tl_abcd_parts:
  assumes "tl_abcd z0 len wavelength vf k1 k2 c = Inr m"
  obtains gl where "tl_gamma_l len wavelength vf k1 k2 c = Inr gl" and "tl_zc z0 gl \<noteq> 0"
    and "m = (cosh gl, tl_zc z0 gl * sinh gl, sinh gl / tl_zc z0 gl, cosh gl)"
  using assms that by (auto simp: tl_abcd_def okE Let_def np_div_def split: if_splits)

lemma cosh_sinh_one: "cosh z * cosh z - sinh z * sinh z = 1" for z :: complex
  using hyperbolic_pythagoras [of z] by (simp add: power2_eq_square)

lemma chain_determinant:
  assumes "tl_abcd z0 len wavelength vf k1 k2 c = Inr (A, B, C, D)"
  shows "A * D - B * C = 1" and "A = D"
  using assms cosh_sinh_one by (auto elim!: tl_abcd_parts)

text \<open>With port \<open>b\<close> crossed or not, the chain law is the admittance law.\<close>

lemma line_admittance_algebra:
  fixes ch :: complex
  assumes "ch * ch - sh * sh = 1" and "zc \<noteq> 0" and "sh \<noteq> 0" and "s = 1 \<or> s = -1"
  shows "line_law (ch, zc * sh, sh / zc, ch) va (s * vb) i1 i2 \<longleftrightarrow>
    i1 = 1 / (zc * sh) * ch * va + 1 / (zc * sh) * (- s) * vb \<and>
    - (s * i2) = 1 / (zc * sh) * (- s) * va + 1 / (zc * sh) * ch * vb"
proof -
  let ?x = "zc * sh"
  have x: "?x \<noteq> 0" and ss: "s * s = 1"
    using assms by auto
  have sh2: "sh * sh = ch * ch - 1"
    using assms(1) by (simp add: algebra_simps)
  have far: "va = ch * (s * vb) + ?x * i2 \<longleftrightarrow> - (s * i2) = 1 / ?x * (- s) * va + 1 / ?x * ch * vb"
    using assms(4) x by (auto simp: field_simps)
  have near: "sh / zc * (s * vb) + ch * i2 = 1 / ?x * ch * va + 1 / ?x * (- s) * vb"
    if "va = ch * (s * vb) + ?x * i2"
  proof -
    have "?x * (sh / zc * (s * vb) + ch * i2) = (sh * sh) * (s * vb) + ch * (?x * i2)"
      using assms(2) by (simp add: algebra_simps)
    also have "\<dots> = ch * va + (- s) * vb"
      unfolding sh2 that by (simp add: algebra_simps)
    finally have "sh / zc * (s * vb) + ch * i2 = (ch * va + (- s) * vb) / ?x"
      by (metis x nonzero_eq_divide_eq mult.commute)
    then show ?thesis
      by (simp add: add_divide_distrib diff_divide_distrib)
  qed
  show ?thesis
    unfolding line_law_def using far near by auto
qed

lemma line_admittance:
  assumes "tl_admittance_2x2 z0 len wavelength transposed vf k1 k2 c = Inr Y"
  shows "\<exists>m. tl_abcd z0 len wavelength vf k1 k2 c = Inr m \<and>
    (\<forall>va vb i1 i2. line_law m va ((if transposed then -1 else 1) * vb) i1 i2 \<longleftrightarrow>
       i1 = Y 0 0 * va + Y 0 1 * vb \<and> - ((if transposed then -1 else 1) * i2) = Y 1 0 * va + Y 1 1 * vb)"
proof -
  let ?s = "if transposed then -1 else 1 :: complex"
  obtain gl where gl: "tl_gamma_l len wavelength vf k1 k2 c = Inr gl"
    and nz: "tl_zc z0 gl * sinh gl \<noteq> 0"
    and Y: "Y = (\<lambda>i k. if i = k then 1 / (tl_zc z0 gl * sinh gl) * cosh gl
       else 1 / (tl_zc z0 gl * sinh gl) * (if transposed then 1 else -1))"
    using assms by (auto simp: tl_admittance_2x2_def okE Let_def np_div_def split: if_splits)
  have m: "tl_abcd z0 len wavelength vf k1 k2 c =
      Inr (cosh gl, tl_zc z0 gl * sinh gl, sinh gl / tl_zc z0 gl, cosh gl)"
    using gl nz by (simp add: tl_abcd_def np_div_def Let_def)
  have s: "(if transposed then 1 else -1) = - ?s" "?s = 1 \<or> ?s = -1"
    by simp_all
  have "line_law (cosh gl, tl_zc z0 gl * sinh gl, sinh gl / tl_zc z0 gl, cosh gl) va (?s * vb) i1 i2 \<longleftrightarrow>
      i1 = Y 0 0 * va + Y 0 1 * vb \<and> - (?s * i2) = Y 1 0 * va + Y 1 1 * vb" for va vb i1 i2
    unfolding Y s(1) using line_admittance_algebra [OF cosh_sinh_one _ _ s(2), of "tl_zc z0 gl" gl va vb i1 i2] nz by simp
  then show ?thesis
    using m by blast
qed

section \<open>Lines in the circuit\<close>

lemma block_draw_2:
  "block_draw [a, b] Y v k = single a (Y 0 0 * v a + Y 0 1 * v b) k + single b (Y 1 0 * v a + Y 1 1 * v b) k"
  by (simp add: block_draw_def)

lemma tl_draws:
  assumes "tl_admittance_2x2 (tl_z0 t) (tl_length t) wavelength (tl_transposed t) (tl_vf t) (tl_k1 t) (tl_k2 t)
      (rd_c_light rd) = Inr Y" and "branch_laws rd wavelength \<omega> (TL t) v u"
  shows "branch_draws rd f_hz \<omega> (TL t) v u k = block_draw [node_of rd (tl_a t), node_of rd (tl_b t)] Y v k"
proof -
  let ?s = "if tl_transposed t then -1 else 1 :: complex"
  have i: "u 0 = Y 0 0 * v (node_of rd (tl_a t)) + Y 0 1 * v (node_of rd (tl_b t))"
    "- (?s * u 1) = Y 1 0 * v (node_of rd (tl_a t)) + Y 1 1 * v (node_of rd (tl_b t))"
    using line_admittance [OF assms(1)] assms(2) by (auto simp: branch_laws_def Let_def)
  show ?thesis
    unfolding block_draw_2 i [symmetric] by (simp add: branch_draws_def Let_def)
qed

lemma block_draw_4:
  assumes "Y 0 0 * v a + Y 0 1 * v b + Y 0 2 * v c + Y 0 3 * v d = x1"
    and "Y 1 0 * v a + Y 1 1 * v b + Y 1 2 * v c + Y 1 3 * v d = x2"
    and "Y 2 0 * v a + Y 2 1 * v b + Y 2 2 * v c + Y 2 3 * v d = x3"
    and "Y 3 0 * v a + Y 3 1 * v b + Y 3 2 * v c + Y 3 3 * v d = x4"
  shows "block_draw [a, b, c, d] Y v k = single a x1 k + single b x2 k + single c x3 k + single d x4 k"
  unfolding assms [symmetric] by (simp add: block_draw_def eval_nat_numeral)

lemma kron2_entries:
  "kron2 y inc 0 0 = y 0 0 * inc 0 0" "kron2 y inc 0 1 = y 0 0 * inc 0 1"
  "kron2 y inc 0 2 = y 0 1 * inc 0 0" "kron2 y inc 0 3 = y 0 1 * inc 0 1"
  "kron2 y inc 1 0 = y 0 0 * inc 1 0" "kron2 y inc 1 1 = y 0 0 * inc 1 1"
  "kron2 y inc 1 2 = y 0 1 * inc 1 0" "kron2 y inc 1 3 = y 0 1 * inc 1 1"
  "kron2 y inc 2 0 = y 1 0 * inc 0 0" "kron2 y inc 2 1 = y 1 0 * inc 0 1"
  "kron2 y inc 2 2 = y 1 1 * inc 0 0" "kron2 y inc 2 3 = y 1 1 * inc 0 1"
  "kron2 y inc 3 0 = y 1 0 * inc 1 0" "kron2 y inc 3 1 = y 1 0 * inc 1 1"
  "kron2 y inc 3 2 = y 1 1 * inc 1 0" "kron2 y inc 3 3 = y 1 1 * inc 1 1"
  by (simp_all add: kron2_def)

text \<open>A mode is a line between the differences, or the means, of the two ends' voltages.\<close>

lemma mode_currents:
  assumes "tl_admittance_2x2 z0 len wavelength False vf k1 k2 c = Inr Y"
    and "\<exists>m. tl_abcd z0 len wavelength vf k1 k2 c = Inr m \<and> line_law m va vb i1 i2"
  shows "i1 = Y 0 0 * va + Y 0 1 * vb" and "i2 = - (Y 1 0 * va + Y 1 1 * vb)"
proof -
  have "i1 = Y 0 0 * va + Y 0 1 * vb \<and> - i2 = Y 1 0 * va + Y 1 1 * vb"
    using line_admittance [OF assms(1)] assms(2) by auto
  then show "i1 = Y 0 0 * va + Y 0 1 * vb" "i2 = - (Y 1 0 * va + Y 1 1 * vb)"
    by (metis minus_minus)+
qed

lemma balanced_draws:
  assumes "balanced_admittance_4x4 (bl_zdiff b) (bl_length b) wavelength (bl_vf b) (bl_k1 b) (bl_k2 b)
      (bl_zcomm b) (rd_c_light rd) = Inr Y" and "branch_laws rd wavelength \<omega> (BalancedLine b) v u"
  shows "branch_draws rd f_hz \<omega> (BalancedLine b) v u k =
    block_draw (map (node_of rd) [bl_a1 b, bl_a2 b, bl_b1 b, bl_b2 b]) Y v k"
proof -
  let ?V = "\<lambda>p. v (node_of rd p)"
  obtain yd where yd: "tl_admittance_2x2 (bl_zdiff b) (bl_length b) wavelength False (bl_vf b) (bl_k1 b) (bl_k2 b)
      (rd_c_light rd) = Inr yd"
    using assms(1) by (auto simp: balanced_admittance_4x4_def okE)
  have "\<exists>m. tl_abcd (bl_zdiff b) (bl_length b) wavelength (bl_vf b) (bl_k1 b) (bl_k2 b) (rd_c_light rd) = Inr m \<and>
      line_law m (?V (bl_a1 b) - ?V (bl_a2 b)) (?V (bl_b1 b) - ?V (bl_b2 b)) (u 0) (u 1)"
    using assms(2) unfolding branch_laws_def Let_def by simp
  note mode_currents [OF yd this]
  then have diff: "u 0 = yd 0 0 * (?V (bl_a1 b) - ?V (bl_a2 b)) + yd 0 1 * (?V (bl_b1 b) - ?V (bl_b2 b))"
    "u 1 = - (yd 1 0 * (?V (bl_a1 b) - ?V (bl_a2 b)) + yd 1 1 * (?V (bl_b1 b) - ?V (bl_b2 b)))"
    by blast+
  show ?thesis
  proof (cases "bl_zcomm b")
    case None
    then have Y: "Y = kron2 yd diff_incidence"
      using assms(1) yd by (simp add: balanced_admittance_4x4_def)
    have "branch_draws rd f_hz \<omega> (BalancedLine b) v u k =
        single (node_of rd (bl_a1 b)) (u 0) k + single (node_of rd (bl_a2 b)) (- u 0) k +
        single (node_of rd (bl_b1 b)) (- u 1) k + single (node_of rd (bl_b2 b)) (u 1) k"
      by (simp add: branch_draws_def Let_def None)
    also have "\<dots> = block_draw (map (node_of rd) [bl_a1 b, bl_a2 b, bl_b1 b, bl_b2 b]) Y v k"
      unfolding list.map diff
      by (rule block_draw_4 [symmetric]; simp only: Y kron2_entries diff_incidence_def; simp add: algebra_simps)
    finally show ?thesis .
  next
    case (Some zc)
    obtain yc where yc: "tl_admittance_2x2 zc (bl_length b) wavelength False (bl_vf b) (bl_k1 b) (bl_k2 b)
        (rd_c_light rd) = Inr yc"
      and Y: "Y = (\<lambda>i k. kron2 yd diff_incidence i k + kron2 yc comm_incidence i k)"
      using assms(1) yd Some by (auto simp: balanced_admittance_4x4_def okE)
    have "\<exists>m. tl_abcd zc (bl_length b) wavelength (bl_vf b) (bl_k1 b) (bl_k2 b) (rd_c_light rd) = Inr m \<and>
        line_law m ((?V (bl_a1 b) + ?V (bl_a2 b)) / 2) ((?V (bl_b1 b) + ?V (bl_b2 b)) / 2) (u 2) (u 3)"
      using assms(2) Some unfolding branch_laws_def Let_def by simp
    note mode_currents [OF yc this]
    then have comm: "u 2 = yc 0 0 * ((?V (bl_a1 b) + ?V (bl_a2 b)) / 2) + yc 0 1 * ((?V (bl_b1 b) + ?V (bl_b2 b)) / 2)"
      "u 3 = - (yc 1 0 * ((?V (bl_a1 b) + ?V (bl_a2 b)) / 2) + yc 1 1 * ((?V (bl_b1 b) + ?V (bl_b2 b)) / 2))"
      by blast+
    have "branch_draws rd f_hz \<omega> (BalancedLine b) v u k =
        single (node_of rd (bl_a1 b)) (u 2 / 2 + u 0) k + single (node_of rd (bl_a2 b)) (u 2 / 2 - u 0) k +
        single (node_of rd (bl_b1 b)) (- (u 3 / 2 + u 1)) k + single (node_of rd (bl_b2 b)) (- (u 3 / 2 - u 1)) k"
      by (simp only: branch_draws_def Let_def Some branch.case option.distinct if_False fst_conv snd_conv single_simps) simp
    also have "\<dots> = block_draw (map (node_of rd) [bl_a1 b, bl_a2 b, bl_b1 b, bl_b2 b]) Y v k"
      unfolding list.map diff comm
      by (rule block_draw_4 [symmetric]; simp only: Y kron2_entries diff_incidence_def comm_incidence_def;
          simp add: algebra_simps; simp add: field_simps)
    finally show ?thesis .
  qed
qed

section \<open>A line without loss\<close>

lemma cnj_hyperbolic: "cnj (cosh z) = cosh (cnj z)" "cnj (sinh z) = sinh (cnj z)"
  by (simp_all add: cosh_def sinh_def complex_eq_iff Re_exp Im_exp)

lemma lossless_chain:
  assumes "tl_abcd z0 len wavelength vf 0 0 c = Inr (A, B, C, D)" and "line_law (A, B, C, D) va vb i1 i2"
  shows "Re (va * cnj i1) = Re (vb * cnj i2)"
proof -
  obtain gl where gl: "tl_gamma_l len wavelength vf 0 0 c = Inr gl" and zc: "tl_zc z0 gl \<noteq> 0"
    and m: "(A, B, C, D) = (cosh gl, tl_zc z0 gl * sinh gl, sinh gl / tl_zc z0 gl, cosh gl)"
    using assms(1) by (rule tl_abcd_parts)
  have re: "Re gl = 0"
    using gl by (auto simp: tl_gamma_l_def okE Let_def)
  have z: "tl_zc z0 gl = of_real z0" and "z0 \<noteq> 0"
    using re zc by (auto simp: tl_zc_def)
  have "cnj gl = - gl"
    using re by (simp add: complex_eq_iff)
  then have ch: "cnj (cosh gl) = cosh gl" and sh: "cnj (sinh gl) = - sinh gl"
    by (simp_all add: cnj_hyperbolic)
  let ?P = "va * cnj i1 - vb * cnj i2" and ?x = "vb * cnj i2 + cnj vb * i2"
  have v: "va = cosh gl * vb + of_real z0 * sinh gl * i2" "i1 = sinh gl / of_real z0 * vb + cosh gl * i2"
    using assms(2) m z by (auto simp: line_law_def)
  have "?P + cnj ?P = (cosh gl * cosh gl - sinh gl * sinh gl - 1) * ?x"
    unfolding v by (simp add: ch sh \<open>z0 \<noteq> 0\<close> field_simps)
  then have "?P + cnj ?P = 0"
    by (simp add: cosh_sinh_one)
  then have "complex_of_real (2 * Re ?P) = 0"
    unfolding complex_add_cnj .
  then show ?thesis
    by (simp del: times_complex.sel)
qed

lemma lossless_absorbs_nothing:
  assumes "tl_k1 t = 0" and "tl_k2 t = 0" and "branch_laws rd wavelength \<omega> (TL t) v u"
    and "node_of rd (tl_a t) < n" and "node_of rd (tl_b t) < n"
  shows "absorbed n v (branch_draws rd f_hz \<omega> (TL t) v u) = 0"
proof -
  let ?a = "node_of rd (tl_a t)" and ?b = "node_of rd (tl_b t)" and ?s = "if tl_transposed t then -1 else 1 :: complex"
  obtain A B C D where m: "tl_abcd (tl_z0 t) (tl_length t) wavelength (tl_vf t) 0 0 (rd_c_light rd) = Inr (A, B, C, D)"
    and law: "line_law (A, B, C, D) (v ?a) (?s * v ?b) (u 0) (u 1)"
    using assms(1-3) by (auto simp: branch_laws_def Let_def)
  have same: "Re (v ?a * cnj (u 0)) = Re (v ?b * cnj (?s * u 1))"
    using lossless_chain [OF m law] by (cases "tl_transposed t") simp_all
  have draws: "branch_draws rd f_hz \<omega> (TL t) v u = (\<lambda>k. single ?a (u 0) k + single ?b (- (?s * u 1)) k)"
    by (rule ext) (simp add: branch_draws_def Let_def)
  show ?thesis
    unfolding draws absorbed_add absorbed_single [OF assms(4)] absorbed_single [OF assms(5)] same
    by (simp add: distrib_left [symmetric] del: times_complex.sel)
qed

end
