(* ===== verification/Network_Diagnosis.thy ===== *)
theory Network_Diagnosis
  imports Network_Lines
begin

text \<open>
  Which line made a system singular: \<open>_open_ended_nodes\<close> and the decisions of \<open>_singularity_report\<close>
  in networks/_reducer.py, and that a line at a length where it is singular is named.
\<close>

section \<open>Nodes at which a line hangs open\<close>

definition walked_refs :: "branch \<Rightarrow> string list" where
  \<comment> \<open>the fields named a, b, a1, a2, b1, b2 or port; the list of an Admittance and a primary are not among them\<close>
  "walked_refs br =
     (case br of
        TL t \<Rightarrow> [tl_a t, tl_b t]
      | BalancedLine b \<Rightarrow> [bl_a1 b, bl_a2 b, bl_b1 b, bl_b2 b]
      | TwoPort a b lg \<Rightarrow> [a, b]
      | Transformer a b n r m \<Rightarrow> [a, b]
      | Autotransformer a b l u k q \<Rightarrow> [a, b]
      | TouchstoneTwoPort a b d \<Rightarrow> [a, b]
      | FloatingBalun p a b n r m \<Rightarrow> [a, b]
      | Load p lg par z \<Rightarrow> [p]
      | Shunt p lg par \<Rightarrow> [p]
      | TouchstoneLoad p d \<Rightarrow> [p]
      | Admittance ps y \<Rightarrow> [])"

definition walked_nodes :: "reducer \<Rightarrow> nat list" where
  "walked_nodes rd = List.map_filter (rd_port_to_idx rd) (concat (map walked_refs (nw_branches (rd_network rd))))"

definition real_nodes :: "reducer \<Rightarrow> nat list" where
  "real_nodes rd = List.map_filter (\<lambda>(name, p). if on_wire p then rd_port_to_idx rd name else None) (nw_ports (rd_network rd))"

definition open_ended_nodes :: "reducer \<Rightarrow> nat set" where
  "open_ended_nodes rd =
     set (filter (\<lambda>k. count_list (walked_nodes rd) k = 1 \<and> k \<notin> fst ` set (rd_driven rd) \<and> k \<notin> set (real_nodes rd))
       (walked_nodes rd))"

section \<open>Suspects\<close>

datatype pole = OddQuarter | WholeHalf

record suspect = \<comment> \<open>what its sentence says\<close>
  su_path :: string
  su_ends :: "string list"
  su_length :: real \<comment> \<open>in wavelengths\<close>
  su_mhz :: real
  su_pole :: pole
  su_z0 :: real

definition line_of :: "branch \<Rightarrow> (real \<times> real \<times> real \<times> real \<times> real \<times> string list) option" where
  \<comment> \<open>impedance, length, velocity factor, the two loss factors, ends\<close>
  "line_of br =
     (case br of
        TL t \<Rightarrow> Some (tl_z0 t, tl_length t, tl_vf t, tl_k1 t, tl_k2 t, [tl_a t, tl_b t])
      | BalancedLine b \<Rightarrow> Some (bl_zdiff b, bl_length b, bl_vf b, bl_k1 b, bl_k2 b, [bl_a1 b, bl_b1 b])
      | _ \<Rightarrow> None)"

definition pole_at :: "real \<Rightarrow> pole option" where
  \<comment> \<open>of a length in half wavelengths\<close>
  "pole_at n_half =
     (if \<bar>frac n_half - 1 / 2\<bar> < 2 / 100 then Some OddQuarter
      else if 98 / 100 \<le> n_half \<and> min (frac n_half) (1 - frac n_half) < 2 / 100 then Some WholeHalf
      else None)"

definition suspect_of :: "reducer \<Rightarrow> real \<Rightarrow> real \<Rightarrow> branch \<times> string \<Rightarrow> net_exn + suspect list" where
  "suspect_of rd wavelength f_mhz bp =
     (case bp of (br, path) \<Rightarrow>
        (case line_of br of
           None \<Rightarrow> Inr []
         | Some (z0, len, vf, k1, k2, ends) \<Rightarrow>
             if k1 \<noteq> 0 \<or> k2 \<noteq> 0 then Inr []
             else if \<not> list_ex (\<lambda>e. \<exists>k \<in> open_ended_nodes rd. rd_port_to_idx rd e = Some k) ends then Inr []
             else bindE (divE len (1 / 2 * (wavelength * vf))) (\<lambda>n_half.
               case pole_at n_half of
                 None \<Rightarrow> Inr []
               | Some p \<Rightarrow> Inr [\<lparr>su_path = butlast path, su_ends = ends, su_length = n_half / 2, su_mhz = f_mhz,
                                su_pole = p, su_z0 = z0\<rparr>])))"

definition suspects :: "reducer \<Rightarrow> real \<Rightarrow> net_exn + suspect list" where
  \<comment> \<open>none: the report says that the cause is elsewhere\<close>
  "suspects rd wavelength =
     bindE (frequency_mhz wavelength (rd_c_light rd)) (\<lambda>f_mhz.
     bindE (mapE (suspect_of rd wavelength f_mhz)
              (zip (nw_branches (rd_network rd)) (nw_branch_paths (rd_network rd)))) (\<lambda>ss.
     Inr (concat ss)))"

section \<open>A line at its own pole is named\<close>

lemma odd_quarter_pole: "pole_at (of_int m + 1 / 2) = Some OddQuarter"
proof -
  have "frac (of_int m + 1 / 2 :: real) = 1 / 2"
    by (simp add: frac_unique_iff)
  then show ?thesis
    by (simp add: pole_at_def)
qed

lemma whole_half_pole: "1 \<le> m \<Longrightarrow> pole_at (of_int m) = Some WholeHalf"
  by (simp add: pole_at_def)

lemma cosh_imaginary: "cosh (Complex 0 x) = of_real (cos x)" "sinh (Complex 0 x) = \<i> * of_real (sin x)"
  by (simp_all add: cosh_def sinh_def complex_eq_iff Re_exp Im_exp)

text \<open>At an odd number of quarter waves an open line is a short, at a whole number of half waves an open.\<close>

lemma lossless_at_pole:
  assumes "tl_abcd z0 len wavelength vf 0 0 c = Inr (A, B, C, D)" and "len = n_half * (1 / 2 * (wavelength * vf))"
  shows "n_half = of_int m + 1 / 2 \<Longrightarrow> A = 0" and "n_half = of_int m \<Longrightarrow> C = 0"
proof -
  obtain gl where gl: "tl_gamma_l len wavelength vf 0 0 c = Inr gl"
    and m: "(A, B, C, D) = (cosh gl, tl_zc z0 gl * sinh gl, sinh gl / tl_zc z0 gl, cosh gl)"
    using assms(1) by (rule tl_abcd_parts)
  have nz: "vf * wavelength \<noteq> 0" and "gl = Complex 0 (2 * pi / (vf * wavelength)) * of_real len"
    using gl by (auto simp: tl_gamma_l_def okE Let_def divE_def split: if_splits)
  then have "gl = Complex 0 (n_half * pi)"
    using nz by (simp add: complex_eq_iff assms(2))
  then have parts: "A = of_real (cos (n_half * pi))" "C = \<i> * of_real (sin (n_half * pi)) / tl_zc z0 gl"
    using m by (simp_all add: cosh_imaginary)
  show "A = 0" if "n_half = of_int m + 1 / 2"
  proof -
    have "n_half * pi = of_int (2 * m + 1) * (pi / 2)"
      using that by (simp add: algebra_simps)
    then have "cos (n_half * pi) = 0"
      using cos_zero_iff_int by (metis odd_two_times_div_two_succ even_plus_one_iff dvd_triv_left)
    then show ?thesis
      by (simp add: parts)
  qed
  show "C = 0" if "n_half = of_int m"
    using that sin_zero_iff_int2 [of "n_half * pi"] by (auto simp: parts)
qed

text \<open>
  An end hangs open when no other end of any branch is on its node (the ports of an \<open>Admittance\<close> and
  primaries counted, which the walk leaves out), no source is, and no port on a wire is.
\<close>

definition all_ends :: "reducer \<Rightarrow> nat list" where
  "all_ends rd = List.map_filter (rd_port_to_idx rd) (concat (map branch_port_refs (nw_branches (rd_network rd))))"

definition hangs_open :: "reducer \<Rightarrow> string \<Rightarrow> bool" where
  "hangs_open rd e \<longleftrightarrow>
     (case rd_port_to_idx rd e of
        None \<Rightarrow> False
      | Some k \<Rightarrow> count_list (all_ends rd) k = 1 \<and> k \<notin> fst ` set (rd_driven rd) \<and>
          (\<forall>(name, p) \<in> set (nw_ports (rd_network rd)). on_wire p \<longrightarrow> rd_port_to_idx rd name \<noteq> Some k))"

lemma map_filter_append: "List.map_filter f (xs @ ys) = List.map_filter f xs @ List.map_filter f ys"
  by (simp add: List.map_filter_def)

lemma walked_counts: "count_list (walked_nodes rd) k \<le> count_list (all_ends rd) k"
proof -
  have one: "count_list (List.map_filter f (walked_refs br)) k \<le> count_list (List.map_filter f (branch_port_refs br)) k"
    for f br
    by (cases br) (auto simp: walked_refs_def branch_port_refs_def List.map_filter_def)
  have "count_list (List.map_filter f (concat (map walked_refs brs))) k \<le>
      count_list (List.map_filter f (concat (map branch_port_refs brs))) k" for f brs
    by (induction brs) (use add_mono [OF one] in \<open>simp_all add: map_filter_append\<close>)
  then show ?thesis
    by (simp add: walked_nodes_def all_ends_def)
qed

lemma hanging_end_is_open:
  assumes "TL t \<in> set (nw_branches (rd_network rd))" and "e = tl_a t \<or> e = tl_b t" and "hangs_open rd e"
  shows "\<exists>k \<in> open_ended_nodes rd. rd_port_to_idx rd e = Some k"
proof -
  obtain k where k: "rd_port_to_idx rd e = Some k" "count_list (all_ends rd) k = 1" "k \<notin> fst ` set (rd_driven rd)"
    "\<forall>(name, p) \<in> set (nw_ports (rd_network rd)). on_wire p \<longrightarrow> rd_port_to_idx rd name \<noteq> Some k"
    using assms(3) by (auto simp: hangs_open_def split: option.splits)
  have "e \<in> set (concat (map walked_refs (nw_branches (rd_network rd))))"
    using assms(1,2) by (force simp: walked_refs_def)
  then have walked: "k \<in> set (walked_nodes rd)"
    using k(1) by (force simp: walked_nodes_def List.map_filter_def)
  then have "0 < count_list (walked_nodes rd) k"
    by (metis count_list_0_iff gr0I)
  then have "count_list (walked_nodes rd) k = 1"
    using walked_counts [of rd k] k(2) by simp
  moreover have "k \<notin> set (real_nodes rd)"
    using k(4) by (fastforce simp: real_nodes_def List.map_filter_def split: if_splits)
  ultimately show ?thesis
    using k(1,3) walked by (simp add: open_ended_nodes_def)
qed

lemma hanging_line_is_named:
  assumes "suspects rd wavelength = Inr ss" and "(TL t, path) \<in> set (zip (nw_branches (rd_network rd)) (nw_branch_paths (rd_network rd)))"
    and "tl_k1 t = 0" and "tl_k2 t = 0" and "hangs_open rd (tl_a t) \<or> hangs_open rd (tl_b t)"
    and "tl_length t = n_half * (1 / 2 * (wavelength * tl_vf t))" and "pole_at n_half = Some p"
  shows "\<exists>s \<in> set ss. su_ends s = [tl_a t, tl_b t] \<and> su_pole s = p \<and> su_length s = n_half / 2"
proof -
  obtain f_mhz sss where sss: "mapE (suspect_of rd wavelength f_mhz)
      (zip (nw_branches (rd_network rd)) (nw_branch_paths (rd_network rd))) = Inr sss" and ss: "ss = concat sss"
    using assms(1) by (auto simp: suspects_def okE)
  obtain i where i: "i < length (zip (nw_branches (rd_network rd)) (nw_branch_paths (rd_network rd)))"
    "zip (nw_branches (rd_network rd)) (nw_branch_paths (rd_network rd)) ! i = (TL t, path)"
    using assms(2) unfolding in_set_conv_nth by blast
  have one: "suspect_of rd wavelength f_mhz (TL t, path) = Inr (sss ! i)"
    using mapE_nth [OF sss i(1)] i(2) by simp
  have line: "line_of (TL t) = Some (tl_z0 t, tl_length t, tl_vf t, tl_k1 t, tl_k2 t, [tl_a t, tl_b t])"
    by (simp add: line_of_def)
  have hangs: "list_ex (\<lambda>e. \<exists>k \<in> open_ended_nodes rd. rd_port_to_idx rd e = Some k) [tl_a t, tl_b t]"
    using assms(5) hanging_end_is_open set_zip_leftD [OF assms(2)] by auto
  obtain q where q: "divE (tl_length t) (1 / 2 * (wavelength * tl_vf t)) = Inr q"
    and "sss ! i = (case pole_at q of None \<Rightarrow> []
      | Some p \<Rightarrow> [\<lparr>su_path = butlast path, su_ends = [tl_a t, tl_b t], su_length = q / 2, su_mhz = f_mhz, su_pole = p, su_z0 = tl_z0 t\<rparr>])"
  proof -
    have step: "suspect_of rd wavelength f_mhz (TL t, path) =
        bindE (divE (tl_length t) (1 / 2 * (wavelength * tl_vf t))) (\<lambda>q.
          case pole_at q of None \<Rightarrow> Inr []
          | Some p \<Rightarrow> Inr [\<lparr>su_path = butlast path, su_ends = [tl_a t, tl_b t], su_length = q / 2, su_mhz = f_mhz,
              su_pole = p, su_z0 = tl_z0 t\<rparr>])"
      unfolding suspect_of_def line split option.case using hangs assms(3,4) by (simp only: simp_thms if_False)
    show thesis
      using one [unfolded step bindE_eq_Inr] that by (auto split: option.splits)
  qed
  moreover have "q = n_half"
    using q assms(6) by (auto simp: divE_def split: if_splits)
  ultimately have "\<exists>s \<in> set (sss ! i). su_ends s = [tl_a t, tl_b t] \<and> su_pole s = p \<and> su_length s = n_half / 2"
    using assms(7) by simp
  moreover have "set (sss ! i) \<subseteq> set ss"
    using i(1) mapE_length [OF sss] by (force simp: ss)
  ultimately show ?thesis
    by blast
qed

end
