(* ===== verification/Network_Names.thy ===== *)
theory Network_Names
  imports Network_Reducer
begin

text \<open>
  Where a KeyError can come from.  A validated network names only ports it has, so a look-up that
  fails is one of the code's own: of a terminal \<open>p.p\<close> or \<open>p.n\<close> where only ports are kept.
\<close>

named_theorems missing_rules \<open>what a failed look-up names\<close>

definition missing :: "(string \<Rightarrow> bool) \<Rightarrow> net_exn + 'a \<Rightarrow> bool" where
  "missing P r \<longleftrightarrow> (\<forall>x. r = Inl (UnknownName x) \<longrightarrow> P x)"

lemma missing_Inr [simp]: "missing P (Inr a)"
  by (simp add: missing_def)

lemma missing_Inl [simp]: "missing P (Inl e) \<longleftrightarrow> (\<forall>x. e = UnknownName x \<longrightarrow> P x)"
  by (simp add: missing_def)

lemma missing_bind [missing_rules]:
  "missing P m \<Longrightarrow> (\<And>a. m = Inr a \<Longrightarrow> missing P (f a)) \<Longrightarrow> missing P (bindE m f)"
  by (cases m) (simp_all add: missing_def)

lemma missing_guard [simp]: "missing P (guardE b e) \<longleftrightarrow> (b \<longrightarrow> missing P (Inl e :: net_exn + unit))"
  by (simp add: guardE_def)

lemma missing_if [missing_rules]: "(b \<Longrightarrow> missing P m) \<Longrightarrow> (\<not> b \<Longrightarrow> missing P n) \<Longrightarrow> missing P (if b then m else n)"
  by simp

lemma missing_option [missing_rules]:
  "(x = None \<Longrightarrow> missing P m) \<Longrightarrow> (\<And>a. x = Some a \<Longrightarrow> missing P (f a)) \<Longrightarrow>
   missing P (case x of None \<Rightarrow> m | Some a \<Rightarrow> f a)"
  by (cases x) simp_all

lemma missing_cvalue [missing_rules]:
  "(\<And>z. x = Finite z \<Longrightarrow> missing P (f z)) \<Longrightarrow> (x = CInf \<Longrightarrow> missing P m) \<Longrightarrow>
   missing P (case x of Finite z \<Rightarrow> f z | CInf \<Rightarrow> m)"
  by (cases x) simp_all

lemma missing_prod [missing_rules]: "missing P (f (fst x) (snd x)) \<Longrightarrow> missing P (case x of (a, b) \<Rightarrow> f a b)"
  by (cases x) simp

lemma missing_some_or [missing_rules]: "(\<And>a. x = Some a \<Longrightarrow> missing P (f a)) \<Longrightarrow> missing P (some_or x f d)"
  by (cases x) (simp_all add: some_or_def)

lemma missing_foldE: "(\<And>s x. x \<in> set xs \<Longrightarrow> missing P (f s x)) \<Longrightarrow> missing P (foldE f s xs)"
  by (induction xs arbitrary: s) (auto intro!: missing_rules)

lemma missing_mapE: "(\<And>x. x \<in> set xs \<Longrightarrow> missing P (f x)) \<Longrightarrow> missing P (mapE f xs)"
  by (induction xs) (auto intro!: missing_rules)

lemma missing_lookup [missing_rules]: "(m x = None \<Longrightarrow> P x) \<Longrightarrow> missing P (lookupE m x)"
  by (cases "m x") (auto simp: lookupE_def)

lemma missing_divE [missing_rules]: "missing P (divE a b)"
  by (simp add: divE_def)

lemma missing_np_div [missing_rules]: "missing P (np_div a b)"
  by (simp add: np_div_def)

section \<open>Values\<close>

lemma missing_coil [missing_rules]: "missing P (coil l ql \<omega>)"
  unfolding coil_def by (intro missing_rules missing_Inr)

lemma missing_parallel [missing_rules]: "missing P (parallel_rlc_admittance lg \<omega>)"
  unfolding parallel_rlc_admittance_def by (intro missing_rules missing_Inr)

lemma missing_series [missing_rules]: "missing P (series_rlc_impedance lg \<omega>)"
  unfolding series_rlc_impedance_def by (intro missing_rules missing_Inr)

lemma missing_load_admittance [missing_rules]: "missing P (load_series_admittance lg par z \<omega>)"
  unfolding load_series_admittance_def by (intro missing_rules missing_Inr)

lemma missing_load_impedance [missing_rules]: "missing P (load_impedance_of lg par z \<omega>)"
  unfolding load_impedance_of_def by (intro missing_rules missing_Inr)

lemma missing_frequency [missing_rules]: "missing P (frequency_mhz wavelength c)"
  unfolding frequency_mhz_def by (intro missing_rules missing_Inr)

lemma missing_tl_abcd [missing_rules]: "missing P (tl_abcd z0 len wavelength vf k1 k2 c)"
proof -
  have "missing P (tl_gamma_l len wavelength vf k1 k2 c)" for P
    unfolding tl_gamma_l_def Let_def by (intro missing_rules missing_Inr) simp
  then show ?thesis
    unfolding tl_abcd_def Let_def by (intro missing_rules missing_Inr)
qed

lemma missing_series_group2 [missing_rules]: "missing P (series_group2 a b lg \<omega> emf)"
  unfolding series_group2_def by (intro missing_rules missing_Inr)

lemma missing_magnetizing [missing_rules]: "missing P (magnetizing_impedance m \<omega>)"
  unfolding magnetizing_impedance_def by (intro missing_rules missing_Inr)

lemma missing_add_magnetizing [missing_rules]: "missing P (add_magnetizing k m \<omega> probe st)"
  unfolding add_magnetizing_def by (intro missing_rules missing_Inr)

section \<open>Branches and terminations\<close>

definition unmapped :: "reducer \<Rightarrow> branch \<Rightarrow> string \<Rightarrow> bool" where
  \<comment> \<open>a name of the branch without a node, or without a port for a Load to sit at\<close>
  "unmapped rd br x \<longleftrightarrow> x \<in> set (branch_port_refs br) \<and>
     (rd_port_to_idx rd x = None \<or>
      (\<exists>lg par z. br = Load x lg par z) \<and> map_of (nw_ports (rd_network rd)) x = None)"

lemma missing_stamp_branch: "missing (unmapped rd br) (stamp_branch rd wavelength f_hz \<omega> st (i, br, path))"
proof (cases br)
  case (Admittance ps y)
  have "missing (unmapped rd br) (mapE (lookupE (rd_port_to_idx rd)) ps)"
    by (rule missing_mapE) (auto intro!: missing_rules simp: unmapped_def branch_port_refs_def Admittance)
  then show ?thesis
    unfolding stamp_branch_def Let_def by (auto simp: Admittance intro!: missing_rules)
qed (auto simp: stamp_branch_def stamp_tl_def stamp_balanced_def stamp_autotransformer_def Let_def
    unmapped_def branch_port_refs_def intro!: missing_rules)

lemma missing_close_node: "missing P (close_node \<omega> z_ref r emf forced cl k)"
proof -
  have zs: "missing P (mapE (\<lambda>(_, lg, par, z, _, _). load_impedance_of lg par z \<omega>) loads)"
    for P and loads :: "series_load list"
    by (rule missing_mapE) (auto intro: missing_rules)
  have source: "missing P (source_element k e zr loads zs \<omega>)" for P e zr loads zs
    unfolding source_element_def
    by (auto intro!: missing_rules split: list.split bool.split)
  show ?thesis
    unfolding close_node_def Let_def by (intro missing_rules zs source missing_Inr) simp
qed

lemma missing_apply_branches:
  "missing (\<lambda>x. \<exists>br \<in> set (nw_branches (rd_network rd)). unmapped rd br x) (apply_branches rd n_real Y wavelength z_ref)"
proof -
  let ?P = "\<lambda>x. \<exists>br \<in> set (nw_branches (rd_network rd)). unmapped rd br x"
  have "missing ?P (stamp_branch rd wavelength f_hz \<omega> st ibp)"
    if "ibp \<in> set (enumerate 0 (zip (nw_branches (rd_network rd)) (nw_branch_paths (rd_network rd))))" for f_hz \<omega> st ibp
  proof -
    obtain i br path where ibp: "ibp = (i, br, path)"
      by (cases ibp)
    have "snd ibp \<in> set (map snd (enumerate 0 (zip (nw_branches (rd_network rd)) (nw_branch_paths (rd_network rd)))))"
      unfolding set_map by (rule imageI [OF that])
    then have "br \<in> set (nw_branches (rd_network rd))"
      unfolding ibp map_snd_enumerate by (auto dest: set_zip_leftD)
    then show ?thesis
      using missing_stamp_branch [of rd br wavelength f_hz \<omega> st i path] by (auto simp: missing_def ibp)
  qed
  then have stamps: "missing ?P (stamp_branches rd n_real Y wavelength)"
    unfolding stamp_branches_def frequency_of_def Let_def
    by (intro missing_rules missing_foldE missing_Inr)
  have "missing ?P (terminate rd \<omega> z_ref st)" for \<omega> st
    unfolding terminate_def Let_def by (intro missing_rules missing_foldE missing_close_node) simp
  then show ?thesis
    unfolding apply_branches_def Let_def by (intro missing_rules missing_Inr stamps)
qed

section \<open>Validated networks\<close>

definition terminal :: "(string \<times> port) list \<Rightarrow> string \<Rightarrow> bool" where
  \<comment> \<open>one of the two nodes of a floating port\<close>
  "terminal ports x \<longleftrightarrow> (\<exists>(name, p) \<in> set ports. is_floating p \<and> (x = name @ ''.p'' \<or> x = name @ ''.n''))"

lemma node_names_cases: "x \<in> node_names ports \<Longrightarrow> x \<in> fst ` set ports \<or> terminal ports x"
proof -
  have "x \<in> fold (\<lambda>(name, p) S. if is_floating p then insert (name @ ''.p'') (insert (name @ ''.n'') (S - {name})) else S) ps S
      \<Longrightarrow> set ps \<subseteq> set ports \<Longrightarrow> x \<in> S \<or> terminal ports x" for ps S
  proof (induction ps arbitrary: S)
    case (Cons kp ps)
    obtain name p where "kp = (name, p)"
      by (cases kp)
    then show ?case
      using Cons by (fastforce simp: terminal_def split: if_splits)
  qed simp
  then show "x \<in> node_names ports \<Longrightarrow> x \<in> fst ` set ports \<or> terminal ports x"
    unfolding node_names_def by blast
qed

lemma firstE_Inr: "firstE f xs = Inr u \<Longrightarrow> x \<in> set xs \<Longrightarrow> f x = None"
  by (induction xs) (auto split: option.splits)

lemma firstE_missing: "(\<And>x e. x \<in> set xs \<Longrightarrow> f x = Some e \<Longrightarrow> missing P (Inl e :: net_exn + unit)) \<Longrightarrow> missing P (firstE f xs)"
  by (induction xs) (auto split: option.splits)

lemma mk_network_fields:
  assumes "mk_network ports branches sources paths = Inr nw"
  shows "nw_ports nw = ports" and "nw_branches nw = branches" and "nw_sources nw = sources"
    and "br \<in> set branches \<Longrightarrow> x \<in> set (branch_port_refs br) \<Longrightarrow> x \<in> node_names ports"
    and "s \<in> set sources \<Longrightarrow> src_port s \<in> node_names ports"
    and "length (nw_branch_paths nw) = length branches" and "sources \<noteq> []"
proof -
  note parts = assms [unfolded mk_network_def bindE_eq_Inr guardE_eq_Inr]
  show "nw_ports nw = ports" "nw_branches nw = branches" "nw_sources nw = sources"
    "length (nw_branch_paths nw) = length branches" "sources \<noteq> []"
    using parts by auto
  show "x \<in> node_names ports" if "br \<in> set branches" "x \<in> set (branch_port_refs br)"
  proof -
    have "x \<in> set (concat (map branch_port_refs branches))"
      using that by auto
    then show ?thesis
      using parts firstE_Inr by (auto dest!: firstE_Inr [where x = x] split: if_splits)
  qed
  show "src_port s \<in> node_names ports" if "s \<in> set sources"
    using parts that
    by (auto simp: source_check_def Let_def dest!: firstE_Inr [where x = s] split: if_splits option.splits port.splits)
qed

lemma terminals_mapped:
  assumes "foldE add_terminal (idx, fl, m) ports = Inr (idx', fl', m')"
  shows "(\<forall>x. idx x \<noteq> None \<longrightarrow> idx' x \<noteq> None) \<and> (\<forall>x. terminal ports x \<longrightarrow> idx' x \<noteq> None)"
  using assms
proof (induction ports arbitrary: idx fl m)
  case (Cons kp ports)
  obtain name p where kp: "kp = (name, p)"
    by (cases kp)
  obtain idx1 fl1 m1 where one: "add_terminal (idx, fl, m) (name, p) = Inr (idx1, fl1, m1)"
    and rest: "foldE add_terminal (idx1, fl1, m1) ports = Inr (idx', fl', m')"
    using Cons.prems by (auto simp: kp okE)
  have "\<forall>x. idx x \<noteq> None \<longrightarrow> idx1 x \<noteq> None"
    "is_floating p \<longrightarrow> idx1 (name @ ''.p'') \<noteq> None \<and> idx1 (name @ ''.n'') \<noteq> None"
    using one by (auto simp: add_terminal_def okE split: if_splits)
  then show ?case
    using Cons.IH [OF rest] by (auto simp: terminal_def kp)
qed (simp add: terminal_def)

lemma unknown_name_is_terminal:
  assumes nw: "mk_network ports branches sources paths = Inr nw"
    and idx: "\<forall>name \<in> fst ` set ports. idx name \<noteq> None"
  shows "mk_reducer nw idx n_total c = Inl (UnknownName x) \<Longrightarrow> terminal ports x \<and> x \<in> src_port ` set sources"
    and "mk_reducer nw idx n_total c = Inr rd \<Longrightarrow> driven_impedance zgesvx rd n_real Y wavelength z_ref = Inl (UnknownName x) \<Longrightarrow>
      terminal ports x \<and> (\<exists>lg par z. Load x lg par z \<in> set branches)"
proof -
  note fields = mk_network_fields [OF nw]
  have named: "terminal ports x" if "x \<in> node_names ports" "idx x = None" for x
    using node_names_cases [OF that(1)] idx that(2) by blast
  have mapped: "missing P (foldE add_terminal (m, fl, n) ps)"
    if "\<forall>kp \<in> set ps. m (fst kp) \<noteq> None" for P m fl n ps
    using that
  proof (induction ps arbitrary: m fl n)
    case (Cons kp ps)
    obtain name p where kp: "kp = (name, p)"
      by (cases kp)
    show ?case
    proof (cases "is_floating p")
      case True
      obtain k where "m name = Some k"
        using Cons.prems kp by auto
      then have one: "add_terminal (m, fl, n) (name, p) =
          Inr (m(name @ ''.p'' \<mapsto> k, name @ ''.n'' \<mapsto> n), fl @ [(name, k, n)], Suc n)"
        using True by (simp add: add_terminal_def lookupE_def)
      have "missing P (foldE add_terminal (m(name @ ''.p'' \<mapsto> k, name @ ''.n'' \<mapsto> n), fl @ [(name, k, n)], Suc n) ps)"
        using Cons.prems by (intro Cons.IH) auto
      then show ?thesis
        by (simp add: kp one)
    next
      case False
      then have one: "add_terminal (m, fl, n) (name, p) = Inr (m, fl, n)"
        by (simp add: add_terminal_def)
      have "missing P (foldE add_terminal (m, fl, n) ps)"
        using Cons.prems by (intro Cons.IH) auto
      then show ?thesis
        by (simp add: kp one)
    qed
  qed simp
  have "missing (\<lambda>x. terminal ports x \<and> x \<in> src_port ` set sources) (mk_reducer nw idx n_total c)"
    unfolding mk_reducer_def fields(1,3)
    by (intro missing_rules missing_mapE mapped firstE_missing missing_Inr)
      (use idx named fields(5) in \<open>auto split: if_splits\<close>)
  then show "mk_reducer nw idx n_total c = Inl (UnknownName x) \<Longrightarrow> terminal ports x \<and> x \<in> src_port ` set sources"
    by (simp add: missing_def)
  show "terminal ports x \<and> (\<exists>lg par z. Load x lg par z \<in> set branches)"
    if rd: "mk_reducer nw idx n_total c = Inr rd"
      and x: "driven_impedance zgesvx rd n_real Y wavelength z_ref = Inl (UnknownName x)"
  proof -
    have "missing P (solve zgesvx s)" "missing P (port_impedance s v j d)" for P s v j d
      by (auto simp: solve_def port_impedance_def ending_of_def split: prod.split option.split intro!: missing_rules)
    then have "missing P (impedance_from_y zgesvx rd s)" for P s
      unfolding impedance_from_y_def by (intro missing_rules missing_mapE)
    then have "missing (\<lambda>x. \<exists>br \<in> set (nw_branches (rd_network rd)). unmapped rd br x)
        (driven_impedance zgesvx rd n_real Y wavelength z_ref)"
      unfolding driven_impedance_def by (intro missing_rules missing_apply_branches)
    then obtain br where br: "br \<in> set (nw_branches (rd_network rd))" "unmapped rd br x"
      using x by (auto simp: missing_def)
    obtain fl m where terms: "foldE add_terminal (idx, [], n_total) ports = Inr (rd_port_to_idx rd, fl, m)"
      and net: "rd_network rd = nw"
      using rd by (auto simp: mk_reducer_def okE fields(1))
    have ref: "x \<in> node_names ports"
      using br fields(2,4) by (auto simp: net unmapped_def)
    then have "rd_port_to_idx rd x \<noteq> None"
      using terminals_mapped [OF terms] named idx by blast
    then have load: "\<exists>lg par z. br = Load x lg par z" and none: "map_of ports x = None"
      using br(2) by (auto simp: unmapped_def net fields(1) branch_port_refs_def)
    have "x \<notin> fst ` set ports"
      using none by (simp add: map_of_eq_None_iff)
    then have "terminal ports x"
      using node_names_cases [OF ref] by blast
    then show ?thesis
      using load br(1) by (auto simp: net fields(2))
  qed
qed

end
