(* ===== verification/Network_Wellformed.thy ===== *)
theory Network_Wellformed
  imports Network_Balance Network_Names
begin

text \<open>The reducer that the constructors return is well formed, in the sense the laws of the circuit need.\<close>

definition floating_names :: "(string \<times> port) list \<Rightarrow> string set" where
  "floating_names ports = {name. \<exists>p. (name, p) \<in> set ports \<and> is_floating p}"

text \<open>The floating ports get consecutive nodes.\<close>

lemma floats_added:
  assumes "foldE add_terminal (m, fl, N) ps = Inr (m', fl', N')"
    and "\<forall>x \<in> floating_names ps. m x = idx x \<and> \<not> terminal ps x" and "distinct (map fst ps)"
    and "\<forall>x k. m x = Some k \<longrightarrow> k < N"
  shows "\<exists>fs. fl' = fl @ fs \<and> N' = N + length fs \<and> distinct (map fst fs) \<and> fst ` set fs = floating_names ps \<and>
    (\<forall>i < length fs. idx (fst (fs ! i)) = Some (fst (snd (fs ! i))) \<and> snd (snd (fs ! i)) = N + i) \<and>
    (\<forall>x k. m' x = Some k \<longrightarrow> k < N')"
  using assms
proof (induction ps arbitrary: m fl N)
  case Nil
  then show ?case
    by (auto simp: floating_names_def)
next
  case (Cons kp ps)
  obtain name p where kp: "kp = (name, p)"
    by (cases kp)
  have sub: "\<not> terminal ps x" if "\<not> terminal (kp # ps) x" for x
    using that by (auto simp: terminal_def)
  show ?case
  proof (cases "is_floating p")
    case False
    then have "floating_names (kp # ps) = floating_names ps"
      by (auto simp: floating_names_def kp)
    moreover have "add_terminal (m, fl, N) (name, p) = Inr (m, fl, N)"
      using False by (simp add: add_terminal_def)
    then have "foldE add_terminal (m, fl, N) ps = Inr (m', fl', N')"
      using Cons.prems(1) by (simp add: kp)
    ultimately show ?thesis
      using Cons.IH [of m fl N] Cons.prems sub by simp
  next
    case True
    let ?m = "\<lambda>k. m(name @ ''.p'' \<mapsto> k, name @ ''.n'' \<mapsto> N)"
    have names: "floating_names (kp # ps) = insert name (floating_names ps)"
      using True by (auto simp: floating_names_def kp)
    obtain k where k: "m name = Some k" and rest: "foldE add_terminal (?m k, fl @ [(name, k, N)], Suc N) ps = Inr (m', fl', N')"
    proof -
      obtain st where step: "add_terminal (m, fl, N) (name, p) = Inr st"
        and rest: "foldE add_terminal st ps = Inr (m', fl', N')"
        using Cons.prems(1) by (auto simp: kp okE)
      obtain k where k: "m name = Some k" and st: "st = (?m k, fl @ [(name, k, N)], Suc N)"
        using step True by (auto simp: okE add_terminal_def lookupE_def split: option.splits)
      show thesis
        by (rule that [OF k rest [unfolded st]])
    qed
    have "x \<noteq> name @ ''.p'' \<and> x \<noteq> name @ ''.n''" if "x \<in> floating_names ps" for x
    proof -
      have "terminal (kp # ps) (name @ ''.p'')" "terminal (kp # ps) (name @ ''.n'')"
        using True by (simp_all add: terminal_def kp)
      then show ?thesis
        using Cons.prems(2) that unfolding names by blast
    qed
    then have "\<forall>x \<in> floating_names ps. ?m k x = idx x \<and> \<not> terminal ps x"
      using Cons.prems(2) sub by (simp add: names)
    moreover have "\<forall>x l. ?m k x = Some l \<longrightarrow> l < Suc N"
      using Cons.prems(4) k by (auto simp: less_Suc_eq)
    ultimately obtain fs where fs: "fl' = (fl @ [(name, k, N)]) @ fs" "N' = Suc N + length fs" "distinct (map fst fs)"
        "fst ` set fs = floating_names ps"
        "\<forall>i < length fs. idx (fst (fs ! i)) = Some (fst (snd (fs ! i))) \<and> snd (snd (fs ! i)) = Suc N + i"
        "\<forall>x k. m' x = Some k \<longrightarrow> k < N'"
      using Cons.IH [OF rest] Cons.prems(3) by auto
    have "name \<notin> floating_names ps"
      using Cons.prems(3) by (force simp: floating_names_def kp)
    moreover have "idx name = Some k"
      using Cons.prems(2) k by (simp add: names)
    moreover have "idx (fst (((name, k, N) # fs) ! i)) = Some (fst (snd (((name, k, N) # fs) ! i))) \<and>
        snd (snd (((name, k, N) # fs) ! i)) = N + i" if "i < length ((name, k, N) # fs)" for i
      using that fs(5) \<open>idx name = Some k\<close> by (cases i) auto
    ultimately show ?thesis
      using fs by (intro exI [of _ "(name, k, N) # fs"]) (auto simp: names)
  qed
qed

lemma constructed_reducer_is_wf:
  assumes nw: "mk_network ports branches sources paths = Inr nw" and rd: "mk_reducer nw idx n_total c = Inr rd"
    and idx: "\<forall>x k. idx x = Some k \<longrightarrow> k < n_total"
    and names: "distinct (map fst ports)" "\<forall>x \<in> floating_names ports. \<not> terminal ports x"
    and gaps: "inj_on idx (floating_names ports)" "\<forall>x \<in> floating_names ports. \<forall>k. idx x = Some k \<longrightarrow> k < n_real"
      "n_real \<le> n_total"
  shows "wf_reducer rd \<and> wf_gaps rd n_real"
proof -
  note fields = mk_network_fields [OF nw]
  obtain m fl N driven where fold: "foldE add_terminal (idx, [], n_total) ports = Inr (m, fl, N)"
    and driven: "mapE (\<lambda>s. bindE (lookupE idx (src_port s)) (\<lambda>k. Inr (k, drive_of s))) sources = Inr driven"
    and parts: "rd_network rd = nw" "rd_port_to_idx rd = m" "rd_floating rd = fl" "rd_n_nodes rd = N" "rd_driven rd = driven"
    using rd by (auto simp: mk_reducer_def okE fields(1,3))
  obtain fs where fs: "fl = fs" "N = n_total + length fs" "distinct (map fst fs)" "fst ` set fs = floating_names ports"
      "\<forall>i < length fs. idx (fst (fs ! i)) = Some (fst (snd (fs ! i))) \<and> snd (snd (fs ! i)) = n_total + i"
      "\<forall>x k. m x = Some k \<longrightarrow> k < N"
  proof -
    have "\<forall>x \<in> floating_names ports. idx x = idx x \<and> \<not> terminal ports x"
      using names(2) by blast
    from floats_added [OF fold this names(1) idx] show thesis
      using that by auto
  qed
  have "fst d < N" if d: "d \<in> set driven" for d
  proof -
    obtain s where "bindE (lookupE idx (src_port s)) (\<lambda>k. Inr (k, drive_of s)) = Inr d"
      using driven d unfolding mapE_eq_Inr in_set_conv_nth list_all2_conv_all_nth by auto
    then have "idx (src_port s) = Some (fst d)"
      by (auto simp: okE lookupE_def split: option.splits)
    then show ?thesis
      using idx fs(2) by (meson trans_less_add1)
  qed
  then have "wf_reducer rd"
    using fs(6) fields(2,6) by (simp add: wf_reducer_def nodes_below_def parts)
  moreover have "wf_gaps rd n_real"
  proof -
    have entry: "idx (fst f) = Some (fst (snd f)) \<and> fst f \<in> floating_names ports" if "f \<in> set fs" for f
      using that fs(5) unfolding fs(4) [symmetric] by (auto simp: in_set_conv_nth)
    have "map idx (map fst fs) = map Some (map (fst \<circ> snd) fs)"
      using entry by simp
    moreover have "distinct (map idx (map fst fs))"
      by (subst distinct_map) (use fs(3,4) gaps(1) in simp)
    ultimately have "distinct (map (fst \<circ> snd) fs)"
      by (metis distinct_map)
    moreover have "p < n_real \<and> n_real \<le> n \<and> n < N" if "(name, p, n) \<in> set fs" for name p n
    proof -
      obtain i where "i < length fs" "fs ! i = (name, p, n)"
        using \<open>(name, p, n) \<in> set fs\<close> by (auto simp: in_set_conv_nth)
      then have "n = n_total + i" "i < length fs"
        using fs(5) by auto
      then show ?thesis
        using entry [OF \<open>(name, p, n) \<in> set fs\<close>] gaps(2,3) fs(2) by auto
    qed
    ultimately show ?thesis
      using gaps(3) fs(1,2) by (auto simp: wf_gaps_def parts)
  qed
  ultimately show ?thesis
    by blast
qed

end
