(* ===== verification/Network_Properties.thy ===== *)
theory Network_Properties
  imports Network_Example Network_Diagnosis Network_Wellformed
begin

text \<open>The numbered properties of the circuit networks.\<close>

text \<open>C7: The assembled system is the circuit.  Let the reducer be well formed, as the constructors make it: nodes and
  sources in range, one path for each branch.  Voltages and currents then solve the equations that
  apply_branches puts together exactly when every branch and
  every termination obeys its own law and Kirchhoff's current law holds at every node, with what the
  antenna draws on one side and what the terminations deliver on the other.  The branches are
  the network's own when no Admittance and no TouchstoneTwoPort names a node twice; where
  one does, its matrix has only the entries the stamp keeps, those for the last mention of each node.\<close>

theorem system_is_circuit:
  assumes "apply_branches rd n_real Y wavelength z_ref = Inr s" and "wf_reducer rd"
    and "frequency_of rd wavelength = Inr f_hz"
  shows "(solves s v j \<longleftrightarrow> circuit (assembled rd) n_real Y wavelength z_ref f_hz v j) \<and>
    (list_all (apart rd) (nw_branches (rd_network rd)) \<longrightarrow>
      (solves s v j \<longleftrightarrow> circuit rd n_real Y wavelength z_ref f_hz v j))"
  using solves_circuit [OF assms] circuit_assembled by blast

theorem system_is_circuit_witness:
  "circuit ex_reducer 1 ex_Y 1 50 c_light (\<lambda>i. if i = 0 then 1 / 5 else 1 / 125) (\<lambda>_. 1 / 125) \<and>
   \<not> circuit ex_reducer 1 ex_Y 1 50 c_light (\<lambda>_. 1) (\<lambda>_. 1)"
proof -
  have sys: "solves (ex_system 50) v j \<longleftrightarrow> circuit ex_reducer 1 ex_Y 1 50 c_light v j" for v j
    using system_is_circuit [OF ex_applied ex_wf(1) ex_frequency] ex_apart by blast
  have "solve cramer2 (ex_system 50) = Inr (\<lambda>i. if i = 0 then 1 / 5 else 1 / 125, \<lambda>k. 1 / 125)"
    using ex_solved [of 50] by (simp add: fun_eq_iff)
  then have "solves (ex_system 50) (\<lambda>i. if i = 0 then 1 / 5 else 1 / 125) (\<lambda>_. 1 / 125)"
    by (rule solve_sound(2) [OF _ cramer2_sound])
  moreover have "\<not> solves (ex_system 50) (\<lambda>_. 1) (\<lambda>_. 1)"
    unfolding solves_def ex_matrix(7) below_two row_sum_2 ex_matrix by (simp add: joined_def)
  ultimately show ?thesis
    unfolding sys by blast
qed

text \<open>C8: No power is lost.  For a well-formed reducer whose floating ports have different gaps, and no Admittance or
  TouchstoneTwoPort that names a node twice: in every state excited_state returns, the power the
  sources put in, less every line
  of the budget (each branch, each magnetizing leg, each load), is the power into the antenna at the
  gap voltages returned with it.\<close>

theorem power_balances:
  assumes "sound_solver zgesvx" and "wf_reducer rd" and "wf_gaps rd n_real"
    and "list_all (apart rd) (nw_branches (rd_network rd))"
    and "excited_state zgesvx rd n_real Y wavelength = Inr ex"
  shows "ex_p_in ex - sum_list (map (fst \<circ> snd) (ex_budget ex)) = antenna_power n_real Y (ex_voltages ex)"
proof -
  obtain s v j where s: "apply_branches rd n_real Y wavelength 0 = Inr s" and "solve zgesvx s = Inr (v, j)"
    and read: "power_readout rd s v j = Inr ex"
    using assms(5) by (auto simp: excited_state_def okE)
  then have "solves s v j"
    using solve_sound(2) assms(1) by blast
  from power_is_balanced [OF s assms(2,3) this assms(4)] show ?thesis
    using read by auto
qed

theorem power_balances_witness:
  "antenna_power 1 ex_Y (\<lambda>i. if i = 0 then 1 / 3 else 1 / 75) = 1 / 150 - (1 / 900 + 1 / 225)"
  using power_balances [OF cramer2_sound ex_wf ex_apart ex_state] by simp

text \<open>C9: The impedance at a source does not depend on the reference impedance the system was assembled with.
  Two calls of driven_impedance that both succeed return the same list, at every port, whatever
  their references.\<close>

theorem impedance_ignores_reference:
  assumes "sound_solver zgesvx" and "wf_reducer rd"
    and "driven_impedance zgesvx rd n_real Y wavelength z1 = Inr zs1"
    and "driven_impedance zgesvx rd n_real Y wavelength z2 = Inr zs2"
  shows "zs1 = zs2"
proof -
  obtain s1 s2 where
    1: "apply_branches rd n_real Y wavelength (or_else z1 z_ref_default) = Inr s1" "impedance_from_y zgesvx rd s1 = Inr zs1" and
    2: "apply_branches rd n_real Y wavelength (or_else z2 z_ref_default) = Inr s2" "impedance_from_y zgesvx rd s2 = Inr zs2"
    using assms(3,4) by (auto simp: driven_impedance_def okE)
  show ?thesis
  proof (cases "reference_node rd")
    case None
    then show ?thesis
      using apply_branches_unreferenced [OF 1(1) 2(1)] 1(2) 2(2) by (simp add: impedance_unreferenced)
  next
    case (Some k)
    then show ?thesis
      by (rule impedance_any_reference [OF assms(1,2) 1 2])
  qed
qed

theorem impedance_ignores_reference_witness:
  "driven_impedance cramer2 ex_reducer 1 ex_Y 1 (Some 7) = driven_impedance cramer2 ex_reducer 1 ex_Y 1 None"
proof -
  have one: "driven_impedance cramer2 ex_reducer 1 ex_Y 1 (Some 7) = Inr [Finite 75]"
    unfolding driven_impedance_def ex_applied or_else_def by (simp add: ex_impedance)
  have two: "driven_impedance cramer2 ex_reducer 1 ex_Y 1 None = Inr [Finite 75]"
    unfolding driven_impedance_def ex_applied or_else_def by (simp add: ex_impedance z_ref_default_def)
  show ?thesis
    using impedance_ignores_reference [OF cramer2_sound ex_wf(1) one two] one two by simp
qed

text \<open>C10: A reflection is the wave of the impedance: what driven_reflection computes from the solved currents,
  without forming an impedance, is (Z - z) / (Z + z) of what driven_impedance returns for the same reference z,
  and 1 at an open port.\<close>

theorem reflection_is_wave:
  assumes "wf_reducer rd" and "driven_impedance zgesvx rd n_real Y wavelength z = Inr zs"
    and "driven_reflection zgesvx rd n_real Y wavelength z = Inr gs"
  shows "list_all2 (\<lambda>Z g. wave_of (or_else z z_ref_default) Z = Inr g) zs gs"
proof -
  let ?z = "or_else z z_ref_default"
  obtain s where s: "apply_branches rd n_real Y wavelength ?z = Inr s" "impedance_from_y zgesvx rd s = Inr zs"
    and r: "reflection_from_y zgesvx rd s = Inr gs"
    using assms(2,3) by (auto simp: driven_impedance_def driven_reflection_def okE)
  obtain v j where sol: "solve zgesvx s = Inr (v, j)" and zs: "mapE (port_impedance s v j) (rd_driven rd) = Inr zs"
    using s(2) by (auto simp: impedance_from_y_def okE)
  then have gs: "mapE (port_reflection s j) (zip (rd_driven rd) zs) = Inr gs"
    using r by (auto simp: reflection_from_y_def okE)
  have ref: "ms_z_ref s = ?z" "ms_z_ref_at s k = None \<or> ms_z_ref_at s k = Some (ms_z_ref s)" for k
    using apply_branches_records [OF s(1) assms(1)] by auto
  show ?thesis
  proof (rule list_all2I)
    show "\<forall>(Z, g) \<in> set (zip zs gs). wave_of ?z Z = Inr g"
    proof (clarsimp simp: set_zip)
      fix i
      assume i: "i < length zs" "i < length gs"
      obtain k kind a where d: "rd_driven rd ! i = (k, kind, a)"
        by (cases "rd_driven rd ! i")
      have "port_impedance s v j (k, kind, a) = Inr (zs ! i)"
        using mapE_nth [OF zs, of i] mapE_length [OF zs] i d by simp
      moreover have "port_reflection s j ((k, kind, a), zs ! i) = Inr (gs ! i)"
        using mapE_nth [OF gs, of i] mapE_length [OF gs] mapE_length [OF zs] i d by simp
      ultimately show "wave_of ?z (zs ! i) = Inr (gs ! i)"
        using port_reflection_is_wave ref by metis
    qed
    show "length zs = length gs"
      using mapE_length [OF gs] mapE_length [OF zs] by simp
  qed
qed

theorem reflection_is_wave_witness:
  "driven_reflection cramer2 ex_reducer 1 ex_Y 1 None = Inr [1 / 5] \<and> wave_of 50 (Finite 75) = Inr (1 / 5)"
proof -
  have imp: "driven_impedance cramer2 ex_reducer 1 ex_Y 1 None = Inr [Finite 75]"
    unfolding driven_impedance_def ex_applied or_else_def by (simp add: ex_impedance z_ref_default_def)
  have "solve cramer2 (ex_system 50) = Inr (\<lambda>i. if i = 0 then 1 / 5 else 1 / 125, \<lambda>k. 1 / 125)"
    using ex_solved [of 50] by (simp add: fun_eq_iff)
  then have refl: "driven_reflection cramer2 ex_reducer 1 ex_Y 1 None = Inr [1 / 5]"
    unfolding driven_reflection_def ex_applied or_else_def z_ref_default_def
    by (simp add: reflection_from_y_def)
      (simp add: ex_reducer_def port_impedance_def port_reflection_def ending_of_def ex_system_def mk_mna_def
        or_else_def np_div_def)
  show ?thesis
    using reflection_is_wave [OF ex_wf(1) imp refl] refl by (simp add: or_else_def z_ref_default_def)
qed

text \<open>C11: A line solved by its chain matrix is the line of its admittance matrix.  Where the admittance matrix
  exists, the law of a transmission line, crossed or not, holds exactly when its two currents are
  the matrix times its two voltages, and that is what the line draws from its nodes.  The chain matrix is that of
  a reciprocal line: its determinant is 1.\<close>

theorem line_is_admittance:
  assumes "tl_admittance_2x2 (tl_z0 t) (tl_length t) wavelength (tl_transposed t) (tl_vf t) (tl_k1 t) (tl_k2 t)
      (rd_c_light rd) = Inr Y"
  shows "(branch_laws rd wavelength \<omega> (TL t) v u \<longleftrightarrow>
      u 0 = Y 0 0 * v (node_of rd (tl_a t)) + Y 0 1 * v (node_of rd (tl_b t)) \<and>
      - ((if tl_transposed t then -1 else 1) * u 1) = Y 1 0 * v (node_of rd (tl_a t)) + Y 1 1 * v (node_of rd (tl_b t))) \<and>
    (branch_laws rd wavelength \<omega> (TL t) v u \<longrightarrow>
      branch_draws rd f_hz \<omega> (TL t) v u = block_draw [node_of rd (tl_a t), node_of rd (tl_b t)] Y v) \<and>
    (\<exists>A B C D. tl_abcd (tl_z0 t) (tl_length t) wavelength (tl_vf t) (tl_k1 t) (tl_k2 t) (rd_c_light rd) = Inr (A, B, C, D) \<and>
      A * D - B * C = 1)"
proof -
  obtain m where m: "tl_abcd (tl_z0 t) (tl_length t) wavelength (tl_vf t) (tl_k1 t) (tl_k2 t) (rd_c_light rd) = Inr m"
    and law: "\<forall>va vb i1 i2. line_law m va ((if tl_transposed t then -1 else 1) * vb) i1 i2 \<longleftrightarrow>
       i1 = Y 0 0 * va + Y 0 1 * vb \<and> - ((if tl_transposed t then -1 else 1) * i2) = Y 1 0 * va + Y 1 1 * vb"
    using line_admittance [OF assms] by blast
  have "branch_draws rd f_hz \<omega> (TL t) v u = block_draw [node_of rd (tl_a t), node_of rd (tl_b t)] Y v"
    if "branch_laws rd wavelength \<omega> (TL t) v u"
    by (rule ext) (rule tl_draws [OF assms that])
  then show ?thesis
    using m law chain_determinant(1) by (cases m) (auto simp: branch_laws_def Let_def)
qed

definition ex_line :: tl where
  "ex_line = \<lparr>tl_a = ''f'', tl_b = ''g'', tl_z0 = 50, tl_length = 1 / 4, tl_transposed = False, tl_vf = 1, tl_k1 = 0, tl_k2 = 0\<rparr>"

lemma quarter_wave: "sinh (Complex 0 (pi / 2)) = \<i>" "cosh (Complex 0 (pi / 2)) = 0"
  by (simp_all add: sinh_def cosh_def complex_eq_iff Re_exp Im_exp)

lemma quarter_wave_gamma: "tl_gamma_l (1 / 4) 1 1 0 0 None = Inr (Complex 0 (pi / 2))"
    by (simp add: tl_gamma_l_def divE_def frequency_mhz_def c_light_def Let_def complex_eq_iff)

lemma quarter_wave_chain: "z0 \<noteq> 0 \<Longrightarrow> tl_abcd z0 (1 / 4) 1 1 0 0 None = Inr (0, of_real z0 * \<i>, \<i> / of_real z0, 0)"
  by (simp add: tl_abcd_def quarter_wave_gamma Let_def quarter_wave tl_zc_def np_div_def)

lemma quarter_wave_admittance:
  "tl_admittance_2x2 z0 (1 / 4) 1 transposed 1 0 0 None =
     (if z0 = 0 then Inl NotFinite
      else Inr (\<lambda>i k. if i = k then 0 else (if transposed then 1 else -1) / (of_real z0 * \<i>)))"
proof -
  show ?thesis
    by (simp add: tl_admittance_2x2_def quarter_wave_gamma Let_def quarter_wave tl_zc_def np_div_def fun_eq_iff)
qed

theorem line_is_admittance_witness:
  "branch_laws ex_reducer 1 0 (TL ex_line) (\<lambda>_. 1) (\<lambda>x. if x = 0 then \<i> / 50 else - \<i> / 50) \<and>
   \<not> branch_laws ex_reducer 1 0 (TL ex_line) (\<lambda>_. 1) (\<lambda>_. 0)"
proof -
  have Y: "tl_admittance_2x2 (tl_z0 ex_line) (tl_length ex_line) 1 (tl_transposed ex_line) (tl_vf ex_line)
      (tl_k1 ex_line) (tl_k2 ex_line) (rd_c_light ex_reducer) =
      Inr (\<lambda>i k. if i = k then 0 else -1 / (of_real 50 * \<i>))"
    by (simp add: ex_line_def ex_reducer_def quarter_wave_admittance)
  have i: "-1 / (complex_of_real 50 * \<i>) = \<i> / 50"
    by (simp add: complex_eq_iff Re_divide Im_divide)
  have "branch_laws ex_reducer 1 0 (TL ex_line) (\<lambda>_. 1) u \<longleftrightarrow> u 0 = \<i> / 50 \<and> u 1 = - \<i> / 50" for u
    using line_is_admittance [OF Y, of 0 "\<lambda>_. 1" u] unfolding i
    by (auto simp: ex_line_def complex_eq_iff)
  then show ?thesis
    by (simp add: complex_eq_iff)
qed

text \<open>C27: A balanced line is the 4 by 4 matrix of its two modes.  Where that matrix exists, the currents that the
  differential chain and, with a common-mode impedance, the common-mode chain send into the four
  nodes are the matrix times the four node voltages.\<close>

theorem balanced_line_is_admittance:
  assumes "balanced_admittance_4x4 (bl_zdiff b) (bl_length b) wavelength (bl_vf b) (bl_k1 b) (bl_k2 b)
      (bl_zcomm b) (rd_c_light rd) = Inr Y" and "branch_laws rd wavelength \<omega> (BalancedLine b) v u"
  shows "branch_draws rd f_hz \<omega> (BalancedLine b) v u =
    block_draw (map (node_of rd) [bl_a1 b, bl_a2 b, bl_b1 b, bl_b2 b]) Y v"
  by (rule ext) (rule balanced_draws [OF assms])

definition ex_pair :: balanced_line where
  "ex_pair = \<lparr>bl_a1 = ''a'', bl_a2 = ''b'', bl_b1 = ''c'', bl_b2 = ''d'', bl_zdiff = 100, bl_length = 1 / 4, bl_vf = 1,
     bl_k1 = 0, bl_k2 = 0, bl_zcomm = None\<rparr>"

definition ex_pair_reducer :: reducer where
  "ex_pair_reducer = ex_reducer\<lparr>rd_port_to_idx := [''a'' \<mapsto> 0, ''b'' \<mapsto> 1, ''c'' \<mapsto> 2, ''d'' \<mapsto> 3]\<rparr>"

lemma ex_pair_law:
  "branch_laws ex_pair_reducer 1 0 (BalancedLine ex_pair) (\<lambda>i. if i = 0 then 1 else 0) (\<lambda>x. if x = 0 then 0 else 1 / (100 * \<i>))"
proof -
  note quarter_wave_chain [of 100]
  then show ?thesis
    by (simp add: branch_laws_def Let_def ex_pair_def ex_pair_reducer_def ex_reducer_def node_of_def line_law_def)
qed

theorem balanced_line_is_admittance_witness:
  "branch_draws ex_pair_reducer 0 0 (BalancedLine ex_pair) (\<lambda>i. if i = 0 then 1 else 0)
     (\<lambda>x. if x = 0 then 0 else 1 / (100 * \<i>)) =
   block_draw [0, 1, 2, 3] (kron2 (\<lambda>i k. if i = k then 0 else -1 / (100 * \<i>)) diff_incidence) (\<lambda>i. if i = 0 then 1 else 0)"
proof -
  have Y: "balanced_admittance_4x4 (bl_zdiff ex_pair) (bl_length ex_pair) 1 (bl_vf ex_pair) (bl_k1 ex_pair) (bl_k2 ex_pair)
      (bl_zcomm ex_pair) (rd_c_light ex_pair_reducer) =
      Inr (kron2 (\<lambda>i k. if i = k then 0 else -1 / (100 * \<i>)) diff_incidence)"
    by (simp add: balanced_admittance_4x4_def ex_pair_def ex_pair_reducer_def ex_reducer_def quarter_wave_admittance
        cong: if_cong)
  have nodes: "map (node_of ex_pair_reducer) [bl_a1 ex_pair, bl_a2 ex_pair, bl_b1 ex_pair, bl_b2 ex_pair] = [0, 1, 2, 3]"
    by (simp add: ex_pair_def ex_pair_reducer_def node_of_def)
  show ?thesis
    using balanced_line_is_admittance [OF Y ex_pair_law, of 0] unfolding nodes .
qed

text \<open>C31: A transmission line without loss takes no power, whatever its length and whatever is at its ends.\<close>

theorem lossless_line_takes_nothing:
  assumes "tl_k1 t = 0" and "tl_k2 t = 0" and "branch_laws rd wavelength \<omega> (TL t) v u"
    and "node_of rd (tl_a t) < n" and "node_of rd (tl_b t) < n"
  shows "absorbed n v (branch_draws rd f_hz \<omega> (TL t) v u) = 0"
  by (rule lossless_absorbs_nothing [OF assms])

theorem lossless_line_takes_nothing_witness:
  "absorbed 4 (\<lambda>_. 1) (branch_draws ex_pair_reducer 0 0 (TL (ex_line\<lparr>tl_a := ''a'', tl_b := ''b''\<rparr>)) (\<lambda>_. 1)
     (\<lambda>x. if x = 0 then \<i> / 50 else 1 / (50 * \<i>))) = 0"
proof -
  note quarter_wave_chain [of 50]
  then have "branch_laws ex_pair_reducer 1 0 (TL (ex_line\<lparr>tl_a := ''a'', tl_b := ''b''\<rparr>)) (\<lambda>_. 1)
      (\<lambda>x. if x = 0 then \<i> / 50 else 1 / (50 * \<i>))"
    by (simp add: branch_laws_def Let_def ex_line_def ex_pair_reducer_def ex_reducer_def node_of_def line_law_def)
  from lossless_line_takes_nothing [OF _ _ this, of 4 0] show ?thesis
    by (simp add: ex_line_def ex_pair_reducer_def node_of_def)
qed

text \<open>C28: A validated network misses no name, except a terminal of a floating port where the code looks
  among the ports.  A KeyError for a name leaves the reducer's construction only when a source is on
  such a terminal, and leaves driven_impedance only when a Load is on one; both pass the validation.\<close>

theorem validated_network_knows_names:
  assumes "mk_network ports branches sources paths = Inr nw" and "\<forall>name \<in> fst ` set ports. idx name \<noteq> None"
  shows "(mk_reducer nw idx n_total c = Inl (UnknownName x) \<longrightarrow> terminal ports x \<and> x \<in> src_port ` set sources) \<and>
    (\<forall>rd. mk_reducer nw idx n_total c = Inr rd \<and>
       driven_impedance zgesvx rd n_real Y wavelength z_ref = Inl (UnknownName x) \<longrightarrow>
       terminal ports x \<and> (\<exists>lg par z. Load x lg par z \<in> set branches))"
  using unknown_name_is_terminal [OF assms] by blast

definition ex_floating :: "(string \<times> port) list" where
  "ex_floating = [(''f'', PortOnWireFloating \<lparr>gap_name = ''f'', gap_distributed = False, gap_wire = None, gap_at = None\<rparr>),
     (''g'', PortOnWire \<lparr>gap_name = ''g'', gap_distributed = False, gap_wire = None, gap_at = None\<rparr>)]"

definition ex_loaded :: network where
  "ex_loaded = \<lparr>nw_ports = ex_floating, nw_branches = [Load ''f.p'' ex_ohms False None],
     nw_sources = [Driven ''g'' 1], nw_branch_paths = [[]]\<rparr>"

lemma ex_loaded_valid: "mk_network ex_floating [Load ''f.p'' ex_ohms False None] [Driven ''g'' 1] [] = Inr ex_loaded"
  by (simp add: mk_network_def ex_floating_def ex_loaded_def port_key_def branch_port_refs_def
      node_names_def is_floating_def source_check_def src_port_def validate_common_mode_def cm_open_def is_balun_def)

definition ex_loaded_reducer :: reducer where
  "ex_loaded_reducer = \<lparr>rd_network = ex_loaded, rd_c_light = None,
     rd_port_to_idx = [''f'' \<mapsto> 0, ''g'' \<mapsto> 1, ''f.p'' \<mapsto> 0, ''f.n'' \<mapsto> 2], rd_n_total_ports = 2,
     rd_floating = [(''f'', 0, 2)], rd_n_nodes = 3, rd_driven = [(1, VoltageDrive, 1)], rd_driven_voltages = [1]\<rparr>"

lemma ex_loaded_reduced: "mk_reducer ex_loaded [''f'' \<mapsto> 0, ''g'' \<mapsto> 1] 2 None = Inr ex_loaded_reducer"
  by (simp add: mk_reducer_def ex_loaded_def ex_floating_def ex_loaded_reducer_def add_terminal_def is_floating_def
      src_port_def lookupE_def drive_of_def)

theorem validated_network_knows_names_witness:
  "driven_impedance cramer2 ex_loaded_reducer 2 ex_Y 1 None = Inl (UnknownName ''f.p'') \<and> terminal ex_floating ''f.p''"
proof -
  have "stamp_branches ex_loaded_reducer 2 ex_Y 1 = Inl (UnknownName ''f.p'')"
    by (simp add: stamp_branches_def frequency_of_def divE_def Let_def ex_loaded_reducer_def ex_loaded_def ex_floating_def
        stamp_branch_def lookupE_def)
  then have err: "driven_impedance cramer2 ex_loaded_reducer 2 ex_Y 1 None = Inl (UnknownName ''f.p'')"
    by (simp add: driven_impedance_def apply_branches_def)
  have idx: "\<forall>name \<in> fst ` set ex_floating. [''f'' \<mapsto> 0, ''g'' \<mapsto> (1 :: nat)] name \<noteq> None"
    by (simp add: ex_floating_def)
  show ?thesis
    using validated_network_knows_names [OF ex_loaded_valid idx] ex_loaded_reduced err by blast
qed

text \<open>C29: The reducer of a validated network is well formed, which the laws of the circuit rest on.  For an index
  of the ports below their number, with the floating ports at different gaps of the antenna (and their names
  not those of another's terminals), every node and every source is in range, every branch has a path, and
  the second terminals of the floating ports are nodes of their own after all gaps.\<close>

theorem reducer_is_wellformed:
  assumes "mk_network ports branches sources paths = Inr nw" and "mk_reducer nw idx n_total c = Inr rd"
    and "\<forall>x k. idx x = Some k \<longrightarrow> k < n_total"
    and "distinct (map fst ports)" and "\<forall>x \<in> floating_names ports. \<not> terminal ports x"
    and "inj_on idx (floating_names ports)" and "\<forall>x \<in> floating_names ports. \<forall>k. idx x = Some k \<longrightarrow> k < n_real"
    and "n_real \<le> n_total"
  shows "wf_reducer rd \<and> wf_gaps rd n_real"
  by (rule constructed_reducer_is_wf [OF assms])

theorem reducer_is_wellformed_witness: "wf_reducer ex_loaded_reducer \<and> wf_gaps ex_loaded_reducer 2"
proof -
  have names: "floating_names ex_floating = {''f''}"
    by (auto simp: floating_names_def ex_floating_def is_floating_def)
  show ?thesis
    by (rule reducer_is_wellformed [OF ex_loaded_valid ex_loaded_reduced])
      (simp_all add: names terminal_def, simp_all add: ex_floating_def is_floating_def)
qed

text \<open>Renaming the ports of a branch changes its ports and nothing else.\<close>

lemma renaming_keeps_branch:
  assumes "mk_branch br = Inr br"
  shows "\<exists>br'. rewrite_branch ren br = Inr br' \<and> branch_port_refs br' = map ren (branch_port_refs br) \<and>
    rewrite_branch ren' br' = rewrite_branch (ren' \<circ> ren) br \<and> rewrite_branch (\<lambda>x. x) br = Inr br"
  using assms by (cases br) (auto simp: rewrite_branch_def mk_branch_def branch_port_refs_def split: if_splits)

text \<open>C30: A line that hangs open at a length where it is singular is named in the report.  Take a lossless transmission
  line with an end, either one, that hangs open: no other branch has an end on its node, no source is there, and
  it is no port on a wire.  At an odd number of quarter waves or a whole number of half waves, the
  report has a suspect with the line's ends, its length in wavelengths and its kind: at the first the
  open line is a short (A = 0 in its chain matrix), at the second an open (C = 0).\<close>

theorem singular_line_is_named:
  assumes "suspects rd wavelength = Inr ss"
    and "(TL t, path) \<in> set (zip (nw_branches (rd_network rd)) (nw_branch_paths (rd_network rd)))"
    and "tl_k1 t = 0" and "tl_k2 t = 0" and "hangs_open rd (tl_a t) \<or> hangs_open rd (tl_b t)"
    and "tl_length t = n_half * (1 / 2 * (wavelength * tl_vf t))"
    and "n_half = of_int m + 1 / 2 \<or> n_half = of_int m \<and> 1 \<le> m"
    and "tl_abcd (tl_z0 t) (tl_length t) wavelength (tl_vf t) 0 0 (rd_c_light rd) = Inr (A, B, C, D)"
  shows "\<exists>s \<in> set ss. su_ends s = [tl_a t, tl_b t] \<and> su_length s = n_half / 2 \<and>
    (su_pole s = OddQuarter \<and> A = 0 \<or> su_pole s = WholeHalf \<and> C = 0)"
  using assms(7)
proof
  assume m: "n_half = of_int m + 1 / 2"
  then have "pole_at n_half = Some OddQuarter"
    by (simp only: odd_quarter_pole)
  from hanging_line_is_named [OF assms(1-6) this] show ?thesis
    using lossless_at_pole(1) [OF assms(8,6) m] by auto
next
  assume m: "n_half = of_int m \<and> 1 \<le> m"
  then have "pole_at n_half = Some WholeHalf"
    using whole_half_pole by simp
  from hanging_line_is_named [OF assms(1-6) this] show ?thesis
    using lossless_at_pole(2) [OF assms(8,6)] m by auto
qed

definition ex_stub :: reducer where
  "ex_stub = ex_reducer\<lparr>rd_network := ex_network\<lparr>nw_ports := ex_ports @ [(''g'', PortVirtual ''g'')],
       nw_branches := [TL ex_line], nw_branch_paths := [[]]\<rparr>,
     rd_port_to_idx := [''f'' \<mapsto> 0, ''g'' \<mapsto> 1], rd_n_nodes := 2\<rparr>"

lemma ex_stub_open: "open_ended_nodes ex_stub = {1}"
  by (auto simp: open_ended_nodes_def walked_nodes_def real_nodes_def walked_refs_def ex_stub_def ex_line_def
      ex_reducer_def ex_network_def ex_ports_def on_wire_def List.map_filter_def)

lemma ex_stub_hangs: "hangs_open ex_stub ''g''"
  by (simp add: hangs_open_def all_ends_def ex_stub_def ex_line_def ex_reducer_def ex_network_def ex_ports_def
      branch_port_refs_def on_wire_def List.map_filter_def)

theorem singular_line_is_named_witness:
  "\<exists>s. suspects ex_stub 1 = Inr [s] \<and> su_ends s = [''f'', ''g''] \<and> su_length s = 1 / 4 \<and> su_pole s = OddQuarter"
proof -
  have "pole_at (1 / 2) = Some OddQuarter"
    using odd_quarter_pole [of 0] by simp
  then obtain s where s: "suspects ex_stub 1 = Inr [s]"
    unfolding suspects_def suspect_of_def ex_stub_open
    by (simp add: ex_stub_def ex_line_def ex_reducer_def ex_network_def frequency_mhz_def divE_def line_of_def)
  note quarter_wave_chain [of 50]
  then have m: "tl_abcd (tl_z0 ex_line) (tl_length ex_line) 1 (tl_vf ex_line) 0 0 (rd_c_light ex_stub) =
      Inr (0, 50 * \<i>, \<i> / 50, 0)"
    by (simp add: ex_line_def ex_stub_def ex_reducer_def)
  have "\<exists>u \<in> set [s]. su_ends u = [tl_a ex_line, tl_b ex_line] \<and> su_length u = (1 / 2) / 2 \<and>
      (su_pole u = OddQuarter \<and> (0 :: complex) = 0 \<or> su_pole u = WholeHalf \<and> \<i> / 50 = 0)"
    by (rule singular_line_is_named [OF s _ _ _ _ _ _ m, of "[]" "1 / 2" 0])
      (use ex_stub_hangs in \<open>simp_all add: ex_stub_def ex_line_def ex_reducer_def ex_network_def\<close>)
  then show ?thesis
    using s by (auto simp: ex_line_def)
qed

definition ex_twice :: "branch list" where
  "ex_twice = [Admittance [''f'', ''f''] [[1, 1], [1, 1]]]"

definition ex_twice_network :: network where
  "ex_twice_network = \<lparr>nw_ports = ex_ports, nw_branches = ex_twice, nw_sources = [Driven ''f'' 1], nw_branch_paths = [[]]\<rparr>"

definition ex_twice_reducer :: reducer where
  "ex_twice_reducer = ex_reducer\<lparr>rd_network := ex_twice_network\<rparr>"

lemma ex_twice_valid: "mk_network ex_ports ex_twice [Driven ''f'' 1] [] = Inr ex_twice_network"
  by (simp add: mk_network_def ex_ports_def ex_twice_def ex_twice_network_def port_key_def branch_port_refs_def
      node_names_def is_floating_def source_check_def src_port_def validate_common_mode_def cm_open_def is_balun_def
      guardE_def)

lemma ex_twice_reduced: "mk_reducer ex_twice_network [''f'' \<mapsto> 0] 1 None = Inr ex_twice_reducer"
  by (simp add: mk_reducer_def ex_twice_network_def ex_ports_def ex_reducer_def ex_twice_reducer_def add_terminal_def
      is_floating_def src_port_def lookupE_def drive_of_def)

lemma ex_twice_ends: "end_nodes ex_twice_reducer = [0]"
  by (simp add: end_nodes_def loads_on_def numbered_branches_def load_of_def ex_twice_reducer_def ex_twice_network_def
     ex_twice_def ex_reducer_def)

lemma no_loads: "source_law \<omega> 0 e [] vk i \<longleftrightarrow> e = vk"
  by (simp add: source_law_def lone_trap_def chain_of_def total_def)

lemma ex_twice_termination: "termination_law ex_twice_reducer \<omega> 0 0 vk i \<longleftrightarrow> vk = 1"
  by (simp add: termination_law_def ending_law_def loads_on_def numbered_branches_def load_of_def emfs_def
     forced_currents_def the_reference_def no_loads ex_twice_reducer_def ex_twice_network_def ex_twice_def ex_reducer_def or_else_def)

lemma ex_twice_kept: "last_mention [0, 0] i \<longleftrightarrow> i = 1"
  by (cases i rule: nat.exhaust) (auto simp: last_mention_def less_Suc_eq)

lemma ex_twice_antenna: "node_flow 1 (antenna_block ex_twice_reducer 1 ex_Y) v 0 = v 0 / 50"
  by (simp add: node_flow_def antenna_block_def ex_Y_def ex_twice_reducer_def ex_reducer_def)

lemma ex_twice_fields: "rd_n_nodes ex_twice_reducer = 1" "nw_branches (rd_network ex_twice_reducer) = ex_twice"
  "total_width ex_twice = 0" "node_of ex_twice_reducer ''f'' = 0"
  by (simp_all add: ex_twice_reducer_def ex_twice_network_def ex_twice_def ex_reducer_def total_width_def width_def node_of_def)

lemma ex_twice_circuit:
  "circuit ex_twice_reducer 1 ex_Y 1 0 c_light v j \<longleftrightarrow> v 0 = 1 \<and> v 0 / 50 + 4 * v 0 = j 0"
  "circuit (assembled ex_twice_reducer) 1 ex_Y 1 0 c_light v j \<longleftrightarrow> v 0 = 1 \<and> v 0 / 50 + v 0 = j 0"
proof -
  have draws: "all_draws ex_twice_reducer f_hz \<omega> ex_twice v j 0 = 4 * v 0" for f_hz \<omega>
    by (simp add: ex_twice_def branch_draws_def ex_twice_fields block_draw_def of_rows_def single_def eval_nat_numeral)
  have kept: "all_draws ex_twice_reducer f_hz \<omega> (map (as_stamped ex_twice_reducer) ex_twice) v j 0 = v 0" for f_hz \<omega>
    by (simp add: ex_twice_def as_stamped_block ex_twice_fields)
     (simp add: block_draw_def kept_def ex_twice_kept of_rows_def single_def eval_nat_numeral)
  have laws: "all_laws ex_twice_reducer 1 \<omega> ex_twice v j" for \<omega>
    by (simp add: ex_twice_def branch_laws_def Let_def)
  then have "all_laws ex_twice_reducer 1 \<omega> (map (as_stamped ex_twice_reducer) ex_twice) v j" for \<omega>
    by (simp add: ex_twice_def as_stamped_laws)
  then show "circuit (assembled ex_twice_reducer) 1 ex_Y 1 0 c_light v j \<longleftrightarrow> v 0 = 1 \<and> v 0 / 50 + v 0 = j 0"
    by (simp add: circuit_def Let_def ex_twice_ends ex_twice_fields ex_twice_termination ex_twice_antenna [unfolded One_nat_def] kept single_def)
  show "circuit ex_twice_reducer 1 ex_Y 1 0 c_light v j \<longleftrightarrow> v 0 = 1 \<and> v 0 / 50 + 4 * v 0 = j 0"
    using laws
    by (simp add: circuit_def Let_def ex_twice_ends ex_twice_fields ex_twice_termination ex_twice_antenna [unfolded One_nat_def] draws single_def)
qed

lemma ex_twice_applied: "\<exists>s. apply_branches ex_twice_reducer 1 ex_Y 1 0 = Inr s"
  by (simp add: apply_branches_def stamp_branches_def frequency_of_def divE_def Let_def
     ex_twice_reducer_def ex_twice_network_def ex_twice_def ex_reducer_def stamp_branch_def lookupE_def
     guardE_def terminate_def emfs_def forced_currents_def closed_nodes_def close_node_def or_else_def
     add_probe_def add_block_def reference_node_def source_element_def total_def)


text \<open>C38: The stamp loses entries of an Admittance that names a port twice.  A network that passes the validation puts
  a matrix of four entries of 1 S on its one port, and a source of 1 V; apply_branches assembles a system whose solutions have one of
  the four entries in the current, where the circuit has all four.\<close>

theorem repeated_port_is_lost:
  "mk_network ex_ports ex_twice [Driven ''f'' 1] [] = Inr ex_twice_network \<and>
   mk_reducer ex_twice_network [''f'' \<mapsto> 0] 1 None = Inr ex_twice_reducer \<and>
   (\<exists>s. apply_branches ex_twice_reducer 1 ex_Y 1 0 = Inr s \<and>
      (\<forall>v j. solves s v j \<longleftrightarrow> v 0 = 1 \<and> j 0 = (1 / 50 + 1) * v 0) \<and>
      (\<forall>v j. circuit ex_twice_reducer 1 ex_Y 1 0 c_light v j \<longleftrightarrow> v 0 = 1 \<and> j 0 = (1 / 50 + 4) * v 0))"
proof -
  obtain s where s: "apply_branches ex_twice_reducer 1 ex_Y 1 0 = Inr s"
    using ex_twice_applied by blast
  have f: "frequency_of ex_twice_reducer 1 = Inr c_light"
    by (simp add: frequency_of_def ex_twice_reducer_def ex_reducer_def divE_def)
  have "wf_reducer ex_twice_reducer"
    by (simp add: wf_reducer_def nodes_below_def ex_twice_reducer_def ex_reducer_def ex_twice_network_def ex_twice_def)
  from solves_circuit [OF s this f] have system: "solves s v j \<longleftrightarrow> v 0 = 1 \<and> j 0 = (1 / 50 + 1) * v 0" for v j
    unfolding ex_twice_circuit by (auto simp: field_simps)
  have circuit: "circuit ex_twice_reducer 1 ex_Y 1 0 c_light v j \<longleftrightarrow> v 0 = 1 \<and> j 0 = (1 / 50 + 4) * v 0" for v j
    unfolding ex_twice_circuit by (auto simp: field_simps)
  show ?thesis
    by (intro conjI exI [of _ s] allI ex_twice_valid ex_twice_reduced s system circuit)
qed

end
