(* ===== verification/Mesh_Spans.thy ===== *)
theory Mesh_Spans
  imports Deck_Model Connections
begin

text \<open>
  \<open>src/src/momwire/deck/_polylines.py\<close>, first part: the wires of a model split where they
  cross the ground plane, and cut into the straight spans that the chaining joins.
\<close>

section \<open>Shared steps\<close>

definition nthE :: "'a list \<Rightarrow> nat \<Rightarrow> pyexn + 'a" where
  "nthE xs i = (if i < length xs then Inr (xs ! i) else Inl IndexError)"

definition mesh_eps :: flt where
  "mesh_eps = Fin (1 / 10 ^ 6)"

fun floordiv :: "flt \<Rightarrow> flt \<Rightarrow> flt" where
  \<comment> \<open>Python's \<open>//\<close> by a positive number\<close>
  "floordiv (Fin a) (Fin b) = fint \<lfloor>a / b\<rfloor>"
| "floordiv (Fin a) PInf = (if a < 0 then Fin (-1) else Fin 0)"
| "floordiv _ _ = NaN"

section \<open>The element a port is in\<close>

fun element_from :: "(flt \<times> int) list \<Rightarrow> nat \<Rightarrow> flt \<Rightarrow> pyexn + nat \<times> int" where
  "element_from [] k remaining = Inl AssertionError"
| "element_from ((len, n) # rest) k remaining =
     (if remaining \<le> len \<or> rest = []
      then bindE (guardE (n = 0) ZeroDivisionError) (\<lambda>_.
           let step = len / fint n
           in bindE (if Fin 0 < step then ffloor (floordiv remaining step) else Inr 0) (\<lambda>element.
              Inr (k, max 0 (min (n - 1) element))))
      else element_from rest (Suc k) (remaining - len))"

definition element_on :: "deck_wire \<Rightarrow> flt \<Rightarrow> pyexn + nat \<times> int" where
  "element_on w arclength = element_from (zip (edge_lengths w) (dw_edge_elements w)) 0 arclength"

section \<open>Spans\<close>

record span =
  sp_p0 :: point
  sp_p1 :: point
  sp_n :: int
  sp_port :: "nat option"
  sp_radius :: flt
  sp_material :: "wire_material option"
  sp_wire :: nat
  sp_edge :: nat
  sp_at_start :: bool
  sp_at_end :: bool

type_synonym sites = "((nat \<times> nat \<times> int) \<times> nat) list"
  \<comment> \<open>a dictionary: the port of an element of an edge of a wire\<close>

definition add_site :: "deck_model \<Rightarrow> sites \<Rightarrow> nat \<times> nat \<times> flt \<Rightarrow> pyexn + sites" where
  \<comment> \<open>\<open>setdefault\<close>: the first port of an element keeps it\<close>
  "add_site m sites p =
     (case p of (index, wire, arclength) \<Rightarrow>
        bindE (nthE (dm_wires m) wire) (\<lambda>w.
        bindE (element_on w arclength) (\<lambda>(edge, element).
        Inr (if (wire, edge, element) \<in> fst ` set sites then sites
             else sites @ [((wire, edge, element), index)]))))"

definition port_sites :: "deck_model \<Rightarrow> (nat \<times> flt) list \<Rightarrow> pyexn + sites" where
  "port_sites m ports = foldE (add_site m) [] (enumerate 0 ports)"

definition on_edge :: "sites \<Rightarrow> nat \<Rightarrow> nat \<Rightarrow> (int \<times> nat) list" where
  "on_edge sites wire edge =
     map (\<lambda>((_, _, element), port). (element, port))
       (filter (\<lambda>((w, e, _), _). w = wire \<and> e = edge) sites)"

definition edge_point :: "point \<Rightarrow> point \<Rightarrow> int \<Rightarrow> int \<Rightarrow> point" where
  \<comment> \<open>\<open>_point\<close>; a cut edge carries a port, so its count is not zero (\<open>element_on\<close>)\<close>
  "edge_point a b k n = lerp a b (Fin (of_int k / of_int n))"

definition span_of :: "nat \<Rightarrow> deck_wire \<Rightarrow> nat \<Rightarrow> int \<Rightarrow> int \<Rightarrow> nat option \<Rightarrow> span" where
  \<comment> \<open>\<open>emit\<close>\<close>
  "span_of wire w edge lo hi port =
     (let a = dw_vertices w ! edge; b = dw_vertices w ! Suc edge; n = dw_edge_elements w ! edge;
          whole = (lo = 0 \<and> hi = n)
      in \<lparr>sp_p0 = (if whole then a else edge_point a b lo n),
          sp_p1 = (if whole then b else edge_point a b hi n),
          sp_n = hi - lo, sp_port = port, sp_radius = dw_radius w,
          sp_material = dw_material w, sp_wire = wire, sp_edge = edge,
          sp_at_start = (lo = 0), sp_at_end = (hi = n)\<rparr>)"

definition edge_bounds :: "(int \<times> nat) list \<Rightarrow> int \<Rightarrow> int list" where
  "edge_bounds on n = sorted_list_of_set ((\<Union>(element, _)\<in>set on. {element, element + 1}) - {0, n})"

fun cut_edge :: "(int \<Rightarrow> int \<Rightarrow> nat option \<Rightarrow> span) \<Rightarrow> (int \<times> nat) list \<Rightarrow> int \<Rightarrow> int list \<Rightarrow> span list" where
  "cut_edge emit on previous [] = []"
| "cut_edge emit on previous (bound # rest) =
     emit previous bound (if bound - previous = 1 then map_of on (bound - 1) else None) #
     cut_edge emit on bound rest"

definition edge_spans :: "sites \<Rightarrow> nat \<Rightarrow> deck_wire \<Rightarrow> nat \<Rightarrow> span list" where
  "edge_spans sites wire w edge =
     (let n = dw_edge_elements w ! edge; on = on_edge sites wire edge; emit = span_of wire w edge
      in if on = [] then [emit 0 n None]
         else if length on = 1 \<and> n mod 2 = 1 \<and> fst (hd on) = (n - 1) div 2
         then [emit 0 n (Some (snd (hd on)))]
         else cut_edge emit on 0 (edge_bounds on n @ [n]))"

definition wire_spans :: "sites \<Rightarrow> nat \<times> deck_wire \<Rightarrow> span list" where
  "wire_spans sites iw =
     (case iw of (wire, w) \<Rightarrow>
        concat (map (edge_spans sites wire w) [0..<length (dw_edge_elements w)]))"

definition spans :: "deck_model \<Rightarrow> (nat \<times> flt) list \<Rightarrow> pyexn + span list" where
  "spans m ports =
     bindE (port_sites m ports) (\<lambda>sites.
       Inr (concat (map (wire_spans sites) (enumerate 0 (dm_wires m)))))"

section \<open>The plane split\<close>

definition plane_tol :: "deck_wire \<Rightarrow> flt" where
  "plane_tol w = Fin (1 / 10 ^ 6) * fmax (wire_length w) (Fin (1 / 10 ^ 9))"

definition height :: "flt \<Rightarrow> point \<Rightarrow> flt" where
  "height gz p = (case p of (_, _, z) \<Rightarrow> z - gz)"

definition crosses :: "flt \<Rightarrow> flt \<Rightarrow> point \<Rightarrow> point \<Rightarrow> bool" where
  "crosses gz tol a b \<longleftrightarrow>
     height gz a < - tol \<and> tol < height gz b \<or> tol < height gz a \<and> height gz b < - tol"

definition crossing_point :: "flt \<Rightarrow> point \<Rightarrow> point \<Rightarrow> flt \<Rightarrow> point" where
  "crossing_point gz a b t = (case lerp a b t of (x, y, _) \<Rightarrow> (x, y, gz))"

record split_wire =
  sw_vertices :: "point list"
  sw_elements :: "int list"
  sw_inserted :: "nat list" \<comment> \<open>in the new numbering\<close>

definition split_edge :: "flt \<Rightarrow> flt \<Rightarrow> split_wire \<Rightarrow> int \<times> point \<times> point \<Rightarrow> pyexn + split_wire" where
  "split_edge gz tol s edge =
     (case edge of (n, a, b) \<Rightarrow>
        if crosses gz tol a b
        then (let t = height gz a / (height gz a - height gz b) in
              bindE (fround (fint n * t)) (\<lambda>r.
              let first = (if 2 \<le> n then max 1 (min (n - 1) r) else 1);
                  second = (if 2 \<le> n then n - first else 1)
              in Inr \<lparr>sw_vertices = sw_vertices s @ [crossing_point gz a b t, b],
                      sw_elements = sw_elements s @ [first, second],
                      sw_inserted = sw_inserted s @ [length (sw_vertices s)]\<rparr>))
        else Inr (s\<lparr>sw_vertices := sw_vertices s @ [b], sw_elements := sw_elements s @ [n]\<rparr>))"

definition wire_edges :: "deck_wire \<Rightarrow> (int \<times> point \<times> point) list" where
  "wire_edges w = zip (dw_edge_elements w) (zip (butlast (dw_vertices w)) (tl (dw_vertices w)))"

definition split_the_wire :: "flt \<Rightarrow> deck_wire \<Rightarrow> pyexn + split_wire" where
  "split_the_wire gz w =
     bindE (nthE (dw_vertices w) 0) (\<lambda>v.
       foldE (split_edge gz (plane_tol w)) \<lparr>sw_vertices = [v], sw_elements = [], sw_inserted = []\<rparr>
         (wire_edges w))"

definition new_wire :: "deck_wire \<Rightarrow> split_wire \<Rightarrow> pyexn + deck_wire" where
  "new_wire w s =
     mk_deck_wire \<lparr>dw_vertices = sw_vertices s, dw_radius = dw_radius w,
                   dw_edge_elements = sw_elements s, dw_material = dw_material w\<rparr>"

definition shift_gap :: "split_wire list \<Rightarrow> nat \<times> nat \<times> cplx \<Rightarrow> nat \<times> nat \<times> cplx" where
  \<comment> \<open>the inserted indices are those of the new wire, the vertex is one of the old\<close>
  "shift_gap ss gap =
     (case gap of (wire, vertex, volts) \<Rightarrow>
        (wire, vertex + length (filter (\<lambda>v. v \<le> vertex)
                          (if wire < length ss then sw_inserted (ss ! wire) else [])), volts))"

definition split_at_plane :: "deck_model \<Rightarrow> pyexn + deck_model" where
  "split_at_plane m =
     (if dm_ground m = NoGround then Inr m
      else bindE (mapE (\<lambda>w. bindE (split_the_wire (dm_ground_z m) w) (\<lambda>s.
                    bindE (new_wire w s) (\<lambda>w'. Inr (w', s)))) (dm_wires m)) (\<lambda>new.
           if list_all (\<lambda>(_, s). sw_inserted s = []) new then Inr m
           else Inr (m\<lparr>dm_wires := map fst new,
                       dm_node_gaps := map (shift_gap (map snd new)) (dm_node_gaps m)\<rparr>)))"

end
