(* ===== verification/Mesh_Chain.thy ===== *)
theory Mesh_Chain
  imports Mesh_Spans
begin

text \<open>
  \<open>src/src/momwire/deck/_polylines.py\<close>, second part: the spans as edges of a graph over
  fused nodes, the nodes that end a polyline, the walk that chains the spans between them,
  the cutting of closed loops, and the mesh handed to a solver.  Edge numbers are span
  numbers.
\<close>

section \<open>The node graph\<close>

type_synonym node_table = "(cell \<times> point) list"
  \<comment> \<open>\<open>node_of\<close> and \<open>nodes\<close>: a node is a position\<close>

definition mesh_key :: "point \<Rightarrow> pyexn + cell" where
  "mesh_key p =
     (case p of (x, y, z) \<Rightarrow>
        bindE (fround (x / mesh_eps)) (\<lambda>kx. bindE (fround (y / mesh_eps)) (\<lambda>ky.
        bindE (fround (z / mesh_eps)) (\<lambda>kz. Inr (kx, ky, kz)))))"

definition node_id :: "node_table \<Rightarrow> point \<Rightarrow> pyexn + nat \<times> node_table" where
  "node_id nodes p =
     bindE (mesh_key p) (\<lambda>key.
       Inr (case index_of (\<lambda>kp. fst kp = key) nodes of
              Some i \<Rightarrow> (i, nodes)
            | None \<Rightarrow> (length nodes, nodes @ [(key, p)])))"

type_synonym edges = "(nat \<times> nat) list"

definition add_edge :: "node_table \<times> edges \<Rightarrow> span \<Rightarrow> pyexn + node_table \<times> edges" where
  "add_edge st s =
     (case st of (nodes, es) \<Rightarrow>
        bindE (node_id nodes (sp_p0 s)) (\<lambda>(a, nodes).
        bindE (node_id nodes (sp_p1 s)) (\<lambda>(b, nodes).
        bindE (guardE (a = b) ValueError) (\<lambda>_. Inr (nodes, es @ [(a, b)])))))"

definition neighbours :: "edges \<Rightarrow> nat \<Rightarrow> (nat \<times> nat) list" where
  \<comment> \<open>\<open>adjacency[node]\<close>: the other node and the edge, in the order of the edges\<close>
  "neighbours es v =
     concat (map (\<lambda>(e, a, b). (if a = v then [(b, e)] else []) @ (if b = v then [(a, e)] else []))
       (enumerate 0 es))"

section \<open>Polyline boundaries\<close>

definition kind_changes :: "span list \<Rightarrow> edges \<Rightarrow> nat \<Rightarrow> bool" where
  "kind_changes ss es v =
     (let s = ss ! snd (neighbours es v ! 0); t = ss ! snd (neighbours es v ! 1)
      in sp_radius s \<noteq> sp_radius t \<or> sp_material s \<noteq> sp_material t)"

definition crossing_node :: "deck_model \<Rightarrow> node_table \<Rightarrow> edges \<Rightarrow> nat \<Rightarrow> bool" where
  "crossing_node m nodes es v =
     (let z = (\<lambda>u. height (dm_ground_z m) (snd (nodes ! u)));
          s = z (fst (neighbours es v ! 0)); t = z (fst (neighbours es v ! 1))
      in dm_ground m \<noteq> NoGround \<and> \<not> mesh_eps < fabs (z v) \<and>
         (s < - mesh_eps \<and> mesh_eps < t \<or> mesh_eps < s \<and> t < - mesh_eps))"

definition ends_polyline :: "deck_model \<Rightarrow> span list \<Rightarrow> node_table \<Rightarrow> edges \<Rightarrow> nat \<Rightarrow> bool" where
  "ends_polyline m ss nodes es v \<longleftrightarrow>
     length (neighbours es v) \<noteq> 2 \<or> kind_changes ss es v \<or> crossing_node m nodes es v"

definition gap_node ::
  "deck_model \<Rightarrow> node_table \<times> nat list \<Rightarrow> nat \<times> nat \<times> cplx \<Rightarrow> pyexn + node_table \<times> nat list" where
  "gap_node m st gap =
     (case (st, gap) of ((nodes, ns), (wire, vertex, _)) \<Rightarrow>
        bindE (nthE (dm_wires m) wire) (\<lambda>w.
        bindE (nthE (dw_vertices w) vertex) (\<lambda>p.
        bindE (node_id nodes p) (\<lambda>(n, nodes). Inr (nodes, ns @ [n])))))"

definition force :: "bool list \<Rightarrow> nat \<Rightarrow> pyexn + bool list" where
  "force bs v = bindE (nthE bs v) (\<lambda>_. Inr (bs[v := True]))"

section \<open>The walk\<close>

datatype side = Start | End

record chain =
  ch_boundary :: "bool list"
  ch_walked :: "bool list"
  ch_polylines :: "nat list list"
  ch_elements :: "int list list"
  ch_radii :: "flt list"
  ch_materials :: "wire_material option list"
  ch_place :: "nat \<rightharpoonup> nat \<times> nat"
  ch_direction :: "nat \<rightharpoonup> int"
  ch_ends :: "(nat \<times> (nat \<times> side) list) list" \<comment> \<open>\<open>junction_ends\<close>, a dictionary\<close>

definition across :: "edges \<Rightarrow> nat \<Rightarrow> nat \<Rightarrow> nat" where
  "across es e u = (if fst (es ! e) = u then snd (es ! e) else fst (es ! e))"

fun walk :: "edges \<Rightarrow> bool list \<Rightarrow> nat \<Rightarrow> nat \<Rightarrow> nat \<Rightarrow> bool list \<Rightarrow> pyexn + nat list \<times> nat list \<times> bool list" where
  \<comment> \<open>from a node over an edge: the nodes reached, the edges, and \<open>walked\<close>\<close>
  "walk es bd 0 u e walked = Inl Diverges"
| "walk es bd (Suc fuel) u e walked =
     (let v = across es e u; walked = walked[e := True]
      in if bd ! v then Inr ([v], [e], walked)
         else case find (\<lambda>(_, e'). e' \<noteq> e) (neighbours es v) of
                None \<Rightarrow> Inl StopIteration
              | Some (_, e') \<Rightarrow>
                  bindE (walk es bd fuel v e' walked) (\<lambda>(vs, fs, walked).
                    Inr (v # vs, e # fs, walked)))"

definition record_path :: "span list \<Rightarrow> edges \<Rightarrow> nat list \<Rightarrow> nat list \<Rightarrow> chain \<Rightarrow> chain" where
  "record_path ss es vs fs ch =
     (let index = length (ch_polylines ch); head = ss ! (fs ! 0)
      in ch\<lparr>ch_polylines := ch_polylines ch @ [vs],
            ch_elements := ch_elements ch @ [map (\<lambda>e. sp_n (ss ! e)) fs],
            ch_radii := ch_radii ch @ [sp_radius head],
            ch_materials := ch_materials ch @ [sp_material head],
            ch_place := foldl (\<lambda>m (p, e). m(e \<mapsto> (index, p))) (ch_place ch) (enumerate 0 fs),
            ch_direction :=
              foldl (\<lambda>m (p, e). m(e \<mapsto> (if fst (es ! e) = vs ! p then 1 else -1)))
                (ch_direction ch) (enumerate 0 fs)\<rparr>)"

definition push_end :: "nat \<Rightarrow> nat \<times> side \<Rightarrow> chain \<Rightarrow> pyexn + chain" where
  \<comment> \<open>\<open>junction_ends[node].append(end)\<close>\<close>
  "push_end v x ch =
     (if v \<in> fst ` set (ch_ends ch)
      then Inr (ch\<lparr>ch_ends := map (\<lambda>(u, xs). (u, if u = v then xs @ [x] else xs)) (ch_ends ch)\<rparr>)
      else Inl KeyError)"

definition chain_from :: "span list \<Rightarrow> edges \<Rightarrow> chain \<Rightarrow> nat \<times> nat \<Rightarrow> pyexn + chain" where
  "chain_from ss es ch start =
     (case start of (v, e) \<Rightarrow>
        if ch_walked ch ! e then Inr ch
        else bindE (walk es (ch_boundary ch) (length es) v e (ch_walked ch)) (\<lambda>(vs, fs, walked).
             let index = length (ch_polylines ch)
             in bindE (push_end v (index, Start)
                         ((record_path ss es (v # vs) fs ch)\<lparr>ch_walked := walked\<rparr>))
                  (push_end (last vs) (index, End))))"

definition starts :: "edges \<Rightarrow> bool list \<Rightarrow> (nat \<times> nat) list" where
  "starts es bd =
     concat (map (\<lambda>v. if bd ! v then map (\<lambda>(_, e). (v, e)) (neighbours es v) else [])
       [0..<length bd])"

section \<open>Closed loops\<close>

definition visit :: "bool list \<Rightarrow> nat list \<times> nat list \<Rightarrow> nat \<Rightarrow> nat list \<times> nat list" where
  "visit walked st other =
     (case st of (stack, seen) \<Rightarrow>
        if other \<notin> set seen \<and> \<not> walked ! other then (other # stack, other # seen) else (stack, seen))"

fun component :: "edges \<Rightarrow> nat \<Rightarrow> nat list \<Rightarrow> nat list \<Rightarrow> bool list \<Rightarrow> pyexn + nat list \<times> bool list" where
  \<comment> \<open>the stack has its top in front\<close>
  "component es fuel [] seen walked = Inr ([], walked)"
| "component es 0 (e # stack) seen walked = Inl Diverges"
| "component es (Suc fuel) (e # stack) seen walked =
     (let walked = walked[e := True];
          (stack, seen) = foldl (visit walked) (stack, seen)
            (map snd (neighbours es (fst (es ! e)) @ neighbours es (snd (es ! e))))
      in bindE (component es fuel stack seen walked) (\<lambda>(es', walked). Inr (e # es', walked)))"

definition cut_of :: "span list \<Rightarrow> nat list \<Rightarrow> nat" where
  "cut_of ss found =
     (case filter (\<lambda>e. sp_port (ss ! e) \<noteq> None) found of e # _ \<Rightarrow> e | [] \<Rightarrow> Min (set found))"

definition set_default :: "nat \<Rightarrow> chain \<Rightarrow> chain" where
  "set_default v ch =
     (if v \<in> fst ` set (ch_ends ch) then ch else ch\<lparr>ch_ends := ch_ends ch @ [(v, [])]\<rparr>)"

definition open_loop :: "span list \<Rightarrow> edges \<Rightarrow> nat list \<times> bool list \<Rightarrow> chain \<Rightarrow> chain" where
  \<comment> \<open>the cut edge a polyline of its own, its nodes boundaries, the rest of the loop unwalked\<close>
  "open_loop ss es cw ch =
     (case cw of (found, walked) \<Rightarrow>
        let cut = cut_of ss found; (a, b) = es ! cut;
            ch = record_path ss es [a, b] [cut] ch;
            ch = ch\<lparr>ch_boundary := (ch_boundary ch)[a := True, b := True]\<rparr>;
            ch = set_default b (set_default a ch)
        in ch\<lparr>ch_walked := foldl (\<lambda>w e. if e \<noteq> cut then w[e := False] else w) walked found\<rparr>)"

definition cut_cycle :: "span list \<Rightarrow> edges \<Rightarrow> chain \<Rightarrow> pyexn + chain" where
  "cut_cycle ss es ch =
     (case index_of Not (ch_walked ch) of
        None \<Rightarrow> Inl StopIteration
      | Some seed \<Rightarrow>
          bindE (component es (length es) [seed] [seed] (ch_walked ch)) (\<lambda>(found, walked).
          let cut = cut_of ss found; (a, b) = es ! cut; cut_index = length (ch_polylines ch);
              ch = open_loop ss es (found, walked) ch
          in case find (\<lambda>(_, e). e \<noteq> cut \<and> \<not> ch_walked ch ! e) (neighbours es b) of
               None \<Rightarrow> Inl StopIteration
             | Some (_, first) \<Rightarrow>
                 bindE (walk es (ch_boundary ch) (length es) b first (ch_walked ch)) (\<lambda>(vs, fs, walked).
                 let loop_index = length (ch_polylines ch);
                     ch = (record_path ss es (b # vs) fs ch)\<lparr>ch_walked := walked\<rparr>
                 in bindE (push_end a (cut_index, Start) ch) (\<lambda>ch.
                    bindE (push_end a (loop_index, End) ch) (\<lambda>ch.
                    bindE (push_end b (cut_index, End) ch) (\<lambda>ch.
                    bindE (push_end b (loop_index, Start) ch) (\<lambda>ch.
                    Inr (ch\<lparr>ch_direction := (ch_direction ch)(cut \<mapsto> 1)\<rparr>))))))))"

fun cut_cycles :: "span list \<Rightarrow> edges \<Rightarrow> nat \<Rightarrow> chain \<Rightarrow> pyexn + chain" where
  "cut_cycles ss es fuel ch =
     (if list_all (\<lambda>done. done) (ch_walked ch) then Inr ch
      else case fuel of
             0 \<Rightarrow> Inl Diverges
           | Suc fuel \<Rightarrow> bindE (cut_cycle ss es ch) (cut_cycles ss es fuel))"

definition fresh_chain :: "edges \<Rightarrow> bool list \<Rightarrow> chain" where
  "fresh_chain es bd =
     \<lparr>ch_boundary = bd, ch_walked = replicate (length es) False, ch_polylines = [],
      ch_elements = [], ch_radii = [], ch_materials = [], ch_place = Map.empty,
      ch_direction = Map.empty,
      ch_ends = map (\<lambda>v. (v, [])) (filter (\<lambda>v. bd ! v) [0..<length bd])\<rparr>"

definition chaining :: "span list \<Rightarrow> edges \<Rightarrow> bool list \<Rightarrow> pyexn + chain" where
  "chaining ss es bd =
     bindE (foldE (chain_from ss es) (fresh_chain es bd) (starts es bd)) (cut_cycles ss es (length es))"

section \<open>The mesh\<close>

record mesh =
  me_polylines :: "point list list"
  me_elements :: "int list list"
  me_junctions :: "(nat \<times> side) list list"
  me_radii :: "flt list"
  me_materials :: "wire_material option list"
  me_ports :: "(nat \<times> flt) list"
  me_port_order :: "nat list"
  me_gap_members :: "(nat \<times> side) list"

fun fsqrt :: "flt \<Rightarrow> flt" where
  \<comment> \<open>\<open>np.sqrt\<close>\<close>
  "fsqrt (Fin r) = (if r < 0 then NaN else Fin (sqrt r))"
| "fsqrt PInf = PInf"
| "fsqrt _ = NaN"

definition norm3 :: "point \<Rightarrow> flt" where
  "norm3 v = (case v of (x, y, z) \<Rightarrow> fsqrt ((x * x + y * y) + z * z))"

definition step_length :: "point \<Rightarrow> point \<Rightarrow> flt" where
  \<comment> \<open>\<open>norm3(np.diff(a))\<close> at one step\<close>
  "step_length p q =
     (case (p, q) of ((px, py, pz), (qx, qy, qz)) \<Rightarrow> norm3 (qx - px, qy - py, qz - pz))"

definition step_lengths :: "point list \<Rightarrow> flt list" where
  "step_lengths ps = map2 step_length (butlast ps) (tl ps)"

definition junctions :: "nat list \<Rightarrow> (nat \<times> (nat \<times> side) list) list \<Rightarrow> (nat \<times> side) list list" where
  "junctions forced ends =
     map snd (filter (\<lambda>(v, xs). 2 \<le> length xs \<or> v \<in> set forced \<and> xs \<noteq> []) ends)"

definition port_spans :: "span list \<Rightarrow> (nat \<times> nat) list" where
  \<comment> \<open>the spans that carry a port, with it\<close>
  "port_spans ss =
     concat (map (\<lambda>(i, s). case sp_port s of None \<Rightarrow> [] | Some p \<Rightarrow> [(i, p)]) (enumerate 0 ss))"

definition place_port :: "chain \<Rightarrow> flt list list \<Rightarrow> nat \<times> nat \<Rightarrow> pyexn + nat \<times> flt" where
  "place_port ch lengths ip =
     (case ch_place ch (fst ip) of
        None \<Rightarrow> Inl KeyError
      | Some (polyline, position) \<Rightarrow>
          let ls = lengths ! polyline
          in Inr (polyline, foldl (+) (Fin 0) (take position ls) + Fin (1 / 2) * ls ! position))"

definition gap_member ::
  "span list \<Rightarrow> chain \<Rightarrow> nat \<times> nat \<times> cplx \<Rightarrow> pyexn + nat \<times> side" where
  \<comment> \<open>\<open>_node_gap_member\<close>\<close>
  "gap_member ss ch gap =
     (case gap of (wire, vertex, _) \<Rightarrow>
        let at_start = (vertex = 0); edge = vertex - 1
        in case index_of (\<lambda>s. sp_wire s = wire \<and> sp_edge s = edge \<and>
                       (if at_start then sp_at_start s else sp_at_end s)) ss of
             None \<Rightarrow> Inl ValueError
           | Some i \<Rightarrow>
               case (ch_place ch i, ch_direction ch i) of
                 (Some (polyline, position), Some direction) \<Rightarrow>
                   let knot = position + (if at_start = (direction = 1) then 0 else 1)
                   in if knot \<noteq> 0 \<and> knot \<noteq> length (ch_elements ch ! polyline) then Inl ValueError
                      else Inr (polyline, if knot = 0 then Start else End)
               | _ \<Rightarrow> Inl KeyError)"

definition mesh_graph :: "deck_model \<Rightarrow> span list \<Rightarrow> pyexn + node_table \<times> edges \<times> bool list \<times> nat list" where
  \<comment> \<open>the nodes, the edges, \<open>boundary\<close> and \<open>node_gap_nodes\<close>\<close>
  "mesh_graph m ss =
     bindE (foldE add_edge ([], []) ss) (\<lambda>(nodes, es).
     let bd = map (ends_polyline m ss nodes es) [0..<length nodes]
     in bindE (foldE (gap_node m) (nodes, []) (dm_node_gaps m)) (\<lambda>(nodes, forced).
        bindE (foldE force bd forced) (\<lambda>bd. Inr (nodes, es, bd, forced))))"

definition mesh_of :: "deck_model \<Rightarrow> span list \<Rightarrow> node_table \<Rightarrow> nat list \<Rightarrow> chain \<Rightarrow> pyexn + mesh" where
  "mesh_of m ss nodes forced ch =
     (let arrays = map (map (\<lambda>v. snd (nodes ! v))) (ch_polylines ch);
          lengths = map step_lengths arrays
      in bindE (mapE (place_port ch lengths) (port_spans ss)) (\<lambda>placed.
         bindE (mapE (gap_member ss ch) (dm_node_gaps m)) (\<lambda>members.
         Inr \<lparr>me_polylines = arrays, me_elements = ch_elements ch,
              me_junctions = junctions forced (ch_ends ch),
              me_radii = ch_radii ch, me_materials = ch_materials ch,
              me_ports = placed, me_port_order = map snd (port_spans ss),
              me_gap_members = members\<rparr>)))"

definition to_polylines :: "deck_model \<Rightarrow> (nat \<times> flt) list \<Rightarrow> pyexn + mesh" where
  "to_polylines m ports =
     bindE (split_at_plane m) (\<lambda>m.
     bindE (spans m ports) (\<lambda>ss.
     bindE (guardE (ss = []) ValueError) (\<lambda>_.
     bindE (mesh_graph m ss) (\<lambda>(nodes, es, bd, forced).
     bindE (chaining ss es bd) (\<lambda>ch. mesh_of m ss nodes forced ch)))))"

end
