(* ===== verification/Mesh_Walk.thy ===== *)
theory Mesh_Walk
  imports Mesh_Chain
begin

text \<open>
  The walk of \<^theory_text>\<open>Mesh_Chain\<close> over the graph of spans.  An edge set is closed at a node when it
  holds all of the node's edges or none.  A walk that starts at a boundary node, on an edge
  outside a set that is closed at every other node, never meets a walked edge: at each node
  in between, of two edges, one has just been walked and so the other is unwalked.  It
  therefore ends, at a boundary node, and leaves the set closed.
\<close>

section \<open>Incidence\<close>

definition simple_graph :: "edges \<Rightarrow> nat \<Rightarrow> bool" where
  "simple_graph es n \<longleftrightarrow> (\<forall>ab \<in> set es. fst ab \<noteq> snd ab \<and> fst ab < n \<and> snd ab < n)"

definition incident :: "edges \<Rightarrow> nat \<Rightarrow> nat set" where
  "incident es v = {e. e < length es \<and> (fst (es ! e) = v \<or> snd (es ! e) = v)}"

lemma simple_graph_edge:
  "simple_graph es n \<Longrightarrow> e < length es \<Longrightarrow>
     fst (es ! e) \<noteq> snd (es ! e) \<and> fst (es ! e) < n \<and> snd (es ! e) < n"
  by (simp add: simple_graph_def)

lemma in_neighbours:
  "(u, e) \<in> set (neighbours es v) \<longleftrightarrow> e < length es \<and> (es ! e = (v, u) \<or> es ! e = (u, v))"
  by (auto simp: neighbours_def in_set_enumerate_eq split: if_splits intro!: bexI[of _ "(e, es ! e)"])

lemma neighbour_edges: "snd ` set (neighbours es v) = incident es v"
proof (intro set_eqI iffI)
  fix e
  assume "e \<in> incident es v"
  then have "(if fst (es ! e) = v then snd (es ! e) else fst (es ! e), e) \<in> set (neighbours es v)"
    by (cases "es ! e") (auto simp: in_neighbours incident_def)
  then show "e \<in> snd ` set (neighbours es v)"
    by force
qed (auto simp: in_neighbours incident_def)

lemma neighbours_snoc:
  "neighbours (es @ [(a, b)]) v =
     neighbours es v @ (if a = v then [(b, length es)] else []) @ (if b = v then [(a, length es)] else [])"
  by (simp add: neighbours_def enumerate_append_eq)

lemma distinct_neighbours: "simple_graph es n \<Longrightarrow> distinct (map snd (neighbours es v))"
proof (induction es rule: rev_induct)
  case (snoc ab es)
  moreover have "length es \<notin> snd ` set (neighbours es v)"
    by (auto simp: neighbour_edges incident_def)
  ultimately show ?case
    by (cases ab) (auto simp: neighbours_snoc simple_graph_def)
qed (simp add: neighbours_def)

lemma degree_card: "simple_graph es n \<Longrightarrow> length (neighbours es v) = card (incident es v)"
  using distinct_card[OF distinct_neighbours[of es n v]] by (simp flip: neighbour_edges)

lemma finite_incident [simp]: "finite (incident es v)"
  by (simp add: incident_def)

lemma degree_two:
  assumes "simple_graph es n" and "length (neighbours es v) = 2" and "e \<in> incident es v"
  obtains e' where "incident es v = {e, e'}" and "e' \<noteq> e"
proof -
  have "card (incident es v) = 2"
    using assms by (simp add: degree_card)
  then obtain x y where "incident es v = {x, y}" and "x \<noteq> y"
    by (auto simp: card_2_iff)
  then show ?thesis
    using assms(3) that by auto
qed

lemma across_incident:
  assumes "simple_graph es n" and "e \<in> incident es u"
  shows "across es e u \<noteq> u" and "across es e u < n" and "e \<in> incident es (across es e u)"
    and "es ! e = (u, across es e u) \<or> es ! e = (across es e u, u)"
  using assms simple_graph_edge[of es n e]
  by (auto simp: incident_def across_def prod_eq_iff)

lemma incident_ends:
  "simple_graph es n \<Longrightarrow> e \<in> incident es u \<Longrightarrow> e \<in> incident es w \<Longrightarrow> w = u \<or> w = across es e u"
  by (auto simp: incident_def across_def)

lemma find_SomeD: "find P xs = Some x \<Longrightarrow> x \<in> set xs \<and> P x"
  by (induction xs) (auto split: if_splits)

lemma find_other:
  assumes "simple_graph es n" and "incident es v = {e, e'}" and "e' \<noteq> e"
  obtains u where "find (\<lambda>(_, f). f \<noteq> e) (neighbours es v) = Some (u, e')"
proof (cases "find (\<lambda>(_, f). f \<noteq> e) (neighbours es v)")
  case None
  then have "\<forall>f \<in> snd ` set (neighbours es v). f = e"
    by (auto simp: find_None_iff)
  then show ?thesis
    using assms(2,3) by (simp add: neighbour_edges)
next
  case (Some uf)
  then have "snd uf \<noteq> e" and "uf \<in> set (neighbours es v)"
    using find_SomeD[OF Some] by (auto simp: case_prod_beta)
  then have "snd uf = e'"
    using assms(2) neighbour_edges[of es v] by force
  then show ?thesis
    using Some that by (cases uf) auto
qed

section \<open>Trails\<close>

fun trail :: "edges \<Rightarrow> nat \<Rightarrow> nat list \<Rightarrow> nat list \<Rightarrow> bool" where
  \<comment> \<open>from a node, over edges, to the nodes between and at the end\<close>
  "trail es u [] vs \<longleftrightarrow> vs = []"
| "trail es u (e # fs) vs \<longleftrightarrow>
     (case vs of [] \<Rightarrow> False
      | v # vs \<Rightarrow> e < length es \<and> (es ! e = (u, v) \<or> es ! e = (v, u)) \<and> trail es v fs vs)"

lemma trail_length: "trail es u fs vs \<Longrightarrow> length vs = length fs"
  by (induction fs arbitrary: u vs) (auto split: list.splits)

lemma trail_nth:
  "trail es u fs vs \<Longrightarrow> p < length fs \<Longrightarrow>
     fs ! p < length es \<and>
     (es ! (fs ! p) = ((u # vs) ! p, vs ! p) \<or> es ! (fs ! p) = (vs ! p, (u # vs) ! p))"
proof (induction fs arbitrary: u vs p)
  case (Cons e fs)
  then obtain v vs' where vs: "vs = v # vs'" and t: "trail es v fs vs'"
    and e: "e < length es" "es ! e = (u, v) \<or> es ! e = (v, u)"
    by (auto split: list.splits)
  show ?case
  proof (cases p)
    case 0
    then show ?thesis
      using vs e by simp
  next
    case (Suc q)
    then show ?thesis
      using Cons.IH[OF t, of q] Cons.prems(2) vs by simp
  qed
qed simp

lemma trail_edges: "trail es u fs vs \<Longrightarrow> set fs \<subseteq> {..<length es}"
  by (induction fs arbitrary: u vs) (auto split: list.splits)

section \<open>Walked sets\<close>

definition marked :: "bool list \<Rightarrow> nat set" where
  "marked w = {e. e < length w \<and> w ! e}"

lemma marked_update: "e < length w \<Longrightarrow> marked (w[e := True]) = insert e (marked w)"
  by (auto simp: marked_def nth_list_update)

lemma marked_eqI: "length w = length w' \<Longrightarrow> marked w = marked w' \<Longrightarrow> w = w'"
proof (rule nth_equalityI)
  fix i
  assume eq: "length w = length w'" "marked w = marked w'" and i: "i < length w"
  have "w ! i \<longleftrightarrow> i \<in> marked w" and "w' ! i \<longleftrightarrow> i \<in> marked w'"
    using i eq(1) by (simp_all add: marked_def)
  then show "w ! i = w' ! i"
    by (simp add: eq(2))
qed

lemma finite_marked [simp]: "finite (marked w)"
  by (simp add: marked_def)

lemma marked_lt: "marked w \<subseteq> {..<length w}"
  by (auto simp: marked_def)

definition unwalked :: "bool list \<Rightarrow> nat" where
  "unwalked w = card ({..<length w} - marked w)"

lemma unwalked_update:
  assumes "e < length w" and "e \<notin> marked w"
  shows "unwalked w = Suc (unwalked (w[e := True]))"
proof -
  let ?rest = "{..<length w} - marked (w[e := True])"
  have eq: "{..<length w} - marked w = insert e ?rest" and new: "e \<notin> ?rest"
    using assms by (auto simp: marked_update)
  have "card (insert e ?rest) = Suc (card ?rest)"
    using new by (intro card_insert_disjoint) auto
  then show ?thesis
    unfolding unwalked_def eq by simp
qed

definition closed_at :: "edges \<Rightarrow> nat set \<Rightarrow> nat \<Rightarrow> bool" where
  "closed_at es W v \<longleftrightarrow> incident es v \<subseteq> W \<or> incident es v \<inter> W = {}"

text \<open>The nodes in between have two edges.\<close>

definition passes :: "edges \<Rightarrow> bool list \<Rightarrow> bool" where
  "passes es bd \<longleftrightarrow> simple_graph es (length bd) \<and>
     (\<forall>v < length bd. \<not> bd ! v \<longrightarrow> length (neighbours es v) = 2)"

definition all_closed :: "edges \<Rightarrow> bool list \<Rightarrow> nat set \<Rightarrow> bool" where
  "all_closed es bd W \<longleftrightarrow> (\<forall>v < length bd. \<not> bd ! v \<longrightarrow> closed_at es W v)"

text \<open>The state of a walk before an edge: closed elsewhere, and here the one edge is left.\<close>

definition underway :: "edges \<Rightarrow> bool list \<Rightarrow> nat \<Rightarrow> nat \<Rightarrow> nat set \<Rightarrow> bool" where
  "underway es bd u e W \<longleftrightarrow>
     e \<in> incident es u \<and> e \<notin> W \<and>
     (\<forall>v < length bd. \<not> bd ! v \<longrightarrow> v \<noteq> u \<longrightarrow> closed_at es W v) \<and>
     (u < length bd \<longrightarrow> \<not> bd ! u \<longrightarrow> incident es u \<subseteq> insert e W)"

text \<open>What a walk has done when it is over.\<close>

definition walk_done ::
  "edges \<Rightarrow> bool list \<Rightarrow> nat \<Rightarrow> nat \<Rightarrow> bool list \<Rightarrow> nat list \<Rightarrow> nat list \<Rightarrow> bool list \<Rightarrow> bool" where
  "walk_done es bd u e w vs fs w' \<longleftrightarrow>
     trail es u fs vs \<and> fs \<noteq> [] \<and> hd fs = e \<and> distinct fs \<and> set fs \<inter> marked w = {} \<and>
     length w' = length w \<and> marked w' = marked w \<union> set fs \<and>
     set vs \<subseteq> {..<length bd} \<and> bd ! last vs \<and> (\<forall>v \<in> set (butlast vs). \<not> bd ! v) \<and>
     all_closed es bd (marked w')"

lemma underway_step:
  assumes "passes es bd" and "underway es bd u e W" and "\<not> bd ! across es e u"
  obtains e' x where "find (\<lambda>(_, f). f \<noteq> e) (neighbours es (across es e u)) = Some (x, e')"
    and "underway es bd (across es e u) e' (insert e W)"
proof -
  let ?v = "across es e u"
  have graph: "simple_graph es (length bd)" and e: "e \<in> incident es u" and new: "e \<notin> W"
    using assms(1,2) by (auto simp: passes_def underway_def)
  note v = across_incident[OF graph e]
  have deg: "length (neighbours es ?v) = 2"
    using assms(1,3) v(2) by (simp add: passes_def)
  obtain e' where inc: "incident es ?v = {e, e'}" and ne: "e' \<noteq> e"
    using degree_two[OF graph deg v(3)] by blast
  have "closed_at es W ?v"
    using assms(2,3) v(1,2) by (simp add: underway_def)
  then have "e' \<notin> W"
    using inc new by (auto simp: closed_at_def)
  moreover have "closed_at es (insert e W) w" if "w < length bd" "\<not> bd ! w" "w \<noteq> ?v" for w
  proof (cases "w = u")
    case True
    then show ?thesis
      using assms(2) that by (auto simp: underway_def closed_at_def)
  next
    case False
    then have "e \<notin> incident es w"
      using incident_ends[OF graph e] that(3) by blast
    moreover have "closed_at es W w"
      using assms(2) that False by (simp add: underway_def)
    ultimately show ?thesis
      by (auto simp: closed_at_def)
  qed
  ultimately have "underway es bd ?v e' (insert e W)"
    using inc ne by (auto simp: underway_def)
  moreover obtain x where "find (\<lambda>(_, f). f \<noteq> e) (neighbours es ?v) = Some (x, e')"
    using find_other[OF graph inc ne] by blast
  ultimately show ?thesis
    using that by blast
qed

lemma underway_last:
  assumes "passes es bd" and "underway es bd u e W" and "bd ! across es e u"
  shows "all_closed es bd (insert e W)"
  unfolding all_closed_def
proof (intro allI impI)
  fix w
  assume w: "w < length bd" "\<not> bd ! w"
  have graph: "simple_graph es (length bd)" and e: "e \<in> incident es u"
    using assms(1,2) by (auto simp: passes_def underway_def)
  show "closed_at es (insert e W) w"
  proof (cases "w = u")
    case True
    then show ?thesis
      using assms(2) w by (auto simp: underway_def closed_at_def)
  next
    case False
    then have "e \<notin> incident es w"
      using incident_ends[OF graph e] w(2) assms(3) by blast
    moreover have "closed_at es W w"
      using assms(2) w False by (simp add: underway_def)
    ultimately show ?thesis
      by (auto simp: closed_at_def)
  qed
qed

theorem walk_ends:
  assumes "passes es bd" and "length w = length es" and "underway es bd u e (marked w)"
    and "unwalked w \<le> fuel"
  shows "\<exists>vs fs w'. walk es bd fuel u e w = Inr (vs, fs, w') \<and> walk_done es bd u e w vs fs w'"
  using assms(2-4)
proof (induction fuel arbitrary: u e w)
  case 0
  then have "e < length w" and "e \<notin> marked w"
    by (auto simp: underway_def incident_def)
  then show ?case
    using unwalked_update 0 by fastforce
next
  case (Suc fuel)
  let ?v = "across es e u" and ?w = "w[e := True]"
  have graph: "simple_graph es (length bd)" and e: "e \<in> incident es u" and new: "e \<notin> marked w"
    and lt: "e < length w"
    using assms(1) Suc.prems by (auto simp: passes_def underway_def incident_def)
  note v = across_incident[OF graph e] and mark = marked_update[OF lt]
  show ?case
  proof (cases "bd ! ?v")
    case True
    then have "walk_done es bd u e w [?v] [e] ?w"
      using v new mark lt Suc.prems underway_last[OF assms(1) Suc.prems(2)]
      by (auto simp: walk_done_def)
    then show ?thesis
      using True by (auto simp: Let_def)
  next
    case False
    obtain e' x where found: "find (\<lambda>(_, f). f \<noteq> e) (neighbours es ?v) = Some (x, e')"
      and next': "underway es bd ?v e' (insert e (marked w))"
      using underway_step[OF assms(1) Suc.prems(2) False] by blast
    have "unwalked ?w \<le> fuel"
      using unwalked_update[OF lt new] Suc.prems(3) by simp
    then obtain vs fs w' where go: "walk es bd fuel ?v e' ?w = Inr (vs, fs, w')"
      and fin: "walk_done es bd ?v e' ?w vs fs w'"
      using Suc.IH[of ?w ?v e'] Suc.prems(1) next' mark by auto
    have "vs \<noteq> []"
      using fin trail_length[of es ?v fs vs] by (auto simp: walk_done_def)
    then have "walk_done es bd u e w (?v # vs) (e # fs) w'"
      using fin v lt False new mark Suc.prems(1) by (auto simp: walk_done_def)
    then show ?thesis
      using False found go by (auto simp: Let_def)
  qed
qed

end
