(* ===== verification/Mesh_Paths.thy ===== *)
theory Mesh_Paths
  imports Mesh_Walk
begin

text \<open>
  The invariant of the chaining: the polylines recorded so far are trails between boundary
  nodes that use each walked edge once, the tables say where each edge is, and
  \<open>junction_ends\<close> lists at each boundary node the polylines that start and end there.  It
  survives the recording of a polyline and the turning of two nodes of an unwalked edge into
  boundaries.
\<close>

section \<open>What is recorded\<close>

definition end_of :: "nat \<Rightarrow> nat list \<Rightarrow> nat \<Rightarrow> (nat \<times> side) list" where
  \<comment> \<open>what one polyline contributes at a node\<close>
  "end_of i vs u = (if hd vs = u then [(i, Start)] else []) @ (if last vs = u then [(i, End)] else [])"

definition path_ends :: "nat list list \<Rightarrow> nat \<Rightarrow> (nat \<times> side) list" where
  "path_ends ps u = concat (map (\<lambda>(i, vs). end_of i vs u) (enumerate 0 ps))"

lemma path_ends_snoc: "path_ends (ps @ [vs]) u = path_ends ps u @ end_of (length ps) vs u"
  by (simp add: path_ends_def enumerate_append_eq)

lemma path_ends_empty: "(\<And>vs. vs \<in> set ps \<Longrightarrow> hd vs \<noteq> u \<and> last vs \<noteq> u) \<Longrightarrow> path_ends ps u = []"
  by (induction ps rule: rev_induct) (simp add: path_ends_def, simp add: path_ends_snoc end_of_def)

definition path_ok :: "edges \<Rightarrow> bool list \<Rightarrow> nat list \<Rightarrow> nat list \<Rightarrow> bool" where
  "path_ok es bd fs vs \<longleftrightarrow>
     fs \<noteq> [] \<and> vs \<noteq> [] \<and> trail es (hd vs) fs (tl vs) \<and> set vs \<subseteq> {..<length bd} \<and>
     bd ! hd vs \<and> bd ! last vs \<and> (\<forall>v \<in> set (butlast (tl vs)). \<not> bd ! v)"

definition places_ok :: "edges \<Rightarrow> nat list list \<Rightarrow> chain \<Rightarrow> bool" where
  "places_ok es paths ch \<longleftrightarrow>
     (\<forall>i < length paths. \<forall>p < length (paths ! i).
        ch_place ch (paths ! i ! p) = Some (i, p) \<and>
        ch_direction ch (paths ! i ! p) =
          Some (if fst (es ! (paths ! i ! p)) = ch_polylines ch ! i ! p then 1 else -1))"

definition ends_ok :: "chain \<Rightarrow> bool" where
  "ends_ok ch \<longleftrightarrow>
     distinct (map fst (ch_ends ch)) \<and> fst ` set (ch_ends ch) = marked (ch_boundary ch) \<and>
     (\<forall>(u, xs) \<in> set (ch_ends ch). xs = path_ends (ch_polylines ch) u)"

definition chained :: "span list \<Rightarrow> edges \<Rightarrow> chain \<Rightarrow> nat list list \<Rightarrow> bool" where
  "chained ss es ch paths \<longleftrightarrow>
     passes es (ch_boundary ch) \<and> length (ch_walked ch) = length es \<and>
     all_closed es (ch_boundary ch) (marked (ch_walked ch)) \<and>
     list_all2 (path_ok es (ch_boundary ch)) paths (ch_polylines ch) \<and>
     distinct (concat paths) \<and> set (concat paths) = marked (ch_walked ch) \<and>
     ch_elements ch = map (map (\<lambda>e. sp_n (ss ! e))) paths \<and>
     ch_radii ch = map (\<lambda>fs. sp_radius (ss ! hd fs)) paths \<and>
     ch_materials ch = map (\<lambda>fs. sp_material (ss ! hd fs)) paths \<and>
     dom (ch_place ch) = marked (ch_walked ch) \<and> places_ok es paths ch \<and> ends_ok ch"

section \<open>Recording a polyline\<close>

lemma foldl_table_out':
  "x \<notin> set fs \<Longrightarrow> foldl (\<lambda>m (p, e). m(e \<mapsto> f p e)) m (enumerate k fs) x = m x"
  by (induction fs arbitrary: m k) (simp_all add: fun_upd_other del: fun_upd_apply)

lemma foldl_table_in':
  "distinct fs \<Longrightarrow> p < length fs \<Longrightarrow>
     foldl (\<lambda>m (p, e). m(e \<mapsto> f p e)) m (enumerate k fs) (fs ! p) = Some (f (k + p) (fs ! p))"
proof (induction fs arbitrary: m k p)
  case (Cons e fs)
  show ?case
  proof (cases p)
    case 0
    then show ?thesis
      using Cons.prems by (simp add: foldl_table_out' fun_upd_same del: fun_upd_apply)
  next
    case (Suc q)
    then show ?thesis
      using Cons.prems Cons.IH[of q "m(e \<mapsto> f k e)" "Suc k"] by (simp del: fun_upd_apply)
  qed
qed simp

lemmas foldl_table_out = foldl_table_out'[where k = 0]
lemmas foldl_table_in = foldl_table_in'[where k = 0, unfolded add_0]

definition add_path :: "span list \<Rightarrow> edges \<Rightarrow> bool list \<Rightarrow> nat list \<Rightarrow> nat list \<Rightarrow> chain \<Rightarrow> chain" where
  "add_path ss es w vs fs ch =
     (record_path ss es vs fs ch)
       \<lparr>ch_walked := w,
        ch_ends := map (\<lambda>(u, xs). (u, xs @ end_of (length (ch_polylines ch)) vs u)) (ch_ends ch)\<rparr>"

lemma record_path_sel [simp]:
  "ch_boundary (record_path ss es vs fs ch) = ch_boundary ch"
  "ch_walked (record_path ss es vs fs ch) = ch_walked ch"
  "ch_polylines (record_path ss es vs fs ch) = ch_polylines ch @ [vs]"
  "ch_elements (record_path ss es vs fs ch) = ch_elements ch @ [map (\<lambda>e. sp_n (ss ! e)) fs]"
  "ch_radii (record_path ss es vs fs ch) = ch_radii ch @ [sp_radius (ss ! (fs ! 0))]"
  "ch_materials (record_path ss es vs fs ch) = ch_materials ch @ [sp_material (ss ! (fs ! 0))]"
  "ch_ends (record_path ss es vs fs ch) = ch_ends ch"
  by (simp_all add: record_path_def Let_def)

lemma places_ok_record:
  assumes "places_ok es paths ch" and "distinct fs" and "set fs \<inter> set (concat paths) = {}"
    and "length paths = length (ch_polylines ch)"
  shows "places_ok es (paths @ [fs]) (record_path ss es vs fs ch)"
  unfolding places_ok_def
proof (intro allI impI)
  fix i p
  assume i: "i < length (paths @ [fs])" and p: "p < length ((paths @ [fs]) ! i)"
  show "ch_place (record_path ss es vs fs ch) ((paths @ [fs]) ! i ! p) = Some (i, p) \<and>
    ch_direction (record_path ss es vs fs ch) ((paths @ [fs]) ! i ! p) =
      Some (if fst (es ! ((paths @ [fs]) ! i ! p)) = ch_polylines (record_path ss es vs fs ch) ! i ! p
            then 1 else -1)"
  proof (cases "i = length paths")
    case True
    then show ?thesis
      using p assms(2,4)
        foldl_table_in[of fs p "\<lambda>p e. (length (ch_polylines ch), p)" "ch_place ch"]
        foldl_table_in[of fs p "\<lambda>p e. if fst (es ! e) = vs ! p then 1 else -1" "ch_direction ch"]
      by (simp add: record_path_def Let_def nth_append)
  next
    case False
    then have lt: "i < length paths" and p': "p < length (paths ! i)"
      using i p by (auto simp: nth_append)
    then have "paths ! i ! p \<in> set (concat paths)"
      unfolding set_concat by (intro UN_I[of "paths ! i"]) simp_all
    then have "paths ! i ! p \<notin> set fs"
      using assms(3) by blast
    then show ?thesis
      using lt p' assms
        foldl_table_out[of "paths ! i ! p" fs "\<lambda>p e. (length (ch_polylines ch), p)" "ch_place ch"]
        foldl_table_out[of "paths ! i ! p" fs "\<lambda>p e. if fst (es ! e) = vs ! p then 1 else -1" "ch_direction ch"]
      by (simp add: record_path_def Let_def nth_append places_ok_def)
  qed
qed

lemma dom_place_record:
  assumes "distinct fs"
  shows "dom (ch_place (record_path ss es vs fs ch)) = dom (ch_place ch) \<union> set fs"
proof (intro set_eqI iffI)
  let ?t = "foldl (\<lambda>m (p, e). m(e \<mapsto> (length (ch_polylines ch), p))) (ch_place ch) (enumerate 0 fs)"
  have t: "ch_place (record_path ss es vs fs ch) = ?t"
    by (simp add: record_path_def Let_def)
  note out = foldl_table_out[of _ fs "\<lambda>p e. (length (ch_polylines ch), p)" "ch_place ch"]
  fix e
  show "e \<in> dom (ch_place (record_path ss es vs fs ch)) \<Longrightarrow> e \<in> dom (ch_place ch) \<union> set fs"
    unfolding t using out[of e] by (cases "e \<in> set fs") (simp_all add: domIff)
  assume e: "e \<in> dom (ch_place ch) \<union> set fs"
  show "e \<in> dom (ch_place (record_path ss es vs fs ch))"
  proof (cases "e \<in> set fs")
    case True
    then obtain p where "p < length fs" and "fs ! p = e"
      by (auto simp: in_set_conv_nth)
    then show ?thesis
      unfolding t using foldl_table_in[OF assms, of p "\<lambda>p e. (length (ch_polylines ch), p)" "ch_place ch"]
      by auto
  next
    case False
    then show ?thesis
      unfolding t using out[of e] e by (simp add: domIff)
  qed
qed

lemma ends_ok_add:
  assumes "ends_ok ch"
  shows "ends_ok (add_path ss es w vs fs ch)"
proof -
  have keys: "fst \<circ> (\<lambda>(u, xs). (u, xs @ end_of (length (ch_polylines ch)) vs u)) = fst"
    by (auto simp: fun_eq_iff)
  show ?thesis
    using assms by (auto simp: ends_ok_def add_path_def path_ends_snoc keys image_comp)
qed

theorem chained_add:
  assumes "chained ss es ch paths" and "path_ok es (ch_boundary ch) fs vs" and "distinct fs"
    and "set fs \<inter> marked (ch_walked ch) = {}" and "length w = length es"
    and "marked w = marked (ch_walked ch) \<union> set fs" and "all_closed es (ch_boundary ch) (marked w)"
  shows "chained ss es (add_path ss es w vs fs ch) (paths @ [fs])"
proof -
  have len: "length paths = length (ch_polylines ch)"
    using assms(1) by (auto simp: chained_def dest: list_all2_lengthD)
  have sets: "set (concat paths) = marked (ch_walked ch)"
    using assms(1) by (simp only: chained_def)
  have "places_ok es (paths @ [fs]) (record_path ss es vs fs ch)"
    using assms sets len by (intro places_ok_record) (auto simp: chained_def)
  then have "places_ok es (paths @ [fs]) (add_path ss es w vs fs ch)"
    by (simp add: places_ok_def add_path_def)
  moreover have "fs ! 0 = hd fs"
    using assms(2) by (simp add: path_ok_def hd_conv_nth)
  moreover have "ends_ok (add_path ss es w vs fs ch)"
    using assms(1) by (intro ends_ok_add) (simp add: chained_def)
  moreover have "distinct (concat (paths @ [fs]))" and "set (concat (paths @ [fs])) = marked w"
    using assms sets by (auto simp: chained_def)
  moreover have "dom (ch_place (add_path ss es w vs fs ch)) = marked w"
    using assms dom_place_record[OF assms(3), of ss es vs ch] by (simp add: add_path_def chained_def)
  ultimately show ?thesis
    using assms len unfolding chained_def
    by (simp add: add_path_def list_all2_appendI)
qed

section \<open>New boundaries\<close>

lemma path_interior_walked:
  assumes "path_ok es bd fs vs" and "v \<in> set vs"
  shows "\<exists>e \<in> set fs. e \<in> incident es v"
proof -
  obtain u us where vs: "vs = u # us" and t: "trail es u fs us" and ne: "fs \<noteq> []"
    using assms(1) by (cases vs) (auto simp: path_ok_def)
  obtain p where p: "p < length vs" "vs ! p = v"
    using assms(2) by (auto simp: in_set_conv_nth)
  have len: "length us = length fs"
    using trail_length[OF t] .
  show ?thesis
  proof (cases p)
    case 0
    then have "fs ! 0 \<in> set fs" and "fs ! 0 \<in> incident es v"
      using trail_nth[OF t, of 0] ne p vs by (auto simp: incident_def)
    then show ?thesis ..
  next
    case (Suc q)
    then have "q < length fs"
      using p vs len by simp
    then have "fs ! q \<in> set fs" and "fs ! q \<in> incident es v"
      using trail_nth[OF t, of q] p vs Suc by (auto simp: incident_def)
    then show ?thesis ..
  qed
qed

definition raise_boundary :: "nat \<Rightarrow> chain \<Rightarrow> chain" where
  "raise_boundary a ch = ch\<lparr>ch_boundary := (ch_boundary ch)[a := True], ch_ends := ch_ends ch @ [(a, [])]\<rparr>"

lemma passes_raise: "passes es bd \<Longrightarrow> passes es (bd[a := True])"
  by (cases "a < length bd") (auto simp: passes_def nth_list_update split: if_splits)

lemma all_closed_raise: "all_closed es bd W \<Longrightarrow> all_closed es (bd[a := True]) W"
  by (cases "a < length bd") (auto simp: all_closed_def nth_list_update split: if_splits)

theorem chained_raise:
  assumes "chained ss es ch paths" and "a < length (ch_boundary ch)" and "\<not> ch_boundary ch ! a"
    and "incident es a \<inter> marked (ch_walked ch) = {}"
  shows "chained ss es (raise_boundary a ch) paths"
proof -
  let ?bd = "ch_boundary ch" and ?ps = "ch_polylines ch"
  have ok: "list_all2 (path_ok es ?bd) paths ?ps" and sets: "set (concat paths) = marked (ch_walked ch)"
    using assms(1) by (simp_all only: chained_def)
  have away: "a \<notin> set vs" if fs: "fs \<in> set paths" "path_ok es ?bd fs vs" for fs vs
  proof
    assume "a \<in> set vs"
    then obtain e where "e \<in> set fs" "e \<in> incident es a"
      using path_interior_walked[OF fs(2)] by blast
    moreover have "e \<in> marked (ch_walked ch)"
      using \<open>e \<in> set fs\<close> fs(1) by (auto simp flip: sets)
    ultimately show False
      using assms(4) by blast
  qed
  have "list_all2 (path_ok es (?bd[a := True])) paths ?ps"
    using ok
  proof (rule list.rel_mono_strong)
    fix fs vs
    assume "fs \<in> set paths" and *: "path_ok es ?bd fs vs"
    then have "a \<notin> set vs" and "vs \<noteq> []"
      using away by (auto simp: path_ok_def)
    moreover have "set (butlast (tl vs)) \<subseteq> set vs"
      using \<open>vs \<noteq> []\<close> by (cases vs) (auto dest: in_set_butlastD)
    ultimately show "path_ok es (?bd[a := True]) fs vs"
      using * assms(2) by (auto simp: path_ok_def nth_list_update)
  qed
  moreover have "path_ends ?ps a = []"
  proof (rule path_ends_empty)
    fix vs
    assume "vs \<in> set ?ps"
    then obtain fs where "fs \<in> set paths" and *: "path_ok es ?bd fs vs"
      using ok by (metis in_set_conv_nth list_all2_conv_all_nth)
    then have "?bd ! hd vs" and "?bd ! last vs"
      by (simp_all add: path_ok_def)
    then show "hd vs \<noteq> a \<and> last vs \<noteq> a"
      using assms(3) by auto
  qed
  then have "ends_ok (raise_boundary a ch)"
    using assms(1-3) by (auto simp: chained_def ends_ok_def raise_boundary_def marked_def nth_list_update)
  moreover have "places_ok es paths (raise_boundary a ch)"
    using assms(1) by (simp add: chained_def places_ok_def raise_boundary_def)
  ultimately show ?thesis
    using assms(1) unfolding chained_def
    by (simp add: raise_boundary_def passes_raise all_closed_raise)
qed

end
