(* ===== verification/Mesh_Loops.thy ===== *)
theory Mesh_Loops
  imports Mesh_Paths
begin

text \<open>
  The chaining as a whole: the walks from the boundary nodes use every edge at a boundary
  node; what is left are closed loops, and cutting one at an edge leaves a walk from one end
  of the cut to the other.  So the chaining always returns, with every edge on a polyline.
\<close>

section \<open>From the boundary nodes\<close>

lemma push_end_ok:
  "v \<in> fst ` set (ch_ends ch) \<Longrightarrow>
     push_end v x ch =
       Inr (ch\<lparr>ch_ends := map (\<lambda>(u, xs). (u, xs @ (if u = v then [x] else []))) (ch_ends ch)\<rparr>)"
  by (auto simp: push_end_def intro!: chain.equality)

lemma fst_map_push [simp]: "fst ` (\<lambda>(u, xs). (u, f u xs)) ` A = fst ` A"
  by (force simp: image_iff)

lemma push_both:
  assumes "hd vs \<in> fst ` set (ch_ends ch)" and "last vs \<in> fst ` set (ch_ends ch)"
  shows "bindE (push_end (hd vs) (length (ch_polylines ch), Start)
                 ((record_path ss es vs fs ch)\<lparr>ch_walked := w\<rparr>))
            (push_end (last vs) (length (ch_polylines ch), End)) =
         Inr (add_path ss es w vs fs ch)"
  using assms by (simp add: push_end_ok add_path_def end_of_def case_prod_unfold o_def image_image eq_commute[of "hd vs"]
      eq_commute[of "last vs"])

lemma walk_path_ok:
  assumes "walk_done es bd u e w vs fs w'" and "u < length bd" and "bd ! u"
  shows "path_ok es bd fs (u # vs)"
proof -
  have "vs \<noteq> []"
    using assms(1) trail_length[of es u fs vs] by (auto simp: walk_done_def)
  then show ?thesis
    using assms by (simp add: walk_done_def path_ok_def)
qed

lemma chained_walk:
  assumes "chained ss es ch paths" and "underway es (ch_boundary ch) u e (marked (ch_walked ch))"
    and "u < length (ch_boundary ch)" and "ch_boundary ch ! u"
  obtains vs fs w where "walk es (ch_boundary ch) (length es) u e (ch_walked ch) = Inr (vs, fs, w)"
    and "walk_done es (ch_boundary ch) u e (ch_walked ch) vs fs w"
    and "chained ss es (add_path ss es w (u # vs) fs ch) (paths @ [fs])"
proof -
  have len: "length (ch_walked ch) = length es" and pass: "passes es (ch_boundary ch)"
    using assms(1) by (simp_all only: chained_def)
  have "unwalked (ch_walked ch) \<le> length es"
    using card_mono[of "{..<length es}" "{..<length es} - marked (ch_walked ch)"]
    by (auto simp: unwalked_def len)
  then obtain vs fs w where go: "walk es (ch_boundary ch) (length es) u e (ch_walked ch) = Inr (vs, fs, w)"
    and fin: "walk_done es (ch_boundary ch) u e (ch_walked ch) vs fs w"
    using walk_ends[OF pass len assms(2)] by blast
  have "chained ss es (add_path ss es w (u # vs) fs ch) (paths @ [fs])"
  proof (rule chained_add[OF assms(1) walk_path_ok[OF fin assms(3,4)]])
    show "length w = length es"
      using fin len by (simp add: walk_done_def)
  qed (use fin in \<open>unfold walk_done_def, blast+\<close>)
  then show ?thesis
    using that go fin by blast
qed

lemma underway_start:
  assumes "chained ss es ch paths" and "bd = ch_boundary ch" and "bd ! u" and "e \<in> incident es u"
    and "e \<notin> marked (ch_walked ch)"
  shows "underway es bd u e (marked (ch_walked ch))"
  using assms by (auto simp: underway_def chained_def all_closed_def)

lemma boundary_has_ends:
  "chained ss es ch paths \<Longrightarrow> v < length (ch_boundary ch) \<Longrightarrow> ch_boundary ch ! v \<Longrightarrow>
     v \<in> fst ` set (ch_ends ch)"
  by (simp add: chained_def ends_ok_def marked_def)

lemma walk_done_last:
  "walk_done es bd u e w vs fs w' \<Longrightarrow> vs \<noteq> [] \<and> last vs < length bd \<and> bd ! last vs"
  using trail_length[of es u fs vs] by (cases vs rule: rev_cases) (auto simp: walk_done_def)

definition extends :: "chain \<Rightarrow> chain \<Rightarrow> bool" where
  "extends ch ch' \<longleftrightarrow>
     ch_boundary ch' = ch_boundary ch \<and> marked (ch_walked ch) \<subseteq> marked (ch_walked ch')"

lemma chain_from_ok:
  assumes "chained ss es ch paths" and "v < length (ch_boundary ch)" and "ch_boundary ch ! v"
    and "e \<in> incident es v"
  shows "\<exists>ch' paths'. chain_from ss es ch (v, e) = Inr ch' \<and> chained ss es ch' paths' \<and>
           extends ch ch' \<and> e \<in> marked (ch_walked ch')"
proof (cases "ch_walked ch ! e")
  case True
  then have "e \<in> marked (ch_walked ch)"
    using assms(1,4) by (simp add: chained_def marked_def incident_def)
  then show ?thesis
    using True assms(1) by (intro exI[of _ ch] exI[of _ paths]) (simp add: chain_from_def extends_def)
next
  case False
  then have "e \<notin> marked (ch_walked ch)"
    by (simp add: marked_def)
  then have "underway es (ch_boundary ch) v e (marked (ch_walked ch))"
    using underway_start[OF assms(1) refl assms(3,4)] by blast
  from chained_walk[OF assms(1) this assms(2,3)]
  obtain vs fs w where go: "walk es (ch_boundary ch) (length es) v e (ch_walked ch) = Inr (vs, fs, w)"
    and fin: "walk_done es (ch_boundary ch) v e (ch_walked ch) vs fs w"
    and ok: "chained ss es (add_path ss es w (v # vs) fs ch) (paths @ [fs])" .
  note last = walk_done_last[OF fin]
  have "chain_from ss es ch (v, e) = Inr (add_path ss es w (v # vs) fs ch)"
    using push_both[where vs = "v # vs" and ch = ch and ss = ss and es = es and fs = fs and w = w] boundary_has_ends[OF assms(1)] assms(2,3) last False go
    by (simp add: chain_from_def Let_def)
  moreover have "extends ch (add_path ss es w (v # vs) fs ch) \<and>
      e \<in> marked (ch_walked (add_path ss es w (v # vs) fs ch))"
    using fin by (cases fs) (auto simp: extends_def add_path_def walk_done_def)
  ultimately show ?thesis
    using ok by blast
qed

lemma chain_from_all:
  assumes "chained ss es ch paths"
    and "\<forall>(v, e) \<in> set xs. v < length (ch_boundary ch) \<and> ch_boundary ch ! v \<and> e \<in> incident es v"
  shows "\<exists>ch' paths'. foldE (chain_from ss es) ch xs = Inr ch' \<and> chained ss es ch' paths' \<and>
           extends ch ch' \<and> snd ` set xs \<subseteq> marked (ch_walked ch')"
  using assms
proof (induction xs arbitrary: ch paths)
  case Nil
  then show ?case
    by (auto simp: extends_def)
next
  case (Cons x xs)
  obtain v e where x: "x = (v, e)"
    by (cases x)
  then obtain ch1 paths1 where 1: "chain_from ss es ch x = Inr ch1" "chained ss es ch1 paths1"
      "extends ch ch1" "e \<in> marked (ch_walked ch1)"
    using chain_from_ok[OF Cons.prems(1), of v e] Cons.prems(2) by auto
  moreover have "\<forall>(v, e) \<in> set xs. v < length (ch_boundary ch1) \<and> ch_boundary ch1 ! v \<and> e \<in> incident es v"
    using Cons.prems(2) 1(3) by (auto simp: extends_def)
  ultimately obtain ch' paths' where "foldE (chain_from ss es) ch1 xs = Inr ch'"
      "chained ss es ch' paths'" "extends ch1 ch'" "snd ` set xs \<subseteq> marked (ch_walked ch')"
    using Cons.IH[of ch1 paths1] by blast
  then show ?case
    using 1 x by (intro exI[of _ ch'] exI[of _ paths']) (auto simp: extends_def)
qed

definition saturated :: "edges \<Rightarrow> bool list \<Rightarrow> nat set \<Rightarrow> bool" where
  "saturated es bd W \<longleftrightarrow> (\<forall>v < length bd. bd ! v \<longrightarrow> incident es v \<subseteq> W)"

lemma set_starts:
  "set (starts es bd) = {(v, e). v < length bd \<and> bd ! v \<and> e \<in> incident es v}"
proof -
  have "(\<lambda>(_, e). (v, e)) ` set (neighbours es v) = Pair v ` snd ` set (neighbours es v)" for v
    by (simp add: image_image case_prod_unfold)
  then show ?thesis
    by (auto simp: starts_def neighbour_edges split: if_splits)
qed

lemma fresh_chained: "passes es bd \<Longrightarrow> chained ss es (fresh_chain es bd) []"
  by (auto simp: chained_def fresh_chain_def all_closed_def closed_at_def marked_def places_ok_def
      ends_ok_def path_ends_def image_iff distinct_map intro!: inj_onI)

lemma from_boundaries:
  assumes "passes es bd"
  obtains ch paths where "foldE (chain_from ss es) (fresh_chain es bd) (starts es bd) = Inr ch"
    and "chained ss es ch paths" and "ch_boundary ch = bd" and "saturated es bd (marked (ch_walked ch))"
proof -
  have "ch_boundary (fresh_chain es bd) = bd"
    by (simp add: fresh_chain_def)
  then obtain ch paths where *: "foldE (chain_from ss es) (fresh_chain es bd) (starts es bd) = Inr ch"
      "chained ss es ch paths" "extends (fresh_chain es bd) ch"
      "snd ` set (starts es bd) \<subseteq> marked (ch_walked ch)"
    using chain_from_all[OF fresh_chained[OF assms, where ss = ss], of "starts es bd"]
    by (auto simp: set_starts)
  moreover have "saturated es bd (marked (ch_walked ch))"
    using *(4) by (force simp: saturated_def set_starts image_iff)
  ultimately show ?thesis
    using that by (simp add: extends_def fresh_chain_def)
qed

end
