(* ===== verification/Mesh_Cuts.thy ===== *)
theory Mesh_Cuts
  imports Mesh_Loops
begin

text \<open>
  The closed loops of the chaining.  The search for a loop's edges ends and finds only
  unwalked ones; the cut makes the two nodes of one edge boundaries; the walk from one of
  them over the rest of the loop ends at the other.
\<close>

section \<open>The edges of a loop\<close>

lemma visit_all:
  "\<exists>new. foldl (visit w) (stack, seen) xs = (new @ stack, new @ seen) \<and> distinct new \<and>
     set new \<inter> set seen = {} \<and> set new \<subseteq> set xs - {x. w ! x}"
proof (induction xs arbitrary: stack seen)
  case (Cons x xs)
  show ?case
  proof (cases "x \<notin> set seen \<and> \<not> w ! x")
    case True
    then have step: "visit w (stack, seen) x = (x # stack, x # seen)"
      by (simp add: visit_def)
    obtain new where "foldl (visit w) (x # stack, x # seen) xs = (new @ x # stack, new @ x # seen)"
      "distinct new" "set new \<inter> set (x # seen) = {}" "set new \<subseteq> set xs - {x. w ! x}"
      using Cons.IH[of "x # stack" "x # seen"] by blast
    then show ?thesis
      using True by (intro exI[of _ "new @ [x]"]) (auto simp: step)
  next
    case False
    then have "visit w (stack, seen) x = (stack, seen)"
      by (auto simp: visit_def)
    then show ?thesis
      using Cons.IH[of stack seen] by auto
  qed
qed auto

text \<open>What the search keeps: the stack is fresh, and every edge ever pushed has been seen.\<close>

definition searching :: "edges \<Rightarrow> nat list \<Rightarrow> nat list \<Rightarrow> bool list \<Rightarrow> bool" where
  "searching es stack seen w \<longleftrightarrow>
     length w = length es \<and> distinct stack \<and> set stack \<subseteq> set seen \<and> distinct seen \<and>
     set seen \<subseteq> {..<length es} \<and> set stack \<inter> marked w = {}"

lemma searching_step:
  assumes "searching es (e # stack) seen w"
    and "foldl (visit (w[e := True])) (stack, seen) xs = (stack', seen')"
    and "set xs \<subseteq> {..<length es}"
  shows "searching es stack' seen' (w[e := True])"
    and "length stack' + length seen = length stack + length seen'"
proof -
  let ?w = "w[e := True]"
  obtain new where new: "stack' = new @ stack" "seen' = new @ seen" "distinct new"
      "set new \<inter> set seen = {}" "set new \<subseteq> set xs - {x. ?w ! x}"
    using visit_all[of ?w stack seen xs] assms(2) by auto
  have e: "e < length w" "e \<in> set seen" "e \<notin> set stack"
    using assms(1) by (auto simp: searching_def)
  have "set new \<inter> marked ?w = {}"
    using new(5) by (auto simp: marked_def)
  moreover have "set stack \<inter> marked ?w = {}"
    using assms(1) e by (auto simp: searching_def marked_update)
  ultimately show "searching es stack' seen' ?w"
    using assms(1,3) new e by (auto simp: searching_def)
  show "length stack' + length seen = length stack + length seen'"
    by (simp add: new(1,2))
qed

lemma component_ok:
  assumes "searching es stack seen w" and "simple_graph es n"
    and "length es + length stack \<le> fuel + length seen"
  shows "\<exists>found w'. component es fuel stack seen w = Inr (found, w') \<and> length w' = length w \<and>
           marked w' = marked w \<union> set found \<and> set found \<inter> marked w = {} \<and>
           set stack \<subseteq> set found \<and> set found \<subseteq> {..<length es}"
  using assms(1,3)
proof (induction es fuel stack seen w rule: component.induct)
  case (1 es fuel seen w)
  then show ?case
    by auto
next
  case (2 es e stack seen w)
  have "distinct seen" "set seen \<subseteq> {..<length es}"
    using 2 by (simp_all add: searching_def)
  then have "length seen \<le> length es"
    using card_mono[of "{..<length es}" "set seen"] by (simp add: distinct_card)
  then show ?case
    using 2 by simp
next
  case (3 es fuel e stack seen w)
  let ?w = "w[e := True]"
    and ?xs = "map snd (neighbours es (fst (es ! e)) @ neighbours es (snd (es ! e)))"
  obtain stack' seen' where step: "foldl (visit ?w) (stack, seen) ?xs = (stack', seen')"
    by (cases "foldl (visit ?w) (stack, seen) ?xs")
  have "set ?xs \<subseteq> {..<length es}"
    by (auto simp: in_neighbours)
  note next' = searching_step[OF 3(2) step this]
  have e: "e < length w" "e \<notin> marked w"
    using 3(2) by (auto simp: searching_def)
  have "length es + length stack' \<le> fuel + length seen'"
    using 3(3) next'(2) by simp
  then obtain found w' where go: "component es fuel stack' seen' ?w = Inr (found, w')"
    and fin: "length w' = length ?w" "marked w' = marked ?w \<union> set found"
      "set found \<inter> marked ?w = {}" "set stack' \<subseteq> set found" "set found \<subseteq> {..<length es}"
    using 3(1)[OF refl step[symmetric] refl next'(1)] by blast
  have "set stack \<subseteq> set stack'"
    using visit_all[of ?w stack seen ?xs] step by auto
  then show ?case
    using go fin e step 3(2)
    by (intro exI[of _ "e # found"] exI[of _ w'])
      (auto simp: marked_update searching_def Let_def)
qed

lemma marked_reset:
  "set found \<subseteq> {..<length w} \<Longrightarrow>
     length (foldl (\<lambda>w e. if e \<noteq> c then w[e := False] else w) w found) = length w \<and>
     marked (foldl (\<lambda>w e. if e \<noteq> c then w[e := False] else w) w found) = marked w - (set found - {c})"
proof (induction found arbitrary: w)
  case (Cons e found)
  have "marked (w[e := False]) = marked w - {e}"
    by (cases "e < length w") (auto simp: marked_def nth_list_update split: if_splits)
  moreover have "marked w - {e} - (set found - {c}) = marked w - (set (e # found) - {c})" if "e \<noteq> c"
    using that by auto
  ultimately show ?case
    using Cons.prems Cons.IH[of w] Cons.IH[of "w[e := False]"] by (cases "e = c") simp_all
qed simp

lemma cut_of_in:
  assumes "found \<noteq> []"
  shows "cut_of ss found \<in> set found"
proof (cases "filter (\<lambda>e. sp_port (ss ! e) \<noteq> None) found")
  case Nil
  then show ?thesis
    using assms by (simp add: cut_of_def)
next
  case (Cons e es)
  then have "e \<in> set (filter (\<lambda>e. sp_port (ss ! e) \<noteq> None) found)"
    by (simp only: list.set_intros)
  then have "e \<in> set found"
    by simp
  then show ?thesis
    by (simp only: cut_of_def Cons list.case)
qed

section \<open>The state after a cut\<close>

lemma last_edge:
  assumes "trail es u fs vs" and "fs \<noteq> []"
  shows "last fs \<in> incident es (last vs)"
proof -
  have "length vs = length fs"
    using trail_length[OF assms(1)] .
  moreover have "last vs = vs ! (length vs - 1)"
    using calculation assms(2) by (intro last_conv_nth) auto
  ultimately have "last fs = fs ! (length fs - 1)" and "last vs = vs ! (length fs - 1)"
    using assms(2) by (simp_all add: last_conv_nth)
  then show ?thesis
    using trail_nth[OF assms(1), of "length fs - 1"] assms(2) by (auto simp: incident_def)
qed

text \<open>An unwalked edge, when every boundary node's edges are walked: its two nodes are no
  boundaries, and none of their edges is walked.\<close>

lemma unwalked_nodes:
  assumes "chained ss es ch paths" and "saturated es (ch_boundary ch) (marked (ch_walked ch))"
    and "e \<in> incident es a" and "e \<notin> marked (ch_walked ch)"
  shows "a < length (ch_boundary ch)" and "\<not> ch_boundary ch ! a"
    and "incident es a \<inter> marked (ch_walked ch) = {}"
proof -
  have graph: "simple_graph es (length (ch_boundary ch))"
    and cl: "all_closed es (ch_boundary ch) (marked (ch_walked ch))"
    using assms(1) by (auto simp: chained_def passes_def)
  show lt: "a < length (ch_boundary ch)"
    using simple_graph_edge[OF graph, of e] assms(3) by (auto simp: incident_def)
  show nb: "\<not> ch_boundary ch ! a"
    using assms(2-4) lt by (auto simp: saturated_def)
  show "incident es a \<inter> marked (ch_walked ch) = {}"
    using cl lt nb assms(3,4) by (auto simp: all_closed_def closed_at_def)
qed

definition raised :: "nat \<Rightarrow> nat \<Rightarrow> chain \<Rightarrow> chain" where
  "raised a b ch = raise_boundary b (raise_boundary a ch)"

lemma raised_sel [simp]:
  "ch_boundary (raised a b ch) = (ch_boundary ch)[a := True, b := True]"
  "ch_walked (raised a b ch) = ch_walked ch"
  "ch_polylines (raised a b ch) = ch_polylines ch"
  "ch_ends (raised a b ch) = ch_ends ch @ [(a, []), (b, [])]"
  by (simp_all add: raised_def raise_boundary_def)

lemma chained_cut:
  assumes "chained ss es ch paths" and "saturated es (ch_boundary ch) (marked (ch_walked ch))"
    and "c < length es" and "c \<notin> marked (ch_walked ch)" and "es ! c = (a, b)"
    and "length w = length es" and "marked w = insert c (marked (ch_walked ch))"
  shows "chained ss es (add_path ss es w [a, b] [c] (raised a b ch)) (paths @ [[c]])"
proof -
  have inc: "c \<in> incident es a" "c \<in> incident es b"
    using assms(3,5) by (auto simp: incident_def)
  note a = unwalked_nodes[OF assms(1,2) inc(1) assms(4)]
    and b = unwalked_nodes[OF assms(1,2) inc(2) assms(4)]
  have graph: "simple_graph es (length (ch_boundary ch))"
    and cl: "all_closed es (ch_boundary ch) (marked (ch_walked ch))"
    using assms(1) by (auto simp: chained_def passes_def)
  have ne: "a \<noteq> b"
    using simple_graph_edge[OF graph assms(3)] assms(5) by simp
  have "chained ss es (raise_boundary a ch) paths"
    by (rule chained_raise[OF assms(1) a])
  from chained_raise[OF this, of b] have ok: "chained ss es (raised a b ch) paths"
    using b ne by (simp add: raised_def raise_boundary_def)
  show ?thesis
  proof (rule chained_add[OF ok])
    show "path_ok es (ch_boundary (raised a b ch)) [c] [a, b]"
      using a b assms(3,5) ne by (auto simp: path_ok_def nth_list_update)
    show "all_closed es (ch_boundary (raised a b ch)) (marked w)"
      unfolding all_closed_def
    proof (intro allI impI)
      fix v
      assume v: "v < length (ch_boundary (raised a b ch))" "\<not> ch_boundary (raised a b ch) ! v"
      then have "v \<noteq> a" and "v \<noteq> b" and "\<not> ch_boundary ch ! v"
        using a(1) b(1) by (auto simp: nth_list_update split: if_splits)
      then have "c \<notin> incident es v" and "closed_at es (marked (ch_walked ch)) v"
        using cl v(1) assms(5) by (auto simp: incident_def all_closed_def)
      then show "closed_at es (marked w) v"
        by (auto simp: closed_at_def assms(7))
    qed
  qed (use assms(4,6,7) in auto)
qed

text \<open>The walk over the rest of the loop, from one end of the cut, ends at the other.\<close>

lemma loop_closes:
  assumes "chained ss es ch paths" and "saturated es (ch_boundary ch) (marked (ch_walked ch))"
    and "c < length es" and "c \<notin> marked (ch_walked ch)" and "es ! c = (a, b)"
    and "incident es b = {c, e}" and "e \<noteq> c" and "marked w = insert c (marked (ch_walked ch))"
    and "walk_done es ((ch_boundary ch)[a := True, b := True]) b e w vs fs w'"
  shows "last vs = a"
proof (rule ccontr)
  assume other: "last vs \<noteq> a"
  have t: "trail es b fs vs" and fs: "fs \<noteq> []" "hd fs = e" "distinct fs" "set fs \<inter> marked w = {}"
    and bd: "(ch_boundary ch)[a := True, b := True] ! last vs"
    using assms(9) by (auto simp: walk_done_def)
  have graph: "simple_graph es (length (ch_boundary ch))"
    using assms(1) by (auto simp: chained_def passes_def)
  note inc = last_edge[OF t fs(1)]
  have fresh: "last fs \<notin> marked w"
    using fs(1,4) last_in_set by blast
  show False
  proof (cases "last vs = b")
    case True
    then have "last fs = e"
      using inc assms(6,8) fresh by auto
    then have "fs = [e]"
      using fs(1-3) by (cases fs) (auto split: if_splits)
    then have "vs = [b]"
      using t True by (auto split: list.splits)
    then show False
      using t \<open>fs = [e]\<close> simple_graph_edge[OF graph, of e] by auto
  next
    case False
    then have "ch_boundary ch ! last vs"
      using bd other by (auto simp: nth_list_update split: if_splits)
    moreover have "last vs < length (ch_boundary ch)"
      using walk_done_last[OF assms(9)] by simp
    ultimately have "last fs \<in> marked (ch_walked ch)"
      using inc assms(2) by (auto simp: saturated_def)
    then show False
      using fresh assms(8) by simp
  qed
qed

end
