(* ===== verification/Mesh_Cycles.thy ===== *)
theory Mesh_Cycles
  imports Mesh_Cuts
begin

text \<open>
  One closed loop cut and walked, then all of them: the chaining returns, and every edge is
  on exactly one polyline.
\<close>

lemma record_path_frame:
  "record_path ss es vs fs (ch\<lparr>ch_boundary := bd\<rparr>) = (record_path ss es vs fs ch)\<lparr>ch_boundary := bd\<rparr>"
  "record_path ss es vs fs (ch\<lparr>ch_walked := w\<rparr>) = (record_path ss es vs fs ch)\<lparr>ch_walked := w\<rparr>"
  "record_path ss es vs fs (ch\<lparr>ch_ends := xs\<rparr>) = (record_path ss es vs fs ch)\<lparr>ch_ends := xs\<rparr>"
  by (simp_all add: record_path_def Let_def)

lemma raised_alt:
  "raised a b ch =
     ch\<lparr>ch_boundary := (ch_boundary ch)[a := True, b := True], ch_ends := ch_ends ch @ [(a, []), (b, [])]\<rparr>"
  by (simp add: raised_def raise_boundary_def)

lemma open_loop_raised:
  assumes "a \<notin> fst ` set (ch_ends ch)" and "b \<notin> fst ` set (ch_ends ch)" and "a \<noteq> b"
    and "es ! cut_of ss found = (a, b)"
  shows "open_loop ss es (found, w) ch =
    (record_path ss es [a, b] [cut_of ss found] (raised a b ch))
      \<lparr>ch_walked := foldl (\<lambda>w e. if e \<noteq> cut_of ss found then w[e := False] else w) w found\<rparr>"
  using assms
  by (simp add: open_loop_def Let_def set_default_def raised_alt record_path_frame)

text \<open>The four entries in \<open>junction_ends\<close> after a loop.\<close>

lemma push_loop:
  assumes "a \<noteq> b" and "a \<in> fst ` set (ch_ends ch)" and "b \<in> fst ` set (ch_ends ch)"
  shows "bindE (push_end a (i, Start) ch) (\<lambda>ch. bindE (push_end a (j, End) ch) (\<lambda>ch.
           bindE (push_end b (i, End) ch) (\<lambda>ch. bindE (push_end b (j, Start) ch) (\<lambda>ch. Inr (f ch))))) =
         Inr (f (ch\<lparr>ch_ends := map (\<lambda>(u, xs). (u, xs @ (if u = a then [(i, Start), (j, End)]
                    else if u = b then [(i, End), (j, Start)] else []))) (ch_ends ch)\<rparr>))"
proof -
  have "(if u = a then [(i, Start)] else []) @ (if u = a then [(j, End)] else []) @
          (if u = b then [(i, End)] else []) @ (if u = b then [(j, Start)] else []) =
        (if u = a then [(i, Start), (j, End)] else if u = b then [(i, End), (j, Start)] else [])" for u
    using assms(1) by simp
  then show ?thesis
    using assms(2,3) by (simp add: push_end_ok case_prod_unfold o_def image_image)
qed

lemma loop_ends:
  assumes "a \<noteq> b" and "last (b # vs) = a"
  shows "end_of i [a, b] u @ end_of j (b # vs) u =
    (if u = a then [(i, Start), (j, End)] else if u = b then [(i, End), (j, Start)] else [])"
  using assms by (auto simp: end_of_def)

text \<open>Recording both polylines and then entering their ends is adding the one, then the other.\<close>

lemma add_loop:
  assumes "a \<noteq> b" and "last (b # vs) = a" and "i = length (ch_polylines ch)"
  shows "((record_path ss es (b # vs) fs ((record_path ss es [a, b] [c] ch)\<lparr>ch_walked := w\<rparr>))\<lparr>ch_walked := w'\<rparr>)
     \<lparr>ch_ends := map (\<lambda>(u, xs). (u, xs @ (if u = a then [(i, Start), (Suc i, End)]
                    else if u = b then [(i, End), (Suc i, Start)] else []))) (ch_ends ch)\<rparr> =
    add_path ss es w' (b # vs) fs (add_path ss es w [a, b] [c] ch)"
proof -
  have "map (\<lambda>(u, xs). (u, xs @ (if u = a then [(i, Start), (Suc i, End)]
                    else if u = b then [(i, End), (Suc i, Start)] else []))) (ch_ends ch) =
        map (\<lambda>(u, xs). (u, xs @ end_of (Suc i) (b # vs) u))
          (map (\<lambda>(u, xs). (u, xs @ end_of i [a, b] u)) (ch_ends ch))"
    by (auto simp: loop_ends[OF assms(1,2), symmetric])
  then show ?thesis
    by (simp add: add_path_def record_path_frame assms(3))
qed

lemma cut_direction:
  assumes "chained ss es ch (paths @ [[c], fs])" and "es ! c = (a, b)" and "length paths = i"
    and "ch_polylines ch ! i = [a, b]"
  shows "ch\<lparr>ch_direction := (ch_direction ch)(c \<mapsto> 1)\<rparr> = ch"
proof -
  have "places_ok es (paths @ [[c], fs]) ch"
    using assms(1) by (simp only: chained_def)
  moreover have "i < length (paths @ [[c], fs])" and "(paths @ [[c], fs]) ! i = [c]"
    using assms(3) by (auto simp: nth_append)
  ultimately have "ch_direction ch ([c] ! 0) = Some (if fst (es ! ([c] ! 0)) = ch_polylines ch ! i ! 0 then 1 else -1)"
    unfolding places_ok_def by (metis length_Cons zero_less_Suc)
  then have "ch_direction ch c = Some 1"
    using assms(2,4) by simp
  then show ?thesis
    by (intro chain.equality) (auto simp: fun_eq_iff)
qed

lemma find_only:
  assumes "(x, e) \<in> set xs" and "P (x, e)" and "\<And>y. y \<in> set xs \<Longrightarrow> P y \<Longrightarrow> snd y = e"
  obtains y where "find P xs = Some (y, e)"
proof (cases "find P xs")
  case None
  then show ?thesis
    using assms(1,2) by (auto simp: find_None_iff)
next
  case (Some y)
  then show ?thesis
    using find_SomeD[OF Some] assms(3)[of y] that by (cases y) auto
qed

lemma find_rest:
  assumes "incident es b = {c, e}" and "e \<noteq> c" and "\<not> w ! e"
  obtains y where "find (\<lambda>(_, f). f \<noteq> c \<and> \<not> w ! f) (neighbours es b) = Some (y, e)"
proof -
  have "e \<in> snd ` set (neighbours es b)"
    by (simp add: neighbour_edges assms(1))
  then obtain x where "(x, e) \<in> set (neighbours es b)"
    by force
  moreover have "snd y = e" if y: "y \<in> set (neighbours es b)" "case y of (_, f) \<Rightarrow> f \<noteq> c \<and> \<not> w ! f" for y
  proof -
    have "snd y \<in> incident es b"
      using y(1) by (simp flip: neighbour_edges)
    then show ?thesis
      using y(2) assms(1) by (auto simp: case_prod_unfold)
  qed
  ultimately show ?thesis
    using find_only[of x e "neighbours es b" "\<lambda>(_, f). f \<noteq> c \<and> \<not> w ! f"] assms(2,3) that by auto
qed

text \<open>What one cut does.  Nodes only ever become boundaries.\<close>

definition grown :: "bool list \<Rightarrow> bool list \<Rightarrow> bool" where
  "grown bd bd' \<longleftrightarrow> length bd' = length bd \<and> marked bd \<subseteq> marked bd'"

lemma grown_refl [simp]: "grown bd bd"
  by (simp add: grown_def)

lemma grown_trans: "grown a b \<Longrightarrow> grown b c \<Longrightarrow> grown a c"
  by (auto simp: grown_def)

theorem cut_cycle_ok:
  assumes ch: "chained ss es ch paths" and sat: "saturated es (ch_boundary ch) (marked (ch_walked ch))"
    and left: "\<not> list_all (\<lambda>done. done) (ch_walked ch)"
  obtains ch' paths' where "cut_cycle ss es ch = Inr ch'" and "chained ss es ch' paths'"
    and "saturated es (ch_boundary ch') (marked (ch_walked ch'))"
    and "unwalked (ch_walked ch') < unwalked (ch_walked ch)"
    and "grown (ch_boundary ch) (ch_boundary ch')"
proof -
  let ?bd = "ch_boundary ch" and ?w = "ch_walked ch"
  have len: "length ?w = length es" and graph: "simple_graph es (length ?bd)"
    and cl: "all_closed es ?bd (marked ?w)" and pass: "passes es ?bd"
    and ends: "fst ` set (ch_ends ch) = marked ?bd"
    using ch by (auto simp: chained_def passes_def ends_ok_def)
  obtain seed where seed: "index_of Not ?w = Some seed"
    using left index_of_None[of Not ?w] by (cases "index_of Not ?w") (auto simp: list_all_iff)
  then have s: "seed < length es" "seed \<notin> marked ?w"
    using index_of_Some[OF seed] len by (auto simp: marked_def)
  have "searching es [seed] [seed] ?w"
    using s len by (simp add: searching_def)
  from component_ok[OF this graph, of "length es"]
  obtain found w1 where comp: "component es (length es) [seed] [seed] ?w = Inr (found, w1)"
    and w1: "length w1 = length ?w" "marked w1 = marked ?w \<union> set found"
    and found: "set found \<inter> marked ?w = {}" "seed \<in> set found" "set found \<subseteq> {..<length es}"
    by auto
  define c where "c = cut_of ss found"
  obtain a b where ab: "es ! c = (a, b)"
    by (cases "es ! c")
  have "found \<noteq> []"
    using found(2) by auto
  from cut_of_in[OF this] have c: "c \<in> set found"
    unfolding c_def .
  then have c: "c \<in> set found" "c < length es" "c \<notin> marked ?w"
    using found by auto
  have ne: "a \<noteq> b"
    using simple_graph_edge[OF graph c(2)] ab by simp
  have inc: "c \<in> incident es a" "c \<in> incident es b"
    using c(2) ab by (auto simp: incident_def)
  note a = unwalked_nodes[OF ch sat inc(1) c(3)] and b = unwalked_nodes[OF ch sat inc(2) c(3)]
  define w2 where "w2 = foldl (\<lambda>w e. if e \<noteq> c then w[e := False] else w) w1 found"
  have w2: "length w2 = length es" "marked w2 = insert c (marked ?w)"
    using marked_reset[of found w1 c] w1 found c(1) len unfolding w2_def by auto
  define ch1 where "ch1 = raised a b ch"
  define ch2 where "ch2 = add_path ss es w2 [a, b] [c] ch1"
  have ok2: "chained ss es ch2 (paths @ [[c]])"
    unfolding ch2_def ch1_def by (rule chained_cut[OF ch sat c(2,3) ab w2])
  have opened: "open_loop ss es (found, w1) ch = (record_path ss es [a, b] [c] ch1)\<lparr>ch_walked := w2\<rparr>"
    unfolding c_def w2_def ch1_def
    by (rule open_loop_raised) (use a(2) b(2) ne ab ends in \<open>auto simp: c_def marked_def\<close>)
  obtain e where e: "incident es b = {c, e}" "e \<noteq> c"
    using degree_two[OF graph _ inc(2)] pass b(1,2) by (auto simp: passes_def)
  obtain e' where e': "incident es a = {c, e'}" "e' \<noteq> c"
    using degree_two[OF graph _ inc(1)] pass a(1,2) by (auto simp: passes_def)
  have bd2: "ch_boundary ch2 = ?bd[a := True, b := True]" and wk2: "ch_walked ch2 = w2"
    by (simp_all add: ch2_def ch1_def add_path_def)
  have new: "e \<notin> marked w2"
    using e b(3) w2(2) by auto
  have under: "underway es (ch_boundary ch2) b e (marked (ch_walked ch2))"
    using underway_start[OF ok2 refl, of b e] e new b(1) by (simp add: bd2 wk2)
  obtain vs fs w3 where go: "walk es (ch_boundary ch2) (length es) b e (ch_walked ch2) = Inr (vs, fs, w3)"
    and fin: "walk_done es (ch_boundary ch2) b e (ch_walked ch2) vs fs w3"
    and ok3: "chained ss es (add_path ss es w3 (b # vs) fs ch2) ((paths @ [[c]]) @ [fs])"
    using chained_walk[OF ok2 under] b(1) by (auto simp: bd2)
  have last: "last vs = a"
    using loop_closes[OF ch sat c(2,3) ab e w2(2)] fin by (simp add: bd2 wk2)
  have "vs \<noteq> []"
    using walk_done_last[OF fin] by simp
  then have last': "last (b # vs) = a"
    using last by simp
  let ?i = "length (ch_polylines ch)"
  let ?X = "(record_path ss es (b # vs) fs ((record_path ss es [a, b] [c] ch1)\<lparr>ch_walked := w2\<rparr>))\<lparr>ch_walked := w3\<rparr>"
  let ?final = "add_path ss es w3 (b # vs) fs ch2"
  have pl: "ch_polylines ch1 = ch_polylines ch" and bd1: "ch_boundary ch1 = ch_boundary ch2"
    by (simp_all add: ch1_def bd2)
  have "\<not> w2 ! e"
    using new e w2(1) by (auto simp: marked_def incident_def)
  then obtain y where first: "find (\<lambda>(_, f). f \<noteq> c \<and> \<not> w2 ! f) (neighbours es b) = Some (y, e)"
    using find_rest[OF e] by blast
  have there: "a \<in> fst ` set (ch_ends ?X)" "b \<in> fst ` set (ch_ends ?X)"
    by (simp_all add: ch1_def)
  have whole: "?X\<lparr>ch_ends := map (\<lambda>(u, xs). (u, xs @ (if u = a then [(?i, Start), (Suc ?i, End)]
                    else if u = b then [(?i, End), (Suc ?i, Start)] else []))) (ch_ends ?X)\<rparr> = ?final"
    using add_loop[OF ne last', where i = ?i and ch = ch1 and ss = ss and es = es and fs = fs and c = c and w = w2 and w' = w3] pl by (simp add: ch2_def)
  have "list_all2 (path_ok es ?bd) paths (ch_polylines ch)"
    using ch by (simp only: chained_def)
  then have paths: "length paths = ?i"
    by (rule list_all2_lengthD)
  have dir: "?final\<lparr>ch_direction := (ch_direction ?final)(c \<mapsto> 1)\<rparr> = ?final"
  proof (intro cut_direction[OF _ ab paths])
    show "chained ss es ?final (paths @ [[c], fs])"
      using ok3 by simp
    show "ch_polylines ?final ! ?i = [a, b]"
      by (simp add: add_path_def ch2_def pl nth_append)
  qed
  note pushed = push_loop[OF ne there, of ?i "Suc ?i" "\<lambda>ch. ch\<lparr>ch_direction := (ch_direction ch)(c \<mapsto> 1)\<rparr>",
      unfolded whole dir]
  have "cut_cycle ss es ch = Inr ?final"
    unfolding cut_cycle_def seed option.case comp bindE_Inr prod.case
    unfolding c_def[symmetric] ab Let_def prod.case opened
    using first go pushed by (simp add: pl bd1 wk2 del: fun_upd_apply)
  moreover have marks: "marked (ch_walked ?final) = insert c (marked ?w) \<union> set fs"
    using fin by (simp add: add_path_def walk_done_def wk2 w2(2))
  moreover have "saturated es (ch_boundary ?final) (marked (ch_walked ?final))"
  proof -
    have "hd fs = e" "fs \<noteq> []" "trail es b fs vs" "set fs \<inter> marked w2 = {}"
      using fin by (auto simp: walk_done_def wk2)
    then have "e \<in> set fs" and "last fs \<in> incident es a" and "last fs \<noteq> c"
      using last_edge[of es b fs vs] last_in_set[of fs] w2(2) last by auto
    then have "incident es a \<subseteq> insert c (set fs)" and "incident es b \<subseteq> insert c (set fs)"
      using e(1) e'(1) last_in_set[OF \<open>fs \<noteq> []\<close>] by auto
    then show ?thesis
      using sat a(1) b(1) unfolding saturated_def marks
      by (auto simp: add_path_def bd2 nth_list_update split: if_splits)
  qed
  moreover have "unwalked (ch_walked ?final) < unwalked ?w"
  proof -
    have "length (ch_walked ?final) = length ?w"
      using fin len w2(1) by (simp add: add_path_def walk_done_def wk2)
    then show ?thesis
      unfolding unwalked_def marks using c len by (intro psubset_card_mono) auto
  qed
  moreover have "grown ?bd (ch_boundary ?final)"
    using a(1) b(1) by (auto simp: add_path_def bd2 grown_def marked_def nth_list_update)
  ultimately show ?thesis
    using that ok3 by simp
qed

section \<open>The whole chaining\<close>

lemma list_all_marked: "list_all (\<lambda>done. done) w \<longleftrightarrow> marked w = {..<length w}"
  by (auto simp: list_all_length marked_def)

lemma cut_cycles_done: "list_all (\<lambda>done. done) (ch_walked ch) \<Longrightarrow> cut_cycles ss es n ch = Inr ch"
  by (subst cut_cycles.simps) simp

lemma cut_cycles_step:
  "\<not> list_all (\<lambda>done. done) (ch_walked ch) \<Longrightarrow>
     cut_cycles ss es (Suc n) ch = bindE (cut_cycle ss es ch) (cut_cycles ss es n)"
  by (subst cut_cycles.simps) simp

declare cut_cycles.simps [simp del]

theorem cut_cycles_ok:
  assumes "chained ss es ch paths" and "saturated es (ch_boundary ch) (marked (ch_walked ch))"
    and "unwalked (ch_walked ch) \<le> fuel"
  shows "\<exists>ch' paths'. cut_cycles ss es fuel ch = Inr ch' \<and> chained ss es ch' paths' \<and>
           marked (ch_walked ch') = {..<length es} \<and> grown (ch_boundary ch) (ch_boundary ch')"
  using assms
proof (induction fuel arbitrary: ch paths)
  case 0
  have len: "length (ch_walked ch) = length es"
    using 0 by (simp add: chained_def)
  have "marked (ch_walked ch) = {..<length es}"
    using 0 len marked_lt[of "ch_walked ch"] by (auto simp: unwalked_def)
  then show ?case
    using 0(1) len cut_cycles_done[of ch ss es 0] by (auto simp: list_all_marked)
next
  case (Suc fuel)
  have len: "length (ch_walked ch) = length es"
    using Suc.prems by (simp add: chained_def)
  show ?case
  proof (cases "list_all (\<lambda>done. done) (ch_walked ch)")
    case True
    then show ?thesis
      using Suc.prems(1) len cut_cycles_done[OF True] by (auto simp: list_all_marked)
  next
    case False
    obtain ch1 paths1 where 1: "cut_cycle ss es ch = Inr ch1" "chained ss es ch1 paths1"
        "saturated es (ch_boundary ch1) (marked (ch_walked ch1))"
        "unwalked (ch_walked ch1) < unwalked (ch_walked ch)"
        "grown (ch_boundary ch) (ch_boundary ch1)"
      using cut_cycle_ok[OF Suc.prems(1,2) False] by blast
    then have "unwalked (ch_walked ch1) \<le> fuel"
      using Suc.prems(3) by simp
    from Suc.IH[OF 1(2,3) this] show ?thesis
      using 1(1,5) by (auto simp: cut_cycles_step[OF False] intro: grown_trans)
  qed
qed

theorem chaining_ok:
  assumes "passes es bd"
  obtains ch paths where "chaining ss es bd = Inr ch" and "chained ss es ch paths"
    and "distinct (concat paths)" and "set (concat paths) = {..<length es}"
    and "grown bd (ch_boundary ch)"
proof -
  obtain ch1 paths1 where 1: "foldE (chain_from ss es) (fresh_chain es bd) (starts es bd) = Inr ch1"
      "chained ss es ch1 paths1" "ch_boundary ch1 = bd" "saturated es bd (marked (ch_walked ch1))"
    using from_boundaries[OF assms] by blast
  have len: "length (ch_walked ch1) = length es"
    using 1(2) by (simp add: chained_def)
  then have few: "unwalked (ch_walked ch1) \<le> length es"
    using card_mono[of "{..<length es}" "{..<length es} - marked (ch_walked ch1)"]
    by (auto simp: unwalked_def)
  have sat: "saturated es (ch_boundary ch1) (marked (ch_walked ch1))"
    using 1(3,4) by simp
  obtain ch paths where 2: "cut_cycles ss es (length es) ch1 = Inr ch" "chained ss es ch paths"
      "marked (ch_walked ch) = {..<length es}" "grown bd (ch_boundary ch)"
    using cut_cycles_ok[OF 1(2) sat few] 1(3) by auto
  moreover have "distinct (concat paths)" and "set (concat paths) = marked (ch_walked ch)"
    using 2(2) by (simp_all only: chained_def)
  moreover have "chaining ss es bd = Inr ch"
    by (simp only: chaining_def 1(1) bindE_Inr 2(1))
  ultimately show ?thesis
    using that by simp
qed

end
