(* ===== verification/Mesh_Laws.thy ===== *)
theory Mesh_Laws
  imports Mesh_Cycles
begin

text \<open>
  What the graph of a model's spans is: two span ends are one node exactly when they fall on
  one point of the grid.  The chaining theorem applies to it.  Then what a chained state
  says of its nodes and its polylines: every edge at a boundary node is the end of a
  polyline there, and a polyline has one radius and one material.
\<close>

section \<open>The graph of the spans\<close>

definition graph_of :: "span list \<Rightarrow> node_table \<Rightarrow> edges \<Rightarrow> bool" where
  "graph_of ss nodes es \<longleftrightarrow>
     distinct (map fst nodes) \<and> length es = length ss \<and>
     (\<forall>e < length ss. fst (es ! e) < length nodes \<and> snd (es ! e) < length nodes \<and>
        fst (es ! e) \<noteq> snd (es ! e) \<and>
        mesh_key (sp_p0 (ss ! e)) = Inr (fst (nodes ! fst (es ! e))) \<and>
        mesh_key (sp_p1 (ss ! e)) = Inr (fst (nodes ! snd (es ! e))))"

lemma node_id_ok:
  assumes "node_id nodes p = Inr (i, nodes')" and "distinct (map fst nodes)"
  obtains new where "nodes' = nodes @ new" and "i < length nodes'" and "distinct (map fst nodes')"
    and "mesh_key p = Inr (fst (nodes' ! i))"
proof -
  obtain key where key: "mesh_key p = Inr key"
    using assms(1) by (auto simp: node_id_def okE)
  show ?thesis
  proof (cases "index_of (\<lambda>kp. fst kp = key) nodes")
    case None
    then have "key \<notin> fst ` set nodes"
      by (auto simp: index_of_None)
    moreover have "i = length nodes" and "nodes' = nodes @ [(key, p)]"
      using assms(1) None key by (simp_all add: node_id_def)
    ultimately show ?thesis
      using assms(2) key that[of "[(key, p)]"] by simp
  next
    case (Some j)
    then have "i = j" and "nodes' = nodes"
      using assms(1) key by (simp_all add: node_id_def)
    then show ?thesis
      using assms(2) key that[of "[]"] index_of_Some[OF Some] by simp
  qed
qed

lemma add_edge_ok:
  assumes "graph_of ss nodes es" and "add_edge (nodes, es) s = Inr (nodes', es')"
  shows "graph_of (ss @ [s]) nodes' es'"
proof -
  have dist: "distinct (map fst nodes)"
    using assms(1) by (simp add: graph_of_def)
  obtain a n1 b where 1: "node_id nodes (sp_p0 s) = Inr (a, n1)" "node_id n1 (sp_p1 s) = Inr (b, nodes')"
    and ab: "a \<noteq> b" "es' = es @ [(a, b)]"
    using assms(2) by (auto simp: add_edge_def okE split: prod.splits)
  obtain x where x: "n1 = nodes @ x" "a < length n1" "distinct (map fst n1)"
      "mesh_key (sp_p0 s) = Inr (fst (n1 ! a))"
    using node_id_ok[OF 1(1) dist] .
  obtain y where y: "nodes' = n1 @ y" "b < length nodes'" "distinct (map fst nodes')"
      "mesh_key (sp_p1 s) = Inr (fst (nodes' ! b))"
    using node_id_ok[OF 1(2) x(3)] .
  show ?thesis
    unfolding graph_of_def
  proof (intro conjI allI impI)
    fix e
    assume "e < length (ss @ [s])"
    then consider "e < length ss" | "e = length ss"
      by (auto simp: less_Suc_eq)
    then have "fst (es' ! e) < length nodes' \<and> snd (es' ! e) < length nodes' \<and>
        fst (es' ! e) \<noteq> snd (es' ! e) \<and>
        mesh_key (sp_p0 ((ss @ [s]) ! e)) = Inr (fst (nodes' ! fst (es' ! e))) \<and>
        mesh_key (sp_p1 ((ss @ [s]) ! e)) = Inr (fst (nodes' ! snd (es' ! e)))"
    proof cases
      case 1
      then show ?thesis
        using assms(1) ab(2) x(1) y(1) by (simp add: graph_of_def nth_append trans_less_add1)
    next
      case 2
      have "nodes' ! a = n1 ! a" and "a < length nodes'"
        using x(2) by (simp_all add: y(1) nth_append)
      moreover have "es' ! e = (a, b)" and "(ss @ [s]) ! e = s"
        using 2 assms(1) ab(2) by (simp_all add: graph_of_def nth_append)
      ultimately show ?thesis
        using ab(1) x(4) y(2,4) by simp
    qed
    then show "fst (es' ! e) < length nodes'" and "snd (es' ! e) < length nodes'"
      and "fst (es' ! e) \<noteq> snd (es' ! e)"
      and "mesh_key (sp_p0 ((ss @ [s]) ! e)) = Inr (fst (nodes' ! fst (es' ! e)))"
      and "mesh_key (sp_p1 ((ss @ [s]) ! e)) = Inr (fst (nodes' ! snd (es' ! e)))"
      by simp_all
  qed (use y assms(1) ab(2) in \<open>simp_all add: graph_of_def\<close>)
qed

lemma edges_graph:
  "foldE add_edge ([], []) ss = Inr (nodes, es) \<Longrightarrow> graph_of ss nodes es"
proof (induction ss arbitrary: nodes es rule: rev_induct)
  case Nil
  then show ?case
    by (simp add: graph_of_def)
next
  case (snoc s ss)
  obtain n1 e1 where "foldE add_edge ([], []) ss = Inr (n1, e1)" "add_edge (n1, e1) s = Inr (nodes, es)"
    using snoc.prems by (auto simp: foldE_append okE)
  then show ?case
    using snoc.IH add_edge_ok by blast
qed

lemma graph_of_simple: "graph_of ss nodes es \<Longrightarrow> simple_graph es (length nodes)"
  unfolding graph_of_def simple_graph_def by (metis in_set_conv_nth)

lemma force_eq: "force bs v = Inr bs' \<longleftrightarrow> v < length bs \<and> bs' = bs[v := True]"
  by (auto simp: force_def nthE_def)

lemma force_ok:
  "foldE force bs vs = Inr bs' \<Longrightarrow> length bs' = length bs \<and> (\<forall>v < length bs. bs ! v \<longrightarrow> bs' ! v)"
proof (induction vs arbitrary: bs)
  case (Cons v vs)
  then have v: "v < length bs" and rest: "foldE force (bs[v := True]) vs = Inr bs'"
    by (auto simp: force_eq okE)
  then show ?case
    using Cons.IH[OF rest] by (auto simp: nth_list_update)
qed simp

definition between :: "deck_model \<Rightarrow> span list \<Rightarrow> edges \<Rightarrow> bool list \<Rightarrow> bool" where
  \<comment> \<open>the nodes that end no polyline\<close>
  "between m ss es bd \<longleftrightarrow>
     (\<forall>v < length bd. \<not> bd ! v \<longrightarrow> length (neighbours es v) = 2 \<and> \<not> kind_changes ss es v)"

lemma gap_nodeE:
  assumes "gap_node m (nodes, ns) g = Inr st"
  obtains p n n1 where "node_id nodes p = Inr (n, n1)" and "st = (n1, ns @ [n])"
  using assms by (cases g) (auto simp: gap_node_def okE)

lemma gap_nodes_extend:
  "foldE (gap_node m) (nodes, ns) gaps = Inr (nodes', ns') \<Longrightarrow> distinct (map fst nodes) \<Longrightarrow>
     \<exists>new. nodes' = nodes @ new"
proof (induction gaps arbitrary: nodes ns)
  case (Cons g gaps)
  then obtain p n n1 where 1: "node_id nodes p = Inr (n, n1)"
      "foldE (gap_node m) (n1, ns @ [n]) gaps = Inr (nodes', ns')"
    by (auto simp: okE elim!: gap_nodeE)
  obtain x where "n1 = nodes @ x" "distinct (map fst n1)"
    using node_id_ok[OF 1(1) Cons.prems(2)] by metis
  then show ?case
    using Cons.IH[OF 1(2)] by auto
qed simp

lemma mesh_graph_ok:
  assumes "mesh_graph m ss = Inr (nodes, es, bd, forced)"
  shows "passes es bd" and "length es = length ss" and "between m ss es bd"
    and "\<exists>n0 new. nodes = n0 @ new \<and> graph_of ss n0 es \<and> length bd = length n0"
proof -
  obtain n0 bs where g: "foldE add_edge ([], []) ss = Inr (n0, es)"
    and gaps: "foldE (gap_node m) (n0, []) (dm_node_gaps m) = Inr (nodes, forced)"
    and bs: "bs = map (ends_polyline m ss n0 es) [0..<length n0]" "foldE force bs forced = Inr bd"
    using assms by (auto simp: mesh_graph_def okE Let_def)
  have graph: "graph_of ss n0 es"
    using edges_graph[OF g] .
  note fo = force_ok[OF bs(2)]
  have bd: "length bd = length n0" "\<And>v. v < length n0 \<Longrightarrow> \<not> bd ! v \<Longrightarrow> \<not> ends_polyline m ss n0 es v"
    using fo bs(1) by auto
  show bet: "between m ss es bd"
    using bd by (auto simp: between_def ends_polyline_def)
  show "passes es bd"
    using bet graph_of_simple[OF graph] bd(1) by (simp add: passes_def between_def)
  show "length es = length ss"
    using graph by (simp add: graph_of_def)
  show "\<exists>n0 new. nodes = n0 @ new \<and> graph_of ss n0 es \<and> length bd = length n0"
    using gap_nodes_extend[OF gaps] graph bd(1) by (auto simp: graph_of_def)
qed

section \<open>The ends at a node\<close>

lemma path_meets:
  assumes "path_ok es bd fs vs" and "simple_graph es (length bd)" and "distinct fs" and "bd ! v"
  shows "card (set fs \<inter> incident es v) = length (end_of i vs v)"
proof -
  obtain u us where vs: "vs = u # us" and t: "trail es u fs us" and ne: "fs \<noteq> []"
    and inside: "\<And>w. w \<in> set (butlast us) \<Longrightarrow> \<not> bd ! w"
    using assms(1) by (cases vs) (auto simp: path_ok_def)
  have len: "length us = length fs"
    using trail_length[OF t] .
  let ?n = "length fs"
  have no: "Suc p = ?n" if "us ! p = v" "p < ?n" for p
  proof (rule ccontr)
    assume "Suc p \<noteq> ?n"
    then have "us ! p \<in> set (butlast us)"
      using that(2) len by (auto simp: in_set_conv_nth nth_butlast intro!: exI[of _ p])
    then show False
      using inside that(1) assms(4) by auto
  qed
  have ends: "fs ! p \<in> incident es v \<longleftrightarrow> p = 0 \<and> u = v \<or> Suc p = ?n \<and> us ! p = v" if "p < ?n" for p
    using trail_nth[OF t that] no[of p] no[of "p - 1"] that
    by (cases p) (auto simp: incident_def nth_Cons')
  have last: "us ! (?n - 1) = last vs"
    using len ne vs last_conv_nth[of us] by (cases us) (auto simp: len)
  have apart: "\<not> (?n = 1 \<and> u = v \<and> us ! 0 = v)"
    using trail_nth[OF t, of 0] simple_graph_edge[OF assms(2), of "fs ! 0"] ne by auto
  have "e \<in> set fs \<inter> incident es v \<longleftrightarrow> u = v \<and> e = fs ! 0 \<or> last vs = v \<and> e = fs ! (?n - 1)" for e
  proof
    assume "e \<in> set fs \<inter> incident es v"
    then obtain p where "p < ?n" and "fs ! p = e" and "fs ! p \<in> incident es v"
      by (auto simp: in_set_conv_nth)
    moreover have "p = ?n - 1 \<and> us ! (?n - 1) = v" if "Suc p = ?n" "us ! p = v"
      using that by (simp flip: that(1))
    ultimately show "u = v \<and> e = fs ! 0 \<or> last vs = v \<and> e = fs ! (?n - 1)"
      using ends[of p] unfolding last by blast
  next
    assume "u = v \<and> e = fs ! 0 \<or> last vs = v \<and> e = fs ! (?n - 1)"
    moreover have "0 < ?n" and "?n - 1 < ?n" and "Suc (?n - 1) = ?n"
      using ne by simp_all
    ultimately show "e \<in> set fs \<inter> incident es v"
      using ends[of 0] ends[of "?n - 1"] nth_mem[of 0 fs] nth_mem[of "?n - 1" fs] unfolding last by blast
  qed
  then have "set fs \<inter> incident es v =
      (if u = v then {fs ! 0} else {}) \<union> (if last vs = v then {fs ! (?n - 1)} else {})"
    by auto
  moreover have "fs ! 0 \<noteq> fs ! (?n - 1)" if "u = v" "last vs = v"
  proof
    assume "fs ! 0 = fs ! (?n - 1)"
    then have "?n - 1 = 0"
      using nth_eq_iff_index_eq[OF assms(3), of 0 "?n - 1"] ne by simp
    then have "?n = 1"
      using ne by (cases fs) auto
    then show False
      using that apart last by simp
  qed
  ultimately show ?thesis
    using vs by (auto simp: end_of_def card_insert_if)
qed

lemma paths_meet:
  assumes "list_all2 (path_ok es bd) paths ps" and "simple_graph es (length bd)"
    and "distinct (concat paths)" and "bd ! v"
  shows "card (set (concat paths) \<inter> incident es v) = length (path_ends ps v)"
  using assms(1,3)
proof (induction paths arbitrary: ps rule: rev_induct)
  case Nil
  then show ?case
    by (simp add: path_ends_def)
next
  case (snoc fs paths)
  obtain qs vs where ps: "ps = qs @ [vs]" and ok: "list_all2 (path_ok es bd) paths qs" "path_ok es bd fs vs"
    using snoc.prems(1) by (auto simp: list_all2_append1 list_all2_Cons1)
  have d: "distinct (concat paths)" "distinct fs" "set (concat paths) \<inter> set fs = {}"
    using snoc.prems(2) by auto
  have "card (set (concat (paths @ [fs])) \<inter> incident es v) =
      card (set (concat paths) \<inter> incident es v) + card (set fs \<inter> incident es v)"
    using d(3) by (subst card_Un_disjoint[symmetric]) (auto simp: Int_Un_distrib2 intro!: arg_cong[of _ _ card])
  then show ?case
    using snoc.IH[OF ok(1) d(1)] path_meets[OF ok(2) assms(2) d(2) assms(4)]
    by (simp add: ps path_ends_snoc)
qed

lemma chained_ends:
  assumes "chained ss es ch paths" and "set (concat paths) = {..<length es}"
    and "v < length (ch_boundary ch)" and "ch_boundary ch ! v"
  shows "map_of (ch_ends ch) v = Some (path_ends (ch_polylines ch) v)"
    and "length (path_ends (ch_polylines ch) v) = card (incident es v)"
proof -
  have e: "distinct (map fst (ch_ends ch))" "v \<in> fst ` set (ch_ends ch)"
      "\<forall>(u, xs) \<in> set (ch_ends ch). xs = path_ends (ch_polylines ch) u"
    using assms by (auto simp: chained_def ends_ok_def marked_def)
  then obtain xs where "(v, xs) \<in> set (ch_ends ch)"
    by force
  then show "map_of (ch_ends ch) v = Some (path_ends (ch_polylines ch) v)"
    using e(1,3) by (auto simp: map_of_eq_Some_iff)
  have "set (concat paths) \<inter> incident es v = incident es v"
    unfolding assms(2) by (auto simp: incident_def)
  moreover have "card (set (concat paths) \<inter> incident es v) = length (path_ends (ch_polylines ch) v)"
    using assms by (intro paths_meet) (auto simp: chained_def passes_def)
  ultimately show "length (path_ends (ch_polylines ch) v) = card (incident es v)"
    by simp
qed

section \<open>One radius and one material\<close>

definition kind :: "span \<Rightarrow> flt \<times> wire_material option" where
  "kind s = (sp_radius s, sp_material s)"

lemma same_kind_across:
  assumes "simple_graph es n" and "length (neighbours es v) = 2" and "\<not> kind_changes ss es v"
    and "e \<in> incident es v" and "f \<in> incident es v"
  shows "kind (ss ! e) = kind (ss ! f)"
proof -
  obtain x y where xy: "neighbours es v = [x, y]"
    using assms(2) by (auto simp: length_Suc_conv eval_nat_numeral)
  have "incident es v = {snd x, snd y}"
    by (simp add: xy flip: neighbour_edges)
  moreover have "kind (ss ! snd x) = kind (ss ! snd y)"
    using assms(3) by (simp add: kind_changes_def xy kind_def Let_def)
  ultimately show ?thesis
    using assms(4,5) by auto
qed

lemma trail_kind:
  assumes "trail es u fs vs" and "simple_graph es n"
    and "\<And>v. v \<in> set (butlast vs) \<Longrightarrow> length (neighbours es v) = 2 \<and> \<not> kind_changes ss es v"
    and "e \<in> set fs"
  shows "kind (ss ! e) = kind (ss ! hd fs)"
  using assms(1,3,4)
proof (induction fs arbitrary: u vs)
  case (Cons f fs)
  then obtain v ws where vs: "vs = v # ws" and f: "f < length es" "es ! f = (u, v) \<or> es ! f = (v, u)"
    and t: "trail es v fs ws"
    by (auto split: list.splits)
  show ?case
  proof (cases fs)
    case Nil
    then show ?thesis
      using Cons.prems(3) by simp
  next
    case (Cons g gs)
    have ws: "ws \<noteq> []"
      using trail_length[OF t] Cons by auto
    then have inner: "\<And>w. w \<in> set (butlast ws) \<Longrightarrow> length (neighbours es w) = 2 \<and> \<not> kind_changes ss es w"
      and v: "length (neighbours es v) = 2" "\<not> kind_changes ss es v"
      using Cons.prems(2)[of v] Cons.prems(2) by (simp_all add: vs)
    have g: "g < length es" "fst (es ! g) = v \<or> snd (es ! g) = v"
      using trail_nth[OF t, of 0] by (auto simp: Cons)
    have "f \<in> incident es v" and "g \<in> incident es v"
      using f g by (auto simp: incident_def)
    then have here: "kind (ss ! f) = kind (ss ! hd fs)"
      using same_kind_across[OF assms(2) v, of f g] Cons by simp
    show ?thesis
    proof (cases "e = f")
      case False
      then have "e \<in> set fs"
        using Cons.prems(3) by simp
      from Cons.IH[OF t inner this] show ?thesis
        by (simp add: here)
    qed simp
  qed
qed simp

end
