(* ===== verification/Mesh_Counts.thy ===== *)
theory Mesh_Counts
  imports Mesh_Laws "HOL-Library.Multiset"
begin

text \<open>
  What the cutting into spans keeps: the elements of every edge, and every port that was the
  first to claim its element, each on a span of its own.
\<close>

section \<open>Elements\<close>

lemma cut_edge_total:
  assumes "\<And>lo hi p. sp_n (emit lo hi p) = hi - lo"
  shows "sum_by sp_n (cut_edge emit on previous (bs @ [n])) = n - previous"
  by (induction bs arbitrary: previous) (simp_all add: assms)

lemma span_of_n [simp]: "sp_n (span_of wire w edge lo hi p) = hi - lo"
  by (simp add: span_of_def Let_def)

lemma edge_spans_total: "sum_by sp_n (edge_spans sites wire w edge) = dw_edge_elements w ! edge"
  by (simp add: edge_spans_def Let_def cut_edge_total)

lemma sum_by_concat: "sum_by f (concat xss) = sum_by (sum_by f) xss"
  by (induction xss) auto

lemma sum_by_map: "sum_by f (map g xs) = sum_by (\<lambda>x. f (g x)) xs"
  by (induction xs) auto

lemma wire_spans_total: "sum_by sp_n (wire_spans sites (i, w)) = n_elements w"
proof -
  have "sum_by (\<lambda>e. dw_edge_elements w ! e) [0..<length (dw_edge_elements w)] = n_elements w"
    by (simp add: sum_by_def n_elements_def map_nth)
  then show ?thesis
    by (simp add: wire_spans_def sum_by_concat sum_by_map edge_spans_total)
qed

lemma spans_total:
  assumes "spans m ports = Inr ss"
  shows "sum_by sp_n ss = sum_by n_elements (dm_wires m)"
proof -
  obtain sites where ss: "ss = concat (map (wire_spans sites) (enumerate 0 (dm_wires m)))"
    using assms by (auto simp: spans_def okE)
  have "sum_by (\<lambda>iw. sum_by sp_n (wire_spans sites iw)) (enumerate k ws) = sum_by n_elements ws" for k ws
    by (induction ws arbitrary: k) (simp_all add: wire_spans_total)
  then show ?thesis
    by (simp add: ss sum_by_concat sum_by_map)
qed

lemma sum_by_permuted:
  assumes "distinct xs" and "set xs = {..<n}"
  shows "sum_by f xs = sum_by f [0..<n]"
  using assms by (simp add: sum_by_def sum_list_distinct_conv_sum_set atLeast0LessThan)

lemma sum_by_nth: "sum_by (\<lambda>i. f (xs ! i)) [0..<length xs] = sum_by f xs"
proof -
  have "map (\<lambda>i. f (xs ! i)) [0..<length xs] = map f xs"
    by (intro nth_equalityI) simp_all
  then show ?thesis
    by (simp add: sum_by_def)
qed

lemma chained_total:
  assumes "chained ss es ch paths" and "set (concat paths) = {..<length ss}"
  shows "sum_by (sum_by id) (ch_elements ch) = sum_by sp_n ss"
proof -
  have el: "ch_elements ch = map (map (\<lambda>e. sp_n (ss ! e))) paths" and d: "distinct (concat paths)"
    using assms(1) by (simp_all only: chained_def)
  have "sum_by (sum_by id) (ch_elements ch) = sum_by (\<lambda>e. sp_n (ss ! e)) (concat paths)"
    by (simp add: el sum_by_concat sum_by_map)
  also have "\<dots> = sum_by sp_n ss"
    by (simp add: sum_by_permuted[OF d assms(2)] sum_by_nth)
  finally show ?thesis .
qed

section \<open>Ports\<close>

fun ports_of :: "span list \<Rightarrow> nat list" where
  "ports_of [] = []"
| "ports_of (s # ss) = (case sp_port s of None \<Rightarrow> [] | Some p \<Rightarrow> [p]) @ ports_of ss"

lemma ports_of_append [simp]: "ports_of (xs @ ys) = ports_of xs @ ports_of ys"
  by (induction xs) auto

lemma ports_of_concat: "ports_of (concat xss) = concat (map ports_of xss)"
  by (induction xss) auto

lemma map_snd_port_spans: "map snd (port_spans ss) = ports_of ss"
proof -
  have "map snd (concat (map (\<lambda>(i, s). case sp_port s of None \<Rightarrow> [] | Some p \<Rightarrow> [(i, p)]) (enumerate k ss))) =
      ports_of ss" for k
    by (induction ss arbitrary: k) (auto split: option.splits)
  then show ?thesis
    by (simp add: port_spans_def)
qed

lemma span_of_port [simp]: "sp_port (span_of wire w edge lo hi p) = p"
  by (simp add: span_of_def Let_def)

text \<open>The unit pieces of a cut: one for each element that carries a port.\<close>

lemma ports_of_cut:
  assumes "\<And>lo hi p. sp_port (emit lo hi p) = p" and "sorted_wrt (<) (previous # bs)"
    and "\<And>k. k \<in> fst ` set on \<Longrightarrow> k \<in> set (previous # bs) \<longleftrightarrow> k + 1 \<in> set bs"
  shows "ports_of (cut_edge emit on previous bs) =
    map (\<lambda>k. the (map_of on k)) (filter (\<lambda>k. k \<in> fst ` set on) (butlast (previous # bs)))"
  using assms(2,3)
proof (induction bs arbitrary: previous)
  case (Cons b bs)
  have above: "\<And>x. x \<in> set bs \<Longrightarrow> b < x" and pb: "previous < b"
    using Cons.prems(1) by auto
  have step: "b - previous = 1" if "previous \<in> fst ` set on"
  proof -
    have "previous + 1 \<in> set (b # bs)"
      using Cons.prems(2)[OF that] by simp
    then show ?thesis
      using above pb by force
  qed
  have "k \<in> set (b # bs) \<longleftrightarrow> k + 1 \<in> set bs" if "k \<in> fst ` set on" for k
  proof (cases "k = previous")
    case True
    then have "k + 1 = b"
      using step that by simp
    then show ?thesis
      using above True pb Cons.prems(1) by auto
  next
    case False
    then show ?thesis
      using Cons.prems(2)[OF that] above pb by (auto dest: above)
  qed
  then have IH: "ports_of (cut_edge emit on b bs) =
      map (\<lambda>k. the (map_of on k)) (filter (\<lambda>k. k \<in> fst ` set on) (butlast (b # bs)))"
    using Cons.IH[of b] Cons.prems(1) by simp
  show ?case
  proof (cases "previous \<in> fst ` set on")
    case True
    then obtain p where p: "map_of on previous = Some p"
      by (metis map_of_eq_None_iff not_None_eq)
    have eq: "b - 1 = previous" and unit: "b - previous = 1"
      using step[OF True] by simp_all
    have "map_of on (b - 1) = Some p"
      unfolding eq by (rule p)
    then show ?thesis
      using True IH p assms(1) unit by simp
  next
    case False
    then have none: "map_of on previous = None"
      by (simp add: map_of_eq_None_iff)
    have "map_of on (b - 1) = None" if "b - previous = 1"
    proof -
      have eq: "b - 1 = previous"
        using that by simp
      show ?thesis
        unfolding eq by (rule none)
    qed
    then show ?thesis
      using False IH assms(1) by auto
  qed
qed simp

lemma edge_bounds_sorted:
  assumes "\<And>k. k \<in> fst ` set on \<Longrightarrow> 0 \<le> k \<and> k < n" and "0 < n"
  shows "sorted_wrt (<) (0 # edge_bounds on n @ [n])"
    and "set (edge_bounds on n) = (\<Union>k \<in> fst ` set on. {k, k + 1}) - {0, n}"
proof -
  have eq: "(\<Union>(k, _)\<in>set on. {k, k + 1}) = (\<Union>k \<in> fst ` set on. {k, k + 1})"
    by force
  then show S: "set (edge_bounds on n) = (\<Union>k \<in> fst ` set on. {k, k + 1}) - {0, n}"
    by (simp add: edge_bounds_def)
  have "0 < k \<and> k < n" if "k \<in> set (edge_bounds on n)" for k
  proof -
    from that obtain j where j: "j \<in> fst ` set on" "k \<in> {j, j + 1}" and k: "k \<noteq> 0" "k \<noteq> n"
      unfolding S by (elim DiffE UN_E) simp
    from assms(1)[OF j(1)] j(2) k show ?thesis
      by (simp only: insert_iff empty_iff) presburger
  qed
  moreover have "sorted_wrt (<) (edge_bounds on n)"
    by (simp add: edge_bounds_def)
  ultimately show "sorted_wrt (<) (0 # edge_bounds on n @ [n])"
    using assms(2) by (simp add: sorted_wrt_append)
qed

lemma edge_spans_ports:
  assumes "distinct (map fst (on_edge sites i e))" and "0 < dw_edge_elements w ! e"
    and "\<And>k. k \<in> fst ` set (on_edge sites i e) \<Longrightarrow> 0 \<le> k \<and> k < dw_edge_elements w ! e"
  shows "mset (ports_of (edge_spans sites i w e)) = mset (map snd (on_edge sites i e))"
proof -
  let ?on = "on_edge sites i e" and ?n = "dw_edge_elements w ! e" and ?emit = "span_of i w e"
  let ?mid = "length ?on = 1 \<and> ?n mod 2 = 1 \<and> fst (hd ?on) = (?n - 1) div 2"
  consider "?on = []" | "?on \<noteq> []" "?mid" | "?on \<noteq> []" "\<not> ?mid"
    by blast
  then show ?thesis
  proof cases
    case 1
    then show ?thesis
      by (simp add: edge_spans_def Let_def)
  next
    case 2
    then have "edge_spans sites i w e = [?emit 0 ?n (Some (snd (hd ?on)))]"
      unfolding edge_spans_def Let_def by (simp only: if_False if_True simp_thms)
    moreover obtain x where "?on = [x]"
      using 2 by (auto simp: length_Suc_conv)
    ultimately show ?thesis
      by simp
  next
    case 3
    have cut: "edge_spans sites i w e = cut_edge ?emit ?on 0 (edge_bounds ?on ?n @ [?n])"
      using 3 unfolding edge_spans_def Let_def by (simp only: if_False simp_thms)
    let ?bs = "edge_bounds ?on ?n" and ?find = "\<lambda>k. the (map_of ?on k)"
    note sorted = edge_bounds_sorted(1)[OF assms(3,2), of ?on, simplified]
      and S = edge_bounds_sorted(2)[OF assms(3,2), of ?on, simplified]
    have mem: "k \<in> set (0 # ?bs)" "k + 1 \<in> set (?bs @ [?n])" if "k \<in> fst ` set ?on" for k
      using that assms(3)[OF that] unfolding set_append set_simps S by auto
    have "ports_of (edge_spans sites i w e) =
        map ?find (filter (\<lambda>k. k \<in> fst ` set ?on) (butlast (0 # ?bs @ [?n])))"
      unfolding cut using mem sorted by (intro ports_of_cut) auto
    moreover have "butlast (0 # ?bs @ [?n]) = 0 # ?bs"
      by (simp add: butlast_append)
    moreover have "mset (filter (\<lambda>k. k \<in> fst ` set ?on) (0 # ?bs)) = mset (map fst ?on)"
    proof (subst set_eq_iff_mset_eq_distinct[symmetric])
      have "distinct (0 # ?bs)"
        using sorted by (auto simp: sorted_wrt_append edge_bounds_def)
      then show "distinct (filter (\<lambda>k. k \<in> fst ` set ?on) (0 # ?bs))"
        by (rule distinct_filter)
      show "set (filter (\<lambda>k. k \<in> fst ` set ?on) (0 # ?bs)) = set (map fst ?on)"
        using mem(1) by (simp only: set_filter set_map) blast
    qed (fact assms(1))
    ultimately have "mset (ports_of (edge_spans sites i w e)) = image_mset ?find (mset (map fst ?on))"
      by (simp only: mset_map)
    also have "\<dots> = mset (map (\<lambda>x. ?find (fst x)) ?on)"
      by (simp add: multiset.map_comp comp_def)
    also have "map (\<lambda>x. ?find (fst x)) ?on = map snd ?on"
      using assms(1) by (auto intro!: map_cong simp: map_of_is_SomeI)
    finally show ?thesis .
  qed
qed

end
