(* ===== verification/Mesh_Ports.thy ===== *)
theory Mesh_Ports
  imports Mesh_Counts
begin

text \<open>
  Which ports reach the mesh: the first of each element, once.  Ports in different elements
  all do, so their order in the mesh is a permutation.
\<close>

section \<open>The element of a port\<close>

definition port_element :: "deck_model \<Rightarrow> nat \<times> flt \<Rightarrow> pyexn + nat \<times> nat \<times> int" where
  "port_element m p =
     bindE (nthE (dm_wires m) (fst p)) (\<lambda>w.
     bindE (element_on w (snd p)) (\<lambda>(edge, element). Inr (fst p, edge, element)))"

definition meshable :: "deck_wire \<Rightarrow> bool" where
  \<comment> \<open>a constructed wire with elements on every edge\<close>
  "meshable w \<longleftrightarrow> mk_deck_wire w = Inr w \<and> (\<forall>n \<in> set (dw_edge_elements w). 0 < n)"

lemma mk_deck_wire_edges:
  "mk_deck_wire w = Inr w' \<Longrightarrow>
     length (edge_lengths w) = length (dw_edge_elements w) \<and> dw_edge_elements w \<noteq> []"
  by (cases "dw_edge_elements w") (auto simp: mk_deck_wire_def edge_lengths_length split: if_splits)

lemma element_from_bounds:
  assumes "element_from xs j s = Inr (e, k)" and "\<And>x. x \<in> set xs \<Longrightarrow> 0 < snd x"
  shows "j \<le> e \<and> e < j + length xs \<and> 0 \<le> k \<and> k < snd (xs ! (e - j))"
  using assms
proof (induction xs j s rule: element_from.induct)
  case (2 len n rest j s)
  show ?case
  proof (cases "s \<le> len \<or> rest = []")
    case True
    have "0 < n"
      using 2(3)[of "(len, n)"] by simp
    then show ?thesis
      using True 2(2) by (auto simp: okE Let_def)
  next
    case False
    then have IH: "Suc j \<le> e \<and> e < Suc j + length rest \<and> 0 \<le> k \<and> k < snd (rest ! (e - Suc j))"
      using 2 by simp
    then have "e - j = Suc (e - Suc j)"
      by (intro Suc_diff_Suc[symmetric]) simp
    then show ?thesis
      using IH by simp
  qed
qed simp

lemma element_on_bounds:
  assumes "element_on w s = Inr (e, k)" and "meshable w"
  shows "e < length (dw_edge_elements w)" and "0 \<le> k" and "k < dw_edge_elements w ! e"
proof -
  have len: "length (edge_lengths w) = length (dw_edge_elements w)"
    using assms(2) mk_deck_wire_edges by (auto simp: meshable_def)
  have "0 < snd x" if "x \<in> set (zip (edge_lengths w) (dw_edge_elements w))" for x
    using that set_zip_rightD[of "fst x" "snd x"] assms(2) by (simp add: meshable_def)
  from element_from_bounds[OF assms(1)[unfolded element_on_def] this]
  show "e < length (dw_edge_elements w)" and "0 \<le> k" and "k < dw_edge_elements w ! e"
    using len by auto
qed

section \<open>The sites\<close>

definition first_ports :: "deck_model \<Rightarrow> (nat \<times> flt) list \<Rightarrow> nat list" where
  \<comment> \<open>the ports with no earlier port in the same element\<close>
  "first_ports m ports =
     filter (\<lambda>i. \<forall>j < i. port_element m (ports ! j) \<noteq> port_element m (ports ! i)) [0..<length ports]"

lemma first_ports_snoc:
  "first_ports m (ports @ [p]) =
     first_ports m ports @ (if port_element m p \<in> port_element m ` set ports then [] else [length ports])"
proof -
  have "(\<forall>j < length ports. port_element m (ports ! j) \<noteq> port_element m p) \<longleftrightarrow>
      port_element m p \<notin> port_element m ` set ports"
    by (metis (no_types, opaque_lifting) imageE image_eqI in_set_conv_nth)
  then show ?thesis
    unfolding first_ports_def by (auto simp: nth_append intro!: filter_cong)
qed

lemma first_ports_distinct: "distinct (map (port_element m) ports) \<Longrightarrow> first_ports m ports = [0..<length ports]"
  by (auto simp: first_ports_def nth_eq_iff_index_eq distinct_conv_nth)

definition sites_of :: "deck_model \<Rightarrow> (nat \<times> flt) list \<Rightarrow> sites \<Rightarrow> bool" where
  "sites_of m ports sites \<longleftrightarrow>
     distinct (map fst sites) \<and>
     (\<forall>p \<in> set ports. \<exists>key \<in> fst ` set sites. port_element m p = Inr key) \<and>
     (\<forall>(key, i) \<in> set sites. i < length ports \<and> port_element m (ports ! i) = Inr key) \<and>
     map snd sites = first_ports m ports"

lemma add_site_eq:
  "add_site m sites (i, p) =
     bindE (port_element m p) (\<lambda>key. Inr (if key \<in> fst ` set sites then sites else sites @ [(key, i)]))"
  by (cases p) (simp add: add_site_def port_element_def bindE_assoc case_prod_unfold cong: if_cong)

lemma sites_of_step:
  assumes "sites_of m ports sites" and "add_site m sites (length ports, p) = Inr sites'"
  shows "sites_of m (ports @ [p]) sites'"
proof -
  obtain key where key: "port_element m p = Inr key"
    and s: "sites' = (if key \<in> fst ` set sites then sites else sites @ [(key, length ports)])"
    using assms(2) by (auto simp: add_site_eq okE)
  have old: "\<forall>(key, i) \<in> set sites. i < length (ports @ [p]) \<and> port_element m ((ports @ [p]) ! i) = Inr key"
    using assms(1) by (auto simp: sites_of_def nth_append)
  show ?thesis
  proof (cases "key \<in> fst ` set sites")
    case True
    then obtain i where i: "(key, i) \<in> set sites"
      by force
    then have "port_element m (ports ! i) = port_element m p" and "ports ! i \<in> set ports"
      using assms(1) key by (auto simp: sites_of_def)
    then have "port_element m p \<in> port_element m ` set ports"
      by (metis imageI)
    then show ?thesis
      using True old assms(1) key unfolding sites_of_def s first_ports_snoc by auto
  next
    case False
    have "port_element m p \<notin> port_element m ` set ports"
      using assms(1) key False by (force simp: sites_of_def)
    then show ?thesis
      using False old assms(1) key unfolding sites_of_def s first_ports_snoc by auto
  qed
qed

lemma port_sites_ok: "port_sites m ports = Inr sites \<Longrightarrow> sites_of m ports sites"
proof (induction ports arbitrary: sites rule: rev_induct)
  case Nil
  then show ?case
    by (simp add: port_sites_def sites_of_def first_ports_def)
next
  case (snoc p ports)
  then obtain s where "port_sites m ports = Inr s" "add_site m s (length ports, p) = Inr sites"
    by (auto simp: port_sites_def enumerate_append_eq foldE_append okE)
  then show ?case
    using snoc.IH sites_of_step by blast
qed

section \<open>The ports of the spans\<close>

definition in_range :: "deck_model \<Rightarrow> sites \<Rightarrow> bool" where
  "in_range m sites \<longleftrightarrow>
     (\<forall>((i, e, k), p) \<in> set sites. i < length (dm_wires m) \<and>
        e < length (dw_edge_elements (dm_wires m ! i)) \<and> 0 \<le> k \<and> k < dw_edge_elements (dm_wires m ! i) ! e)"

lemma sites_in_range:
  assumes "sites_of m ports sites" and "\<forall>w \<in> set (dm_wires m). meshable w"
  shows "in_range m sites"
  unfolding in_range_def
proof (clarify)
  fix i e k p
  assume "((i, e, k), p) \<in> set sites"
  then have "port_element m (ports ! p) = Inr (i, e, k)"
    using assms(1) by (auto simp: sites_of_def)
  then obtain w where "i < length (dm_wires m)" "w = dm_wires m ! i" "element_on w (snd (ports ! p)) = Inr (e, k)"
    by (auto simp: port_element_def okE nthE_def split: if_splits)
  moreover then have "meshable w"
    using assms(2) by simp
  ultimately show "i < length (dm_wires m) \<and>
        e < length (dw_edge_elements (dm_wires m ! i)) \<and> 0 \<le> k \<and> k < dw_edge_elements (dm_wires m ! i) ! e"
    using element_on_bounds by blast
qed

lemma on_edge_alt:
  "on_edge sites i e =
     map (\<lambda>s. (snd (snd (fst s)), snd s)) (filter (\<lambda>s. fst (fst s) = i \<and> fst (snd (fst s)) = e) sites)"
  by (induction sites) (auto simp: on_edge_def)

lemma snd_on_edge:
  "map snd (on_edge sites i e) = map snd (filter (\<lambda>s. fst (fst s) = i \<and> fst (snd (fst s)) = e) sites)"
  by (simp add: on_edge_alt comp_def)

lemma mset_filter_Un:
  "(\<And>x. x \<in> set xs \<Longrightarrow> \<not> (P x \<and> Q x)) \<Longrightarrow>
     mset (map f (filter P xs)) + mset (map f (filter Q xs)) = mset (map f (filter (\<lambda>x. P x \<or> Q x) xs))"
  by (induction xs) auto

lemma edge_ports:
  assumes "in_range m sites" and "distinct (map fst sites)" and "i < length (dm_wires m)"
    and "\<forall>w \<in> set (dm_wires m). meshable w" and "e < length (dw_edge_elements (dm_wires m ! i))"
  shows "mset (ports_of (edge_spans sites i (dm_wires m ! i) e)) =
    mset (map snd (filter (\<lambda>s. fst (fst s) = i \<and> fst (snd (fst s)) = e) sites))"
proof -
  have "inj_on (\<lambda>s. snd (snd (fst s))) (set (filter (\<lambda>s. fst (fst s) = i \<and> fst (snd (fst s)) = e) sites))"
    using assms(2) by (auto simp: inj_on_def distinct_map prod_eq_iff)
  then have "distinct (map fst (on_edge sites i e))"
    using assms(2) by (simp add: on_edge_alt comp_def distinct_map)
  moreover have "0 < dw_edge_elements (dm_wires m ! i) ! e"
    using assms(4) nth_mem[OF assms(3)] nth_mem[OF assms(5)] unfolding meshable_def by blast
  moreover have "0 \<le> k \<and> k < dw_edge_elements (dm_wires m ! i) ! e" if "k \<in> fst ` set (on_edge sites i e)" for k
    using that assms(1) by (auto simp: on_edge_alt in_range_def)
  ultimately show ?thesis
    using edge_spans_ports[of sites i e "dm_wires m ! i"] by (simp add: snd_on_edge)
qed

lemma wire_ports:
  assumes "in_range m sites" and "distinct (map fst sites)" and "i < length (dm_wires m)"
    and "\<forall>w \<in> set (dm_wires m). meshable w"
  shows "mset (ports_of (wire_spans sites (i, dm_wires m ! i))) =
    mset (map snd (filter (\<lambda>s. fst (fst s) = i) sites))"
proof -
  let ?w = "dm_wires m ! i"
  have "mset (ports_of (concat (map (edge_spans sites i ?w) [0..<n]))) =
      mset (map snd (filter (\<lambda>s. fst (fst s) = i \<and> fst (snd (fst s)) < n) sites))"
    if "n \<le> length (dw_edge_elements ?w)" for n
    using that
  proof (induction n)
    case (Suc n)
    have "mset (map snd (filter (\<lambda>s. fst (fst s) = i \<and> fst (snd (fst s)) < n) sites)) +
        mset (map snd (filter (\<lambda>s. fst (fst s) = i \<and> fst (snd (fst s)) = n) sites)) =
        mset (map snd (filter (\<lambda>s. fst (fst s) = i \<and> fst (snd (fst s)) < Suc n) sites))"
      by (subst mset_filter_Un) (auto simp: less_Suc_eq conj_disj_distribL)
    then show ?case
      using Suc edge_ports[OF assms, of n] by simp
  qed simp
  then have "mset (ports_of (wire_spans sites (i, ?w))) =
      mset (map snd (filter (\<lambda>s. fst (fst s) = i \<and> fst (snd (fst s)) < length (dw_edge_elements ?w)) sites))"
    by (simp add: wire_spans_def)
  also have "filter (\<lambda>s. fst (fst s) = i \<and> fst (snd (fst s)) < length (dw_edge_elements ?w)) sites =
      filter (\<lambda>s. fst (fst s) = i) sites"
    using assms(1) by (intro filter_cong) (auto simp: in_range_def)
  finally show ?thesis .
qed

lemma all_ports:
  assumes "in_range m sites" and "distinct (map fst sites)" and "\<forall>w \<in> set (dm_wires m). meshable w"
  shows "mset (ports_of (concat (map (wire_spans sites) (enumerate 0 (dm_wires m))))) = mset (map snd sites)"
proof -
  let ?W = "dm_wires m"
  have "mset (ports_of (concat (map (wire_spans sites) (take n (enumerate 0 ?W))))) =
      mset (map snd (filter (\<lambda>s. fst (fst s) < n) sites))" if "n \<le> length ?W" for n
    using that
  proof (induction n)
    case (Suc n)
    have "mset (map snd (filter (\<lambda>s. fst (fst s) < n) sites)) +
        mset (map snd (filter (\<lambda>s. fst (fst s) = n) sites)) =
        mset (map snd (filter (\<lambda>s. fst (fst s) < Suc n) sites))"
      by (subst mset_filter_Un) (auto simp: less_Suc_eq conj_disj_distribL)
    then show ?case
      using Suc wire_ports[OF assms(1,2) _ assms(3), of n]
      by (simp add: take_Suc_conv_app_nth nth_enumerate_eq)
  qed simp
  from this[of "length ?W"]
  have "mset (ports_of (concat (map (wire_spans sites) (enumerate 0 ?W)))) =
      mset (map snd (filter (\<lambda>s. fst (fst s) < length ?W) sites))"
    by simp
  also have "filter (\<lambda>s. fst (fst s) < length ?W) sites = sites"
    using assms(1) by (intro filter_True) (auto simp: in_range_def)
  finally show ?thesis .
qed

theorem spans_ports:
  assumes "spans m ports = Inr ss" and "\<forall>w \<in> set (dm_wires m). meshable w"
  shows "mset (map snd (port_spans ss)) = mset (first_ports m ports)"
proof -
  obtain sites where "port_sites m ports = Inr sites"
    and ss: "ss = concat (map (wire_spans sites) (enumerate 0 (dm_wires m)))"
    using assms(1) by (auto simp: spans_def okE)
  then have ok: "sites_of m ports sites"
    by (simp add: port_sites_ok)
  have "mset (ports_of ss) = mset (map snd sites)"
    unfolding ss using ok by (intro all_ports sites_in_range[OF ok assms(2)] assms(2)) (simp add: sites_of_def)
  also have "map snd sites = first_ports m ports"
    using ok by (simp add: sites_of_def)
  finally show ?thesis
    by (simp only: map_snd_port_spans)
qed

end
