(* ===== verification/Mesh_Errors.thy ===== *)
theory Mesh_Errors
  imports Mesh_Ports Snap_Laws
begin

text \<open>
  Which exceptions the translation to polylines can raise: never one that no input should
  reach, and no loop of it runs on.
\<close>

section \<open>Spans and the plane split\<close>

lemma clean_nthE [clean_rules]: "clean (nthE xs i)"
  by (simp add: nthE_def)

lemma clean_element_from: "xs \<noteq> [] \<Longrightarrow> clean (element_from xs k s)"
  by (induction xs k s rule: element_from.induct)
    (auto simp: Let_def intro!: clean_rules)

lemma clean_element_on:
  assumes "mk_deck_wire w = Inr w'"
  shows "clean (element_on w s)"
proof -
  have "zip (edge_lengths w) (dw_edge_elements w) \<noteq> []"
    using mk_deck_wire_edges[OF assms] by (cases "edge_lengths w"; cases "dw_edge_elements w") auto
  then show ?thesis
    unfolding element_on_def by (rule clean_element_from)
qed

definition constructed :: "deck_model \<Rightarrow> bool" where
  \<comment> \<open>every wire passed the checks of its class\<close>
  "constructed m \<longleftrightarrow> (\<forall>w \<in> set (dm_wires m). mk_deck_wire w = Inr w)"

lemma clean_spans:
  assumes "constructed m"
  shows "clean (spans m ports)"
proof -
  have "clean (add_site m sites p)" for sites p
  proof -
    obtain i wire s where p: "p = (i, wire, s)"
      by (cases p)
    have "clean (bindE (nthE (dm_wires m) wire) (\<lambda>w. bindE (element_on w s) (f w)))"
      if "\<And>w x. clean (f w x)" for f :: "deck_wire \<Rightarrow> nat \<times> int \<Rightarrow> pyexn + sites"
    proof (intro clean_bind clean_nthE)
      fix w
      assume "nthE (dm_wires m) wire = Inr w"
      then have "w \<in> set (dm_wires m)"
        by (auto simp: nthE_def split: if_splits)
      then show "clean (element_on w s)"
        using assms clean_element_on by (auto simp: constructed_def)
    qed (rule that)
    then show ?thesis
      by (simp add: add_site_def p case_prod_unfold)
  qed
  then show ?thesis
    unfolding spans_def port_sites_def by (intro clean_bind clean_foldE_all) simp_all
qed

lemma new_wire_constructed: "new_wire w s = Inr w' \<Longrightarrow> mk_deck_wire w' = Inr w'"
  unfolding new_wire_def using mk_deck_wire_ok by metis

lemma split_at_plane_constructed:
  assumes "split_at_plane m = Inr m'" and "constructed m"
  shows "constructed m'"
proof (cases "dm_ground m = NoGround")
  case True
  then show ?thesis
    using assms by (simp add: split_at_plane_def)
next
  case False
  then obtain new where new: "mapE (\<lambda>w. bindE (split_the_wire (dm_ground_z m) w) (\<lambda>s.
                    bindE (new_wire w s) (\<lambda>w'. Inr (w', s)))) (dm_wires m) = Inr new"
    and m': "m' = m \<or> dm_wires m' = map fst new"
    using assms(1) by (auto simp: split_at_plane_def okE split: if_splits)
  have "mk_deck_wire (fst x) = Inr (fst x)" if "x \<in> set new" for x
  proof -
    from that obtain i where "i < length new" "x = new ! i"
      by (auto simp: in_set_conv_nth)
    moreover obtain w s where "new_wire w s = Inr (fst (new ! i))"
      using mapE_nth[OF new, of i] mapE_length[OF new] calculation(1) by (cases "new ! i") (auto simp: okE)
    ultimately show ?thesis
      by (simp add: new_wire_constructed)
  qed
  then show ?thesis
    using m' assms(2) by (auto simp: constructed_def)
qed

lemma clean_split_edge: "clean (split_edge gz tol s x)"
  by (cases x) (auto simp: split_edge_def Let_def intro!: clean_rules)

lemma clean_split_at_plane: "clean (split_at_plane m)"
proof -
  have "clean (split_the_wire gz w)" for gz w
    unfolding split_the_wire_def by (intro clean_bind clean_nthE clean_foldE_all clean_split_edge)
  moreover have "clean (new_wire w s)" for w s
    by (simp add: new_wire_def mk_deck_wire_def)
  ultimately show ?thesis
    unfolding split_at_plane_def
    by (intro clean_if clean_bind clean_mapE) (auto intro!: clean_rules)
qed

section \<open>The graph and the chaining\<close>

lemma clean_node_id: "clean (node_id nodes p)"
  unfolding node_id_def mesh_key_def by (cases p) (auto intro!: clean_rules)

lemma clean_mesh_graph: "clean (mesh_graph m ss)"
proof -
  have "clean (add_edge st s)" for st s
    by (cases st) (auto simp: add_edge_def intro!: clean_rules clean_node_id)
  moreover have "clean (gap_node m st g)" for st g
    by (cases st; cases g) (auto simp: gap_node_def intro!: clean_rules clean_node_id)
  moreover have "clean (force bs v)" for bs v
    by (simp add: force_def nthE_def)
  ultimately show ?thesis
    unfolding mesh_graph_def Let_def by (auto intro!: clean_rules clean_foldE_all)
qed

text \<open>Every span has a place and a direction.\<close>

lemma chained_place:
  assumes "chained ss es ch paths" and "set (concat paths) = {..<length es}" and "e < length es"
  obtains i p d where "ch_place ch e = Some (i, p)" and "ch_direction ch e = Some d"
    and "i < length paths" and "p < length (paths ! i)" and "paths ! i ! p = e"
proof -
  have "e \<in> set (concat paths)"
    using assms(2,3) by simp
  then obtain fs where "fs \<in> set paths" and "e \<in> set fs"
    by auto
  then obtain i p where i: "i < length paths" "p < length (paths ! i)" "paths ! i ! p = e"
    by (auto simp: in_set_conv_nth)
  moreover have "places_ok es paths ch"
    using assms(1) by (simp only: chained_def)
  ultimately show ?thesis
    using that unfolding places_ok_def by blast
qed

lemma port_spans_lt: "(i, p) \<in> set (port_spans ss) \<Longrightarrow> i < length ss"
  by (auto simp: port_spans_def in_set_enumerate_eq split: option.splits)

lemma clean_mesh_of:
  assumes "chained ss es ch paths" and "set (concat paths) = {..<length es}" and "length es = length ss"
  shows "clean (mesh_of m ss nodes forced ch)"
proof -
  have "clean (place_port ch ls x)" if "x \<in> set (port_spans ss)" for ls x
  proof -
    have "fst x < length es"
      using port_spans_lt[of "fst x" "snd x" ss] that assms(3) by simp
    then obtain i p d where "ch_place ch (fst x) = Some (i, p)" "ch_direction ch (fst x) = Some d"
      by (rule chained_place[OF assms(1,2)])
    then show ?thesis
      by (simp add: place_port_def Let_def)
  qed
  moreover have "clean (gap_member ss ch g)" for g
  proof -
    obtain wire vertex volts where g: "g = (wire, vertex, volts)"
      by (cases g)
    let ?p = "\<lambda>s. sp_wire s = wire \<and> sp_edge s = vertex - 1 \<and> (if vertex = 0 then sp_at_start s else sp_at_end s)"
    show ?thesis
    proof (cases "index_of ?p ss")
      case None
      then show ?thesis
        by (simp add: gap_member_def g Let_def)
    next
      case (Some k)
      then have "k < length es"
        using index_of_Some[OF Some] assms(3) by simp
      then obtain i p d where "ch_place ch k = Some (i, p)" "ch_direction ch k = Some d"
        by (rule chained_place[OF assms(1,2)])
      then show ?thesis
        using Some by (simp add: gap_member_def g Let_def)
    qed
  qed
  ultimately show ?thesis
    unfolding mesh_of_def Let_def by (intro clean_bind clean_mapE) simp_all
qed

theorem clean_to_polylines:
  assumes "constructed m"
  shows "clean (to_polylines m ports)"
  unfolding to_polylines_def
proof (rule clean_bind[OF clean_split_at_plane])
  fix m'
  assume m': "split_at_plane m = Inr m'"
  have rest: "clean (case g of (nodes, es, bd, forced) \<Rightarrow>
      bindE (chaining ss es bd) (mesh_of m' ss nodes forced))" if g: "mesh_graph m' ss = Inr g" for ss g
  proof -
    obtain nodes es bd forced where gg: "g = (nodes, es, bd, forced)"
      by (cases g)
    note ok = mesh_graph_ok[OF g[unfolded gg]]
    obtain ch paths where ch: "chaining ss es bd = Inr ch"
      and c: "chained ss es ch paths" "set (concat paths) = {..<length es}"
      by (rule chaining_ok[OF ok(1)])
    show ?thesis
      unfolding gg prod.case ch bindE_Inr by (rule clean_mesh_of[OF c ok(2)])
  qed
  show "clean (bindE (spans m' ports) (\<lambda>ss. bindE (guardE (ss = []) ValueError) (\<lambda>_.
      bindE (mesh_graph m' ss) (\<lambda>(nodes, es, bd, forced).
      bindE (chaining ss es bd) (mesh_of m' ss nodes forced)))))"
    by (intro clean_bind clean_spans[OF split_at_plane_constructed[OF m' assms]] clean_mesh_graph rest) simp_all
qed

end
