(* ===== verification/Mesh_Example.thy ===== *)
theory Mesh_Example
  imports Mesh_Errors
begin

text \<open>
  A worked mesh: a closed square of four wires, three elements a side, with a port in the
  first element of the first side.  The port's element becomes a span of its own; the walk
  starts nowhere, so the loop is cut at the port.
\<close>

definition side_of :: "point \<Rightarrow> point \<Rightarrow> deck_wire" where
  "side_of p q = \<lparr>dw_vertices = [p, q], dw_radius = Fin (1 / 1000), dw_edge_elements = [3], dw_material = None\<rparr>"

definition corner :: "nat \<Rightarrow> point" where
  "corner k = [(Fin 0, Fin 0, Fin 0), (Fin 3, Fin 0, Fin 0), (Fin 3, Fin 3, Fin 0), (Fin 0, Fin 3, Fin 0)] ! k"

definition square :: deck_model where
  "square =
     \<lparr>dm_wires = [side_of (corner 0) (corner 1), side_of (corner 1) (corner 2),
                  side_of (corner 2) (corner 3), side_of (corner 3) (corner 0)],
      dm_feeds = [(0, Fin (1 / 2), (Fin 1, Fin 0))], dm_node_gaps = [], dm_loads = [],
      dm_ground = NoGround, dm_ground_z = Fin 0, dm_second_medium = None,
      dm_ground_plane_flag = False, dm_ground_plane_interpolates = False, dm_groups = [],
      dm_comments = [], dm_quiet = False, dm_reduced_field = None, dm_deferred = [],
      dm_networks = [], dm_current_feeds = [], dm_extended_kernel_default = False,
      dm_junction_rule = []\<rparr>"

lemma square_constructed: "constructed square"
  by (simp add: constructed_def square_def side_of_def mk_deck_wire_def)

lemma small_flt: "\<bar>r\<bar> \<le> 10 ^ 12 \<Longrightarrow> fval r = Fin r"
  by (rule fval_small) simp

lemma square_element: "element_on (side_of (corner 0) (corner 1)) (Fin (1 / 2)) = Inr (0, 0)"
  by (simp add: element_on_def side_of_def corner_def edge_lengths_def fdist_def flt_ops_Fin fint_def small_flt
      Let_def divide_flt_def minus_flt_def)

lemma square_sites: "port_sites square [(0, Fin (1 / 2))] = Inr [((0, 0, 0), 0)]"
  using square_element by (simp add: port_sites_def add_site_def square_def nthE_def)

definition square_spans :: "span list" where
  "square_spans =
     (let s = (\<lambda>p q n port w st en. \<lparr>sp_p0 = p, sp_p1 = q, sp_n = n, sp_port = port, sp_radius = Fin (1 / 1000),
                  sp_material = None, sp_wire = w, sp_edge = 0, sp_at_start = st, sp_at_end = en\<rparr>);
          mid = (Fin 1, Fin 0, Fin 0)
      in [s (corner 0) mid 1 (Some 0) 0 True False, s mid (corner 1) 2 None 0 False True,
          s (corner 1) (corner 2) 3 None 1 True True, s (corner 2) (corner 3) 3 None 2 True True,
          s (corner 3) (corner 0) 3 None 3 True True])"

lemma square_spans_eq: "spans square [(0, Fin (1 / 2))] = Inr square_spans"
proof -
  have bounds: "edge_bounds [(0, 0)] 3 = [1]"
  proof -
    have "(\<Union>(k, _)\<in>set [(0 :: int, 0 :: nat)]. {k, k + 1}) - {0, 3 :: int} = {1}"
      by auto
    then show ?thesis
      by (simp add: edge_bounds_def)
  qed
  show ?thesis
    unfolding spans_def square_sites bindE_Inr
    by (simp add: square_def wire_spans_def edge_spans_def on_edge_def bounds side_of_def span_of_def Let_def
        edge_point_def lerp_def corner_def flt_ops_Fin small_flt square_spans_def)
qed

definition square_nodes :: node_table where
  "square_nodes =
     [((0, 0, 0), corner 0), ((10 ^ 6, 0, 0), (Fin 1, Fin 0, Fin 0)), ((3 * 10 ^ 6, 0, 0), corner 1),
      ((3 * 10 ^ 6, 3 * 10 ^ 6, 0), corner 2), ((0, 3 * 10 ^ 6, 0), corner 3)]"

definition square_edges :: edges where
  "square_edges = [(0, 1), (1, 2), (2, 3), (3, 4), (4, 0)]"

lemma round_even_num [simp]:
  "round_even 0 = 0" "round_even 1 = 1" "round_even (numeral n) = numeral n"
  using round_even_of_int[of 0] round_even_of_int[of 1] round_even_of_int[of "numeral n"] by simp_all

lemma square_graph:
  "mesh_graph square square_spans = Inr (square_nodes, square_edges, [False, False, False, False, False], [])"
proof -
  have "foldE add_edge ([], []) square_spans = Inr (square_nodes, square_edges)"
    by (simp add: square_spans_def add_edge_def node_id_def mesh_key_def mesh_eps_def corner_def
        divide_flt_def small_flt square_nodes_def square_edges_def Let_def)
  then show ?thesis
    by (simp add: mesh_graph_def square_def ends_polyline_def square_edges_def neighbours_def kind_changes_def
        crossing_node_def square_spans_def Let_def square_nodes_def upt_rec)
qed

definition square_mesh :: mesh where
  "square_mesh =
     \<lparr>me_polylines = [[corner 0, (Fin 1, Fin 0, Fin 0)],
                      [(Fin 1, Fin 0, Fin 0), corner 1, corner 2, corner 3, corner 0]],
      me_elements = [[1], [2, 3, 3, 3]],
      me_junctions = [[(0, Start), (1, End)], [(0, End), (1, Start)]],
      me_radii = [Fin (1 / 1000), Fin (1 / 1000)], me_materials = [None, None],
      me_ports = [(0, Fin (1 / 2))], me_port_order = [0], me_gap_members = []\<rparr>"

lemma square_neighbours:
  "neighbours square_edges 0 = [(1, 0), (4, 4)]" "neighbours square_edges 1 = [(0, 0), (2, 1)]"
  "neighbours square_edges 2 = [(1, 1), (3, 2)]" "neighbours square_edges 3 = [(2, 2), (4, 3)]"
  "neighbours square_edges 4 = [(3, 3), (0, 4)]"
  by (simp_all add: neighbours_def square_edges_def)

lemma square_ends:
  "square_edges ! 0 = (0, 1)" "square_edges ! 1 = (1, 2)" "square_edges ! 2 = (2, 3)"
  "square_edges ! 3 = (3, 4)" "square_edges ! 4 = (4, 0)" "length square_edges = Suc (Suc (Suc (Suc (Suc 0))))"
  by (simp_all add: square_edges_def)

lemmas square_simps = square_neighbours[unfolded One_nat_def] square_ends[unfolded One_nat_def]

lemma square_component:
  "component square_edges (length square_edges) [0] [0] [False, False, False, False, False] =
     Inr ([0, 1, 2, 3, 4], [True, True, True, True, True])"
  by (simp add: square_simps visit_def)

definition square_fresh :: chain where
  "square_fresh =
     \<lparr>ch_boundary = [False, False, False, False, False], ch_walked = [False, False, False, False, False],
      ch_polylines = [], ch_elements = [], ch_radii = [], ch_materials = [], ch_place = Map.empty,
      ch_direction = Map.empty, ch_ends = []\<rparr>"

definition square_chain :: chain where
  "square_chain =
     \<lparr>ch_boundary = [True, True, False, False, False], ch_walked = [True, True, True, True, True],
      ch_polylines = [[0, 1], [1, 2, 3, 4, 0]], ch_elements = [[1], [2, 3, 3, 3]],
      ch_radii = [Fin (1 / 1000), Fin (1 / 1000)], ch_materials = [None, None],
      ch_place = [0 \<mapsto> (0, 0), 1 \<mapsto> (1, 0), 2 \<mapsto> (1, 1), 3 \<mapsto> (1, 2), 4 \<mapsto> (1, 3)],
      ch_direction = [0 \<mapsto> 1, 1 \<mapsto> 1, 2 \<mapsto> 1, 3 \<mapsto> 1, 4 \<mapsto> 1],
      ch_ends = [(0, [(0, Start), (1, End)]), (1, [(0, End), (1, Start)])]\<rparr>"

lemma square_walk:
  "walk square_edges [True, True, False, False, False] (length square_edges) 1 1 [True, False, False, False, False] =
     Inr ([2, 3, 4, 0], [1, 2, 3, 4], [True, True, True, True, True])"
  by (simp add: square_simps across_def)

lemma square_cut: "cut_of square_spans [0, 1, 2, 3, 4] = 0"
  by (simp add: cut_of_def square_spans_def Let_def)

lemma square_cycle: "cut_cycle square_spans square_edges square_fresh = Inr square_chain"
proof -
  let ?opened = "\<lparr>ch_boundary = [True, True, False, False, False], ch_walked = [True, False, False, False, False],
      ch_polylines = [[0, 1]], ch_elements = [[1]], ch_radii = [Fin (1 / 1000)], ch_materials = [None],
      ch_place = [0 \<mapsto> (0, 0)], ch_direction = [0 \<mapsto> 1], ch_ends = [(0, []), (1, [])]\<rparr>"
  have opened: "open_loop square_spans square_edges ([0, 1, 2, 3, 4], [True, True, True, True, True]) square_fresh = ?opened"
    unfolding open_loop_def prod.case square_cut Let_def
    by (simp add: square_ends(1) record_path_def square_spans_def square_fresh_def set_default_def Let_def)
  have seed: "index_of Not [False, False, False, False, False] = Some 0"
    and w: "ch_walked square_fresh = [False, False, False, False, False]"
    by (simp_all add: square_fresh_def)
  show ?thesis
    unfolding cut_cycle_def w seed option.case square_component bindE_Inr prod.case Let_def square_cut opened square_ends(1)
    by (simp add: square_walk[unfolded square_ends(6) One_nat_def] square_simps record_path_def
        square_spans_def square_fresh_def square_chain_def push_end_def Let_def fun_upd_twist
        del: walk.simps fun_upd_apply) (simp add: numeral_2_eq_2 numeral_3_eq_3)
qed

lemma square_chaining:
  "chaining square_spans square_edges [False, False, False, False, False] = Inr square_chain"
proof -
  have "starts square_edges [False, False, False, False, False] = []"
    by (simp add: starts_def upt_rec)
  moreover have "fresh_chain square_edges [False, False, False, False, False] = square_fresh"
    by (simp add: fresh_chain_def square_fresh_def square_ends upt_rec)
  moreover have "cut_cycles square_spans square_edges (length square_edges) square_fresh = Inr square_chain"
    using square_cycle cut_cycles_done[of square_chain square_spans square_edges]
    by (simp add: square_ends(6) cut_cycles_step square_fresh_def[THEN arg_cong, of ch_walked] square_chain_def)
  ultimately show ?thesis
    by (simp add: chaining_def)
qed

theorem square_polylines: "to_polylines square [(0, Fin (1 / 2))] = Inr square_mesh"
proof -
  have "split_at_plane square = Inr square" and "square_spans \<noteq> []"
    by (simp_all add: split_at_plane_def square_def square_spans_def Let_def)
  moreover have "mesh_of square square_spans square_nodes [] square_chain = Inr square_mesh"
    by (simp add: mesh_of_def square_chain_def square_mesh_def square_nodes_def port_spans_def square_spans_def
        place_port_def junctions_def square_def corner_def step_lengths_def step_length_def norm3_def
        flt_ops_Fin small_flt Let_def)
  ultimately show ?thesis
    by (simp add: to_polylines_def square_spans_eq square_graph square_chaining)
qed

end
