(* ===== verification/Mesh_Properties.thy ===== *)
theory Mesh_Properties
  imports Mesh_Example
begin

text \<open>
  What the translation of a model into polylines promises, each with its application to the
  square of \<^theory_text>\<open>Mesh_Example\<close>.
\<close>

section \<open>It returns\<close>

text \<open>C15: The translation of a model whose wires passed the checks of their class always returns, and never by a KeyError, an AssertionError or a StopIteration: the walk over the spans and the cutting of closed loops end.\<close>

theorem mesh_returns:
  assumes "\<forall>w \<in> set (dm_wires m). mk_deck_wire w = Inr w"
  shows "to_polylines m ports \<noteq> Inl Diverges \<and> to_polylines m ports \<noteq> Inl StopIteration \<and>
    to_polylines m ports \<noteq> Inl KeyError \<and> to_polylines m ports \<noteq> Inl AssertionError"
  using clean_to_polylines[of m ports] assms
  by (auto simp: constructed_def clean_def internal_def)

theorem mesh_returns_witness:
  "to_polylines square [(0, Fin (5 / 2)), (3, Fin 0)] \<noteq> Inl Diverges \<and>
   to_polylines square [(0, Fin (5 / 2)), (3, Fin 0)] \<noteq> Inl StopIteration \<and>
   to_polylines square [(0, Fin (5 / 2)), (3, Fin 0)] \<noteq> Inl KeyError \<and>
   to_polylines square [(0, Fin (5 / 2)), (3, Fin 0)] \<noteq> Inl AssertionError"
  by (rule mesh_returns) (use square_constructed in \<open>simp add: constructed_def\<close>)

section \<open>The chaining\<close>

lemma chaining_result:
  assumes "mesh_graph m ss = Inr (nodes, es, bd, forced)" and "chaining ss es bd = Inr ch"
  obtains paths where "chained ss es ch paths" and "distinct (concat paths)"
    and "set (concat paths) = {..<length es}" and "grown bd (ch_boundary ch)"
proof -
  obtain ch' paths where "chaining ss es bd = Inr ch'" and "chained ss es ch' paths"
    and "distinct (concat paths)" and "set (concat paths) = {..<length es}"
    and "grown bd (ch_boundary ch')"
    by (rule chaining_ok[OF mesh_graph_ok(1)[OF assms(1)]])
  then show ?thesis
    using that assms(2) by simp
qed

lemma chained_kind:
  assumes "mesh_graph m ss = Inr (nodes, es, bd, forced)" and "chained ss es ch paths"
    and "grown bd (ch_boundary ch)" and "i < length paths" and "e \<in> set (paths ! i)"
  shows "sp_radius (ss ! e) = ch_radii ch ! i \<and> sp_material (ss ! e) = ch_materials ch ! i"
proof -
  let ?vs = "ch_polylines ch ! i"
  have "list_all2 (path_ok es (ch_boundary ch)) paths (ch_polylines ch)"
    and graph: "simple_graph es (length (ch_boundary ch))"
    using assms(2) by (auto simp: chained_def passes_def)
  then have ok: "path_ok es (ch_boundary ch) (paths ! i) ?vs"
    using assms(4) by (simp add: list_all2_nthD)
  have inside: "length (neighbours es v) = 2 \<and> \<not> kind_changes ss es v" if v: "v \<in> set (butlast (tl ?vs))" for v
  proof -
    have nb: "\<not> ch_boundary ch ! v" and "v \<in> set ?vs"
      using ok v by (auto simp: path_ok_def dest: in_set_butlastD list.set_sel(2)[rotated])
    then have "length (neighbours es v) = 2"
      using ok assms(2) by (auto simp: path_ok_def chained_def passes_def)
    moreover have "v \<notin> marked bd"
      using nb assms(3) by (auto simp: grown_def marked_def)
    moreover have "\<exists>f. f \<in> incident es v"
      using calculation(1) degree_card[OF graph, of v] by (metis card.empty equals0I zero_neq_numeral)
    then have "v < length bd"
      using mesh_graph_ok(1)[OF assms(1)] simple_graph_edge by (fastforce simp: passes_def incident_def)
    ultimately show ?thesis
      using mesh_graph_ok(3)[OF assms(1)] by (auto simp: between_def marked_def)
  qed
  have "kind (ss ! e) = kind (ss ! hd (paths ! i))"
    using ok by (intro trail_kind[OF _ graph inside assms(5)]) (auto simp: path_ok_def)
  then show ?thesis
    using assms(2,4) by (simp add: kind_def chained_def)
qed

text \<open>C12: The chaining puts every span on exactly one polyline, at one place of it: the polylines are trails over the graph of the spans, the element counts are those of the spans in order, the place table says where each span is, and the spans of a polyline all have its radius and its material.\<close>

theorem spans_are_chained:
  assumes "mesh_graph m ss = Inr (nodes, es, bd, forced)"
  shows "\<exists>ch paths. chaining ss es bd = Inr ch \<and>
    list_all2 (\<lambda>fs vs. fs \<noteq> [] \<and> vs \<noteq> [] \<and> trail es (hd vs) fs (tl vs)) paths (ch_polylines ch) \<and>
    distinct (concat paths) \<and> set (concat paths) = {..<length ss} \<and>
    ch_elements ch = map (map (\<lambda>e. sp_n (ss ! e))) paths \<and>
    (\<forall>i < length paths. \<forall>p < length (paths ! i).
       ch_place ch (paths ! i ! p) = Some (i, p) \<and>
       sp_radius (ss ! (paths ! i ! p)) = ch_radii ch ! i \<and>
       sp_material (ss ! (paths ! i ! p)) = ch_materials ch ! i)"
proof -
  obtain ch paths where ch: "chaining ss es bd = Inr ch" and ok: "chained ss es ch paths"
    and d: "distinct (concat paths)" and s: "set (concat paths) = {..<length es}"
    and bd: "grown bd (ch_boundary ch)"
    by (rule chaining_ok[OF mesh_graph_ok(1)[OF assms]])
  have len: "length es = length ss"
    by (rule mesh_graph_ok(2)[OF assms])
  have "list_all2 (\<lambda>fs vs. fs \<noteq> [] \<and> vs \<noteq> [] \<and> trail es (hd vs) fs (tl vs)) paths (ch_polylines ch)"
    using ok by (auto simp: chained_def path_ok_def elim!: list.rel_mono_strong)
  moreover have "ch_elements ch = map (map (\<lambda>e. sp_n (ss ! e))) paths"
    using ok by (simp only: chained_def)
  moreover have "places_ok es paths ch"
    using ok by (simp only: chained_def)
  then have "\<forall>i < length paths. \<forall>p < length (paths ! i). ch_place ch (paths ! i ! p) = Some (i, p)"
    by (simp add: places_ok_def)
  moreover have "\<forall>i < length paths. \<forall>p < length (paths ! i).
      sp_radius (ss ! (paths ! i ! p)) = ch_radii ch ! i \<and>
      sp_material (ss ! (paths ! i ! p)) = ch_materials ch ! i"
    using chained_kind[OF assms ok bd] by simp
  ultimately show ?thesis
    using ch d s len by (intro exI[of _ ch] exI[of _ paths]) simp
qed

theorem spans_are_chained_witness:
  "\<exists>ch paths. chaining square_spans square_edges [False, False, False, False, False] = Inr ch \<and>
    distinct (concat paths) \<and> set (concat paths) = {..<length square_spans} \<and>
    ch_elements ch = map (map (\<lambda>e. sp_n (square_spans ! e))) paths"
  using spans_are_chained[OF square_graph] by blast

text \<open>C13: At a node where polylines end, the junction table lists every end there, and there are as many as spans meet at the node; at every other node exactly two spans meet.  So no conductor is left out of a junction's current balance.\<close>

theorem junctions_list_every_end:
  assumes "mesh_graph m ss = Inr (nodes, es, bd, forced)" and "chaining ss es bd = Inr ch"
    and "v < length bd"
  shows "if ch_boundary ch ! v
    then map_of (ch_ends ch) v = Some (path_ends (ch_polylines ch) v) \<and>
         length (path_ends (ch_polylines ch) v) = length (neighbours es v)
    else length (neighbours es v) = 2 \<and> map_of (ch_ends ch) v = None"
proof -
  obtain paths where ok: "chained ss es ch paths" and s: "set (concat paths) = {..<length es}"
    and bd: "grown bd (ch_boundary ch)"
    by (rule chaining_result[OF assms(1,2)])
  have graph: "simple_graph es (length bd)"
    using mesh_graph_ok(1)[OF assms(1)] by (simp add: passes_def)
  show ?thesis
  proof (cases "ch_boundary ch ! v")
    case True
    have "v < length (ch_boundary ch)"
      using bd assms(3) by (simp add: grown_def)
    then show ?thesis
      using chained_ends[OF ok s _ True] True by (simp add: degree_card[OF graph])
  next
    case False
    then have "v \<notin> marked bd"
      using bd by (auto simp: grown_def marked_def)
    then have "length (neighbours es v) = 2"
      using mesh_graph_ok(3)[OF assms(1)] assms(3) by (auto simp: between_def marked_def)
    moreover have "v \<notin> fst ` set (ch_ends ch)"
      using ok False by (auto simp: chained_def ends_ok_def marked_def)
    ultimately show ?thesis
      using False by (simp add: map_of_eq_None_iff)
  qed
qed

lemma square_chain_node:
  "map_of (ch_ends square_chain) 0 = Some [(0, Start), (1, End)]"
  by (simp add: square_chain_def)

theorem junctions_list_every_end_witness:
  "map_of (ch_ends square_chain) 0 = Some (path_ends (ch_polylines square_chain) 0) \<and>
   length (path_ends (ch_polylines square_chain) 0) = length (neighbours square_edges 0) \<and>
   length (neighbours square_edges 3) = 2 \<and> map_of (ch_ends square_chain) 3 = None"
  using junctions_list_every_end[OF square_graph square_chaining, of 0]
    junctions_list_every_end[OF square_graph square_chaining, of 3]
  by (simp add: square_chain_def)

section \<open>Elements and ports\<close>

lemma to_polylines_parts:
  assumes "to_polylines m ports = Inr me" and "split_at_plane m = Inr m'"
  obtains ss nodes es bd forced ch where "spans m' ports = Inr ss"
    and "mesh_graph m' ss = Inr (nodes, es, bd, forced)" and "chaining ss es bd = Inr ch"
    and "mesh_of m' ss nodes forced ch = Inr me"
  using assms by (auto simp: to_polylines_def okE)

lemma mesh_of_parts:
  assumes "mesh_of m ss nodes forced ch = Inr me"
  shows "me_elements me = ch_elements ch" and "me_port_order me = map snd (port_spans ss)"
    and "length (me_ports me) = length (port_spans ss)"
    and "me_junctions me = junctions forced (ch_ends ch)"
  using assms by (auto simp: mesh_of_def okE Let_def dest: mapE_length)

text \<open>C14: The mesh has the elements of the wires, as the ground plane splits them: no element is lost or added by cutting out the ports and chaining.
  When every edge has at least one element, its ports are the first given in each element, each exactly once: a second
  port in an element gets no span.  So when the ports are in different elements the port order is a permutation of them.\<close>

theorem mesh_keeps_elements_and_ports:
  assumes "to_polylines m ports = Inr me" and "split_at_plane m = Inr m'"
  shows "sum_by (sum_by id) (me_elements me) = sum_by n_elements (dm_wires m') \<and>
    length (me_ports me) = length (me_port_order me) \<and>
    ((\<forall>w \<in> set (dm_wires m'). meshable w) \<longrightarrow>
      mset (me_port_order me) = mset (first_ports m' ports) \<and>
      (distinct (map (port_element m') ports) \<longrightarrow> mset (me_port_order me) = mset [0..<length ports]))"
proof -
  obtain ss nodes es bd forced ch where ss: "spans m' ports = Inr ss"
    and g: "mesh_graph m' ss = Inr (nodes, es, bd, forced)" and ch: "chaining ss es bd = Inr ch"
    and me: "mesh_of m' ss nodes forced ch = Inr me"
    by (rule to_polylines_parts[OF assms(1,2)])
  note parts = mesh_of_parts[OF me]
  obtain paths where ok: "chained ss es ch paths" and s: "set (concat paths) = {..<length es}"
    by (rule chaining_result[OF g ch])
  have "sum_by (sum_by id) (me_elements me) = sum_by sp_n ss"
    unfolding parts(1) using s by (intro chained_total[OF ok]) (simp add: mesh_graph_ok(2)[OF g])
  moreover have "mset (me_port_order me) = mset (first_ports m' ports)" if "\<forall>w \<in> set (dm_wires m'). meshable w"
    unfolding parts(2) by (rule spans_ports[OF ss that])
  moreover have "length (me_ports me) = length (me_port_order me)"
    by (simp add: parts(2,3))
  ultimately show ?thesis
    by (simp add: spans_total[OF ss] first_ports_distinct)
qed

theorem mesh_keeps_elements_and_ports_witness:
  "sum_by (sum_by id) (me_elements square_mesh) = sum_by n_elements (dm_wires square) \<and>
   mset (me_port_order square_mesh) = mset [0..<length [(0 :: nat, Fin (1 / 2))]] \<and>
   length (me_ports square_mesh) = length [(0 :: nat, Fin (1 / 2))]"
proof -
  have split: "split_at_plane square = Inr square"
    by (simp add: split_at_plane_def square_def)
  have "\<forall>w \<in> set (dm_wires square). meshable w"
    using square_constructed by (auto simp: constructed_def meshable_def square_def side_of_def)
  then have perm: "mset (me_port_order square_mesh) = mset [0..<length [(0 :: nat, Fin (1 / 2))]]"
    using mesh_keeps_elements_and_ports[OF square_polylines split] by simp
  then show ?thesis
    using mesh_keeps_elements_and_ports[OF square_polylines split] arg_cong[OF perm, of size] by simp
qed

end
