(* ===== verification/Spec2Isabelle.thy ===== *)
theory Spec2Isabelle
  imports Deck_Properties Geometry_Properties Card_Properties Nec4_Properties Curve_Properties
    Schedule_Properties Serve_Properties Network_Properties Mesh_Properties
begin

text \<open>
  A verification development for momwire.

  \<^bold>\<open>The program.\<close> momwire solves thin-wire antenna problems by the method of
  moments.  A problem reaches it as a \<^emph>\<open>deck\<close>: a text of punched-card lines in the
  dialect of one of the NEC programs.  The reader turns the deck into a model, the model's
  wires are chained into the polylines a solver takes, a solver fills its matrices in
  scheduled parts, the antenna's admittance is put into a circuit of lines, loads and
  transformers, and a pool of worker processes answers many requests.  The numerical
  kernels apart, these are the decisions everything else rests on, and they are what is
  modelled: a reader that misunderstands a card, or a circuit stamped wrong, yields a
  precise answer to another question.

  \<^bold>\<open>Deck readers\<close>, package \<^verbatim>\<open>src/src/momwire/deck\<close>.  A deck passes through these parts:

  \<^item> a line becomes a card (\<^verbatim>\<open>deck/_cards.py\<close>; theory Cards): the mnemonic, split
    from a number it may be fused to, and the fields, each a number or the word that could
    not be read as one;
  \<^item> geometry cards build a list of wires (\<^verbatim>\<open>deck/_nec2_geometry.py\<close>; theory Geometry),
    GE closes it, and the ends that come within a tolerance of each other are made to meet
    and wires are cut where others join them (theory Connections);
  \<^item> the same file answers what the cards after GE ask: which wire and which point a tag and
    segment number name (theory Structure, the class \<^verbatim>\<open>Nec2Structure\<close>);
  \<^item> the state machine \<^verbatim>\<open>_Nec2Parser\<close> of \<^verbatim>\<open>deck/_nec2.py\<close> reads the cards in order, keeps the
    loads, sources, networks, grounds and frequencies in force, and on an execute card logs
    a run group (theories Nec2_Parser, Nec2_Loads, Nec2);
  \<^item> a second pass at the end of the deck turns the log into the records of
    \<^verbatim>\<open>deck/model.py\<close> (theory Deck_Model for the records, \<^theory_text>\<open>Nec2.model\<close> for the pass);
  \<^item> the NEC-4.2 dialect, \<^verbatim>\<open>deck/_nec4.py\<close>, is the same machine with other geometry cards
    (theory Nec4_Curves: the arc, the log-spiral and the catenary) and other methods (theory
    Nec4: current sources, the extended kernel, further tables of a run).

  \<^bold>\<open>From model to mesh\<close>, \<^verbatim>\<open>deck/_polylines.py\<close>.  Theory Mesh_Spans: the wires split at the
  ground plane and cut into spans, so that a port has an element of its own.  Theory
  Mesh_Chain: span ends fused into nodes on a grid, the nodes that end a polyline, the walk
  that chains spans between them, the cutting of closed loops, the junctions, the ports in
  the solver's order, and \<^theory_text>\<open>to_polylines\<close>, which composes them.

  \<^bold>\<open>Filling\<close>, \<^verbatim>\<open>_schedule.py\<close> and \<^verbatim>\<open>_cancel.py\<close>.  Theory Schedule: the walk over an
  interaction matrix in chunks and windows within a memory budget, its restriction to rows,
  and the prepared fill that is replayed.  Theory Cancel: tokens, checkpoints and scopes.

  \<^bold>\<open>Circuits\<close>, \<^verbatim>\<open>networks/_spec.py\<close>, \<^verbatim>\<open>_reduce.py\<close> and \<^verbatim>\<open>_reducer.py\<close>.  Theory
  Network_Spec: ports, branches, sources and the validation of a network.  Theory
  Network_Stamp: the matrices of lines, the elements and the assembled system.  Theory
  Network_Reducer: the class \<^verbatim>\<open>NetworkReducer\<close>, each branch stamped, the terminations, and
  what is read out of a solution.  Theory Network_Diagnosis: which line made a system
  singular.

  \<^bold>\<open>Serving\<close>, \<^verbatim>\<open>serve/_pool.py\<close>.  Theory Serve_Sizing: how many workers.  Theory
  Serve_Pool: the pool as a step relation, with checkout, release, reaping, spawning and its
  back-off, closing, and the threads that answer calls.  A process is alive from its launch,
  before it is ready and listed, until a thread stops it or it dies; stopping is a step of its own after
  the locked block that decides it; a call that waits on the condition sleeps until a notification or a
  timeout wakes it.

  \<^bold>\<open>What stands for what.\<close>
  A frozen dataclass is a \<^theory_text>\<open>record\<close> with the same fields; an optional or a tagged
  value is a datatype; the mutable attributes of an object are one record, passed and
  returned.  A Python function that may raise returns a sum whose left side is the exception
  (\<^theory_text>\<open>pyexn\<close> of theory Errors, \<^theory_text>\<open>net_exn\<close> of Network_Spec).  The reader's documented failure is
  DeckError, with a constructor for each message of the source; the built-in exceptions an
  expression raises are model values precisely so that their absence, or presence, can
  be stated.  A method of the parser that a dialect overrides is a field of the record
  \<^theory_text>\<open>hooks\<close>, so that the part the dialects share is translated once.  A dictionary whose
  insertion order matters is an association list; other dictionaries are maps.

  \<^bold>\<open>Numbers.\<close>  Python integers are HOL integers, or natural numbers where they count or
  index.  A Python float of a deck is a value of
  the datatype \<^theory_text>\<open>flt\<close> (theory Pyfloat): a real, an infinity or a nan.  Arithmetic on the finite
  values is exact, an exact result beyond the largest double becomes an
  infinity as it does in Python, and the comparison and nan rules are those of Python.
  Rounding, underflow and the sign of zero are not modelled: what is proved is the
  behaviour of the code's decisions and formulas, not a bound on floating-point error.  Two
  nans inside compared tuples count as one.  The circuit theories compute with exact real
  and complex numbers; where numpy would make an infinity or a nan the result is the value
  \<^theory_text>\<open>NotFinite\<close>, and nothing is said of what follows.  Strings are lists of ASCII characters,
  with Python's white space, line terminators, float and int literals (theory
  Pystring).

  \<^bold>\<open>Parameters.\<close>  LAPACK's \<^verbatim>\<open>zgesvx\<close> is an argument of the circuit solve; \<^theory_text>\<open>sound_solver\<close>
  states what is relied on: a solution it returns solves the system.  The core of a
  transformer and measured data are functions of the frequency.  The probes of the operating
  system are arguments of the sizing functions, and the callbacks of a fill may raise.

  \<^bold>\<open>Bounds and fuel.\<close>  The bisection of the catenary runs the code's own 200 steps; with exact
  arithmetic its early exit, where the midpoint rounds to an end, is taken only when the ends are equal, so
  nothing is claimed of its accuracy.  Loops without a structural measure run on fuel and give
  \<^theory_text>\<open>Diverges\<close> when that runs out.  The parent walk of the union-find has as much fuel as there
  are parents, and \<^theory_text>\<open>clustering_terminates\<close> shows that it is enough on any
  state the snapping pass reaches.  The walk over the spans, the search for a closed loop and
  the cutting of loops have as much as there are spans, and \<^theory_text>\<open>mesh_returns\<close> shows that
  it is enough: every step of a walk uses an unwalked span.  All other recursion is total by its structure or by a
  measure.  The coordinate limit of a wire is the code's own.

  \<^bold>\<open>Which lemmas show what.\<close>
  \<^item> Prelude, Pyfloat, Pystring, Errors: the shared vocabulary, its simplification rules and
    the rules that take a chain of fallible steps apart.
  \<^item> Geometry_Laws, Structure_Laws, Addressing: the wire list stays well formed under
    every geometry card; each wire of the list is cut into pieces that partition its
    elements; an address is answered by exactly one piece.
  \<^item> Union_Find, Snap_Laws: the union-find is a forest, its roots are the clusters of the
    equivalence closure of the pairs in range, and each end moves to its cluster's root.
  \<^item> Symmetry_Laws: reflections, rotations and the copies they make.
  \<^item> Nec2_Laws, Load_Laws, Model_Laws: every handler keeps the parser's invariant and changes
    only its part of the state; the second pass.
  \<^item> Escapes: the exceptions other than DeckError that cannot leave the reader.
  \<^item> Runs: an abstract machine of drives and run groups, and the simulation that the
    parser implements it.
  \<^item> Nec4_Laws, Nec4_Reading, Example_Nec4: the NEC-4.2 dialect meets the interfaces below,
    and what it keeps over a deck; Curve_Laws: the catenary, the log-spiral.
  \<^item> Deck_Reading, Example_Deck, Card_Text: the reader over a whole deck, a worked deck
    with the state after every card, and a writer of cards.
  \<^item> Mesh_Walk, Mesh_Paths, Mesh_Loops, Mesh_Cuts, Mesh_Cycles: the chaining.  An edge set is
    closed at a node when it holds all of the node's edges or none; the walks keep the walked
    spans closed at every inner node, so a walk never runs into a walked span, and what
    the walks from the ends of polylines leave are closed loops.  Mesh_Laws: the graph of
    the spans, and the ends that meet at a node.  Mesh_Counts, Mesh_Ports: elements, and the first port
    of each element, survive the cutting.  Mesh_Errors: the exceptions that cannot occur.  Mesh_Example: a square loop.
  \<^item> Schedule_Laws: the plan of a fill's blocks, in which each row meets each source once, in order, at the
    chunks' own boundaries; nothing is assumed of what a block computes.
  \<^item> Serve_Pool_Laws: the invariants of the pool over its steps: who holds a worker, which processes
    are alive and who will stop them, and who a sleeping call can count on.
  \<^item> Network_Laws, Network_Circuit, Network_Stamping, Network_Ending, Network_Solution: the
    assembled system is Kirchhoff's and the branches' laws.  The stamp of an admittance matrix that names
    a node twice loses entries: \<^theory_text>\<open>assembled\<close> is the network with what is kept, and \<^theory_text>\<open>apart\<close> says that a
    branch loses none.  Network_Power, Network_Balance:
    the power budget adds up.  Network_Linear, Network_Reference: superposition, and that
    the driven impedance does not depend on the reference impedance.  Network_Lines: chain
    and admittance matrices describe the same line.  Network_Names, Network_Wellformed: what
    validation and construction guarantee.  Network_Example: a worked circuit.
  \<^item> Deck_Properties, Geometry_Properties, Card_Properties, Nec4_Properties, Curve_Properties,
    Mesh_Properties, Schedule_Properties, Serve_Properties, Network_Properties: the numbered properties, each
    followed by a theorem that applies it to concrete input.

  \<^bold>\<open>Interfaces.\<close>  The locales state what one part promises another: the reading of
  geometry cards over any list of card steps, the parser over any dialect, the abstract run
  machine, and a circuit with one source seen through a reference impedance (\<^theory_text>\<open>one_source\<close>).  Each is
  interpreted on the definitions above in the theory that provides them.

  \<^bold>\<open>Not modelled.\<close>  The solvers are numerical quadrature and
  dense linear algebra over numpy arrays: their correctness is a matter of rounding and of
  the error of a discretisation, which exact arithmetic would hide.  The drop-in
  executables format reports and manage processes and sockets around them.  The NEC-5 reader
  parses a fourth of the language into records of its own that only the drop-in reads; it shares
  the card reader and the curves with the dialects modelled here, and nothing modelled here
  calls it.  The choice of a solver class and its keyword arguments
  depend on tables of the solver classes, and the translation of TL and NT cards into networks is glue
  between the two.  Of the serve pool, the pipes, the log and the wire format are outside.
  Message texts are not modelled, only which message is given and with which
  values that the decision depends on.
\<close>

end
